(* ===== verification/Prelude.thy ===== *)
theory Prelude
  imports Main "HOL-Library.Word" "HOL-Library.Sublist"
begin

text \<open>
  The vocabulary every other theory of the development uses: the error classes of
  \<^verbatim>\<open>src/utils/errors.ts\<close>, the string operations of the JavaScript standard library that the
  code calls (\<^verbatim>\<open>trim\<close>, \<^verbatim>\<open>toLowerCase\<close>, \<^verbatim>\<open>split\<close>, \<^verbatim>\<open>join\<close>, \<^verbatim>\<open>Number\<close>, number to text),
  computations that may throw, and a locale for operations that keep an invariant.

  A JavaScript string is a list of characters, each a UTF-16 code unit below 256 (ASCII and
  Latin-1); strings with other code units are outside the model.
\<close>

section \<open>Shared automation\<close>

named_theorems js_simps \<open>unfolding rules for the JavaScript library operations\<close>
named_theorems inv_intros \<open>every operation that keeps the invariant of its component\<close>

section \<open>Errors\<close>

text \<open>The classes of \<^verbatim>\<open>errors.ts\<close>, the built-in errors the code throws, each with its message.\<close>

datatype js_error =
    ConfigError string
  | ProtocolError string
  | NetworkError string
  | TimeoutError string
  | OutboundBlockedError string
  | RuntimeError string
  | PlainError string
  | RangeError string
  | TypeError string

fun errorMessage :: "js_error \<Rightarrow> string" where
  "errorMessage (ConfigError m) = m"
| "errorMessage (ProtocolError m) = m"
| "errorMessage (NetworkError m) = m"
| "errorMessage (TimeoutError m) = m"
| "errorMessage (OutboundBlockedError m) = m"
| "errorMessage (RuntimeError m) = m"
| "errorMessage (PlainError m) = m"
| "errorMessage (RangeError m) = m"
| "errorMessage (TypeError m) = m"

fun errorCode :: "js_error \<Rightarrow> string option" where
  "errorCode (ConfigError _) = Some ''CONFIG_ERROR''"
| "errorCode (ProtocolError _) = Some ''PROTOCOL_ERROR''"
| "errorCode (NetworkError _) = Some ''NETWORK_ERROR''"
| "errorCode (TimeoutError _) = Some ''TIMEOUT''"
| "errorCode (OutboundBlockedError _) = Some ''OUTBOUND_BLOCKED''"
| "errorCode (RuntimeError _) = Some ''RUNTIME_ERROR''"
| "errorCode _ = None"

text \<open>A computation that returns or throws.\<close>

type_synonym 'a result = "js_error + 'a"

definition rbind :: "'a result \<Rightarrow> ('a \<Rightarrow> 'b result) \<Rightarrow> 'b result" where
  "rbind m f = (case m of Inl e \<Rightarrow> Inl e | Inr x \<Rightarrow> f x)"

lemma rbind_simps [simp]:
  "rbind (Inl e) f = Inl e"
  "rbind (Inr x) f = f x"
  by (simp_all add: rbind_def)

lemma rbind_Inr_iff: "rbind m f = Inr y \<longleftrightarrow> (\<exists>x. m = Inr x \<and> f x = Inr y)"
  by (cases m) simp_all

text \<open>A list of computations, run from the left, that stops at the first throw.\<close>

fun rmap :: "('a \<Rightarrow> 'b result) \<Rightarrow> 'a list \<Rightarrow> 'b list result" where
  "rmap f [] = Inr []"
| "rmap f (x # xs) = rbind (f x) (\<lambda>y. rbind (rmap f xs) (\<lambda>ys. Inr (y # ys)))"

lemma rmap_Inr_iff: "rmap f xs = Inr ys \<longleftrightarrow> list_all2 (\<lambda>x y. f x = Inr y) xs ys"
  by (induction xs arbitrary: ys) (auto simp: rbind_Inr_iff list_all2_Cons1)

lemma rmap_total: "(\<And>x. x \<in> set xs \<Longrightarrow> f x = Inr (g x)) \<Longrightarrow> rmap f xs = Inr (map g xs)"
  by (induction xs) simp_all

section \<open>Strings\<close>

definition char_code :: "char \<Rightarrow> nat" where
  "char_code c = of_char c"

definition is_space :: "char \<Rightarrow> bool" where
  "is_space c \<longleftrightarrow> char_code c \<in> {9, 10, 11, 12, 13, 32, 160}"

definition js_trim :: "string \<Rightarrow> string" where
  "js_trim s = rev (dropWhile is_space (rev (dropWhile is_space s)))"

definition lower_char :: "char \<Rightarrow> char" where
  "lower_char c =
     (let n = char_code c in
      if (65 \<le> n \<and> n \<le> 90) \<or> (192 \<le> n \<and> n \<le> 222 \<and> n \<noteq> 215) then char_of (n + 32) else c)"

definition js_lower :: "string \<Rightarrow> string" where
  "js_lower s = map lower_char s"

definition is_digit :: "char \<Rightarrow> bool" where
  "is_digit c \<longleftrightarrow> 48 \<le> char_code c \<and> char_code c \<le> 57"

definition digit_value :: "char \<Rightarrow> nat" where
  "digit_value c = char_code c - 48"

definition digit_char :: "nat \<Rightarrow> char" where
  "digit_char n = char_of (48 + n)"

definition hex_value :: "char \<Rightarrow> nat option" where
  "hex_value c =
     (let n = char_code c in
      if 48 \<le> n \<and> n \<le> 57 then Some (n - 48)
      else if 97 \<le> n \<and> n \<le> 102 then Some (n - 87)
      else if 65 \<le> n \<and> n \<le> 70 then Some (n - 55)
      else None)"

definition hex_char :: "nat \<Rightarrow> char" where
  "hex_char n = (if n < 10 then char_of (48 + n) else char_of (87 + n))"

text \<open>\<^verbatim>\<open>s.split(c)\<close> for a one-character separator; \<^verbatim>\<open>s.split("::")\<close> is \<open>split_pair\<close>.\<close>

fun split_on :: "char \<Rightarrow> string \<Rightarrow> string list" where
  "split_on c [] = [[]]"
| "split_on c (x # xs) =
     (if x = c then [] # split_on c xs
      else (case split_on c xs of [] \<Rightarrow> [[x]] | p # ps \<Rightarrow> (x # p) # ps))"

fun split_pair :: "char \<Rightarrow> string \<Rightarrow> string list" where
  "split_pair c (x # y # xs) =
     (if x = c \<and> y = c then [] # split_pair c xs
      else (case split_pair c (y # xs) of [] \<Rightarrow> [[x]] | p # ps \<Rightarrow> (x # p) # ps))"
| "split_pair c s = [s]"

fun js_join :: "string \<Rightarrow> string list \<Rightarrow> string" where
  "js_join sep [] = []"
| "js_join sep [s] = s"
| "js_join sep (s # t # ss) = s @ sep @ js_join sep (t # ss)"

text \<open>\<^verbatim>\<open>String(n)\<close> for a natural number, and \<^verbatim>\<open>n.toString(16)\<close>.\<close>

fun show_nat :: "nat \<Rightarrow> string" where
  "show_nat n = (if n < 10 then [digit_char n] else show_nat (n div 10) @ [digit_char (n mod 10)])"

declare show_nat.simps [simp del]

fun show_hex :: "nat \<Rightarrow> string" where
  "show_hex n = (if n < 16 then [hex_char n] else show_hex (n div 16) @ [hex_char (n mod 16)])"

declare show_hex.simps [simp del]

definition show_int :: "int \<Rightarrow> string" where
  "show_int i = (if i < 0 then ''-'' @ show_nat (nat (- i)) else show_nat (nat i))"

definition quoted :: "string \<Rightarrow> string" where
  "quoted s = [CHR 0x22] @ s @ [CHR 0x22]"

fun read_nat_acc :: "nat \<Rightarrow> string \<Rightarrow> nat" where
  "read_nat_acc a [] = a"
| "read_nat_acc a (c # cs) = read_nat_acc (10 * a + digit_value c) cs"

definition read_nat :: "string \<Rightarrow> nat" where
  "read_nat s = read_nat_acc 0 s"

fun read_hex_acc :: "nat \<Rightarrow> string \<Rightarrow> nat" where
  "read_hex_acc a [] = a"
| "read_hex_acc a (c # cs) = read_hex_acc (16 * a + (case hex_value c of Some d \<Rightarrow> d | None \<Rightarrow> 0)) cs"

definition read_hex :: "string \<Rightarrow> nat" where
  "read_hex s = read_hex_acc 0 s"

subsection \<open>Facts about strings\<close>

lemma split_on_nonempty [simp]: "split_on c s \<noteq> []"
  by (induction s) (auto split: list.splits)

lemma split_on_no_sep: "p \<in> set (split_on c s) \<Longrightarrow> c \<notin> set p"
proof (induction s arbitrary: p)
  case (Cons x xs)
  obtain q qs where "split_on c xs = q # qs" by (cases "split_on c xs") auto
  with Cons show ?case by (auto split: if_splits)
qed simp

lemma split_on_absent: "c \<notin> set s \<Longrightarrow> split_on c s = [s]"
  by (induction s) auto

lemma split_on_append: "c \<notin> set p \<Longrightarrow> split_on c (p @ c # s) = p # split_on c s"
  by (induction p) auto

lemma split_on_join:
  "ps \<noteq> [] \<Longrightarrow> (\<And>p. p \<in> set ps \<Longrightarrow> c \<notin> set p) \<Longrightarrow> split_on c (js_join [c] ps) = ps"
proof (induction ps rule: induct_list012)
  case (2 p)
  then show ?case by (simp add: split_on_absent)
next
  case (3 p q ps)
  then show ?case by (simp add: split_on_append)
qed simp

lemma js_join_split_on: "js_join [c] (split_on c s) = s"
proof (induction s)
  case (Cons x xs)
  obtain q qs where eq: "split_on c xs = q # qs" by (cases "split_on c xs") auto
  from Cons.IH have IH: "js_join [c] (q # qs) = xs" by (simp add: eq)
  show ?case
  proof (cases qs)
    case Nil
    with IH eq show ?thesis by simp
  next
    case (Cons r rs)
    with IH eq show ?thesis by simp
  qed
qed simp

lemma digit_char_code: "n < 10 \<Longrightarrow> char_code (digit_char n) = 48 + n"
  by (simp add: char_code_def digit_char_def)

lemma digit_char_value [simp]: "n < 10 \<Longrightarrow> digit_value (digit_char n) = n"
  by (simp add: digit_value_def digit_char_code)

lemma is_digit_digit_char [simp]: "n < 10 \<Longrightarrow> is_digit (digit_char n)"
  by (simp add: is_digit_def digit_char_code)

lemma hex_value_hex_char [simp]: "n < 16 \<Longrightarrow> hex_value (hex_char n) = Some n"
  by (auto simp: hex_value_def hex_char_def char_code_def Let_def)

lemma show_nat_nonempty [simp]: "show_nat n \<noteq> []"
  by (subst show_nat.simps) simp

lemma show_nat_digits: "\<forall>c \<in> set (show_nat n). is_digit c"
proof (induction n rule: show_nat.induct)
  case (1 n)
  then show ?case by (subst show_nat.simps) auto
qed

lemma read_nat_acc_append: "read_nat_acc a (s @ t) = read_nat_acc (read_nat_acc a s) t"
  by (induction s arbitrary: a) simp_all

lemma read_hex_acc_append: "read_hex_acc a (s @ t) = read_hex_acc (read_hex_acc a s) t"
  by (induction s arbitrary: a) simp_all

lemma read_show_nat [simp]: "read_nat (show_nat n) = n"
proof (induction n rule: show_nat.induct)
  case (1 n)
  then show ?case
    by (subst show_nat.simps) (simp add: read_nat_def read_nat_acc_append)
qed

lemma read_show_hex [simp]: "read_hex (show_hex n) = n"
proof (induction n rule: show_hex.induct)
  case (1 n)
  then show ?case
    by (subst show_hex.simps) (simp add: read_hex_def read_hex_acc_append)
qed

lemma show_nat_inject [simp]: "show_nat m = show_nat n \<longleftrightarrow> m = n"
  by (metis read_show_nat)

lemma lower_char_idem [simp]: "lower_char (lower_char c) = lower_char c"
  by (auto simp: lower_char_def char_code_def Let_def)

lemma js_lower_idem [simp]: "js_lower (js_lower s) = js_lower s"
  by (simp add: js_lower_def)

lemma length_js_lower [simp]: "length (js_lower s) = length s"
  by (simp add: js_lower_def)

lemma length_show_nat_le: "n < 10 ^ k \<Longrightarrow> 0 < k \<Longrightarrow> length (show_nat n) \<le> k"
proof (induction k arbitrary: n)
  case (Suc k)
  show ?case
  proof (cases "n < 10")
    case True
    then show ?thesis by (subst show_nat.simps) simp
  next
    case False
    with Suc.prems have "n div 10 < 10 ^ k" and "0 < k"
      by (auto simp: less_mult_imp_div_less mult.commute intro: gr0I)
    then have "length (show_nat (n div 10)) \<le> k" by (rule Suc.IH)
    with False show ?thesis by (subst show_nat.simps) simp
  qed
qed simp

section \<open>Numbers read from text\<close>

text \<open>
  \<^verbatim>\<open>Number(s)\<close> as the code uses it: the result is only tested with \<^verbatim>\<open>Number.isInteger\<close> and
  compared with bounds, so a number that is no integer (a fraction, \<^verbatim>\<open>NaN\<close>, an infinity) is one
  value. The text is trimmed; the empty text is 0; \<^verbatim>\<open>0x\<close>, \<^verbatim>\<open>0o\<close> and \<^verbatim>\<open>0b\<close> prefixes and decimal
  literals with a sign, a fraction and an exponent are read exactly (a literal of more digits
  than a double holds would be rounded by the engine).
\<close>

datatype jsnum = JInt int | JNonInt

fun isInteger :: "jsnum \<Rightarrow> bool" where
  "isInteger (JInt _) = True"
| "isInteger JNonInt = False"

definition all_digits :: "string \<Rightarrow> bool" where
  "all_digits s \<longleftrightarrow> (\<forall>c \<in> set s. is_digit c)"

definition radix_value :: "nat \<Rightarrow> string \<Rightarrow> jsnum" where
  "radix_value b s =
     (if s \<noteq> [] \<and> list_all (\<lambda>c. case hex_value c of Some d \<Rightarrow> d < b | None \<Rightarrow> False) s
      then JInt (int (fold (\<lambda>c a. b * a + the (hex_value c)) s 0)) else JNonInt)"

definition read_exponent :: "string \<Rightarrow> int option" where
  "read_exponent s =
     (case s of
        [] \<Rightarrow> None
      | c # cs \<Rightarrow>
          if c = CHR ''-'' then (if cs \<noteq> [] \<and> all_digits cs then Some (- int (read_nat cs)) else None)
          else if c = CHR ''+'' then (if cs \<noteq> [] \<and> all_digits cs then Some (int (read_nat cs)) else None)
          else (if all_digits (c # cs) then Some (int (read_nat (c # cs))) else None))"

definition scale_decimal :: "nat \<Rightarrow> int \<Rightarrow> jsnum" where
  "scale_decimal m e =
     (if 0 \<le> e then JInt (int (m * 10 ^ nat e))
      else if m mod 10 ^ nat (- e) = 0 then JInt (int (m div 10 ^ nat (- e))) else JNonInt)"

definition read_decimal :: "string \<Rightarrow> jsnum" where
  "read_decimal s =
     (let mant = takeWhile (\<lambda>c. c \<noteq> CHR ''e'' \<and> c \<noteq> CHR ''E'') s;
          expo = dropWhile (\<lambda>c. c \<noteq> CHR ''e'' \<and> c \<noteq> CHR ''E'') s;
          whole = takeWhile (\<lambda>c. c \<noteq> CHR ''.'') mant;
          frac = drop 1 (dropWhile (\<lambda>c. c \<noteq> CHR ''.'') mant);
          e = (if expo = [] then Some 0 else read_exponent (drop 1 expo))
      in if whole @ frac \<noteq> [] \<and> all_digits whole \<and> all_digits frac
         then (case e of None \<Rightarrow> JNonInt
               | Some k \<Rightarrow> scale_decimal (read_nat (whole @ frac)) (k - int (length frac)))
         else JNonInt)"

fun negate_num :: "jsnum \<Rightarrow> jsnum" where
  "negate_num (JInt i) = JInt (- i)"
| "negate_num JNonInt = JNonInt"

definition js_Number :: "string \<Rightarrow> jsnum" where
  "js_Number text =
     (let s = js_trim text; p = map lower_char (take 2 s) in
      if s = [] then JInt 0
      else if p = ''0x'' then radix_value 16 (drop 2 s)
      else if p = ''0o'' then radix_value 8 (drop 2 s)
      else if p = ''0b'' then radix_value 2 (drop 2 s)
      else if hd s = CHR ''-'' then negate_num (read_decimal (tl s))
      else if hd s = CHR ''+'' then read_decimal (tl s)
      else read_decimal s)"

text \<open>On a plain run of digits, \<^verbatim>\<open>Number\<close> is its decimal value.\<close>

lemma is_digit_not_space: "is_digit c \<Longrightarrow> \<not> is_space c"
  by (auto simp: is_digit_def is_space_def)

lemma js_trim_id: "\<forall>c \<in> set s. \<not> is_space c \<Longrightarrow> js_trim s = s"
proof -
  assume s: "\<forall>c \<in> set s. \<not> is_space c"
  have "dropWhile is_space t = t" if "set t = set s" for t
    using s that by (cases t) auto
  from this [of s] this [of "rev s"] show ?thesis by (simp add: js_trim_def)
qed

lemma is_digit_neq:
  assumes "is_digit c"
  shows "c \<noteq> CHR ''e''" "c \<noteq> CHR ''E''" "c \<noteq> CHR ''.''" "c \<noteq> CHR ''-''" "c \<noteq> CHR ''+''"
    "lower_char c \<noteq> CHR ''x''" "lower_char c \<noteq> CHR ''o''" "lower_char c \<noteq> CHR ''b''"
  using assms by (auto simp: is_digit_def char_code_def lower_char_def Let_def)

lemma read_decimal_digits:
  assumes "s \<noteq> []" "all_digits s"
  shows "read_decimal s = JInt (int (read_nat s))"
proof -
  have mant: "takeWhile (\<lambda>c. c \<noteq> CHR ''e'' \<and> c \<noteq> CHR ''E'') s = s"
    "dropWhile (\<lambda>c. c \<noteq> CHR ''e'' \<and> c \<noteq> CHR ''E'') s = []"
    "takeWhile (\<lambda>c. c \<noteq> CHR ''.'') s = s" "dropWhile (\<lambda>c. c \<noteq> CHR ''.'') s = []"
    using assms(2) by (auto simp: all_digits_def is_digit_neq takeWhile_eq_all_conv dropWhile_eq_Nil_conv)
  show ?thesis
    unfolding read_decimal_def mant Let_def using assms by (simp add: scale_decimal_def all_digits_def)
qed

lemma js_Number_digits:
  assumes "s \<noteq> []" "all_digits s"
  shows "js_Number s = JInt (int (read_nat s))"
proof -
  have trim: "js_trim s = s"
    using assms(2) by (auto simp: all_digits_def is_digit_not_space intro: js_trim_id)
  obtain c cs where s: "s = c # cs" using assms(1) by (cases s) auto
  have "map lower_char (take 2 s) \<notin> {''0x'', ''0o'', ''0b''}"
    using assms(2) by (cases cs) (auto simp: s all_digits_def is_digit_neq)
  moreover have "hd s \<noteq> CHR ''-''" "hd s \<noteq> CHR ''+''"
    using assms(2) by (auto simp: s all_digits_def is_digit_neq)
  ultimately show ?thesis
    using assms trim by (simp add: js_Number_def read_decimal_digits Let_def)
qed

lemma js_Number_show_nat [simp]: "js_Number (show_nat n) = JInt (int n)"
  by (simp add: js_Number_digits all_digits_def show_nat_digits)

section \<open>Lists updated in place\<close>

lemma filter_update:
  "i < length xs \<Longrightarrow> P (xs ! i) \<Longrightarrow> \<not> P y \<Longrightarrow> Suc (length (filter P (xs[i := y]))) = length (filter P xs)"
  "i < length xs \<Longrightarrow> P (xs ! i) = P y \<Longrightarrow> length (filter P (xs[i := y])) = length (filter P xs)"
  by (induction xs arbitrary: i) (auto split: nat.splits simp: nth_Cons' less_Suc_eq_0_disj)

section \<open>Operations that keep an invariant\<close>

text \<open>
  A component whose operations are a datatype and whose invariant every operation keeps. The
  client only sees runs of operations: whatever the order of the calls, the invariant holds
  after them. Every stateful component of the model interprets this locale.
\<close>

locale invariant_system =
  fixes step :: "'op \<Rightarrow> 's \<Rightarrow> 's"
    and inv :: "'s \<Rightarrow> bool"
  assumes step_keeps: "inv s \<Longrightarrow> inv (step x s)"
begin

lemma run_keeps: "inv s \<Longrightarrow> inv (fold step xs s)"
  by (induction xs arbitrary: s) (auto intro: step_keeps)

lemma prefix_keeps: "inv s \<Longrightarrow> inv (fold step (take n xs) s)"
  by (rule run_keeps)

end

end
