(* ===== verification/Matcher.thy ===== *)
theory Matcher
  imports Prelude
begin

text \<open>
  Host matching: the IP literals of \<^verbatim>\<open>net.isIP\<close>, \<^verbatim>\<open>src/utils/net.ts\<close> (\<open>detectAddressType\<close>) and
  \<^verbatim>\<open>src/router/matcher.ts\<close> (domains, IPv4 and IPv6 literals as integers, CIDR blocks). The big
  integers of the source are natural numbers; its shifts are \<open>drop_bit\<close> and \<open>push_bit\<close>.
\<close>

unbundle bit_operations_syntax

section \<open>IP literals of the Node library\<close>

text \<open>
  \<^verbatim>\<open>net.isIP\<close> is defined by two regular expressions of the Node library. An IPv4 segment is
  a number up to 255 without leading zeros. An IPv6 literal is eight groups, or at most seven
  around one \<open>::\<close>; its last two groups may be written as an IPv4 literal; a zone may follow.
\<close>

definition v4_segment :: "string \<Rightarrow> bool" where
  "v4_segment s \<longleftrightarrow>
     s \<noteq> [] \<and> all_digits s \<and> length s \<le> 3 \<and> read_nat s \<le> 255 \<and> (length s = 1 \<or> hd s \<noteq> CHR ''0'')"

definition isIPv4 :: "string \<Rightarrow> bool" where
  "isIPv4 s \<longleftrightarrow> (let ps = split_on (CHR ''.'') s in length ps = 4 \<and> list_all v4_segment ps)"

definition v6_segment :: "string \<Rightarrow> bool" where
  "v6_segment s \<longleftrightarrow> s \<noteq> [] \<and> length s \<le> 4 \<and> list_all (\<lambda>c. hex_value c \<noteq> None) s"

fun v6_plain_groups :: "string list \<Rightarrow> nat option" where
  "v6_plain_groups [] = Some 0"
| "v6_plain_groups (p # ps) = (if v6_segment p then map_option Suc (v6_plain_groups ps) else None)"

fun v6_groups :: "string list \<Rightarrow> nat option" where
  "v6_groups [] = Some 0"
| "v6_groups [p] = (if v6_segment p then Some 1 else if isIPv4 p then Some 2 else None)"
| "v6_groups (p # q # ps) = (if v6_segment p then map_option Suc (v6_groups (q # ps)) else None)"

definition colon_parts :: "string \<Rightarrow> string list" where
  "colon_parts s = (if s = [] then [] else split_on (CHR '':'') s)"

definition v6_core :: "string \<Rightarrow> bool" where
  "v6_core s =
     (case split_pair (CHR '':'') s of
        [a] \<Rightarrow> v6_groups (colon_parts a) = Some 8
      | [a, b] \<Rightarrow> (case (v6_plain_groups (colon_parts a), v6_groups (colon_parts b)) of
                    (Some m, Some n) \<Rightarrow> m + n \<le> 7
                  | _ \<Rightarrow> False)
      | _ \<Rightarrow> False)"

definition zone_char :: "char \<Rightarrow> bool" where
  "zone_char c \<longleftrightarrow>
     is_digit c \<or> (let n = char_code (lower_char c) in 97 \<le> n \<and> n \<le> 122) \<or> c \<in> {CHR ''-'', CHR ''.'', CHR '':''}"

definition before_zone :: "string \<Rightarrow> string" where
  "before_zone s = takeWhile (\<lambda>c. c \<noteq> CHR ''%'') s"

definition zone_of :: "string \<Rightarrow> string" where
  "zone_of s = dropWhile (\<lambda>c. c \<noteq> CHR ''%'') s"

definition isIPv6 :: "string \<Rightarrow> bool" where
  "isIPv6 s \<longleftrightarrow>
     v6_core (before_zone s) \<and> (zone_of s = [] \<or> (tl (zone_of s) \<noteq> [] \<and> list_all zone_char (tl (zone_of s))))"

definition isIP :: "string \<Rightarrow> nat" where
  "isIP s = (if isIPv4 s then 4 else if isIPv6 s then 6 else 0)"

datatype address_type = Ipv4 | Ipv6 | Domain

definition detectAddressType :: "string \<Rightarrow> address_type" where
  "detectAddressType host =
     (let ipVersion = isIP host in if ipVersion = 4 then Ipv4 else if ipVersion = 6 then Ipv6 else Domain)"

record destination =
  d_host :: string
  d_port :: nat
  d_addressType :: address_type

definition makeDestination :: "string \<Rightarrow> nat \<Rightarrow> destination" where
  "makeDestination host port = \<lparr>d_host = host, d_port = port, d_addressType = detectAddressType host\<rparr>"

section \<open>Domains\<close>

definition normalizeDomain :: "string \<Rightarrow> string" where
  "normalizeDomain domain = js_lower (js_trim domain)"

definition matchesExactDomain :: "string \<Rightarrow> string list \<Rightarrow> bool" where
  "matchesExactDomain host domains \<longleftrightarrow> normalizeDomain host \<in> set domains"

definition strip_dot :: "string \<Rightarrow> string" where
  "strip_dot s = (case s of c # cs \<Rightarrow> if c = CHR ''.'' then cs else s | [] \<Rightarrow> [])"

definition matchesDomainSuffix :: "string \<Rightarrow> string list \<Rightarrow> bool" where
  "matchesDomainSuffix host sufs =
     (let normalizedHost = normalizeDomain host in
      list_ex (\<lambda>suf. let normalizedSuffix = strip_dot (normalizeDomain suf) in
                 normalizedHost = normalizedSuffix
                 \<or> suffix (CHR ''.'' # normalizedSuffix) normalizedHost) sufs)"

section \<open>Addresses as integers\<close>

definition v4_part :: "string \<Rightarrow> nat option" where
  "v4_part part =
     (if part \<noteq> [] \<and> length part \<le> 3 \<and> all_digits part
      then (let v = read_nat part in if v > 255 then None else Some v) else None)"

fun v4_fold :: "string list \<Rightarrow> nat \<Rightarrow> nat option" where
  "v4_fold [] output = Some output"
| "v4_fold (p # ps) output =
     (case v4_part p of None \<Rightarrow> None | Some v \<Rightarrow> v4_fold ps (push_bit 8 output + v))"

definition parseIpv4ToBigInt :: "string \<Rightarrow> nat option" where
  "parseIpv4ToBigInt input =
     (let parts = split_on (CHR ''.'') input in if length parts \<noteq> 4 then None else v4_fold parts 0)"

fun v6_loop :: "string list \<Rightarrow> nat list \<Rightarrow> nat list option" where
  "v6_loop [] groups = Some groups"
| "v6_loop (part # parts) groups =
     (if CHR ''.'' \<in> set part
      then (case parseIpv4ToBigInt part of
              None \<Rightarrow> None
            | Some v \<Rightarrow> v6_loop parts (groups @ [drop_bit 16 v AND 65535, v AND 65535]))
      else if v6_segment part then v6_loop parts (groups @ [read_hex part])
      else None)"

definition parseIpv6Groups :: "string \<Rightarrow> nat list option" where
  "parseIpv6Groups input = (if input = [] then Some [] else v6_loop (split_on (CHR '':'') input) [])"

fun join_groups :: "nat list \<Rightarrow> nat \<Rightarrow> nat option" where
  "join_groups [] output = Some output"
| "join_groups (g # gs) output =
     (if g > 65535 then None else join_groups gs (push_bit 16 output + g))"

definition parseIpv6ToBigInt :: "string \<Rightarrow> nat option" where
  "parseIpv6ToBigInt input =
     (let doubleColonParts = split_pair (CHR '':'') (js_lower input) in
      if length doubleColonParts > 2 then None
      else (let first = parseIpv6Groups (doubleColonParts ! 0);
                second = parseIpv6Groups (if length doubleColonParts = 2 then doubleColonParts ! 1 else []) in
            case (first, second) of
              (Some h, Some t) \<Rightarrow>
                (let groups = (if length doubleColonParts = 2
                               then (if length h + length t > 7 then None
                                     else Some (h @ replicate (8 - length h - length t) 0 @ t))
                               else Some h)
                 in case groups of
                      None \<Rightarrow> None
                    | Some gs \<Rightarrow> if length gs \<noteq> 8 then None else join_groups gs 0)
            | _ \<Rightarrow> None))"

definition parseIpToBigInt :: "string \<Rightarrow> (nat \<times> nat) option" where
  "parseIpToBigInt input =
     (let version = isIP input in
      if version = 4 then map_option (Pair 4) (parseIpv4ToBigInt input)
      else if version = 6 then map_option (Pair 6) (parseIpv6ToBigInt input)
      else None)"

section \<open>CIDR blocks\<close>

record cidr_matcher =
  cm_version :: nat
  cm_network :: nat
  cm_prefix :: nat
  cm_bits :: nat

definition newCidrMatcher :: "string \<Rightarrow> cidr_matcher result" where
  "newCidrMatcher cidr =
     (case split_on (CHR ''/'') cidr of
        [address, prefixText] \<Rightarrow>
          (case parseIpToBigInt address of
             None \<Rightarrow> Inl (ConfigError (''invalid CIDR address '' @ quoted cidr))
           | Some (version, v) \<Rightarrow>
               (let bits = (if version = 4 then 32 else 128) in
                case js_Number prefixText of
                  JInt pfx \<Rightarrow>
                    if pfx < 0 \<or> pfx > int bits then Inl (ConfigError (''invalid CIDR prefix '' @ quoted cidr))
                    else Inr \<lparr>cm_version = version, cm_network = v, cm_prefix = nat pfx, cm_bits = bits\<rparr>
                | JNonInt \<Rightarrow> Inl (ConfigError (''invalid CIDR prefix '' @ quoted cidr))))
      | _ \<Rightarrow> Inl (ConfigError (''invalid CIDR '' @ quoted cidr)))"

definition cidr_matches :: "cidr_matcher \<Rightarrow> string \<Rightarrow> bool" where
  "cidr_matches m host =
     (case parseIpToBigInt host of
        None \<Rightarrow> False
      | Some (version, v) \<Rightarrow>
          if version \<noteq> cm_version m then False
          else if cm_prefix m = 0 then True
          else (let shift = cm_bits m - cm_prefix m in drop_bit shift v = drop_bit shift (cm_network m)))"

definition isValidCidr :: "string \<Rightarrow> bool" where
  "isValidCidr cidr = (case newCidrMatcher cidr of Inl e \<Rightarrow> False | Inr m \<Rightarrow> True)"

section \<open>Values stay in range\<close>

lemma v4_part_le: "v4_part p = Some v \<Longrightarrow> v \<le> 255"
  by (auto simp: v4_part_def Let_def split: if_splits)

lemma v4_fold_range:
  "v4_fold ps a = Some v \<Longrightarrow> a < 2 ^ k \<Longrightarrow> v < 2 ^ (k + 8 * length ps)"
proof (induction ps arbitrary: a k)
  case (Cons p ps)
  then obtain x where x: "v4_part p = Some x" and rest: "v4_fold ps (push_bit 8 a + x) = Some v"
    by (auto split: option.splits)
  have "push_bit 8 a + x < 2 ^ (k + 8)"
    using v4_part_le [OF x] Cons.prems(2) by (simp add: push_bit_eq_mult power_add)
  from Cons.IH [OF rest this] show ?case by (simp add: add.assoc)
qed simp

lemma parseIpv4_range: "parseIpv4ToBigInt s = Some v \<Longrightarrow> v < 2 ^ 32"
  by (auto simp: parseIpv4ToBigInt_def Let_def split: if_splits dest: v4_fold_range [where k = 0])

lemma join_groups_range:
  "join_groups gs a = Some v \<Longrightarrow> a < 2 ^ k \<Longrightarrow> v < 2 ^ (k + 16 * length gs)"
proof (induction gs arbitrary: a k)
  case (Cons g gs)
  then have g: "g \<le> 65535" and rest: "join_groups gs (push_bit 16 a + g) = Some v"
    by (auto split: if_splits)
  have "push_bit 16 a + g < 2 ^ (k + 16)"
    using g Cons.prems(2) by (simp add: push_bit_eq_mult power_add)
  from Cons.IH [OF rest this] show ?case by (simp add: add.assoc)
qed simp

lemma parseIpv6_range: "parseIpv6ToBigInt s = Some v \<Longrightarrow> v < 2 ^ 128"
  by (auto simp: parseIpv6ToBigInt_def Let_def split: option.splits if_splits
      dest: join_groups_range [where k = 0])

lemma parseIp_range:
  "parseIpToBigInt s = Some (version, v) \<Longrightarrow>
     (version = 4 \<and> v < 2 ^ 32) \<or> (version = 6 \<and> v < 2 ^ 128)"
  by (auto simp: parseIpToBigInt_def Let_def dest: parseIpv4_range parseIpv6_range split: if_splits)

section \<open>Dotted quads\<close>

definition dotted :: "nat \<Rightarrow> nat \<Rightarrow> nat \<Rightarrow> nat \<Rightarrow> string" where
  "dotted a b c d = js_join ''.'' [show_nat a, show_nat b, show_nat c, show_nat d]"

lemma show_nat_no_dot: "CHR ''.'' \<notin> set (show_nat n)"
  using show_nat_digits [of n] is_digit_neq(3) by blast

lemma split_dotted:
  "split_on (CHR ''.'') (dotted a b c d) = [show_nat a, show_nat b, show_nat c, show_nat d]"
  unfolding dotted_def by (rule split_on_join) (auto simp: show_nat_no_dot)

lemma length_show_nat_255: "n \<le> 255 \<Longrightarrow> length (show_nat n) \<le> 3"
  using length_show_nat_le [of n 3] by simp

lemma hd_show_nat: "0 < n \<Longrightarrow> hd (show_nat n) \<noteq> CHR ''0''"
proof (induction n rule: show_nat.induct)
  case (1 n)
  show ?case
  proof (cases "n < 10")
    case True
    with 1(2) have "char_code (digit_char n) \<noteq> char_code (CHR ''0'')"
      by (simp add: digit_char_code) (simp add: char_code_def)
    with True show ?thesis by (subst show_nat.simps) auto
  next
    case False
    with 1 show ?thesis by (subst show_nat.simps) simp
  qed
qed

lemma v4_segment_show: "n \<le> 255 \<Longrightarrow> v4_segment (show_nat n)"
proof -
  assume n: "n \<le> 255"
  have "length (show_nat n) = 1 \<or> hd (show_nat n) \<noteq> CHR ''0''"
  proof (cases "n = 0")
    case True
    then show ?thesis by (simp add: show_nat.simps)
  qed (simp add: hd_show_nat)
  with n show ?thesis
    by (simp add: v4_segment_def all_digits_def show_nat_digits length_show_nat_255)
qed

lemma isIPv4_dotted: "a \<le> 255 \<Longrightarrow> b \<le> 255 \<Longrightarrow> c \<le> 255 \<Longrightarrow> d \<le> 255 \<Longrightarrow> isIPv4 (dotted a b c d)"
  by (simp add: isIPv4_def split_dotted v4_segment_show)

lemma v4_part_show: "n \<le> 255 \<Longrightarrow> v4_part (show_nat n) = Some n"
  by (simp add: v4_part_def all_digits_def show_nat_digits length_show_nat_255 Let_def)

lemma parse_dotted:
  assumes "a \<le> 255" "b \<le> 255" "c \<le> 255" "d \<le> 255"
  shows "parseIpToBigInt (dotted a b c d) = Some (4, a * 2 ^ 24 + b * 2 ^ 16 + c * 2 ^ 8 + d)"
  using assms
  by (simp add: parseIpToBigInt_def isIP_def isIPv4_dotted parseIpv4ToBigInt_def split_dotted v4_part_show
      push_bit_eq_mult)

section \<open>A CIDR block is an interval\<close>

definition cidr_base :: "cidr_matcher \<Rightarrow> nat" where
  "cidr_base m = cm_network m div 2 ^ (cm_bits m - cm_prefix m) * 2 ^ (cm_bits m - cm_prefix m)"

definition cidr_size :: "cidr_matcher \<Rightarrow> nat" where
  "cidr_size m = 2 ^ (cm_bits m - cm_prefix m)"

lemma newCidrMatcher_InrD:
  assumes "newCidrMatcher cidr = Inr m"
  shows "(cm_version m = 4 \<and> cm_bits m = 32 \<or> cm_version m = 6 \<and> cm_bits m = 128)
    \<and> cm_prefix m \<le> cm_bits m \<and> cm_network m < 2 ^ cm_bits m"
  using assms
  by (auto simp: newCidrMatcher_def Let_def split: list.splits option.splits jsnum.splits if_splits
      dest!: parseIp_range)

lemma same_quotient_iff: "(0::nat) < d \<Longrightarrow> v div d = n div d \<longleftrightarrow> n div d * d \<le> v \<and> v < n div d * d + d"
  by (metis div_nat_eqI add.commute div_times_less_eq_dividend dividend_less_times_div mult.commute mult_Suc_right)

lemma cidr_matches_interval:
  assumes "newCidrMatcher cidr = Inr m"
  shows "cidr_matches m host \<longleftrightarrow>
     (\<exists>v. parseIpToBigInt host = Some (cm_version m, v) \<and> v \<in> {cidr_base m ..< cidr_base m + cidr_size m})"
proof -
  note m = newCidrMatcher_InrD [OF assms]
  have core: "cm_prefix m = 0 \<or> drop_bit (cm_bits m - cm_prefix m) v = drop_bit (cm_bits m - cm_prefix m) (cm_network m)
      \<longleftrightarrow> v \<in> {cidr_base m ..< cidr_base m + cidr_size m}" if v: "parseIpToBigInt host = Some (cm_version m, v)" for v
  proof (cases "cm_prefix m = 0")
    case True
    from parseIp_range [OF v] m have "v < 2 ^ cm_bits m" by auto
    with True m show ?thesis by (simp add: cidr_base_def cidr_size_def)
  next
    case False
    then show ?thesis
      by (simp add: drop_bit_eq_div cidr_base_def cidr_size_def same_quotient_iff)
  qed
  show ?thesis
    using core by (auto simp: cidr_matches_def Let_def split: option.splits if_splits)
qed

section \<open>Every literal has a value, except one with a zone\<close>

lemma v4_part_of_segment: "v4_segment p \<Longrightarrow> \<exists>v. v4_part p = Some v"
  by (auto simp: v4_segment_def v4_part_def Let_def)

lemma v4_fold_total: "list_all v4_segment ps \<Longrightarrow> \<exists>v. v4_fold ps a = Some v"
proof (induction ps arbitrary: a)
  case (Cons p ps)
  then obtain x where "v4_part p = Some x" using v4_part_of_segment by auto
  with Cons show ?case by simp
qed simp

lemma parseIpv4_total: "isIPv4 s \<Longrightarrow> \<exists>v. parseIpv4ToBigInt s = Some v"
  by (simp add: isIPv4_def parseIpv4ToBigInt_def Let_def v4_fold_total)

lemma lower_char_digit: "is_digit c \<Longrightarrow> lower_char c = c"
  by (auto simp: is_digit_def lower_char_def Let_def)

lemma lower_char_low:
  assumes "char_code d < 65"
  shows "lower_char c = d \<longleftrightarrow> c = d"
proof -
  have "char_code (lower_char c) \<ge> 65" if "lower_char c \<noteq> c"
    using that by (auto simp: lower_char_def char_code_def Let_def split: if_splits)
  moreover have "lower_char d = d" using assms by (auto simp: lower_char_def Let_def)
  ultimately show ?thesis using assms by (metis leD)
qed

lemma lower_char_marks [simp]:
  "lower_char c = CHR ''.'' \<longleftrightarrow> c = CHR ''.''" "lower_char c = CHR '':'' \<longleftrightarrow> c = CHR '':''"
  "lower_char c = CHR ''%'' \<longleftrightarrow> c = CHR ''%''"
  by (simp_all add: lower_char_low char_code_def)

lemma char_code_lower: "char_code (lower_char c) =
    (if 65 \<le> char_code c \<and> char_code c \<le> 90 \<or> 192 \<le> char_code c \<and> char_code c \<le> 222 \<and> char_code c \<noteq> 215
     then char_code c + 32 else char_code c)"
  by (auto simp: lower_char_def Let_def char_code_def)

lemma hex_value_lower [simp]: "hex_value (lower_char c) = hex_value c"
  by (auto simp: hex_value_def char_code_lower Let_def)

lemma v6_segment_lower [simp]: "v6_segment (map lower_char p) = v6_segment p"
  by (simp add: v6_segment_def list_all_iff)

lemma split_on_lower:
  "(\<And>x. lower_char x = c \<longleftrightarrow> x = c) \<Longrightarrow> split_on c (map lower_char s) = map (map lower_char) (split_on c s)"
  by (induction s) (auto split: list.splits)

lemma split_pair_lower:
  "(\<And>x. lower_char x = c \<longleftrightarrow> x = c) \<Longrightarrow> split_pair c (map lower_char s) = map (map lower_char) (split_pair c s)"
  by (induction c s rule: split_pair.induct) (auto split: list.splits)

lemma all_digits_lower: "all_digits s \<Longrightarrow> map lower_char s = s"
  by (auto simp: all_digits_def lower_char_digit intro: map_idI)

lemma v6_segment_no_dot: "v6_segment p \<Longrightarrow> CHR ''.'' \<notin> set p"
  by (auto simp: v6_segment_def list_all_iff hex_value_def char_code_def)

lemma isIPv4_dot: "isIPv4 p \<Longrightarrow> CHR ''.'' \<in> set p"
  using split_on_absent [of "CHR ''.''" p] by (force simp: isIPv4_def Let_def)

lemma isIPv4_lower:
  assumes "isIPv4 p"
  shows "map lower_char p = p"
proof -
  let ?ps = "split_on (CHR ''.'') p"
  have "map (map lower_char) ?ps = ?ps"
    using assms by (auto simp: isIPv4_def Let_def list_all_iff v4_segment_def all_digits_lower intro: map_idI)
  then have "split_on (CHR ''.'') (map lower_char p) = ?ps" by (simp add: split_on_lower)
  then show ?thesis by (metis js_join_split_on)
qed

lemma hex_value_less: "hex_value c = Some d \<Longrightarrow> d < 16"
  by (auto simp: hex_value_def Let_def split: if_splits)

lemma read_hex_acc_less: "a < 16 ^ k \<Longrightarrow> read_hex_acc a s < 16 ^ (k + length s)"
proof (induction s arbitrary: a k)
  case (Cons c s)
  have "(case hex_value c of Some d \<Rightarrow> d | None \<Rightarrow> 0) < 16"
    by (auto split: option.splits dest: hex_value_less)
  with Cons.prems have "16 * a + (case hex_value c of Some d \<Rightarrow> d | None \<Rightarrow> 0) < 16 ^ Suc k" by simp
  from Cons.IH [OF this] show ?case by simp
qed simp

lemma read_hex_segment: "v6_segment p \<Longrightarrow> read_hex p \<le> 65535"
proof -
  assume p: "v6_segment p"
  have "read_hex p < 16 ^ length p" using read_hex_acc_less [of 0 0 p] by (simp add: read_hex_def)
  also have "\<dots> \<le> 16 ^ 4" using p by (intro power_increasing) (simp_all add: v6_segment_def)
  finally show ?thesis by simp
qed

lemma low_16 [simp]: "(v AND 65535) \<le> (65535::nat)"
  using take_bit_nat_less_exp [of 16 v] by (simp add: take_bit_eq_mask mask_eq_exp_minus_1)

lemma v6_segment_no_dot_lower: "v6_segment p \<Longrightarrow> CHR ''.'' \<notin> lower_char ` set p"
  using v6_segment_no_dot [of "map lower_char p"] by simp

lemma v6_loop_segments:
  "list_all v6_segment ps \<Longrightarrow> v6_loop (map (map lower_char) ps @ qs) a =
     v6_loop qs (a @ map (\<lambda>p. read_hex (map lower_char p)) ps)"
  by (induction ps arbitrary: a) (auto simp: v6_segment_no_dot_lower)

lemma v6_plain_groups_Some: "v6_plain_groups ps = Some n \<longleftrightarrow> list_all v6_segment ps \<and> n = length ps"
  by (induction ps arbitrary: n) auto

lemma v6_groups_SomeD:
  "v6_groups ps = Some n \<Longrightarrow>
     (list_all v6_segment ps \<and> n = length ps) \<or>
     (\<exists>qs p. ps = qs @ [p] \<and> list_all v6_segment qs \<and> isIPv4 p \<and> n = length qs + 2)"
proof (induction ps arbitrary: n rule: v6_groups.induct)
  case (3 p q ps)
  then obtain m where m: "v6_segment p" "v6_groups (q # ps) = Some m" "n = Suc m"
    by (auto split: if_splits)
  from 3(1) [OF m(1,2)] m show ?case
  proof (elim disjE exE conjE)
    fix qs r assume "q # ps = qs @ [r]" "list_all v6_segment qs" "isIPv4 r" "m = length qs + 2"
    with m show ?thesis by (intro disjI2 exI [of _ "p # qs"] exI [of _ r]) simp
  qed simp
qed (auto split: if_splits)

lemma v6_loop_value:
  assumes "v6_groups ps = Some n"
  shows "\<exists>xs. v6_loop (map (map lower_char) ps) [] = Some xs \<and> length xs = n \<and> (\<forall>x \<in> set xs. x \<le> 65535)"
  using v6_groups_SomeD [OF assms]
proof (elim disjE exE conjE)
  assume "list_all v6_segment ps" "n = length ps"
  then show ?thesis
    using v6_loop_segments [of ps "[]" "[]"] by (auto simp: list_all_iff read_hex_segment)
next
  fix qs p assume ps: "ps = qs @ [p]" "list_all v6_segment qs" and p: "isIPv4 p" "n = length qs + 2"
  from parseIpv4_total [OF p(1)] obtain v where v: "parseIpv4ToBigInt p = Some v" by blast
  have "v6_loop (map (map lower_char) ps) [] =
      Some (map (\<lambda>p. read_hex (map lower_char p)) qs @ [drop_bit 16 v AND 65535, v AND 65535])"
    using v6_loop_segments [OF ps(2), of "[p]" "[]"] p v
    by (simp add: ps(1) isIPv4_lower isIPv4_dot)
  with ps(2) p(2) show ?thesis by (auto simp: list_all_iff read_hex_segment)
qed

lemma v6_plain_is_groups: "v6_plain_groups ps = Some n \<Longrightarrow> v6_groups ps = Some n"
proof (induction ps arbitrary: n rule: v6_groups.induct)
  case (3 p q ps)
  then show ?case by (auto split: if_splits)
qed (auto split: if_splits)

lemma parseIpv6Groups_value:
  assumes "v6_groups (colon_parts s) = Some n"
  shows "\<exists>xs. parseIpv6Groups (map lower_char s) = Some xs \<and> length xs = n \<and> (\<forall>x \<in> set xs. x \<le> 65535)"
proof (cases "s = []")
  case True
  with assms show ?thesis by (simp add: parseIpv6Groups_def colon_parts_def)
next
  case False
  with v6_loop_value assms show ?thesis
    by (simp add: parseIpv6Groups_def colon_parts_def split_on_lower)
qed

lemma join_groups_total: "\<forall>x \<in> set xs. x \<le> 65535 \<Longrightarrow> \<exists>v. join_groups xs a = Some v"
  by (induction xs arbitrary: a) auto

lemma parseIpv6_total:
  assumes "v6_core s"
  shows "\<exists>v. parseIpv6ToBigInt s = Some v"
proof (cases "split_pair (CHR '':'') s")
  case (Cons a more)
  have low: "split_pair (CHR '':'') (js_lower s) = map (map lower_char) (a # more)"
    using Cons by (simp add: js_lower_def split_pair_lower)
  consider "more = []" | b where "more = [b]" using assms Cons by (auto simp: v6_core_def split: list.splits)
  then show ?thesis
  proof cases
    case 1
    with assms Cons have "v6_groups (colon_parts a) = Some 8" by (simp add: v6_core_def)
    from parseIpv6Groups_value [OF this] obtain xs where "parseIpv6Groups (map lower_char a) = Some xs"
      "length xs = 8" "\<forall>x \<in> set xs. x \<le> 65535" by blast
    with low 1 join_groups_total [of xs 0] show ?thesis
      by (simp add: parseIpv6ToBigInt_def parseIpv6Groups_def [of "[]"])
  next
    case 2
    with assms Cons obtain m n where mn: "v6_groups (colon_parts a) = Some m" "v6_groups (colon_parts b) = Some n"
      "m + n \<le> 7"
      by (auto simp: v6_core_def v6_plain_is_groups split: option.splits)
    from parseIpv6Groups_value [OF mn(1)] parseIpv6Groups_value [OF mn(2)] obtain xs ys where
      xs: "parseIpv6Groups (map lower_char a) = Some xs" "length xs = m" "\<forall>x \<in> set xs. x \<le> 65535" and
      ys: "parseIpv6Groups (map lower_char b) = Some ys" "length ys = n" "\<forall>x \<in> set ys. x \<le> 65535" by blast
    have "\<forall>x \<in> set (xs @ replicate (8 - m - n) 0 @ ys). x \<le> 65535" using xs ys by auto
    from join_groups_total [OF this, of 0] low 2 xs ys mn(3) show ?thesis
      by (auto simp: parseIpv6ToBigInt_def)
  qed
qed (use assms in \<open>simp add: v6_core_def\<close>)

text \<open>A part with a percent sign is no group, so a literal with a zone has no value.\<close>

lemma v4_fold_None: "p \<in> set ps \<Longrightarrow> v4_part p = None \<Longrightarrow> v4_fold ps a = None"
  by (induction ps arbitrary: a) (auto split: option.splits)

lemma split_on_has: "x \<in> set s \<Longrightarrow> x \<noteq> c \<Longrightarrow> \<exists>p \<in> set (split_on c s). x \<in> set p"
proof (induction s)
  case (Cons y s)
  obtain q qs where "split_on c s = q # qs" by (cases "split_on c s") auto
  with Cons show ?case by auto
qed simp

lemma split_pair_nonempty: "split_pair c s \<noteq> []"
  by (induction c s rule: split_pair.induct) (auto split: list.splits)

lemma split_pair_has: "x \<in> set s \<Longrightarrow> x \<noteq> c \<Longrightarrow> \<exists>p \<in> set (split_pair c s). x \<in> set p"
proof (induction c s rule: split_pair.induct)
  case (1 c a b s)
  show ?case
  proof (cases "a = c \<and> b = c")
    case True
    with 1 show ?thesis by auto
  next
    case False
    with 1(2) have "x = a \<or> (\<exists>p \<in> set (split_pair c (b # s)). x \<in> set p)" if "x \<noteq> a"
      using that 1(3,4) by auto
    moreover obtain q qs where "split_pair c (b # s) = q # qs"
      by (cases "split_pair c (b # s)") (auto simp: split_pair_nonempty)
    ultimately show ?thesis using False by auto
  qed
qed auto

lemma parseIpv4_percent: "CHR ''%'' \<in> set s \<Longrightarrow> parseIpv4ToBigInt s = None"
proof -
  assume "CHR ''%'' \<in> set s"
  from split_on_has [OF this, of "CHR ''.''"] obtain p where
    p: "p \<in> set (split_on (CHR ''.'') s)" "CHR ''%'' \<in> set p" by auto
  then have "v4_part p = None" by (auto simp: v4_part_def all_digits_def is_digit_def char_code_def)
  with p show ?thesis by (simp add: parseIpv4ToBigInt_def v4_fold_None Let_def)
qed

lemma v6_loop_percent: "p \<in> set ps \<Longrightarrow> CHR ''%'' \<in> set p \<Longrightarrow> v6_loop ps a = None"
proof (induction ps arbitrary: a)
  case (Cons q ps)
  have "\<not> v6_segment q" if "CHR ''%'' \<in> set q"
  proof -
    have "hex_value (CHR ''%'') = None" by (simp add: hex_value_def char_code_def)
    with that show ?thesis unfolding v6_segment_def list_all_iff by metis
  qed
  with Cons show ?case by (auto simp: parseIpv4_percent split: option.splits)
qed simp

lemma parseIpv6Groups_percent: "CHR ''%'' \<in> set s \<Longrightarrow> parseIpv6Groups s = None"
  using split_on_has [of "CHR ''%''" s "CHR '':''"] by (auto simp: parseIpv6Groups_def v6_loop_percent)

lemma parseIpv6_percent: "CHR ''%'' \<in> set s \<Longrightarrow> parseIpv6ToBigInt s = None"
proof -
  assume "CHR ''%'' \<in> set s"
  then have "CHR ''%'' \<in> set (js_lower s)"
    unfolding js_lower_def set_map by (metis imageI lower_char_marks(3))
  from split_pair_has [OF this, of "CHR '':''"] obtain p where
    p: "p \<in> set (split_pair (CHR '':'') (js_lower s))" "CHR ''%'' \<in> set p" by auto
  then have "parseIpv6Groups p = None" by (rule_tac parseIpv6Groups_percent)
  with p(1) show ?thesis
    by (cases "split_pair (CHR '':'') (js_lower s)"; cases "tl (split_pair (CHR '':'') (js_lower s))")
       (auto simp: parseIpv6ToBigInt_def Let_def split: option.splits)
qed

lemma zone_percent: "zone_of s \<noteq> [] \<Longrightarrow> CHR ''%'' \<in> set s"
  by (auto simp: zone_of_def dropWhile_eq_Nil_conv)

lemma before_zone_all: "zone_of s = [] \<Longrightarrow> before_zone s = s"
  by (auto simp: zone_of_def before_zone_def dropWhile_eq_Nil_conv takeWhile_eq_all_conv)

lemma isIPv4_no_percent: "isIPv4 s \<Longrightarrow> CHR ''%'' \<notin> set s"
  using parseIpv4_percent parseIpv4_total by fastforce

lemma parseIp_None_iff:
  assumes "isIP s \<noteq> 0"
  shows "parseIpToBigInt s = None \<longleftrightarrow> zone_of s \<noteq> []"
proof (cases "isIPv4 s")
  case True
  with isIPv4_no_percent zone_percent parseIpv4_total show ?thesis
    by (fastforce simp: parseIpToBigInt_def isIP_def)
next
  case False
  with assms have v6: "isIPv6 s" by (auto simp: isIP_def split: if_splits)
  show ?thesis
  proof (cases "zone_of s = []")
    case True
    with v6 have "v6_core s" by (simp add: isIPv6_def before_zone_all)
    from parseIpv6_total [OF this] False v6 True show ?thesis by (auto simp: parseIpToBigInt_def isIP_def)
  next
    case zone: False
    from parseIpv6_percent [OF zone_percent [OF zone]] False v6 zone show ?thesis
      by (simp add: parseIpToBigInt_def isIP_def)
  qed
qed

section \<open>Properties\<close>

text \<open>Property C17. A CIDR rule matches exactly the addresses of its block: the bit-shift comparison of the
  source agrees with membership in the interval that starts at the network address with the host
  bits cleared and holds two to the number of host bits addresses, for IPv4 and IPv6 alike; a host
  that is no address of the same family never matches.\<close>

theorem cidr_matches_block:
  assumes "newCidrMatcher cidr = Inr m"
  shows "cidr_matches m host \<longleftrightarrow>
     (\<exists>v. parseIpToBigInt host = Some (cm_version m, v) \<and>
        (let block = 2 ^ (cm_bits m - cm_prefix m); base = cm_network m div block * block
         in base \<le> v \<and> v < base + block))"
  using cidr_matches_interval [OF assms] by (simp add: Let_def cidr_base_def cidr_size_def)

text \<open>A zone-scoped IPv6 address escapes every CIDR rule: a host that \<^verbatim>\<open>net.isIP\<close> takes
  for an address but that carries a zone has no numeric value, so no CIDR matcher matches it, not
  even \<^verbatim>\<open>::/0\<close>.\<close>

lemma zone_escapes_cidr:
  assumes "isIP host \<noteq> 0" "zone_of host \<noteq> []"
  shows "detectAddressType host \<noteq> Domain \<and> (\<forall>cidr m. newCidrMatcher cidr = Inr m \<longrightarrow> \<not> cidr_matches m host)"
proof -
  have "parseIpToBigInt host = None" using parseIp_None_iff [OF assms(1)] assms(2) by simp
  then have "\<not> cidr_matches m host" if "newCidrMatcher cidr = Inr m" for cidr m
    by (simp add: cidr_matches_interval [OF that])
  with assms(1) show ?thesis by (auto simp: detectAddressType_def isIP_def split: if_splits)
qed

lemma cidr_matches_block_witness:
  "newCidrMatcher ''10.0.0.0/8'' = Inr \<lparr>cm_version = 4, cm_network = 10 * 2 ^ 24, cm_prefix = 8, cm_bits = 32\<rparr> \<and>
   cidr_matches \<lparr>cm_version = 4, cm_network = 10 * 2 ^ 24, cm_prefix = 8, cm_bits = 32\<rparr> ''10.2.3.4''"
proof -
  have d: "dotted 10 0 0 0 = ''10.0.0.0''" "dotted 10 2 3 4 = ''10.2.3.4''" by code_simp+
  have net: "parseIpToBigInt ''10.0.0.0'' = Some (4, 10 * 2 ^ 24)"
    using parse_dotted [of 10 0 0 0] by (simp add: d)
  have addr: "parseIpToBigInt ''10.2.3.4'' = Some (4, 10 * 2 ^ 24 + 2 * 2 ^ 16 + 3 * 2 ^ 8 + 4)"
    using parse_dotted [of 10 2 3 4] by (simp add: d)
  have "js_Number ''8'' = JInt 8" by code_simp
  with net have new: "newCidrMatcher ''10.0.0.0/8'' =
      Inr \<lparr>cm_version = 4, cm_network = 10 * 2 ^ 24, cm_prefix = 8, cm_bits = 32\<rparr>"
    by (simp add: newCidrMatcher_def)
  with addr show ?thesis unfolding cidr_matches_block [OF new] by (simp add: Let_def)
qed

end
