(* ===== verification/Router.thy ===== *)
theory Router
  imports Matcher
begin

text \<open>
  Routing rules and the router: \<^verbatim>\<open>src/router/rules.ts\<close>, \<^verbatim>\<open>router.ts\<close> and
  \<^verbatim>\<open>routerGeneration.ts\<close>, with the parts of \<^verbatim>\<open>src/config/types.ts\<close> and
  \<^verbatim>\<open>src/protocol/types.ts\<close> they read. A JavaScript \<^verbatim>\<open>Set\<close> that is only asked for membership is
  the list of its elements. The SHA-256 hash of the rules is a parameter.
\<close>

section \<open>Configuration and requests\<close>

datatype balance_strategy = RoundRobin | LeastLatency | RandomPick
datatype policy_type = LoadBalance | Failover

record routing_policy =
  rp_tag :: string
  rp_type :: policy_type
  rp_outbounds :: "string list"
  rp_strategy :: balance_strategy
  rp_unhealthyAfterFailures :: nat
  rp_recoverAfterMs :: int

record route_rule =
  rr_tag :: "string option"
  rr_outboundTag :: string
  rr_domain :: "string list option"
  rr_domainSuffix :: "string list option"
  rr_ipCidr :: "string list option"
  rr_port :: "nat list option"

record router_config =
  rcfg_defaultOutbound :: string
  rcfg_rules :: "route_rule list"
  rcfg_policies :: "routing_policy list"

datatype network = Tcp | Udp

record proxy_request =
  pr_id :: string
  pr_inboundTag :: string
  pr_network :: network
  pr_destination :: destination
  pr_startedAt :: int

section \<open>Compiled rules\<close>

record compiled_rule =
  cr_config :: route_rule
  cr_exactDomains :: "string list option"
  cr_suffixes :: "string list"
  cr_cidrs :: "cidr_matcher list"
  cr_ports :: "nat list option"

definition newCompiledRule :: "route_rule \<Rightarrow> compiled_rule result" where
  "newCompiledRule c =
     rbind (rmap newCidrMatcher (case rr_ipCidr c of Some xs \<Rightarrow> xs | None \<Rightarrow> [])) (\<lambda>cidrs.
       Inr \<lparr>cr_config = c, cr_exactDomains = map_option (map normalizeDomain) (rr_domain c),
            cr_suffixes = (case rr_domainSuffix c of Some xs \<Rightarrow> xs | None \<Rightarrow> []),
            cr_cidrs = cidrs, cr_ports = rr_port c\<rparr>)"

record route_match =
  rm_ruleTag :: "string option"
  rm_outboundTag :: string

definition rule_match :: "compiled_rule \<Rightarrow> proxy_request \<Rightarrow> route_match option" where
  "rule_match r request =
     (let d = pr_destination request in
      if (case cr_exactDomains r of None \<Rightarrow> False | Some ds \<Rightarrow> \<not> matchesExactDomain (d_host d) ds) then None
      else if cr_suffixes r \<noteq> [] \<and> \<not> matchesDomainSuffix (d_host d) (cr_suffixes r) then None
      else if cr_cidrs r \<noteq> [] \<and> \<not> list_ex (\<lambda>m. cidr_matches m (d_host d)) (cr_cidrs r) then None
      else if (case cr_ports r of None \<Rightarrow> False | Some ps \<Rightarrow> d_port d \<notin> set ps) then None
      else Some \<lparr>rm_ruleTag = rr_tag (cr_config r), rm_outboundTag = rr_outboundTag (cr_config r)\<rparr>)"

section \<open>The router\<close>

record router =
  rt_defaultOutbound :: string
  rt_rules :: "compiled_rule list"

record route_result =
  res_outboundTag :: string
  res_ruleTag :: "string option"
  res_matched :: bool

definition newRouter :: "router_config \<Rightarrow> router result" where
  "newRouter c =
     rbind (rmap newCompiledRule (rcfg_rules c)) (\<lambda>rules.
       Inr \<lparr>rt_defaultOutbound = rcfg_defaultOutbound c, rt_rules = rules\<rparr>)"

fun match_rules :: "string \<Rightarrow> compiled_rule list \<Rightarrow> proxy_request \<Rightarrow> route_result" where
  "match_rules dflt [] request = \<lparr>res_outboundTag = dflt, res_ruleTag = None, res_matched = False\<rparr>"
| "match_rules dflt (r # rs) request =
     (case rule_match r request of
        Some m \<Rightarrow> \<lparr>res_outboundTag = rm_outboundTag m, res_ruleTag = rm_ruleTag m, res_matched = True\<rparr>
      | None \<Rightarrow> match_rules dflt rs request)"

definition router_match :: "router \<Rightarrow> proxy_request \<Rightarrow> route_result" where
  "router_match rt request = match_rules (rt_defaultOutbound rt) (rt_rules rt) request"

section \<open>Router generations\<close>

fun validateRuleTargets :: "route_rule list \<Rightarrow> nat \<Rightarrow> string list \<Rightarrow> unit result" where
  "validateRuleTargets [] i allowed = Inr ()"
| "validateRuleTargets (r # rs) i allowed =
     (if rr_outboundTag r \<notin> set allowed
      then Inl (ConfigError (''router generation rule['' @ show_nat i
                 @ ''] references unavailable target '' @ quoted (rr_outboundTag r)))
      else validateRuleTargets rs (i + 1) allowed)"

definition validateTargets :: "router_config \<Rightarrow> string list \<Rightarrow> unit result" where
  "validateTargets c allowed =
     (if rcfg_defaultOutbound c \<notin> set allowed
      then Inl (ConfigError (''router generation default outbound '' @ quoted (rcfg_defaultOutbound c)
                 @ '' is unavailable''))
      else validateRuleTargets (rcfg_rules c) 0 allowed)"

record router_generation =
  rgen_id :: string
  rgen_sequence :: nat
  rgen_configHash :: string
  rgen_createdAt :: int
  rgen_rules :: "route_rule list"
  rgen_defaultOutbound :: string
  rgen_router :: router

definition newRouterGeneration ::
  "(router_config \<Rightarrow> string) \<Rightarrow> string \<Rightarrow> nat \<Rightarrow> router_config \<Rightarrow> string list \<Rightarrow> int \<Rightarrow>
   router_generation result" where
  "newRouterGeneration sha i sequence c allowed now =
     rbind (validateTargets c allowed) (\<lambda>u.
     rbind (newRouter c) (\<lambda>rt.
       Inr \<lparr>rgen_id = i, rgen_sequence = sequence, rgen_configHash = sha c, rgen_createdAt = now,
            rgen_rules = rcfg_rules c, rgen_defaultOutbound = rcfg_defaultOutbound c, rgen_router = rt\<rparr>))"

definition rgen_match :: "router_generation \<Rightarrow> proxy_request \<Rightarrow> route_result" where
  "rgen_match g request = router_match (rgen_router g) request"

section \<open>What a rule says\<close>

text \<open>The meaning of a rule read off its configuration, with a CIDR as an interval.\<close>

definition host_in_cidr :: "string \<Rightarrow> string \<Rightarrow> bool" where
  "host_in_cidr host cidr \<longleftrightarrow>
     (\<exists>m v. newCidrMatcher cidr = Inr m \<and> parseIpToBigInt host = Some (cm_version m, v)
        \<and> v \<in> {cidr_base m ..< cidr_base m + cidr_size m})"

definition host_in_suffix :: "string \<Rightarrow> string \<Rightarrow> bool" where
  "host_in_suffix host suf \<longleftrightarrow>
     normalizeDomain host = strip_dot (normalizeDomain suf)
     \<or> (\<exists>sub. normalizeDomain host = sub @ ''.'' @ strip_dot (normalizeDomain suf))"

definition rule_applies :: "route_rule \<Rightarrow> destination \<Rightarrow> bool" where
  "rule_applies c d \<longleftrightarrow>
     (\<forall>ds. rr_domain c = Some ds \<longrightarrow> (\<exists>x \<in> set ds. normalizeDomain (d_host d) = normalizeDomain x)) \<and>
     (\<forall>ss. rr_domainSuffix c = Some ss \<longrightarrow> ss \<noteq> [] \<longrightarrow> (\<exists>x \<in> set ss. host_in_suffix (d_host d) x)) \<and>
     (\<forall>cs. rr_ipCidr c = Some cs \<longrightarrow> cs \<noteq> [] \<longrightarrow> (\<exists>x \<in> set cs. host_in_cidr (d_host d) x)) \<and>
     (\<forall>ps. rr_port c = Some ps \<longrightarrow> d_port d \<in> set ps)"

lemma suffix_iff: "matchesDomainSuffix host sufs \<longleftrightarrow> (\<exists>x \<in> set sufs. host_in_suffix host x)"
  by (auto simp: matchesDomainSuffix_def host_in_suffix_def list_ex_iff suffix_def Let_def)

lemma cidrs_iff:
  assumes "rmap newCidrMatcher xs = Inr ms"
  shows "list_ex (\<lambda>m. cidr_matches m host) ms \<longleftrightarrow> (\<exists>x \<in> set xs. host_in_cidr host x)"
proof -
  have "list_all2 (\<lambda>x m. newCidrMatcher x = Inr m) xs ms" using assms by (simp add: rmap_Inr_iff)
  then show ?thesis
    by (induction xs ms rule: list_all2_induct)
       (auto simp: cidr_matches_interval host_in_cidr_def)
qed

lemma rmap_length: "rmap f xs = Inr ys \<Longrightarrow> length ys = length xs"
  by (auto simp: rmap_Inr_iff dest: list_all2_lengthD)

lemma rule_match_iff:
  assumes "newCompiledRule c = Inr r"
  shows "rule_match r request =
     (if rule_applies c (pr_destination request)
      then Some \<lparr>rm_ruleTag = rr_tag c, rm_outboundTag = rr_outboundTag c\<rparr> else None)"
proof -
  from assms obtain ms where ms: "rmap newCidrMatcher (case rr_ipCidr c of Some xs \<Rightarrow> xs | None \<Rightarrow> []) = Inr ms"
    and r: "r = \<lparr>cr_config = c, cr_exactDomains = map_option (map normalizeDomain) (rr_domain c),
            cr_suffixes = (case rr_domainSuffix c of Some xs \<Rightarrow> xs | None \<Rightarrow> []),
            cr_cidrs = ms, cr_ports = rr_port c\<rparr>"
    by (auto simp: newCompiledRule_def rbind_Inr_iff)
  let ?h = "d_host (pr_destination request)"
  have dom: "(case cr_exactDomains r of None \<Rightarrow> False | Some ds \<Rightarrow> \<not> matchesExactDomain ?h ds) \<longleftrightarrow>
      \<not> (\<forall>ds. rr_domain c = Some ds \<longrightarrow> (\<exists>x \<in> set ds. normalizeDomain ?h = normalizeDomain x))"
    by (auto simp: r matchesExactDomain_def split: option.splits)
  have suf: "cr_suffixes r \<noteq> [] \<and> \<not> matchesDomainSuffix ?h (cr_suffixes r) \<longleftrightarrow>
      \<not> (\<forall>ss. rr_domainSuffix c = Some ss \<longrightarrow> ss \<noteq> [] \<longrightarrow> (\<exists>x \<in> set ss. host_in_suffix ?h x))"
    by (auto simp: r suffix_iff split: option.splits)
  have cid: "cr_cidrs r \<noteq> [] \<and> \<not> list_ex (\<lambda>m. cidr_matches m ?h) (cr_cidrs r) \<longleftrightarrow>
      \<not> (\<forall>cs. rr_ipCidr c = Some cs \<longrightarrow> cs \<noteq> [] \<longrightarrow> (\<exists>x \<in> set cs. host_in_cidr ?h x))"
    using rmap_length [OF ms] by (auto simp: r cidrs_iff [OF ms] split: option.splits)
  have prt: "(case cr_ports r of None \<Rightarrow> False | Some ps \<Rightarrow> d_port (pr_destination request) \<notin> set ps) \<longleftrightarrow>
      \<not> (\<forall>ps. rr_port c = Some ps \<longrightarrow> d_port (pr_destination request) \<in> set ps)"
    by (auto simp: r split: option.splits)
  show ?thesis
    unfolding rule_match_def Let_def dom suf cid prt by (auto simp: rule_applies_def r)
qed

lemma match_rules_find:
  "list_all2 (\<lambda>c r. newCompiledRule c = Inr r) cs rs \<Longrightarrow>
     match_rules dflt rs request =
       (case find (\<lambda>c. rule_applies c (pr_destination request)) cs of
          Some c \<Rightarrow> \<lparr>res_outboundTag = rr_outboundTag c, res_ruleTag = rr_tag c, res_matched = True\<rparr>
        | None \<Rightarrow> \<lparr>res_outboundTag = dflt, res_ruleTag = None, res_matched = False\<rparr>)"
  by (induction cs rs rule: list_all2_induct) (simp_all add: rule_match_iff)

lemma router_match_find:
  assumes "newRouter c = Inr rt"
  shows "router_match rt request =
       (case find (\<lambda>r. rule_applies r (pr_destination request)) (rcfg_rules c) of
          Some r \<Rightarrow> \<lparr>res_outboundTag = rr_outboundTag r, res_ruleTag = rr_tag r, res_matched = True\<rparr>
        | None \<Rightarrow> \<lparr>res_outboundTag = rcfg_defaultOutbound c, res_ruleTag = None, res_matched = False\<rparr>)"
  using assms by (auto simp: newRouter_def rbind_Inr_iff rmap_Inr_iff router_match_def match_rules_find)

lemma validateRuleTargets_Inr_iff:
  "validateRuleTargets rs i allowed = Inr () \<longleftrightarrow> (\<forall>r \<in> set rs. rr_outboundTag r \<in> set allowed)"
  by (induction rs arbitrary: i) auto

lemma newRouterGeneration_InrD:
  assumes "newRouterGeneration sha i sequence c allowed now = Inr g"
  shows "newRouter c = Inr (rgen_router g)" "rgen_id g = i" "rgen_sequence g = sequence"
    "rcfg_defaultOutbound c \<in> set allowed" "\<forall>r \<in> set (rcfg_rules c). rr_outboundTag r \<in> set allowed"
  using assms
  by (auto simp: newRouterGeneration_def rbind_Inr_iff validateTargets_def validateRuleTargets_Inr_iff
      split: if_splits)

lemma rgen_match_target:
  assumes "newRouterGeneration sha i sequence c allowed now = Inr g"
  shows "res_outboundTag (rgen_match g request) \<in> set allowed"
  using newRouterGeneration_InrD(4,5) [OF assms]
    router_match_find [OF newRouterGeneration_InrD(1) [OF assms], of request]
  by (auto simp: rgen_match_def find_Some_iff split: option.splits)

section \<open>Properties\<close>

text \<open>
  Property C14. A router built from a configuration sends a request to the outbound of the first
  configured rule that applies to its destination and to the default outbound when none does. A rule
  applies when each of its criteria does: an exact domain, a domain suffix on a label boundary, a
  CIDR block as the interval of its addresses, a port.
\<close>

theorem router_first_match:
  assumes "newRouter c = Inr rt"
  shows "router_match rt request =
       (case find (\<lambda>r. rule_applies r (pr_destination request)) (rcfg_rules c) of
          Some r \<Rightarrow> \<lparr>res_outboundTag = rr_outboundTag r, res_ruleTag = rr_tag r, res_matched = True\<rparr>
        | None \<Rightarrow> \<lparr>res_outboundTag = rcfg_defaultOutbound c, res_ruleTag = None, res_matched = False\<rparr>)"
  by (rule router_match_find [OF assms])

definition sampleRule :: route_rule where
  "sampleRule = \<lparr>rr_tag = Some ''lan'', rr_outboundTag = ''direct'', rr_domain = None, rr_domainSuffix = None,
     rr_ipCidr = Some [''10.0.0.0/8''], rr_port = Some [443]\<rparr>"

definition sampleRouterConfig :: router_config where
  "sampleRouterConfig = \<lparr>rcfg_defaultOutbound = ''proxy'', rcfg_rules = [sampleRule], rcfg_policies = []\<rparr>"

definition sampleRequest :: "string \<Rightarrow> nat \<Rightarrow> proxy_request" where
  "sampleRequest host port = \<lparr>pr_id = ''r1'', pr_inboundTag = ''in'', pr_network = Tcp,
     pr_destination = makeDestination host port, pr_startedAt = 0\<rparr>"

lemmas ip_eval =
  parseIpToBigInt_def isIP_def isIPv4_def v4_segment_def parseIpv4ToBigInt_def v4_part_def all_digits_def
  is_digit_def char_code_def read_nat_def digit_value_def newCidrMatcher_def js_Number_def js_trim_def
  is_space_def read_decimal_def scale_decimal_def lower_char_def cidr_matches_def drop_bit_eq_div Let_def

lemma sampleRouter: "newRouter sampleRouterConfig = Inr \<lparr>rt_defaultOutbound = ''proxy'',
    rt_rules = [\<lparr>cr_config = sampleRule, cr_exactDomains = None, cr_suffixes = [],
      cr_cidrs = [\<lparr>cm_version = 4, cm_network = 167772160, cm_prefix = 8, cm_bits = 32\<rparr>], cr_ports = Some [443]\<rparr>]\<rparr>"
  by (simp add: newRouter_def sampleRouterConfig_def sampleRule_def newCompiledRule_def ip_eval)

theorem router_first_match_witness:
  "\<exists>rt. newRouter sampleRouterConfig = Inr rt \<and>
     router_match rt (sampleRequest ''10.1.2.3'' 443) =
       (case find (\<lambda>r. rule_applies r (pr_destination (sampleRequest ''10.1.2.3'' 443))) (rcfg_rules sampleRouterConfig) of
          Some r \<Rightarrow> \<lparr>res_outboundTag = rr_outboundTag r, res_ruleTag = rr_tag r, res_matched = True\<rparr>
        | None \<Rightarrow> \<lparr>res_outboundTag = rcfg_defaultOutbound sampleRouterConfig, res_ruleTag = None, res_matched = False\<rparr>)
     \<and> router_match rt (sampleRequest ''10.1.2.3'' 443) =
         \<lparr>res_outboundTag = ''direct'', res_ruleTag = Some ''lan'', res_matched = True\<rparr>"
proof -
  note w = router_first_match [OF sampleRouter, of "sampleRequest ''10.1.2.3'' 443"]
  have "router_match (projr (newRouter sampleRouterConfig)) (sampleRequest ''10.1.2.3'' 443) =
      \<lparr>res_outboundTag = ''direct'', res_ruleTag = Some ''lan'', res_matched = True\<rparr>"
    by (simp add: sampleRouter router_match_def rule_match_def sampleRequest_def sampleRule_def
        makeDestination_def ip_eval)
  with w show ?thesis using sampleRouter by (intro exI conjI) simp_all
qed

end
