(* ===== verification/JsMap.thy ===== *)
theory JsMap
  imports Prelude "HOL-Library.AList"
begin

text \<open>
  The JavaScript \<^verbatim>\<open>Map\<close>: keys in insertion order, each once. \<^verbatim>\<open>set\<close> on a key that is there
  replaces the value and keeps its place, on a new key it appends; \<^verbatim>\<open>delete\<close> removes it. The
  association lists of the library with \<open>AList.update\<close> and \<open>AList.delete\<close> behave so; the
  oldest entry (\<^verbatim>\<open>map.values().next()\<close>) is the head of the list.
\<close>

type_synonym ('k, 'v) jsmap = "('k \<times> 'v) list"

abbreviation jm_get :: "('k, 'v) jsmap \<Rightarrow> 'k \<Rightarrow> 'v option" where
  "jm_get \<equiv> map_of"

abbreviation jm_set :: "'k \<Rightarrow> 'v \<Rightarrow> ('k, 'v) jsmap \<Rightarrow> ('k, 'v) jsmap" where
  "jm_set \<equiv> AList.update"

abbreviation jm_del :: "'k \<Rightarrow> ('k, 'v) jsmap \<Rightarrow> ('k, 'v) jsmap" where
  "jm_del \<equiv> AList.delete"

definition jm_keys :: "('k, 'v) jsmap \<Rightarrow> 'k list" where
  "jm_keys m = map fst m"

definition jm_vals :: "('k, 'v) jsmap \<Rightarrow> 'v list" where
  "jm_vals m = map snd m"

definition jm_has :: "('k, 'v) jsmap \<Rightarrow> 'k \<Rightarrow> bool" where
  "jm_has m k \<longleftrightarrow> k \<in> fst ` set m"

definition jm_ok :: "('k, 'v) jsmap \<Rightarrow> bool" where
  "jm_ok m \<longleftrightarrow> distinct (map fst m)"

text \<open>\<^verbatim>\<open>new Map(entries)\<close>: later entries win, first occurrence fixes the place.\<close>

definition jm_of_list :: "('k \<times> 'v) list \<Rightarrow> ('k, 'v) jsmap" where
  "jm_of_list es = fold (\<lambda>(k, v) m. jm_set k v m) es []"

text \<open>
  A table that is a plain object is looked up through its prototype: a name that is no own key may
  still be found on \<^verbatim>\<open>Object.prototype\<close>, of whose names only these two are in lower case.
\<close>

definition inherited :: "string \<Rightarrow> bool" where
  "inherited k \<longleftrightarrow> k = ''constructor'' \<or> k = ''__proto__''"

section \<open>Laws\<close>

lemma jm_ok_Nil [simp, intro]: "jm_ok []"
  by (simp add: jm_ok_def)

lemma jm_ok_set [simp, intro]: "jm_ok m \<Longrightarrow> jm_ok (jm_set k v m)"
  by (simp add: jm_ok_def distinct_update)

lemma jm_ok_del [simp, intro]: "jm_ok m \<Longrightarrow> jm_ok (jm_del k m)"
  by (simp add: jm_ok_def distinct_delete)

lemma jm_ok_Cons: "jm_ok ((k, v) # m) \<longleftrightarrow> \<not> jm_has m k \<and> jm_ok m"
  by (auto simp: jm_ok_def jm_has_def)

lemma jm_ok_filter: "jm_ok m \<Longrightarrow> jm_ok (filter P m)"
  by (induction m) (auto simp: jm_ok_def)

lemma jm_get_set [simp]: "jm_get (jm_set k v m) = (jm_get m)(k \<mapsto> v)"
  by (rule update_conv')

lemma jm_get_del [simp]: "jm_get (jm_del k m) = (jm_get m)(k := None)"
  by (rule delete_conv')

lemma jm_has_get: "jm_has m k \<longleftrightarrow> jm_get m k \<noteq> None"
  by (force simp: jm_has_def map_of_eq_None_iff)

lemma jm_get_None_iff: "jm_get m k = None \<longleftrightarrow> \<not> jm_has m k"
  by (simp add: jm_has_get)

lemma jm_has_set [simp]: "jm_has (jm_set k v m) l \<longleftrightarrow> l = k \<or> jm_has m l"
  by (auto simp: jm_has_get)

lemma jm_has_del [simp]: "jm_has (jm_del k m) l \<longleftrightarrow> l \<noteq> k \<and> jm_has m l"
  by (auto simp: jm_has_get)

lemma jm_del_absent: "\<not> jm_has m k \<Longrightarrow> jm_del k m = m"
  by (induction m) (auto simp: jm_has_def)

lemma jm_get_Some_in: "jm_get m k = Some v \<Longrightarrow> (k, v) \<in> set m"
  by (rule map_of_SomeD)

lemma jm_in_get: "jm_ok m \<Longrightarrow> (k, v) \<in> set m \<longleftrightarrow> jm_get m k = Some v"
  by (simp add: jm_ok_def map_of_eq_Some_iff)

lemma jm_set_absent: "\<not> jm_has m k \<Longrightarrow> jm_set k v m = m @ [(k, v)]"
  by (induction m) (auto simp: jm_has_def)

lemma length_jm_set: "length (jm_set k v m) = (if jm_has m k then length m else Suc (length m))"
  by (induction m) (auto simp: jm_has_def)

lemma length_jm_del: "jm_ok m \<Longrightarrow> length (jm_del k m) = (if jm_has m k then length m - 1 else length m)"
proof (induction m)
  case (Cons p m)
  obtain a b where p: "p = (a, b)" by (cases p)
  from Cons.prems have nk: "\<not> jm_has m a" and ok: "jm_ok m" by (auto simp: p jm_ok_Cons)
  show ?case
  proof (cases "a = k")
    case True
    with nk show ?thesis by (simp add: p jm_del_absent jm_has_def)
  next
    case False
    have "length m \<noteq> 0" if "jm_has m k" using that by (auto simp: jm_has_def)
    with False Cons.IH [OF ok] show ?thesis by (auto simp: p jm_has_def)
  qed
qed (simp add: jm_has_def)

lemma set_jm_del: "set (jm_del k m) = {p \<in> set m. fst p \<noteq> k}"
  by (auto simp: AList.delete_eq)

lemma jm_del_head: "jm_ok ((k, v) # m) \<Longrightarrow> jm_del k ((k, v) # m) = m"
  by (simp add: jm_ok_Cons jm_del_absent)

lemma set_jm_set: "jm_ok m \<Longrightarrow> set (jm_set k v m) = insert (k, v) {p \<in> set m. fst p \<noteq> k}"
proof (induction m)
  case (Cons p m)
  then show ?case by (cases p) (auto simp: jm_ok_Cons jm_has_def)
qed simp

lemma jm_ok_of_list: "jm_ok (jm_of_list es)"
proof -
  have "jm_ok (fold (\<lambda>(k, v) m. jm_set k v m) es m)" if "jm_ok m" for m
    using that by (induction es arbitrary: m) auto
  then show ?thesis by (simp add: jm_of_list_def)
qed

lemma jm_get_of_list: "jm_get (jm_of_list es) = map_of (rev es)"
proof -
  have "jm_get (fold (\<lambda>(k, v) m. jm_set k v m) es m) = jm_get m ++ map_of (rev es)" for m
    by (induction es arbitrary: m) (auto simp: map_add_upd fun_eq_iff map_add_def split: option.splits)
  then show ?thesis by (simp add: jm_of_list_def)
qed

section \<open>The contract the other components rely on\<close>

locale keyed_store =
  fixes get :: "'m \<Rightarrow> 'k \<Rightarrow> 'v option"
    and put :: "'k \<Rightarrow> 'v \<Rightarrow> 'm \<Rightarrow> 'm"
    and del :: "'k \<Rightarrow> 'm \<Rightarrow> 'm"
    and ok :: "'m \<Rightarrow> bool"
    and count :: "'m \<Rightarrow> nat"
  assumes get_put: "get (put k v m) = (get m)(k \<mapsto> v)"
    and get_del: "get (del k m) = (get m)(k := None)"
    and ok_put: "ok m \<Longrightarrow> ok (put k v m)"
    and ok_del: "ok m \<Longrightarrow> ok (del k m)"
    and count_put: "count (put k v m) = (if get m k = None then Suc (count m) else count m)"
    and count_del: "ok m \<Longrightarrow> count (del k m) = (if get m k = None then count m else count m - 1)"
begin

lemma reinsert_get: "get (put k v (del k m)) = (get m)(k \<mapsto> v)"
  by (simp add: get_put get_del)

lemma count_reinsert: "ok m \<Longrightarrow> count (put k v (del k m)) \<le> Suc (count m)"
  by (simp add: count_put count_del get_del)

lemma count_del_le: "ok m \<Longrightarrow> count (del k m) \<le> count m"
  by (simp add: count_del)

end

interpretation jm: keyed_store map_of AList.update AList.delete jm_ok length
  by unfold_locales (auto simp: length_jm_set length_jm_del jm_has_get)

end
