(* ===== verification/Policy.thy ===== *)
theory Policy
  imports Complex_Main Router JsMap "HOL-Library.Multiset"
begin

text \<open>
  Routing policies: \<^verbatim>\<open>src/router/policy.ts\<close> (\<^verbatim>\<open>RoutingPolicyManager\<close>, \<^verbatim>\<open>LatencyProbe\<close>),
  \<^verbatim>\<open>policyGeneration.ts\<close> and the sample window of \<^verbatim>\<open>health.ts\<close>. The clock and the random
  number are arguments of the operations that read them; latencies are rational numbers (the
  program's are doubles, so its averages are rounded).
\<close>

section \<open>Latency scores\<close>

text \<open>A latency or \<^verbatim>\<open>Number.POSITIVE_INFINITY\<close>.\<close>

datatype latency_score = Millis rat | Unmeasured

instantiation latency_score :: linorder
begin

fun less_eq_latency_score :: "latency_score \<Rightarrow> latency_score \<Rightarrow> bool" where
  "Millis a \<le> Millis b \<longleftrightarrow> a \<le> b"
| "Millis a \<le> Unmeasured \<longleftrightarrow> True"
| "Unmeasured \<le> Millis b \<longleftrightarrow> False"
| "Unmeasured \<le> Unmeasured \<longleftrightarrow> True"

definition less_latency_score :: "latency_score \<Rightarrow> latency_score \<Rightarrow> bool" where
  "less_latency_score a b \<longleftrightarrow> a \<le> b \<and> \<not> b \<le> (a :: latency_score)"

instance
proof
  fix a b c :: latency_score
  show "a < b \<longleftrightarrow> a \<le> b \<and> \<not> b \<le> a" by (rule less_latency_score_def)
  show "a \<le> a" by (cases a) simp_all
  show "a \<le> b \<or> b \<le> a" by (cases a; cases b) auto
  show "a \<le> b \<Longrightarrow> b \<le> c \<Longrightarrow> a \<le> c" by (cases a; cases b; cases c) auto
  show "a \<le> b \<Longrightarrow> b \<le> a \<Longrightarrow> a = b" by (cases a; cases b) auto
qed

end

section \<open>The policy manager\<close>

record outbound_health =
  oh_tag :: string
  oh_failures :: nat
  oh_lastFailureAt :: "int option"
  oh_latencyEwmaMs :: "rat option"
  oh_successes :: nat

record policy_manager =
  pm_policies :: "(string, routing_policy) jsmap"
  pm_health :: "(string, outbound_health) jsmap"
  pm_roundRobinIndex :: "(string, nat) jsmap"

definition freshHealth :: "string \<Rightarrow> outbound_health" where
  "freshHealth tag = \<lparr>oh_tag = tag, oh_failures = 0, oh_lastFailureAt = None, oh_latencyEwmaMs = None,
     oh_successes = 0\<rparr>"

definition getHealth :: "string \<Rightarrow> policy_manager \<Rightarrow> outbound_health \<times> policy_manager" where
  "getHealth tag m =
     (case jm_get (pm_health m) tag of
        Some h \<Rightarrow> (h, m)
      | None \<Rightarrow> (freshHealth tag, m\<lparr>pm_health := jm_set tag (freshHealth tag) (pm_health m)\<rparr>))"

definition reloadPolicies :: "routing_policy list \<Rightarrow> policy_manager \<Rightarrow> policy_manager" where
  "reloadPolicies ps m =
     fold (\<lambda>p m. fold (\<lambda>tag m. snd (getHealth tag m)) (rp_outbounds p) m) ps
       (m\<lparr>pm_policies := jm_of_list (map (\<lambda>p. (rp_tag p, p)) ps)\<rparr>)"

definition newPolicyManager :: "routing_policy list \<Rightarrow> outbound_health list \<Rightarrow> policy_manager" where
  "newPolicyManager ps initialHealth =
     reloadPolicies ps \<lparr>pm_policies = [],
       pm_health = jm_of_list (map (\<lambda>h. (oh_tag h, h)) initialHealth), pm_roundRobinIndex = []\<rparr>"

definition isHealthy :: "int \<Rightarrow> string \<Rightarrow> routing_policy \<Rightarrow> policy_manager \<Rightarrow> bool \<times> policy_manager" where
  "isHealthy now tag p m =
     (let (h, m1) = getHealth tag m in
      (if oh_failures h < rp_unhealthyAfterFailures p then True
       else (case oh_lastFailureAt h of None \<Rightarrow> True | Some t \<Rightarrow> now - t \<ge> rp_recoverAfterMs p), m1))"

fun filterHealthy ::
  "int \<Rightarrow> routing_policy \<Rightarrow> string list \<Rightarrow> policy_manager \<Rightarrow> string list \<times> policy_manager" where
  "filterHealthy now p [] m = ([], m)"
| "filterHealthy now p (t # ts) m =
     (let (ok, m1) = isHealthy now t p m; (rest, m2) = filterHealthy now p ts m1
      in (if ok then t # rest else rest, m2))"

definition selectFailover :: "int \<Rightarrow> routing_policy \<Rightarrow> policy_manager \<Rightarrow> string list \<times> policy_manager" where
  "selectFailover now p m =
     (let (healthy, m1) = filterHealthy now p (rp_outbounds p) m;
          unhealthy = filter (\<lambda>t. t \<notin> set healthy) (rp_outbounds p)
      in (healthy @ unhealthy, m1))"

definition latencyScore :: "string \<Rightarrow> policy_manager \<Rightarrow> latency_score" where
  "latencyScore tag m =
     (case oh_latencyEwmaMs (fst (getHealth tag m)) of Some l \<Rightarrow> Millis l | None \<Rightarrow> Unmeasured)"

text \<open>The array sort of the library is stable: \<open>sort_key\<close>.\<close>

definition pickLoadBalanceFirst ::
  "rat \<Rightarrow> routing_policy \<Rightarrow> string list \<Rightarrow> policy_manager \<Rightarrow> string \<times> policy_manager" where
  "pickLoadBalanceFirst rnd p pool m =
     (case rp_strategy p of
        LeastLatency \<Rightarrow>
          ((case sort_key (\<lambda>t. latencyScore t m) pool of t # ts \<Rightarrow> t
            | [] \<Rightarrow> (case rp_outbounds p of t # ts \<Rightarrow> t | [] \<Rightarrow> [])), m)
      | RandomPick \<Rightarrow>
          (let i = nat \<lfloor>rnd * of_nat (length pool)\<rfloor> in
           (if i < length pool then pool ! i else (case pool of t # ts \<Rightarrow> t | [] \<Rightarrow> []), m))
      | RoundRobin \<Rightarrow>
          (let current = (case jm_get (pm_roundRobinIndex m) (rp_tag p) of Some n \<Rightarrow> n | None \<Rightarrow> 0) in
           (if pool = [] then [] else pool ! (current mod length pool),
            m\<lparr>pm_roundRobinIndex := jm_set (rp_tag p) (current + 1) (pm_roundRobinIndex m)\<rparr>)))"

definition selectLoadBalance ::
  "int \<Rightarrow> rat \<Rightarrow> routing_policy \<Rightarrow> policy_manager \<Rightarrow> string list \<times> policy_manager" where
  "selectLoadBalance now rnd p m =
     (let (healthy, m1) = filterHealthy now p (rp_outbounds p) m;
          pool = (if healthy \<noteq> [] then healthy else rp_outbounds p)
      in if pool = [] then ([], m1)
         else (let (chosen, m2) = pickLoadBalanceFirst rnd p pool m1;
                   rest = filter (\<lambda>t. t \<noteq> chosen) pool;
                   unhealthy = filter (\<lambda>t. t \<notin> set pool) (rp_outbounds p)
               in (chosen # rest @ unhealthy, m2)))"

record policy_selection =
  ps_requestedTag :: string
  ps_policyTag :: "string option"
  ps_candidates :: "string list"

definition selectPolicy :: "int \<Rightarrow> rat \<Rightarrow> string \<Rightarrow> policy_manager \<Rightarrow> policy_selection \<times> policy_manager" where
  "selectPolicy now rnd tag m =
     (case jm_get (pm_policies m) tag of
        None \<Rightarrow> (\<lparr>ps_requestedTag = tag, ps_policyTag = None, ps_candidates = [tag]\<rparr>, m)
      | Some p \<Rightarrow>
          (let (cs, m1) = (if rp_type p = Failover then selectFailover now p m
                           else selectLoadBalance now rnd p m)
           in (\<lparr>ps_requestedTag = tag, ps_policyTag = Some (rp_tag p), ps_candidates = cs\<rparr>, m1)))"

definition recordSuccess :: "string \<Rightarrow> rat \<Rightarrow> policy_manager \<Rightarrow> policy_manager" where
  "recordSuccess tag latencyMs m =
     (let (h, m1) = getHealth tag m in
      m1\<lparr>pm_health := jm_set tag
           (h\<lparr>oh_failures := 0, oh_lastFailureAt := None, oh_successes := oh_successes h + 1,
              oh_latencyEwmaMs := Some (case oh_latencyEwmaMs h of None \<Rightarrow> latencyMs
                                        | Some l \<Rightarrow> l * (8 / 10) + latencyMs * (2 / 10))\<rparr>) (pm_health m1)\<rparr>)"

definition recordFailure :: "int \<Rightarrow> string \<Rightarrow> policy_manager \<Rightarrow> policy_manager" where
  "recordFailure now tag m =
     (let (h, m1) = getHealth tag m in
      m1\<lparr>pm_health := jm_set tag (h\<lparr>oh_failures := oh_failures h + 1, oh_lastFailureAt := Some now\<rparr>)
           (pm_health m1)\<rparr>)"

definition getHealthSnapshots :: "policy_manager \<Rightarrow> outbound_health list" where
  "getHealthSnapshots m = jm_vals (pm_health m)"

text \<open>\<^verbatim>\<open>LatencyProbe.probe\<close>: what the probe settled to, and the time it took.\<close>

definition probeOutbound :: "int \<Rightarrow> string \<Rightarrow> unit result \<Rightarrow> rat \<Rightarrow> policy_manager \<Rightarrow> bool \<times> policy_manager" where
  "probeOutbound now tag outcome latencyMs m =
     (case outcome of
        Inr u \<Rightarrow> (True, recordSuccess tag latencyMs m)
      | Inl e \<Rightarrow> (False, recordFailure now tag m))"

section \<open>Policy generations\<close>

record policy_generation =
  pgen_id :: string
  pgen_sequence :: nat
  pgen_configHash :: string
  pgen_createdAt :: int
  pgen_policies :: "routing_policy list"
  pgen_healthSnapshot :: "outbound_health list"
  pgen_latencySnapshot :: "(string \<times> rat) list"

fun validatePolicies :: "routing_policy list \<Rightarrow> string list \<Rightarrow> string list \<Rightarrow> unit result" where
  "validatePolicies [] outboundTags tags = Inr ()"
| "validatePolicies (p # ps) outboundTags tags =
     (if rp_tag p \<in> set tags \<or> rp_tag p \<in> set outboundTags
      then Inl (ConfigError (''policy generation contains duplicate or colliding tag '' @ quoted (rp_tag p)))
      else if rp_outbounds p = []
      then Inl (ConfigError (''policy generation '' @ quoted (rp_tag p) @ '' must contain at least one outbound''))
      else (case find (\<lambda>t. t \<notin> set outboundTags) (rp_outbounds p) of
              Some t \<Rightarrow> Inl (ConfigError (''policy generation '' @ quoted (rp_tag p)
                          @ '' references unavailable outbound '' @ quoted t))
            | None \<Rightarrow> validatePolicies ps outboundTags (rp_tag p # tags)))"

definition newPolicyGeneration ::
  "(routing_policy list \<Rightarrow> string) \<Rightarrow> string \<Rightarrow> nat \<Rightarrow> routing_policy list \<Rightarrow> string list \<Rightarrow>
   outbound_health list \<Rightarrow> int \<Rightarrow> policy_generation result" where
  "newPolicyGeneration sha i sequence ps outboundTags health now =
     rbind (validatePolicies ps outboundTags []) (\<lambda>u.
       let referenced = concat (map rp_outbounds ps);
           snap = filter (\<lambda>h. oh_tag h \<in> set referenced) health
       in Inr \<lparr>pgen_id = i, pgen_sequence = sequence, pgen_configHash = sha ps, pgen_createdAt = now,
               pgen_policies = ps, pgen_healthSnapshot = snap,
               pgen_latencySnapshot =
                 List.map_filter (\<lambda>h. map_option (Pair (oh_tag h)) (oh_latencyEwmaMs h)) snap\<rparr>)"

definition createManager :: "policy_generation \<Rightarrow> policy_manager" where
  "createManager g = newPolicyManager (pgen_policies g) (pgen_healthSnapshot g)"

definition selectForHealthCheck :: "int \<Rightarrow> rat \<Rightarrow> policy_generation \<Rightarrow> string \<Rightarrow> policy_selection" where
  "selectForHealthCheck now rnd g tag = fst (selectPolicy now rnd tag (createManager g))"

section \<open>The window of health samples\<close>

record health_sample =
  hs_tag :: string
  hs_ok :: bool
  hs_latencyMs :: rat
  hs_timestamp :: int

record health_store =
  hst_maxSamples :: nat
  hst_buckets :: "(string, health_sample list) jsmap"

definition getBucket :: "string \<Rightarrow> health_store \<Rightarrow> health_sample list" where
  "getBucket tag s = (case jm_get (hst_buckets s) tag of Some b \<Rightarrow> b | None \<Rightarrow> [])"

definition recordSample :: "health_sample \<Rightarrow> health_store \<Rightarrow> health_store" where
  "recordSample x s =
     (let b = getBucket (hs_tag x) s @ [x]; over = length b - hst_maxSamples s
      in s\<lparr>hst_buckets := jm_set (hs_tag x) (if length b > hst_maxSamples s then drop over b else b)
             (hst_buckets s)\<rparr>)"

record health_snapshot =
  hsn_samples :: nat
  hsn_failures :: nat
  hsn_failureRate :: rat
  hsn_averageLatencyMs :: "rat option"
  hsn_lastProbeAt :: "int option"

definition snapshotBucket :: "health_sample list \<Rightarrow> health_snapshot" where
  "snapshotBucket samples =
     (let failures = length (filter (\<lambda>x. \<not> hs_ok x) samples);
          good = map hs_latencyMs (filter hs_ok samples)
      in \<lparr>hsn_samples = length samples, hsn_failures = failures,
          hsn_failureRate = (if samples = [] then 0 else of_nat failures / of_nat (length samples)),
          hsn_averageLatencyMs = (if good = [] then None else Some (sum_list good / of_nat (length good))),
          hsn_lastProbeAt = (if samples = [] then None else Some (hs_timestamp (last samples)))\<rparr>)"

section \<open>The health table\<close>

lemma getHealth_snd: "pm_policies (snd (getHealth t m)) = pm_policies m"
    "pm_roundRobinIndex (snd (getHealth t m)) = pm_roundRobinIndex m"
  by (simp_all add: getHealth_def split: option.splits)

definition health_of :: "policy_manager \<Rightarrow> string \<Rightarrow> outbound_health" where
  "health_of m tag = (case jm_get (pm_health m) tag of Some h \<Rightarrow> h | None \<Rightarrow> freshHealth tag)"

lemma getHealth_fst: "fst (getHealth t m) = health_of m t"
  by (simp add: getHealth_def health_of_def split: option.splits)

lemma health_of_getHealth [simp]: "health_of (snd (getHealth t m)) = health_of m"
  by (auto simp: getHealth_def health_of_def split: option.splits)

definition healthy_tag :: "int \<Rightarrow> routing_policy \<Rightarrow> policy_manager \<Rightarrow> string \<Rightarrow> bool" where
  "healthy_tag now p m tag \<longleftrightarrow>
     oh_failures (health_of m tag) < rp_unhealthyAfterFailures p
     \<or> (case oh_lastFailureAt (health_of m tag) of None \<Rightarrow> True | Some t \<Rightarrow> now - t \<ge> rp_recoverAfterMs p)"

lemma isHealthy_fst: "fst (isHealthy now t p m) = healthy_tag now p m t"
  using getHealth_fst [of t m]
  by (auto simp: isHealthy_def healthy_tag_def case_prod_beta)

lemma isHealthy_snd:
  "health_of (snd (isHealthy now t p m)) = health_of m"
  "pm_roundRobinIndex (snd (isHealthy now t p m)) = pm_roundRobinIndex m"
  "pm_policies (snd (isHealthy now t p m)) = pm_policies m"
  by (simp_all add: isHealthy_def case_prod_beta getHealth_snd)

lemma healthy_tag_cong: "health_of m = health_of m' \<Longrightarrow> healthy_tag now p m = healthy_tag now p m'"
  by (simp add: healthy_tag_def fun_eq_iff)

lemma filterHealthy_eq:
  "fst (filterHealthy now p ts m) = filter (healthy_tag now p m) ts \<and>
   health_of (snd (filterHealthy now p ts m)) = health_of m \<and>
   pm_roundRobinIndex (snd (filterHealthy now p ts m)) = pm_roundRobinIndex m \<and>
   pm_policies (snd (filterHealthy now p ts m)) = pm_policies m"
proof (induction ts arbitrary: m)
  case (Cons t ts)
  note one = isHealthy_fst [of now t p m] isHealthy_snd [of now t p m]
  from Cons.IH [of "snd (isHealthy now t p m)"] one healthy_tag_cong [OF one(2)] show ?case
    by (simp add: case_prod_beta)
qed simp

lemmas filterHealthy_facts =
  filterHealthy_eq [THEN conjunct1]
  filterHealthy_eq [THEN conjunct2, THEN conjunct1]
  filterHealthy_eq [THEN conjunct2, THEN conjunct2, THEN conjunct1]
  filterHealthy_eq [THEN conjunct2, THEN conjunct2, THEN conjunct2]

section \<open>Selection\<close>

lemma pick_in_pool: "pool \<noteq> [] \<Longrightarrow> fst (pickLoadBalanceFirst rnd p pool m) \<in> set pool"
proof (cases "rp_strategy p")
  case LeastLatency
  assume "pool \<noteq> []"
  then have "sort_key (\<lambda>t. latencyScore t m) pool \<noteq> []" by (metis length_sort length_0_conv)
  then obtain t ts where s: "sort_key (\<lambda>t. latencyScore t m) pool = t # ts" by (auto simp: neq_Nil_conv)
  have "set (sort_key (\<lambda>t. latencyScore t m) pool) = set pool" by simp
  with s have "t \<in> set pool" by (metis list.set_intros(1))
  with LeastLatency s show ?thesis by (simp add: pickLoadBalanceFirst_def)
qed (auto simp: pickLoadBalanceFirst_def Let_def split: list.splits)

lemma pick_least:
  assumes "rp_strategy p = LeastLatency" "pool \<noteq> []" "t \<in> set pool"
  shows "latencyScore (fst (pickLoadBalanceFirst rnd p pool m)) m \<le> latencyScore t m"
proof -
  let ?s = "sort_key (\<lambda>t. latencyScore t m) pool"
  from assms(2) obtain h ts where s: "?s = h # ts" by (metis length_sort length_0_conv neq_Nil_conv)
  have "sorted (map (\<lambda>t. latencyScore t m) ?s)" by simp
  moreover have "t \<in> set ?s" using assms(3) by simp
  ultimately have "latencyScore h m \<le> latencyScore t m" by (auto simp: s)
  with assms(1) s show ?thesis by (simp add: pickLoadBalanceFirst_def)
qed

lemma selectLoadBalance_fst:
  assumes "pool = (let h = filter (healthy_tag now p m) (rp_outbounds p) in if h \<noteq> [] then h else rp_outbounds p)"
    and "pool \<noteq> []"
  obtains chosen m1 where
    "chosen = fst (pickLoadBalanceFirst rnd p pool m1)" "health_of m1 = health_of m"
    "pm_roundRobinIndex m1 = pm_roundRobinIndex m"
    "fst (selectLoadBalance now rnd p m) =
       chosen # filter (\<lambda>t. t \<noteq> chosen) pool @ filter (\<lambda>t. t \<notin> set pool) (rp_outbounds p)"
    "pm_roundRobinIndex (snd (selectLoadBalance now rnd p m)) =
       pm_roundRobinIndex (snd (pickLoadBalanceFirst rnd p pool m1))"
    "health_of (snd (selectLoadBalance now rnd p m)) = health_of m"
    "pm_policies (snd (selectLoadBalance now rnd p m)) = pm_policies m"
proof -
  let ?m1 = "snd (filterHealthy now p (rp_outbounds p) m)"
  have "health_of (snd (pickLoadBalanceFirst rnd p pool ?m1)) = health_of ?m1"
    "pm_policies (snd (pickLoadBalanceFirst rnd p pool ?m1)) = pm_policies ?m1"
    by (auto simp: pickLoadBalanceFirst_def health_of_def fun_eq_iff Let_def split: balance_strategy.splits)
  moreover have "selectLoadBalance now rnd p m =
      (let (chosen, m2) = pickLoadBalanceFirst rnd p pool ?m1
       in (chosen # filter (\<lambda>t. t \<noteq> chosen) pool @ filter (\<lambda>t. t \<notin> set pool) (rp_outbounds p), m2))"
    unfolding selectLoadBalance_def case_prod_beta Let_def filterHealthy_facts
    using assms by (simp only: Let_def if_False)
  ultimately show thesis
    using that [of "fst (pickLoadBalanceFirst rnd p pool ?m1)" ?m1]
    by (simp add: filterHealthy_facts case_prod_beta)
qed

definition healthy_first :: "int \<Rightarrow> routing_policy \<Rightarrow> policy_manager \<Rightarrow> string list \<Rightarrow> bool" where
  "healthy_first now p m ts \<longleftrightarrow> sorted_wrt (\<lambda>a b. healthy_tag now p m b \<longrightarrow> healthy_tag now p m a) ts"

lemma sorted_wrt_all: "(\<And>a b. a \<in> set xs \<Longrightarrow> b \<in> set xs \<Longrightarrow> P a b) \<Longrightarrow> sorted_wrt P xs"
  by (induction xs) auto

lemma mset_pick: "distinct pool \<Longrightarrow> c \<in> set pool \<Longrightarrow> mset (c # filter (\<lambda>t. t \<noteq> c) pool) = mset pool"
  using distinct_remove1_removeAll [of pool c]
  by (simp add: removeAll_filter_not_eq [symmetric] eq_commute [of _ c])
     (metis insert_DiffM mset_remove1 set_mset_mset)

lemma mset_filter_parts: "mset (filter P xs) + mset (filter (\<lambda>x. \<not> P x) xs) = mset xs"
  by (induction xs) auto

lemma notin_filter: "filter (\<lambda>t. t \<notin> set (filter P xs)) xs = filter (\<lambda>t. \<not> P t) xs"
  by (rule filter_cong) auto

lemma notin_filter_simped: "filter (\<lambda>t. t \<in> set xs \<longrightarrow> \<not> P t) xs = filter (\<lambda>t. \<not> P t) xs"
  by (rule filter_cong) auto

lemma selectFailover_spec:
  "mset (fst (selectFailover now p m)) = mset (rp_outbounds p) \<and>
   healthy_first now p m (fst (selectFailover now p m))"
proof -
  have eq: "fst (selectFailover now p m) =
      filter (healthy_tag now p m) (rp_outbounds p) @ filter (\<lambda>t. \<not> healthy_tag now p m t) (rp_outbounds p)"
    by (simp add: selectFailover_def case_prod_beta filterHealthy_facts notin_filter_simped Let_def)
  have "sorted_wrt (\<lambda>a b. healthy_tag now p m b \<longrightarrow> healthy_tag now p m a) (filter Q (rp_outbounds p))"
    if "\<And>a b. Q a \<Longrightarrow> Q b \<Longrightarrow> healthy_tag now p m b \<Longrightarrow> healthy_tag now p m a" for Q
    by (rule sorted_wrt_all) (use that in auto)
  from this [of "healthy_tag now p m"] this [of "\<lambda>t. \<not> healthy_tag now p m t"]
  have "healthy_first now p m (fst (selectFailover now p m))"
    by (auto simp: eq healthy_first_def sorted_wrt_append simp del: sorted_wrt_filter)
  moreover have "mset (fst (selectFailover now p m)) = mset (rp_outbounds p)"
    by (simp only: eq mset_append mset_filter_parts)
  ultimately show ?thesis by simp
qed

lemma selectLoadBalance_spec:
  assumes "distinct (rp_outbounds p)" "rp_outbounds p \<noteq> []"
  shows "mset (fst (selectLoadBalance now rnd p m)) = mset (rp_outbounds p) \<and>
   healthy_first now p m (fst (selectLoadBalance now rnd p m))"
proof -
  let ?h = "filter (healthy_tag now p m) (rp_outbounds p)"
  define pool where "pool = (let h = ?h in if h \<noteq> [] then h else rp_outbounds p)"
  have ne: "pool \<noteq> []" using assms(2) by (auto simp: pool_def Let_def)
  obtain chosen m1 where c: "chosen = fst (pickLoadBalanceFirst rnd p pool m1)" "health_of m1 = health_of m"
    and eq: "fst (selectLoadBalance now rnd p m) =
       chosen # filter (\<lambda>t. t \<noteq> chosen) pool @ filter (\<lambda>t. t \<notin> set pool) (rp_outbounds p)"
    by (rule selectLoadBalance_fst [OF pool_def ne])
  have cp: "chosen \<in> set pool" using pick_in_pool [OF ne] c(1) by simp
  have dp: "distinct pool" using assms(1) by (auto simp: pool_def Let_def)
  have m1: "mset (chosen # filter (\<lambda>t. t \<noteq> chosen) pool) = mset pool" by (rule mset_pick [OF dp cp])
  have "mset pool + mset (filter (\<lambda>t. t \<notin> set pool) (rp_outbounds p)) = mset (rp_outbounds p)"
  proof (cases "?h = []")
    case False
    then have "pool = ?h" by (simp add: pool_def Let_def)
    then show ?thesis by (simp only: notin_filter mset_filter_parts)
  next
    case True
    then show ?thesis by (simp add: pool_def)
  qed
  with m1 have "mset (fst (selectLoadBalance now rnd p m)) = mset (rp_outbounds p)"
    unfolding eq by (metis append_Cons mset_append)
  moreover have "healthy_first now p m (fst (selectLoadBalance now rnd p m))"
  proof (cases "?h = []")
    case True
    then have "\<not> healthy_tag now p m t" if "t \<in> set (rp_outbounds p)" for t
      using that by (auto simp: filter_empty_conv)
    moreover have "set pool \<subseteq> set (rp_outbounds p)" by (auto simp: pool_def Let_def)
    ultimately show ?thesis
      unfolding eq healthy_first_def by (intro sorted_wrt_all) (use cp in auto)
  next
    case False
    then have "healthy_tag now p m t \<longleftrightarrow> t \<in> set pool" if "t \<in> set (rp_outbounds p)" for t
      using that by (auto simp: pool_def Let_def)
    moreover have "set pool \<subseteq> set (rp_outbounds p)" by (auto simp: pool_def Let_def)
    ultimately have h: "\<And>t. t \<in> set pool \<Longrightarrow> healthy_tag now p m t"
      "\<And>t. t \<in> set (filter (\<lambda>t. t \<notin> set pool) (rp_outbounds p)) \<Longrightarrow> \<not> healthy_tag now p m t" by auto
    have "sorted_wrt (\<lambda>a b. healthy_tag now p m b \<longrightarrow> healthy_tag now p m a) (filter (\<lambda>t. t \<notin> set pool) (rp_outbounds p))"
      by (rule sorted_wrt_all) (use h(2) in blast)
    moreover have "sorted_wrt (\<lambda>a b. healthy_tag now p m b \<longrightarrow> healthy_tag now p m a) (filter (\<lambda>t. t \<noteq> chosen) pool)"
      by (rule sorted_wrt_all) (use h(1) in auto)
    ultimately show ?thesis
      using h cp by (auto simp: eq healthy_first_def sorted_wrt_append simp del: sorted_wrt_filter)
  qed
  ultimately show ?thesis by simp
qed

section \<open>Properties\<close>

text \<open>
  Selecting from a policy never loses or invents an outbound: the candidates are a
  permutation of the policy's outbounds, and no unhealthy outbound comes before a healthy one,
  whatever the type, the strategy, the clock and the random number. So a request falls back to every
  outbound of its policy, the healthy ones first.
\<close>

lemma policy_candidates_permutation:
  assumes "jm_get (pm_policies m) tag = Some p" "distinct (rp_outbounds p)" "rp_outbounds p \<noteq> []"
  shows "mset (ps_candidates (fst (selectPolicy now rnd tag m))) = mset (rp_outbounds p)
     \<and> healthy_first now p m (ps_candidates (fst (selectPolicy now rnd tag m)))"
  using assms selectLoadBalance_spec [OF assms(2,3)] selectFailover_spec
  by (simp add: selectPolicy_def case_prod_beta)

definition samplePolicy :: routing_policy where
  "samplePolicy = \<lparr>rp_tag = ''auto'', rp_type = LoadBalance, rp_outbounds = [''a'', ''b'', ''c''], rp_strategy = RoundRobin,
     rp_unhealthyAfterFailures = 2, rp_recoverAfterMs = 1000\<rparr>"

text \<open>The outbounds a load-balancing policy chooses from: the healthy ones, or all when none is.\<close>

definition healthy_pool :: "int \<Rightarrow> routing_policy \<Rightarrow> policy_manager \<Rightarrow> string list" where
  "healthy_pool now p m =
     (let h = filter (\<lambda>t. fst (isHealthy now t p m)) (rp_outbounds p) in if h \<noteq> [] then h else rp_outbounds p)"

lemma healthy_pool_cong: "health_of m = health_of m' \<Longrightarrow> healthy_pool now p m = healthy_pool now p m'"
  by (simp add: healthy_pool_def isHealthy_fst healthy_tag_def Let_def)

definition rr_index :: "policy_manager \<Rightarrow> routing_policy \<Rightarrow> nat" where
  "rr_index m p = (case jm_get (pm_roundRobinIndex m) (rp_tag p) of Some n \<Rightarrow> n | None \<Rightarrow> 0)"

lemma select_round_robin:
  assumes "jm_get (pm_policies m) tag = Some p" "rp_type p = LoadBalance" "rp_strategy p = RoundRobin" "rp_outbounds p \<noteq> []"
    and "pool = healthy_pool now p m" "chosen = pool ! (rr_index m p mod length pool)"
  shows "ps_candidates (fst (selectPolicy now rnd tag m)) =
      chosen # filter (\<lambda>t. t \<noteq> chosen) pool @ filter (\<lambda>t. t \<notin> set pool) (rp_outbounds p)"
    "rr_index (snd (selectPolicy now rnd tag m)) p = rr_index m p + 1"
    "pm_policies (snd (selectPolicy now rnd tag m)) = pm_policies m"
    "health_of (snd (selectPolicy now rnd tag m)) = health_of m"
proof -
  have pool: "pool = (let h = filter (healthy_tag now p m) (rp_outbounds p) in if h \<noteq> [] then h else rp_outbounds p)"
    using assms(5) by (simp add: healthy_pool_def isHealthy_fst)
  have ne: "pool \<noteq> []" using assms(4) by (auto simp: pool Let_def)
  show "ps_candidates (fst (selectPolicy now rnd tag m)) =
      chosen # filter (\<lambda>t. t \<noteq> chosen) pool @ filter (\<lambda>t. t \<notin> set pool) (rp_outbounds p)"
    "rr_index (snd (selectPolicy now rnd tag m)) p = rr_index m p + 1"
    "pm_policies (snd (selectPolicy now rnd tag m)) = pm_policies m"
    "health_of (snd (selectPolicy now rnd tag m)) = health_of m"
    using assms(1-3) ne
    by (rule_tac selectLoadBalance_fst [OF pool ne, of rnd];
        simp add: selectPolicy_def case_prod_beta pickLoadBalanceFirst_def assms(6) rr_index_def Let_def)+
qed

lemma round_is_rotation: "map (\<lambda>k. xs ! ((i + k) mod length xs)) [j ..< j + length xs] = rotate (i + j) xs"
  by (rule nth_equalityI) (simp_all add: nth_rotate ac_simps)

lemma mset_rotation: "mset (rotate n xs) = mset xs"
proof (induction n)
  case (Suc n)
  have "mset (rotate1 ys) = mset ys" for ys :: "'a list" by (cases ys) simp_all
  with Suc show ?case by simp
qed simp

text \<open>
  Property C16. Round robin is fair. Select again and again from a load-balancing policy while its
  outbounds keep their health: every selection lists the chosen outbound first, then the rest of the
  pool of healthy outbounds, then the others; the choices walk through the pool cyclically, so any round
  of as many selections as the pool has places picks each healthy outbound as often as the policy lists
  it, and no unhealthy one while a healthy one is left.
\<close>

theorem round_robin_fair:
  assumes "jm_get (pm_policies (ms 0)) tag = Some p" "rp_type p = LoadBalance" "rp_strategy p = RoundRobin" "rp_outbounds p \<noteq> []"
    and "\<forall>k. ms (Suc k) = snd (selectPolicy (nows k) (rnds k) tag (ms k))"
    and "\<forall>k. healthy_pool (nows k) p (ms 0) = pool"
    and "\<forall>k. chosen k = hd (ps_candidates (fst (selectPolicy (nows k) (rnds k) tag (ms k))))"
  shows "(\<forall>k. chosen k = pool ! ((rr_index (ms 0) p + k) mod length pool) \<and>
      ps_candidates (fst (selectPolicy (nows k) (rnds k) tag (ms k))) =
        chosen k # filter (\<lambda>t. t \<noteq> chosen k) pool @ filter (\<lambda>t. t \<notin> set pool) (rp_outbounds p)) \<and>
    (\<forall>j. mset (map chosen [j ..< j + length pool]) = mset pool)"
proof -
  have state: "jm_get (pm_policies (ms k)) tag = Some p \<and> health_of (ms k) = health_of (ms 0) \<and> rr_index (ms k) p = rr_index (ms 0) p + k" for k
  proof (induction k)
    case 0
    then show ?case using assms(1) by simp
  next
    case (Suc k)
    then have "jm_get (pm_policies (ms k)) tag = Some p" by simp
    note step = select_round_robin [OF this assms(2-4) refl refl, of "nows k" "rnds k"]
    with Suc assms(5) show ?case by simp
  qed
  have pool: "healthy_pool (nows k) p (ms k) = pool" for k
    using assms(6) state [of k] healthy_pool_cong [of "ms k" "ms 0"] by simp
  have one: "ps_candidates (fst (selectPolicy (nows k) (rnds k) tag (ms k))) =
      (let c = pool ! ((rr_index (ms 0) p + k) mod length pool) in c # filter (\<lambda>t. t \<noteq> c) pool @ filter (\<lambda>t. t \<notin> set pool) (rp_outbounds p))" for k
    using select_round_robin(1) [OF _ assms(2-4) pool [symmetric] refl, where tag = tag and rnd = "rnds k"] state [of k] by (simp add: Let_def)
  then have chosen: "chosen k = pool ! ((rr_index (ms 0) p + k) mod length pool)" for k using assms(7) by (simp add: Let_def)
  then have "chosen = (\<lambda>k. pool ! ((rr_index (ms 0) p + k) mod length pool))" by blast
  then have "mset (map chosen [j ..< j + length pool]) = mset pool" for j
    by (simp only: round_is_rotation mset_rotation)
  with one chosen show ?thesis by (simp add: Let_def)
qed

definition brokenManager :: policy_manager where
  "brokenManager = (newPolicyManager [samplePolicy] [])\<lparr>pm_health := [(''a'', freshHealth ''a''),
     (''b'', (freshHealth ''b'')\<lparr>oh_failures := 2, oh_lastFailureAt := Some 0\<rparr>), (''c'', freshHealth ''c'')]\<rparr>"

theorem round_robin_fair_witness:
  "\<exists>ms. ms 0 = brokenManager \<and> (\<forall>k. ms (Suc k) = snd (selectPolicy 10 0 ''auto'' (ms k))) \<and>
     (\<forall>k. ps_candidates (fst (selectPolicy 10 0 ''auto'' (ms k))) =
        (if even k then [''a'', ''c'', ''b''] else [''c'', ''a'', ''b'']))"
proof -
  define ms where "ms = rec_nat brokenManager (\<lambda>k m. snd (selectPolicy 10 0 ''auto'' m))"
  have step: "ms 0 = brokenManager" "\<forall>k. ms (Suc k) = snd (selectPolicy 10 0 ''auto'' (ms k))" by (simp_all add: ms_def)
  have p: "jm_get (pm_policies brokenManager) ''auto'' = Some samplePolicy" "rr_index brokenManager samplePolicy = 0"
    "healthy_pool 10 samplePolicy brokenManager = [''a'', ''c'']" by code_simp+
  have f: "rp_type samplePolicy = LoadBalance" "rp_strategy samplePolicy = RoundRobin"
    "rp_outbounds samplePolicy = [''a'', ''b'', ''c'']" by (simp_all add: samplePolicy_def)
  then have ne: "rp_outbounds samplePolicy \<noteq> []" by simp
  define chosen where "chosen = (\<lambda>k. hd (ps_candidates (fst (selectPolicy 10 0 ''auto'' (ms k)))))"
  have fair: "\<forall>k. chosen k = [''a'', ''c''] ! ((rr_index (ms 0) samplePolicy + k) mod length [''a'', ''c'']) \<and>
      ps_candidates (fst (selectPolicy 10 0 ''auto'' (ms k))) =
        chosen k # filter (\<lambda>t. t \<noteq> chosen k) [''a'', ''c''] @ filter (\<lambda>t. t \<notin> set [''a'', ''c'']) (rp_outbounds samplePolicy)"
    by (rule round_robin_fair [where nows = "\<lambda>k. 10" and rnds = "\<lambda>k. 0" and tag = "''auto''", THEN conjunct1])
      (simp_all add: p step f(1,2) ne chosen_def)
  have "ps_candidates (fst (selectPolicy 10 0 ''auto'' (ms k))) = (if even k then [''a'', ''c'', ''b''] else [''c'', ''a'', ''b''])" for k
    using spec [OF fair, of k] by (cases "even k") (simp_all add: step(1) p(2) f(3) even_iff_mod_2_eq_zero odd_iff_mod_2_eq_one
      flip: numeral_2_eq_2)
  with step show ?thesis by blast
qed

lemma health_of_recordFailure:
  "health_of (recordFailure now tag m) = (health_of m)(tag :=
     (health_of m tag)\<lparr>oh_failures := oh_failures (health_of m tag) + 1, oh_lastFailureAt := Some now\<rparr>)"
  by (auto simp: recordFailure_def getHealth_def health_of_def fun_eq_iff split: option.splits)

lemma health_of_recordSuccess:
  "oh_lastFailureAt (health_of (recordSuccess tag l m) tag) = None"
  "oh_failures (health_of (recordSuccess tag l m) tag) = 0"
  by (simp_all add: recordSuccess_def case_prod_beta health_of_def)

section \<open>Invariants\<close>

definition store_bounded :: "nat \<Rightarrow> health_store \<Rightarrow> bool" where
  "store_bounded n s \<longleftrightarrow>
     hst_maxSamples s = n \<and> jm_ok (hst_buckets s) \<and> (\<forall>(tag, b) \<in> set (hst_buckets s). length b \<le> n)"

lemma store_bounded_record [inv_intros]:
  assumes "store_bounded n s"
  shows "store_bounded n (recordSample x s)"
proof -
  from assms have ok: "jm_ok (hst_buckets s)" by (simp add: store_bounded_def)
  show ?thesis
    using assms by (auto simp: recordSample_def store_bounded_def Let_def set_jm_set [OF ok])
qed

interpretation health_window: invariant_system recordSample "store_bounded n" for n
  by unfold_locales (rule store_bounded_record)

definition manager_ok :: "policy_manager \<Rightarrow> bool" where
  "manager_ok m \<longleftrightarrow>
     jm_ok (pm_policies m) \<and> jm_ok (pm_health m) \<and> jm_ok (pm_roundRobinIndex m) \<and>
     (\<forall>(tag, h) \<in> set (pm_health m). oh_tag h = tag)"

lemma manager_ok_getHealth [inv_intros]:
  assumes "manager_ok m"
  shows "manager_ok (snd (getHealth tag m)) \<and> oh_tag (fst (getHealth tag m)) = tag"
proof (cases "jm_get (pm_health m) tag")
  case None
  from assms have ok: "jm_ok (pm_health m)" by (simp add: manager_ok_def)
  from None assms show ?thesis
    by (auto simp: getHealth_def manager_ok_def set_jm_set [OF ok] freshHealth_def)
next
  case (Some h)
  with jm_get_Some_in [OF Some] assms show ?thesis by (auto simp: getHealth_def manager_ok_def)
qed

lemma manager_ok_update:
  assumes "manager_ok m" "oh_tag h = tag"
  shows "manager_ok (m\<lparr>pm_health := jm_set tag h (pm_health m)\<rparr>)"
proof -
  from assms have ok: "jm_ok (pm_health m)" by (simp add: manager_ok_def)
  from assms show ?thesis by (auto simp: manager_ok_def set_jm_set [OF ok])
qed

datatype policy_op = OpSelect int rat string | OpSuccess string rat | OpFailure int string | OpReload "routing_policy list"

fun policy_op_step :: "policy_op \<Rightarrow> policy_manager \<Rightarrow> policy_manager" where
  "policy_op_step (OpSelect now rnd tag) m = snd (selectPolicy now rnd tag m)"
| "policy_op_step (OpSuccess tag l) m = recordSuccess tag l m"
| "policy_op_step (OpFailure now tag) m = recordFailure now tag m"
| "policy_op_step (OpReload ps) m = reloadPolicies ps m"

lemma manager_ok_filterHealthy: "manager_ok m \<Longrightarrow> manager_ok (snd (filterHealthy now p ts m))"
  by (induction ts arbitrary: m) (auto simp: case_prod_beta isHealthy_def manager_ok_getHealth)

lemma manager_ok_pick: "manager_ok m \<Longrightarrow> manager_ok (snd (pickLoadBalanceFirst rnd p pool m))"
  by (auto simp: pickLoadBalanceFirst_def Let_def manager_ok_def split: balance_strategy.splits)

lemma manager_ok_fold_get: "manager_ok m \<Longrightarrow> manager_ok (fold (\<lambda>t m. snd (getHealth t m)) ts m)"
  by (induction ts arbitrary: m) (auto simp: manager_ok_getHealth)

lemma manager_ok_fold_policies:
  "manager_ok m \<Longrightarrow> manager_ok (fold (\<lambda>p m. fold (\<lambda>tag m. snd (getHealth tag m)) (rp_outbounds p) m) ps m)"
  by (induction ps arbitrary: m) (auto simp: manager_ok_fold_get)

lemma manager_ok_step [inv_intros]: "manager_ok m \<Longrightarrow> manager_ok (policy_op_step x m)"
proof (cases x)
  case (OpSelect now rnd tag)
  assume "manager_ok m"
  with OpSelect show ?thesis
    by (auto simp: selectPolicy_def selectFailover_def selectLoadBalance_def case_prod_beta Let_def
        manager_ok_filterHealthy manager_ok_pick split: option.splits)
next
  case (OpSuccess tag l)
  assume "manager_ok m"
  from manager_ok_getHealth [OF this, of tag] OpSuccess show ?thesis
    by (auto simp: recordSuccess_def case_prod_beta intro!: manager_ok_update)
next
  case (OpFailure now tag)
  assume "manager_ok m"
  from manager_ok_getHealth [OF this, of tag] OpFailure show ?thesis
    by (auto simp: recordFailure_def case_prod_beta intro!: manager_ok_update)
next
  case (OpReload ps)
  assume "manager_ok m"
  then have "manager_ok (m\<lparr>pm_policies := jm_of_list (map (\<lambda>p. (rp_tag p, p)) ps)\<rparr>)"
    by (simp add: manager_ok_def jm_ok_of_list)
  with OpReload show ?thesis by (simp add: reloadPolicies_def manager_ok_fold_policies)
qed

interpretation policy_runs: invariant_system policy_op_step manager_ok
  by unfold_locales (rule manager_ok_step)

section \<open>The circuit breaker\<close>

text \<open>The times at which an outbound failed since it last connected, in a history of the manager.\<close>

fun failures_since :: "string \<Rightarrow> policy_op list \<Rightarrow> int list \<Rightarrow> int list" where
  "failures_since tag [] ts = ts"
| "failures_since tag (OpFailure now t # xs) ts = failures_since tag xs (if t = tag then ts @ [now] else ts)"
| "failures_since tag (OpSuccess t l # xs) ts = failures_since tag xs (if t = tag then [] else ts)"
| "failures_since tag (OpSelect now rnd t # xs) ts = failures_since tag xs ts"
| "failures_since tag (OpReload ps # xs) ts = failures_since tag xs ts"

definition failed_at :: "int list \<Rightarrow> outbound_health \<Rightarrow> bool" where
  "failed_at ts h \<longleftrightarrow> oh_failures h = length ts \<and> oh_lastFailureAt h = (if ts = [] then None else Some (last ts))"

lemma health_of_recordSuccess_other: "u \<noteq> tag \<Longrightarrow> health_of (recordSuccess tag l m) u = health_of m u"
  by (auto simp: recordSuccess_def getHealth_def health_of_def split: option.splits)

lemma health_of_select: "health_of (snd (selectPolicy now rnd tag m)) = health_of m"
proof -
  have "health_of (snd (pickLoadBalanceFirst rnd p pool m')) = health_of m'" for p pool m'
    by (auto simp: pickLoadBalanceFirst_def health_of_def fun_eq_iff Let_def split: balance_strategy.splits)
  then show ?thesis
    by (auto simp: selectPolicy_def selectFailover_def selectLoadBalance_def case_prod_beta Let_def filterHealthy_facts split: option.splits)
qed

lemma health_of_reload: "health_of (reloadPolicies ps m) = health_of m"
proof -
  have tags: "health_of (fold (\<lambda>t m. snd (getHealth t m)) ts m') = health_of m'" for ts m'
    by (induction ts arbitrary: m') simp_all
  have "health_of (fold (\<lambda>p m. fold (\<lambda>t m. snd (getHealth t m)) (rp_outbounds p) m) ps m') = health_of m'" for m'
    by (induction ps arbitrary: m') (simp_all add: tags)
  then show ?thesis by (simp add: reloadPolicies_def) (simp add: health_of_def fun_eq_iff)
qed

lemma failed_at_run:
  "failed_at ts (health_of m tag) \<Longrightarrow> failed_at (failures_since tag xs ts) (health_of (fold policy_op_step xs m) tag)"
proof (induction tag xs ts arbitrary: m rule: failures_since.induct)
  case (2 tag now t xs ts)
  then show ?case by (cases "t = tag") (simp_all add: health_of_recordFailure failed_at_def)
next
  case (3 tag t l xs ts)
  then show ?case by (cases "t = tag") (simp_all add: health_of_recordSuccess health_of_recordSuccess_other failed_at_def)
qed (simp_all add: health_of_select health_of_reload)

text \<open>
  Property C15. The health of an outbound is a circuit breaker. After any history of selections,
  reloads, successes and failures, an outbound is unhealthy exactly while it failed at least as often
  as the threshold since it last connected and the recovery time since the last of these failures has
  not passed; what happens to other outbounds does not matter.
\<close>

theorem health_circuit_breaker:
  "fst (isHealthy now tag p (fold policy_op_step xs (newPolicyManager ps []))) =
     (\<not> (rp_unhealthyAfterFailures p \<le> length (failures_since tag xs []) \<and> failures_since tag xs [] \<noteq> [] \<and>
        now - last (failures_since tag xs []) < rp_recoverAfterMs p))"
proof -
  have "health_of (newPolicyManager ps []) tag = freshHealth tag"
    unfolding newPolicyManager_def health_of_reload by (simp add: health_of_def jm_of_list_def)
  then have "failed_at [] (health_of (newPolicyManager ps []) tag)" by (simp add: failed_at_def freshHealth_def)
  from failed_at_run [OF this, of xs] show ?thesis
    by (auto simp: isHealthy_fst healthy_tag_def failed_at_def)
qed

end
