(* ===== verification/ReloadTxn.thy ===== *)
theory ReloadTxn
  imports JsMap
begin

text \<open>
  The vocabulary of the transactional reload (\<^verbatim>\<open>src/reload/types.ts\<close>), the transaction state
  machine (\<^verbatim>\<open>src/reload/generation.ts\<close>), the event log with the redaction of its messages
  (\<^verbatim>\<open>src/reload/events.ts\<close>) and the reload metrics (\<^verbatim>\<open>src/reload/metrics.ts\<close>).
  Clock readings are arguments; an event keeps its timestamp as the number the ISO text is
  rendered from.
\<close>

section \<open>Names and states\<close>

datatype reload_component_name =
    CDns | CFakeIpStore | CRouter | CPolicyProber | COutboundRegistry | CInboundListeners
  | CDashboardServer | CMetricsServer | CPluginManager | CConnectionManager | CUdpSessionManager

datatype txn_state =
    TIdle | TParsing | TValidating | TPreparing | TPrepared
  | TCommitting | TCommitted | TRollingBack | TRolledBack | TFailed

datatype generation_state = GCandidate | GPrepared | GActive | GDraining | GRetired | GFailed

record reload_generation =
  rg_id :: string
  rg_createdAt :: int
  rg_configHash :: string
  rg_state :: generation_state
  rg_parent :: "string option"

definition createReloadGeneration ::
  "string \<Rightarrow> int option \<Rightarrow> string \<Rightarrow> generation_state option \<Rightarrow> string option \<Rightarrow> int \<Rightarrow> reload_generation" where
  "createReloadGeneration gid createdAt configHash st parent now =
     \<lparr>rg_id = gid,
      rg_createdAt = (case createdAt of Some t \<Rightarrow> t | None \<Rightarrow> now),
      rg_configHash = configHash,
      rg_state = (case st of Some x \<Rightarrow> x | None \<Rightarrow> GCandidate),
      rg_parent = parent\<rparr>"

section \<open>The transaction state machine\<close>

fun transitions :: "txn_state \<Rightarrow> txn_state list" where
  "transitions TIdle = [TParsing]"
| "transitions TParsing = [TValidating, TFailed]"
| "transitions TValidating = [TPreparing, TFailed]"
| "transitions TPreparing = [TPrepared, TRollingBack, TFailed]"
| "transitions TPrepared = [TCommitting, TRollingBack]"
| "transitions TCommitting = [TCommitted, TRollingBack, TFailed]"
| "transitions TCommitted = []"
| "transitions TRollingBack = [TRolledBack, TFailed]"
| "transitions TRolledBack = []"
| "transitions TFailed = []"

definition isTerminal :: "txn_state \<Rightarrow> bool" where
  "isTerminal s \<longleftrightarrow> s = TCommitted \<or> s = TRolledBack \<or> s = TFailed"

record reload_txn =
  tx_id :: string
  tx_old :: reload_generation
  tx_candidate :: reload_generation
  tx_startedAt :: int
  tx_state :: txn_state
  tx_completedAt :: "int option"
  tx_failureReason :: "string option"

definition newTransaction ::
  "string \<Rightarrow> reload_generation \<Rightarrow> reload_generation \<Rightarrow> int \<Rightarrow> reload_txn" where
  "newTransaction i old cand startedAt =
     \<lparr>tx_id = i, tx_old = old, tx_candidate = cand, tx_startedAt = startedAt,
      tx_state = TIdle, tx_completedAt = None, tx_failureReason = None\<rparr>"

fun show_txn_state :: "txn_state \<Rightarrow> string" where
  "show_txn_state TIdle = ''idle''"
| "show_txn_state TParsing = ''parsing''"
| "show_txn_state TValidating = ''validating''"
| "show_txn_state TPreparing = ''preparing''"
| "show_txn_state TPrepared = ''prepared''"
| "show_txn_state TCommitting = ''committing''"
| "show_txn_state TCommitted = ''committed''"
| "show_txn_state TRollingBack = ''rolling-back''"
| "show_txn_state TRolledBack = ''rolled-back''"
| "show_txn_state TFailed = ''failed''"

definition transition :: "txn_state \<Rightarrow> int \<Rightarrow> reload_txn \<Rightarrow> reload_txn result" where
  "transition next now t =
     (if next \<notin> set (transitions (tx_state t))
      then Inl (PlainError (''invalid reload transaction transition '' @ show_txn_state (tx_state t)
                 @ '' -> '' @ show_txn_state next))
      else Inr (t\<lparr>tx_state := next,
                  tx_completedAt := (if isTerminal next then Some now else tx_completedAt t)\<rparr>))"

definition fail_txn :: "string \<Rightarrow> int \<Rightarrow> reload_txn \<Rightarrow> reload_txn result" where
  "fail_txn reason now t =
     (if js_trim reason = [] then Inl (PlainError ''reload failure reason must not be empty'')
      else if isTerminal (tx_state t)
      then Inl (PlainError (''cannot fail terminal reload transaction in state ''
                 @ show_txn_state (tx_state t)))
      else if tx_state t = TPreparing \<or> tx_state t = TPrepared \<or> tx_state t = TCommitting
      then Inr (t\<lparr>tx_failureReason := Some reason, tx_state := TRollingBack\<rparr>)
      else Inr (t\<lparr>tx_failureReason := Some reason, tx_state := TFailed, tx_completedAt := Some now\<rparr>))"

text \<open>The calls a client can make on a transaction that succeed, as a step relation.\<close>

inductive txn_step :: "reload_txn \<Rightarrow> reload_txn \<Rightarrow> bool" where
  transitioned: "transition next now t = Inr t' \<Longrightarrow> txn_step t t'"
| failed: "fail_txn reason now t = Inr t' \<Longrightarrow> txn_step t t'"

inductive txn_reachable :: "reload_txn \<Rightarrow> bool" where
  fresh: "txn_reachable (newTransaction i old cand startedAt)"
| step: "txn_reachable t \<Longrightarrow> txn_step t t' \<Longrightarrow> txn_reachable t'"

inductive_cases txn_stepE: "txn_step t t'"

definition txn_inv :: "reload_txn \<Rightarrow> bool" where
  "txn_inv t \<longleftrightarrow>
     (tx_completedAt t \<noteq> None \<longleftrightarrow> isTerminal (tx_state t))
     \<and> (tx_state t \<in> {TIdle, TParsing, TValidating, TPreparing, TPrepared, TCommitting, TCommitted}
         \<longrightarrow> tx_failureReason t = None)"

lemma transition_Inr_iff:
  "transition next now t = Inr t' \<longleftrightarrow>
     next \<in> set (transitions (tx_state t)) \<and>
     t' = t\<lparr>tx_state := next,
            tx_completedAt := (if isTerminal next then Some now else tx_completedAt t)\<rparr>"
  by (auto simp: transition_def)

lemma transitions_not_terminal: "next \<in> set (transitions s) \<Longrightarrow> \<not> isTerminal s"
  by (cases s) (auto simp: isTerminal_def)

lemma transition_keeps_inv:
  assumes "txn_inv t" "transition next now t = Inr t'"
  shows "txn_inv t'"
proof -
  from assms(2) have n: "next \<in> set (transitions (tx_state t))"
    and t': "t' = t\<lparr>tx_state := next,
                 tx_completedAt := (if isTerminal next then Some now else tx_completedAt t)\<rparr>"
    by (simp_all add: transition_Inr_iff)
  show ?thesis
    using assms(1) n unfolding t' txn_inv_def isTerminal_def by (cases "tx_state t") auto
qed

lemma fail_Inr_iff:
  "fail_txn reason now t = Inr t' \<longleftrightarrow>
     js_trim reason \<noteq> [] \<and> \<not> isTerminal (tx_state t) \<and>
     t' = (if tx_state t = TPreparing \<or> tx_state t = TPrepared \<or> tx_state t = TCommitting
           then t\<lparr>tx_failureReason := Some reason, tx_state := TRollingBack\<rparr>
           else t\<lparr>tx_failureReason := Some reason, tx_state := TFailed, tx_completedAt := Some now\<rparr>)"
  unfolding fail_txn_def by (cases "js_trim reason = []"; cases "isTerminal (tx_state t)"; simp; metis)

lemma fail_keeps_inv:
  assumes "txn_inv t" "fail_txn reason now t = Inr t'"
  shows "txn_inv t'"
proof -
  from assms(2)
  have t': "t' = (if tx_state t = TPreparing \<or> tx_state t = TPrepared \<or> tx_state t = TCommitting
           then t\<lparr>tx_failureReason := Some reason, tx_state := TRollingBack\<rparr>
           else t\<lparr>tx_failureReason := Some reason, tx_state := TFailed, tx_completedAt := Some now\<rparr>)"
    unfolding fail_Inr_iff by (elim conjE)
  from assms(1) show ?thesis
    unfolding t' by (cases "tx_state t") (simp_all add: txn_inv_def isTerminal_def)
qed

lemma txn_step_keeps_inv: "txn_step t t' \<Longrightarrow> txn_inv t \<Longrightarrow> txn_inv t'"
  by (erule txn_stepE) (auto intro: transition_keeps_inv fail_keeps_inv)

lemma txn_reachable_inv: "txn_reachable t \<Longrightarrow> txn_inv t"
proof (induction rule: txn_reachable.induct)
  case (fresh i old cand startedAt)
  show ?case by (simp add: newTransaction_def txn_inv_def isTerminal_def)
qed (rule txn_step_keeps_inv)

lemma txn_terminal_stuck: "isTerminal (tx_state t) \<Longrightarrow> \<not> txn_step t t'"
  by (rule notI, erule txn_stepE)
     (auto simp: transition_Inr_iff fail_Inr_iff dest: transitions_not_terminal)

text \<open>A commit can only be published after prepare, and a rollback never follows a commit.\<close>

lemma txn_step_frame:
  "txn_step t t' \<Longrightarrow> tx_id t' = tx_id t \<and> tx_old t' = tx_old t \<and> tx_candidate t' = tx_candidate t"
  by (auto simp: transition_Inr_iff fail_Inr_iff elim!: txn_stepE)

section \<open>Messages and their redaction\<close>

function collapse_ws :: "string \<Rightarrow> string" where
  "collapse_ws [] = []"
| "collapse_ws (c # cs) =
     (if is_space c then CHR '' '' # collapse_ws (dropWhile is_space cs) else c # collapse_ws cs)"
  by pat_completeness auto
termination
  by (relation "measure length") (auto simp: le_imp_less_Suc length_dropWhile_le)

definition secret_words :: "string list" where
  "secret_words = [''password'', ''token'', ''secret'', ''authorization'']"

definition secret_stop :: "char \<Rightarrow> bool" where
  "secret_stop c \<longleftrightarrow> is_space c \<or> c = CHR '','' \<or> c = CHR '';''"

text \<open>A match of the credential pattern at the start of the text: the keyword as it is
  written and the text after the secret.\<close>

definition match_word :: "string \<Rightarrow> string \<Rightarrow> (string \<times> string) option" where
  "match_word w s =
     (if map lower_char (take (length w) s) = w
      then (case dropWhile is_space (drop (length w) s) of
              [] \<Rightarrow> None
            | sep # r \<Rightarrow>
                if sep = CHR '':'' \<or> sep = CHR ''=''
                then (let v = dropWhile is_space r in
                      if v = [] \<or> secret_stop (hd v) then None
                      else Some (take (length w) s, dropWhile (\<lambda>c. \<not> secret_stop c) v))
                else None)
      else None)"

fun first_match :: "string list \<Rightarrow> string \<Rightarrow> (string \<times> string) option" where
  "first_match [] s = None"
| "first_match (w # ws) s = (case match_word w s of Some m \<Rightarrow> Some m | None \<Rightarrow> first_match ws s)"

lemma match_word_shorter: "match_word w s = Some (k, r) \<Longrightarrow> length r < length s"
proof -
  assume m: "match_word w s = Some (k, r)"
  from m obtain sep rs where d: "dropWhile is_space (drop (length w) s) = sep # rs"
    and r: "r = dropWhile (\<lambda>c. \<not> secret_stop c) (dropWhile is_space rs)"
    by (auto simp: match_word_def Let_def split: if_splits list.splits)
  have "length r \<le> length rs"
    unfolding r by (rule order_trans [OF length_dropWhile_le length_dropWhile_le])
  moreover have "length (sep # rs) \<le> length s"
    unfolding d [symmetric] by (rule order_trans [OF length_dropWhile_le]) simp
  ultimately show ?thesis by simp
qed

lemma first_match_shorter: "first_match ws s = Some (k, r) \<Longrightarrow> length r < length s"
  by (induction ws) (auto dest: match_word_shorter split: option.splits)

function redact_secrets :: "string \<Rightarrow> string" where
  "redact_secrets s =
     (case first_match secret_words s of
        Some (k, r) \<Rightarrow> k @ ''=<redacted>'' @ redact_secrets r
      | None \<Rightarrow> (case s of [] \<Rightarrow> [] | c # cs \<Rightarrow> c # redact_secrets cs))"
  by pat_completeness auto
termination
  by (relation "measure length") (auto dest: first_match_shorter)

declare redact_secrets.simps [simp del]

definition url_user_stop :: "char \<Rightarrow> bool" where
  "url_user_stop c \<longleftrightarrow> is_space c \<or> c = CHR ''/'' \<or> c = CHR '':'' \<or> c = CHR ''@''"

definition url_pass_stop :: "char \<Rightarrow> bool" where
  "url_pass_stop c \<longleftrightarrow> is_space c \<or> c = CHR ''/'' \<or> c = CHR ''@''"

definition match_url :: "string \<Rightarrow> string option" where
  "match_url s =
     (if take 3 s = ''://''
      then (let u = drop 3 s; r = dropWhile (\<lambda>c. \<not> url_user_stop c) u in
            if takeWhile (\<lambda>c. \<not> url_user_stop c) u \<noteq> [] \<and> r \<noteq> [] \<and> hd r = CHR '':''
            then (let p = tl r; q = dropWhile (\<lambda>c. \<not> url_pass_stop c) p in
                  if takeWhile (\<lambda>c. \<not> url_pass_stop c) p \<noteq> [] \<and> q \<noteq> [] \<and> hd q = CHR ''@''
                  then Some (tl q) else None)
            else None)
      else None)"

lemma match_url_shorter: "match_url s = Some r \<Longrightarrow> length r < length s"
proof -
  assume m: "match_url s = Some r"
  define u where "u = dropWhile (\<lambda>c. \<not> url_user_stop c) (drop 3 s)"
  define q where "q = dropWhile (\<lambda>c. \<not> url_pass_stop c) (tl u)"
  from m have r: "r = tl q" and "q \<noteq> []"
    by (auto simp: match_url_def Let_def u_def q_def split: if_splits)
  have "length q \<le> length (tl u)" unfolding q_def by (rule length_dropWhile_le)
  also have "\<dots> \<le> length u" by simp
  also have "\<dots> \<le> length (drop 3 s)" unfolding u_def by (rule length_dropWhile_le)
  also have "\<dots> \<le> length s" by simp
  finally show ?thesis using \<open>q \<noteq> []\<close> r by (cases q) auto
qed

function redact_urls :: "string \<Rightarrow> string" where
  "redact_urls s =
     (case match_url s of
        Some r \<Rightarrow> ''://<redacted>:<redacted>@'' @ redact_urls r
      | None \<Rightarrow> (case s of [] \<Rightarrow> [] | c # cs \<Rightarrow> c # redact_urls cs))"
  by pat_completeness auto
termination
  by (relation "measure length") (auto dest: match_url_shorter)

declare redact_urls.simps [simp del]

definition sanitizeReloadMessage :: "string \<Rightarrow> string" where
  "sanitizeReloadMessage m = redact_urls (redact_secrets (take 512 (js_trim (collapse_ws m))))"

text \<open>The redaction of a credential does not depend on the credential.\<close>

lemma redact_after_match:
  "first_match secret_words s = Some (k, r) \<Longrightarrow>
     redact_secrets s = k @ ''=<redacted>'' @ redact_secrets r"
  by (subst redact_secrets.simps) simp

lemma match_word_secret:
  assumes "\<forall>c \<in> set v. \<not> secret_stop c" "v \<noteq> []" "rest = [] \<or> secret_stop (hd rest)"
    and "map lower_char k = w" "sep = CHR '':'' \<or> sep = CHR ''=''"
  shows "match_word w (k @ sep # v @ rest) = Some (k, rest)"
proof -
  have len: "length w = length k" using assms(4) by auto
  have vstart: "dropWhile is_space (v @ rest) = v @ rest"
    using assms(1,2) by (cases v) (auto simp: secret_stop_def)
  have vdrop: "dropWhile (\<lambda>c. \<not> secret_stop c) (v @ rest) = rest"
    using assms(1,3) by (cases rest) (auto simp: dropWhile_append)
  have sepspace: "\<not> is_space sep"
    using assms(5) by (auto simp: is_space_def char_code_def)
  have hd: "\<not> secret_stop (hd (v @ rest))" "v @ rest \<noteq> []" using assms(1,2) by (cases v; simp)+
  have ex: "\<exists>x\<in>set v \<union> set rest. \<not> is_space x"
    using assms(1,2) by (cases v) (auto simp: secret_stop_def)
  show ?thesis
    using assms(4,5) len hd ex by (auto simp: match_word_def vstart vdrop sepspace Let_def)
qed

section \<open>The event log\<close>

datatype reload_phase = PhParse | PhValidate | PhPrepare | PhHealth | PhCommit | PhRollback | PhCleanup

datatype reload_event_type =
    TransactionStarted | PhaseStarted | PhaseCompleted
  | PrepareStarted | PrepareCompleted | PrepareFailed | HealthFailed
  | CommitStarted | CommitCompleted | CommitFailed
  | RollbackStarted | RollbackCompleted | RollbackFailed
  | TransactionCommitted | TransactionRolledBack | TransactionFailed | TransactionCleanedUp

record reload_event =
  ev_type :: reload_event_type
  ev_timestamp :: int
  ev_transactionId :: string
  ev_generationId :: string
  ev_component :: "reload_component_name option"
  ev_phase :: "reload_phase option"
  ev_durationMs :: "int option"
  ev_message :: "string option"

definition append_event ::
  "reload_event_type \<Rightarrow> string \<Rightarrow> string \<Rightarrow> reload_component_name option \<Rightarrow> reload_phase option \<Rightarrow>
   string option \<Rightarrow> int option \<Rightarrow> int \<Rightarrow> reload_event list \<Rightarrow> reload_event list" where
  "append_event ty tid gid who ph msg dur now evs =
     evs @ [\<lparr>ev_type = ty, ev_timestamp = now, ev_transactionId = tid, ev_generationId = gid,
             ev_component = who, ev_phase = ph,
             ev_durationMs = map_option (max 0) dur,
             ev_message = map_option sanitizeReloadMessage msg\<rparr>]"

section \<open>Metrics\<close>

definition max_duration_samples :: nat where
  "max_duration_samples = 256"

definition pushBounded :: "'a list \<Rightarrow> 'a \<Rightarrow> 'a list" where
  "pushBounded vs v =
     (let vs' = vs @ [v] in if length vs' > max_duration_samples then tl vs' else vs')"

lemma length_pushBounded:
  "length vs \<le> max_duration_samples \<Longrightarrow> length (pushBounded vs v) \<le> max_duration_samples"
  by (auto simp: pushBounded_def Let_def)

record reload_metrics =
  rm_total :: nat
  rm_success :: nat
  rm_failure :: nat
  rm_rollback :: nat
  rm_componentRollback :: "(reload_component_name, nat) jsmap"
  rm_transactionDurations :: "int list"
  rm_prepareDurations :: "(reload_component_name \<times> int) list"
  rm_commitDurations :: "(reload_component_name \<times> int) list"
  rm_currentGeneration :: string
  rm_lastFailureReason :: "string option"

definition newReloadMetrics :: "string \<Rightarrow> reload_metrics" where
  "newReloadMetrics g =
     \<lparr>rm_total = 0, rm_success = 0, rm_failure = 0, rm_rollback = 0, rm_componentRollback = [],
      rm_transactionDurations = [], rm_prepareDurations = [], rm_commitDurations = [],
      rm_currentGeneration = g, rm_lastFailureReason = None\<rparr>"

definition transactionStarted :: "reload_metrics \<Rightarrow> reload_metrics" where
  "transactionStarted m = m\<lparr>rm_total := rm_total m + 1\<rparr>"

definition transactionSucceeded :: "string \<Rightarrow> reload_metrics \<Rightarrow> reload_metrics" where
  "transactionSucceeded g m = m\<lparr>rm_success := rm_success m + 1, rm_currentGeneration := g\<rparr>"

definition transactionFailed :: "string \<Rightarrow> reload_metrics \<Rightarrow> reload_metrics" where
  "transactionFailed reason m =
     m\<lparr>rm_failure := rm_failure m + 1, rm_lastFailureReason := Some (sanitizeReloadMessage reason)\<rparr>"

definition transactionRolledBack :: "reload_metrics \<Rightarrow> reload_metrics" where
  "transactionRolledBack m = m\<lparr>rm_rollback := rm_rollback m + 1\<rparr>"

definition componentRolledBack :: "reload_component_name \<Rightarrow> reload_metrics \<Rightarrow> reload_metrics" where
  "componentRolledBack c m =
     m\<lparr>rm_componentRollback :=
         jm_set c ((case jm_get (rm_componentRollback m) c of Some n \<Rightarrow> n | None \<Rightarrow> 0) + 1)
           (rm_componentRollback m)\<rparr>"

definition recordPrepareDuration :: "reload_component_name \<Rightarrow> int \<Rightarrow> reload_metrics \<Rightarrow> reload_metrics" where
  "recordPrepareDuration c d m =
     m\<lparr>rm_prepareDurations := pushBounded (rm_prepareDurations m) (c, max 0 d)\<rparr>"

definition recordCommitDuration :: "reload_component_name \<Rightarrow> int \<Rightarrow> reload_metrics \<Rightarrow> reload_metrics" where
  "recordCommitDuration c d m =
     m\<lparr>rm_commitDurations := pushBounded (rm_commitDurations m) (c, max 0 d)\<rparr>"

definition recordTransactionDuration :: "int \<Rightarrow> reload_metrics \<Rightarrow> reload_metrics" where
  "recordTransactionDuration d m =
     m\<lparr>rm_transactionDurations := pushBounded (rm_transactionDurations m) (max 0 d)\<rparr>"

lemmas reload_metrics_defs =
  transactionStarted_def transactionSucceeded_def transactionFailed_def transactionRolledBack_def
  componentRolledBack_def recordPrepareDuration_def recordCommitDuration_def recordTransactionDuration_def

section \<open>The life of a transaction\<close>

text \<open>Property C27. A reload transaction carries a completion time exactly when its state is terminal, a
  failure reason only when it is rolling back, rolled back or failed, and once terminal it accepts
  no transition and no failure, whatever calls it received since it was created.\<close>

theorem txn_lifecycle:
  assumes "txn_reachable t"
  shows "(tx_completedAt t \<noteq> None \<longleftrightarrow> isTerminal (tx_state t)) \<and>
    (tx_failureReason t \<noteq> None \<longrightarrow> tx_state t \<in> {TRollingBack, TRolledBack, TFailed}) \<and>
    (isTerminal (tx_state t) \<longrightarrow> (\<forall>next reason now. (\<exists>e. transition next now t = Inl e) \<and> (\<exists>e. fail_txn reason now t = Inl e)))"
proof (intro conjI impI allI)
  note inv = txn_reachable_inv [OF assms]
  then show "tx_completedAt t \<noteq> None \<longleftrightarrow> isTerminal (tx_state t)" by (simp add: txn_inv_def)
  show "tx_state t \<in> {TRollingBack, TRolledBack, TFailed}" if "tx_failureReason t \<noteq> None"
    using inv that by (cases "tx_state t") (auto simp: txn_inv_def)
  fix next' reason now assume terminal: "isTerminal (tx_state t)"
  show "\<exists>e. transition next' now t = Inl e"
    using txn_terminal_stuck [OF terminal, of "projr (transition next' now t)"] txn_step.transitioned [of next' now t]
    by (cases "transition next' now t") auto
  show "\<exists>e. fail_txn reason now t = Inl e" using terminal by (simp add: fail_txn_def)
qed

definition failedSample :: reload_txn where
  "failedSample =
     (let g = \<lparr>rg_id = ''g'', rg_createdAt = 0, rg_configHash = ''h'', rg_state = GActive, rg_parent = None\<rparr>
      in projr (fail_txn ''boom'' 5 (newTransaction ''t'' g g 0)))"

lemma txn_lifecycle_witness:
  "isTerminal (tx_state failedSample) \<and> tx_completedAt failedSample = Some 5 \<and>
   (\<forall>next reason now. (\<exists>e. transition next now failedSample = Inl e) \<and> (\<exists>e. fail_txn reason now failedSample = Inl e))"
proof -
  have s: "fail_txn ''boom'' 5 (newTransaction ''t'' g g 0) =
      Inr \<lparr>tx_id = ''t'', tx_old = g, tx_candidate = g, tx_startedAt = 0, tx_state = TFailed,
           tx_completedAt = Some 5, tx_failureReason = Some ''boom''\<rparr>" for g
    by (simp add: fail_txn_def newTransaction_def isTerminal_def js_trim_def is_space_def char_code_def)
  have "txn_reachable failedSample"
    unfolding failedSample_def Let_def s sum.sel by (rule txn_reachable.step [OF txn_reachable.fresh txn_step.failed [OF s]])
  moreover have "isTerminal (tx_state failedSample)" "tx_completedAt failedSample = Some 5"
    by (simp_all add: failedSample_def Let_def s isTerminal_def)
  ultimately show ?thesis using txn_lifecycle [of failedSample] by blast
qed

end
