(* ===== verification/ReloadExecutor.thy ===== *)
theory ReloadExecutor
  imports ReloadTxn
begin

text \<open>
  The transactional reload executor (\<^verbatim>\<open>src/reload/executor.ts\<close>) over the component contract of
  \<^verbatim>\<open>src/reload/contract.ts\<close>.

  A component is a record of its five asynchronous operations, each a function of the world
  (everything the components can change, the mutable fields of prepared values included); a
  prepared value is a handle into that world. The environment decides what the program does not:
  what each reading of the clock gives, whether the abort signal has fired when an operation
  starts, and who wins the race of an operation against its timer and the signal. An operation
  that loses the race has taken its effect by then or never does (the flag of the outcome).
\<close>

section \<open>The component contract\<close>

record op_context =
  oc_transactionId :: string
  oc_oldGenerationId :: string
  oc_candidateGenerationId :: string
  oc_deadline :: int
  oc_abortable :: bool

record ('c, 'w, 'p) reloadable =
  rc_name :: reload_component_name
  rc_prepare :: "'c \<Rightarrow> op_context \<Rightarrow> 'w \<Rightarrow> 'p result \<times> 'w"
  rc_health :: "'p \<Rightarrow> op_context \<Rightarrow> 'w \<Rightarrow> unit result \<times> 'w"
  rc_commit :: "'p \<Rightarrow> op_context \<Rightarrow> 'w \<Rightarrow> unit result \<times> 'w"
  rc_rollback :: "'p \<Rightarrow> op_context \<Rightarrow> 'w \<Rightarrow> unit result \<times> 'w"
  rc_cleanup :: "'p \<Rightarrow> op_context \<Rightarrow> 'w \<Rightarrow> unit result \<times> 'w"

datatype race = Settles | TimesOut bool | Aborts bool

record env =
  clock_at :: "nat \<Rightarrow> int"
  aborted_at :: "nat \<Rightarrow> bool"
  race_at :: "nat \<Rightarrow> race"

datatype failure_stage = FParse | FValidate | FPrepare | FHealth | FCommit | FRollback | FCleanup

record component_error =
  ce_component :: "reload_component_name option"
  ce_stage :: failure_stage
  ce_message :: string

record ('c, 'w, 'p) exec =
  world :: 'w
  txn :: reload_txn
  evlog :: "reload_event list"
  metrics :: reload_metrics
  componentErrors :: "component_error list"
  preparedEntries :: "(('c, 'w, 'p) reloadable \<times> 'p) list"
  committedEntries :: "(('c, 'w, 'p) reloadable \<times> 'p) list"
  originalFailure :: "js_error option"
  primaryFailureStage :: "failure_stage option"
  deadline :: int
  opCount :: nat
  clockCount :: nat

record ('c, 'w, 'p) exec_options =
  eo_transactionId :: string
  eo_old :: reload_generation
  eo_candidate :: reload_generation
  eo_config :: 'c
  eo_components :: "('c, 'w, 'p) reloadable list"
  eo_timeoutMs :: int
  eo_parse :: "('w \<Rightarrow> unit result \<times> 'w) option"
  eo_validate :: "('w \<Rightarrow> unit result \<times> 'w) option"

fun show_component :: "reload_component_name \<Rightarrow> string" where
  "show_component CDns = ''dns''"
| "show_component CFakeIpStore = ''fake-ip-store''"
| "show_component CRouter = ''router''"
| "show_component CPolicyProber = ''policy-prober''"
| "show_component COutboundRegistry = ''outbound-registry''"
| "show_component CInboundListeners = ''inbound-listeners''"
| "show_component CDashboardServer = ''dashboard-server''"
| "show_component CMetricsServer = ''metrics-server''"
| "show_component CPluginManager = ''plugin-manager''"
| "show_component CConnectionManager = ''connection-manager''"
| "show_component CUdpSessionManager = ''udp-session-manager''"

section \<open>Executor helpers\<close>

definition read_clock :: "env \<Rightarrow> ('c, 'w, 'p) exec \<Rightarrow> int \<times> ('c, 'w, 'p) exec" where
  "read_clock env s = (clock_at env (clockCount s), s\<lparr>clockCount := Suc (clockCount s)\<rparr>)"

definition base_context :: "('c, 'w, 'p) exec_options \<Rightarrow> ('c, 'w, 'p) exec \<Rightarrow> op_context" where
  "base_context opts s =
     \<lparr>oc_transactionId = eo_transactionId opts, oc_oldGenerationId = rg_id (eo_old opts),
      oc_candidateGenerationId = rg_id (eo_candidate opts), oc_deadline = deadline s,
      oc_abortable = True\<rparr>"

definition recoveryContext ::
  "env \<Rightarrow> ('c, 'w, 'p) exec_options \<Rightarrow> ('c, 'w, 'p) exec \<Rightarrow> op_context \<times> ('c, 'w, 'p) exec" where
  "recoveryContext env opts s =
     (let recoveryTimeoutMs = max 100 (min (eo_timeoutMs opts) 1000); (t, s1) = read_clock env s
      in ((base_context opts s)\<lparr>oc_deadline := t + recoveryTimeoutMs, oc_abortable := False\<rparr>, s1))"

definition executeReloadOperation ::
  "env \<Rightarrow> string \<Rightarrow> op_context \<Rightarrow> ('w \<Rightarrow> 'a result \<times> 'w) \<Rightarrow> ('c, 'w, 'p) exec \<Rightarrow>
   'a result \<times> ('c, 'w, 'p) exec" where
  "executeReloadOperation env label ctx operation s =
     (let k = opCount s; s0 = s\<lparr>opCount := Suc k\<rparr> in
      if oc_abortable ctx \<and> aborted_at env k
      then (Inl (PlainError (''reload operation '' @ quoted label @ '' aborted before start'')), s0)
      else (let (t, s1) = read_clock env s0; remainingMs = oc_deadline ctx - t in
            if remainingMs \<le> 0
            then (Inl (PlainError (''reload operation '' @ quoted label @ '' exceeded transaction deadline'')), s1)
            else (let (r, w) = operation (world s1) in
                  case race_at env k of
                    Settles \<Rightarrow> (r, s1\<lparr>world := w\<rparr>)
                  | TimesOut landed \<Rightarrow>
                      (Inl (PlainError (''reload operation '' @ quoted label @ '' timed out after ''
                              @ show_int remainingMs @ ''ms'')),
                       if landed then s1\<lparr>world := w\<rparr> else s1)
                  | Aborts landed \<Rightarrow>
                      if oc_abortable ctx
                      then (Inl (PlainError (''reload operation '' @ quoted label @ '' aborted'')),
                            if landed then s1\<lparr>world := w\<rparr> else s1)
                      else (r, s1\<lparr>world := w\<rparr>))))"

definition event ::
  "env \<Rightarrow> ('c, 'w, 'p) exec_options \<Rightarrow> reload_event_type \<Rightarrow> reload_component_name option \<Rightarrow>
   reload_phase option \<Rightarrow> string option \<Rightarrow> int option \<Rightarrow> ('c, 'w, 'p) exec \<Rightarrow> ('c, 'w, 'p) exec" where
  "event env opts ty who ph msg dur s =
     (let (t, s1) = read_clock env s in
      s1\<lparr>evlog := append_event ty (eo_transactionId opts) (rg_id (eo_candidate opts)) who ph msg dur t
           (evlog s1)\<rparr>)"

text \<open>An event whose duration is the time since \<open>started\<close>: the clock is read for it first.\<close>

definition timed_event ::
  "env \<Rightarrow> ('c, 'w, 'p) exec_options \<Rightarrow> reload_event_type \<Rightarrow> reload_component_name option \<Rightarrow>
   reload_phase option \<Rightarrow> string option \<Rightarrow> int \<Rightarrow> ('c, 'w, 'p) exec \<Rightarrow> ('c, 'w, 'p) exec" where
  "timed_event env opts ty who ph msg started s =
     (let (t, s1) = read_clock env s in event env opts ty who ph msg (Some (t - started)) s1)"

definition recordError ::
  "failure_stage \<Rightarrow> js_error \<Rightarrow> reload_component_name option \<Rightarrow> ('c, 'w, 'p) exec \<Rightarrow> ('c, 'w, 'p) exec" where
  "recordError stage e who s =
     s\<lparr>primaryFailureStage :=
         (if stage \<noteq> FRollback \<and> stage \<noteq> FCleanup \<and> primaryFailureStage s = None
          then Some stage else primaryFailureStage s),
       componentErrors := componentErrors s
         @ [\<lparr>ce_component = who, ce_stage = stage, ce_message = errorMessage e\<rparr>]\<rparr>"

definition do_transition :: "env \<Rightarrow> txn_state \<Rightarrow> ('c, 'w, 'p) exec \<Rightarrow> unit result \<times> ('c, 'w, 'p) exec" where
  "do_transition env next s =
     (let (t, s1) = read_clock env s in
      case transition next t (txn s1) of
        Inl e \<Rightarrow> (Inl e, s1)
      | Inr x \<Rightarrow> (Inr (), s1\<lparr>txn := x\<rparr>))"

text \<open>Sequencing of statements that may throw.\<close>

definition then_do ::
  "unit result \<times> 's \<Rightarrow> ('s \<Rightarrow> unit result \<times> 's) \<Rightarrow> unit result \<times> 's" where
  "then_do m f = (case m of (Inl e, s) \<Rightarrow> (Inl e, s) | (Inr u, s) \<Rightarrow> f s)"

lemma then_do_simps [simp]:
  "then_do (Inl e, s) f = (Inl e, s)"
  "then_do (Inr u, s) f = f s"
  by (simp_all add: then_do_def)

section \<open>The phases\<close>

definition runSimplePhase ::
  "env \<Rightarrow> ('c, 'w, 'p) exec_options \<Rightarrow> reload_phase \<Rightarrow> failure_stage \<Rightarrow> string \<Rightarrow> txn_state \<Rightarrow>
   ('w \<Rightarrow> unit result \<times> 'w) option \<Rightarrow> ('c, 'w, 'p) exec \<Rightarrow> unit result \<times> ('c, 'w, 'p) exec" where
  "runSimplePhase env opts ph stage label st operation s =
     then_do (do_transition env st s) (\<lambda>s1.
       let (started, s2) = read_clock env s1;
           s3 = event env opts PhaseStarted None (Some ph) None None s2
       in case executeReloadOperation env label (base_context opts s3)
                 (case operation of Some f \<Rightarrow> f | None \<Rightarrow> (\<lambda>w. (Inr (), w))) s3 of
            (Inr u, s4) \<Rightarrow> (Inr (), timed_event env opts PhaseCompleted None (Some ph) None started s4)
          | (Inl e, s4) \<Rightarrow> (Inl e, recordError stage e None s4))"

fun prepareLoop ::
  "env \<Rightarrow> ('c, 'w, 'p) exec_options \<Rightarrow> ('c, 'w, 'p) reloadable list \<Rightarrow> ('c, 'w, 'p) exec \<Rightarrow>
   unit result \<times> ('c, 'w, 'p) exec" where
  "prepareLoop env opts [] s = (Inr (), s)"
| "prepareLoop env opts (c # cs) s =
     (let (started, s1) = read_clock env s;
          s2 = event env opts PrepareStarted (Some (rc_name c)) (Some PhPrepare) None None s1
      in case executeReloadOperation env (show_component (rc_name c) @ ''.prepare'') (base_context opts s2)
                (rc_prepare c (eo_config opts) (base_context opts s2)) s2 of
           (Inr p, s3) \<Rightarrow>
             (let s4 = s3\<lparr>preparedEntries := preparedEntries s3 @ [(c, p)]\<rparr>;
                  (t, s5) = read_clock env s4;
                  s6 = s5\<lparr>metrics := recordPrepareDuration (rc_name c) (t - started) (metrics s5)\<rparr>
              in prepareLoop env opts cs
                   (event env opts PrepareCompleted (Some (rc_name c)) (Some PhPrepare) None
                      (Some (t - started)) s6))
         | (Inl e, s3) \<Rightarrow>
             (Inl e, timed_event env opts PrepareFailed (Some (rc_name c)) (Some PhPrepare)
                       (Some (errorMessage e)) started (recordError FPrepare e (Some (rc_name c)) s3)))"

text \<open>A phase that runs a loop between its \<^verbatim>\<open>started\<close> and \<^verbatim>\<open>completed\<close> events.\<close>

definition in_phase ::
  "env \<Rightarrow> ('c, 'w, 'p) exec_options \<Rightarrow> reload_phase \<Rightarrow>
   (('c, 'w, 'p) exec \<Rightarrow> unit result \<times> ('c, 'w, 'p) exec) \<Rightarrow> ('c, 'w, 'p) exec \<Rightarrow>
   unit result \<times> ('c, 'w, 'p) exec" where
  "in_phase env opts ph body s =
     (let (started, s1) = read_clock env s in
      then_do (body (event env opts PhaseStarted None (Some ph) None None s1))
        (\<lambda>s2. (Inr (), timed_event env opts PhaseCompleted None (Some ph) None started s2)))"

definition runPrepare ::
  "env \<Rightarrow> ('c, 'w, 'p) exec_options \<Rightarrow> ('c, 'w, 'p) exec \<Rightarrow> unit result \<times> ('c, 'w, 'p) exec" where
  "runPrepare env opts = in_phase env opts PhPrepare (prepareLoop env opts (eo_components opts))"

fun healthLoop ::
  "env \<Rightarrow> ('c, 'w, 'p) exec_options \<Rightarrow> (('c, 'w, 'p) reloadable \<times> 'p) list \<Rightarrow> ('c, 'w, 'p) exec \<Rightarrow>
   unit result \<times> ('c, 'w, 'p) exec" where
  "healthLoop env opts [] s = (Inr (), s)"
| "healthLoop env opts ((c, p) # es) s =
     (case executeReloadOperation env (show_component (rc_name c) @ ''.health'') (base_context opts s)
             (rc_health c p (base_context opts s)) s of
        (Inr u, s1) \<Rightarrow> healthLoop env opts es s1
      | (Inl e, s1) \<Rightarrow>
          (Inl e, event env opts HealthFailed (Some (rc_name c)) (Some PhHealth) (Some (errorMessage e)) None
                    (recordError FHealth e (Some (rc_name c)) s1)))"

definition runHealthChecks ::
  "env \<Rightarrow> ('c, 'w, 'p) exec_options \<Rightarrow> ('c, 'w, 'p) exec \<Rightarrow> unit result \<times> ('c, 'w, 'p) exec" where
  "runHealthChecks env opts s =
     in_phase env opts PhHealth (healthLoop env opts (preparedEntries s)) s"

fun commitLoop ::
  "env \<Rightarrow> ('c, 'w, 'p) exec_options \<Rightarrow> (('c, 'w, 'p) reloadable \<times> 'p) list \<Rightarrow> ('c, 'w, 'p) exec \<Rightarrow>
   unit result \<times> ('c, 'w, 'p) exec" where
  "commitLoop env opts [] s = (Inr (), s)"
| "commitLoop env opts ((c, p) # es) s =
     (let (started, s1) = read_clock env s;
          s2 = event env opts CommitStarted (Some (rc_name c)) (Some PhCommit) None None s1
      in case executeReloadOperation env (show_component (rc_name c) @ ''.commit'') (base_context opts s2)
                (rc_commit c p (base_context opts s2)) s2 of
           (Inr u, s3) \<Rightarrow>
             (let s4 = s3\<lparr>committedEntries := committedEntries s3 @ [(c, p)]\<rparr>;
                  (t, s5) = read_clock env s4;
                  s6 = s5\<lparr>metrics := recordCommitDuration (rc_name c) (t - started) (metrics s5)\<rparr>
              in commitLoop env opts es
                   (event env opts CommitCompleted (Some (rc_name c)) (Some PhCommit) None
                      (Some (t - started)) s6))
         | (Inl e, s3) \<Rightarrow>
             (Inl e, timed_event env opts CommitFailed (Some (rc_name c)) (Some PhCommit)
                       (Some (errorMessage e)) started (recordError FCommit e (Some (rc_name c)) s3)))"

definition runCommit ::
  "env \<Rightarrow> ('c, 'w, 'p) exec_options \<Rightarrow> ('c, 'w, 'p) exec \<Rightarrow> unit result \<times> ('c, 'w, 'p) exec" where
  "runCommit env opts s = in_phase env opts PhCommit (commitLoop env opts (preparedEntries s)) s"

definition rollbackEntry ::
  "env \<Rightarrow> ('c, 'w, 'p) exec_options \<Rightarrow> ('c, 'w, 'p) reloadable \<Rightarrow> 'p \<Rightarrow> ('c, 'w, 'p) exec \<Rightarrow>
   ('c, 'w, 'p) exec" where
  "rollbackEntry env opts c p s =
     (let s1 = event env opts RollbackStarted (Some (rc_name c)) (Some PhRollback) None None s;
          (ctx, s2) = recoveryContext env opts s1
      in case executeReloadOperation env (show_component (rc_name c) @ ''.rollback'') ctx
                (rc_rollback c p ctx) s2 of
           (Inr u, s3) \<Rightarrow>
             event env opts RollbackCompleted (Some (rc_name c)) (Some PhRollback) None None
               (s3\<lparr>metrics := componentRolledBack (rc_name c) (metrics s3)\<rparr>)
         | (Inl e, s3) \<Rightarrow>
             event env opts RollbackFailed (Some (rc_name c)) (Some PhRollback) (Some (errorMessage e)) None
               (recordError FRollback e (Some (rc_name c)) s3))"

fun rollbackLoop ::
  "env \<Rightarrow> ('c, 'w, 'p) exec_options \<Rightarrow> (('c, 'w, 'p) reloadable \<times> 'p) list \<Rightarrow> ('c, 'w, 'p) exec \<Rightarrow>
   ('c, 'w, 'p) exec" where
  "rollbackLoop env opts [] s = s"
| "rollbackLoop env opts ((c, p) # es) s = rollbackLoop env opts es (rollbackEntry env opts c p s)"

definition rollbackEntries :: "('c, 'w, 'p) exec \<Rightarrow> (('c, 'w, 'p) reloadable \<times> 'p) list" where
  "rollbackEntries s =
     (if primaryFailureStage s = Some FCommit then committedEntries s else preparedEntries s)"

definition runRollback ::
  "env \<Rightarrow> ('c, 'w, 'p) exec_options \<Rightarrow> ('c, 'w, 'p) exec \<Rightarrow> ('c, 'w, 'p) exec" where
  "runRollback env opts s =
     (let (started, s1) = read_clock env s;
          s2 = event env opts PhaseStarted None (Some PhRollback) None None s1;
          s3 = rollbackLoop env opts (rev (rollbackEntries s2)) s2
      in timed_event env opts PhaseCompleted None (Some PhRollback) None started s3)"

definition cleanupEntry ::
  "env \<Rightarrow> ('c, 'w, 'p) exec_options \<Rightarrow> ('c, 'w, 'p) reloadable \<Rightarrow> 'p \<Rightarrow> ('c, 'w, 'p) exec \<Rightarrow>
   ('c, 'w, 'p) exec" where
  "cleanupEntry env opts c p s =
     (let (ctx, s1) = recoveryContext env opts s
      in case executeReloadOperation env (show_component (rc_name c) @ ''.cleanup'') ctx
                (rc_cleanup c p ctx) s1 of
           (Inr u, s2) \<Rightarrow> s2
         | (Inl e, s2) \<Rightarrow> recordError FCleanup e (Some (rc_name c)) s2)"

fun cleanupLoop ::
  "env \<Rightarrow> ('c, 'w, 'p) exec_options \<Rightarrow> (('c, 'w, 'p) reloadable \<times> 'p) list \<Rightarrow> ('c, 'w, 'p) exec \<Rightarrow>
   ('c, 'w, 'p) exec" where
  "cleanupLoop env opts [] s = s"
| "cleanupLoop env opts ((c, p) # es) s = cleanupLoop env opts es (cleanupEntry env opts c p s)"

definition runCleanup ::
  "env \<Rightarrow> ('c, 'w, 'p) exec_options \<Rightarrow> ('c, 'w, 'p) exec \<Rightarrow> ('c, 'w, 'p) exec" where
  "runCleanup env opts s =
     (let (started, s1) = read_clock env s;
          s2 = event env opts PhaseStarted None (Some PhCleanup) None None s1;
          s3 = cleanupLoop env opts (rev (preparedEntries s2)) s2
      in event env opts TransactionCleanedUp None None None None
           (timed_event env opts PhaseCompleted None (Some PhCleanup) None started s3))"

section \<open>The executor\<close>

text \<open>The body of the \<^verbatim>\<open>try\<close> block of \<^verbatim>\<open>execute\<close>.\<close>

definition tryBlock ::
  "env \<Rightarrow> ('c, 'w, 'p) exec_options \<Rightarrow> ('c, 'w, 'p) exec \<Rightarrow> unit result \<times> ('c, 'w, 'p) exec" where
  "tryBlock env opts s =
     then_do (runSimplePhase env opts PhParse FParse ''parse'' TParsing (eo_parse opts) s) (\<lambda>s.
     then_do (runSimplePhase env opts PhValidate FValidate ''validate'' TValidating (eo_validate opts) s) (\<lambda>s.
     then_do (do_transition env TPreparing s) (\<lambda>s.
     then_do (runPrepare env opts s) (\<lambda>s.
     then_do (do_transition env TPrepared s) (\<lambda>s.
     then_do (runHealthChecks env opts s) (\<lambda>s.
     then_do (do_transition env TCommitting s) (\<lambda>s.
     then_do (runCommit env opts s) (\<lambda>s.
     then_do (do_transition env TCommitted s) (\<lambda>s.
       (Inr (), event env opts TransactionCommitted None None None None
                  (s\<lparr>metrics := transactionSucceeded (rg_id (eo_candidate opts)) (metrics s)\<rparr>)))))))))))"

text \<open>The \<^verbatim>\<open>catch\<close> block; \<^verbatim>\<open>fail\<close> and the last transition may throw out of it.\<close>

definition do_fail :: "env \<Rightarrow> string \<Rightarrow> ('c, 'w, 'p) exec \<Rightarrow> unit result \<times> ('c, 'w, 'p) exec" where
  "do_fail env reason s =
     (if isTerminal (tx_state (txn s)) then (Inr (), s)
      else (let (t, s1) = read_clock env s in
            case fail_txn reason t (txn s1) of
              Inl e \<Rightarrow> (Inl e, s1)
            | Inr x \<Rightarrow> (Inr (), s1\<lparr>txn := x\<rparr>)))"

definition catchBlock ::
  "env \<Rightarrow> ('c, 'w, 'p) exec_options \<Rightarrow> js_error \<Rightarrow> ('c, 'w, 'p) exec \<Rightarrow> unit result \<times> ('c, 'w, 'p) exec" where
  "catchBlock env opts e s =
     (let s1 = s\<lparr>originalFailure := Some e, metrics := transactionFailed (errorMessage e) (metrics s)\<rparr>
      in then_do (do_fail env (errorMessage e) s1) (\<lambda>s2.
           let s3 = event env opts TransactionFailed None None (Some (errorMessage e)) None s2
           in if tx_state (txn s3) = TRollingBack
              then then_do (do_transition env TRolledBack (runRollback env opts s3)) (\<lambda>s4.
                     (Inr (), event env opts TransactionRolledBack None None None None
                                (s4\<lparr>metrics := transactionRolledBack (metrics s4)\<rparr>)))
              else (Inr (), s3)))"

definition initialExec ::
  "env \<Rightarrow> ('c, 'w, 'p) exec_options \<Rightarrow> reload_event list \<Rightarrow> reload_metrics \<Rightarrow> 'w \<Rightarrow>
   (('c, 'w, 'p) exec) result" where
  "initialExec env opts log m w =
     (if eo_timeoutMs opts \<le> 0
      then Inl (PlainError ''reload executor timeoutMs must be a positive finite number'')
      else Inr \<lparr>world = w,
                txn = newTransaction (eo_transactionId opts) (eo_old opts) (eo_candidate opts) (clock_at env 0),
                evlog = log, metrics = m, componentErrors = [], preparedEntries = [],
                committedEntries = [], originalFailure = None, primaryFailureStage = None,
                deadline = clock_at env 1 + eo_timeoutMs opts, opCount = 0, clockCount = 2\<rparr>)"

text \<open>
  \<^verbatim>\<open>execute\<close>: the first component is what its promise settles to (whether the transaction was
  committed, or the error that escaped the \<^verbatim>\<open>catch\<close> block), the second the executor afterwards.
\<close>

definition execute ::
  "env \<Rightarrow> ('c, 'w, 'p) exec_options \<Rightarrow> ('c, 'w, 'p) exec \<Rightarrow> bool result \<times> ('c, 'w, 'p) exec" where
  "execute env opts s =
     (let s1 = event env opts TransactionStarted None None None None
                 (s\<lparr>metrics := transactionStarted (metrics s)\<rparr>);
          (r, s2) = (case tryBlock env opts s1 of
                       (Inr u, s') \<Rightarrow> (Inr (), s')
                     | (Inl e, s') \<Rightarrow> catchBlock env opts e s');
          s3 = runCleanup env opts s2
      in case r of
           Inl e \<Rightarrow> (Inl e, s3)
         | Inr u \<Rightarrow>
             (let (t, s4) = read_clock env s3;
                  s5 = s4\<lparr>metrics := recordTransactionDuration (t - tx_startedAt (txn s4)) (metrics s4)\<rparr>
              in (Inr (tx_state (txn s5) = TCommitted), s5)))"

section \<open>What the helpers leave alone\<close>

lemma read_clock_fields [simp]:
  "world (snd (read_clock env s)) = world s"
  "txn (snd (read_clock env s)) = txn s"
  "componentErrors (snd (read_clock env s)) = componentErrors s"
  "preparedEntries (snd (read_clock env s)) = preparedEntries s"
  "committedEntries (snd (read_clock env s)) = committedEntries s"
  "primaryFailureStage (snd (read_clock env s)) = primaryFailureStage s"
  "evlog (snd (read_clock env s)) = evlog s"
  by (simp_all add: read_clock_def)

lemma event_fields [simp]:
  "world (event env opts ty who ph msg dur s) = world s"
  "txn (event env opts ty who ph msg dur s) = txn s"
  "componentErrors (event env opts ty who ph msg dur s) = componentErrors s"
  "preparedEntries (event env opts ty who ph msg dur s) = preparedEntries s"
  "committedEntries (event env opts ty who ph msg dur s) = committedEntries s"
  "primaryFailureStage (event env opts ty who ph msg dur s) = primaryFailureStage s"
  by (simp_all add: event_def read_clock_def)

lemma timed_event_fields [simp]:
  "world (timed_event env opts ty who ph msg started s) = world s"
  "txn (timed_event env opts ty who ph msg started s) = txn s"
  "componentErrors (timed_event env opts ty who ph msg started s) = componentErrors s"
  "preparedEntries (timed_event env opts ty who ph msg started s) = preparedEntries s"
  "committedEntries (timed_event env opts ty who ph msg started s) = committedEntries s"
  "primaryFailureStage (timed_event env opts ty who ph msg started s) = primaryFailureStage s"
  by (simp_all add: timed_event_def read_clock_def)

lemma recordError_fields [simp]:
  "world (recordError stage e who s) = world s"
  "txn (recordError stage e who s) = txn s"
  "preparedEntries (recordError stage e who s) = preparedEntries s"
  "committedEntries (recordError stage e who s) = committedEntries s"
  "componentErrors (recordError stage e who s) =
     componentErrors s @ [\<lparr>ce_component = who, ce_stage = stage, ce_message = errorMessage e\<rparr>]"
  by (simp_all add: recordError_def)

lemma recoveryContext_fields [simp]:
  "world (snd (recoveryContext env opts s)) = world s"
  "txn (snd (recoveryContext env opts s)) = txn s"
  "componentErrors (snd (recoveryContext env opts s)) = componentErrors s"
  "preparedEntries (snd (recoveryContext env opts s)) = preparedEntries s"
  "committedEntries (snd (recoveryContext env opts s)) = committedEntries s"
  "primaryFailureStage (snd (recoveryContext env opts s)) = primaryFailureStage s"
  "oc_abortable (fst (recoveryContext env opts s)) = False"
  by (simp_all add: recoveryContext_def read_clock_def Let_def)

text \<open>Everything but the world, the counters, the log and the metrics.\<close>

definition frame :: "('c, 'w, 'p) exec \<Rightarrow> ('c, 'w, 'p) exec \<Rightarrow> bool" where
  "frame s s' \<longleftrightarrow>
     txn s' = txn s \<and> componentErrors s' = componentErrors s \<and>
     preparedEntries s' = preparedEntries s \<and> committedEntries s' = committedEntries s \<and>
     primaryFailureStage s' = primaryFailureStage s"

text \<open>No operation takes effect after it has lost its race.\<close>

definition no_late_effects :: "env \<Rightarrow> bool" where
  "no_late_effects env \<longleftrightarrow> (\<forall>k. race_at env k \<noteq> TimesOut True \<and> race_at env k \<noteq> Aborts True)"

lemma exec_op_frame:
  "executeReloadOperation env label ctx f s = (r, s') \<Longrightarrow> frame s s'"
  by (auto simp: executeReloadOperation_def frame_def read_clock_def Let_def
      split: if_splits prod.splits race.splits)

lemma exec_op_world:
  assumes "executeReloadOperation env label ctx f s = (r, s')"
  shows "(\<exists>e. r = Inl e) \<and> world s' \<in> {world s, snd (f (world s))} \<or> f (world s) = (r, world s')"
  using assms
  by (auto simp: executeReloadOperation_def read_clock_def Let_def
      split: if_splits prod.splits race.splits)

lemma exec_op_cases:
  assumes "executeReloadOperation env label ctx f s = (r, s')" "no_late_effects env"
  shows "(\<exists>e. r = Inl e) \<and> world s' = world s \<or> f (world s) = (r, world s')"
  using assms
  by (auto simp: executeReloadOperation_def read_clock_def Let_def no_late_effects_def
      split: if_splits prod.splits race.splits)

text \<open>A rejection is the operation's own or names the operation, so it is blank only with it.\<close>

lemma exec_op_message:
  assumes "executeReloadOperation env label ctx f s = (Inl e, s')"
  shows "(\<exists>w. f (world s) = (Inl e, w)) \<or> (\<exists>m. e = PlainError (''reload operation '' @ m))"
  using assms
  by (auto simp: executeReloadOperation_def read_clock_def Let_def
      split: if_splits prod.splits race.splits)

end
