(* ===== verification/ReloadProofs.thy ===== *)
theory ReloadProofs
  imports ReloadExecutor
begin

text \<open>
  What the executor guarantees whatever its components do: which state the transaction is in after
  each phase, which components are prepared and committed, and that only a blank error message can
  escape from it. The contract under which a failed transaction leaves no trace is stated and used in
  \<^verbatim>\<open>ReloadContract\<close>.
\<close>

section \<open>The shape of each phase\<close>

lemma prepareLoop_shape:
  "prepareLoop env opts cs s = (r, s') \<Longrightarrow>
     txn s' = txn s \<and> committedEntries s' = committedEntries s \<and>
     (\<exists>n. map fst (preparedEntries s') = map fst (preparedEntries s) @ take n cs
          \<and> (r = Inr () \<longrightarrow> length cs \<le> n)) \<and>
     primaryFailureStage s' =
       (if primaryFailureStage s = None \<and> r \<noteq> Inr () then Some FPrepare else primaryFailureStage s)"
proof (induction cs arbitrary: s)
  case Nil
  then show ?case by simp
next
  case (Cons c cs)
  let ?s1 = "snd (read_clock env s)"
  let ?s2 = "event env opts PrepareStarted (Some (rc_name c)) (Some PhPrepare) None None ?s1"
  obtain r0 s3 where ex: "executeReloadOperation env (show_component (rc_name c) @ ''.prepare'')
      (base_context opts ?s2) (rc_prepare c (eo_config opts) (base_context opts ?s2)) ?s2 = (r0, s3)"
    by (cases "executeReloadOperation env (show_component (rc_name c) @ ''.prepare'')
      (base_context opts ?s2) (rc_prepare c (eo_config opts) (base_context opts ?s2)) ?s2")
  note fr = exec_op_frame [OF ex, unfolded frame_def]
  show ?case
  proof (cases r0)
    case (Inl e)
    with Cons.prems ex fr show ?thesis
      by (auto simp: Let_def read_clock_def recordError_def timed_event_def event_def intro: exI [of _ 0])
  next
    case (Inr p)
    let ?s4 = "s3\<lparr>preparedEntries := preparedEntries s3 @ [(c, p)]\<rparr>"
    from Cons.prems ex Inr obtain s5 where rec: "prepareLoop env opts cs s5 = (r, s')"
      and s5: "txn s5 = txn ?s4" "committedEntries s5 = committedEntries ?s4"
        "preparedEntries s5 = preparedEntries ?s4" "primaryFailureStage s5 = primaryFailureStage ?s4"
      by (auto simp: Let_def read_clock_def)
    from Cons.IH [OF rec] obtain n where
      "map fst (preparedEntries s') = map fst (preparedEntries s5) @ take n cs" "r = Inr () \<longrightarrow> length cs \<le> n"
      by blast
    with Cons.IH [OF rec] s5 fr show ?thesis by (auto intro!: exI [of _ "Suc n"])
  qed
qed

lemma healthLoop_shape:
  "healthLoop env opts es s = (r, s') \<Longrightarrow>
     txn s' = txn s \<and> committedEntries s' = committedEntries s \<and> preparedEntries s' = preparedEntries s \<and>
     primaryFailureStage s' =
       (if primaryFailureStage s = None \<and> r \<noteq> Inr () then Some FHealth else primaryFailureStage s)"
proof (induction es arbitrary: s)
  case Nil
  then show ?case by simp
next
  case (Cons e0 es)
  obtain c p where e0: "e0 = (c, p)" by (cases e0)
  obtain r0 s1 where ex: "executeReloadOperation env (show_component (rc_name c) @ ''.health'')
      (base_context opts s) (rc_health c p (base_context opts s)) s = (r0, s1)"
    by (cases "executeReloadOperation env (show_component (rc_name c) @ ''.health'')
      (base_context opts s) (rc_health c p (base_context opts s)) s")
  note fr = exec_op_frame [OF ex, unfolded frame_def]
  show ?case
  proof (cases r0)
    case (Inl e)
    with Cons.prems ex fr show ?thesis by (auto simp: e0 recordError_def)
  next
    case (Inr u)
    with Cons.prems ex have "healthLoop env opts es s1 = (r, s')" by (simp add: e0)
    from Cons.IH [OF this] fr show ?thesis by simp
  qed
qed

lemma commitLoop_shape:
  "commitLoop env opts es s = (r, s') \<Longrightarrow>
     txn s' = txn s \<and> preparedEntries s' = preparedEntries s \<and>
     (\<exists>n. committedEntries s' = committedEntries s @ take n es \<and> (r = Inr () \<longrightarrow> length es \<le> n)) \<and>
     primaryFailureStage s' =
       (if primaryFailureStage s = None \<and> r \<noteq> Inr () then Some FCommit else primaryFailureStage s)"
proof (induction es arbitrary: s)
  case Nil
  then show ?case by simp
next
  case (Cons e0 es)
  obtain c p where e0: "e0 = (c, p)" by (cases e0)
  let ?s1 = "snd (read_clock env s)"
  let ?s2 = "event env opts CommitStarted (Some (rc_name c)) (Some PhCommit) None None ?s1"
  obtain r0 s3 where ex: "executeReloadOperation env (show_component (rc_name c) @ ''.commit'')
      (base_context opts ?s2) (rc_commit c p (base_context opts ?s2)) ?s2 = (r0, s3)"
    by (cases "executeReloadOperation env (show_component (rc_name c) @ ''.commit'')
      (base_context opts ?s2) (rc_commit c p (base_context opts ?s2)) ?s2")
  note fr = exec_op_frame [OF ex, unfolded frame_def]
  show ?case
  proof (cases r0)
    case (Inl e)
    with Cons.prems ex fr show ?thesis
      by (auto simp: e0 Let_def read_clock_def recordError_def timed_event_def event_def intro: exI [of _ 0])
  next
    case (Inr u)
    let ?s4 = "s3\<lparr>committedEntries := committedEntries s3 @ [(c, p)]\<rparr>"
    from Cons.prems ex Inr obtain s5 where rec: "commitLoop env opts es s5 = (r, s')"
      and s5: "txn s5 = txn ?s4" "committedEntries s5 = committedEntries ?s4"
        "preparedEntries s5 = preparedEntries ?s4" "primaryFailureStage s5 = primaryFailureStage ?s4"
      by (auto simp: e0 Let_def read_clock_def)
    from Cons.IH [OF rec] obtain n where
      "committedEntries s' = committedEntries s5 @ take n es" "r = Inr () \<longrightarrow> length es \<le> n"
      by blast
    with Cons.IH [OF rec] s5 fr show ?thesis by (auto simp: e0 intro!: exI [of _ "Suc n"])
  qed
qed

text \<open>One rollback and one cleanup, with the outcome of the operation they run.\<close>

lemma rollbackEntry_cases:
  obtains (settled) ctx where
    "rc_rollback c p ctx (world s) = (Inr (), world (rollbackEntry env opts c p s))"
    "txn (rollbackEntry env opts c p s) = txn s" "preparedEntries (rollbackEntry env opts c p s) = preparedEntries s"
    "committedEntries (rollbackEntry env opts c p s) = committedEntries s"
    "componentErrors (rollbackEntry env opts c p s) = componentErrors s"
  | (failed) e where
    "txn (rollbackEntry env opts c p s) = txn s" "preparedEntries (rollbackEntry env opts c p s) = preparedEntries s"
    "committedEntries (rollbackEntry env opts c p s) = committedEntries s"
    "componentErrors (rollbackEntry env opts c p s) =
       componentErrors s @ [\<lparr>ce_component = Some (rc_name c), ce_stage = FRollback, ce_message = errorMessage e\<rparr>]"
proof -
  let ?s1 = "event env opts RollbackStarted (Some (rc_name c)) (Some PhRollback) None None s"
  let ?ctx = "fst (recoveryContext env opts ?s1)" and ?s2 = "snd (recoveryContext env opts ?s1)"
  obtain r s3 where ex: "executeReloadOperation env (show_component (rc_name c) @ ''.rollback'') ?ctx
      (rc_rollback c p ?ctx) ?s2 = (r, s3)"
    by (meson surj_pair)
  note fr = exec_op_frame [OF ex, unfolded frame_def]
  show thesis
  proof (cases r)
    case (Inl e)
    with ex fr failed [of e] show thesis by (simp add: rollbackEntry_def Let_def case_prod_beta)
  next
    case (Inr u)
    with exec_op_world [OF ex] have "rc_rollback c p ?ctx (world s) = (Inr (), world s3)" by simp
    with ex fr Inr settled [of ?ctx] show thesis by (simp add: rollbackEntry_def Let_def case_prod_beta)
  qed
qed

lemma cleanupEntry_shape:
  "txn (cleanupEntry env opts c p s) = txn s"
  "preparedEntries (cleanupEntry env opts c p s) = preparedEntries s"
  "committedEntries (cleanupEntry env opts c p s) = committedEntries s"
  "\<exists>xs. componentErrors (cleanupEntry env opts c p s) = componentErrors s @ xs \<and> (\<forall>x \<in> set xs. ce_stage x = FCleanup)"
  "\<exists>ctx. world (cleanupEntry env opts c p s) \<in> {world s, snd (rc_cleanup c p ctx (world s))}"
proof -
  let ?ctx = "fst (recoveryContext env opts s)" and ?s2 = "snd (recoveryContext env opts s)"
  obtain r s3 where ex: "executeReloadOperation env (show_component (rc_name c) @ ''.cleanup'') ?ctx
      (rc_cleanup c p ?ctx) ?s2 = (r, s3)"
    by (meson surj_pair)
  note fr = exec_op_frame [OF ex, unfolded frame_def]
  have eq: "cleanupEntry env opts c p s = (case r of Inr u \<Rightarrow> s3 | Inl e \<Rightarrow> recordError FCleanup e (Some (rc_name c)) s3)"
    by (simp add: cleanupEntry_def case_prod_beta ex split: sum.splits)
  have "world s3 \<in> {world s, snd (rc_cleanup c p ?ctx (world s))}"
    using exec_op_world [OF ex] by auto
  then show "\<exists>ctx. world (cleanupEntry env opts c p s) \<in> {world s, snd (rc_cleanup c p ctx (world s))}"
    by (auto simp: eq split: sum.splits)
  show "txn (cleanupEntry env opts c p s) = txn s"
    "preparedEntries (cleanupEntry env opts c p s) = preparedEntries s"
    "committedEntries (cleanupEntry env opts c p s) = committedEntries s"
    "\<exists>xs. componentErrors (cleanupEntry env opts c p s) = componentErrors s @ xs \<and> (\<forall>x \<in> set xs. ce_stage x = FCleanup)"
    using fr by (auto simp: eq split: sum.splits)
qed

lemma rollbackLoop_shape:
  "txn (rollbackLoop env opts es s) = txn s \<and>
   preparedEntries (rollbackLoop env opts es s) = preparedEntries s \<and>
   committedEntries (rollbackLoop env opts es s) = committedEntries s \<and>
   (\<exists>xs. componentErrors (rollbackLoop env opts es s) = componentErrors s @ xs)"
proof (induction es arbitrary: s)
  case (Cons e0 es)
  obtain c p where e0: "e0 = (c, p)" by (cases e0)
  note IH = Cons.IH [of "rollbackEntry env opts c p s"]
  show ?case
    by (rule rollbackEntry_cases [of c p s env opts]) (use IH in \<open>auto simp: e0\<close>)
qed simp

lemma cleanupLoop_shape:
  "txn (cleanupLoop env opts es s) = txn s \<and>
   preparedEntries (cleanupLoop env opts es s) = preparedEntries s \<and>
   committedEntries (cleanupLoop env opts es s) = committedEntries s \<and>
   (\<exists>xs. componentErrors (cleanupLoop env opts es s) = componentErrors s @ xs \<and>
         (\<forall>x \<in> set xs. ce_stage x = FCleanup))"
proof (induction es arbitrary: s)
  case (Cons e0 es)
  obtain c p where e0: "e0 = (c, p)" by (cases e0)
  note one = cleanupEntry_shape [where env = env and opts = opts and c = c and p = p and s = s]
  note IH = Cons.IH [of "cleanupEntry env opts c p s"]
  from one(4) obtain xs where xs: "componentErrors (cleanupEntry env opts c p s) = componentErrors s @ xs"
    "\<forall>x \<in> set xs. ce_stage x = FCleanup" by blast
  from IH obtain ys where ys: "componentErrors (cleanupLoop env opts es (cleanupEntry env opts c p s)) =
      componentErrors (cleanupEntry env opts c p s) @ ys" "\<forall>x \<in> set ys. ce_stage x = FCleanup" by blast
  from IH one(1-3) xs ys show ?case by (auto simp: e0 intro!: exI [of _ "xs @ ys"])
qed simp

lemma runRollback_eq:
  "runRollback env opts s =
     timed_event env opts PhaseCompleted None (Some PhRollback) None (fst (read_clock env s))
       (rollbackLoop env opts (rev (rollbackEntries s))
          (event env opts PhaseStarted None (Some PhRollback) None None (snd (read_clock env s))))"
  by (simp add: runRollback_def Let_def rollbackEntries_def case_prod_beta)

lemma runCleanup_eq:
  "runCleanup env opts s =
     event env opts TransactionCleanedUp None None None None
       (timed_event env opts PhaseCompleted None (Some PhCleanup) None (fst (read_clock env s))
         (cleanupLoop env opts (rev (preparedEntries s))
            (event env opts PhaseStarted None (Some PhCleanup) None None (snd (read_clock env s)))))"
  by (simp add: runCleanup_def Let_def case_prod_beta)

lemma runCleanup_shape:
  "txn (runCleanup env opts s) = txn s"
  "preparedEntries (runCleanup env opts s) = preparedEntries s"
  "committedEntries (runCleanup env opts s) = committedEntries s"
  "\<exists>xs. componentErrors (runCleanup env opts s) = componentErrors s @ xs \<and>
         (\<forall>x \<in> set xs. ce_stage x = FCleanup)"
  using cleanupLoop_shape [of env opts "rev (preparedEntries s)"
      "event env opts PhaseStarted None (Some PhCleanup) None None (snd (read_clock env s))"]
  by (simp_all add: runCleanup_eq)

lemma runRollback_shape:
  "txn (runRollback env opts s) = txn s"
  "preparedEntries (runRollback env opts s) = preparedEntries s"
  "committedEntries (runRollback env opts s) = committedEntries s"
  "\<exists>xs. componentErrors (runRollback env opts s) = componentErrors s @ xs"
  using rollbackLoop_shape [of env opts "rev (rollbackEntries s)"
      "event env opts PhaseStarted None (Some PhRollback) None None (snd (read_clock env s))"]
  by (simp_all add: runRollback_eq)

section \<open>Statements that may throw: a small Hoare logic\<close>

text \<open>From \<open>P\<close>, the statement ends normally in \<open>Q\<close> or throws an error in \<open>E\<close>.\<close>

definition triple ::
  "('s \<Rightarrow> bool) \<Rightarrow> ('s \<Rightarrow> unit result \<times> 's) \<Rightarrow> ('s \<Rightarrow> bool) \<Rightarrow> (js_error \<Rightarrow> 's \<Rightarrow> bool) \<Rightarrow> bool" where
  "triple P m Q E \<longleftrightarrow>
     (\<forall>s r s'. P s \<longrightarrow> m s = (r, s') \<longrightarrow> (case r of Inl e \<Rightarrow> E e s' | Inr u \<Rightarrow> Q s'))"

lemma tripleI:
  assumes "\<And>s s'. P s \<Longrightarrow> m s = (Inr (), s') \<Longrightarrow> Q s'"
    and "\<And>s s' e. P s \<Longrightarrow> m s = (Inl e, s') \<Longrightarrow> E e s'"
  shows "triple P m Q E"
  using assms by (auto simp: triple_def split: sum.splits)

lemma tripleD:
  assumes "triple P m Q E" "P s" "m s = (r, s')"
  shows "case r of Inl e \<Rightarrow> E e s' | Inr u \<Rightarrow> Q s'"
  using assms by (auto simp: triple_def)

lemma triple_seq:
  assumes "triple P m Q E" "triple Q f R E"
  shows "triple P (\<lambda>s. then_do (m s) f) R E"
proof (rule tripleI)
  fix s s' assume s: "P s" "then_do (m s) f = (Inr (), s')"
  obtain r1 s1 where m: "m s = (r1, s1)" by (cases "m s")
  with tripleD [OF assms(1) s(1) m] s(2) m have "Q s1 \<and> f s1 = (Inr (), s')"
    by (cases r1) auto
  with assms(2) show "R s'" by (auto simp: triple_def)
next
  fix s s' e assume s: "P s" "then_do (m s) f = (Inl e, s')"
  obtain r1 s1 where m: "m s = (r1, s1)" by (cases "m s")
  show "E e s'"
  proof (cases r1)
    case (Inl e1)
    with tripleD [OF assms(1) s(1) m] s(2) m show ?thesis by auto
  next
    case (Inr u)
    with tripleD [OF assms(1) s(1) m] s(2) m have "Q s1" "f s1 = (Inl e, s')" by auto
    with tripleD [OF assms(2)] show ?thesis by fastforce
  qed
qed

lemma triple_conseq:
  assumes "triple P m Q E" "\<And>s. P' s \<Longrightarrow> P s" "\<And>s. Q s \<Longrightarrow> Q' s" "\<And>e s. E e s \<Longrightarrow> E' e s"
  shows "triple P' m Q' E'"
  using assms by (auto simp: triple_def split: sum.splits) blast+

lemma triple_return: "(\<And>s. P s \<Longrightarrow> Q (f s)) \<Longrightarrow> triple P (\<lambda>s. (Inr (), f s)) Q E"
  by (auto simp: triple_def)

lemma triple_in_phase:
  assumes "triple P body Q E"
    and "\<And>s. P s \<Longrightarrow> P (event env opts PhaseStarted None (Some ph) None None (snd (read_clock env s)))"
    and "\<And>s t. Q s \<Longrightarrow> Q (timed_event env opts PhaseCompleted None (Some ph) None t s)"
  shows "triple P (in_phase env opts ph body) Q E"
proof -
  have "case r of Inl e \<Rightarrow> E e s' | Inr u \<Rightarrow> Q s'"
    if s: "P s" and run: "in_phase env opts ph body s = (r, s')" for s r s'
  proof -
    let ?s1 = "event env opts PhaseStarted None (Some ph) None None (snd (read_clock env s))"
    obtain r1 s1 where b: "body ?s1 = (r1, s1)" by (cases "body ?s1")
    from run b have eq: "(r, s') = then_do (r1, s1)
        (\<lambda>s2. (Inr (), timed_event env opts PhaseCompleted None (Some ph) None (fst (read_clock env s)) s2))"
      by (simp add: in_phase_def case_prod_beta)
    show ?thesis
      using tripleD [OF assms(1) assms(2) [OF s] b] eq assms(3) by (cases r1) auto
  qed
  then show ?thesis by (simp add: triple_def)
qed

lemma triple_conj:
  assumes "triple P m Q E" "triple P' m Q' E'"
  shows "triple (\<lambda>s. P s \<and> P' s) m (\<lambda>s. Q s \<and> Q' s) (\<lambda>e s. E e s \<and> E' e s)"
  using assms by (auto simp: triple_def split: sum.splits)

lemma triple_transition:
  assumes "\<And>s. P s \<Longrightarrow> next \<in> set (transitions (tx_state (txn s)))"
    and "\<And>s x. P s \<Longrightarrow> tx_state x = next \<Longrightarrow> Q ((snd (read_clock env s))\<lparr>txn := x\<rparr>)"
  shows "triple P (do_transition env next) Q E"
proof (rule tripleI)
  fix s s' assume "P s" and run: "do_transition env next s = (Inr (), s')"
  from run obtain x where "transition next (fst (read_clock env s)) (txn s) = Inr x"
    and s': "s' = (snd (read_clock env s))\<lparr>txn := x\<rparr>"
    by (auto simp: do_transition_def case_prod_beta split: sum.splits)
  then have "tx_state x = next" by (simp add: transition_Inr_iff)
  with assms(2) [OF \<open>P s\<close>] show "Q s'" by (simp add: s')
next
  fix s s' e assume "P s" and run: "do_transition env next s = (Inl e, s')"
  with assms(1) [OF \<open>P s\<close>] show "E e s'"
    by (simp add: do_transition_def case_prod_beta transition_def)
qed

section \<open>The try block, whatever the components do\<close>

definition at_state :: "txn_state \<Rightarrow> ('c, 'w, 'p) exec \<Rightarrow> bool" where
  "at_state st s \<longleftrightarrow> tx_state (txn s) = st \<and> primaryFailureStage s = None \<and> committedEntries s = []"

definition fail_shape :: "('c, 'w, 'p) exec \<Rightarrow> bool" where
  "fail_shape s \<longleftrightarrow>
     (tx_state (txn s) \<in> {TParsing, TValidating} \<and> committedEntries s = [] \<and> preparedEntries s = []) \<or>
     (tx_state (txn s) \<in> {TPreparing, TPrepared} \<and> primaryFailureStage s \<noteq> Some FCommit \<and> committedEntries s = []) \<or>
     (tx_state (txn s) = TCommitting \<and> primaryFailureStage s = Some FCommit)"

lemmas shape_defs = at_state_def fail_shape_def

lemma triple_simple_phase:
  assumes "st \<in> set (transitions st0)" "st \<in> {TParsing, TValidating}" "stage \<in> {FParse, FValidate}"
  shows "triple (\<lambda>s. at_state st0 s \<and> preparedEntries s = [])
           (runSimplePhase env opts ph stage label st f)
           (\<lambda>s. at_state st s \<and> preparedEntries s = []) (\<lambda>e. fail_shape)"
proof -
  let ?P = "\<lambda>s. at_state st s \<and> preparedEntries s = []"
  let ?f = "case f of Some g \<Rightarrow> g | None \<Rightarrow> (\<lambda>w. (Inr (), w))"
  have 1: "triple (\<lambda>s. at_state st0 s \<and> preparedEntries s = []) (do_transition env st) ?P (\<lambda>e. fail_shape)"
    by (rule triple_transition) (use assms(1) in \<open>simp_all add: at_state_def\<close>)
  have 2: "triple ?P (\<lambda>s1.
       let (started, s2) = read_clock env s1;
           s3 = event env opts PhaseStarted None (Some ph) None None s2
       in case executeReloadOperation env label (base_context opts s3) ?f s3 of
            (Inr u, s4) \<Rightarrow> (Inr (), timed_event env opts PhaseCompleted None (Some ph) None started s4)
          | (Inl e, s4) \<Rightarrow> (Inl e, recordError stage e None s4)) ?P (\<lambda>e. fail_shape)"
    unfolding triple_def
  proof (intro allI impI)
    fix s1 r s'
    let ?s3 = "event env opts PhaseStarted None (Some ph) None None (snd (read_clock env s1))"
    assume "?P s1" and run: "(let (started, s2) = read_clock env s1;
           s3 = event env opts PhaseStarted None (Some ph) None None s2
       in case executeReloadOperation env label (base_context opts s3) ?f s3 of
            (Inr u, s4) \<Rightarrow> (Inr (), timed_event env opts PhaseCompleted None (Some ph) None started s4)
          | (Inl e, s4) \<Rightarrow> (Inl e, recordError stage e None s4)) = (r, s')"
    obtain r0 s4 where ex: "executeReloadOperation env label (base_context opts ?s3) ?f ?s3 = (r0, s4)"
      by (meson surj_pair)
    from exec_op_frame [OF ex] \<open>?P s1\<close> run ex assms(2,3)
    show "case r of Inl e \<Rightarrow> fail_shape s' | Inr u \<Rightarrow> ?P s'"
      by (cases r0) (auto simp: at_state_def fail_shape_def Let_def case_prod_beta frame_def recordError_def)
  qed
  show ?thesis unfolding runSimplePhase_def by (rule triple_seq [OF 1 2])
qed

definition all_prepared :: "('c, 'w, 'p) exec_options \<Rightarrow> txn_state \<Rightarrow> ('c, 'w, 'p) exec \<Rightarrow> bool" where
  "all_prepared opts st s \<longleftrightarrow> at_state st s \<and> map fst (preparedEntries s) = eo_components opts"

definition all_committed :: "('c, 'w, 'p) exec_options \<Rightarrow> txn_state \<Rightarrow> ('c, 'w, 'p) exec \<Rightarrow> bool" where
  "all_committed opts st s \<longleftrightarrow>
     tx_state (txn s) = st \<and> committedEntries s = preparedEntries s \<and> map fst (preparedEntries s) = eo_components opts"

lemma shape_preparing:
  "triple (\<lambda>s. at_state TValidating s \<and> preparedEntries s = []) (do_transition env TPreparing)
     (\<lambda>s. at_state TPreparing s \<and> preparedEntries s = []) (\<lambda>e. fail_shape)"
  by (rule triple_transition) (simp_all add: at_state_def)

lemma shape_prepare:
  "triple (\<lambda>s. at_state TPreparing s \<and> preparedEntries s = []) (runPrepare env opts)
     (all_prepared opts TPreparing) (\<lambda>e. fail_shape)"
proof -
  have "triple (\<lambda>s. at_state TPreparing s \<and> preparedEntries s = []) (prepareLoop env opts (eo_components opts))
     (all_prepared opts TPreparing) (\<lambda>e. fail_shape)"
    by (rule tripleI) (auto simp: shape_defs all_prepared_def dest!: prepareLoop_shape)
  then show ?thesis
    unfolding runPrepare_def by (rule triple_in_phase) (simp_all add: all_prepared_def at_state_def)
qed

lemma shape_transition:
  "st' \<in> set (transitions st) \<Longrightarrow>
     triple (all_prepared opts st) (do_transition env st') (all_prepared opts st') (\<lambda>e. fail_shape)"
  by (rule triple_transition) (simp_all add: all_prepared_def at_state_def)

lemma shape_health:
  "triple (all_prepared opts TPrepared) (runHealthChecks env opts) (all_prepared opts TPrepared) (\<lambda>e. fail_shape)"
proof -
  have "triple (all_prepared opts TPrepared) (in_phase env opts PhHealth (healthLoop env opts es))
      (all_prepared opts TPrepared) (\<lambda>e. fail_shape)" for es
    by (rule triple_in_phase, rule tripleI) (auto simp: shape_defs all_prepared_def dest!: healthLoop_shape)
  then show ?thesis by (simp add: triple_def runHealthChecks_def)
qed

lemma shape_commit:
  "triple (all_prepared opts TCommitting) (runCommit env opts) (all_committed opts TCommitting) (\<lambda>e. fail_shape)"
proof -
  have "triple (\<lambda>s. all_prepared opts TCommitting s \<and> preparedEntries s = es)
          (in_phase env opts PhCommit (commitLoop env opts es)) (all_committed opts TCommitting) (\<lambda>e. fail_shape)" for es
    by (rule triple_in_phase, rule tripleI)
       (auto simp: shape_defs all_prepared_def all_committed_def dest!: commitLoop_shape)
  then show ?thesis unfolding triple_def runCommit_def by blast
qed

lemma shape_committed:
  "triple (all_committed opts TCommitting) (do_transition env TCommitted) (all_committed opts TCommitted) (\<lambda>e. fail_shape)"
  by (rule triple_transition) (simp_all add: all_committed_def)

lemma triple_try_shape:
  "triple (\<lambda>s. at_state TIdle s \<and> preparedEntries s = []) (tryBlock env opts)
     (all_committed opts TCommitted) (\<lambda>e. fail_shape)"
  unfolding tryBlock_def
  by (rule triple_seq, rule triple_simple_phase, simp, simp, simp)
     (rule triple_seq, rule triple_simple_phase, simp, simp, simp,
      rule triple_seq [OF shape_preparing], rule triple_seq [OF shape_prepare],
      rule triple_seq [OF shape_transition [of TPrepared]], simp, rule triple_seq [OF shape_health],
      rule triple_seq [OF shape_transition [of TCommitting]], simp, rule triple_seq [OF shape_commit],
      rule triple_seq [OF shape_committed], rule triple_return, simp add: all_committed_def)

section \<open>Messages\<close>

definition blank :: "js_error \<Rightarrow> bool" where
  "blank e \<longleftrightarrow> js_trim (errorMessage e) = []"

definition never_blank :: "('w \<Rightarrow> 'a result \<times> 'w) \<Rightarrow> bool" where
  "never_blank f \<longleftrightarrow> (\<forall>w e w'. f w = (Inl e, w') \<longrightarrow> \<not> blank e)"

definition speaks :: "('c, 'w, 'p) reloadable \<Rightarrow> bool" where
  "speaks c \<longleftrightarrow>
     (\<forall>cfg ctx. never_blank (rc_prepare c cfg ctx)) \<and>
     (\<forall>p ctx. never_blank (rc_health c p ctx) \<and> never_blank (rc_commit c p ctx))"

definition speaking :: "('c, 'w, 'p) exec_options \<Rightarrow> bool" where
  "speaking opts \<longleftrightarrow>
     (\<forall>c \<in> set (eo_components opts). speaks c) \<and>
     (\<forall>f. eo_parse opts = Some f \<longrightarrow> never_blank f) \<and> (\<forall>f. eo_validate opts = Some f \<longrightarrow> never_blank f)"

lemma js_trim_visible: "\<not> is_space c \<Longrightarrow> js_trim (c # cs) \<noteq> []"
  by (simp add: js_trim_def dropWhile_eq_Nil_conv)

lemma exec_op_not_blank:
  assumes "executeReloadOperation env label ctx f s = (Inl e, s')" "never_blank f"
  shows "\<not> blank e"
  using exec_op_message [OF assms(1)] assms(2)
  by (auto simp: never_blank_def blank_def js_trim_visible is_space_def char_code_def)

lemma prepareLoop_speaks:
  "prepareLoop env opts cs s = (r, s') \<Longrightarrow> \<forall>c \<in> set cs. speaks c \<Longrightarrow> \<forall>x \<in> set (preparedEntries s). speaks (fst x) \<Longrightarrow>
     (\<forall>e. r = Inl e \<longrightarrow> \<not> blank e) \<and> (\<forall>x \<in> set (preparedEntries s'). speaks (fst x))"
proof (induction cs arbitrary: s)
  case Nil
  then show ?case by auto
next
  case (Cons c cs)
  let ?s2 = "event env opts PrepareStarted (Some (rc_name c)) (Some PhPrepare) None None (snd (read_clock env s))"
  obtain r0 s3 where ex: "executeReloadOperation env (show_component (rc_name c) @ ''.prepare'')
      (base_context opts ?s2) (rc_prepare c (eo_config opts) (base_context opts ?s2)) ?s2 = (r0, s3)"
    by (meson surj_pair)
  note fr = exec_op_frame [OF ex, unfolded frame_def]
  show ?case
  proof (cases r0)
    case (Inl e)
    with Cons.prems(2) have "\<not> blank e"
      by (auto intro!: exec_op_not_blank [OF ex [unfolded Inl]] simp: speaks_def)
    with Cons.prems ex fr Inl show ?thesis by (auto simp: Let_def case_prod_beta)
  next
    case (Inr p)
    with Cons.prems(1) ex obtain s5 where rec: "prepareLoop env opts cs s5 = (r, s')"
      and s5: "preparedEntries s5 = preparedEntries s3 @ [(c, p)]"
      by (auto simp: Let_def case_prod_beta read_clock_def)
    show ?thesis using Cons.IH [OF rec] Cons.prems(2,3) fr s5 by auto
  qed
qed

lemma healthLoop_speaks:
  "healthLoop env opts es s = (Inl e, s') \<Longrightarrow> \<forall>x \<in> set es. speaks (fst x) \<Longrightarrow> \<not> blank e"
proof (induction es arbitrary: s)
  case (Cons x es)
  obtain c p where x: "x = (c, p)" by (cases x)
  obtain r0 s1 where ex: "executeReloadOperation env (show_component (rc_name c) @ ''.health'')
      (base_context opts s) (rc_health c p (base_context opts s)) s = (r0, s1)"
    by (meson surj_pair)
  show ?case
  proof (cases r0)
    case (Inl e1)
    from Cons.prems(2) have "never_blank (rc_health c p (base_context opts s))" by (simp add: x speaks_def)
    from exec_op_not_blank [OF ex [unfolded Inl] this] Cons.prems(1) ex Inl show ?thesis by (simp add: x)
  next
    case (Inr u)
    with Cons.prems ex have "healthLoop env opts es s1 = (Inl e, s')" by (simp add: x)
    then show ?thesis by (rule Cons.IH) (use Cons.prems(2) in simp)
  qed
qed simp

lemma commitLoop_speaks:
  "commitLoop env opts es s = (Inl e, s') \<Longrightarrow> \<forall>x \<in> set es. speaks (fst x) \<Longrightarrow> \<not> blank e"
proof (induction es arbitrary: s)
  case (Cons x es)
  obtain c p where x: "x = (c, p)" by (cases x)
  let ?s2 = "event env opts CommitStarted (Some (rc_name c)) (Some PhCommit) None None (snd (read_clock env s))"
  obtain r0 s3 where ex: "executeReloadOperation env (show_component (rc_name c) @ ''.commit'')
      (base_context opts ?s2) (rc_commit c p (base_context opts ?s2)) ?s2 = (r0, s3)"
    by (meson surj_pair)
  show ?case
  proof (cases r0)
    case (Inl e1)
    from Cons.prems(2) have "never_blank (rc_commit c p (base_context opts ?s2))" by (simp add: x speaks_def)
    from exec_op_not_blank [OF ex [unfolded Inl] this] Cons.prems(1) ex Inl show ?thesis
      by (simp add: x Let_def case_prod_beta)
  next
    case (Inr u)
    with Cons.prems(1) ex obtain s5 where "commitLoop env opts es s5 = (Inl e, s')"
      by (auto simp: x Let_def case_prod_beta)
    then show ?thesis by (rule Cons.IH) (use Cons.prems(2) in simp)
  qed
qed simp

abbreviation voiced :: "('c, 'w, 'p) exec \<Rightarrow> bool" where
  "voiced s \<equiv> \<forall>x \<in> set (preparedEntries s). speaks (fst x)"

lemma triple_simple_phase_speaks:
  assumes "\<forall>g. f = Some g \<longrightarrow> never_blank g" "st \<in> set (transitions st0)"
  shows "triple (\<lambda>s. tx_state (txn s) = st0 \<and> voiced s) (runSimplePhase env opts ph stage label st f)
           (\<lambda>s. tx_state (txn s) = st \<and> voiced s) (\<lambda>e s. \<not> blank e)"
  unfolding triple_def
proof (intro allI impI)
  fix s r s'
  assume P: "tx_state (txn s) = st0 \<and> voiced s" and run: "runSimplePhase env opts ph stage label st f s = (r, s')"
  let ?P = "\<lambda>s. tx_state (txn s) = st \<and> voiced s"
  let ?f = "case f of Some g \<Rightarrow> g | None \<Rightarrow> (\<lambda>w. (Inr (), w))"
  have nb: "never_blank ?f" using assms(1) by (auto simp: never_blank_def split: option.splits)
  have "triple (\<lambda>s. tx_state (txn s) = st0 \<and> voiced s) (do_transition env st) ?P (\<lambda>e s. \<not> blank e)"
    by (rule triple_transition) (use assms(2) in simp_all)
  then obtain s1 where s1: "do_transition env st s = (Inr (), s1)" "?P s1"
  proof -
    have "triple (\<lambda>s. tx_state (txn s) = st0 \<and> voiced s) (do_transition env st) ?P (\<lambda>e s. False)"
      by (rule triple_transition) (use assms(2) in simp_all)
    from tripleD [OF this P] that show thesis by (cases "do_transition env st s") (auto split: sum.splits)
  qed
  let ?s3 = "event env opts PhaseStarted None (Some ph) None None (snd (read_clock env s1))"
  obtain r0 s4 where ex: "executeReloadOperation env label (base_context opts ?s3) ?f ?s3 = (r0, s4)"
    by (meson surj_pair)
  note fr = exec_op_frame [OF ex, unfolded frame_def]
  show "case r of Inl e \<Rightarrow> \<not> blank e | Inr u \<Rightarrow> ?P s'"
  proof (cases r0)
    case (Inl e)
    from exec_op_not_blank [OF ex [unfolded Inl] nb] run s1 ex Inl show ?thesis
      by (simp add: runSimplePhase_def Let_def case_prod_beta) (auto split: sum.splits)
  next
    case (Inr u)
    with run s1 ex fr show ?thesis by (auto simp: runSimplePhase_def Let_def case_prod_beta)
  qed
qed

text \<open>Between the phases the transaction is in the state the code put it in and no prepared
  component is silent; what is thrown is never blank.\<close>

lemma triple_state_speaks:
  assumes "st \<in> set (transitions st0)"
  shows "triple (\<lambda>s. tx_state (txn s) = st0 \<and> voiced s) (do_transition env st)
           (\<lambda>s. tx_state (txn s) = st \<and> voiced s) (\<lambda>e s. \<not> blank e)"
  by (rule triple_transition) (use assms in simp_all)

lemma triple_phase_speaks:
  assumes "\<And>s r s'. tx_state (txn s) = st \<Longrightarrow> voiced s \<Longrightarrow> body s = (r, s') \<Longrightarrow>
      tx_state (txn s') = st \<and> voiced s' \<and> (\<forall>e. r = Inl e \<longrightarrow> \<not> blank e)"
  shows "triple (\<lambda>s. tx_state (txn s) = st \<and> voiced s) (in_phase env opts ph body)
           (\<lambda>s. tx_state (txn s) = st \<and> voiced s) (\<lambda>e s. \<not> blank e)"
proof (rule triple_in_phase)
  show "triple (\<lambda>s. tx_state (txn s) = st \<and> voiced s) body
      (\<lambda>s. tx_state (txn s) = st \<and> voiced s) (\<lambda>e s. \<not> blank e)"
  proof (rule tripleI)
    fix s s' assume "tx_state (txn s) = st \<and> voiced s" "body s = (Inr (), s')"
    with assms [of s "Inr ()" s'] show "tx_state (txn s') = st \<and> voiced s'" by blast
  next
    fix s s' e assume "tx_state (txn s) = st \<and> voiced s" "body s = (Inl e, s')"
    with assms [of s "Inl e" s'] show "\<not> blank e" by blast
  qed
qed simp_all

lemma triple_try_speaks:
  assumes "speaking opts"
  shows "triple (\<lambda>s. tx_state (txn s) = TIdle \<and> voiced s) (tryBlock env opts)
     (\<lambda>s. tx_state (txn s) = TCommitted \<and> voiced s) (\<lambda>e s. \<not> blank e)"
proof -
  from assms have all: "\<forall>c \<in> set (eo_components opts). speaks c"
    and f: "\<forall>g. eo_parse opts = Some g \<longrightarrow> never_blank g" "\<forall>g. eo_validate opts = Some g \<longrightarrow> never_blank g"
    by (simp_all add: speaking_def)
  have prep: "triple (\<lambda>s. tx_state (txn s) = TPreparing \<and> voiced s) (runPrepare env opts)
      (\<lambda>s. tx_state (txn s) = TPreparing \<and> voiced s) (\<lambda>e s. \<not> blank e)"
    unfolding runPrepare_def
    by (rule triple_phase_speaks) (use all in \<open>auto dest: prepareLoop_shape prepareLoop_speaks\<close>)
  have health: "triple (\<lambda>s. tx_state (txn s) = TPrepared \<and> voiced s) (runHealthChecks env opts)
      (\<lambda>s. tx_state (txn s) = TPrepared \<and> voiced s) (\<lambda>e s. \<not> blank e)"
  proof -
    have "triple (\<lambda>s. tx_state (txn s) = TPrepared \<and> voiced s) (in_phase env opts PhHealth (healthLoop env opts es))
      (\<lambda>s. tx_state (txn s) = TPrepared \<and> voiced s) (\<lambda>e s. \<not> blank e)" if "\<forall>x \<in> set es. speaks (fst x)" for es
      by (rule triple_phase_speaks) (use that healthLoop_shape healthLoop_speaks in metis)
    then show ?thesis by (fastforce simp: triple_def runHealthChecks_def)
  qed
  have commit: "triple (\<lambda>s. tx_state (txn s) = TCommitting \<and> voiced s) (runCommit env opts)
      (\<lambda>s. tx_state (txn s) = TCommitting \<and> voiced s) (\<lambda>e s. \<not> blank e)"
  proof -
    have "triple (\<lambda>s. tx_state (txn s) = TCommitting \<and> voiced s) (in_phase env opts PhCommit (commitLoop env opts es))
      (\<lambda>s. tx_state (txn s) = TCommitting \<and> voiced s) (\<lambda>e s. \<not> blank e)" if "\<forall>x \<in> set es. speaks (fst x)" for es
      by (rule triple_phase_speaks) (use that commitLoop_shape commitLoop_speaks in metis)
    then show ?thesis by (fastforce simp: triple_def runCommit_def)
  qed
  note tr = triple_state_speaks [where env = env]
  show ?thesis
    unfolding tryBlock_def
    by (rule triple_seq [OF triple_simple_phase_speaks [OF f(1), where st = TParsing and ?st0.0 = TIdle]],
        simp, rule triple_seq [OF triple_simple_phase_speaks [OF f(2), where st = TValidating and ?st0.0 = TParsing]],
        simp, rule triple_seq [OF tr [of TPreparing]], simp, rule triple_seq [OF prep],
        rule triple_seq [OF tr [of TPrepared]], simp, rule triple_seq [OF health],
        rule triple_seq [OF tr [of TCommitting]], simp, rule triple_seq [OF commit],
        rule triple_seq [OF tr [of TCommitted]], simp, rule triple_return, simp)
qed

section \<open>The catch block\<close>

lemma do_fail_rolling:
  assumes "\<not> blank e" "tx_state (txn s) \<in> {TPreparing, TPrepared, TCommitting}"
  obtains s' where "do_fail env (errorMessage e) s = (Inr (), s')" "tx_state (txn s') = TRollingBack"
    "frame (s\<lparr>txn := txn s'\<rparr>) s'" "world s' = world s"
proof -
  let ?t = "(txn s)\<lparr>tx_failureReason := Some (errorMessage e), tx_state := TRollingBack\<rparr>"
  have "\<not> isTerminal (tx_state (txn s))" using assms(2) by (auto simp: isTerminal_def)
  with assms that [of "(snd (read_clock env s))\<lparr>txn := ?t\<rparr>"] show thesis
    by (auto simp: do_fail_def fail_txn_def blank_def case_prod_beta frame_def)
qed

lemma do_fail_failed:
  assumes "\<not> blank e" "tx_state (txn s) \<in> {TParsing, TValidating}"
  obtains s' where "do_fail env (errorMessage e) s = (Inr (), s')" "tx_state (txn s') = TFailed"
    "frame (s\<lparr>txn := txn s'\<rparr>) s'" "world s' = world s"
proof -
  let ?t = "(txn s)\<lparr>tx_failureReason := Some (errorMessage e), tx_state := TFailed,
      tx_completedAt := Some (fst (read_clock env s))\<rparr>"
  have "\<not> isTerminal (tx_state (txn s))" using assms(2) by (auto simp: isTerminal_def)
  with assms that [of "(snd (read_clock env s))\<lparr>txn := ?t\<rparr>"] show thesis
    by (auto simp: do_fail_def fail_txn_def blank_def case_prod_beta frame_def)
qed

text \<open>After a failure the transaction has failed outright, or everything it did is rolled back.\<close>

lemma catchBlock_outcome:
  assumes "fail_shape s" "\<not> blank e"
  obtains (failed_early) s' where "catchBlock env opts e s = (Inr (), s')" "tx_state (txn s') = TFailed"
      "preparedEntries s' = []" "committedEntries s' = []" "committedEntries s = []" "world s' = world s"
      "componentErrors s' = componentErrors s"
  | (rolled_back) s' s1 where "catchBlock env opts e s = (Inr (), s')" "tx_state (txn s') = TRolledBack"
      "world s1 = world s" "preparedEntries s1 = preparedEntries s" "committedEntries s1 = committedEntries s"
      "componentErrors s1 = componentErrors s" "primaryFailureStage s1 = primaryFailureStage s"
      "world s' = world (runRollback env opts s1)" "preparedEntries s' = preparedEntries s"
      "committedEntries s' = committedEntries s" "componentErrors s' = componentErrors (runRollback env opts s1)"
proof -
  let ?s1 = "s\<lparr>originalFailure := Some e, metrics := transactionFailed (errorMessage e) (metrics s)\<rparr>"
  let ?ev = "event env opts TransactionFailed None None (Some (errorMessage e)) None"
  show thesis
  proof (cases "tx_state (txn s) \<in> {TParsing, TValidating}")
    case True
    then obtain s2 where s2: "do_fail env (errorMessage e) ?s1 = (Inr (), s2)" "tx_state (txn s2) = TFailed"
      "frame (?s1\<lparr>txn := txn s2\<rparr>) s2" "world s2 = world ?s1"
      using assms(2) by (auto intro: do_fail_failed [of e ?s1 env])
    have "catchBlock env opts e s = (Inr (), ?ev s2)"
      using s2(1,2) by (simp add: catchBlock_def Let_def)
    with failed_early [of "?ev s2"] s2 True assms(1) show thesis by (auto simp: frame_def fail_shape_def)
  next
    case False
    with assms(1) have "tx_state (txn ?s1) \<in> {TPreparing, TPrepared, TCommitting}"
      by (auto simp: fail_shape_def)
    then obtain s2 where s2: "do_fail env (errorMessage e) ?s1 = (Inr (), s2)" "tx_state (txn s2) = TRollingBack"
      "frame (?s1\<lparr>txn := txn s2\<rparr>) s2" "world s2 = world ?s1"
      using assms(2) by (auto intro: do_fail_rolling [of e ?s1 env])
    let ?r = "runRollback env opts (?ev s2)"
    have st: "tx_state (txn ?r) = TRollingBack" using s2(2) by (simp add: runRollback_shape)
    define s3 where "s3 = (snd (read_clock env ?r))\<lparr>txn := (txn ?r)\<lparr>tx_state := TRolledBack,
        tx_completedAt := Some (fst (read_clock env ?r))\<rparr>\<rparr>"
    have tr: "do_transition env TRolledBack ?r = (Inr (), s3)"
      using st by (simp add: do_transition_def case_prod_beta transition_def isTerminal_def s3_def)
    let ?s' = "event env opts TransactionRolledBack None None None None
        (s3\<lparr>metrics := transactionRolledBack (metrics s3)\<rparr>)"
    have run: "catchBlock env opts e s = (Inr (), ?s')"
      using s2(1,2) tr by (simp add: catchBlock_def Let_def)
    show thesis
      by (rule rolled_back [of ?s' "?ev s2"], rule run)
         (use s2(3,4) in \<open>simp_all add: s3_def frame_def runRollback_shape\<close>)
  qed
qed

section \<open>The whole execution\<close>

lemma initialExec_Inr_iff:
  "initialExec env opts evs m w = Inr s \<longleftrightarrow>
     0 < eo_timeoutMs opts \<and>
     s = \<lparr>world = w,
          txn = newTransaction (eo_transactionId opts) (eo_old opts) (eo_candidate opts) (clock_at env 0),
          evlog = evs, metrics = m, componentErrors = [], preparedEntries = [],
          committedEntries = [], originalFailure = None, primaryFailureStage = None,
          deadline = clock_at env 1 + eo_timeoutMs opts, opCount = 0, clockCount = 2\<rparr>"
  by (auto simp: initialExec_def)

lemma initialExec_fields:
  assumes "initialExec env opts evs m w = Inr s"
  shows "at_state TIdle s" "preparedEntries s = []" "componentErrors s = []" "world s = w"
  using assms by (simp_all add: initialExec_Inr_iff at_state_def newTransaction_def)

text \<open>The end of an execution: the state the \<^verbatim>\<open>try\<close> and \<^verbatim>\<open>catch\<close> blocks leave, cleaned up.\<close>

lemma execute_cases:
  assumes start: "initialExec env opts evs m w = Inr s0"
  obtains (committed) s s' where "tryBlock env opts (event env opts TransactionStarted None None None None
        (s0\<lparr>metrics := transactionStarted (metrics s0)\<rparr>)) = (Inr (), s)"
      "tx_state (txn s) = TCommitted" "committedEntries s = preparedEntries s"
      "map fst (preparedEntries s) = eo_components opts"
      "execute env opts s0 = (Inr True, s')" "frame (runCleanup env opts s) s'"
      "world s' = world (runCleanup env opts s)"
  | (thrown) e s where "tryBlock env opts (event env opts TransactionStarted None None None None
        (s0\<lparr>metrics := transactionStarted (metrics s0)\<rparr>)) = (Inl e, s)" "fail_shape s"
      "execute env opts s0 =
        (case catchBlock env opts e s of
           (Inl e1, s1) \<Rightarrow> (Inl e1, runCleanup env opts s1)
         | (Inr u, s1) \<Rightarrow>
             (let s2 = runCleanup env opts s1; (t, s3) = read_clock env s2;
                  s4 = s3\<lparr>metrics := recordTransactionDuration (t - tx_startedAt (txn s3)) (metrics s3)\<rparr>
              in (Inr (tx_state (txn s4) = TCommitted), s4)))"
proof -
  let ?s1 = "event env opts TransactionStarted None None None None
        (s0\<lparr>metrics := transactionStarted (metrics s0)\<rparr>)"
  obtain r s where tb: "tryBlock env opts ?s1 = (r, s)" by (meson surj_pair)
  have "at_state TIdle ?s1 \<and> preparedEntries ?s1 = []"
    using initialExec_fields [OF start] by (simp add: at_state_def)
  note shape = tripleD [OF triple_try_shape this tb]
  show thesis
  proof (cases r)
    case (Inr u)
    let ?c = "runCleanup env opts s"
    let ?s' = "(snd (read_clock env ?c))\<lparr>metrics := recordTransactionDuration
        (fst (read_clock env ?c) - tx_startedAt (txn ?c)) (metrics (snd (read_clock env ?c)))\<rparr>"
    from shape Inr have st: "tx_state (txn s) = TCommitted" "committedEntries s = preparedEntries s"
      "map fst (preparedEntries s) = eo_components opts" by (simp_all add: all_committed_def)
    have "execute env opts s0 = (Inr True, ?s')"
      using tb Inr st by (simp add: execute_def Let_def case_prod_beta runCleanup_shape)
    then show thesis using committed [of s ?s'] tb Inr st by (simp add: frame_def)
  next
    case (Inl e)
    with shape have "fail_shape s" by simp
    moreover have "execute env opts s0 =
        (case catchBlock env opts e s of
           (Inl e1, s1) \<Rightarrow> (Inl e1, runCleanup env opts s1)
         | (Inr u, s1) \<Rightarrow>
             (let s2 = runCleanup env opts s1; (t, s3) = read_clock env s2;
                  s4 = s3\<lparr>metrics := recordTransactionDuration (t - tx_startedAt (txn s3)) (metrics s3)\<rparr>
              in (Inr (tx_state (txn s4) = TCommitted), s4)))"
      using tb Inl by (simp add: execute_def Let_def case_prod_beta split: sum.splits)
    ultimately show thesis using thrown [of e s] tb Inl by simp
  qed
qed

end
