(* ===== verification/ReloadContract.thy ===== *)
theory ReloadContract
  imports ReloadProofs
begin

text \<open>
  The contract of \<^verbatim>\<open>src/reload/contract.ts\<close> as laws on the five operations of a component, and
  what the executor makes of it: a transaction that does not commit leaves what the components
  show (\<open>view\<close>) as it was. Committed operations are kept as a stack of pairs, the prepared value
  and what was shown before its commit; \<open>armed\<close> says that the stack can be undone, \<open>undoing\<close> that
  it is being undone. The adapters of the repository interpret the locale.
\<close>

section \<open>What an execution settles to\<close>

lemma blank_fails: "blank e \<Longrightarrow> \<not> isTerminal (tx_state (txn s)) \<Longrightarrow>
    do_fail env (errorMessage e) s = (Inl (PlainError ''reload failure reason must not be empty''), snd (read_clock env s))"
  by (simp add: do_fail_def fail_txn_def blank_def case_prod_beta)

lemma fail_shape_live: "fail_shape s \<Longrightarrow> \<not> isTerminal (tx_state (txn s))"
  by (auto simp: fail_shape_def isTerminal_def)

text \<open>
  Property C1. A reload transaction whose components never reject with a blank message always ends:
  the promise settles to a result, the transaction is in a terminal state, it is reported as a
  success exactly when it is committed, and then every configured component has been prepared and
  committed, in the configured order; otherwise it has failed before preparing or is rolled back.
\<close>

theorem execute_settles:
  assumes "initialExec env opts evs m w = Inr s0" "speaking opts" "execute env opts s0 = (r, s')"
  shows "\<exists>ok. r = Inr ok \<and> isTerminal (tx_state (txn s')) \<and> (ok \<longleftrightarrow> tx_state (txn s') = TCommitted) \<and>
     (if ok then map fst (preparedEntries s') = eo_components opts \<and> committedEntries s' = preparedEntries s'
      else tx_state (txn s') \<in> {TFailed, TRolledBack})"
proof (rule execute_cases [OF assms(1)], goal_cases)
  case (1 s s1)
  with assms(3) show ?case by (auto simp: frame_def runCleanup_shape isTerminal_def)
next
  case (2 e s)
  let ?s1 = "event env opts TransactionStarted None None None None
        (s0\<lparr>metrics := transactionStarted (metrics s0)\<rparr>)"
  have "tx_state (txn ?s1) = TIdle \<and> voiced ?s1"
    using initialExec_fields [OF assms(1)] by (simp add: at_state_def)
  from tripleD [OF triple_try_speaks [OF assms(2)] this 2(1)] have nb: "\<not> blank e" by simp
  show ?case
    by (rule catchBlock_outcome [OF 2(2) nb, of env opts])
       (use 2(3) assms(3) in \<open>auto simp: Let_def case_prod_beta runCleanup_shape isTerminal_def\<close>)
qed

text \<open>
  Property C37. The executor does not survive a blank error message: when an operation rejects with
  one, the transaction model refuses the empty reason inside the \<^verbatim>\<open>catch\<close> block, so \<^verbatim>\<open>execute\<close>
  rejects with that other error, no rollback runs, what was committed stays committed and the
  transaction never reaches a terminal state.
\<close>

theorem execute_blank_message_skips_rollback:
  assumes "initialExec env opts evs m w = Inr s0" "blank e"
    and "tryBlock env opts (event env opts TransactionStarted None None None None
        (s0\<lparr>metrics := transactionStarted (metrics s0)\<rparr>)) = (Inl e, s)"
  shows "fst (execute env opts s0) = Inl (PlainError ''reload failure reason must not be empty'')
     \<and> \<not> isTerminal (tx_state (txn (snd (execute env opts s0))))
     \<and> committedEntries (snd (execute env opts s0)) = committedEntries s
     \<and> (\<forall>x \<in> set (componentErrors (snd (execute env opts s0))). x \<in> set (componentErrors s) \<or> ce_stage x = FCleanup)"
proof (rule execute_cases [OF assms(1)], goal_cases)
  case (1 s1 s2)
  with assms(3) show ?case by simp
next
  case (2 e1 s1)
  with assms(3) have e1: "e1 = e" "s1 = s" by simp_all
  let ?f = "s\<lparr>originalFailure := Some e, metrics := transactionFailed (errorMessage e) (metrics s)\<rparr>"
  have live: "\<not> isTerminal (tx_state (txn s))" using 2(2) by (simp add: e1 fail_shape_live)
  then have "catchBlock env opts e s = (Inl (PlainError ''reload failure reason must not be empty''), snd (read_clock env ?f))"
    using blank_fails [OF assms(2), of ?f env] by (simp add: catchBlock_def Let_def)
  with 2(3) have eq: "execute env opts s0 =
      (Inl (PlainError ''reload failure reason must not be empty''), runCleanup env opts (snd (read_clock env ?f)))"
    by (simp add: e1)
  from runCleanup_shape(4) [of env opts "snd (read_clock env ?f)"]
  have "\<forall>x \<in> set (componentErrors (runCleanup env opts (snd (read_clock env ?f)))).
      x \<in> set (componentErrors s) \<or> ce_stage x = FCleanup" by auto
  with live eq show ?case by (simp add: runCleanup_shape)
qed

section \<open>The contract\<close>

fun undo_base :: "('p \<times> 'v) list \<Rightarrow> 'v \<Rightarrow> 'v" where
  "undo_base [] v = v"
| "undo_base ((p, u) # st) v = undo_base st u"

definition inert :: "('w \<Rightarrow> unit result \<times> 'w) option \<Rightarrow> bool" where
  "inert f \<longleftrightarrow> (\<forall>g w. f = Some g \<longrightarrow> snd (g w) = w)"

lemma do_transition_frame:
  "do_transition env next s = (r, s') \<Longrightarrow>
     world s' = world s \<and> preparedEntries s' = preparedEntries s \<and> committedEntries s' = committedEntries s"
  by (auto simp: do_transition_def case_prod_beta split: sum.splits)

locale reload_contract =
  fixes good :: "('c, 'w, 'p) reloadable \<Rightarrow> bool"
    and tid :: string
    and view :: "'w \<Rightarrow> 'v"
    and owner :: "'p \<Rightarrow> reload_component_name"
    and armed :: "('p \<times> 'v) list \<Rightarrow> 'w \<Rightarrow> bool"
    and undoing :: "('p \<times> 'v) list \<Rightarrow> 'w \<Rightarrow> bool"
  assumes armed_undoing: "armed st w \<Longrightarrow> undoing st w"
    and prepare_law: "good c \<Longrightarrow> oc_transactionId ctx = tid \<Longrightarrow> armed [] w \<Longrightarrow> rc_prepare c cfg ctx w = (r, w') \<Longrightarrow>
      armed [] w' \<and> view w' = view w \<and> (\<forall>p. r = Inr p \<longrightarrow> owner p = rc_name c)"
    and health_law: "good c \<Longrightarrow> owner p = rc_name c \<Longrightarrow> armed st w \<Longrightarrow> rc_health c p ctx w = (r1, w') \<Longrightarrow>
      armed st w' \<and> view w' = view w"
    and commit_law: "good c \<Longrightarrow> owner p = rc_name c \<Longrightarrow> owner p \<notin> (owner \<circ> fst) ` set st \<Longrightarrow> armed st w \<Longrightarrow>
      rc_commit c p ctx w = (r1, w') \<Longrightarrow>
      (case r1 of Inr u \<Rightarrow> armed ((p, view w) # st) w' | Inl e \<Rightarrow> armed st w' \<and> view w' = view w)"
    and rollback_law: "good c \<Longrightarrow> owner p = rc_name c \<Longrightarrow> undoing ((p, v) # st) w \<Longrightarrow>
      rc_rollback c p ctx w = (Inr (), w') \<Longrightarrow> undoing st w' \<and> view w' = v"
    and rollback_idle: "good c \<Longrightarrow> owner p = rc_name c \<Longrightarrow> undoing [] w \<Longrightarrow>
      rc_rollback c p ctx w = (Inr (), w') \<Longrightarrow> undoing [] w' \<and> view w' = view w"
    and cleanup_law: "good c \<Longrightarrow> owner p = rc_name c \<Longrightarrow> view (snd (rc_cleanup c p ctx w)) = view w"
begin

definition entries_ok :: "(('c, 'w, 'p) reloadable \<times> 'p) list \<Rightarrow> bool" where
  "entries_ok es \<longleftrightarrow> (\<forall>(c, p) \<in> set es. good c \<and> owner p = rc_name c)"

definition undoable :: "'v \<Rightarrow> ('c, 'w, 'p) exec \<Rightarrow> bool" where
  "undoable v0 s \<longleftrightarrow>
     entries_ok (preparedEntries s) \<and> entries_ok (committedEntries s) \<and>
     (\<exists>st. armed st (world s) \<and> map fst st = rev (map snd (committedEntries s)) \<and>
           undo_base st (view (world s)) = v0)"

text \<open>Before the first commit nothing has to be undone.\<close>

definition untouched :: "'v \<Rightarrow> ('c, 'w, 'p) exec \<Rightarrow> bool" where
  "untouched v0 s \<longleftrightarrow>
     entries_ok (preparedEntries s) \<and> committedEntries s = [] \<and> armed [] (world s) \<and> view (world s) = v0"

lemma untouched_undoable: "untouched v0 s \<Longrightarrow> undoable v0 s"
  by (auto simp: untouched_def undoable_def entries_ok_def)

lemma untouched_cong:
  "untouched v0 s \<Longrightarrow> world s' = world s \<Longrightarrow> preparedEntries s' = preparedEntries s \<Longrightarrow>
     committedEntries s' = committedEntries s \<Longrightarrow> untouched v0 s'"
  by (simp add: untouched_def)

lemma undoable_cong:
  "undoable v0 s \<Longrightarrow> world s' = world s \<Longrightarrow> preparedEntries s' = preparedEntries s \<Longrightarrow>
     committedEntries s' = committedEntries s \<Longrightarrow> undoable v0 s'"
  by (simp add: undoable_def)

lemma op_untouched:
  assumes "executeReloadOperation env label ctx f s = (r, s')" "no_late_effects env"
    and "untouched v0 s" "\<And>r w. f (world s) = (r, w) \<Longrightarrow> armed [] w \<and> view w = view (world s)"
  shows "untouched v0 s'"
  using exec_op_cases [OF assms(1,2)] exec_op_frame [OF assms(1)] assms(3) assms(4)
  by (auto simp: untouched_def frame_def)

lemma prepareLoop_untouched:
  "prepareLoop env opts cs s = (r, s') \<Longrightarrow> untouched v0 s \<Longrightarrow> \<forall>c \<in> set cs. good c \<Longrightarrow>
     eo_transactionId opts = tid \<Longrightarrow> no_late_effects env \<Longrightarrow> untouched v0 s'"
proof (induction cs arbitrary: s)
  case Nil
  then show ?case by simp
next
  case (Cons c cs)
  let ?s2 = "event env opts PrepareStarted (Some (rc_name c)) (Some PhPrepare) None None (snd (read_clock env s))"
  let ?f = "rc_prepare c (eo_config opts) (base_context opts ?s2)"
  obtain r0 s3 where ex: "executeReloadOperation env (show_component (rc_name c) @ ''.prepare'')
      (base_context opts ?s2) ?f ?s2 = (r0, s3)"
    by (meson surj_pair)
  have s2: "untouched v0 ?s2" by (rule untouched_cong [OF Cons.prems(2)]) simp_all
  have law: "armed [] w \<and> view w = view (world ?s2) \<and> (\<forall>p. r = Inr p \<longrightarrow> owner p = rc_name c)"
    if "?f (world ?s2) = (r, w)" for r w
    by (rule prepare_law [OF _ _ _ that])
       (use Cons.prems s2 in \<open>simp_all add: base_context_def untouched_def\<close>)
  have s3: "untouched v0 s3"
    by (rule op_untouched [OF ex Cons.prems(5) s2]) (use law in blast)
  show ?case
  proof (cases r0)
    case (Inl e)
    with Cons.prems(1) ex s3 show ?thesis
      by (auto simp: Let_def case_prod_beta intro: untouched_cong)
  next
    case (Inr p)
    from exec_op_cases [OF ex Cons.prems(5)] Inr have "?f (world ?s2) = (Inr p, world s3)" by simp
    from law [OF this] have own: "owner p = rc_name c" by simp
    from Cons.prems(1) ex Inr obtain s5 where rec: "prepareLoop env opts cs s5 = (r, s')"
      and s5: "preparedEntries s5 = preparedEntries s3 @ [(c, p)]" "world s5 = world s3"
        "committedEntries s5 = committedEntries s3"
      by (auto simp: Let_def case_prod_beta read_clock_def)
    show ?thesis
      by (rule Cons.IH [OF rec _ _ Cons.prems(4,5)])
         (use s3 s5 own Cons.prems(3) in \<open>auto simp: untouched_def entries_ok_def\<close>)
  qed
qed

lemma healthLoop_untouched:
  "healthLoop env opts es s = (r, s') \<Longrightarrow> untouched v0 s \<Longrightarrow> entries_ok es \<Longrightarrow> no_late_effects env \<Longrightarrow>
     untouched v0 s'"
proof (induction es arbitrary: s)
  case Nil
  then show ?case by simp
next
  case (Cons x es)
  obtain c p where x: "x = (c, p)" by (cases x)
  obtain r0 s1 where ex: "executeReloadOperation env (show_component (rc_name c) @ ''.health'')
      (base_context opts s) (rc_health c p (base_context opts s)) s = (r0, s1)"
    by (meson surj_pair)
  have s1: "untouched v0 s1"
    by (rule op_untouched [OF ex Cons.prems(4,2)], rule health_law [where c = c and p = p])
       (use Cons.prems(2,3) in \<open>simp_all add: x entries_ok_def untouched_def\<close>)
  show ?case
  proof (cases r0)
    case (Inl e)
    with Cons.prems(1) ex s1 show ?thesis by (auto simp: x intro: untouched_cong)
  next
    case (Inr u)
    with Cons.prems(1) ex have "healthLoop env opts es s1 = (r, s')" by (simp add: x)
    then show ?thesis by (rule Cons.IH) (use s1 Cons.prems(3,4) in \<open>simp_all add: entries_ok_def\<close>)
  qed
qed

lemma commitLoop_undoable:
  "commitLoop env opts es s = (r, s') \<Longrightarrow> undoable v0 s \<Longrightarrow> entries_ok es \<Longrightarrow> no_late_effects env \<Longrightarrow>
     distinct (map (owner \<circ> snd) (committedEntries s @ es)) \<Longrightarrow> undoable v0 s'"
proof (induction es arbitrary: s)
  case Nil
  then show ?case by simp
next
  case (Cons x es)
  obtain c p where x: "x = (c, p)" by (cases x)
  let ?s2 = "event env opts CommitStarted (Some (rc_name c)) (Some PhCommit) None None (snd (read_clock env s))"
  let ?f = "rc_commit c p (base_context opts ?s2)"
  obtain r0 s3 where ex: "executeReloadOperation env (show_component (rc_name c) @ ''.commit'')
      (base_context opts ?s2) ?f ?s2 = (r0, s3)"
    by (meson surj_pair)
  note fr = exec_op_frame [OF ex, unfolded frame_def, simplified]
  from Cons.prems(2) obtain st where st: "armed st (world s)"
    "map fst st = rev (map snd (committedEntries s))" "undo_base st (view (world s)) = v0"
    and pe: "entries_ok (preparedEntries s)" "entries_ok (committedEntries s)"
    by (auto simp: undoable_def)
  from Cons.prems(3) have gc: "good c" "owner p = rc_name c" by (auto simp: x entries_ok_def)
  have "(owner \<circ> fst) ` set st = owner ` set (map fst st)" by (simp add: image_comp)
  with Cons.prems(5) st(2) have fresh: "owner p \<notin> (owner \<circ> fst) ` set st"
    by (auto simp: x image_iff)
  have law: "case r1 of Inr u \<Rightarrow> armed ((p, view (world s)) # st) w' | Inl e \<Rightarrow> armed st w' \<and> view w' = view (world s)"
    if "?f (world ?s2) = (r1, w')" for r1 w'
    by (rule commit_law [OF gc fresh st(1)]) (use that in simp)
  show ?case
  proof (cases r0)
    case (Inl e)
    with exec_op_cases [OF ex Cons.prems(4)] law st
    have "armed st (world s3) \<and> view (world s3) = view (world s)" by auto
    with st pe fr have "undoable v0 s3" by (auto simp: undoable_def)
    with Cons.prems(1) ex Inl show ?thesis
      by (auto simp: x Let_def case_prod_beta intro: undoable_cong)
  next
    case (Inr u)
    with exec_op_cases [OF ex Cons.prems(4)] law have arm: "armed ((p, view (world s)) # st) (world s3)"
      by auto
    from Cons.prems(1) ex Inr obtain s5 where rec: "commitLoop env opts es s5 = (r, s')"
      and s5: "preparedEntries s5 = preparedEntries s3" "world s5 = world s3"
        "committedEntries s5 = committedEntries s3 @ [(c, p)]"
      by (auto simp: x Let_def case_prod_beta read_clock_def)
    have "undoable v0 s5"
      unfolding undoable_def
      using arm s5 fr st pe gc by (auto simp: entries_ok_def intro!: exI [of _ "(p, view (world s)) # st"])
    with rec show ?thesis
      by (rule Cons.IH) (use Cons.prems(3-5) s5 fr in \<open>simp_all add: x entries_ok_def\<close>)
  qed
qed

text \<open>Rolling back, when no rollback reports an error.\<close>

definition no_rollback_errors :: "('c, 'w, 'p) exec \<Rightarrow> bool" where
  "no_rollback_errors s \<longleftrightarrow> (\<forall>x \<in> set (componentErrors s). ce_stage x \<noteq> FRollback)"

lemma rollbackLoop_idle:
  "no_rollback_errors (rollbackLoop env opts es s) \<Longrightarrow> entries_ok es \<Longrightarrow> undoing [] (world s) \<Longrightarrow>
     view (world (rollbackLoop env opts es s)) = view (world s)"
proof (induction es arbitrary: s)
  case (Cons x es)
  obtain c p where x: "x = (c, p)" by (cases x)
  let ?s1 = "rollbackEntry env opts c p s"
  from rollbackLoop_shape [of env opts es ?s1] Cons.prems(1) have ok1: "no_rollback_errors ?s1"
    by (auto simp: x no_rollback_errors_def)
  from Cons.prems(2) have gc: "good c" "owner p = rc_name c" by (auto simp: x entries_ok_def)
  show ?case
  proof (rule rollbackEntry_cases [of c p s env opts], goal_cases)
    case (1 ctx)
    from rollback_idle [OF gc Cons.prems(3) 1(1)] have "undoing [] (world ?s1)" "view (world ?s1) = view (world s)"
      by simp_all
    with Cons.IH [of ?s1] Cons.prems(1,2) show ?case by (simp add: x entries_ok_def)
  next
    case (2 e)
    with ok1 show ?case by (simp add: no_rollback_errors_def)
  qed
qed simp

lemma rollbackLoop_undoes:
  "no_rollback_errors (rollbackLoop env opts es s) \<Longrightarrow> entries_ok es \<Longrightarrow> undoing st (world s) \<Longrightarrow>
     map fst st = map snd es \<Longrightarrow>
     view (world (rollbackLoop env opts es s)) = undo_base st (view (world s))"
proof (induction es arbitrary: s st)
  case (Cons x es)
  obtain c p where x: "x = (c, p)" by (cases x)
  from Cons.prems(4) obtain v st' where st: "st = (p, v) # st'" "map fst st' = map snd es"
    by (cases st) (auto simp: x)
  let ?s1 = "rollbackEntry env opts c p s"
  from rollbackLoop_shape [of env opts es ?s1] Cons.prems(1) have ok1: "no_rollback_errors ?s1"
    by (auto simp: x no_rollback_errors_def)
  from Cons.prems(2) have gc: "good c" "owner p = rc_name c" by (auto simp: x entries_ok_def)
  show ?case
  proof (rule rollbackEntry_cases [of c p s env opts], goal_cases)
    case (1 ctx)
    from rollback_law [OF gc Cons.prems(3) [unfolded st(1)] 1(1)]
    have "undoing st' (world ?s1)" "view (world ?s1) = v" by simp_all
    with Cons.IH [of ?s1 st'] Cons.prems(1,2) st show ?case by (simp add: x entries_ok_def)
  next
    case (2 e)
    with ok1 show ?case by (simp add: no_rollback_errors_def)
  qed
qed simp

lemma cleanupLoop_view:
  "entries_ok es \<Longrightarrow> view (world (cleanupLoop env opts es s)) = view (world s)"
proof (induction es arbitrary: s)
  case (Cons x es)
  obtain c p where x: "x = (c, p)" by (cases x)
  from Cons.prems have gc: "good c" "owner p = rc_name c" by (auto simp: x entries_ok_def)
  obtain ctx where "world (cleanupEntry env opts c p s) \<in> {world s, snd (rc_cleanup c p ctx (world s))}"
    using cleanupEntry_shape(5) [where env = env and opts = opts and c = c and p = p and s = s] by blast
  with cleanup_law [OF gc, of ctx "world s"] have "view (world (cleanupEntry env opts c p s)) = view (world s)"
    by auto
  with Cons show ?case by (simp add: x entries_ok_def)
qed simp

lemma runCleanup_view: "entries_ok (preparedEntries s) \<Longrightarrow> view (world (runCleanup env opts s)) = view (world s)"
  by (simp add: runCleanup_eq cleanupLoop_view entries_ok_def)

lemma runRollback_view:
  assumes "primaryFailureStage s \<noteq> Some FCommit \<longrightarrow> committedEntries s = []" "undoable v0 s"
    "no_rollback_errors (runRollback env opts s)"
  shows "view (world (runRollback env opts s)) = v0"
proof -
  let ?s1 = "event env opts PhaseStarted None (Some PhRollback) None None (snd (read_clock env s))"
  from assms(2) obtain st where st: "armed st (world s)" "map fst st = rev (map snd (committedEntries s))"
    "undo_base st (view (world s)) = v0" and ok: "entries_ok (preparedEntries s)" "entries_ok (committedEntries s)"
    by (auto simp: undoable_def)
  have un: "undoing st (world ?s1)" using armed_undoing [OF st(1)] by simp
  have nre: "no_rollback_errors (rollbackLoop env opts (rev (rollbackEntries s)) ?s1)"
    using assms(3) by (simp add: runRollback_eq no_rollback_errors_def)
  show ?thesis
  proof (cases "primaryFailureStage s = Some FCommit")
    case True
    then have es: "rollbackEntries s = committedEntries s" by (simp add: rollbackEntries_def)
    from ok have "entries_ok (rev (committedEntries s))" by (simp add: entries_ok_def)
    from rollbackLoop_undoes [OF nre [unfolded es] this un] st(2,3) show ?thesis
      by (simp add: runRollback_eq es rev_map)
  next
    case False
    then have es: "rollbackEntries s = preparedEntries s" by (simp add: rollbackEntries_def)
    from assms(1) False have "committedEntries s = []" by simp
    with st have "st = []" by simp
    moreover from ok have "entries_ok (rev (preparedEntries s))" by (simp add: entries_ok_def)
    ultimately show ?thesis using rollbackLoop_idle [OF nre [unfolded es]] un st(3)
      by (simp add: runRollback_eq es)
  qed
qed

text \<open>The whole \<^verbatim>\<open>try\<close> block.\<close>

lemma triple_keep_untouched:
  assumes "\<And>s r s'. untouched v0 s \<Longrightarrow> m s = (r, s') \<Longrightarrow> untouched v0 s'"
  shows "triple (untouched v0) m (untouched v0) (\<lambda>e. undoable v0)"
  using assms untouched_undoable by (fastforce simp: triple_def split: sum.splits)

lemma transition_untouched: "triple (untouched v0) (do_transition env st) (untouched v0) (\<lambda>e. undoable v0)"
  by (rule triple_keep_untouched) (auto dest: do_transition_frame intro: untouched_cong)

lemma simple_phase_untouched:
  assumes "inert f" "no_late_effects env"
  shows "triple (untouched v0) (runSimplePhase env opts ph stage label st f) (untouched v0) (\<lambda>e. undoable v0)"
proof (rule triple_keep_untouched)
  fix s r s' assume s: "untouched v0 s" and run: "runSimplePhase env opts ph stage label st f s = (r, s')"
  obtain r0 s1 where tr: "do_transition env st s = (r0, s1)" by (cases "do_transition env st s")
  have s1: "untouched v0 s1" using do_transition_frame [OF tr] s by (auto intro: untouched_cong)
  show "untouched v0 s'"
  proof (cases r0)
    case (Inl e)
    with run tr s1 show ?thesis by (simp add: runSimplePhase_def)
  next
    case (Inr u)
    let ?s3 = "event env opts PhaseStarted None (Some ph) None None (snd (read_clock env s1))"
    let ?f = "case f of Some g \<Rightarrow> g | None \<Rightarrow> (\<lambda>w. (Inr (), w))"
    obtain r2 s4 where ex: "executeReloadOperation env label (base_context opts ?s3) ?f ?s3 = (r2, s4)"
      by (meson surj_pair)
    have s3: "untouched v0 ?s3" using s1 by (rule untouched_cong) simp_all
    have "untouched v0 s4"
    proof (rule op_untouched [OF ex assms(2) s3])
      fix r w assume "?f (world ?s3) = (r, w)"
      with assms(1) have "w = world ?s3"
        by (cases f) (auto simp: inert_def, metis snd_conv)
      with s3 show "armed [] w \<and> view w = view (world ?s3)" by (simp add: untouched_def)
    qed
    with run tr ex Inr show ?thesis
      by (cases r2) (auto simp: runSimplePhase_def Let_def case_prod_beta intro: untouched_cong)
  qed
qed

lemma in_phase_untouched:
  assumes "\<And>s r s'. untouched v0 s \<Longrightarrow> body s = (r, s') \<Longrightarrow> untouched v0 s'"
  shows "triple (untouched v0) (in_phase env opts ph body) (untouched v0) (\<lambda>e. undoable v0)"
  by (rule triple_in_phase [OF triple_keep_untouched [OF assms]]) (auto intro: untouched_cong)

lemma runPrepare_untouched:
  assumes "\<forall>c \<in> set (eo_components opts). good c" "eo_transactionId opts = tid" "no_late_effects env"
  shows "triple (untouched v0) (runPrepare env opts) (untouched v0) (\<lambda>e. undoable v0)"
  unfolding runPrepare_def
  by (rule in_phase_untouched) (use assms prepareLoop_untouched in blast)

lemma runHealth_untouched:
  assumes "no_late_effects env"
  shows "triple (untouched v0) (runHealthChecks env opts) (untouched v0) (\<lambda>e. undoable v0)"
proof -
  have "triple (untouched v0) (in_phase env opts PhHealth (healthLoop env opts es)) (untouched v0) (\<lambda>e. undoable v0)"
    if "entries_ok es" for es
    by (rule in_phase_untouched) (use that assms healthLoop_untouched in blast)
  then show ?thesis by (fastforce simp: triple_def runHealthChecks_def untouched_def)
qed

lemma runCommit_undoable:
  assumes "no_late_effects env" "undoable v0 s" "committedEntries s = []"
    and "distinct (map (owner \<circ> snd) (preparedEntries s))" "runCommit env opts s = (r, s')"
  shows "undoable v0 s'"
proof -
  have "triple (\<lambda>s1. undoable v0 s1 \<and> committedEntries s1 = [] \<and> preparedEntries s1 = preparedEntries s)
      (in_phase env opts PhCommit (commitLoop env opts (preparedEntries s))) (undoable v0) (\<lambda>e. undoable v0)"
  proof (rule triple_in_phase)
    show "triple (\<lambda>s1. undoable v0 s1 \<and> committedEntries s1 = [] \<and> preparedEntries s1 = preparedEntries s)
        (commitLoop env opts (preparedEntries s)) (undoable v0) (\<lambda>e. undoable v0)"
      by (rule tripleI)
        (use commitLoop_undoable assms(1,2,4) in \<open>fastforce simp: undoable_def\<close>)+
  qed (auto intro: undoable_cong)
  from tripleD [OF this _ assms(5) [unfolded runCommit_def]] assms(2,3) show ?thesis
    by (cases r) auto
qed

lemma undoable_transition:
  "triple (undoable v0) (do_transition env st) (undoable v0) (\<lambda>e. undoable v0)"
  by (rule tripleI) (auto dest: do_transition_frame intro: undoable_cong)

lemma commit_phase_undoable:
  assumes "no_late_effects env" "distinct (map rc_name (eo_components opts))"
  shows "triple (\<lambda>s. untouched v0 s \<and> all_prepared opts TCommitting s) (runCommit env opts)
           (undoable v0) (\<lambda>e. undoable v0)"
  unfolding triple_def
proof (intro allI impI)
  fix s r s' assume s: "untouched v0 s \<and> all_prepared opts TCommitting s" and run: "runCommit env opts s = (r, s')"
  from s have "map (owner \<circ> snd) (preparedEntries s) = map rc_name (map fst (preparedEntries s))"
    by (auto simp: untouched_def entries_ok_def)
  also have "\<dots> = map rc_name (eo_components opts)" using s by (simp add: all_prepared_def)
  finally have "distinct (map (owner \<circ> snd) (preparedEntries s))" using assms(2) by simp
  moreover have "undoable v0 s" "committedEntries s = []"
    using s by (simp_all add: untouched_undoable untouched_def)
  ultimately have "undoable v0 s'" by (intro runCommit_undoable [OF assms(1) _ _ _ run])
  then show "case r of Inl e \<Rightarrow> undoable v0 s' | Inr u \<Rightarrow> undoable v0 s'" by (cases r) simp_all
qed

definition usable :: "env \<Rightarrow> ('c, 'w, 'p) exec_options \<Rightarrow> bool" where
  "usable env opts \<longleftrightarrow>
     (\<forall>c \<in> set (eo_components opts). good c) \<and> eo_transactionId opts = tid \<and>
     inert (eo_parse opts) \<and> inert (eo_validate opts) \<and>
     distinct (map rc_name (eo_components opts)) \<and> no_late_effects env"

lemma triple_try_undoable:
  assumes "usable env opts"
  shows "triple (\<lambda>s. untouched v0 s \<and> at_state TIdle s \<and> preparedEntries s = []) (tryBlock env opts)
     (undoable v0) (\<lambda>e s. undoable v0 s \<and> fail_shape s)"
proof -
  from assms have g: "\<forall>c \<in> set (eo_components opts). good c" "eo_transactionId opts = tid"
    "inert (eo_parse opts)" "inert (eo_validate opts)" "distinct (map rc_name (eo_components opts))"
    "no_late_effects env" by (simp_all add: usable_def)
  note both = triple_conj [OF simple_phase_untouched triple_simple_phase]
  note prep = triple_conj [OF runPrepare_untouched [OF g(1,2,6)] shape_prepare]
  have com: "triple (\<lambda>s. untouched v0 s \<and> all_prepared opts TCommitting s) (runCommit env opts)
      (\<lambda>s. undoable v0 s \<and> all_committed opts TCommitting s) (\<lambda>e s. undoable v0 s \<and> fail_shape s)"
    by (rule triple_conseq [OF triple_conj [OF commit_phase_undoable [OF g(6,5)] shape_commit]]) simp_all
  show ?thesis
    unfolding tryBlock_def
    by (rule triple_seq, rule both [OF g(3,6)], simp, simp, simp)
       (rule triple_seq, rule both [OF g(4,6)], simp, simp, simp,
        rule triple_seq [OF triple_conj [OF transition_untouched shape_preparing]], rule triple_seq [OF prep],
        rule triple_seq [OF triple_conj [OF transition_untouched shape_transition [of TPrepared]]], simp,
        rule triple_seq [OF triple_conj [OF runHealth_untouched [OF g(6)] shape_health]],
        rule triple_seq [OF triple_conj [OF transition_untouched shape_transition [of TCommitting]]], simp,
        rule triple_seq [OF com], rule triple_seq [OF triple_conj [OF undoable_transition shape_committed]],
        rule triple_return, auto intro: undoable_cong)
qed

text \<open>A failed transaction leaves no trace.\<close>

theorem failure_leaves_no_trace:
  assumes start: "initialExec env opts evs m w = Inr s0" and use: "usable env opts" and w: "armed [] w"
    and run: "execute env opts s0 = (Inr False, s')" and ok: "no_rollback_errors s'"
    and voice: "speaking opts"
  shows "view (world s') = view w"
proof -
  let ?s1 = "event env opts TransactionStarted None None None None
        (s0\<lparr>metrics := transactionStarted (metrics s0)\<rparr>)"
  have at: "at_state TIdle ?s1 \<and> preparedEntries ?s1 = []" and un: "untouched (view w) ?s1"
    using initialExec_fields [OF start] w by (simp_all add: at_state_def untouched_def entries_ok_def)
  show ?thesis
  proof (rule execute_cases [OF start], goal_cases)
    case (1 s s1)
    with run show ?case by simp
  next
    case (2 e s)
    from tripleD [OF triple_try_undoable [OF use] _ 2(1), of "view w"] at un
    have s: "undoable (view w) s" "fail_shape s" by simp_all
    from tripleD [OF triple_try_speaks [OF voice] _ 2(1)] at
    have nb: "\<not> blank e" by (simp add: at_state_def)
    from s have oks: "entries_ok (preparedEntries s)" by (simp add: undoable_def)
    note eq = 2(3)
    show ?case
    proof (rule catchBlock_outcome [OF s(2) nb, of env opts], goal_cases)
      case (1 s2)
      with s(1) have "view (world s) = view w" by (auto simp: undoable_def)
      with 1 eq run show ?case
        by (auto simp: Let_def case_prod_beta runCleanup_view entries_ok_def)
    next
      case (2 s2 s3)
      let ?r = "runRollback env opts s3" and ?c = "runCleanup env opts s2"
      from 2 s have "undoable (view w) s3" by (auto intro: undoable_cong)
      moreover from 2 s(2) have "primaryFailureStage s3 \<noteq> Some FCommit \<longrightarrow> committedEntries s3 = []"
        by (auto simp: fail_shape_def)
      moreover have end': "world s' = world ?c \<and> componentErrors s' = componentErrors ?c"
        using \<open>catchBlock env opts e s = (Inr (), s2)\<close> eq run by (auto simp: Let_def case_prod_beta)
      then have "no_rollback_errors ?r"
        using ok runCleanup_shape(4) [of env opts s2] 2(11) by (auto simp: no_rollback_errors_def)
      ultimately have "view (world ?r) = view w" by (intro runRollback_view)
      with 2 end' oks show ?case by (simp add: runCleanup_view)
    qed
  qed
qed

end

end
