(* ===== verification/RoutingRuntime.thy ===== *)
theory RoutingRuntime
  imports Policy ReloadContract
begin

text \<open>
  The pair of router and policy generations that traffic uses and its transactional replacement:
  \<^verbatim>\<open>src/router/generation.ts\<close> and the adapters \<^verbatim>\<open>routerRuntimeAdapter.ts\<close> and
  \<^verbatim>\<open>policyRuntimeAdapter.ts\<close> of \<^verbatim>\<open>src/reload/adapters\<close>. The policy manager of a pair is a mutable
  object that generations can share, so a pair holds a reference into the table of managers; a
  handle returned by \<^verbatim>\<open>acquire\<close> is a reference into the table of handles.
\<close>

section \<open>The runtime\<close>

datatype routing_component = RcRouter | RcPolicy | RcOutbound

fun show_routing_component :: "routing_component \<Rightarrow> string" where
  "show_routing_component RcRouter = ''router''"
| "show_routing_component RcPolicy = ''policy''"
| "show_routing_component RcOutbound = ''outbound''"

record routing_pair =
  gp_router :: router_generation
  gp_policy :: policy_generation
  gp_manager :: nat

record routing_txn =
  rx_old :: routing_pair
  rx_expected :: "routing_component list"
  rx_committed :: "routing_component list"
  rx_routerCandidate :: "router_generation option"
  rx_policyCandidate :: "policy_generation option"
  rx_published :: bool

record routing_handle =
  rh_generation :: routing_pair
  rh_key :: string
  rh_released :: bool

record routing_runtime =
  rr_active :: routing_pair
  rr_transactions :: "(string, routing_txn) jsmap"
  rr_usage :: "(string, nat) jsmap"
  rr_draining :: "(string, routing_pair) jsmap"
  rr_handles :: "routing_handle list"
  rr_managers :: "policy_manager list"

definition pairKey :: "routing_pair \<Rightarrow> string" where
  "pairKey g = rgen_id (gp_router g) @ '':'' @ pgen_id (gp_policy g)"

definition newRoutingRuntime :: "routing_pair \<Rightarrow> policy_manager list \<Rightarrow> routing_runtime" where
  "newRoutingRuntime initial managers =
     \<lparr>rr_active = initial, rr_transactions = [], rr_usage = [], rr_draining = [], rr_handles = [],
      rr_managers = managers\<rparr>"

definition usage_of :: "routing_runtime \<Rightarrow> string \<Rightarrow> nat" where
  "usage_of rt key = (case jm_get (rr_usage rt) key of Some n \<Rightarrow> n | None \<Rightarrow> 0)"

definition rt_acquire :: "routing_runtime \<Rightarrow> nat \<times> routing_runtime" where
  "rt_acquire rt =
     (let key = pairKey (rr_active rt) in
      (length (rr_handles rt),
       rt\<lparr>rr_usage := jm_set key (usage_of rt key + 1) (rr_usage rt),
          rr_handles := rr_handles rt @ [\<lparr>rh_generation = rr_active rt, rh_key = key, rh_released = False\<rparr>]\<rparr>))"

definition rt_release :: "nat \<Rightarrow> routing_runtime \<Rightarrow> routing_runtime" where
  "rt_release i rt =
     (if i \<ge> length (rr_handles rt) \<or> rh_released (rr_handles rt ! i) then rt
      else (let h = rr_handles rt ! i; key = rh_key h;
                remaining = (case jm_get (rr_usage rt) key of Some n \<Rightarrow> n | None \<Rightarrow> 1) - 1;
                rt1 = rt\<lparr>rr_handles := (rr_handles rt)[i := h\<lparr>rh_released := True\<rparr>]\<rparr>
            in if remaining = 0
               then rt1\<lparr>rr_usage := jm_del key (rr_usage rt), rr_draining := jm_del key (rr_draining rt)\<rparr>
               else rt1\<lparr>rr_usage := jm_set key remaining (rr_usage rt)\<rparr>))"

definition rt_begin :: "string \<Rightarrow> routing_component list \<Rightarrow> routing_runtime \<Rightarrow> unit result \<times> routing_runtime" where
  "rt_begin transactionId expected rt =
     (case jm_get (rr_transactions rt) transactionId of
        Some x \<Rightarrow> (Inr (), rt)
      | None \<Rightarrow>
          if expected = [] then (Inl (ConfigError ''routing transaction requires a component''), rt)
          else (Inr (), rt\<lparr>rr_transactions := jm_set transactionId
                  \<lparr>rx_old = rr_active rt, rx_expected = expected, rx_committed = [],
                   rx_routerCandidate = None, rx_policyCandidate = None, rx_published = False\<rparr>
                  (rr_transactions rt)\<rparr>))"

definition not_initialized :: "string \<Rightarrow> js_error" where
  "not_initialized transactionId =
     ConfigError (''routing transaction '' @ quoted transactionId @ '' was not initialized'')"

text \<open>The change of one transaction; \<^verbatim>\<open>requireTransaction\<close> throws when it is missing.\<close>

definition with_txn ::
  "string \<Rightarrow> (routing_txn \<Rightarrow> routing_txn) \<Rightarrow> routing_runtime \<Rightarrow> unit result \<times> routing_runtime" where
  "with_txn transactionId f rt =
     (case jm_get (rr_transactions rt) transactionId of
        None \<Rightarrow> (Inl (not_initialized transactionId), rt)
      | Some x \<Rightarrow> (Inr (), rt\<lparr>rr_transactions := jm_set transactionId (f x) (rr_transactions rt)\<rparr>))"

definition stageRouter :: "string \<Rightarrow> router_generation \<Rightarrow> routing_runtime \<Rightarrow> unit result \<times> routing_runtime" where
  "stageRouter transactionId candidate =
     with_txn transactionId (\<lambda>x. x\<lparr>rx_routerCandidate := Some candidate\<rparr>)"

definition stagePolicy :: "string \<Rightarrow> policy_generation \<Rightarrow> routing_runtime \<Rightarrow> unit result \<times> routing_runtime" where
  "stagePolicy transactionId candidate =
     with_txn transactionId (\<lambda>x. x\<lparr>rx_policyCandidate := Some candidate\<rparr>)"

definition add_component :: "routing_component \<Rightarrow> routing_component list \<Rightarrow> routing_component list" where
  "add_component c cs = (if c \<in> set cs then cs else cs @ [c])"

text \<open>The generation a complete transaction publishes, and the managers after it.\<close>

definition next_pair :: "routing_txn \<Rightarrow> policy_manager list \<Rightarrow> routing_pair \<times> policy_manager list" where
  "next_pair x managers =
     (let rtr = (case rx_routerCandidate x of Some g \<Rightarrow> g | None \<Rightarrow> gp_router (rx_old x)) in
      case rx_policyCandidate x of
        None \<Rightarrow> (\<lparr>gp_router = rtr, gp_policy = gp_policy (rx_old x), gp_manager = gp_manager (rx_old x)\<rparr>, managers)
      | Some pol \<Rightarrow>
          (\<lparr>gp_router = rtr, gp_policy = pol, gp_manager = length managers\<rparr>, managers @ [createManager pol]))"

definition rt_commit ::
  "string \<Rightarrow> routing_component \<Rightarrow> routing_runtime \<Rightarrow> unit result \<times> routing_runtime" where
  "rt_commit transactionId component rt =
     (case jm_get (rr_transactions rt) transactionId of
        None \<Rightarrow> (Inl (not_initialized transactionId), rt)
      | Some x \<Rightarrow>
          if component \<notin> set (rx_expected x)
          then (Inl (ConfigError (''routing transaction did not expect component ''
                       @ quoted (show_routing_component component))), rt)
          else if component = RcRouter \<and> rx_routerCandidate x = None
          then (Inl (ConfigError ''routing transaction has no router candidate''), rt)
          else if component = RcPolicy \<and> rx_policyCandidate x = None
          then (Inl (ConfigError ''routing transaction has no policy candidate''), rt)
          else (let x1 = x\<lparr>rx_committed := add_component component (rx_committed x)\<rparr> in
                if list_ex (\<lambda>e. e \<notin> set (rx_committed x1)) (rx_expected x1)
                then (Inr (), rt\<lparr>rr_transactions := jm_set transactionId x1 (rr_transactions rt)\<rparr>)
                else (let (next', managers) = next_pair x1 (rr_managers rt); old = rr_active rt
                      in (Inr (), rt\<lparr>rr_active := next', rr_managers := managers,
                                 rr_draining := jm_set (pairKey old) old (rr_draining rt),
                                 rr_transactions := jm_set transactionId (x1\<lparr>rx_published := True\<rparr>)
                                   (rr_transactions rt)\<rparr>))))"

definition rt_rollback :: "string \<Rightarrow> routing_runtime \<Rightarrow> routing_runtime" where
  "rt_rollback transactionId rt =
     (case jm_get (rr_transactions rt) transactionId of
        None \<Rightarrow> rt
      | Some x \<Rightarrow>
          if rx_published x
          then rt\<lparr>rr_active := rx_old x,
                  rr_draining := jm_del (pairKey (rr_active rt)) (jm_del (pairKey (rx_old x)) (rr_draining rt)),
                  rr_transactions := jm_set transactionId (x\<lparr>rx_published := False\<rparr>) (rr_transactions rt)\<rparr>
          else rt)"

definition rt_cleanup :: "string \<Rightarrow> routing_runtime \<Rightarrow> routing_runtime" where
  "rt_cleanup transactionId rt =
     (case jm_get (rr_transactions rt) transactionId of
        None \<Rightarrow> rt
      | Some x \<Rightarrow>
          rt\<lparr>rr_draining := (if rx_published x \<and> usage_of rt (pairKey (rx_old x)) = 0
                             then jm_del (pairKey (rx_old x)) (rr_draining rt) else rr_draining rt),
             rr_transactions := jm_del transactionId (rr_transactions rt)\<rparr>)"

definition isDrainingRouter :: "string \<Rightarrow> routing_runtime \<Rightarrow> bool" where
  "isDrainingRouter i rt = list_ex (\<lambda>g. rgen_id (gp_router g) = i) (jm_vals (rr_draining rt))"

definition replaceLegacy :: "routing_pair \<Rightarrow> routing_runtime \<Rightarrow> routing_runtime" where
  "replaceLegacy next' rt =
     (let old = rr_active rt; oldKey = pairKey old in
      rt\<lparr>rr_active := next',
         rr_draining := (if usage_of rt oldKey > 0 then jm_set oldKey old (rr_draining rt) else rr_draining rt)\<rparr>)"

definition createRoutingGenerationPair ::
  "(router_config \<Rightarrow> string) \<Rightarrow> (routing_policy list \<Rightarrow> string) \<Rightarrow> string \<Rightarrow> nat \<Rightarrow> router_config \<Rightarrow> string list \<Rightarrow>
   outbound_health list \<Rightarrow> int \<Rightarrow> policy_manager list \<Rightarrow> (routing_pair \<times> policy_manager list) result" where
  "createRoutingGenerationPair rsha psha idPrefix sequence route outboundTags health now managers =
     rbind (newPolicyGeneration psha (idPrefix @ ''-policy'') sequence (rcfg_policies route) outboundTags health now) (\<lambda>pol.
     rbind (newRouterGeneration rsha (idPrefix @ ''-router'') sequence route
              (outboundTags @ map rp_tag (rcfg_policies route)) now) (\<lambda>rtr.
       Inr (\<lparr>gp_router = rtr, gp_policy = pol, gp_manager = length managers\<rparr>, managers @ [createManager pol])))"

section \<open>Transactions one at a time\<close>

text \<open>
  What the engine does with the runtime: traffic acquires and releases at any time, and one reload
  transaction runs at a time, in which each component commits once.
\<close>

inductive routing_step :: "routing_runtime \<Rightarrow> routing_runtime \<Rightarrow> bool" where
  acquire: "routing_step rt (snd (rt_acquire rt))"
| release: "routing_step rt (rt_release i rt)"
| begin_txn: "rr_transactions rt = [] \<or> jm_has (rr_transactions rt) tid \<Longrightarrow> routing_step rt (snd (rt_begin tid es rt))"
| stage_router: "routing_step rt (snd (stageRouter tid g rt))"
| stage_policy: "routing_step rt (snd (stagePolicy tid pol rt))"
| commit: "(\<And>x. jm_get (rr_transactions rt) tid = Some x \<Longrightarrow> c \<notin> set (rx_committed x)) \<Longrightarrow>
    routing_step rt (snd (rt_commit tid c rt))"
| rollback: "routing_step rt (rt_rollback tid rt)"
| cleanup: "routing_step rt (rt_cleanup tid rt)"
| replace_legacy: "rr_transactions rt = [] \<Longrightarrow> routing_step rt (replaceLegacy g rt)"

inductive_cases routing_stepE: "routing_step rt rt'"

inductive routing_reachable :: "routing_pair \<Rightarrow> policy_manager list \<Rightarrow> routing_runtime \<Rightarrow> bool"
  for g0 ms where
  start: "routing_reachable g0 ms (newRoutingRuntime g0 ms)"
| step: "routing_reachable g0 ms rt \<Longrightarrow> routing_step rt rt' \<Longrightarrow> routing_reachable g0 ms rt'"

definition open_handles :: "routing_runtime \<Rightarrow> string \<Rightarrow> nat" where
  "open_handles rt key = length (filter (\<lambda>h. \<not> rh_released h \<and> rh_key h = key) (rr_handles rt))"

definition usage_exact :: "routing_runtime \<Rightarrow> bool" where
  "usage_exact rt \<longleftrightarrow>
     jm_ok (rr_usage rt) \<and> (\<forall>key. usage_of rt key = open_handles rt key \<and> jm_get (rr_usage rt) key \<noteq> Some 0)"

definition txn_sound :: "routing_runtime \<Rightarrow> routing_txn \<Rightarrow> bool" where
  "txn_sound rt x \<longleftrightarrow>
     rx_expected x \<noteq> [] \<and>
     (if rx_published x then set (rx_expected x) \<subseteq> set (rx_committed x) else rx_old x = rr_active rt)"

definition published_old :: "routing_runtime \<Rightarrow> string \<Rightarrow> bool" where
  "published_old rt key \<longleftrightarrow>
     list_ex (\<lambda>(tid, x). rx_published x \<and> pairKey (rx_old x) = key) (rr_transactions rt)"

definition draining_justified :: "routing_runtime \<Rightarrow> bool" where
  "draining_justified rt \<longleftrightarrow>
     (\<forall>(key, g) \<in> set (rr_draining rt). pairKey g = key \<and> (usage_of rt key > 0 \<or> published_old rt key))"

definition routing_inv :: "routing_runtime \<Rightarrow> bool" where
  "routing_inv rt \<longleftrightarrow>
     usage_exact rt \<and> jm_ok (rr_draining rt) \<and> jm_ok (rr_transactions rt) \<and> length (rr_transactions rt) \<le> 1 \<and>
     (\<forall>(tid, x) \<in> set (rr_transactions rt). txn_sound rt x) \<and> draining_justified rt"

lemma usage_exact_cong:
  "rr_usage rt' = rr_usage rt \<Longrightarrow> rr_handles rt' = rr_handles rt \<Longrightarrow> usage_exact rt' = usage_exact rt"
  by (simp add: usage_exact_def usage_of_def open_handles_def)

lemma usage_of_cong: "rr_usage rt' = rr_usage rt \<Longrightarrow> usage_of rt' = usage_of rt"
  by (simp add: usage_of_def fun_eq_iff)

lemma usage_exact_acquire: "usage_exact rt \<Longrightarrow> usage_exact (snd (rt_acquire rt))"
  by (auto simp: usage_exact_def rt_acquire_def Let_def usage_of_def open_handles_def)

text \<open>The count that is left after a release.\<close>

lemma open_after_release:
  assumes "i < length (rr_handles rt)" "\<not> rh_released (rr_handles rt ! i)"
    and "rt' = rt\<lparr>rr_handles := (rr_handles rt)[i := (rr_handles rt ! i)\<lparr>rh_released := True\<rparr>]\<rparr>"
  shows "open_handles rt' key =
    (if key = rh_key (rr_handles rt ! i) then open_handles rt key - 1 else open_handles rt key)"
    and "0 < open_handles rt (rh_key (rr_handles rt ! i))"
proof -
  note upd = filter_update [OF assms(1), where P = "\<lambda>h. \<not> rh_released h \<and> rh_key h = key"
      and y = "(rr_handles rt ! i)\<lparr>rh_released := True\<rparr>"]
  show "open_handles rt' key =
    (if key = rh_key (rr_handles rt ! i) then open_handles rt key - 1 else open_handles rt key)"
    using upd assms(2,3) by (auto simp: open_handles_def)
  show "0 < open_handles rt (rh_key (rr_handles rt ! i))"
    using assms(1,2) by (auto simp: open_handles_def filter_empty_conv intro!: bexI [of _ "rr_handles rt ! i"])
qed

lemma usage_exact_release:
  assumes "usage_exact rt"
  shows "usage_exact (rt_release i rt)"
    and "\<And>key. usage_of (rt_release i rt) key < usage_of rt key \<Longrightarrow> usage_of (rt_release i rt) key = 0 \<Longrightarrow>
      \<not> jm_has (rr_draining (rt_release i rt)) key"
proof -
  show "usage_exact (rt_release i rt)"
    "\<And>key. usage_of (rt_release i rt) key < usage_of rt key \<Longrightarrow> usage_of (rt_release i rt) key = 0 \<Longrightarrow>
      \<not> jm_has (rr_draining (rt_release i rt)) key"
  proof (atomize (full), cases "i \<ge> length (rr_handles rt) \<or> rh_released (rr_handles rt ! i)")
    case True
    then show "usage_exact (rt_release i rt) \<and> (\<forall>key. usage_of (rt_release i rt) key < usage_of rt key \<longrightarrow>
        usage_of (rt_release i rt) key = 0 \<longrightarrow> \<not> jm_has (rr_draining (rt_release i rt)) key)"
      using assms by (simp add: rt_release_def)
  next
    case False
    define h where "h = rr_handles rt ! i"
    define rt1 where "rt1 = rt\<lparr>rr_handles := (rr_handles rt)[i := h\<lparr>rh_released := True\<rparr>]\<rparr>"
    from False have i: "i < length (rr_handles rt)" "\<not> rh_released (rr_handles rt ! i)" by auto
    note left = open_after_release [OF i rt1_def [unfolded h_def]]
    have pos: "0 < usage_of rt (rh_key h)" using left(2) assms by (simp add: usage_exact_def h_def)
    then obtain n where n: "jm_get (rr_usage rt) (rh_key h) = Some n" "0 < n"
      by (auto simp: usage_of_def split: option.splits)
    have eq: "rt_release i rt =
        (if n = 1 then rt1\<lparr>rr_usage := jm_del (rh_key h) (rr_usage rt), rr_draining := jm_del (rh_key h) (rr_draining rt)\<rparr>
         else rt1\<lparr>rr_usage := jm_set (rh_key h) (n - 1) (rr_usage rt)\<rparr>)"
      using False n by (auto simp: rt_release_def Let_def h_def rt1_def)
    have opn: "open_handles (rt_release i rt) key = open_handles rt1 key" for key
      by (simp add: eq open_handles_def)
    have use: "usage_of (rt_release i rt) key = (if key = rh_key h then n - 1 else usage_of rt key)" for key
      using n by (auto simp: eq usage_of_def)
    have "usage_of rt (rh_key h) = n" using n by (simp add: usage_of_def)
    with assms have on: "open_handles rt (rh_key h) = n" by (simp add: usage_exact_def)
    have "usage_of (rt_release i rt) key = open_handles (rt_release i rt) key" for key
      using assms left(1) [of key] on by (simp add: opn use usage_exact_def h_def [symmetric])
    moreover have "jm_get (rr_usage (rt_release i rt)) key \<noteq> Some 0" for key
      using assms n by (auto simp: eq rt1_def usage_exact_def)
    moreover have "jm_ok (rr_usage (rt_release i rt))"
      using assms by (auto simp: eq usage_exact_def rt1_def)
    moreover have "\<not> jm_has (rr_draining (rt_release i rt)) key"
      if "usage_of (rt_release i rt) key < usage_of rt key" "usage_of (rt_release i rt) key = 0" for key
    proof -
      from that n have "key = rh_key h" "n = 1" by (auto simp: use split: if_splits)
      then show ?thesis by (simp add: eq)
    qed
    ultimately show "usage_exact (rt_release i rt) \<and> (\<forall>key. usage_of (rt_release i rt) key < usage_of rt key \<longrightarrow>
        usage_of (rt_release i rt) key = 0 \<longrightarrow> \<not> jm_has (rr_draining (rt_release i rt)) key)"
      by (simp add: usage_exact_def)
  qed
qed

lemma release_fields:
  "rr_active (rt_release i rt) = rr_active rt" "rr_transactions (rt_release i rt) = rr_transactions rt"
  "set (rr_draining (rt_release i rt)) \<subseteq> set (rr_draining rt)"
  "jm_ok (rr_draining rt) \<Longrightarrow> jm_ok (rr_draining (rt_release i rt))"
  by (auto simp: rt_release_def Let_def set_jm_del)

lemma usage_exact_other:
  "usage_exact (snd (rt_begin tid es rt)) = usage_exact rt"
  "usage_exact (snd (with_txn tid f rt)) = usage_exact rt"
  "usage_exact (snd (rt_commit tid c rt)) = usage_exact rt"
  "usage_exact (rt_rollback tid rt) = usage_exact rt"
  "usage_exact (rt_cleanup tid rt) = usage_exact rt"
  "usage_exact (replaceLegacy g rt) = usage_exact rt"
  by (rule usage_exact_cong;
      simp add: rt_begin_def with_txn_def rt_commit_def rt_rollback_def rt_cleanup_def replaceLegacy_def Let_def
        case_prod_beta split: option.splits)+

text \<open>With at most one transaction open, its entry is the whole map.\<close>

lemma single_txn:
  assumes "length (rr_transactions rt) \<le> 1" "jm_get (rr_transactions rt) tid = Some x"
  shows "rr_transactions rt = [(tid, x)]"
proof (cases "rr_transactions rt")
  case (Cons p ps)
  with assms show ?thesis by (cases p) (auto split: if_splits)
qed (use assms in simp)

lemma txn_sound_cong: "rr_active rt' = rr_active rt \<Longrightarrow> txn_sound rt' = txn_sound rt"
  by (simp add: txn_sound_def fun_eq_iff)

lemma jm_ok_single: "jm_ok [(k, v)]"
  by (simp add: jm_ok_def)

lemma inv_txns_cong:
  assumes "routing_inv rt" "rr_active rt' = rr_active rt" "rr_transactions rt' = rr_transactions rt"
    and "usage_exact rt'" "jm_ok (rr_draining rt')" "draining_justified rt'"
  shows "routing_inv rt'"
  using assms(1,3-6) by (simp add: routing_inv_def txn_sound_cong [OF assms(2)])

lemma inv_single:
  assumes "usage_exact rt" "jm_ok (rr_draining rt)" "rr_transactions rt = [(tid, x)]" "txn_sound rt x"
    and "draining_justified rt"
  shows "routing_inv rt"
  using assms by (simp add: routing_inv_def jm_ok_single)

lemma draining_justified_mono:
  assumes "draining_justified rt" "set (rr_draining rt') \<subseteq> set (rr_draining rt)"
    and "\<And>key g. (key, g) \<in> set (rr_draining rt') \<Longrightarrow> 0 < usage_of rt key \<Longrightarrow> 0 < usage_of rt' key"
    and "\<And>key. published_old rt key \<Longrightarrow> published_old rt' key"
  shows "draining_justified rt'"
  unfolding draining_justified_def
proof clarify
  fix key g assume d: "(key, g) \<in> set (rr_draining rt')"
  with assms(1,2) have g: "pairKey g = key" "usage_of rt key > 0 \<or> published_old rt key"
    by (auto simp: draining_justified_def)
  show "pairKey g = key \<and> (0 < usage_of rt' key \<or> published_old rt' key)"
    using g assms(3) [OF d] assms(4) by blast
qed

lemma published_old_cong: "rr_transactions rt' = rr_transactions rt \<Longrightarrow> published_old rt' = published_old rt"
  by (simp add: published_old_def fun_eq_iff)

lemma routing_inv_acquire:
  assumes "routing_inv rt"
  shows "routing_inv (snd (rt_acquire rt))"
proof (rule inv_txns_cong [OF assms])
  show "draining_justified (snd (rt_acquire rt))"
    by (rule draining_justified_mono [of rt])
       (use assms in \<open>auto simp: routing_inv_def rt_acquire_def Let_def usage_of_def published_old_def\<close>)
  show "usage_exact (snd (rt_acquire rt))"
    using assms by (simp add: routing_inv_def usage_exact_acquire)
qed (use assms in \<open>simp_all add: rt_acquire_def Let_def routing_inv_def\<close>)

lemma routing_inv_release:
  assumes "routing_inv rt"
  shows "routing_inv (rt_release i rt)"
proof (rule inv_txns_cong [OF assms])
  from assms have ue: "usage_exact rt" by (simp add: routing_inv_def)
  show "usage_exact (rt_release i rt)" by (rule usage_exact_release(1) [OF ue])
  show "draining_justified (rt_release i rt)"
  proof (rule draining_justified_mono [of rt])
    fix key g assume d: "(key, g) \<in> set (rr_draining (rt_release i rt))" "0 < usage_of rt key"
    then have "jm_has (rr_draining (rt_release i rt)) key" by (force simp: jm_has_def)
    with usage_exact_release(2) [OF ue, of i key] d(2) show "0 < usage_of (rt_release i rt) key"
      by (cases "usage_of (rt_release i rt) key") auto
  qed (use assms release_fields published_old_cong [OF release_fields(2)] in \<open>auto simp: routing_inv_def\<close>)
qed (use assms release_fields in \<open>auto simp: routing_inv_def\<close>)

lemma routing_inv_begin:
  assumes "routing_inv rt" "rr_transactions rt = [] \<or> jm_has (rr_transactions rt) tid"
  shows "routing_inv (snd (rt_begin tid es rt))"
proof (cases "jm_get (rr_transactions rt) tid")
  case None
  with assms have e: "rr_transactions rt = []" by (auto simp: jm_has_get)
  show ?thesis
  proof (cases "es = []")
    case False
    let ?rt = "snd (rt_begin tid es rt)"
    have "draining_justified ?rt"
      by (rule draining_justified_mono [of rt])
         (use assms(1) e False in \<open>auto simp: routing_inv_def rt_begin_def usage_of_def published_old_def\<close>)
    then show ?thesis
      using assms(1) e False usage_exact_other(1) [of tid es rt]
      by (intro inv_single [where tid = tid and x = "\<lparr>rx_old = rr_active rt, rx_expected = es, rx_committed = [],
            rx_routerCandidate = None, rx_policyCandidate = None, rx_published = False\<rparr>"])
         (simp_all add: routing_inv_def txn_sound_def, simp_all add: rt_begin_def)
  qed (use assms None in \<open>simp add: rt_begin_def\<close>)
qed (use assms in \<open>simp add: rt_begin_def\<close>)

lemma routing_inv_with_txn:
  assumes "routing_inv rt" "\<And>x. rx_old (f x) = rx_old x \<and> rx_expected (f x) = rx_expected x \<and>
      rx_committed (f x) = rx_committed x \<and> rx_published (f x) = rx_published x"
  shows "routing_inv (snd (with_txn tid f rt))"
proof (cases "jm_get (rr_transactions rt) tid")
  case (Some x)
  from assms(1) have one: "rr_transactions rt = [(tid, x)]"
    by (intro single_txn [OF _ Some]) (simp add: routing_inv_def)
  let ?rt = "snd (with_txn tid f rt)"
  have rt: "?rt = rt\<lparr>rr_transactions := [(tid, f x)]\<rparr>" by (simp add: with_txn_def one)
  show ?thesis
  proof (rule inv_single)
    show "usage_exact ?rt" using usage_exact_other(2) assms(1) by (simp add: routing_inv_def)
    show "txn_sound ?rt (f x)" using assms one by (simp add: rt routing_inv_def txn_sound_def)
    show "draining_justified ?rt"
      by (rule draining_justified_mono [of rt])
        (use assms(1) in \<open>auto simp: rt routing_inv_def one assms(2) usage_of_def published_old_def\<close>)
  qed (use assms(1) in \<open>simp_all add: rt routing_inv_def\<close>)
qed (use assms(1) in \<open>simp add: with_txn_def\<close>)

lemma routing_inv_commit:
  assumes "routing_inv rt" "\<And>x. jm_get (rr_transactions rt) tid = Some x \<Longrightarrow> c \<notin> set (rx_committed x)"
  shows "routing_inv (snd (rt_commit tid c rt))"
proof (cases "jm_get (rr_transactions rt) tid")
  case (Some x)
  from assms(1) have one: "rr_transactions rt = [(tid, x)]"
    by (intro single_txn [OF _ Some]) (simp add: routing_inv_def)
  with assms(1) have x: "txn_sound rt x" and dok: "jm_ok (rr_draining rt)" and dj: "draining_justified rt"
    and ue: "usage_exact (snd (rt_commit tid c rt))"
    by (simp_all add: routing_inv_def usage_exact_other)
  let ?rt = "snd (rt_commit tid c rt)"
  show ?thesis
  proof (cases "c \<notin> set (rx_expected x) \<or> c = RcRouter \<and> rx_routerCandidate x = None \<or> c = RcPolicy \<and> rx_policyCandidate x = None")
    case True
    with Some assms(1) show ?thesis by (auto simp: rt_commit_def)
  next
    case False
    with x assms(2) [OF Some] have unp: "\<not> rx_published x" "rx_old x = rr_active rt"
      by (auto simp: txn_sound_def split: if_splits)
    let ?x1 = "x\<lparr>rx_committed := add_component c (rx_committed x)\<rparr>"
    show ?thesis
    proof (cases "list_ex (\<lambda>e. e \<notin> set (rx_committed ?x1)) (rx_expected x)")
      case True
      with False Some one have rt: "?rt = rt\<lparr>rr_transactions := [(tid, ?x1)]\<rparr>"
        by (auto simp: rt_commit_def Let_def)
      show ?thesis
      proof (rule inv_single [OF ue])
        show "draining_justified ?rt"
          by (rule draining_justified_mono [OF dj]) (auto simp: rt one usage_of_def published_old_def)
        show "rr_transactions ?rt = [(tid, ?x1)]" by (simp add: rt)
        show "txn_sound ?rt ?x1" using x unp by (simp add: rt txn_sound_def)
      qed (use dok in \<open>simp add: rt\<close>)
    next
      case complete: False
      have f: "rr_transactions ?rt = [(tid, ?x1\<lparr>rx_published := True\<rparr>)]" "rr_usage ?rt = rr_usage rt"
        "rr_draining ?rt = jm_set (pairKey (rr_active rt)) (rr_active rt) (rr_draining rt)"
        using False complete Some one by (auto simp: rt_commit_def Let_def case_prod_beta)
      show ?thesis
      proof (rule inv_single [OF ue _ f(1)])
        show "draining_justified ?rt"
          using dj one unp
          by (auto simp: draining_justified_def f set_jm_set [OF dok] usage_of_cong [OF f(2)] published_old_def)
      qed (use complete x dok in \<open>auto simp: f txn_sound_def list_ex_iff\<close>)
    qed
  qed
qed (use assms(1) in \<open>simp add: rt_commit_def\<close>)

lemma routing_inv_rollback:
  assumes "routing_inv rt"
  shows "routing_inv (rt_rollback tid rt)"
proof (cases "jm_get (rr_transactions rt) tid")
  case (Some x)
  from assms have one: "rr_transactions rt = [(tid, x)]"
    by (intro single_txn [OF _ Some]) (simp add: routing_inv_def)
  show ?thesis
  proof (cases "rx_published x")
    case True
    let ?d = "jm_del (pairKey (rr_active rt)) (jm_del (pairKey (rx_old x)) (rr_draining rt))"
    have rt: "rt_rollback tid rt = rt\<lparr>rr_active := rx_old x, rr_draining := ?d,
        rr_transactions := [(tid, x\<lparr>rx_published := False\<rparr>)]\<rparr>"
      using True by (simp add: rt_rollback_def one)
    have "draining_justified rt" using assms by (simp add: routing_inv_def)
    then have "draining_justified (rt_rollback tid rt)"
      by (auto simp: draining_justified_def rt set_jm_del one usage_of_def published_old_def)
    with assms show ?thesis
      by (intro inv_single [where tid = tid and x = "x\<lparr>rx_published := False\<rparr>"])
         (simp_all add: routing_inv_def usage_exact_other(4), simp_all add: rt txn_sound_def one)
  qed (use assms Some in \<open>simp add: rt_rollback_def\<close>)
qed (use assms in \<open>simp add: rt_rollback_def\<close>)

lemma routing_inv_cleanup:
  assumes "routing_inv rt"
  shows "routing_inv (rt_cleanup tid rt)"
proof (cases "jm_get (rr_transactions rt) tid")
  case (Some x)
  from assms have one: "rr_transactions rt = [(tid, x)]"
    by (intro single_txn [OF _ Some]) (simp add: routing_inv_def)
  have f: "rr_transactions (rt_cleanup tid rt) = []" "rr_usage (rt_cleanup tid rt) = rr_usage rt"
    "rr_draining (rt_cleanup tid rt) = (if rx_published x \<and> usage_of rt (pairKey (rx_old x)) = 0
       then jm_del (pairKey (rx_old x)) (rr_draining rt) else rr_draining rt)"
    by (simp_all add: rt_cleanup_def one)
  have "draining_justified rt" using assms by (simp add: routing_inv_def)
  then have "draining_justified (rt_cleanup tid rt)"
    by (auto simp: draining_justified_def f set_jm_del one usage_of_cong [OF f(2)] published_old_def)
  with assms show ?thesis by (simp add: routing_inv_def usage_exact_other f)
qed (use assms in \<open>simp add: rt_cleanup_def\<close>)

lemma routing_inv_legacy:
  assumes "routing_inv rt" "rr_transactions rt = []"
  shows "routing_inv (replaceLegacy g rt)"
proof -
  from assms have dok: "jm_ok (rr_draining rt)" by (simp add: routing_inv_def)
  from assms have "draining_justified (replaceLegacy g rt)"
    by (auto simp: routing_inv_def draining_justified_def replaceLegacy_def Let_def set_jm_set [OF dok] usage_of_def published_old_def)
  with assms show ?thesis by (simp add: routing_inv_def usage_exact_other) (simp add: replaceLegacy_def Let_def)
qed

lemma routing_inv_step: "routing_step rt rt' \<Longrightarrow> routing_inv rt \<Longrightarrow> routing_inv rt'"
  by (erule routing_stepE)
     (auto simp: stageRouter_def stagePolicy_def intro: routing_inv_acquire routing_inv_release routing_inv_begin
       routing_inv_with_txn routing_inv_commit routing_inv_rollback routing_inv_cleanup routing_inv_legacy)

lemma routing_inv_reachable: "routing_reachable g0 ms rt \<Longrightarrow> routing_inv rt"
proof (induction rule: routing_reachable.induct)
  case start
  show ?case
    by (simp add: routing_inv_def newRoutingRuntime_def usage_exact_def usage_of_def open_handles_def draining_justified_def)
qed (rule routing_inv_step)

section \<open>No generation leaks\<close>

text \<open>Property C3. Reference counting of routing generations is exact and nothing leaks: as long as reload
  transactions run one at a time, the count kept for a generation is the number of unreleased
  handles on it, and when no transaction is open, every generation still draining is held by one of
  them. In particular the last release leaves no draining generation behind.\<close>

theorem routing_no_leak:
  assumes "routing_reachable g0 ms rt"
  shows "(\<forall>key. (case jm_get (rr_usage rt) key of Some n \<Rightarrow> n | None \<Rightarrow> 0) =
       length (filter (\<lambda>h. \<not> rh_released h \<and> rh_key h = key) (rr_handles rt))) \<and>
    (rr_transactions rt = [] \<longrightarrow>
       (\<forall>(key, g) \<in> set (rr_draining rt). pairKey g = key \<and>
          (\<exists>h \<in> set (rr_handles rt). \<not> rh_released h \<and> rh_key h = key)))"
proof -
  have inv: "routing_inv rt" by (rule routing_inv_reachable [OF assms])
  then have u: "usage_of rt key = open_handles rt key" for key by (simp add: routing_inv_def usage_exact_def)
  have "pairKey g = key \<and> (\<exists>h \<in> set (rr_handles rt). \<not> rh_released h \<and> rh_key h = key)"
    if "rr_transactions rt = []" "(key, g) \<in> set (rr_draining rt)" for key g
  proof -
    from that inv have "pairKey g = key" "0 < open_handles rt key"
      by (auto simp: routing_inv_def draining_justified_def published_old_def simp flip: u)
    then show ?thesis by (auto simp: open_handles_def filter_empty_conv)
  qed
  with u show ?thesis by (auto simp: usage_of_def open_handles_def)
qed

end
