(* ===== verification/RoutingAdapters.thy ===== *)
theory RoutingAdapters
  imports RoutingRuntime
begin

text \<open>
  The adapters that put the routing runtime under the reload executor
  (\<^verbatim>\<open>src/reload/adapters/routerRuntimeAdapter.ts\<close> and \<^verbatim>\<open>policyRuntimeAdapter.ts\<close>), and the
  proof that they meet the contract of a reloadable component. The host supplies the configuration's
  routes and outbound tags, the hashes, the clock and the random number. Prepared values live in
  the world (their \<^verbatim>\<open>committed\<close> flag is set in place); a prepared component is a reference to one.
\<close>

section \<open>The adapters\<close>

record 'c routing_host =
  host_route :: "'c \<Rightarrow> router_config"
  host_outboundTags :: "'c \<Rightarrow> string list"
  host_routerHash :: "router_config \<Rightarrow> string"
  host_policyHash :: "routing_policy list \<Rightarrow> string"
  host_now :: int
  host_random :: rat

datatype prepared_candidate = RouterCandidate router_generation | PolicyCandidate policy_generation

record routing_prepared =
  rpv_candidate :: prepared_candidate
  rpv_transactionId :: string
  rpv_committed :: bool

record routing_world =
  rw_runtime :: routing_runtime
  rw_prepared :: "routing_prepared list"

record prepared_component =
  pc_component :: reload_component_name
  pc_ref :: nat

definition dangling :: js_error where
  "dangling = TypeError ''Cannot read properties of undefined''"

definition with_prepared ::
  "prepared_component \<Rightarrow> (routing_prepared \<Rightarrow> routing_world \<Rightarrow> unit result \<times> routing_world) \<Rightarrow>
   routing_world \<Rightarrow> unit result \<times> routing_world" where
  "with_prepared p f w =
     (if pc_ref p < length (rw_prepared w) then f (rw_prepared w ! pc_ref p) w else (Inl dangling, w))"

definition set_committed :: "prepared_component \<Rightarrow> bool \<Rightarrow> routing_world \<Rightarrow> routing_world" where
  "set_committed p b w =
     w\<lparr>rw_prepared := (rw_prepared w)[pc_ref p := (rw_prepared w ! pc_ref p)\<lparr>rpv_committed := b\<rparr>]\<rparr>"

definition stage_candidate ::
  "reload_component_name \<Rightarrow> prepared_candidate \<Rightarrow> routing_component list \<Rightarrow>
   (string \<Rightarrow> routing_runtime \<Rightarrow> unit result \<times> routing_runtime) \<Rightarrow> op_context \<Rightarrow> routing_world \<Rightarrow>
   prepared_component result \<times> routing_world" where
  "stage_candidate name candidate expected stage ctx w =
     (let (r1, rt1) = rt_begin (oc_transactionId ctx) expected (rw_runtime w) in
      case r1 of
        Inl e \<Rightarrow> (Inl e, w\<lparr>rw_runtime := rt1\<rparr>)
      | Inr u \<Rightarrow>
          (let (r2, rt2) = stage (oc_transactionId ctx) rt1 in
           case r2 of
             Inl e \<Rightarrow> (Inl e, w\<lparr>rw_runtime := rt2\<rparr>)
           | Inr u \<Rightarrow>
               (Inr \<lparr>pc_component = name, pc_ref = length (rw_prepared w)\<rparr>,
                w\<lparr>rw_runtime := rt2, rw_prepared := rw_prepared w
                    @ [\<lparr>rpv_candidate = candidate, rpv_transactionId = oc_transactionId ctx,
                        rpv_committed = False\<rparr>]\<rparr>)))"

definition router_prepare ::
  "'c routing_host \<Rightarrow> routing_component list \<Rightarrow> 'c \<Rightarrow> op_context \<Rightarrow> routing_world \<Rightarrow>
   prepared_component result \<times> routing_world" where
  "router_prepare host expected config ctx w =
     (let oldGeneration = gp_router (rr_active (rw_runtime w)); route = host_route host config in
      case newRouterGeneration (host_routerHash host) (oc_candidateGenerationId ctx @ ''-router'')
             (rgen_sequence oldGeneration + 1) route
             (host_outboundTags host config @ map rp_tag (rcfg_policies route)) (host_now host) of
        Inl e \<Rightarrow> (Inl e, w)
      | Inr g \<Rightarrow> stage_candidate CRouter (RouterCandidate g) expected (\<lambda>tid. stageRouter tid g) ctx w)"

definition health_request :: "string \<Rightarrow> nat \<Rightarrow> proxy_request" where
  "health_request host port =
     \<lparr>pr_id = ''router-runtime-health'', pr_inboundTag = ''reload-health'', pr_network = Tcp,
      pr_destination = makeDestination host port, pr_startedAt = 0\<rparr>"

definition router_health :: "prepared_component \<Rightarrow> routing_world \<Rightarrow> unit result \<times> routing_world" where
  "router_health p = with_prepared p (\<lambda>v w.
     (case rpv_candidate v of
        RouterCandidate g \<Rightarrow>
          if list_all (\<lambda>s. rgen_match g s = rgen_match g s)
               [health_request ''example.test'' 443, health_request ''198.51.100.10'' 80,
                health_request ''203.0.113.20'' 53]
          then Inr () else Inl (PlainError ''router candidate produced a non-deterministic match'')
      | PolicyCandidate g \<Rightarrow> Inl dangling, w))"

definition policy_prepare ::
  "'c routing_host \<Rightarrow> routing_component list \<Rightarrow> 'c \<Rightarrow> op_context \<Rightarrow> routing_world \<Rightarrow>
   prepared_component result \<times> routing_world" where
  "policy_prepare host expected config ctx w =
     (let active = rr_active (rw_runtime w);
          health = (case drop (gp_manager active) (rr_managers (rw_runtime w)) of
                      m # ms \<Rightarrow> getHealthSnapshots m | [] \<Rightarrow> [])
      in case newPolicyGeneration (host_policyHash host) (oc_candidateGenerationId ctx @ ''-policy'')
                (pgen_sequence (gp_policy active) + 1) (rcfg_policies (host_route host config))
                (host_outboundTags host config) health (host_now host) of
           Inl e \<Rightarrow> (Inl e, w)
         | Inr g \<Rightarrow> stage_candidate CPolicyProber (PolicyCandidate g) expected (\<lambda>tid. stagePolicy tid g) ctx w)"

fun check_policies :: "int \<Rightarrow> rat \<Rightarrow> policy_generation \<Rightarrow> routing_policy list \<Rightarrow> unit result" where
  "check_policies now rnd g [] = Inr ()"
| "check_policies now rnd g (p # ps) =
     (let selection = selectForHealthCheck now rnd g (rp_tag p) in
      if ps_candidates selection = []
      then Inl (PlainError (''policy candidate '' @ quoted (rp_tag p) @ '' has no selectable outbound''))
      else if rp_type p = Failover \<and> length (ps_candidates selection) < 2
      then Inl (PlainError (''failover policy candidate '' @ quoted (rp_tag p) @ '' has no fallback''))
      else check_policies now rnd g ps)"

definition policy_health :: "'c routing_host \<Rightarrow> prepared_component \<Rightarrow> routing_world \<Rightarrow> unit result \<times> routing_world" where
  "policy_health host p = with_prepared p (\<lambda>v w.
     (case rpv_candidate v of
        PolicyCandidate g \<Rightarrow> check_policies (host_now host) (host_random host) g (pgen_policies g)
      | RouterCandidate g \<Rightarrow> Inl dangling, w))"

definition routing_commit ::
  "routing_component \<Rightarrow> prepared_component \<Rightarrow> routing_world \<Rightarrow> unit result \<times> routing_world" where
  "routing_commit component p = with_prepared p (\<lambda>v w.
     (let (r, rt) = rt_commit (rpv_transactionId v) component (rw_runtime w) in
      case r of
        Inl e \<Rightarrow> (Inl e, w\<lparr>rw_runtime := rt\<rparr>)
      | Inr u \<Rightarrow> (Inr (), set_committed p True (w\<lparr>rw_runtime := rt\<rparr>))))"

definition routing_rollback :: "prepared_component \<Rightarrow> routing_world \<Rightarrow> unit result \<times> routing_world" where
  "routing_rollback p = with_prepared p (\<lambda>v w.
     (Inr (), set_committed p False (w\<lparr>rw_runtime := rt_rollback (rpv_transactionId v) (rw_runtime w)\<rparr>)))"

definition routing_cleanup :: "prepared_component \<Rightarrow> routing_world \<Rightarrow> unit result \<times> routing_world" where
  "routing_cleanup p = with_prepared p (\<lambda>v w.
     (Inr (), w\<lparr>rw_runtime := rt_cleanup (rpv_transactionId v) (rw_runtime w)\<rparr>))"

definition routerRuntimeAdapter ::
  "'c routing_host \<Rightarrow> routing_component list \<Rightarrow> ('c, routing_world, prepared_component) reloadable" where
  "routerRuntimeAdapter host expected =
     \<lparr>rc_name = CRouter, rc_prepare = router_prepare host expected,
      rc_health = (\<lambda>p ctx. router_health p), rc_commit = (\<lambda>p ctx. routing_commit RcRouter p),
      rc_rollback = (\<lambda>p ctx. routing_rollback p), rc_cleanup = (\<lambda>p ctx. routing_cleanup p)\<rparr>"

definition policyRuntimeAdapter ::
  "'c routing_host \<Rightarrow> routing_component list \<Rightarrow> ('c, routing_world, prepared_component) reloadable" where
  "policyRuntimeAdapter host expected =
     \<lparr>rc_name = CPolicyProber, rc_prepare = policy_prepare host expected,
      rc_health = (\<lambda>p ctx. policy_health host p), rc_commit = (\<lambda>p ctx. routing_commit RcPolicy p),
      rc_rollback = (\<lambda>p ctx. routing_rollback p), rc_cleanup = (\<lambda>p ctx. routing_cleanup p)\<rparr>"

section \<open>They meet the contract\<close>

definition routing_adapter :: "('c, routing_world, prepared_component) reloadable \<Rightarrow> bool" where
  "routing_adapter c \<longleftrightarrow>
     (\<exists>host expected. c = routerRuntimeAdapter host expected \<or> c = policyRuntimeAdapter host expected)"

definition routing_view :: "routing_world \<Rightarrow> routing_pair" where
  "routing_view w = rr_active (rw_runtime w)"

fun component_of :: "reload_component_name \<Rightarrow> routing_component" where
  "component_of CRouter = RcRouter"
| "component_of CPolicyProber = RcPolicy"
| "component_of n = RcOutbound"

definition own_prepared :: "string \<Rightarrow> routing_world \<Rightarrow> bool" where
  "own_prepared tid w \<longleftrightarrow> (\<forall>v \<in> set (rw_prepared w). rpv_transactionId v = tid)"

definition routing_undoing :: "string \<Rightarrow> (prepared_component \<times> routing_pair) list \<Rightarrow> routing_world \<Rightarrow> bool" where
  "routing_undoing tid st w \<longleftrightarrow> own_prepared tid w \<and>
     (case jm_get (rr_transactions (rw_runtime w)) tid of
        None \<Rightarrow> st = []
      | Some x \<Rightarrow> (\<forall>(p, v) \<in> set st. v = rx_old x) \<and>
                  (if rx_published x then st \<noteq> [] else rx_old x = routing_view w))"

definition routing_armed :: "string \<Rightarrow> (prepared_component \<times> routing_pair) list \<Rightarrow> routing_world \<Rightarrow> bool" where
  "routing_armed tid st w \<longleftrightarrow> routing_undoing tid st w \<and>
     (\<forall>x. jm_get (rr_transactions (rw_runtime w)) tid = Some x \<longrightarrow>
        rx_expected x \<noteq> [] \<and> set (rx_committed x) = (\<lambda>(p, v). component_of (pc_component p)) ` set st \<and>
        (\<forall>(p, v) \<in> set st. pc_component p \<in> {CRouter, CPolicyProber}) \<and>
        (rx_published x \<longleftrightarrow> set (rx_expected x) \<subseteq> set (rx_committed x)))"

lemma own_prepared_nth: "own_prepared tid w \<Longrightarrow> i < length (rw_prepared w) \<Longrightarrow> rpv_transactionId (rw_prepared w ! i) = tid"
  by (auto simp: own_prepared_def)

lemma own_prepared_runtime [simp]: "own_prepared tid (w\<lparr>rw_runtime := rt\<rparr>) = own_prepared tid w"
  by (simp add: own_prepared_def)

lemma set_committed_facts:
  "rw_runtime (set_committed p b w) = rw_runtime w"
  "own_prepared tid w \<Longrightarrow> pc_ref p < length (rw_prepared w) \<Longrightarrow> own_prepared tid (set_committed p b w)"
  by (auto simp: set_committed_def own_prepared_def dest!: set_update_subset_insert [THEN subsetD])

text \<open>What one call of the runtime does to the transaction of the reload.\<close>

definition fresh_txn :: "string \<Rightarrow> routing_runtime \<Rightarrow> bool" where
  "fresh_txn tid rt \<longleftrightarrow>
     (\<forall>x. jm_get (rr_transactions rt) tid = Some x \<longrightarrow>
        rx_old x = rr_active rt \<and> rx_expected x \<noteq> [] \<and> rx_committed x = [] \<and> \<not> rx_published x)"

lemma armed_Nil_iff: "routing_armed tid [] w \<longleftrightarrow> own_prepared tid w \<and> fresh_txn tid (rw_runtime w)"
  by (auto simp: routing_armed_def routing_undoing_def fresh_txn_def routing_view_def split: option.splits)

lemma fresh_begin:
  "fresh_txn tid rt \<Longrightarrow> rt_begin tid es rt = (r, rt') \<Longrightarrow> fresh_txn tid rt' \<and> rr_active rt' = rr_active rt"
  by (auto simp: fresh_txn_def rt_begin_def split: option.splits if_splits)

lemma fresh_with_txn:
  assumes "fresh_txn tid rt" "with_txn tid f rt = (r, rt')"
    and "\<And>x. rx_old (f x) = rx_old x \<and> rx_expected (f x) = rx_expected x \<and>
      rx_committed (f x) = rx_committed x \<and> rx_published (f x) = rx_published x"
  shows "fresh_txn tid rt' \<and> rr_active rt' = rr_active rt"
proof (cases "jm_get (rr_transactions rt) tid")
  case None
  with assms(1,2) show ?thesis by (simp add: with_txn_def)
next
  case (Some x)
  with assms(1) have "rx_old x = rr_active rt \<and> rx_expected x \<noteq> [] \<and> rx_committed x = [] \<and> \<not> rx_published x"
    by (simp add: fresh_txn_def)
  with assms(3) [of x] Some assms(2) show ?thesis by (auto simp: with_txn_def fresh_txn_def)
qed

lemma stage_candidate_keeps:
  assumes "routing_armed tid [] w" "oc_transactionId ctx = tid"
    and "\<And>rt r rt'. fresh_txn tid rt \<Longrightarrow> stage tid rt = (r, rt') \<Longrightarrow> fresh_txn tid rt' \<and> rr_active rt' = rr_active rt"
    and "stage_candidate name cand expected stage ctx w = (r, w')"
  shows "routing_armed tid [] w' \<and> routing_view w' = routing_view w \<and> (\<forall>p. r = Inr p \<longrightarrow> pc_component p = name)"
proof -
  from assms(1) have own: "own_prepared tid w" and fr: "fresh_txn tid (rw_runtime w)" by (simp_all add: armed_Nil_iff)
  obtain r1 rt1 where b: "rt_begin tid expected (rw_runtime w) = (r1, rt1)" by fastforce
  note f1 = fresh_begin [OF fr b]
  obtain r2 rt2 where s: "stage tid rt1 = (r2, rt2)" by fastforce
  note f2 = assms(3) [OF f1 [THEN conjunct1] s]
  show ?thesis
    using assms(2,4) b s f1 f2 own
    by (auto simp: stage_candidate_def armed_Nil_iff own_prepared_def routing_view_def split: sum.splits)
qed

lemma routing_prepare_law:
  assumes "routing_adapter c" "oc_transactionId ctx = tid" "routing_armed tid [] w" "rc_prepare c cfg ctx w = (r, w')"
  shows "routing_armed tid [] w' \<and> routing_view w' = routing_view w \<and> (\<forall>p. r = Inr p \<longrightarrow> pc_component p = rc_name c)"
proof -
  from assms(1) consider (router) host es where "c = routerRuntimeAdapter host es"
    | (policy) host es where "c = policyRuntimeAdapter host es" by (auto simp: routing_adapter_def)
  then show ?thesis
  proof cases
    case router
    have st: "fresh_txn tid rt' \<and> rr_active rt' = rr_active rt" if "fresh_txn tid rt" "stageRouter tid g rt = (r, rt')" for g rt r rt'
      by (rule fresh_with_txn [OF that(1) that(2) [unfolded stageRouter_def]]) simp
    show ?thesis
      using assms(3,4) router stage_candidate_keeps [OF assms(3,2) st]
      by (auto simp: routerRuntimeAdapter_def router_prepare_def Let_def split: sum.splits)
  next
    case policy
    have st: "fresh_txn tid rt' \<and> rr_active rt' = rr_active rt" if "fresh_txn tid rt" "stagePolicy tid g rt = (r, rt')" for g rt r rt'
      by (rule fresh_with_txn [OF that(1) that(2) [unfolded stagePolicy_def]]) simp
    show ?thesis
      using assms(3,4) policy stage_candidate_keeps [OF assms(3,2) st]
      by (auto simp: policyRuntimeAdapter_def policy_prepare_def Let_def split: sum.splits)
  qed
qed

lemma routing_health_law:
  assumes "routing_adapter c" "rc_health c p ctx w = (r, w')"
  shows "w' = w"
  using assms
  by (auto simp: routing_adapter_def routerRuntimeAdapter_def policyRuntimeAdapter_def router_health_def
      policy_health_def with_prepared_def split: if_splits)

lemma rt_commit_cases:
  assumes "rt_commit tid c rt = (r, rt')"
  obtains (refused) e where "r = Inl e" "rt' = rt"
  | (waiting) x x1 where "r = Inr ()" "jm_get (rr_transactions rt) tid = Some x" "c \<in> set (rx_expected x)"
      "x1 = x\<lparr>rx_committed := add_component c (rx_committed x)\<rparr>" "\<not> set (rx_expected x) \<subseteq> set (rx_committed x1)"
      "rr_active rt' = rr_active rt" "jm_get (rr_transactions rt') tid = Some x1"
  | (published) x x1 where "r = Inr ()" "jm_get (rr_transactions rt) tid = Some x" "c \<in> set (rx_expected x)"
      "x1 = x\<lparr>rx_committed := add_component c (rx_committed x)\<rparr>" "set (rx_expected x) \<subseteq> set (rx_committed x1)"
      "jm_get (rr_transactions rt') tid = Some (x1\<lparr>rx_published := True\<rparr>)"
proof (cases "jm_get (rr_transactions rt) tid")
  case None
  with assms refused show thesis by (auto simp: rt_commit_def)
next
  case (Some x)
  define x1 where "x1 = x\<lparr>rx_committed := add_component c (rx_committed x)\<rparr>"
  show thesis
  proof (cases "c \<notin> set (rx_expected x) \<or> c = RcRouter \<and> rx_routerCandidate x = None \<or> c = RcPolicy \<and> rx_policyCandidate x = None")
    case True
    then have "\<exists>e. rt_commit tid c rt = (Inl e, rt)"
      by (elim disjE conjE; cases "c \<in> set (rx_expected x)") (simp_all add: rt_commit_def Some)
    with assms refused show thesis by auto
  next
    case False
    then have n: "\<not> c \<notin> set (rx_expected x)" "\<not> (c = RcRouter \<and> rx_routerCandidate x = None)"
      "\<not> (c = RcPolicy \<and> rx_policyCandidate x = None)" by blast+
    note eq = assms [unfolded rt_commit_def Some option.case if_not_P [OF n(1)] if_not_P [OF n(2)]
        if_not_P [OF n(3)] Let_def, folded x1_def]
    have part: "list_ex (\<lambda>e. e \<notin> set (rx_committed x1)) (rx_expected x1) \<longleftrightarrow> \<not> set (rx_expected x) \<subseteq> set (rx_committed x1)"
      by (auto simp: list_ex_iff x1_def)
    show thesis
    proof (cases "set (rx_expected x) \<subseteq> set (rx_committed x1)")
      case True
      with eq n(1) Some published [of x x1] show thesis
        unfolding part by (auto simp: case_prod_beta x1_def)
    next
      case open': False
      with eq n(1) Some waiting [of x x1] show thesis unfolding part by (auto simp: x1_def)
    qed
  qed
qed

lemma set_add_component: "set (add_component c cs) = insert c (set cs)"
  by (auto simp: add_component_def)

lemma routing_commit_law:
  assumes c: "routing_adapter c" "pc_component p = rc_name c" "pc_component p \<notin> (pc_component \<circ> fst) ` set st"
    and w: "routing_armed tid st w" "rc_commit c p ctx w = (r, w')"
  shows "case r of Inr u \<Rightarrow> routing_armed tid ((p, routing_view w) # st) w'
                 | Inl e \<Rightarrow> routing_armed tid st w' \<and> routing_view w' = routing_view w"
proof -
  have name: "pc_component p \<in> {CRouter, CPolicyProber}"
    and com: "rc_commit c p ctx w = routing_commit (component_of (pc_component p)) p w"
    using c(1,2) by (auto simp: routing_adapter_def routerRuntimeAdapter_def policyRuntimeAdapter_def)
  let ?c = "component_of (pc_component p)"
  from w(1) have own: "own_prepared tid w" by (simp add: routing_armed_def routing_undoing_def)
  show ?thesis
  proof (cases "pc_ref p < length (rw_prepared w)")
    case False
    with w com show ?thesis by (auto simp: routing_commit_def with_prepared_def)
  next
    case ref: True
    then have tid: "rpv_transactionId (rw_prepared w ! pc_ref p) = tid" by (rule own_prepared_nth [OF own])
    obtain r0 rt where run: "rt_commit tid ?c (rw_runtime w) = (r0, rt)" by fastforce
    have eq: "(r, w') = (case r0 of Inl e \<Rightarrow> (Inl e, w\<lparr>rw_runtime := rt\<rparr>)
        | Inr u \<Rightarrow> (Inr (), set_committed p True (w\<lparr>rw_runtime := rt\<rparr>)))"
      using w(2) com ref run tid by (simp add: routing_commit_def with_prepared_def)
    show ?thesis
      using run
    proof (cases rule: rt_commit_cases)
      case (refused e)
      with eq w(1) show ?thesis by simp
    next
      case (waiting x x1)
      from eq waiting(1) have w': "r = Inr ()" "w' = set_committed p True (w\<lparr>rw_runtime := rt\<rparr>)" by simp_all
      then have own': "own_prepared tid w'"
        using own ref by (auto intro!: set_committed_facts(2))
      from w(1) waiting(2) have x: "\<forall>(q, v) \<in> set st. v = rx_old x" "if rx_published x then st \<noteq> [] else rx_old x = routing_view w"
        "rx_expected x \<noteq> []" "set (rx_committed x) = (\<lambda>(p, v). component_of (pc_component p)) ` set st"
        "\<forall>(p, v) \<in> set st. pc_component p \<in> {CRouter, CPolicyProber}"
        "rx_published x \<longleftrightarrow> set (rx_expected x) \<subseteq> set (rx_committed x)"
        by (simp_all add: routing_armed_def routing_undoing_def)
      have unp: "\<not> rx_published x" using x(6) waiting(4,5) by (auto simp: set_add_component)
      show ?thesis
        using w' waiting(2-) x unp own' name
        by (auto simp: routing_armed_def routing_undoing_def routing_view_def set_committed_facts set_add_component)
    next
      case (published x x1)
      from eq published(1) have w': "r = Inr ()" "w' = set_committed p True (w\<lparr>rw_runtime := rt\<rparr>)" by simp_all
      then have own': "own_prepared tid w'"
        using own ref by (auto intro!: set_committed_facts(2))
      from w(1) published(2) have x: "\<forall>(q, v) \<in> set st. v = rx_old x" "if rx_published x then st \<noteq> [] else rx_old x = routing_view w"
        "rx_expected x \<noteq> []" "set (rx_committed x) = (\<lambda>(p, v). component_of (pc_component p)) ` set st"
        "\<forall>(p, v) \<in> set st. pc_component p \<in> {CRouter, CPolicyProber}"
        "rx_published x \<longleftrightarrow> set (rx_expected x) \<subseteq> set (rx_committed x)"
        by (simp_all add: routing_armed_def routing_undoing_def)
      have "?c \<notin> set (rx_committed x)"
      proof
        assume "?c \<in> set (rx_committed x)"
        then obtain q v where q: "(q, v) \<in> set st" "component_of (pc_component q) = ?c" by (auto simp: x(4))
        with x(5) name have "pc_component q = pc_component p" by auto
        with q(1) c(3) show False by force
      qed
      with published(3) x(6) have unp: "\<not> rx_published x" by blast
      show ?thesis
        using w' published(2-) x unp own' name
        by (auto simp: routing_armed_def routing_undoing_def routing_view_def set_committed_facts set_add_component)
    qed
  qed
qed

lemma routing_rollback_run:
  assumes "routing_adapter c" "own_prepared tid w" "rc_rollback c p ctx w = (Inr (), w')"
  shows "rw_runtime w' = rt_rollback tid (rw_runtime w)" "own_prepared tid w'"
proof -
  have run: "rc_rollback c p ctx w = routing_rollback p w"
    using assms(1) by (auto simp: routing_adapter_def routerRuntimeAdapter_def policyRuntimeAdapter_def)
  have ref: "pc_ref p < length (rw_prepared w)"
    using assms(3) run by (auto simp: routing_rollback_def with_prepared_def split: if_splits)
  have w': "w' = set_committed p False (w\<lparr>rw_runtime := rt_rollback tid (rw_runtime w)\<rparr>)"
    using assms(3) run ref own_prepared_nth [OF assms(2) ref] by (simp add: routing_rollback_def with_prepared_def)
  show "rw_runtime w' = rt_rollback tid (rw_runtime w)" by (simp add: w' set_committed_facts)
  show "own_prepared tid w'" unfolding w' by (rule set_committed_facts(2)) (use assms(2) ref in simp_all)
qed

lemma routing_rollback_law:
  assumes "routing_adapter c" "routing_undoing tid ((p, v) # st) w" "rc_rollback c q ctx w = (Inr (), w')"
  shows "routing_undoing tid st w' \<and> routing_view w' = v"
proof -
  from assms(2) have own: "own_prepared tid w" by (simp add: routing_undoing_def)
  note run = routing_rollback_run [OF assms(1) own assms(3)]
  from assms(2) obtain x where x: "jm_get (rr_transactions (rw_runtime w)) tid = Some x" "v = rx_old x"
    "\<forall>(p, v) \<in> set st. v = rx_old x" "rx_published x \<or> rx_old x = routing_view w"
    by (auto simp: routing_undoing_def split: option.splits if_splits)
  with run show ?thesis
    by (auto simp: routing_undoing_def rt_rollback_def routing_view_def)
qed

lemma routing_rollback_idle:
  assumes "routing_adapter c" "routing_undoing tid [] w" "rc_rollback c q ctx w = (Inr (), w')"
  shows "routing_undoing tid [] w' \<and> routing_view w' = routing_view w"
proof -
  from assms(2) have own: "own_prepared tid w" by (simp add: routing_undoing_def)
  note run = routing_rollback_run [OF assms(1) own assms(3)]
  from assms(2) have "rt_rollback tid (rw_runtime w) = rw_runtime w"
    by (auto simp: routing_undoing_def rt_rollback_def split: option.splits if_splits)
  with run assms(2) show ?thesis
    by (auto simp: routing_undoing_def routing_view_def split: option.splits)
qed

lemma routing_cleanup_law:
  "routing_adapter c \<Longrightarrow> routing_view (snd (rc_cleanup c p ctx w)) = routing_view w"
  by (auto simp: routing_adapter_def routerRuntimeAdapter_def policyRuntimeAdapter_def routing_cleanup_def
      with_prepared_def routing_view_def rt_cleanup_def split: option.splits)

interpretation routing_reload: reload_contract routing_adapter tid routing_view pc_component
    "routing_armed tid" "routing_undoing tid" for tid
proof (unfold_locales, goal_cases)
  case (1 st w)
  then show ?case by (simp add: routing_armed_def)
next
  case (2 c ctx w cfg r w')
  then show ?case by (rule routing_prepare_law)
next
  case (3 c p st w ctx r1 w')
  with routing_health_law show ?case by blast
next
  case (4 c p st w ctx r1 w')
  then show ?case by (intro routing_commit_law)
next
  case (5 c p v st w ctx w')
  then show ?case by (intro routing_rollback_law)
next
  case (6 c p w ctx w')
  then show ?case by (intro routing_rollback_idle)
next
  case (7 c p ctx w)
  then show ?case by (intro routing_cleanup_law)
qed

section \<open>The adapters never fail silently\<close>

definition visible :: "js_error \<Rightarrow> bool" where
  "visible e \<longleftrightarrow> errorMessage e \<noteq> [] \<and> \<not> is_space (hd (errorMessage e))"

lemma visible_not_blank: "visible e \<Longrightarrow> \<not> blank e"
  by (cases "errorMessage e") (auto simp: visible_def blank_def js_trim_visible)

lemma rmap_InlD: "rmap f xs = Inl e \<Longrightarrow> \<exists>x \<in> set xs. f x = Inl e"
  by (induction xs) (auto simp: rbind_def split: sum.splits)

lemma newCidrMatcher_visible: "newCidrMatcher s = Inl e \<Longrightarrow> visible e"
  by (auto simp: newCidrMatcher_def Let_def visible_def is_space_def char_code_def
      split: list.splits option.splits jsnum.splits if_splits)

lemma newRouter_visible: "newRouter c = Inl e \<Longrightarrow> visible e"
  by (auto simp: newRouter_def newCompiledRule_def rbind_def split: sum.splits
      dest!: rmap_InlD intro: newCidrMatcher_visible)

lemma validateRuleTargets_visible: "validateRuleTargets rs i allowed = Inl e \<Longrightarrow> visible e"
  by (induction rs arbitrary: i) (auto simp: visible_def is_space_def char_code_def split: if_splits)

lemma newRouterGeneration_visible: "newRouterGeneration sha i n c allowed now = Inl e \<Longrightarrow> visible e"
  by (auto simp: newRouterGeneration_def validateTargets_def rbind_def split: sum.splits if_splits
      intro: newRouter_visible validateRuleTargets_visible)
     (auto simp: visible_def is_space_def char_code_def)

lemma validatePolicies_visible: "validatePolicies ps outboundTags tags = Inl e \<Longrightarrow> visible e"
  by (induction ps arbitrary: tags)
     (auto simp: visible_def is_space_def char_code_def split: if_splits option.splits)

lemma newPolicyGeneration_visible: "newPolicyGeneration sha i n ps tags h now = Inl e \<Longrightarrow> visible e"
  by (auto simp: newPolicyGeneration_def Let_def rbind_def split: sum.splits intro: validatePolicies_visible)

lemma stage_candidate_visible:
  assumes "stage_candidate name cand es stage ctx w = (Inl e, w')"
    and "\<And>rt e rt'. stage (oc_transactionId ctx) rt = (Inl e, rt') \<Longrightarrow> visible e"
  shows "visible e"
proof -
  have "visible e" if "rt_begin tid es rt = (Inl e, rt')" for tid rt e rt'
    using that by (auto simp: rt_begin_def visible_def is_space_def char_code_def split: option.splits if_splits)
  note begin_visible = this
  obtain r1 rt1 where b: "rt_begin (oc_transactionId ctx) es (rw_runtime w) = (r1, rt1)" by fastforce
  obtain r2 rt2 where s: "stage (oc_transactionId ctx) rt1 = (r2, rt2)" by fastforce
  show ?thesis
    using assms b s begin_visible by (auto simp: stage_candidate_def split: sum.splits)
qed

lemma with_txn_visible: "with_txn tid f rt = (Inl e, rt') \<Longrightarrow> visible e"
  by (auto simp: with_txn_def not_initialized_def visible_def is_space_def char_code_def split: option.splits)

lemma rt_commit_visible: "rt_commit tid c rt = (Inl e, rt') \<Longrightarrow> visible e"
  by (auto simp: rt_commit_def not_initialized_def visible_def is_space_def char_code_def Let_def case_prod_beta
      split: option.splits if_splits)

lemma check_policies_visible: "check_policies now rnd g ps = Inl e \<Longrightarrow> visible e"
  by (induction ps) (auto simp: Let_def visible_def is_space_def char_code_def split: if_splits)

lemma dangling_visible: "visible dangling"
  by (simp add: dangling_def visible_def is_space_def char_code_def)

lemma with_prepared_visible:
  assumes "with_prepared p f w = (Inl e, w')" "\<And>v w e w'. f v w = (Inl e, w') \<Longrightarrow> visible e"
  shows "visible e"
  using assms dangling_visible by (auto simp: with_prepared_def split: if_splits)

lemma routing_commit_visible: "routing_commit c p w = (Inl e, w') \<Longrightarrow> visible e"
  unfolding routing_commit_def
  by (erule with_prepared_visible) (auto split: sum.splits prod.splits intro: rt_commit_visible)

lemma routing_adapter_speaks:
  assumes "routing_adapter c"
  shows "speaks c"
proof -
  have "visible e" if "router_health p w = (Inl e, w')" for p w e w'
    using that unfolding router_health_def
    by (rule with_prepared_visible)
       (auto simp: dangling_visible split: prepared_candidate.splits if_splits)
  moreover have "visible e" if "policy_health host p w = (Inl e, w')" for host p w e w'
    using that unfolding policy_health_def
    by (rule with_prepared_visible)
       (auto simp: dangling_visible split: prepared_candidate.splits intro: check_policies_visible)
  moreover have "visible e" if "router_prepare host es cfg ctx w = (Inl e, w')" for host es cfg ctx w e w'
    using that by (auto simp: router_prepare_def Let_def stageRouter_def split: sum.splits
        intro: newRouterGeneration_visible with_txn_visible elim!: stage_candidate_visible)
  moreover have "visible e" if "policy_prepare host es cfg ctx w = (Inl e, w')" for host es cfg ctx w e w'
    using that by (auto simp: policy_prepare_def Let_def stagePolicy_def split: sum.splits
        intro: newPolicyGeneration_visible with_txn_visible elim!: stage_candidate_visible)
  ultimately show ?thesis
    using assms routing_commit_visible
    by (auto simp: routing_adapter_def routerRuntimeAdapter_def policyRuntimeAdapter_def speaks_def never_blank_def
        intro!: visible_not_blank)
qed

section \<open>Properties\<close>

text \<open>
  Property C2. A reload of routing is atomic: when a transaction over the router and policy adapters
  does not commit, and no rollback reported an error and no operation took effect after losing its
  race, the generation pair that serves traffic is exactly the one before the reload, wherever the
  transaction failed (a generation that was already published included).
\<close>

theorem routing_reload_atomic:
  assumes "initialExec env opts evs m w = Inr s0" "execute env opts s0 = (Inr False, s')"
    and "\<forall>c \<in> set (eo_components opts). routing_adapter c" "distinct (map rc_name (eo_components opts))"
    and "eo_parse opts = None" "eo_validate opts = None" "no_late_effects env"
    and "rr_transactions (rw_runtime w) = []" "rw_prepared w = []"
    and "\<forall>x \<in> set (componentErrors s'). ce_stage x \<noteq> FRollback"
  shows "rr_active (rw_runtime (world s')) = rr_active (rw_runtime w)"
proof -
  let ?tid = "eo_transactionId opts"
  have "routing_reload.usable ?tid env opts"
    using assms by (simp add: routing_reload.usable_def inert_def)
  moreover have "routing_armed ?tid [] w"
    using assms by (simp add: armed_Nil_iff own_prepared_def fresh_txn_def)
  moreover have "routing_reload.no_rollback_errors s'"
    using assms by (simp add: routing_reload.no_rollback_errors_def)
  moreover have "speaking opts"
    using assms by (simp add: speaking_def routing_adapter_speaks)
  ultimately show ?thesis
    using routing_reload.failure_leaves_no_trace [OF assms(1) _ _ assms(2)] by (simp add: routing_view_def)
qed

definition sampleEnv :: env where
  "sampleEnv = \<lparr>clock_at = (\<lambda>k. 0), aborted_at = (\<lambda>k. False), race_at = (\<lambda>k. Settles)\<rparr>"

definition sampleHost :: "router_config routing_host" where
  "sampleHost = \<lparr>host_route = (\<lambda>c. c), host_outboundTags = (\<lambda>c. [''a'']), host_routerHash = (\<lambda>c. ''r''),
     host_policyHash = (\<lambda>p. ''p''), host_now = 0, host_random = 0\<rparr>"

definition sampleRoute :: router_config where
  "sampleRoute = \<lparr>rcfg_defaultOutbound = ''a'', rcfg_rules = [], rcfg_policies = []\<rparr>"

definition sampleWorld :: routing_world where
  "sampleWorld =
     (case createRoutingGenerationPair (\<lambda>c. ''r'') (\<lambda>p. ''p'') ''g0'' 0 sampleRoute [''a''] [] 0 [] of
        Inr (g, ms) \<Rightarrow> \<lparr>rw_runtime = newRoutingRuntime g ms, rw_prepared = []\<rparr>)"

definition sampleGeneration :: "string \<Rightarrow> reload_generation" where
  "sampleGeneration i = \<lparr>rg_id = i, rg_createdAt = 0, rg_configHash = ''h'', rg_state = GActive,
     rg_parent = None\<rparr>"

lemma sampleWorld_start: "\<exists>g ms. rw_runtime sampleWorld = newRoutingRuntime g ms"
  by (simp add: sampleWorld_def createRoutingGenerationPair_def newPolicyGeneration_def newRouterGeneration_def
      newRouter_def rbind_def validateTargets_def sampleRoute_def) blast

lemma routing_no_leak_witness:
  "\<exists>g. let rt = replaceLegacy g (snd (rt_acquire (rw_runtime sampleWorld))) in
     rr_transactions rt = [] \<and>
     (\<forall>(key, g) \<in> set (rr_draining rt). pairKey g = key \<and>
        (\<exists>h \<in> set (rr_handles rt). \<not> rh_released h \<and> rh_key h = key))"
proof -
  let ?g = "rr_active (rw_runtime sampleWorld)"
  let ?rt = "replaceLegacy ?g (snd (rt_acquire (rw_runtime sampleWorld)))"
  obtain g ms where new: "rw_runtime sampleWorld = newRoutingRuntime g ms" using sampleWorld_start by blast
  then have r: "routing_reachable g ms (rw_runtime sampleWorld)" by (simp add: routing_reachable.start)
  from new have "rr_transactions (rw_runtime sampleWorld) = []" by (simp add: newRoutingRuntime_def)
  then have e1: "rr_transactions (snd (rt_acquire (rw_runtime sampleWorld))) = []" by (simp add: rt_acquire_def Let_def)
  have "routing_reachable g ms ?rt"
    using r e1 by (intro routing_reachable.step [OF routing_reachable.step [OF r routing_step.acquire]] routing_step.replace_legacy)
  moreover have "rr_transactions ?rt = []" using e1 by (simp add: replaceLegacy_def Let_def)
  ultimately show ?thesis using routing_no_leak [of g ms ?rt] by (intro exI [of _ ?g]) (simp add: Let_def)
qed

end
