(* ===== verification/ReloadRuns.thy ===== *)
theory ReloadRuns
  imports RoutingAdapters
begin

text \<open>
  How the concrete reloads of the development are run: the options of a transaction between two fixed
  generations, its first state, and the definitions that evaluate it.
\<close>

section \<open>Evaluation\<close>

lemmas exec_eval =
  execute_def tryBlock_def runSimplePhase_def executeReloadOperation_def read_clock_def event_def timed_event_def
  do_transition_def transition_def do_fail_def catchBlock_def runPrepare_def runHealthChecks_def runCommit_def
  in_phase_def runRollback_def rollbackEntry_def rollbackEntries_def runCleanup_def cleanupEntry_def
  recoveryContext_def base_context_def recordError_def fail_txn_def isTerminal_def newTransaction_def
  js_trim_def is_space_def char_code_def Let_def

lemmas routing_eval =
  routerRuntimeAdapter_def policyRuntimeAdapter_def router_prepare_def policy_prepare_def sampleHost_def
  sampleRoute_def stage_candidate_def rt_begin_def stageRouter_def stagePolicy_def with_txn_def
  newRouterGeneration_def newPolicyGeneration_def newRouter_def validateTargets_def router_health_def
  policy_health_def with_prepared_def routing_commit_def rt_commit_def next_pair_def add_component_def
  set_committed_def routing_rollback_def rt_rollback_def routing_cleanup_def rt_cleanup_def
  newRoutingRuntime_def createRoutingGenerationPair_def createManager_def newPolicyManager_def
  reloadPolicies_def jm_of_list_def

definition testOptions :: "('c, 'w, 'p) reloadable list \<Rightarrow> 'c \<Rightarrow> ('c, 'w, 'p) exec_options" where
  "testOptions cs cfg = \<lparr>eo_transactionId = ''t1'', eo_old = sampleGeneration ''g0'',
     eo_candidate = sampleGeneration ''g1'', eo_config = cfg, eo_components = cs, eo_timeoutMs = 1000,
     eo_parse = None, eo_validate = None\<rparr>"

definition testStart :: "('c, 'w, 'p) exec_options \<Rightarrow> 'w \<Rightarrow> ('c, 'w, 'p) exec" where
  "testStart opts w = projr (initialExec sampleEnv opts [] (newReloadMetrics ''g0'') w)"

lemma testStart_ok:
  "initialExec sampleEnv (testOptions cs cfg) [] (newReloadMetrics ''g0'') w = Inr (testStart (testOptions cs cfg) w)"
  by (simp add: testStart_def testOptions_def initialExec_def)

lemmas start_eval = testStart_def testOptions_def initialExec_def sampleEnv_def sampleGeneration_def

end
