(* ===== verification/Bytes.thy ===== *)
theory Bytes
  imports Prelude
begin

text \<open>
  Byte buffers: a Node \<^verbatim>\<open>Buffer\<close> is a list of 8-bit words. The big-endian readers and writers the
  protocols use, and the text encodings: \<^verbatim>\<open>utf8\<close> (a character of the model is one or two bytes) and
  \<^verbatim>\<open>ascii\<close>/\<^verbatim>\<open>latin1\<close> (one byte each).
\<close>

type_synonym bytes = "8 word list"

definition be16 :: "8 word \<Rightarrow> 8 word \<Rightarrow> nat" where
  "be16 a b = unat a * 256 + unat b"

definition be32 :: "8 word \<Rightarrow> 8 word \<Rightarrow> 8 word \<Rightarrow> 8 word \<Rightarrow> nat" where
  "be32 a b c d = be16 a b * 65536 + be16 c d"

definition u16_bytes :: "nat \<Rightarrow> bytes" where
  "u16_bytes n = [of_nat (n div 256), of_nat n]"

definition u32_bytes :: "nat \<Rightarrow> bytes" where
  "u32_bytes n = u16_bytes (n div 65536) @ u16_bytes (n mod 65536)"

text \<open>\<^verbatim>\<open>buffer[i] ?? 0\<close>.\<close>

definition byte_at :: "bytes \<Rightarrow> nat \<Rightarrow> 8 word" where
  "byte_at bs i = (if i < length bs then bs ! i else 0)"

definition u16_at :: "bytes \<Rightarrow> nat \<Rightarrow> nat" where
  "u16_at bs i = be16 (byte_at bs i) (byte_at bs (i + 1))"

definition u32_at :: "bytes \<Rightarrow> nat \<Rightarrow> nat" where
  "u32_at bs i = be32 (byte_at bs i) (byte_at bs (i + 1)) (byte_at bs (i + 2)) (byte_at bs (i + 3))"

definition latin1 :: "string \<Rightarrow> bytes" where
  "latin1 s = map (\<lambda>c. of_nat (char_code c)) s"

definition utf8_char :: "char \<Rightarrow> bytes" where
  "utf8_char c =
     (let n = char_code c in
      if n < 128 then [of_nat n] else [of_nat (192 + n div 64), of_nat (128 + n mod 64)])"

definition utf8 :: "string \<Rightarrow> bytes" where
  "utf8 s = concat (map utf8_char s)"

definition is_ascii :: "string \<Rightarrow> bool" where
  "is_ascii s \<longleftrightarrow> (\<forall>c \<in> set s. char_code c < 128)"

section \<open>Numbers\<close>

lemma unat8_less: "unat (w :: 8 word) < 256"
  using unsigned_less [of w] by simp

lemma unat_of_nat8: "unat (of_nat n :: 8 word) = n mod 256"
  by (simp add: unat_of_nat)

lemma be16_less: "be16 a b < 65536"
  using unat8_less [of a] unat8_less [of b] by (simp add: be16_def)

lemma be32_less: "be32 a b c d < 4294967296"
  using be16_less [of a b] be16_less [of c d] by (simp add: be32_def)

lemma be16_u16 [simp]: "n < 65536 \<Longrightarrow> be16 (of_nat (n div 256)) (of_nat n) = n"
  by (simp add: be16_def unat_of_nat8)

lemma length_u16_bytes [simp]: "length (u16_bytes n) = 2"
  by (simp add: u16_bytes_def)

lemma length_u32_bytes [simp]: "length (u32_bytes n) = 4"
  by (simp add: u32_bytes_def)

lemma of_nat_mod8: "(of_nat (n mod 256) :: 8 word) = of_nat n"
proof -
  have "(of_nat n :: 8 word) = of_nat (unat (of_nat n :: 8 word))" by simp
  also have "\<dots> = of_nat (n mod 256)" by (simp only: unat_of_nat8)
  finally show ?thesis by simp
qed

lemma u16_bytes_be16 [simp]: "u16_bytes (be16 a b) = [a, b]"
proof -
  have "be16 a b div 256 = unat a" "be16 a b mod 256 = unat b"
    using unat8_less [of b] by (simp_all add: be16_def)
  moreover have "(of_nat (be16 a b) :: 8 word) = of_nat (be16 a b mod 256)"
    by (simp only: of_nat_mod8)
  ultimately show ?thesis by (simp add: u16_bytes_def)
qed

section \<open>Reading inside a concatenation\<close>

lemma byte_at_append: "byte_at (xs @ ys) i = (if i < length xs then xs ! i else byte_at ys (i - length xs))"
  by (auto simp: byte_at_def nth_append)

lemma byte_at_Cons [simp]: "byte_at (x # xs) 0 = x" "byte_at (x # xs) (Suc i) = byte_at xs i"
  by (simp_all add: byte_at_def)

lemma u16_at_append: "u16_at (xs @ ys) (length xs + i) = u16_at ys i"
  by (simp add: u16_at_def byte_at_append)

lemma u32_at_append: "u32_at (xs @ ys) (length xs + i) = u32_at ys i"
  by (simp add: u32_at_def byte_at_append)

lemma u16_at_u16 [simp]: "n < 65536 \<Longrightarrow> u16_at (u16_bytes n @ ys) 0 = n"
  by (simp add: u16_at_def u16_bytes_def)

lemma u32_at_u32 [simp]: "n < 4294967296 \<Longrightarrow> u32_at (u32_bytes n @ ys) 0 = n"
  by (simp add: u32_at_def u32_bytes_def u16_bytes_def be32_def byte_at_def nth_Cons' less_mult_imp_div_less)

section \<open>Text\<close>

lemma length_latin1 [simp]: "length (latin1 s) = length s"
  by (simp add: latin1_def)

lemma latin1_append: "latin1 (s @ t) = latin1 s @ latin1 t"
  by (simp add: latin1_def)

lemma utf8_ascii: "is_ascii s \<Longrightarrow> utf8 s = latin1 s"
  by (induction s) (auto simp: utf8_def latin1_def is_ascii_def utf8_char_def Let_def)

lemma length_utf8_ge: "length s \<le> length (utf8 s)"
  by (induction s) (auto simp: utf8_def utf8_char_def Let_def)

definition text_of :: "bytes \<Rightarrow> string" where
  "text_of bs = map (\<lambda>b. char_of (unat b)) bs"

lemma text_of_latin1 [simp]: "text_of (latin1 s) = s"
  by (induction s) (simp_all add: text_of_def latin1_def char_code_def unat_of_nat8)

lemma latin1_text_of [simp]: "latin1 (text_of bs) = bs"
proof (induction bs)
  case (Cons b bs)
  have "char_code (char_of (unat b)) = unat b" using unat8_less [of b] by (simp add: char_code_def)
  with Cons show ?case by (simp add: text_of_def latin1_def)
qed (simp add: text_of_def latin1_def)

lemma latin1_inject [simp]: "latin1 s = latin1 t \<longleftrightarrow> s = t"
  by (metis text_of_latin1)

end
