(* ===== verification/DnsWire.thy ===== *)
theory DnsWire
  imports Bytes Matcher
begin

text \<open>
  The DNS client over UDP of \<^verbatim>\<open>src/dns/resolver.ts\<close>: the query it sends
  (\<open>encodeDnsQuery\<close>), the response it reads (\<open>skipDnsName\<close>, \<open>decodeDnsAResponse\<close>) and
  the exchange itself (\<open>queryUdpA\<close>) as a machine driven by the events of its socket.
\<close>

section \<open>Messages\<close>

definition encode_labels :: "string list \<Rightarrow> bytes" where
  "encode_labels labels = concat (map (\<lambda>l. of_nat (length (utf8 l)) # latin1 l) labels)"

definition encodeDnsQuery :: "nat \<Rightarrow> string \<Rightarrow> bytes" where
  "encodeDnsQuery i host =
     u16_bytes i @ [1, 0, 0, 1, 0, 0, 0, 0, 0, 0] @ encode_labels (split_on (CHR ''.'') host) @ [0, 0, 1, 0, 1]"

record dns_a_result =
  da_address :: string
  da_ttlMs :: nat

function skipDnsName :: "bytes \<Rightarrow> nat \<Rightarrow> nat result" where
  "skipDnsName message cursor =
     (if cursor < length message
      then (let len = byte_at message cursor in
            if and len 192 = 192 then Inr (cursor + 2)
            else if len = 0 then Inr (cursor + 1)
            else skipDnsName message (cursor + 1 + unat len))
      else Inl (NetworkError ''truncated DNS name''))"
  by pat_completeness auto
termination
  by (relation "measure (\<lambda>(message, cursor). length message - cursor)") (auto simp: Let_def)

declare skipDnsName.simps [simp del]

fun decode_answers :: "bytes \<Rightarrow> nat \<Rightarrow> nat \<Rightarrow> dns_a_result result" where
  "decode_answers message 0 offset = Inl (NetworkError ''DNS response did not contain an A record'')"
| "decode_answers message (Suc n) offset =
     rbind (skipDnsName message offset) (\<lambda>at.
       if at + 10 > length message then Inl (NetworkError ''truncated DNS answer'')
       else (let rtype = u16_at message at; klass = u16_at message (at + 2); ttl = u32_at message (at + 4);
                 len = u16_at message (at + 8); data = at + 10
             in if data + len > length message then Inl (NetworkError ''truncated DNS rdata'')
                else if rtype = 1 \<and> klass = 1 \<and> len = 4
                then Inr \<lparr>da_address = dotted (unat (byte_at message data)) (unat (byte_at message (data + 1)))
                            (unat (byte_at message (data + 2))) (unat (byte_at message (data + 3))),
                          da_ttlMs = max 1000 (ttl * 1000)\<rparr>
                else decode_answers message n (data + len)))"

definition decodeDnsAResponse :: "bytes \<Rightarrow> nat \<Rightarrow> dns_a_result result" where
  "decodeDnsAResponse message expectedId =
     (if length message < 12 then Inl (NetworkError ''invalid DNS response'')
      else if u16_at message 0 \<noteq> expectedId then Inl (NetworkError ''DNS response id mismatch'')
      else rbind (skipDnsName message 12) (\<lambda>at. decode_answers message (u16_at message 6) (at + 4)))"

section \<open>One query\<close>

record dns_server =
  ds_tag :: string
  ds_address :: string
  ds_port :: nat
  ds_timeoutMs :: nat

text \<open>
  The listener for messages is registered with \<^verbatim>\<open>once\<close>: any datagram removes it. \<^verbatim>\<open>settled\<close>
  is \<^verbatim>\<open>Some\<close> of what the promise settled to.
\<close>

record udp_query =
  uq_id :: nat
  uq_server :: dns_server
  uq_host :: string
  uq_listening :: bool
  uq_settled :: "dns_a_result result option"

datatype udp_event = Datagram bytes nat string | SocketError | AbortSignal | TimerFired

definition newUdpQuery :: "nat \<Rightarrow> dns_server \<Rightarrow> string \<Rightarrow> udp_query" where
  "newUdpQuery i server host =
     \<lparr>uq_id = i, uq_server = server, uq_host = host, uq_listening = True, uq_settled = None\<rparr>"

definition settle_query :: "dns_a_result result \<Rightarrow> udp_query \<Rightarrow> udp_query" where
  "settle_query r q =
     (if uq_settled q = None then q\<lparr>uq_settled := Some r, uq_listening := False\<rparr> else q)"

fun udp_query_step :: "udp_event \<Rightarrow> udp_query \<Rightarrow> udp_query" where
  "udp_query_step (Datagram message port address) q =
     (if \<not> uq_listening q then q
      else if port \<noteq> ds_port (uq_server q) \<or>
              (isIP (ds_address (uq_server q)) \<noteq> 0 \<and> address \<noteq> ds_address (uq_server q))
      then q\<lparr>uq_listening := False\<rparr>
      else settle_query (decodeDnsAResponse message (uq_id q)) (q\<lparr>uq_listening := False\<rparr>))"
| "udp_query_step SocketError q = settle_query (Inl (NetworkError ''UDP DNS socket error'')) q"
| "udp_query_step AbortSignal q =
     settle_query (Inl (NetworkError (''UDP DNS query aborted for '' @ uq_host q))) q"
| "udp_query_step TimerFired q =
     settle_query (Inl (TimeoutError (''UDP DNS query timeout after '' @ show_nat (ds_timeoutMs (uq_server q))
       @ ''ms for '' @ uq_host q))) q"

section \<open>Names are skipped\<close>

definition label_ok :: "string \<Rightarrow> bool" where
  "label_ok l \<longleftrightarrow> l \<noteq> [] \<and> is_ascii l \<and> length l < 64"

lemma encode_labels_Cons: "encode_labels (l # ls) = of_nat (length (utf8 l)) # latin1 l @ encode_labels ls"
  by (simp add: encode_labels_def)

lemma label_length_byte:
  assumes "label_ok l"
  shows "unat (of_nat (length (utf8 l)) :: 8 word) = length l" "(of_nat (length (utf8 l)) :: 8 word) \<noteq> 0"
    "and (of_nat (length (utf8 l)) :: 8 word) 192 \<noteq> 192"
proof -
  from assms have l: "0 < length l" "length l < 64" "utf8 l = latin1 l"
    by (auto simp: label_ok_def utf8_ascii)
  show u: "unat (of_nat (length (utf8 l)) :: 8 word) = length l" using l by (simp add: unat_of_nat8)
  show "(of_nat (length (utf8 l)) :: 8 word) \<noteq> 0"
  proof
    assume "(of_nat (length (utf8 l)) :: 8 word) = 0"
    then have "unat (of_nat (length (utf8 l)) :: 8 word) = 0" by simp
    with u l show False by simp
  qed
  show "and (of_nat (length (utf8 l)) :: 8 word) 192 \<noteq> 192"
  proof
    assume "and (of_nat (length (utf8 l)) :: 8 word) 192 = 192"
    then have "192 \<le> (of_nat (length (utf8 l)) :: 8 word)"
      using word_and_le1 [of "of_nat (length (utf8 l))" 192] by (metis word_and_le2)
    then have "unat (192 :: 8 word) \<le> unat (of_nat (length (utf8 l)) :: 8 word)" by (simp add: word_le_nat_alt)
    with u l show False by simp
  qed
qed

lemma skip_labels:
  assumes "\<forall>l \<in> set labels. label_ok l"
  shows "skipDnsName (pre @ encode_labels labels @ 0 # post) (length pre) =
    Inr (length pre + length (encode_labels labels) + 1)"
  using assms
proof (induction labels arbitrary: pre)
  case Nil
  show ?case by (subst skipDnsName.simps) (simp add: encode_labels_def byte_at_append)
next
  case (Cons l ls)
  then have ok: "label_ok l" by simp
  let ?b = "of_nat (length (utf8 l)) :: 8 word"
  let ?m = "pre @ encode_labels (l # ls) @ 0 # post"
  have at: "byte_at ?m (length pre) = ?b" by (simp add: byte_at_append encode_labels_Cons)
  have "skipDnsName ?m (length pre) = skipDnsName ?m (length pre + 1 + length l)"
    using label_length_byte [OF ok] at
    by (subst skipDnsName.simps) (simp add: Let_def encode_labels_Cons)
  moreover have "?m = (pre @ ?b # latin1 l) @ encode_labels ls @ 0 # post"
    by (simp add: encode_labels_Cons)
  moreover have "length pre + 1 + length l = length (pre @ ?b # latin1 l)" by simp
  ultimately show ?case
    using Cons.IH [of "pre @ ?b # latin1 l"] Cons.prems by (simp add: encode_labels_Cons)
qed

lemma skip_pointer:
  assumes "and b 192 = (192 :: 8 word)"
  shows "skipDnsName (pre @ b # post) (length pre) = Inr (length pre + 2)"
  using assms by (subst skipDnsName.simps) (simp add: byte_at_append)

lemma skipDnsName_progress: "skipDnsName m c = Inr c' \<Longrightarrow> c < c' \<and> c' \<le> length m + 1"
proof (induction m c rule: skipDnsName.induct)
  case (1 m c)
  show ?case
  proof (cases "c < length m")
    case True
    let ?l = "byte_at m c"
    show ?thesis
    proof (cases "and ?l 192 = 192 \<or> ?l = 0")
      case stop: True
      with 1(2) True show ?thesis by (subst (asm) skipDnsName.simps) (auto simp: Let_def split: if_splits)
    next
      case False
      with 1(2) True have "skipDnsName m (c + 1 + unat ?l) = Inr c'"
        by (subst (asm) skipDnsName.simps) (simp add: Let_def)
      from 1(1) [OF True refl _ _ this] False show ?thesis by auto
    qed
  next
    case False
    with 1(2) show ?thesis by (subst (asm) skipDnsName.simps) simp
  qed
qed

section \<open>Responses\<close>

text \<open>
  Responses as servers write them (RFC 1035): a name is a sequence of labels of 1 to 63 bytes, ended by
  the root or by a pointer into what came before; a record has any owner name, type and class.
\<close>

datatype name_end = NameRoot | NamePointer "8 word" "8 word"

type_synonym wire_name = "bytes list \<times> name_end"

record wire_record =
  wr_owner :: wire_name
  wr_type :: nat
  wr_class :: nat
  wr_ttl :: nat
  wr_data :: bytes

record wire_response =
  ws_id :: nat
  ws_flags :: nat
  ws_question :: wire_name
  ws_questionType :: nat
  ws_questionClass :: nat
  ws_answers :: "wire_record list"
  ws_authorities :: nat
  ws_additionals :: nat
  ws_rest :: bytes

fun end_bytes :: "name_end \<Rightarrow> bytes" where
  "end_bytes NameRoot = [0]"
| "end_bytes (NamePointer b c) = [b, c]"

definition name_bytes :: "wire_name \<Rightarrow> bytes" where
  "name_bytes w = concat (map (\<lambda>l. of_nat (length l) # l) (fst w)) @ end_bytes (snd w)"

definition record_bytes :: "wire_record \<Rightarrow> bytes" where
  "record_bytes r = name_bytes (wr_owner r) @ u16_bytes (wr_type r) @ u16_bytes (wr_class r) @ u32_bytes (wr_ttl r)
     @ u16_bytes (length (wr_data r)) @ wr_data r"

definition response_bytes :: "wire_response \<Rightarrow> bytes" where
  "response_bytes w =
     u16_bytes (ws_id w) @ u16_bytes (ws_flags w) @ u16_bytes 1 @ u16_bytes (length (ws_answers w))
       @ u16_bytes (ws_authorities w) @ u16_bytes (ws_additionals w)
       @ name_bytes (ws_question w) @ u16_bytes (ws_questionType w) @ u16_bytes (ws_questionClass w)
       @ concat (map record_bytes (ws_answers w)) @ ws_rest w"

definition wire_name_ok :: "wire_name \<Rightarrow> bool" where
  "wire_name_ok w \<longleftrightarrow> (\<forall>l \<in> set (fst w). 0 < length l \<and> length l < 64) \<and>
     (case snd w of NameRoot \<Rightarrow> True | NamePointer b c \<Rightarrow> and b 192 = 192)"

definition wire_record_ok :: "wire_record \<Rightarrow> bool" where
  "wire_record_ok r \<longleftrightarrow> wire_name_ok (wr_owner r) \<and> wr_type r < 65536 \<and> wr_class r < 65536 \<and> wr_ttl r < 4294967296 \<and>
     length (wr_data r) < 65536"

definition wire_response_ok :: "wire_response \<Rightarrow> bool" where
  "wire_response_ok w \<longleftrightarrow> ws_id w < 65536 \<and> wire_name_ok (ws_question w) \<and> length (ws_answers w) < 65536 \<and>
     (\<forall>r \<in> set (ws_answers w). wire_record_ok r)"

text \<open>An address record of the internet class, and what it says.\<close>

definition holds_address :: "wire_record \<Rightarrow> bool" where
  "holds_address r \<longleftrightarrow> wr_type r = 1 \<and> wr_class r = 1 \<and> length (wr_data r) = 4"

definition address_in :: "wire_record \<Rightarrow> dns_a_result" where
  "address_in r = \<lparr>da_address = dotted (unat (wr_data r ! 0)) (unat (wr_data r ! 1)) (unat (wr_data r ! 2)) (unat (wr_data r ! 3)),
     da_ttlMs = max 1000 (wr_ttl r * 1000)\<rparr>"

lemma byte_length:
  assumes "0 < n" "n < 64"
  shows "unat (of_nat n :: 8 word) = n" "(of_nat n :: 8 word) \<noteq> 0" "and (of_nat n :: 8 word) 192 \<noteq> 192"
proof -
  from assms have "label_ok (replicate n (CHR ''a''))" by (simp add: label_ok_def is_ascii_def char_code_def)
  moreover from this have "length (utf8 (replicate n (CHR ''a''))) = n" by (simp add: label_ok_def utf8_ascii)
  ultimately show "unat (of_nat n :: 8 word) = n" "(of_nat n :: 8 word) \<noteq> 0" "and (of_nat n :: 8 word) 192 \<noteq> 192"
    using label_length_byte [of "replicate n (CHR ''a'')"] by simp_all
qed

lemma skip_name:
  "wire_name_ok w \<Longrightarrow> skipDnsName (pre @ name_bytes w @ post) (length pre) = Inr (length pre + length (name_bytes w))"
proof (induction "fst w" arbitrary: w pre)
  case Nil
  show ?case
  proof (cases "snd w")
    case NameRoot
    with Nil show ?thesis by (subst skipDnsName.simps) (simp add: name_bytes_def byte_at_append)
  next
    case (NamePointer b c)
    with Nil show ?thesis using skip_pointer [of b pre "c # post"] by (simp add: name_bytes_def wire_name_ok_def)
  qed
next
  case (Cons l ls)
  let ?b = "of_nat (length l) :: 8 word" and ?w = "(ls, snd w)"
  from Cons.prems Cons.hyps(2) [symmetric] have l: "0 < length l" "length l < 64" and rest: "wire_name_ok ?w"
    by (simp_all add: wire_name_ok_def)
  have bytes: "name_bytes w = ?b # l @ name_bytes ?w" using Cons.hyps(2) [symmetric] by (simp add: name_bytes_def)
  let ?m = "pre @ name_bytes w @ post"
  have at: "byte_at ?m (length pre) = ?b" by (simp add: byte_at_append bytes)
  have "skipDnsName ?m (length pre) = skipDnsName ?m (length pre + 1 + length l)"
    using byte_length [OF l] at by (subst skipDnsName.simps) (simp add: Let_def bytes)
  moreover have "?m = (pre @ ?b # l) @ name_bytes ?w @ post" by (simp add: bytes)
  moreover have "length pre + 1 + length l = length (pre @ ?b # l)" by simp
  ultimately show ?case using Cons.hyps(1) [of ?w "pre @ ?b # l"] rest by (simp add: bytes)
qed

lemma record_fields:
  assumes "m = pre @ record_bytes r @ post" "wire_record_ok r"
  defines "at \<equiv> length pre + length (name_bytes (wr_owner r))"
  shows "skipDnsName m (length pre) = Inr at"
    "u16_at m at = wr_type r" "u16_at m (at + 2) = wr_class r" "u32_at m (at + 4) = wr_ttl r"
    "u16_at m (at + 8) = length (wr_data r)"
    "at + 10 + length (wr_data r) \<le> length m" "length (pre @ record_bytes r) = at + 10 + length (wr_data r)"
    "i < length (wr_data r) \<Longrightarrow> byte_at m (at + 10 + i) = wr_data r ! i"
proof -
  let ?n = "name_bytes (wr_owner r)" and ?t = "u16_bytes (wr_type r)" and ?c = "u16_bytes (wr_class r)"
    and ?ttl = "u32_bytes (wr_ttl r)" and ?l = "u16_bytes (length (wr_data r))"
  from assms(2) have ok: "wire_name_ok (wr_owner r)" "wr_type r < 65536" "wr_class r < 65536" "wr_ttl r < 4294967296" "length (wr_data r) < 65536"
    by (simp_all add: wire_record_ok_def)
  have m: "m = pre @ ?n @ ?t @ ?c @ ?ttl @ ?l @ wr_data r @ post" using assms(1) by (simp add: record_bytes_def)
  show "skipDnsName m (length pre) = Inr at" unfolding m at_def by (rule skip_name [OF ok(1)])
  have parts: "m = (pre @ ?n) @ ?t @ ?c @ ?ttl @ ?l @ wr_data r @ post" "m = (pre @ ?n @ ?t) @ ?c @ ?ttl @ ?l @ wr_data r @ post"
    "m = (pre @ ?n @ ?t @ ?c) @ ?ttl @ ?l @ wr_data r @ post" "m = (pre @ ?n @ ?t @ ?c @ ?ttl) @ ?l @ wr_data r @ post"
    "m = (pre @ ?n @ ?t @ ?c @ ?ttl @ ?l) @ wr_data r @ post" by (simp_all add: m)
  show "u16_at m at = wr_type r"
    using u16_at_append [of "pre @ ?n" _ 0] u16_at_u16 [OF ok(2)] by (subst parts(1)) (simp add: at_def)
  show "u16_at m (at + 2) = wr_class r"
    using u16_at_append [of "pre @ ?n @ ?t" _ 0] u16_at_u16 [OF ok(3)] by (subst parts(2)) (simp add: at_def add.assoc)
  show "u32_at m (at + 4) = wr_ttl r"
    using u32_at_append [of "pre @ ?n @ ?t @ ?c" _ 0] u32_at_u32 [OF ok(4)] by (subst parts(3)) (simp add: at_def add.assoc)
  show "u16_at m (at + 8) = length (wr_data r)"
    using u16_at_append [of "pre @ ?n @ ?t @ ?c @ ?ttl" _ 0] u16_at_u16 [OF ok(5)] by (subst parts(4)) (simp add: at_def add.assoc)
  show "at + 10 + length (wr_data r) \<le> length m" by (simp add: m at_def)
  show "length (pre @ record_bytes r) = at + 10 + length (wr_data r)" by (simp add: record_bytes_def at_def)
  show "byte_at m (at + 10 + i) = wr_data r ! i" if "i < length (wr_data r)"
  proof -
    obtain P where "m = P @ wr_data r @ post" "length P = at + 10" using parts(5) by (simp add: at_def)
    with that show ?thesis by (simp add: byte_at_append nth_append)
  qed
qed

lemma decode_answers_records:
  assumes "\<forall>r \<in> set rs. wire_record_ok r"
  shows "decode_answers (pre @ concat (map record_bytes rs) @ post) (length rs) (length pre) =
    (case find holds_address rs of
       Some r \<Rightarrow> Inr (address_in r) | None \<Rightarrow> Inl (NetworkError ''DNS response did not contain an A record''))"
  using assms
proof (induction rs arbitrary: pre)
  case (Cons r rs)
  let ?rest = "concat (map record_bytes rs) @ post" and ?at = "length pre + length (name_bytes (wr_owner r))"
  define m where "m = pre @ record_bytes r @ ?rest"
  from Cons.prems have ok: "wire_record_ok r" by simp
  note f = record_fields [OF m_def ok]
  have step: "decode_answers m (Suc (length rs)) (length pre) =
      (if holds_address r
       then Inr \<lparr>da_address = dotted (unat (byte_at m (?at + 10 + 0))) (unat (byte_at m (?at + 10 + 1)))
                   (unat (byte_at m (?at + 10 + 2))) (unat (byte_at m (?at + 10 + 3))), da_ttlMs = max 1000 (wr_ttl r * 1000)\<rparr>
       else decode_answers m (length rs) (length (pre @ record_bytes r)))"
    using f(1-7) by (simp add: holds_address_def Let_def ac_simps del: One_nat_def add_2_eq_Suc add_2_eq_Suc' length_append)
  show ?case
  proof (cases "holds_address r")
    case True
    then have four: "length (wr_data r) = 4" by (simp add: holds_address_def)
    have "decode_answers m (Suc (length rs)) (length pre) = Inr (address_in r)"
      unfolding step address_in_def using True f(8) [of 0] f(8) [of 1] f(8) [of 2] f(8) [of 3] four by simp
    with True show ?thesis by (simp add: m_def)
  next
    case False
    have "m = (pre @ record_bytes r) @ ?rest" by (simp add: m_def)
    with step False have "decode_answers m (Suc (length rs)) (length pre) =
        decode_answers ((pre @ record_bytes r) @ ?rest) (length rs) (length (pre @ record_bytes r))" by simp
    also have "\<dots> = (case find holds_address rs of
        Some r \<Rightarrow> Inr (address_in r) | None \<Rightarrow> Inl (NetworkError ''DNS response did not contain an A record''))"
      by (rule Cons.IH) (use Cons.prems in simp)
    finally show ?thesis using False by (simp add: m_def)
  qed
qed simp

section \<open>Properties\<close>

text \<open>
  Property C36. Reading a well-formed response with the id of the query finds its address: the first
  record of type A and class internet with four bytes decodes to that address in dotted form and its
  time to live in milliseconds, at least one second, whatever records come before and after, whatever
  the owner names (labels, compressed or not) and flags; without such a record it is an error. With any
  other id the response is refused.
\<close>

theorem dns_response_decodes:
  assumes "wire_response_ok w"
  shows "decodeDnsAResponse (response_bytes w) i =
    (if i \<noteq> ws_id w then Inl (NetworkError ''DNS response id mismatch'')
     else case find holds_address (ws_answers w) of
       Some r \<Rightarrow> Inr (address_in r) | None \<Rightarrow> Inl (NetworkError ''DNS response did not contain an A record''))"
proof -
  from assms have ok: "ws_id w < 65536" "wire_name_ok (ws_question w)" "length (ws_answers w) < 65536" "\<forall>r \<in> set (ws_answers w). wire_record_ok r"
    by (simp_all add: wire_response_ok_def)
  let ?h1 = "u16_bytes (ws_id w) @ u16_bytes (ws_flags w) @ u16_bytes 1"
  let ?h = "?h1 @ u16_bytes (length (ws_answers w)) @ u16_bytes (ws_authorities w) @ u16_bytes (ws_additionals w)"
  let ?q = "name_bytes (ws_question w)" and ?qt = "u16_bytes (ws_questionType w) @ u16_bytes (ws_questionClass w)"
  let ?recs = "concat (map record_bytes (ws_answers w)) @ ws_rest w"
  define m where "m = response_bytes w"
  have m: "m = u16_bytes (ws_id w) @ u16_bytes (ws_flags w) @ u16_bytes 1 @ u16_bytes (length (ws_answers w))
      @ u16_bytes (ws_authorities w) @ u16_bytes (ws_additionals w) @ ?q @ ?qt @ ?recs" by (simp add: m_def response_bytes_def)
  have whole: "m = ?h @ ?q @ ?qt @ ?recs" by (simp add: m)
  have long: "\<not> length m < 12" by (simp add: m)
  have i: "u16_at m 0 = ws_id w" unfolding m using u16_at_u16 [OF ok(1)] by simp
  have "m = ?h1 @ u16_bytes (length (ws_answers w)) @ u16_bytes (ws_authorities w) @ u16_bytes (ws_additionals w) @ ?q @ ?qt @ ?recs"
    by (simp add: m)
  then have count: "u16_at m 6 = length (ws_answers w)" using u16_at_append [of ?h1 _ 0] u16_at_u16 [OF ok(3)] by simp
  have skip: "skipDnsName m 12 = Inr (12 + length ?q)" using skip_name [OF ok(2), of ?h "?qt @ ?recs"] by (simp add: whole)
  have "m = (?h @ ?q @ ?qt) @ concat (map record_bytes (ws_answers w)) @ ws_rest w" by (simp add: m)
  moreover have "length (?h @ ?q @ ?qt) = 12 + length ?q + 4" by simp
  ultimately have "decode_answers m (length (ws_answers w)) (12 + length ?q + 4) =
    (case find holds_address (ws_answers w) of
       Some r \<Rightarrow> Inr (address_in r) | None \<Rightarrow> Inl (NetworkError ''DNS response did not contain an A record''))"
    using decode_answers_records [OF ok(4), of "?h @ ?q @ ?qt" "ws_rest w"] by metis
  then have "decodeDnsAResponse m i =
    (if i \<noteq> ws_id w then Inl (NetworkError ''DNS response id mismatch'')
     else case find holds_address (ws_answers w) of
       Some r \<Rightarrow> Inr (address_in r) | None \<Rightarrow> Inl (NetworkError ''DNS response did not contain an A record''))"
    by (simp add: decodeDnsAResponse_def long i count skip)
  then show ?thesis by (simp only: m_def)
qed

text \<open>An alias under an uncompressed name, then the address under a name that ends in a pointer.\<close>

definition sampleResponse :: wire_response where
  "sampleResponse = \<lparr>ws_id = 7, ws_flags = 33152, ws_question = ([[97, 98], [99]], NameRoot), ws_questionType = 1, ws_questionClass = 1,
     ws_answers = [\<lparr>wr_owner = ([[97, 98], [99]], NameRoot), wr_type = 5, wr_class = 1, wr_ttl = 60, wr_data = [1, 120, 192, 15]\<rparr>,
       \<lparr>wr_owner = ([[120]], NamePointer 192 15), wr_type = 1, wr_class = 1, wr_ttl = 300, wr_data = [10, 0, 0, 1]\<rparr>],
     ws_authorities = 0, ws_additionals = 0, ws_rest = []\<rparr>"

theorem dns_response_decodes_witness:
  "decodeDnsAResponse (response_bytes sampleResponse) 7 = Inr \<lparr>da_address = ''10.0.0.1'', da_ttlMs = 300000\<rparr>"
proof -
  have "wire_response_ok sampleResponse" by (simp add: sampleResponse_def wire_response_ok_def wire_record_ok_def wire_name_ok_def)
  moreover have "dotted 10 0 0 1 = ''10.0.0.1''" by code_simp
  ultimately show ?thesis
    using dns_response_decodes [of sampleResponse 7] by (simp add: sampleResponse_def holds_address_def address_in_def)
qed

lemma encode_labels_append: "encode_labels (ls @ ms) = encode_labels ls @ encode_labels ms"
  by (simp add: encode_labels_def)

lemma split_on_snoc: "split_on c (s @ [c]) = split_on c s @ [[]]"
proof (induction s)
  case (Cons x s)
  obtain q qs where "split_on c s = q # qs" by (cases "split_on c s") auto
  with Cons show ?case by auto
qed simp

lemma question_type:
  assumes "m = pre @ encode_labels ls @ 0 # u16_bytes t @ post" "\<forall>l \<in> set ls. label_ok l" "t < 65536"
  shows "\<exists>at. skipDnsName m (length pre) = Inr at \<and> u16_at m at = t"
proof (intro exI conjI)
  show "skipDnsName m (length pre) = Inr (length pre + length (encode_labels ls) + 1)"
    using skip_labels [OF assms(2), of pre "u16_bytes t @ post"] by (simp add: assms(1))
  have "m = (pre @ encode_labels ls @ [0]) @ u16_bytes t @ post" by (simp add: assms(1))
  then show "u16_at m (length pre + length (encode_labels ls) + 1) = t"
    using u16_at_append [of "pre @ encode_labels ls @ [0]" _ 0] u16_at_u16 [OF assms(3)] by simp
qed

text \<open>
  A query with a trailing dot is malformed: for a host written as a fully qualified
  name, the empty last label becomes a second terminating byte, so the name ends one byte early and
  the type of the question that a server reads is 0, not 1. Without the dot it is 1.
\<close>

lemma dns_query_question:
  assumes "\<forall>l \<in> set (split_on (CHR ''.'') host). label_ok l"
  shows "(\<exists>at. skipDnsName (encodeDnsQuery i host) 12 = Inr at \<and> u16_at (encodeDnsQuery i host) at = 1)
     \<and> (\<exists>at. skipDnsName (encodeDnsQuery i (host @ ''.'')) 12 = Inr at
           \<and> u16_at (encodeDnsQuery i (host @ ''.'')) at = 0)"
proof -
  let ?pre = "u16_bytes i @ [1, 0, 0, 1, 0, 0, 0, 0, 0, 0] :: bytes"
  let ?ls = "split_on (CHR ''.'') host"
  have pre: "length ?pre = 12" by simp
  have u: "u16_bytes 1 = [0, 1]" "u16_bytes 0 = [0, 0]" by (simp_all add: u16_bytes_def)
  have "encodeDnsQuery i host = ?pre @ encode_labels ?ls @ 0 # u16_bytes 1 @ [0, 1]"
    by (simp add: encodeDnsQuery_def u del: One_nat_def)
  from question_type [OF this assms] pre have 1:
    "\<exists>at. skipDnsName (encodeDnsQuery i host) 12 = Inr at \<and> u16_at (encodeDnsQuery i host) at = 1" by simp
  have e0: "encode_labels [[]] = [0]" by (simp add: encode_labels_def utf8_def latin1_def)
  have "encodeDnsQuery i (host @ ''.'') = ?pre @ encode_labels ?ls @ 0 # u16_bytes 0 @ [1, 0, 1]"
    using split_on_snoc [of "CHR ''.''" host] by (simp add: encodeDnsQuery_def encode_labels_append e0 u del: One_nat_def)
  from question_type [OF this assms] pre have
    "\<exists>at. skipDnsName (encodeDnsQuery i (host @ ''.'')) 12 = Inr at \<and> u16_at (encodeDnsQuery i (host @ ''.'')) at = 0"
    by simp
  with 1 show ?thesis by blast
qed

lemma deaf_query: "\<not> uq_listening q \<Longrightarrow> fold udp_query_step (map (\<lambda>(m, p, a). Datagram m p a) ds) q = q"
  by (induction ds) auto

text \<open>
  One stray datagram is enough to make a UDP query fail: the listener is registered for
  a single message and is gone once a datagram from another port or address has arrived, so no later
  datagram, the server's own answer included, settles the query; only the timer, an abort or a socket
  error still can.
\<close>

lemma stray_datagram_deafens:
  assumes "uq_listening q" "uq_settled q = None" "port \<noteq> ds_port (uq_server q)"
  shows "uq_settled (fold udp_query_step (Datagram m port address # map (\<lambda>(m, p, a). Datagram m p a) ds) q) = None"
  using assms by (simp add: deaf_query)

text \<open>A query settles once: what its promise settled to does not change.\<close>

lemma settled_step: "uq_settled q = Some r \<Longrightarrow> uq_settled (udp_query_step x q) = Some r"
  by (cases x) (auto simp: settle_query_def)

interpretation dns_query_runs: invariant_system udp_query_step "\<lambda>q. uq_settled q = Some r" for r
  by unfold_locales (rule settled_step)

end
