(* ===== verification/DnsCache.thy ===== *)
theory DnsCache
  imports DnsWire JsMap
begin

text \<open>
  A DNS generation and its caches (\<^verbatim>\<open>src/dns/generation.ts\<close>) and the plan that carries cached
  answers from one generation to the next (\<^verbatim>\<open>src/dns/cacheCarryover.ts\<close>). The two caches are
  JavaScript maps whose order is the order of last use; the positive and the negative entry have
  the same fields but for the address and the message, which are the value here. The keyed SHA-256
  of the resolver's identity and of the configuration are parameters.
\<close>

section \<open>Configuration\<close>

datatype dns_strategy = SystemStrategy | PreferIpv4 | PreferIpv6

record dns_rule =
  dru_domainSuffix :: "string list"
  dru_serverTag :: string

record fake_ip_config =
  fic_enabled :: bool
  fic_range :: "string option"
  fic_cidr :: "string option"
  fic_size :: "nat option"
  fic_ttlSeconds :: "int option"
  fic_persistPath :: "string option"

record doh_config =
  doh_enabled :: bool
  doh_endpoints :: "string list"
  doh_timeoutMs :: int

record dns_config =
  dc_strategy :: dns_strategy
  dc_cacheTtlMs :: int
  dc_cacheMaxEntries :: "nat option"
  dc_negativeTtlMs :: "int option"
  dc_hosts :: "(string, string) jsmap"
  dc_udpServers :: "dns_server list"
  dc_rules :: "dns_rule list"
  dc_fallbackHosts :: "(string, string) jsmap"
  dc_fakeIp :: fake_ip_config
  dc_doh :: doh_config

datatype resolver_mode = ModeSystem | ModeUdp | ModeDoh

definition dnsResolverMode :: "dns_config \<Rightarrow> resolver_mode" where
  "dnsResolverMode c =
     (if dc_strategy c \<noteq> PreferIpv6 \<and> doh_enabled (dc_doh c) \<and> doh_endpoints (dc_doh c) \<noteq> [] then ModeDoh
      else if dc_strategy c \<noteq> PreferIpv6 \<and> dc_udpServers c \<noteq> [] then ModeUdp
      else ModeSystem)"

text \<open>What \<^verbatim>\<open>dnsResolverCompatibilityHash\<close> hashes; key order is irrelevant after sorting.\<close>

record resolver_identity =
  ri_mode :: resolver_mode
  ri_strategy :: dns_strategy
  ri_hosts :: "string \<rightharpoonup> string"
  ri_udpServers :: "dns_server list"
  ri_rules :: "dns_rule list"
  ri_fallbackHosts :: "string \<rightharpoonup> string"
  ri_doh :: doh_config

definition resolverIdentity :: "dns_config \<Rightarrow> resolver_identity" where
  "resolverIdentity c = \<lparr>ri_mode = dnsResolverMode c, ri_strategy = dc_strategy c, ri_hosts = jm_get (dc_hosts c),
     ri_udpServers = dc_udpServers c, ri_rules = dc_rules c, ri_fallbackHosts = jm_get (dc_fallbackHosts c),
     ri_doh = dc_doh c\<rparr>"

definition fakeIpConfigEqual :: "fake_ip_config \<Rightarrow> fake_ip_config \<Rightarrow> bool" where
  "fakeIpConfigEqual left right \<longleftrightarrow> left = right"

section \<open>A generation\<close>

record dns_entry =
  de_host :: string
  de_value :: string
  de_expiresAt :: int
  de_touchedAt :: int
  de_source :: resolver_mode
  de_sensitive :: bool
  de_synthetic :: bool

record dns_counters =
  dct_queries :: nat
  dct_failures :: nat

record dns_flight =
  fl_host :: string
  fl_aborted :: bool

record dns_generation =
  dg_id :: string
  dg_sequence :: nat
  dg_configHash :: string
  dg_upstreamHash :: string
  dg_createdAt :: int
  dg_config :: dns_config
  dg_mode :: resolver_mode
  dg_maxEntries :: nat
  dg_counters :: dns_counters
  dg_positive :: "(string, dns_entry) jsmap"
  dg_negative :: "(string, dns_entry) jsmap"
  dg_flights :: "(string, dns_flight) jsmap"
  dg_queryRefs :: nat
  dg_draining :: bool

record dns_hashes =
  dh_config :: "dns_config \<Rightarrow> string"
  dh_resolver :: "resolver_identity \<Rightarrow> string"

definition newDnsGeneration ::
  "dns_hashes \<Rightarrow> string \<Rightarrow> nat \<Rightarrow> dns_config \<Rightarrow> dns_counters option \<Rightarrow> int \<Rightarrow> dns_generation" where
  "newDnsGeneration hs i sequence config counters now =
     \<lparr>dg_id = i, dg_sequence = sequence, dg_configHash = dh_config hs config,
      dg_upstreamHash = dh_resolver hs (resolverIdentity config), dg_createdAt = now, dg_config = config,
      dg_mode = dnsResolverMode config,
      dg_maxEntries = (case dc_cacheMaxEntries config of Some n \<Rightarrow> n | None \<Rightarrow> 4096),
      dg_counters = (case counters of Some c \<Rightarrow> c | None \<Rightarrow> \<lparr>dct_queries = 0, dct_failures = 0\<rparr>),
      dg_positive = [], dg_negative = [], dg_flights = [], dg_queryRefs = 0, dg_draining = False\<rparr>"

text \<open>One lookup in a cache: expired entries go, a live one moves to the end with a new time.\<close>

definition cache_read ::
  "int \<Rightarrow> string \<Rightarrow> (string, dns_entry) jsmap \<Rightarrow> dns_entry option \<times> (string, dns_entry) jsmap" where
  "cache_read now key m =
     (case jm_get m key of
        None \<Rightarrow> (None, m)
      | Some e \<Rightarrow>
          if de_expiresAt e \<le> now then (None, jm_del key m)
          else (let touched = e\<lparr>de_touchedAt := now\<rparr> in (Some touched, jm_set key touched (jm_del key m))))"

definition getPositive :: "int \<Rightarrow> string \<Rightarrow> dns_generation \<Rightarrow> dns_entry option \<times> dns_generation" where
  "getPositive now host g =
     (let (r, m) = cache_read now (js_lower host) (dg_positive g) in (r, g\<lparr>dg_positive := m\<rparr>))"

definition getNegative :: "int \<Rightarrow> string \<Rightarrow> dns_generation \<Rightarrow> dns_entry option \<times> dns_generation" where
  "getNegative now host g =
     (let (r, m) = cache_read now (js_lower host) (dg_negative g) in (r, g\<lparr>dg_negative := m\<rparr>))"

text \<open>The eviction loop; every round removes one entry, so the number of entries is enough fuel.\<close>

definition drop_positive :: "dns_entry \<Rightarrow> dns_generation \<Rightarrow> dns_generation" where
  "drop_positive e g = g\<lparr>dg_positive := jm_del (de_host e) (dg_positive g)\<rparr>"

definition drop_negative :: "dns_entry \<Rightarrow> dns_generation \<Rightarrow> dns_generation" where
  "drop_negative e g = g\<lparr>dg_negative := jm_del (de_host e) (dg_negative g)\<rparr>"

fun trimCache :: "nat \<Rightarrow> dns_generation \<Rightarrow> dns_generation" where
  "trimCache 0 g = g"
| "trimCache (Suc n) g =
     (if length (dg_positive g) + length (dg_negative g) > dg_maxEntries g
      then (case (jm_vals (dg_positive g), jm_vals (dg_negative g)) of
              ([], []) \<Rightarrow> g
            | (positive # ps, []) \<Rightarrow> trimCache n (drop_positive positive g)
            | ([], negative # ns) \<Rightarrow> trimCache n (drop_negative negative g)
            | (positive # ps, negative # ns) \<Rightarrow>
                if de_touchedAt positive \<le> de_touchedAt negative
                then trimCache n (drop_positive positive g)
                else trimCache n (drop_negative negative g))
      else g)"

definition trim :: "dns_generation \<Rightarrow> dns_generation" where
  "trim g = trimCache (length (dg_positive g) + length (dg_negative g)) g"

definition setPositive :: "dns_entry \<Rightarrow> dns_generation \<Rightarrow> dns_generation" where
  "setPositive e g =
     (let h = js_lower (de_host e) in
      trim (g\<lparr>dg_negative := jm_del h (dg_negative g),
              dg_positive := jm_set h (e\<lparr>de_host := h\<rparr>) (jm_del h (dg_positive g))\<rparr>))"

definition setNegative :: "dns_entry \<Rightarrow> dns_generation \<Rightarrow> dns_generation" where
  "setNegative e g =
     (let h = js_lower (de_host e) in
      trim (g\<lparr>dg_positive := jm_del h (dg_positive g),
              dg_negative := jm_set h (e\<lparr>de_host := h\<rparr>) (jm_del h (dg_negative g))\<rparr>))"

definition beginQuery :: "dns_generation \<Rightarrow> dns_generation" where
  "beginQuery g = g\<lparr>dg_queryRefs := dg_queryRefs g + 1\<rparr>"

definition endQuery :: "dns_generation \<Rightarrow> dns_generation" where
  "endQuery g = g\<lparr>dg_queryRefs := dg_queryRefs g - 1\<rparr>"

definition isReleasable :: "dns_generation \<Rightarrow> bool" where
  "isReleasable g \<longleftrightarrow> dg_draining g \<and> dg_queryRefs g = 0 \<and> dg_flights g = []"

definition abortInFlight :: "dns_generation \<Rightarrow> dns_generation" where
  "abortInFlight g = g\<lparr>dg_flights := map (\<lambda>(k, f). (k, f\<lparr>fl_aborted := True\<rparr>)) (dg_flights g)\<rparr>"

section \<open>Carrying answers over\<close>

record carryover_plan =
  cp_allowed :: bool
  cp_reason :: string
  cp_positive :: "dns_entry list"
  cp_negative :: "dns_entry list"
  cp_carried :: nat
  cp_dropped :: nat

definition carried_entry :: "int \<Rightarrow> int \<Rightarrow> dns_entry \<Rightarrow> dns_entry" where
  "carried_entry now ttl e = e\<lparr>de_expiresAt := min (de_expiresAt e) (now + ttl), de_touchedAt := now\<rparr>"

definition carriable :: "int \<Rightarrow> dns_entry \<Rightarrow> bool" where
  "carriable now e \<longleftrightarrow> de_expiresAt e > now \<and> \<not> de_sensitive e \<and> \<not> de_synthetic e"

definition planDnsCacheCarryover ::
  "dns_hashes \<Rightarrow> dns_generation \<Rightarrow> dns_config \<Rightarrow> int \<Rightarrow> bool \<Rightarrow> carryover_plan result" where
  "planDnsCacheCarryover hs current config now carryNegative =
     (if \<not> fakeIpConfigEqual (dc_fakeIp (dg_config current)) (dc_fakeIp config)
      then Inl (ConfigError ''DNS-only transactional reload rejected high-risk fake-IP configuration change'')
      else
        (let currentPositive = jm_vals (dg_positive current); currentNegative = jm_vals (dg_negative current);
             candidateLimit = (case dc_cacheMaxEntries config of Some n \<Rightarrow> n | None \<Rightarrow> 4096);
             sameResolver = (dg_upstreamHash current = dh_resolver hs (resolverIdentity config));
             fakeIpDisabled = (\<not> fic_enabled (dc_fakeIp (dg_config current)) \<and> \<not> fic_enabled (dc_fakeIp config))
         in if \<not> sameResolver \<or> \<not> fakeIpDisabled
            then Inr \<lparr>cp_allowed = False,
                      cp_reason = (if \<not> sameResolver then ''resolver-identity-changed'' else ''fake-ip-enabled''),
                      cp_positive = [], cp_negative = [], cp_carried = 0,
                      cp_dropped = length currentPositive + length currentNegative\<rparr>
            else
              (let eligible = map (carried_entry now (dc_cacheTtlMs config)) (filter (carriable now) currentPositive);
                   positive = drop (length eligible - candidateLimit) eligible;
                   negative = (if carryNegative
                     then take (candidateLimit - length positive)
                            (map (carried_entry now (case dc_negativeTtlMs config of Some n \<Rightarrow> n | None \<Rightarrow> 5000))
                               (filter (carriable now) currentNegative))
                     else []);
                   carried = length positive + length negative
               in Inr \<lparr>cp_allowed = True, cp_reason = ''compatible-resolver'', cp_positive = positive,
                       cp_negative = negative, cp_carried = carried,
                       cp_dropped = length currentPositive + length currentNegative - carried\<rparr>)))"

definition applyDnsCacheCarryover :: "carryover_plan \<Rightarrow> dns_generation \<Rightarrow> dns_generation" where
  "applyDnsCacheCarryover plan g = fold setNegative (cp_negative plan) (fold setPositive (cp_positive plan) g)"

section \<open>The invariant of the caches\<close>

definition cache_half :: "(string, dns_entry) jsmap \<Rightarrow> bool" where
  "cache_half m \<longleftrightarrow> jm_ok m \<and> (\<forall>(k, e) \<in> set m. de_host e = k \<and> js_lower k = k)"

definition cache_ok :: "dns_generation \<Rightarrow> bool" where
  "cache_ok g \<longleftrightarrow> cache_half (dg_positive g) \<and> cache_half (dg_negative g) \<and>
     (\<forall>k. jm_has (dg_positive g) k \<longrightarrow> \<not> jm_has (dg_negative g) k)"

definition cache_size :: "dns_generation \<Rightarrow> nat" where
  "cache_size g = length (dg_positive g) + length (dg_negative g)"

definition touches :: "(string, dns_entry) jsmap \<Rightarrow> int list" where
  "touches m = map (\<lambda>p. de_touchedAt (snd p)) m"

lemma cache_half_Cons: "cache_half ((k, e) # m) \<longleftrightarrow> de_host e = k \<and> js_lower k = k \<and> \<not> jm_has m k \<and> cache_half m"
  by (auto simp: cache_half_def jm_ok_Cons)

lemma cache_half_del: "cache_half m \<Longrightarrow> cache_half (jm_del k m)"
  by (auto simp: cache_half_def set_jm_del)

lemma cache_half_put: "cache_half m \<Longrightarrow> js_lower k = k \<Longrightarrow> de_host e = k \<Longrightarrow> cache_half (jm_set k e (jm_del k m))"
  by (auto simp: cache_half_def set_jm_set set_jm_del)

lemma put_at_end: "jm_set k e (jm_del k m) = jm_del k m @ [(k, e)]"
  by (rule jm_set_absent) simp

lemma cache_half_drop: "cache_half m \<Longrightarrow> cache_half (drop n m)"
proof (induction m arbitrary: n)
  case (Cons p m)
  then show ?case by (cases p; cases n) (auto simp: cache_half_Cons)
qed simp

lemma jm_has_drop: "jm_has (drop n m) k \<Longrightarrow> jm_has m k"
  by (auto simp: jm_has_def dest: in_set_dropD)

lemma drop_head_positive: "cache_half ((k, e) # ps) \<Longrightarrow> dg_positive g = (k, e) # ps \<Longrightarrow>
    drop_positive e g = g\<lparr>dg_positive := ps\<rparr>"
  by (simp add: drop_positive_def cache_half_Cons jm_del_absent)

lemma drop_head_negative: "cache_half ((k, e) # ps) \<Longrightarrow> dg_negative g = (k, e) # ps \<Longrightarrow>
    drop_negative e g = g\<lparr>dg_negative := ps\<rparr>"
  by (simp add: drop_negative_def cache_half_Cons jm_del_absent)

text \<open>
  What the eviction loop does: it drops a front part of each cache, as many entries as there are
  too many, and when both are in order of use, nothing it drops was used after anything it keeps.
\<close>

definition evicts :: "nat \<Rightarrow> dns_generation \<Rightarrow> nat \<Rightarrow> nat \<Rightarrow> bool" where
  "evicts n g i j \<longleftrightarrow> i \<le> length (dg_positive g) \<and> j \<le> length (dg_negative g) \<and>
     i + j = min n (cache_size g - dg_maxEntries g) \<and>
     (sorted (touches (dg_positive g)) \<and> sorted (touches (dg_negative g)) \<longrightarrow>
        (\<forall>x \<in> set (take i (touches (dg_positive g)) @ take j (touches (dg_negative g))).
         \<forall>y \<in> set (drop i (touches (dg_positive g)) @ drop j (touches (dg_negative g))). x \<le> y))"

definition cut_front :: "nat \<Rightarrow> nat \<Rightarrow> dns_generation \<Rightarrow> dns_generation" where
  "cut_front i j g = g\<lparr>dg_positive := drop i (dg_positive g), dg_negative := drop j (dg_negative g)\<rparr>"

lemma touches_Cons [simp]: "touches ((k, e) # m) = de_touchedAt e # touches m"
  by (simp add: touches_def)

lemma touches_Nil [simp]: "touches [] = []"
  by (simp add: touches_def)

lemma sorted_hd: "sorted xs \<Longrightarrow> xs = [] \<or> x \<le> hd xs \<Longrightarrow> y \<in> set xs \<Longrightarrow> x \<le> (y :: int)"
  by (cases xs) auto

lemma evicts_positive:
  assumes "dg_positive g = (k, e) # ps" "dg_maxEntries g < cache_size g"
    and "touches (dg_negative g) = [] \<or> de_touchedAt e \<le> hd (touches (dg_negative g))"
    and "evicts n (g\<lparr>dg_positive := ps\<rparr>) i j"
  shows "evicts (Suc n) g (Suc i) j"
proof -
  have "de_touchedAt e \<le> y" if "sorted (touches (dg_negative g))" "y \<in> set (touches (dg_negative g))" for y
    by (rule sorted_hd [OF that(1) assms(3) that(2)])
  then show ?thesis
    using assms(1,2,4) by (auto simp: evicts_def cache_size_def dest: in_set_dropD)
qed

lemma evicts_negative:
  assumes "dg_negative g = (k, e) # ps" "dg_maxEntries g < cache_size g"
    and "touches (dg_positive g) = [] \<or> de_touchedAt e \<le> hd (touches (dg_positive g))"
    and "evicts n (g\<lparr>dg_negative := ps\<rparr>) i j"
  shows "evicts (Suc n) g i (Suc j)"
proof -
  have "de_touchedAt e \<le> y" if "sorted (touches (dg_positive g))" "y \<in> set (touches (dg_positive g))" for y
    by (rule sorted_hd [OF that(1) assms(3) that(2)])
  then show ?thesis
    using assms(1,2,4) by (auto simp: evicts_def cache_size_def dest: in_set_dropD)
qed

lemma trimCache_cut:
  "cache_half (dg_positive g) \<Longrightarrow> cache_half (dg_negative g) \<Longrightarrow> \<exists>i j. trimCache n g = cut_front i j g \<and> evicts n g i j"
proof (induction n arbitrary: g)
  case 0
  then show ?case by (intro exI [of _ 0]) (simp add: cut_front_def evicts_def)
next
  case (Suc n)
  note half = Suc.prems
  show ?case
  proof (cases "dg_maxEntries g < cache_size g")
    case False
    then show ?thesis by (intro exI [of _ 0]) (auto simp: cut_front_def evicts_def cache_size_def)
  next
    case True
    have P: ?thesis if pos: "dg_positive g = (k, e) # ps"
      and le: "touches (dg_negative g) = [] \<or> de_touchedAt e \<le> hd (touches (dg_negative g))" for k e ps
    proof -
      from half(1) have "cache_half ps" by (simp add: pos cache_half_Cons)
      with Suc.IH [of "g\<lparr>dg_positive := ps\<rparr>"] half(2) obtain i j where
        ij: "trimCache n (g\<lparr>dg_positive := ps\<rparr>) = cut_front i j (g\<lparr>dg_positive := ps\<rparr>)"
          "evicts n (g\<lparr>dg_positive := ps\<rparr>) i j" by auto
      have "trimCache (Suc n) g = trimCache n (drop_positive e g)"
        using True le by (auto simp: pos cache_size_def jm_vals_def touches_def split: list.splits)
      also have "\<dots> = cut_front (Suc i) j g"
        using drop_head_positive [OF half(1) [unfolded pos] pos] ij(1) by (simp add: cut_front_def pos)
      finally show ?thesis using evicts_positive [OF pos True le ij(2)] by blast
    qed
    have N: ?thesis if neg: "dg_negative g = (k, e) # ps"
      and le: "touches (dg_positive g) = [] \<or> de_touchedAt e < hd (touches (dg_positive g))" for k e ps
    proof -
      from half(2) have "cache_half ps" by (simp add: neg cache_half_Cons)
      with Suc.IH [of "g\<lparr>dg_negative := ps\<rparr>"] half(1) obtain i j where
        ij: "trimCache n (g\<lparr>dg_negative := ps\<rparr>) = cut_front i j (g\<lparr>dg_negative := ps\<rparr>)"
          "evicts n (g\<lparr>dg_negative := ps\<rparr>) i j" by auto
      have "trimCache (Suc n) g = trimCache n (drop_negative e g)"
        using True le by (auto simp: neg cache_size_def jm_vals_def touches_def split: list.splits)
      also have "\<dots> = cut_front i (Suc j) g"
        using drop_head_negative [OF half(2) [unfolded neg] neg] ij(1) by (simp add: cut_front_def neg)
      finally show ?thesis using evicts_negative [OF neg True _ ij(2)] le by (meson less_imp_le)
    qed
    show ?thesis
    proof (cases "touches (dg_negative g) = [] \<or> (touches (dg_positive g) \<noteq> [] \<and> hd (touches (dg_positive g)) \<le> hd (touches (dg_negative g)))")
      case p: True
      with True obtain k e ps where pos: "dg_positive g = (k, e) # ps"
        by (cases "dg_positive g") (auto simp: cache_size_def touches_def)
      from p pos show ?thesis by (intro P [OF pos]) simp
    next
      case n: False
      then obtain k e ps where neg: "dg_negative g = (k, e) # ps"
        by (cases "dg_negative g") auto
      from n neg show ?thesis by (intro N [OF neg]) auto
    qed
  qed
qed

lemma trim_cut:
  assumes "cache_half (dg_positive g)" "cache_half (dg_negative g)"
  shows "\<exists>i j. trim g = cut_front i j g \<and> evicts (cache_size g) g i j"
  using trimCache_cut [OF assms] by (simp add: trim_def cache_size_def)

lemma cut_ok: "cache_ok g \<Longrightarrow> cache_ok (cut_front i j g)"
  by (auto simp: cache_ok_def cut_front_def cache_half_drop dest!: jm_has_drop)

lemma evicts_size:
  assumes "evicts (cache_size g) g i j"
  shows "cache_size (cut_front i j g) = min (cache_size g) (dg_maxEntries g)"
  using assms by (auto simp: evicts_def cut_front_def cache_size_def)

lemma trim_ok: "cache_ok g \<Longrightarrow> cache_ok (trim g) \<and> cache_size (trim g) = min (cache_size g) (dg_maxEntries g)"
  using trim_cut [of g] cut_ok [of g] evicts_size [of g] unfolding cache_ok_def by metis

section \<open>Operations on the caches\<close>

lemma cache_read_half: "cache_half m \<Longrightarrow> js_lower k = k \<Longrightarrow> cache_half (snd (cache_read now k m))"
proof (cases "jm_get m k")
  case (Some e)
  assume m: "cache_half m" "js_lower k = k"
  then have "de_host e = k" using jm_get_Some_in [OF Some] by (auto simp: cache_half_def)
  with m Some show ?thesis by (auto simp: cache_read_def Let_def intro!: cache_half_put cache_half_del)
qed (simp add: cache_read_def)

lemma cache_read_has: "jm_has (snd (cache_read now k m)) l \<Longrightarrow> jm_has m l"
  by (auto simp: cache_read_def Let_def jm_has_get split: option.splits if_splits)

lemma cache_read_length: "cache_half m \<Longrightarrow> length (snd (cache_read now k m)) \<le> length m"
  using jm_get_Some_in [of m k]
  by (cases "length m") (auto simp: cache_read_def Let_def length_jm_set length_jm_del jm_has_get cache_half_def
      split: option.splits)

lemma get_ok:
  assumes "cache_ok g"
  shows "cache_ok (snd (getPositive now host g)) \<and> cache_size (snd (getPositive now host g)) \<le> cache_size g"
    "cache_ok (snd (getNegative now host g)) \<and> cache_size (snd (getNegative now host g)) \<le> cache_size g"
  using assms cache_read_half [of _ "js_lower host" now] cache_read_length [of _ now "js_lower host"]
  by (auto simp: cache_ok_def cache_size_def getPositive_def getNegative_def case_prod_beta dest: cache_read_has)

definition put_positive :: "dns_entry \<Rightarrow> dns_generation \<Rightarrow> dns_generation" where
  "put_positive e g = (let h = js_lower (de_host e) in
     g\<lparr>dg_negative := jm_del h (dg_negative g), dg_positive := jm_del h (dg_positive g) @ [(h, e\<lparr>de_host := h\<rparr>)]\<rparr>)"

definition put_negative :: "dns_entry \<Rightarrow> dns_generation \<Rightarrow> dns_generation" where
  "put_negative e g = (let h = js_lower (de_host e) in
     g\<lparr>dg_positive := jm_del h (dg_positive g), dg_negative := jm_del h (dg_negative g) @ [(h, e\<lparr>de_host := h\<rparr>)]\<rparr>)"

lemma set_trim: "setPositive e g = trim (put_positive e g)" "setNegative e g = trim (put_negative e g)"
  by (simp_all add: setPositive_def setNegative_def put_positive_def put_negative_def put_at_end Let_def)

lemma put_ok:
  assumes "cache_ok g"
  shows "cache_ok (put_positive e g)" "cache_ok (put_negative e g)"
proof -
  have half: "cache_half (jm_del h m @ [(h, e\<lparr>de_host := h\<rparr>)])" if "cache_half m" "js_lower h = h" for m h
    using cache_half_put [OF that, of "e\<lparr>de_host := h\<rparr>"] by (simp add: put_at_end)
  have has: "jm_has (jm_del h m @ [(h, x)]) l \<longleftrightarrow> l = h \<or> jm_has m l" for h x l and m :: "(string, dns_entry) jsmap"
    by (auto simp flip: put_at_end)
  show "cache_ok (put_positive e g)" "cache_ok (put_negative e g)"
    using assms half cache_half_del
    by (auto simp: cache_ok_def put_positive_def put_negative_def Let_def has)
qed

lemma set_ok:
  assumes "cache_ok g"
  shows "cache_ok (setPositive e g) \<and> cache_size (setPositive e g) \<le> dg_maxEntries g"
    "cache_ok (setNegative e g) \<and> cache_size (setNegative e g) \<le> dg_maxEntries g"
  using trim_ok [OF put_ok(1) [OF assms, of e]] trim_ok [OF put_ok(2) [OF assms, of e]]
  by (simp_all add: set_trim put_positive_def put_negative_def Let_def)

datatype cache_op = LookupPositive int string | LookupNegative int string | StorePositive dns_entry | StoreNegative dns_entry

fun cache_step :: "cache_op \<Rightarrow> dns_generation \<Rightarrow> dns_generation" where
  "cache_step (LookupPositive now h) g = snd (getPositive now h g)"
| "cache_step (LookupNegative now h) g = snd (getNegative now h g)"
| "cache_step (StorePositive e) g = setPositive e g"
| "cache_step (StoreNegative e) g = setNegative e g"

fun op_time :: "cache_op \<Rightarrow> int" where
  "op_time (LookupPositive now h) = now"
| "op_time (LookupNegative now h) = now"
| "op_time (StorePositive e) = de_touchedAt e"
| "op_time (StoreNegative e) = de_touchedAt e"

lemma trim_fields:
  "dg_maxEntries (trimCache n g) = dg_maxEntries g"
  by (induction n g rule: trimCache.induct)
    (auto simp: drop_positive_def drop_negative_def split: list.splits)

lemma trim_shape: "\<exists>ps ns. trimCache k g = g\<lparr>dg_positive := ps, dg_negative := ns\<rparr>"
proof (induction k arbitrary: g)
  case 0
  show ?case by (rule exI [of _ "dg_positive g"], rule exI [of _ "dg_negative g"]) simp
next
  case (Suc k)
  have same: "\<exists>ps ns. g = g\<lparr>dg_positive := ps, dg_negative := ns\<rparr>"
    by (rule exI [of _ "dg_positive g"], rule exI [of _ "dg_negative g"]) simp
  have drop: "\<exists>ps ns. trimCache k (drop_positive e g) = g\<lparr>dg_positive := ps, dg_negative := ns\<rparr>"
    "\<exists>ps ns. trimCache k (drop_negative e g) = g\<lparr>dg_positive := ps, dg_negative := ns\<rparr>" for e
    using Suc.IH [of "drop_positive e g"] Suc.IH [of "drop_negative e g"]
    by (auto simp: drop_positive_def drop_negative_def)
  show ?case using same drop by (auto simp only: trimCache.simps prod.case split: list.split if_split)
qed

lemma trim_keeps:
  "dg_id (trimCache k g) = dg_id g" "dg_queryRefs (trimCache k g) = dg_queryRefs g"
  "dg_draining (trimCache k g) = dg_draining g" "dg_flights (trimCache k g) = dg_flights g"
  "dg_config (trimCache k g) = dg_config g" "dg_configHash (trimCache k g) = dg_configHash g"
  "dg_upstreamHash (trimCache k g) = dg_upstreamHash g"
  using trim_shape [of k g] by auto

lemma set_keeps:
  "dg_id (setPositive e g) = dg_id g" "dg_queryRefs (setPositive e g) = dg_queryRefs g"
  "dg_draining (setPositive e g) = dg_draining g" "dg_flights (setPositive e g) = dg_flights g"
  "dg_config (setPositive e g) = dg_config g" "dg_configHash (setPositive e g) = dg_configHash g"
  "dg_upstreamHash (setPositive e g) = dg_upstreamHash g"
  "dg_id (setNegative e g) = dg_id g" "dg_queryRefs (setNegative e g) = dg_queryRefs g"
  "dg_draining (setNegative e g) = dg_draining g" "dg_flights (setNegative e g) = dg_flights g"
  "dg_config (setNegative e g) = dg_config g" "dg_configHash (setNegative e g) = dg_configHash g"
  "dg_upstreamHash (setNegative e g) = dg_upstreamHash g"
  by (simp_all add: setPositive_def setNegative_def Let_def trim_def trim_keeps)

lemma carryover_keeps:
  "dg_config (applyDnsCacheCarryover plan g) = dg_config g" "dg_configHash (applyDnsCacheCarryover plan g) = dg_configHash g"
  "dg_upstreamHash (applyDnsCacheCarryover plan g) = dg_upstreamHash g" "dg_id (applyDnsCacheCarryover plan g) = dg_id g"
  "dg_flights (applyDnsCacheCarryover plan g) = dg_flights g" "dg_queryRefs (applyDnsCacheCarryover plan g) = dg_queryRefs g"
proof -
  let ?same = "\<lambda>g h. dg_config h = dg_config g \<and> dg_configHash h = dg_configHash g \<and> dg_upstreamHash h = dg_upstreamHash g \<and>
     dg_id h = dg_id g \<and> dg_flights h = dg_flights g \<and> dg_queryRefs h = dg_queryRefs g"
  have "?same g (fold setPositive es g)" "?same g (fold setNegative es g)" for es g
    by (induction es arbitrary: g) (simp_all add: set_keeps)
  then have "?same g (applyDnsCacheCarryover plan g)" by (simp add: applyDnsCacheCarryover_def)
  then show "dg_config (applyDnsCacheCarryover plan g) = dg_config g" "dg_configHash (applyDnsCacheCarryover plan g) = dg_configHash g"
    "dg_upstreamHash (applyDnsCacheCarryover plan g) = dg_upstreamHash g" "dg_id (applyDnsCacheCarryover plan g) = dg_id g"
    "dg_flights (applyDnsCacheCarryover plan g) = dg_flights g" "dg_queryRefs (applyDnsCacheCarryover plan g) = dg_queryRefs g"
    by blast+
qed

lemma cache_step_max: "dg_maxEntries (cache_step x g) = dg_maxEntries g"
  by (cases x) (simp_all add: getPositive_def getNegative_def case_prod_beta setPositive_def setNegative_def
      trim_def trim_fields Let_def)

definition cache_bounded :: "nat \<Rightarrow> dns_generation \<Rightarrow> bool" where
  "cache_bounded n g \<longleftrightarrow> cache_ok g \<and> dg_maxEntries g = n \<and> cache_size g \<le> n"

lemma cache_step_bounded: "cache_bounded n g \<Longrightarrow> cache_bounded n (cache_step x g)"
  using get_ok [of g] set_ok [of g] cache_step_max [of x g] unfolding cache_bounded_def
  by (cases x) (metis cache_step.simps order_trans)+

interpretation dns_cache: invariant_system cache_step "cache_bounded n" for n
  by unfold_locales (rule cache_step_bounded)

lemma cache_bounded_new: "cache_bounded (dg_maxEntries (newDnsGeneration hs i n c k t)) (newDnsGeneration hs i n c k t)"
  by (simp add: cache_bounded_def cache_ok_def cache_half_def cache_size_def newDnsGeneration_def jm_has_def)

subsection \<open>Order of use\<close>

definition cache_sorted :: "int \<Rightarrow> dns_generation \<Rightarrow> bool" where
  "cache_sorted t g \<longleftrightarrow> sorted (touches (dg_positive g) @ [t]) \<and> sorted (touches (dg_negative g) @ [t])"

fun in_order :: "int \<Rightarrow> cache_op list \<Rightarrow> bool" where
  "in_order t [] = True"
| "in_order t (x # xs) = (t \<le> op_time x \<and> in_order (op_time x) xs)"

lemma touches_append [simp]: "touches (m @ n) = touches m @ touches n"
  by (simp add: touches_def)

lemma sorted_touches_del: "sorted (touches m @ [t]) \<Longrightarrow> sorted (touches (jm_del k m) @ [t])"
  by (induction m) (auto simp: set_jm_del touches_def)

lemma sorted_touches_drop: "sorted (touches m @ [t]) \<Longrightarrow> sorted (touches (drop n m) @ [t])"
  unfolding touches_def drop_map [symmetric] by (auto simp: sorted_append sorted_wrt_drop simp del: drop_map set_map dest: in_set_dropD)

lemma sorted_touches_later: "sorted (touches m @ [t]) \<Longrightarrow> t \<le> u \<Longrightarrow> sorted (touches m @ [u])"
  by (auto simp: sorted_append)

lemma sorted_touches_put:
  assumes "sorted (touches m @ [t])" "t \<le> de_touchedAt e"
  shows "sorted (touches (jm_del k m @ [(k, e)]) @ [de_touchedAt e])"
  using sorted_touches_del [OF sorted_touches_later [OF assms], of k] by (auto simp: sorted_append)

lemma sorted_touches_read:
  assumes "sorted (touches m @ [t])" "t \<le> now"
  shows "sorted (touches (snd (cache_read now k m)) @ [now])"
  using sorted_touches_put [OF assms(1), of "e\<lparr>de_touchedAt := now\<rparr>" k for e] assms(2)
    sorted_touches_del [OF sorted_touches_later [OF assms]] sorted_touches_later [OF assms]
  by (auto simp: cache_read_def Let_def put_at_end split: option.splits)

lemma cache_sorted_cut: "cache_sorted t g \<Longrightarrow> cache_sorted t (cut_front i j g)"
  by (simp add: cache_sorted_def cut_front_def sorted_touches_drop)

lemma cache_sorted_put:
  assumes "cache_sorted t g" "t \<le> de_touchedAt e"
  shows "cache_sorted (de_touchedAt e) (put_positive e g)" "cache_sorted (de_touchedAt e) (put_negative e g)"
  using assms sorted_touches_put [of _ t "e\<lparr>de_host := js_lower (de_host e)\<rparr>"]
    sorted_touches_del [OF sorted_touches_later [OF _ assms(2)]]
  by (auto simp: cache_sorted_def put_positive_def put_negative_def Let_def)

lemma cache_step_sorted:
  assumes "cache_ok g" "cache_sorted t g" "t \<le> op_time x"
  shows "cache_sorted (op_time x) (cache_step x g)"
proof -
  have trim: "cache_sorted u (trim g')" if "cache_ok g'" "cache_sorted u g'" for u g'
    using trim_cut [of g'] that cache_sorted_cut [OF that(2)] by (auto simp: cache_ok_def)
  show ?thesis
  proof (cases x)
    case (LookupPositive now h)
    with assms sorted_touches_read sorted_touches_later show ?thesis
      by (fastforce simp: cache_sorted_def getPositive_def case_prod_beta)
  next
    case (LookupNegative now h)
    with assms sorted_touches_read sorted_touches_later show ?thesis
      by (fastforce simp: cache_sorted_def getNegative_def case_prod_beta)
  next
    case (StorePositive e)
    with assms show ?thesis using trim [OF put_ok(1) [OF assms(1)] cache_sorted_put(1) [OF assms(2)]]
      by (simp add: set_trim)
  next
    case (StoreNegative e)
    with assms show ?thesis using trim [OF put_ok(2) [OF assms(1)] cache_sorted_put(2) [OF assms(2)]]
      by (simp add: set_trim)
  qed
qed

lemma cache_run_sorted:
  "cache_bounded n g \<Longrightarrow> cache_sorted t g \<Longrightarrow> in_order t xs \<Longrightarrow>
     cache_sorted (last (t # map op_time xs)) (fold cache_step xs g)"
proof (induction xs arbitrary: g t)
  case (Cons x xs)
  have ok: "cache_ok g" using Cons.prems(1) by (simp add: cache_bounded_def)
  have "cache_sorted (op_time x) (cache_step x g)"
    using cache_step_sorted [OF ok Cons.prems(2)] Cons.prems(3) by simp
  from Cons.IH [OF cache_step_bounded [OF Cons.prems(1)] this] Cons.prems(3) show ?case by (simp split: if_splits)
qed simp

section \<open>Properties\<close>

definition cached :: "dns_generation \<Rightarrow> dns_entry set" where
  "cached g = set (jm_vals (dg_positive g)) \<union> set (jm_vals (dg_negative g))"

lemma dns_cache_run:
  "cache_bounded (dg_maxEntries (newDnsGeneration hs i n c k t)) (fold cache_step ops (newDnsGeneration hs i n c k t))"
  by (rule dns_cache.run_keeps [OF cache_bounded_new])

text \<open>Property C31. The cache of a DNS generation is bounded and consistent: whatever lookups and stores it
  has seen since it was created, it holds at most the configured number of entries, no host has
  both a positive and a negative entry, and every entry is filed under its own lower-cased host.\<close>

theorem dns_cache_bounded:
  assumes "g = fold cache_step ops (newDnsGeneration hs i n c k t)"
  shows "length (dg_positive g) + length (dg_negative g) \<le> (case dc_cacheMaxEntries c of Some m \<Rightarrow> m | None \<Rightarrow> 4096) \<and>
    (\<forall>h. \<not> (jm_has (dg_positive g) h \<and> jm_has (dg_negative g) h)) \<and>
    (\<forall>h e. jm_get (dg_positive g) h = Some e \<or> jm_get (dg_negative g) h = Some e \<longrightarrow> de_host e = h \<and> js_lower h = h)"
proof -
  have b: "cache_bounded (dg_maxEntries (newDnsGeneration hs i n c k t)) g" unfolding assms by (rule dns_cache_run)
  then have "jm_get (dg_positive g) h = Some e \<or> jm_get (dg_negative g) h = Some e \<Longrightarrow> de_host e = h \<and> js_lower h = h" for h e
    using jm_get_Some_in [of "dg_positive g" h e] jm_get_Some_in [of "dg_negative g" h e]
    by (auto simp: cache_bounded_def cache_ok_def cache_half_def)
  with b show ?thesis by (auto simp: cache_bounded_def cache_ok_def cache_size_def newDnsGeneration_def)
qed

lemma set_vals_drop: "set (jm_vals m) = set (jm_vals (take i m)) \<union> set (jm_vals (drop i m))"
proof -
  have "jm_vals m = jm_vals (take i m) @ jm_vals (drop i m)" unfolding jm_vals_def by (simp flip: map_append)
  then show ?thesis by simp
qed

lemma touched_in: "e \<in> set (jm_vals m) \<Longrightarrow> de_touchedAt e \<in> set (touches m)"
  by (force simp: jm_vals_def touches_def)

text \<open>What is dropped by trimming was used no later than what stays.\<close>

lemma trim_lru:
  assumes "cache_ok g" "cache_sorted t g" "x \<in> cached g" "x \<notin> cached (trim g)" "y \<in> cached (trim g)"
  shows "de_touchedAt x \<le> de_touchedAt y"
proof -
  obtain i j where ij: "trim g = cut_front i j g" "evicts (cache_size g) g i j"
    using trim_cut [of g] assms(1) unfolding cache_ok_def by blast
  have x: "x \<in> set (jm_vals (take i (dg_positive g))) \<or> x \<in> set (jm_vals (take j (dg_negative g)))"
    using assms(3,4) set_vals_drop [of "dg_positive g" i] set_vals_drop [of "dg_negative g" j]
    by (auto simp: cached_def ij cut_front_def)
  have y: "y \<in> set (jm_vals (drop i (dg_positive g))) \<or> y \<in> set (jm_vals (drop j (dg_negative g)))"
    using assms(5) by (auto simp: cached_def ij cut_front_def)
  have "de_touchedAt x \<in> set (take i (touches (dg_positive g)) @ take j (touches (dg_negative g)))"
    using x touched_in by (fastforce simp: touches_def take_map)
  moreover have "de_touchedAt y \<in> set (drop i (touches (dg_positive g)) @ drop j (touches (dg_negative g)))"
    using y touched_in by (fastforce simp: touches_def drop_map)
  ultimately show ?thesis
    using ij(2) assms(2) by (auto simp: evicts_def cache_sorted_def sorted_append)
qed

text \<open>Eviction is by least recent use: when the clock of the calls never goes back, an entry
  that storing an answer drops from the cache, other than the old entry of the same host, was last
  used no later than any entry that stays.\<close>

lemma dns_cache_lru:
  assumes "in_order t0 ops" "g = fold cache_step ops (newDnsGeneration hs i n c k t)"
    and "last (t0 # map op_time ops) \<le> de_touchedAt e"
    and "g' \<in> {setPositive e g, setNegative e g}"
    and "x \<in> cached g" "de_host x \<noteq> js_lower (de_host e)" "x \<notin> cached g'" "y \<in> cached g'"
  shows "de_touchedAt x \<le> de_touchedAt y"
proof -
  have new: "cache_sorted t0 (newDnsGeneration hs i n c k t)" by (simp add: cache_sorted_def newDnsGeneration_def)
  have ok: "cache_ok g" using dns_cache_run [of hs i n c k t ops] by (simp add: assms(2) cache_bounded_def)
  have sorted: "cache_sorted (last (t0 # map op_time ops)) g"
    using cache_run_sorted [OF cache_bounded_new new assms(1)] by (simp add: assms(2))
  have kept: "x \<in> cached (put_positive e g) \<and> x \<in> cached (put_negative e g)"
  proof -
    have "x \<in> set (jm_vals (jm_del (js_lower (de_host e)) m))" if "cache_half m" "x \<in> set (jm_vals m)" for m
      using that assms(6) by (force simp: cache_half_def jm_vals_def set_jm_del)
    with ok assms(5) have "x \<in> set (jm_vals (jm_del (js_lower (de_host e)) (dg_positive g))) \<or>
        x \<in> set (jm_vals (jm_del (js_lower (de_host e)) (dg_negative g)))"
      by (auto simp: cached_def cache_ok_def)
    then show ?thesis
      by (auto simp: cached_def put_positive_def put_negative_def Let_def jm_vals_def)
  qed
  from assms(4) show ?thesis
    using trim_lru [OF put_ok(1) [OF ok] cache_sorted_put(1) [OF sorted assms(3)], of x y]
      trim_lru [OF put_ok(2) [OF ok] cache_sorted_put(2) [OF sorted assms(3)], of x y] kept assms(7,8)
    by (auto simp: set_trim)
qed

lemma cached_size: "cached g = {} \<longleftrightarrow> cache_size g = 0"
  by (auto simp: cached_def cache_size_def jm_vals_def)

lemma cached_cut: "cached (cut_front i j g) \<subseteq> cached g"
  using set_vals_drop [of "dg_positive g" i] set_vals_drop [of "dg_negative g" j]
  by (auto simp: cached_def cut_front_def)

lemma in_half: "cache_half m \<Longrightarrow> e \<in> set (jm_vals m) \<longleftrightarrow> (de_host e, e) \<in> set m"
  by (force simp: cache_half_def jm_vals_def)

text \<open>An answer that has just been stored is found: in a cache with room for one entry, if the
  new entry is newer than every use so far, a lookup of its host, in any case, returns it until it
  expires, and the host's failure is forgotten.\<close>

lemma dns_cache_lookup:
  assumes "in_order t0 ops" "g = fold cache_step ops (newDnsGeneration hs i n c k t)"
    and "last (t0 # map op_time ops) < de_touchedAt e" "0 < dg_maxEntries g"
    and "js_lower host = js_lower (de_host e)"
  shows "fst (getPositive now host (setPositive e g)) =
       (if de_expiresAt e \<le> now then None else Some (e\<lparr>de_host := js_lower host, de_touchedAt := now\<rparr>)) \<and>
    fst (getNegative now host (setPositive e g)) = None"
proof -
  let ?h = "js_lower (de_host e)" and ?p = "put_positive e g"
  let ?e = "e\<lparr>de_host := ?h\<rparr>"
  have new: "cache_sorted t0 (newDnsGeneration hs i n c k t)" by (simp add: cache_sorted_def newDnsGeneration_def)
  have ok: "cache_ok g" using dns_cache_run [of hs i n c k t ops] by (simp add: assms(2) cache_bounded_def)
  have sorted: "cache_sorted (last (t0 # map op_time ops)) g"
    using cache_run_sorted [OF cache_bounded_new new assms(1)] by (simp add: assms(2))
  note pok = put_ok(1) [OF ok, of e]
  have psorted: "cache_sorted (de_touchedAt e) ?p" using cache_sorted_put(1) [OF sorted] assms(3) by simp
  have old: "de_touchedAt y < de_touchedAt e" if "y \<in> cached ?p" "y \<noteq> ?e" for y
  proof -
    have "y \<in> cached g" using that by (auto simp: cached_def put_positive_def Let_def jm_vals_def set_jm_del)
    then have "de_touchedAt y \<le> last (t0 # map op_time ops)"
      using sorted touched_in [of y] by (auto simp: cached_def cache_sorted_def sorted_append)
    with assms(3) show ?thesis by simp
  qed
  have in_p: "?e \<in> cached ?p" by (simp add: cached_def put_positive_def Let_def jm_vals_def)
  have "?e \<in> cached (trim ?p)"
  proof (rule ccontr)
    assume out: "?e \<notin> cached (trim ?p)"
    have "cached ?p \<noteq> {}" using in_p by auto
    then have "0 < cache_size ?p" by (simp add: cached_size)
    with trim_ok [OF pok] assms(4) have "cache_size (trim ?p) \<noteq> 0" by (simp add: put_positive_def Let_def)
    then obtain y where y: "y \<in> cached (trim ?p)" using cached_size by fastforce
    obtain a b where "trim ?p = cut_front a b ?p" using trim_cut pok unfolding cache_ok_def by blast
    then have "y \<in> cached ?p" using y cached_cut by fastforce
    moreover have "y \<noteq> ?e" using y out by blast
    ultimately have "de_touchedAt y < de_touchedAt ?e" using old by simp
    with trim_lru [OF pok psorted in_p out y] show False by simp
  qed
  moreover have tok: "cache_ok (trim ?p)" using trim_ok [OF pok] by simp
  moreover have no_neg: "\<not> jm_has (dg_negative (trim ?p)) ?h"
  proof -
    obtain a b where "trim ?p = cut_front a b ?p" using trim_cut pok unfolding cache_ok_def by blast
    then show ?thesis by (auto simp: cut_front_def put_positive_def Let_def dest: jm_has_drop)
  qed
  ultimately have "?e \<in> set (jm_vals (dg_positive (trim ?p)))"
    using in_half [of "dg_negative (trim ?p)" ?e] by (auto simp: cached_def cache_ok_def jm_has_def image_iff)
  then have "(?h, ?e) \<in> set (dg_positive (trim ?p))"
    using in_half [of "dg_positive (trim ?p)" ?e] tok by (simp add: cache_ok_def)
  then have "jm_get (dg_positive (trim ?p)) ?h = Some ?e"
    using tok by (simp add: cache_ok_def cache_half_def jm_in_get)
  moreover have "jm_get (dg_negative (trim ?p)) ?h = None" using no_neg by (simp add: jm_get_None_iff)
  ultimately show ?thesis
    by (simp add: getPositive_def getNegative_def cache_read_def case_prod_beta set_trim assms(5) Let_def)
qed

subsection \<open>Carryover\<close>

definition filed :: "dns_entry list \<Rightarrow> (string, dns_entry) jsmap" where
  "filed es = map (\<lambda>e. (de_host e, e)) es"

lemma jm_has_filed: "jm_has (filed es) h \<longleftrightarrow> h \<in> de_host ` set es"
  by (force simp: jm_has_def filed_def)

lemma trim_small: "cache_size g \<le> dg_maxEntries g \<Longrightarrow> trim g = g"
  by (cases "cache_size g") (simp_all add: trim_def cache_size_def)

lemma fold_setPositive:
  assumes "distinct (map de_host (ds @ es))" "\<forall>e \<in> set es. js_lower (de_host e) = de_host e"
    and "length ds + length es \<le> dg_maxEntries g" "dg_positive g = filed ds" "dg_negative g = []"
  shows "fold setPositive es g = g\<lparr>dg_positive := filed (ds @ es)\<rparr>"
  using assms
proof (induction es arbitrary: ds g)
  case Nil
  then show ?case by simp
next
  case (Cons e es)
  have lower: "js_lower (de_host e) = de_host e" using Cons.prems(2) by simp
  have "\<not> jm_has (dg_positive g) (de_host e)" using Cons.prems(1,4) by (auto simp: jm_has_filed)
  with lower have p: "put_positive e g = g\<lparr>dg_positive := filed (ds @ [e])\<rparr>"
    by (simp add: put_positive_def Cons.prems(4,5) jm_del_absent filed_def)
  have "setPositive e g = g\<lparr>dg_positive := filed (ds @ [e])\<rparr>"
    using Cons.prems(3,5) unfolding set_trim p by (intro trim_small) (simp add: cache_size_def filed_def)
  with Cons.IH [of "ds @ [e]" "setPositive e g"] Cons.prems show ?case by simp
qed

lemma fold_setNegative:
  assumes "distinct (map de_host (ds @ es))" "\<forall>e \<in> set es. js_lower (de_host e) = de_host e"
    and "length (dg_positive g) + length ds + length es \<le> dg_maxEntries g" "dg_negative g = filed ds"
    and "\<forall>e \<in> set es. \<not> jm_has (dg_positive g) (de_host e)"
  shows "fold setNegative es g = g\<lparr>dg_negative := filed (ds @ es)\<rparr>"
  using assms
proof (induction es arbitrary: ds g)
  case Nil
  then show ?case by simp
next
  case (Cons e es)
  have lower: "js_lower (de_host e) = de_host e" using Cons.prems(2) by simp
  have "\<not> jm_has (dg_negative g) (de_host e)" using Cons.prems(1,4) by (auto simp: jm_has_filed)
  with lower Cons.prems(5) have p: "put_negative e g = g\<lparr>dg_negative := filed (ds @ [e])\<rparr>"
    by (simp add: put_negative_def Cons.prems(4) jm_del_absent filed_def)
  have "setNegative e g = g\<lparr>dg_negative := filed (ds @ [e])\<rparr>"
    using Cons.prems(3) unfolding set_trim p by (intro trim_small) (simp add: cache_size_def filed_def)
  with Cons.IH [of "ds @ [e]" "setNegative e g"] Cons.prems show ?case by simp
qed

lemma vals_hosts:
  assumes "cache_half m"
  shows "distinct (map de_host (jm_vals m)) \<and> (\<forall>e \<in> set (jm_vals m). js_lower (de_host e) = de_host e)"
proof -
  have "map de_host (jm_vals m) = map fst m" using assms by (auto simp: cache_half_def jm_vals_def)
  moreover have "\<forall>e \<in> set (jm_vals m). js_lower (de_host e) = de_host e"
    using assms by (auto simp: cache_half_def jm_vals_def)
  ultimately show ?thesis using assms by (simp add: cache_half_def jm_ok_def)
qed

lemma carried_simps [simp]:
  "de_host (carried_entry now ttl e) = de_host e" "de_value (carried_entry now ttl e) = de_value e"
  "de_expiresAt (carried_entry now ttl e) = min (de_expiresAt e) (now + ttl)"
  by (simp_all add: carried_entry_def)

lemma distinct_map_drop: "distinct (map f xs) \<Longrightarrow> distinct (map f (drop n xs))"
  unfolding drop_map [symmetric] by (rule distinct_drop)

lemma distinct_map_take: "distinct (map f xs) \<Longrightarrow> distinct (map f (take n xs))"
  unfolding take_map [symmetric] by (rule distinct_take)

text \<open>The entries a plan carries: from the current cache, carriable, with a bounded expiry.\<close>

definition carried_from :: "int \<Rightarrow> int \<Rightarrow> (string, dns_entry) jsmap \<Rightarrow> dns_entry list \<Rightarrow> bool" where
  "carried_from now ttl m es \<longleftrightarrow> distinct (map de_host es) \<and>
     (\<forall>e \<in> set es. js_lower (de_host e) = de_host e \<and>
        (\<exists>e0. jm_get m (de_host e) = Some e0 \<and> carriable now e0 \<and> e = carried_entry now ttl e0))"

lemma carried_from_vals:
  assumes "cache_half m"
  shows "carried_from now ttl m (map (carried_entry now ttl) (filter (carriable now) (jm_vals m)))"
proof -
  have get: "jm_get m (de_host e) = Some e" if "e \<in> set (jm_vals m)" for e
    using that assms in_half [OF assms] by (simp add: cache_half_def jm_in_get)
  have "de_host \<circ> carried_entry now ttl = de_host" by (simp add: fun_eq_iff)
  moreover have "distinct (map de_host (filter (carriable now) (jm_vals m)))"
    using vals_hosts [OF assms] by (simp add: distinct_map_filter)
  ultimately show ?thesis using vals_hosts [OF assms] get by (auto simp: carried_from_def)
qed

lemma carried_from_cut:
  "carried_from now ttl m es \<Longrightarrow> carried_from now ttl m (drop n es)"
  "carried_from now ttl m es \<Longrightarrow> carried_from now ttl m (take n es)"
  by (auto simp: carried_from_def distinct_map_drop distinct_map_take dest: in_set_dropD in_set_takeD)

lemma plan_Inr:
  assumes "planDnsCacheCarryover hs g config now neg = Inr p" "cache_ok g"
  shows "\<exists>nttl. carried_from now (dc_cacheTtlMs config) (dg_positive g) (cp_positive p) \<and>
      carried_from now nttl (dg_negative g) (cp_negative p)"
    "cp_carried p = length (cp_positive p) + length (cp_negative p)"
    "length (cp_positive p) + length (cp_negative p) \<le> (case dc_cacheMaxEntries config of Some n \<Rightarrow> n | None \<Rightarrow> 4096)"
    "cp_carried p + cp_dropped p = cache_size g"
    "cp_carried p \<noteq> 0 \<Longrightarrow> dg_upstreamHash g = dh_resolver hs (resolverIdentity config) \<and> \<not> fic_enabled (dc_fakeIp config)"
    "\<not> neg \<Longrightarrow> cp_negative p = []"
proof -
  have half: "cache_half (dg_positive g)" "cache_half (dg_negative g)" using assms(2) by (simp_all add: cache_ok_def)
  have nil: "carried_from now ttl m []" for ttl m by (simp add: carried_from_def)
  let ?es = "\<lambda>ttl m. map (carried_entry now ttl) (filter (carriable now) (jm_vals m))"
  let ?nttl = "case dc_negativeTtlMs config of Some n \<Rightarrow> n | None \<Rightarrow> 5000"
  let ?limit = "case dc_cacheMaxEntries config of Some n \<Rightarrow> n | None \<Rightarrow> 4096"
  define P where "P = ?es (dc_cacheTtlMs config) (dg_positive g)"
  define N where "N = ?es ?nttl (dg_negative g)"
  have shape: "cp_positive p \<in> {[], drop (length P - ?limit) P}"
    "cp_negative p \<in> {[], take (?limit - length (cp_positive p)) N}"
    using assms(1) unfolding planDnsCacheCarryover_def Let_def P_def [symmetric] N_def [symmetric]
    by (auto split: if_splits)
  have cutP: "carried_from now (dc_cacheTtlMs config) (dg_positive g) (drop n P)" for n
    unfolding P_def by (rule carried_from_cut(1) [OF carried_from_vals [OF half(1)]])
  have cutN: "carried_from now ?nttl (dg_negative g) (take n N)" for n
    unfolding N_def by (rule carried_from_cut(2) [OF carried_from_vals [OF half(2)]])
  have "carried_from now (dc_cacheTtlMs config) (dg_positive g) (cp_positive p)"
    using shape(1) by (elim insertE emptyE) (simp_all only: cutP nil)
  moreover have "carried_from now ?nttl (dg_negative g) (cp_negative p)"
    using shape(2) by (elim insertE emptyE) (simp_all only: cutN nil)
  ultimately show "\<exists>nttl. carried_from now (dc_cacheTtlMs config) (dg_positive g) (cp_positive p) \<and>
      carried_from now nttl (dg_negative g) (cp_negative p)" by blast
  have "length (cp_positive p) \<le> ?limit" using shape(1) by (elim insertE emptyE) simp_all
  moreover have "length (cp_negative p) \<le> ?limit - length (cp_positive p)"
    using shape(2) by (elim insertE emptyE) simp_all
  ultimately show "length (cp_positive p) + length (cp_negative p) \<le> ?limit" by simp
  show carried: "cp_carried p = length (cp_positive p) + length (cp_negative p)"
    and "cp_carried p \<noteq> 0 \<Longrightarrow> dg_upstreamHash g = dh_resolver hs (resolverIdentity config) \<and> \<not> fic_enabled (dc_fakeIp config)"
    and "\<not> neg \<Longrightarrow> cp_negative p = []"
    using assms(1) unfolding planDnsCacheCarryover_def Let_def P_def [symmetric] N_def [symmetric]
    by (auto split: if_splits)
  show "cp_carried p + cp_dropped p = cache_size g"
  proof -
    have le: "length (?es ttl m) \<le> length m" for ttl and m :: "(string, dns_entry) jsmap"
      using length_filter_le [of "carriable now" "jm_vals m"] by (simp add: jm_vals_def)
    from le [of "dc_cacheTtlMs config" "dg_positive g"] le [of ?nttl "dg_negative g"]
    have "length (cp_positive p) \<le> length (dg_positive g)" "length (cp_negative p) \<le> length (dg_negative g)"
      using shape unfolding P_def [symmetric] N_def [symmetric] by auto
    moreover have "cp_dropped p = cache_size g - cp_carried p"
      using assms(1) unfolding planDnsCacheCarryover_def Let_def P_def [symmetric] N_def [symmetric]
      by (auto simp: cache_size_def jm_vals_def split: if_splits)
    ultimately show ?thesis using carried by (simp add: cache_size_def)
  qed
qed

lemma carryover_applied:
  assumes "planDnsCacheCarryover hs g config now neg = Inr p" "cache_ok g"
  shows "applyDnsCacheCarryover p (newDnsGeneration hs i n config k t) =
    (newDnsGeneration hs i n config k t)\<lparr>dg_positive := filed (cp_positive p), dg_negative := filed (cp_negative p)\<rparr>"
proof -
  let ?c = "newDnsGeneration hs i n config k t"
  obtain nttl where pos: "carried_from now (dc_cacheTtlMs config) (dg_positive g) (cp_positive p)"
    and negs: "carried_from now nttl (dg_negative g) (cp_negative p)"
    using plan_Inr(1) [OF assms] by blast
  have len: "length (cp_positive p) + length (cp_negative p) \<le> dg_maxEntries ?c"
    using plan_Inr(3) [OF assms] by (simp add: newDnsGeneration_def)
  have positive: "fold setPositive (cp_positive p) ?c = ?c\<lparr>dg_positive := filed (cp_positive p)\<rparr>"
    using fold_setPositive [of "[]" "cp_positive p" ?c] pos len
    by (simp add: carried_from_def newDnsGeneration_def filed_def)
  have "jm_has (dg_positive g) (de_host e)" if "e \<in> set (cp_positive p)" for e
    using pos that by (auto simp: carried_from_def jm_has_get)
  moreover have "jm_has (dg_negative g) (de_host e)" if "e \<in> set (cp_negative p)" for e
    using negs that by (auto simp: carried_from_def jm_has_get)
  ultimately have "\<forall>e \<in> set (cp_negative p). \<not> jm_has (filed (cp_positive p)) (de_host e)"
    using assms(2) unfolding cache_ok_def jm_has_filed by (metis imageE)
  then have negative: "fold setNegative (cp_negative p) (?c\<lparr>dg_positive := filed (cp_positive p)\<rparr>) =
      ?c\<lparr>dg_positive := filed (cp_positive p), dg_negative := filed (cp_negative p)\<rparr>"
    using fold_setNegative [of "[]" "cp_negative p" "?c\<lparr>dg_positive := filed (cp_positive p)\<rparr>"] negs len
    by (simp add: carried_from_def newDnsGeneration_def filed_def)
  from positive negative show ?thesis by (simp add: applyDnsCacheCarryover_def)
qed

text \<open>Property C32. Carrying the cache to a new generation is sound: the candidate's cache holds exactly the
  entries counted as carried, carried and dropped add up to what the current generation holds, and
  anything is carried only when the resolver's identity hash is unchanged and fake IPs are off. An
  address the candidate would answer from its cache is the one the current generation has cached for
  that host, was neither expired nor sensitive nor synthetic, and expires no later than before nor
  than the candidate's own limit; failures are carried only on demand.\<close>

theorem dns_carryover_sound:
  assumes "g = fold cache_step ops (newDnsGeneration hs0 i0 n0 c0 k0 t0)"
    and "planDnsCacheCarryover hs g config now neg = Inr p"
    and "g' = applyDnsCacheCarryover p (newDnsGeneration hs i n config k t)"
  shows "cp_carried p = length (dg_positive g') + length (dg_negative g') \<and>
    cp_carried p + cp_dropped p = length (dg_positive g) + length (dg_negative g) \<and>
    (cp_carried p \<noteq> 0 \<longrightarrow> dg_upstreamHash g' = dg_upstreamHash g \<and> \<not> fic_enabled (dc_fakeIp config)) \<and>
    (\<forall>h e. jm_get (dg_positive g') h = Some e \<longrightarrow>
       (\<exists>e0. jm_get (dg_positive g) h = Some e0 \<and> de_value e = de_value e0 \<and> now < de_expiresAt e0 \<and>
          \<not> de_sensitive e0 \<and> \<not> de_synthetic e0 \<and>
          de_expiresAt e = min (de_expiresAt e0) (now + dc_cacheTtlMs config))) \<and>
    (\<not> neg \<longrightarrow> dg_negative g' = [])"
proof -
  have ok: "cache_ok g" using dns_cache_run [of hs0 i0 n0 c0 k0 t0 ops] by (simp add: assms(1) cache_bounded_def)
  note plan = plan_Inr [OF assms(2) ok]
  have g': "dg_positive g' = filed (cp_positive p)" "dg_negative g' = filed (cp_negative p)"
    "dg_upstreamHash g' = dh_resolver hs (resolverIdentity config)"
    unfolding assms(3) carryover_applied [OF assms(2) ok] by (simp_all add: newDnsGeneration_def)
  have "\<exists>e0. jm_get (dg_positive g) h = Some e0 \<and> carriable now e0 \<and> e = carried_entry now (dc_cacheTtlMs config) e0"
    if "jm_get (dg_positive g') h = Some e" for h e
    using plan(1) jm_get_Some_in [OF that] by (auto simp: g' filed_def carried_from_def)
  then have "\<exists>e0. jm_get (dg_positive g) h = Some e0 \<and> de_value e = de_value e0 \<and> now < de_expiresAt e0 \<and>
      \<not> de_sensitive e0 \<and> \<not> de_synthetic e0 \<and> de_expiresAt e = min (de_expiresAt e0) (now + dc_cacheTtlMs config)"
    if "jm_get (dg_positive g') h = Some e" for h e
    using that by (fastforce simp: carriable_def)
  then show ?thesis using plan by (simp add: g' filed_def cache_size_def)
qed

section \<open>Witnesses\<close>

definition sampleDns :: dns_config where
  "sampleDns = \<lparr>dc_strategy = SystemStrategy, dc_cacheTtlMs = 60000, dc_cacheMaxEntries = Some 2,
     dc_negativeTtlMs = None, dc_hosts = [(''router.lan'', ''10.0.0.1'')], dc_udpServers = [], dc_rules = [],
     dc_fallbackHosts = [], dc_fakeIp = \<lparr>fic_enabled = False, fic_range = None, fic_cidr = None, fic_size = None,
       fic_ttlSeconds = None, fic_persistPath = None\<rparr>,
     dc_doh = \<lparr>doh_enabled = False, doh_endpoints = [], doh_timeoutMs = 5000\<rparr>\<rparr>"

definition sampleHashes :: dns_hashes where
  "sampleHashes = \<lparr>dh_config = (\<lambda>c. replicate 64 (CHR ''c'')), dh_resolver = (\<lambda>r. replicate 64 (CHR ''r''))\<rparr>"

definition sampleEntry :: "string \<Rightarrow> string \<Rightarrow> int \<Rightarrow> dns_entry" where
  "sampleEntry h a now = \<lparr>de_host = h, de_value = a, de_expiresAt = now + 1000, de_touchedAt = now,
     de_source = ModeSystem, de_sensitive = False, de_synthetic = False\<rparr>"

definition sampleCache :: dns_generation where
  "sampleCache = fold cache_step
     [StorePositive (sampleEntry ''a'' ''1.1.1.1'' 1), StoreNegative (sampleEntry ''b'' ''no such host'' 2)]
     (newDnsGeneration sampleHashes ''g'' 0 sampleDns None 0)"

lemma lower_abc: "js_lower ''a'' = ''a''" "js_lower ''b'' = ''b''" "js_lower ''C'' = ''c''" "js_lower ''c'' = ''c''"
  by code_simp+

lemmas cache_eval = newDnsGeneration_def sampleDns_def sampleEntry_def setPositive_def setNegative_def trim_def
  jm_vals_def drop_positive_def drop_negative_def Let_def lower_abc eval_nat_numeral

lemma dns_cache_bounded_witness:
  "length (dg_positive sampleCache) + length (dg_negative sampleCache) \<le> 2 \<and>
   \<not> (jm_has (dg_positive sampleCache) ''a'' \<and> jm_has (dg_negative sampleCache) ''a'')"
  using dns_cache_bounded [OF sampleCache_def] by (simp add: sampleDns_def)

lemma sampleCache_eq:
  "dg_positive sampleCache = [(''a'', sampleEntry ''a'' ''1.1.1.1'' 1)]"
  "dg_negative sampleCache = [(''b'', sampleEntry ''b'' ''no such host'' 2)]"
  "dg_maxEntries sampleCache = 2" "dg_upstreamHash sampleCache = replicate 64 (CHR ''r'')"
  "dg_config sampleCache = sampleDns"
  by (simp_all add: sampleCache_def cache_eval sampleHashes_def)

lemma dns_carryover_sound_witness:
  "\<exists>p. planDnsCacheCarryover sampleHashes sampleCache sampleDns 5 False = Inr p \<and> cp_carried p = 1 \<and>
     (let g' = applyDnsCacheCarryover p (newDnsGeneration sampleHashes ''g1'' 1 sampleDns None 5)
      in cp_carried p = length (dg_positive g') + length (dg_negative g') \<and> cp_carried p + cp_dropped p = 2)"
proof -
  obtain p where p: "planDnsCacheCarryover sampleHashes sampleCache sampleDns 5 False = Inr p" "cp_carried p = 1"
    by (simp add: planDnsCacheCarryover_def sampleCache_eq fakeIpConfigEqual_def sampleHashes_def Let_def
      sampleDns_def jm_vals_def sampleEntry_def carriable_def)
  let ?g' = "applyDnsCacheCarryover p (newDnsGeneration sampleHashes ''g1'' 1 sampleDns None 5)"
  have "cp_carried p = length (dg_positive ?g') + length (dg_negative ?g') \<and>
      cp_carried p + cp_dropped p = length (dg_positive sampleCache) + length (dg_negative sampleCache)"
    using dns_carryover_sound [OF sampleCache_def p(1) refl, of "''g1''" 1 None 5] by blast
  with p show ?thesis by (intro exI [of _ p]) (simp add: Let_def sampleCache_eq)
qed

end
