(* ===== verification/DnsStore.thy ===== *)
theory DnsStore
  imports DnsCache
begin

text \<open>
  The store of DNS generations and the resolver over it (\<^verbatim>\<open>src/dns/generationStore.ts\<close>,
  \<^verbatim>\<open>src/dns/singleFlight.ts\<close> and the class of \<^verbatim>\<open>src/dns/resolver.ts\<close>). Generations are shared
  mutable objects, so the world holds a table of them and everything else refers to its index;
  handles and pending calls are tables too. A resolution is two events: the call, which ends at once
  or waits for a flight, and the completion of the flight with what the upstream answered, which
  ends every call waiting for it. What the upstream answers (the operating system, a UDP server, a
  DoH endpoint) is a parameter of the completion.
\<close>

section \<open>The world\<close>

text \<open>A host table is a plain object, so a name may be found on its prototype.\<close>

datatype resolved = Text string | Builtin string

definition host_lookup :: "(string, string) jsmap \<Rightarrow> string \<Rightarrow> resolved option" where
  "host_lookup hosts h =
     (case jm_get hosts h of
        Some a \<Rightarrow> Some (Text a)
      | None \<Rightarrow> if inherited h then Some (Builtin h) else None)"

record dns_handle =
  dnh_generation :: nat
  dnh_released :: bool

record dns_call =
  dca_host :: string
  dca_handle :: nat
  dca_generation :: nat
  dca_key :: string
  dca_result :: "resolved result option"

record dns_world =
  dw_generations :: "dns_generation list"
  dw_active :: nat
  dw_store :: "(string, nat) jsmap"
  dw_carried :: nat
  dw_dropped :: nat
  dw_rejected :: nat
  dw_handles :: "dns_handle list"
  dw_calls :: "dns_call list"
  dw_queries :: nat
  dw_failures :: nat

definition gen_at :: "dns_world \<Rightarrow> nat \<Rightarrow> dns_generation" where
  "gen_at w i = dw_generations w ! i"

definition on_gen :: "nat \<Rightarrow> (dns_generation \<Rightarrow> dns_generation) \<Rightarrow> dns_world \<Rightarrow> dns_world" where
  "on_gen i f w = w\<lparr>dw_generations := (dw_generations w)[i := f (gen_at w i)]\<rparr>"

definition newDnsWorld :: "dns_generation \<Rightarrow> dns_world" where
  "newDnsWorld initial =
     \<lparr>dw_generations = [initial], dw_active = 0, dw_store = [(dg_id initial, 0)], dw_carried = 0, dw_dropped = 0,
      dw_rejected = 0, dw_handles = [], dw_calls = [], dw_queries = 0, dw_failures = 0\<rparr>"

section \<open>The store\<close>

definition ds_releaseDrained :: "dns_world \<Rightarrow> dns_world" where
  "ds_releaseDrained w =
     w\<lparr>dw_store := filter (\<lambda>(i, k). k = dw_active w \<or> \<not> isReleasable (gen_at w k)) (dw_store w)\<rparr>"

definition ds_acquire :: "dns_world \<Rightarrow> nat \<times> dns_world" where
  "ds_acquire w =
     (let g = dw_active w; w1 = on_gen g beginQuery w in
      (length (dw_handles w), w1\<lparr>dw_handles := dw_handles w @ [\<lparr>dnh_generation = g, dnh_released = False\<rparr>]\<rparr>))"

definition ds_release :: "nat \<Rightarrow> dns_world \<Rightarrow> dns_world" where
  "ds_release k w =
     (if k \<ge> length (dw_handles w) \<or> dnh_released (dw_handles w ! k) then w
      else (let h = dw_handles w ! k;
                w1 = w\<lparr>dw_handles := (dw_handles w)[k := h\<lparr>dnh_released := True\<rparr>]\<rparr>
            in ds_releaseDrained (on_gen (dnh_generation h) endQuery w1)))"

definition set_draining :: "bool \<Rightarrow> dns_generation \<Rightarrow> dns_generation" where
  "set_draining b g = g\<lparr>dg_draining := b\<rparr>"

definition ds_switchTo :: "nat \<Rightarrow> dns_world \<Rightarrow> dns_world" where
  "ds_switchTo candidate w =
     (let w1 = on_gen (dw_active w) (set_draining True) w; w2 = on_gen candidate (set_draining False) w1 in
      w2\<lparr>dw_store := jm_set (dg_id (gen_at w candidate)) candidate (dw_store w), dw_active := candidate\<rparr>)"

definition ds_restore :: "nat \<Rightarrow> nat \<Rightarrow> dns_world \<Rightarrow> dns_world" where
  "ds_restore old candidate w =
     (let w1 = on_gen candidate (set_draining True) w; w2 = on_gen old (set_draining False) w1 in
      ds_releaseDrained (w2\<lparr>dw_store := jm_set (dg_id (gen_at w candidate)) candidate
          (jm_set (dg_id (gen_at w old)) old (dw_store w)), dw_active := old\<rparr>))"

definition ds_recordCarryover :: "nat \<Rightarrow> nat \<Rightarrow> dns_world \<Rightarrow> dns_world" where
  "ds_recordCarryover carried dropped w = w\<lparr>dw_carried := dw_carried w + carried, dw_dropped := dw_dropped w + dropped\<rparr>"

definition ds_draining :: "dns_world \<Rightarrow> nat list" where
  "ds_draining w = filter (\<lambda>k. dg_draining (gen_at w k)) (jm_vals (dw_store w))"

definition ds_shutdown :: "dns_world \<Rightarrow> dns_world" where
  "ds_shutdown w = ds_releaseDrained (fold (\<lambda>k. on_gen k abortInFlight) (jm_vals (dw_store w)) w)"

section \<open>The resolver\<close>

definition ends_with :: "string \<Rightarrow> string \<Rightarrow> bool" where
  "ends_with host s \<longleftrightarrow> suffix s host"

definition selectUdpServer :: "dns_config \<Rightarrow> string \<Rightarrow> dns_server option" where
  "selectUdpServer c host =
     (if dc_udpServers c = [] then None
      else (case find (\<lambda>r. list_ex (\<lambda>s. host = s \<or> ends_with host (''.'' @ s)) (dru_domainSuffix r)) (dc_rules c) of
              Some r \<Rightarrow> find (\<lambda>s. ds_tag s = dru_serverTag r) (dc_udpServers c)
            | None \<Rightarrow> Some (hd (dc_udpServers c))))"

datatype upstream = Answer string int | Failure js_error

definition answer_ttl :: "dns_config \<Rightarrow> string \<Rightarrow> int \<Rightarrow> int" where
  "answer_ttl c host ttlMs =
     (if dnsResolverMode c = ModeDoh \<or> (dnsResolverMode c = ModeUdp \<and> selectUdpServer c host \<noteq> None)
      then min ttlMs (dc_cacheTtlMs c) else dc_cacheTtlMs c)"

text \<open>The end of \<^verbatim>\<open>resolveUncached\<close>, once the upstream has answered.\<close>

definition resolveUncached ::
  "int \<Rightarrow> string \<Rightarrow> upstream \<Rightarrow> dns_generation \<Rightarrow> resolved result \<times> dns_generation" where
  "resolveUncached now host u g =
     (let c = dg_config g in
      case u of
        Answer address ttlMs \<Rightarrow>
          (Inr (Text address),
           setPositive \<lparr>de_host = host, de_value = address, de_expiresAt = now + answer_ttl c host ttlMs,
             de_touchedAt = now, de_source = dg_mode g, de_sensitive = False, de_synthetic = False\<rparr> g)
      | Failure e \<Rightarrow>
          (case host_lookup (dc_fallbackHosts c) host of
             Some fallback \<Rightarrow> (Inr fallback, g)
           | None \<Rightarrow>
               (let ttl = (case dc_negativeTtlMs c of Some n \<Rightarrow> n | None \<Rightarrow> 5000) in
                (Inl e,
                 if ttl > 0
                 then setNegative \<lparr>de_host = host, de_value = errorMessage e, de_expiresAt = now + ttl,
                        de_touchedAt = now, de_source = dg_mode g, de_sensitive = False, de_synthetic = False\<rparr> g
                 else g))))"

definition flight_key :: "dns_generation \<Rightarrow> string \<Rightarrow> string" where
  "flight_key g host = dg_id g @ '':A:'' @ host"

definition end_call :: "nat \<Rightarrow> string \<Rightarrow> resolved result \<Rightarrow> dns_world \<Rightarrow> dns_world" where
  "end_call handle host r w =
     ds_release handle (w\<lparr>dw_calls := dw_calls w @ [\<lparr>dca_host = host, dca_handle = handle,
        dca_generation = dw_active w, dca_key = '''', dca_result = Some r\<rparr>]\<rparr>)"

text \<open>\<^verbatim>\<open>resolve(host)\<close> up to its first wait: the outcome when it ends at once.\<close>

definition dns_resolve :: "int \<Rightarrow> string \<Rightarrow> dns_world \<Rightarrow> resolved result option \<times> dns_world" where
  "dns_resolve now host w =
     (if isIP host \<noteq> 0 then (Some (Inr (Text host)), w)
      else
        (let (handle, w1) = ds_acquire w; i = dw_active w; h = js_lower host in
         case host_lookup (dc_hosts (dg_config (gen_at w1 i))) h of
           Some a \<Rightarrow> (Some (Inr a), end_call handle h (Inr a) w1)
         | None \<Rightarrow>
             (let (pos, g1) = getPositive now h (gen_at w1 i); w2 = on_gen i (\<lambda>g. g1) w1 in
              case pos of
                Some e \<Rightarrow> (Some (Inr (Text (de_value e))), end_call handle h (Inr (Text (de_value e))) w2)
              | None \<Rightarrow>
                  (let (negs, g2) = getNegative now h g1; w3 = on_gen i (\<lambda>g. g2) w2 in
                   case negs of
                     Some e \<Rightarrow> (Some (Inl (NetworkError (de_value e))), end_call handle h (Inl (NetworkError (de_value e))) w3)
                   | None \<Rightarrow>
                       (let key = flight_key g2 h;
                            call = \<lparr>dca_host = h, dca_handle = handle, dca_generation = i, dca_key = key, dca_result = None\<rparr>;
                            w4 = w3\<lparr>dw_calls := dw_calls w3 @ [call]\<rparr>
                        in (None,
                            if jm_has (dg_flights g2) key then w4
                            else on_gen i (\<lambda>g. g\<lparr>dg_flights := jm_set key \<lparr>fl_host = h, fl_aborted = False\<rparr> (dg_flights g)\<rparr>)
                                   (w4\<lparr>dw_queries := dw_queries w4 + 1\<rparr>)))))))"

definition waits_for :: "nat \<Rightarrow> string \<Rightarrow> dns_call \<Rightarrow> bool" where
  "waits_for i key c \<longleftrightarrow> dca_result c = None \<and> dca_generation c = i \<and> dca_key c = key"

text \<open>A flight settles: it leaves the table and every call that waits for it ends with its result.\<close>

definition settle_flight :: "nat \<Rightarrow> string \<Rightarrow> resolved result \<Rightarrow> dns_world \<Rightarrow> dns_world" where
  "settle_flight i key r w =
     (let waiting = filter (waits_for i key) (dw_calls w);
          w1 = on_gen i (\<lambda>g. g\<lparr>dg_flights := jm_del key (dg_flights g)\<rparr>) w;
          w2 = w1\<lparr>dw_calls := map (\<lambda>c. if waits_for i key c then c\<lparr>dca_result := Some r\<rparr> else c) (dw_calls w1)\<rparr>
      in fold (\<lambda>c. ds_release (dca_handle c)) waiting w2)"

definition dns_aborted :: "dns_generation \<Rightarrow> js_error" where
  "dns_aborted g = NetworkError (''DNS single-flight aborted for generation '' @ quoted (dg_id g))"

definition dns_complete :: "int \<Rightarrow> nat \<Rightarrow> string \<Rightarrow> upstream \<Rightarrow> dns_world \<Rightarrow> dns_world" where
  "dns_complete now i key u w =
     (case jm_get (dg_flights (gen_at w i)) key of
        None \<Rightarrow> w
      | Some f \<Rightarrow>
          if fl_aborted f then settle_flight i key (Inl (dns_aborted (gen_at w i))) w
          else (let (r, g) = resolveUncached now (fl_host f) u (gen_at w i);
                    failed = (case u of Answer a t \<Rightarrow> 0 | Failure e \<Rightarrow> 1)
                in settle_flight i key r ((on_gen i (\<lambda>x. g) w)\<lparr>dw_failures := dw_failures w + failed\<rparr>)))"

section \<open>What can happen to the world\<close>

text \<open>
  Traffic resolves and upstreams answer at any time; a reload stages a fresh generation, switches
  to it and may go back. Generation ids are taken to be unique. They carry the id of the reload's
  candidate, whose number \<^verbatim>\<open>src/reload/runtimeIntegration.ts\<close> takes again when the reload failed;
  histories in which a candidate that was rolled back is still in use when another one gets its id are
  not covered.
\<close>

inductive dns_step :: "dns_world \<Rightarrow> dns_world \<Rightarrow> bool" where
  resolve: "dns_step w (snd (dns_resolve now host w))"
| complete: "i < length (dw_generations w) \<Longrightarrow> dns_step w (dns_complete now i key u w)"
| stage: "dg_id g \<notin> dg_id ` set (dw_generations w) \<Longrightarrow> dg_flights g = [] \<Longrightarrow> dg_queryRefs g = 0 \<Longrightarrow>
    dns_step w (w\<lparr>dw_generations := dw_generations w @ [g]\<rparr>)"
| switch: "k < length (dw_generations w) \<Longrightarrow> k \<notin> set (jm_vals (dw_store w)) \<Longrightarrow> dns_step w (ds_switchTo k w)"
| restore: "k < length (dw_generations w) \<Longrightarrow> k \<noteq> dw_active w \<Longrightarrow> dns_step w (ds_restore k (dw_active w) w)"
| release_drained: "dns_step w (ds_releaseDrained w)"
| abort: "k < length (dw_generations w) \<Longrightarrow> dns_step w (on_gen k abortInFlight w)"
| shutdown: "dns_step w (ds_shutdown w)"

inductive dns_reachable :: "dns_generation \<Rightarrow> dns_world \<Rightarrow> bool" for g0 where
  start: "dns_reachable g0 (newDnsWorld g0)"
| step: "dns_reachable g0 w \<Longrightarrow> dns_step w w' \<Longrightarrow> dns_reachable g0 w'"

section \<open>The store is sound\<close>

definition open_on :: "dns_handle list \<Rightarrow> nat \<Rightarrow> nat" where
  "open_on hs k = length (filter (\<lambda>h. \<not> dnh_released h \<and> dnh_generation h = k) hs)"

definition store_sound :: "dns_world \<Rightarrow> bool" where
  "store_sound w \<longleftrightarrow>
     distinct (map dg_id (dw_generations w)) \<and> dw_active w < length (dw_generations w) \<and>
     (\<forall>(i, k) \<in> set (dw_store w). k < length (dw_generations w) \<and> dg_id (gen_at w k) = i \<and>
        (k \<noteq> dw_active w \<longrightarrow> dg_draining (gen_at w k))) \<and>
     (dg_id (gen_at w (dw_active w)), dw_active w) \<in> set (dw_store w) \<and> jm_ok (dw_store w) \<and>
     (\<forall>h \<in> set (dw_handles w). dnh_generation h < length (dw_generations w)) \<and>
     (\<forall>k < length (dw_generations w). dg_queryRefs (gen_at w k) = open_on (dw_handles w) k)"

lemma gen_at_on_gen:
  "gen_at (on_gen i f w) k = (if k = i \<and> i < length (dw_generations w) then f (gen_at w i) else gen_at w k)"
  by (cases "i < length (dw_generations w)") (auto simp: gen_at_def on_gen_def nth_list_update list_update_beyond)

lemma on_gen_fields [simp]:
  "length (dw_generations (on_gen i f w)) = length (dw_generations w)" "dw_active (on_gen i f w) = dw_active w"
  "dw_store (on_gen i f w) = dw_store w" "dw_handles (on_gen i f w) = dw_handles w"
  "dw_calls (on_gen i f w) = dw_calls w" "dw_queries (on_gen i f w) = dw_queries w"
  "dw_failures (on_gen i f w) = dw_failures w"
  by (simp_all add: on_gen_def)

lemma on_gen_ids:
  assumes "dg_id (f (gen_at w i)) = dg_id (gen_at w i)"
  shows "map dg_id (dw_generations (on_gen i f w)) = map dg_id (dw_generations w)"
  using assms by (cases "i < length (dw_generations w)")
    (auto simp: on_gen_def gen_at_def list_update_beyond map_update list_update_same_conv)

text \<open>A change of one generation that leaves its identity, its count and its draining flag alone.\<close>

lemma store_sound_on_gen:
  assumes "store_sound w"
    and "dg_id (f (gen_at w i)) = dg_id (gen_at w i)" "dg_queryRefs (f (gen_at w i)) = dg_queryRefs (gen_at w i)"
      "dg_draining (f (gen_at w i)) = dg_draining (gen_at w i)"
  shows "store_sound (on_gen i f w)"
proof -
  have same: "dg_id (gen_at (on_gen i f w) k) = dg_id (gen_at w k)"
    "dg_queryRefs (gen_at (on_gen i f w) k) = dg_queryRefs (gen_at w k)"
    "dg_draining (gen_at (on_gen i f w) k) = dg_draining (gen_at w k)" for k
    using assms by (simp_all add: gen_at_on_gen)
  show ?thesis using assms(1) unfolding store_sound_def on_gen_fields on_gen_ids [of f w i, OF assms(2)] same .
qed

lemma store_sound_cong:
  assumes "store_sound w" "dw_generations w' = dw_generations w" "dw_active w' = dw_active w"
    "dw_store w' = dw_store w" "dw_handles w' = dw_handles w"
  shows "store_sound w'"
  using assms by (simp add: store_sound_def gen_at_def)

lemma store_sound_releaseDrained: "store_sound w \<Longrightarrow> store_sound (ds_releaseDrained w)"
  by (auto simp: store_sound_def ds_releaseDrained_def gen_at_def jm_ok_filter)

lemma store_sound_acquire:
  assumes "store_sound w"
  shows "store_sound (snd (ds_acquire w))"
proof -
  have ids: "map dg_id (dw_generations (on_gen (dw_active w) beginQuery w)) = map dg_id (dw_generations w)"
    by (rule on_gen_ids) (simp add: beginQuery_def)
  have "gen_at (snd (ds_acquire w)) k = gen_at (on_gen (dw_active w) beginQuery w) k" for k
    by (simp add: ds_acquire_def gen_at_def Let_def)
  then show ?thesis
    using assms ids
    by (auto simp: store_sound_def gen_at_on_gen ds_acquire_def Let_def open_on_def beginQuery_def)
qed

lemma open_on_release:
  assumes "k < length hs" "\<not> dnh_released (hs ! k)"
  shows "open_on (hs[k := (hs ! k)\<lparr>dnh_released := True\<rparr>]) j =
     (if j = dnh_generation (hs ! k) then open_on hs j - 1 else open_on hs j)"
    "0 < open_on hs (dnh_generation (hs ! k))"
proof -
  let ?P = "\<lambda>j h. \<not> dnh_released h \<and> dnh_generation h = j"
  show "open_on (hs[k := (hs ! k)\<lparr>dnh_released := True\<rparr>]) j =
     (if j = dnh_generation (hs ! k) then open_on hs j - 1 else open_on hs j)"
    using filter_update [OF assms(1), of "?P j" "(hs ! k)\<lparr>dnh_released := True\<rparr>"] assms(2)
    by (auto simp: open_on_def)
  show "0 < open_on hs (dnh_generation (hs ! k))"
    using assms nth_mem [OF assms(1)] by (auto simp: open_on_def filter_empty_conv)
qed

text \<open>The handle released and its generation's count lowered, before drained generations go.\<close>

definition released :: "nat \<Rightarrow> dns_world \<Rightarrow> dns_world" where
  "released k w = on_gen (dnh_generation (dw_handles w ! k)) endQuery
     (w\<lparr>dw_handles := (dw_handles w)[k := (dw_handles w ! k)\<lparr>dnh_released := True\<rparr>]\<rparr>)"

lemma ds_release_cases:
  "ds_release k w = (if k < length (dw_handles w) \<and> \<not> dnh_released (dw_handles w ! k)
     then ds_releaseDrained (released k w) else w)"
  by (simp add: ds_release_def released_def Let_def)

lemma store_sound_released:
  assumes "store_sound w" "k < length (dw_handles w)" "\<not> dnh_released (dw_handles w ! k)"
  shows "store_sound (released k w)"
proof -
  let ?g = "dnh_generation (dw_handles w ! k)"
  let ?w = "w\<lparr>dw_handles := (dw_handles w)[k := (dw_handles w ! k)\<lparr>dnh_released := True\<rparr>]\<rparr>"
  have at: "gen_at ?w j = gen_at w j" for j by (simp add: gen_at_def)
  have g: "?g < length (dw_generations w)" using assms by (simp add: store_sound_def)
  have ids: "map dg_id (dw_generations (on_gen ?g endQuery ?w)) = map dg_id (dw_generations w)"
    using on_gen_ids [of endQuery ?w ?g] by (simp add: endQuery_def)
  have hs: "\<forall>h \<in> set (dw_handles ?w). dnh_generation h < length (dw_generations w)"
    using assms(1) g by (auto simp: store_sound_def dest!: set_update_subset_insert [THEN subsetD])
  show ?thesis
    using assms(1) ids hs g open_on_release(1) [OF assms(2,3)]
    by (auto simp: store_sound_def released_def gen_at_on_gen at endQuery_def)
qed

lemma store_sound_release: "store_sound w \<Longrightarrow> store_sound (ds_release k w)"
  by (simp add: ds_release_cases store_sound_releaseDrained store_sound_released)

lemma set_draining_simps [simp]:
  "dg_id (set_draining b g) = dg_id g" "dg_queryRefs (set_draining b g) = dg_queryRefs g"
  "dg_draining (set_draining b g) = b" "dg_flights (set_draining b g) = dg_flights g"
  by (simp_all add: set_draining_def)

text \<open>The active generation moves from \<open>a\<close> to \<open>b\<close>; both stay in the store.\<close>

definition move_active :: "nat \<Rightarrow> (string, nat) jsmap \<Rightarrow> dns_world \<Rightarrow> dns_world" where
  "move_active b store w =
     (on_gen b (set_draining False) (on_gen (dw_active w) (set_draining True) w))\<lparr>dw_store := store, dw_active := b\<rparr>"

lemma ds_switch_move:
  "ds_switchTo k w = move_active k (jm_set (dg_id (gen_at w k)) k (dw_store w)) w"
  by (simp add: ds_switchTo_def move_active_def Let_def)

lemma ds_restore_move:
  "ds_restore k (dw_active w) w = ds_releaseDrained (move_active k
     (jm_set (dg_id (gen_at w (dw_active w))) (dw_active w) (jm_set (dg_id (gen_at w k)) k (dw_store w))) w)"
  by (simp add: ds_restore_def move_active_def Let_def)

lemma store_sound_move:
  assumes "store_sound w" "b < length (dw_generations w)" "b \<noteq> dw_active w" "jm_ok store"
    and "set store = set (dw_store w) \<union> {(dg_id (gen_at w b), b)}"
  shows "store_sound (move_active b store w)"
proof -
  let ?w = "move_active b store w"
  have at: "gen_at ?w k = (if k = b then set_draining False (gen_at w b)
      else if k = dw_active w then set_draining True (gen_at w k) else gen_at w k)" for k
  proof -
    have "gen_at ?w k = gen_at (on_gen b (set_draining False) (on_gen (dw_active w) (set_draining True) w)) k"
      by (simp add: move_active_def gen_at_def)
    then show ?thesis using assms(1-3) by (auto simp: gen_at_on_gen store_sound_def)
  qed
  have ids: "map dg_id (dw_generations ?w) = map dg_id (dw_generations w)"
    using on_gen_ids [of "set_draining False" "on_gen (dw_active w) (set_draining True) w" b]
      on_gen_ids [of "set_draining True" w "dw_active w"] by (simp add: move_active_def)
  have fields: "length (dw_generations ?w) = length (dw_generations w)" "dw_active ?w = b" "dw_store ?w = store"
    "dw_handles ?w = dw_handles w" by (simp_all add: move_active_def)
  have "\<forall>(i, k) \<in> set store. k < length (dw_generations w) \<and> dg_id (gen_at ?w k) = i \<and>
      (k \<noteq> b \<longrightarrow> dg_draining (gen_at ?w k))"
    using assms(1,2) unfolding assms(5) by (auto simp: store_sound_def at)
  then show ?thesis
    using assms(1,2,4,5) ids by (auto simp: store_sound_def fields at)
qed

lemma set_store_put:
  assumes "store_sound w" "k < length (dw_generations w)"
  shows "set (jm_set (dg_id (gen_at w k)) k (dw_store w)) = set (dw_store w) \<union> {(dg_id (gen_at w k), k)}"
proof -
  have "j = k" if "(dg_id (gen_at w k), j) \<in> set (dw_store w)" for j
  proof -
    from that assms have "j < length (dw_generations w)" "dg_id (gen_at w j) = dg_id (gen_at w k)"
      by (auto simp: store_sound_def)
    moreover have "distinct (map dg_id (dw_generations w))" using assms(1) by (simp add: store_sound_def)
    ultimately show ?thesis
      using nth_eq_iff_index_eq [of "map dg_id (dw_generations w)" j k] assms(2) by (simp add: gen_at_def)
  qed
  with assms show ?thesis by (auto simp: store_sound_def set_jm_set)
qed

lemma store_sound_switch:
  assumes "store_sound w" "k < length (dw_generations w)" "k \<notin> set (jm_vals (dw_store w))"
  shows "store_sound (ds_switchTo k w)"
proof -
  have "k \<noteq> dw_active w" using assms(1,3) by (force simp: store_sound_def jm_vals_def)
  moreover have "jm_ok (jm_set (dg_id (gen_at w k)) k (dw_store w))" using assms(1) by (simp add: store_sound_def)
  ultimately show ?thesis
    unfolding ds_switch_move using store_sound_move [OF assms(1,2)] set_store_put [OF assms(1,2)] by blast
qed

lemma store_sound_restore:
  assumes "store_sound w" "k < length (dw_generations w)" "k \<noteq> dw_active w"
  shows "store_sound (ds_restore k (dw_active w) w)"
proof -
  let ?m = "jm_set (dg_id (gen_at w k)) k (dw_store w)"
  have m: "set ?m = set (dw_store w) \<union> {(dg_id (gen_at w k), k)}" "jm_ok ?m"
    using set_store_put [OF assms(1,2)] assms(1) by (simp_all add: store_sound_def)
  have "(dg_id (gen_at w (dw_active w)), dw_active w) \<in> set ?m" using assms(1) m by (simp add: store_sound_def)
  then have "jm_set (dg_id (gen_at w (dw_active w))) (dw_active w) ?m = ?m"
    using m(2) by (intro update_triv) (simp add: jm_in_get)
  then show ?thesis
    unfolding ds_restore_move using store_sound_move [OF assms m(2) m(1)] by (simp add: store_sound_releaseDrained)
qed

lemma store_sound_stage:
  assumes "store_sound w" "dg_id g \<notin> dg_id ` set (dw_generations w)" "dg_queryRefs g = 0"
  shows "store_sound (w\<lparr>dw_generations := dw_generations w @ [g]\<rparr>)"
proof -
  let ?w = "w\<lparr>dw_generations := dw_generations w @ [g]\<rparr>"
  have at: "k < length (dw_generations w) \<Longrightarrow> gen_at ?w k = gen_at w k" "gen_at ?w (length (dw_generations w)) = g" for k
    by (simp_all add: gen_at_def nth_append)
  have "open_on (dw_handles w) (length (dw_generations w)) = 0"
    using assms(1) by (auto simp: open_on_def store_sound_def filter_empty_conv)
  then show ?thesis
    using assms by (fastforce simp: store_sound_def at less_Suc_eq)
qed

lemma store_sound_abort: "store_sound w \<Longrightarrow> store_sound (on_gen k abortInFlight w)"
  by (rule store_sound_on_gen) (simp_all add: abortInFlight_def)

lemma store_sound_shutdown: "store_sound w \<Longrightarrow> store_sound (ds_shutdown w)"
proof -
  have "store_sound w \<Longrightarrow> store_sound (fold (\<lambda>k. on_gen k abortInFlight) ks w)" for ks w
    by (induction ks arbitrary: w) (simp_all add: store_sound_abort)
  then show "store_sound w \<Longrightarrow> store_sound (ds_shutdown w)"
    by (simp add: ds_shutdown_def store_sound_releaseDrained)
qed

section \<open>Calls, flights and handles belong together\<close>

definition pending :: "dns_world \<Rightarrow> dns_call list" where
  "pending w = filter (\<lambda>c. dca_result c = None) (dw_calls w)"

text \<open>
  Every pending call holds an open handle on the generation whose flight it waits for, every flight
  has a pending call, and the open handles are those of the pending calls and \<open>hs\<close>.
\<close>

definition calls_sound :: "nat list \<Rightarrow> dns_world \<Rightarrow> bool" where
  "calls_sound hs w \<longleftrightarrow>
     distinct (map dca_handle (pending w) @ hs) \<and>
     {k. k < length (dw_handles w) \<and> \<not> dnh_released (dw_handles w ! k)} = dca_handle ` set (pending w) \<union> set hs \<and>
     (\<forall>c \<in> set (pending w). dca_generation c < length (dw_generations w) \<and>
        dnh_generation (dw_handles w ! dca_handle c) = dca_generation c \<and>
        jm_has (dg_flights (gen_at w (dca_generation c))) (dca_key c)) \<and>
     (\<forall>k < length (dw_generations w). jm_ok (dg_flights (gen_at w k)) \<and>
        (\<forall>key. jm_has (dg_flights (gen_at w k)) key \<longrightarrow> (\<exists>c \<in> set (pending w). waits_for k key c)))"

lemma calls_sound_cong:
  assumes "calls_sound hs w" "dw_handles w' = dw_handles w" "dw_calls w' = dw_calls w"
    and "length (dw_generations w') = length (dw_generations w)"
    and "\<And>k. k < length (dw_generations w) \<Longrightarrow> map fst (dg_flights (gen_at w' k)) = map fst (dg_flights (gen_at w k))"
  shows "calls_sound hs w'"
proof -
  have has: "jm_has m key \<longleftrightarrow> key \<in> set (map fst m)" for m key by (simp add: jm_has_def)
  have "pending w' = pending w" by (simp add: pending_def assms(3))
  then show ?thesis
    using assms(1,2,4,5) unfolding calls_sound_def has jm_ok_def by auto
qed

lemma calls_sound_on_gen:
  assumes "calls_sound hs w" "map fst (dg_flights (f (gen_at w i))) = map fst (dg_flights (gen_at w i))"
  shows "calls_sound hs (on_gen i f w)"
  by (rule calls_sound_cong [OF assms(1)]) (use assms(2) in \<open>auto simp: gen_at_on_gen\<close>)

lemma calls_sound_releaseDrained: "calls_sound hs w \<Longrightarrow> calls_sound hs (ds_releaseDrained w)"
  by (rule calls_sound_cong) (simp_all add: ds_releaseDrained_def gen_at_def)

lemma calls_sound_release:
  assumes "calls_sound (k # hs) w"
  shows "calls_sound hs (ds_release k w)"
proof -
  let ?w = "w\<lparr>dw_handles := (dw_handles w)[k := (dw_handles w ! k)\<lparr>dnh_released := True\<rparr>]\<rparr>"
  from assms have k: "k < length (dw_handles w)" "\<not> dnh_released (dw_handles w ! k)"
    and fresh: "k \<notin> dca_handle ` set (pending w)" "k \<notin> set hs" by (auto simp: calls_sound_def)
  have unreleased: "{j. j < length (dw_handles ?w) \<and> \<not> dnh_released (dw_handles ?w ! j)} =
      {j. j < length (dw_handles w) \<and> \<not> dnh_released (dw_handles w ! j)} - {k}"
    using k(1) by (auto simp: nth_list_update)
  have "calls_sound hs ?w"
    using assms fresh k unfolding calls_sound_def unreleased
    by (auto simp: gen_at_def pending_def nth_list_update)
  then have "calls_sound hs (released k w)"
    unfolding released_def by (rule calls_sound_on_gen) (simp add: endQuery_def)
  with k show ?thesis by (simp add: ds_release_cases calls_sound_releaseDrained)
qed

lemma calls_sound_releases: "calls_sound (ks @ hs) w \<Longrightarrow> calls_sound hs (fold ds_release ks w)"
  by (induction ks arbitrary: w) (simp_all add: calls_sound_release)

lemma store_sound_releases: "store_sound w \<Longrightarrow> store_sound (fold ds_release ks w)"
  by (induction ks arbitrary: w) (simp_all add: store_sound_release)

subsection \<open>The resolver\<close>

lemma fold_handles: "fold (\<lambda>c. ds_release (dca_handle c)) cs w = fold ds_release (map dca_handle cs) w"
  by (induction cs arbitrary: w) simp_all

lemma ds_acquire_fst: "fst (ds_acquire w) = length (dw_handles w)"
  by (simp add: ds_acquire_def Let_def)

lemma acquire_fields:
  "dw_active (snd (ds_acquire w)) = dw_active w" "dw_calls (snd (ds_acquire w)) = dw_calls w"
  "length (dw_generations (snd (ds_acquire w))) = length (dw_generations w)"
  "dw_handles (snd (ds_acquire w)) = dw_handles w @ [\<lparr>dnh_generation = dw_active w, dnh_released = False\<rparr>]"
  by (simp_all add: ds_acquire_def Let_def)

lemma calls_sound_acquire:
  assumes "calls_sound hs w"
  shows "calls_sound (length (dw_handles w) # hs) (snd (ds_acquire w))"
proof -
  let ?w = "w\<lparr>dw_handles := dw_handles w @ [\<lparr>dnh_generation = dw_active w, dnh_released = False\<rparr>]\<rparr>"
  have old: "k < length (dw_handles w)" if "k \<in> dca_handle ` set (pending w) \<union> set hs" for k
    using assms that by (auto simp: calls_sound_def)
  have "{k. k < length (dw_handles ?w) \<and> \<not> dnh_released (dw_handles ?w ! k)} =
      insert (length (dw_handles w)) {k. k < length (dw_handles w) \<and> \<not> dnh_released (dw_handles w ! k)}"
    by (auto simp: nth_append less_Suc_eq)
  moreover have "length (dw_handles w) \<notin> dca_handle ` set (pending w) \<union> set hs" using old by blast
  ultimately have sound: "calls_sound (length (dw_handles w) # hs) ?w"
    using assms old by (auto simp: calls_sound_def pending_def gen_at_def nth_append)
  have flights: "dg_flights (gen_at (snd (ds_acquire w)) k) = dg_flights (gen_at ?w k)" for k
  proof -
    have "gen_at (snd (ds_acquire w)) k = gen_at (on_gen (dw_active w) beginQuery w) k"
      by (simp add: ds_acquire_def gen_at_def Let_def)
    then show ?thesis by (simp add: gen_at_on_gen beginQuery_def) (simp add: gen_at_def)
  qed
  show ?thesis
    by (rule calls_sound_cong [OF sound]) (simp_all add: acquire_fields flights)
qed

definition world_sound :: "dns_world \<Rightarrow> bool" where
  "world_sound w \<longleftrightarrow> store_sound w \<and> calls_sound [] w"

text \<open>The world while a resolution holds a handle that no pending call owns yet.\<close>

definition held :: "nat \<Rightarrow> dns_world \<Rightarrow> bool" where
  "held k w \<longleftrightarrow> store_sound w \<and> calls_sound [k] w \<and> dnh_generation (dw_handles w ! k) = dw_active w"

lemma held_acquire: "world_sound w \<Longrightarrow> ds_acquire w = (k, w') \<Longrightarrow> held k w' \<and> dw_active w' = dw_active w"
  using store_sound_acquire [of w] calls_sound_acquire [of "[]" w] ds_acquire_fst [of w] acquire_fields [of w]
  by (simp add: held_def world_sound_def)

lemma held_on_gen:
  assumes "held k w" "dg_id (f (gen_at w i)) = dg_id (gen_at w i)"
    "dg_queryRefs (f (gen_at w i)) = dg_queryRefs (gen_at w i)" "dg_draining (f (gen_at w i)) = dg_draining (gen_at w i)"
    "dg_flights (f (gen_at w i)) = dg_flights (gen_at w i)"
  shows "held k (on_gen i f w)"
  using assms by (simp add: held_def store_sound_on_gen calls_sound_on_gen)

lemma held_end_call:
  assumes "held k w"
  shows "world_sound (end_call k h r w)"
proof -
  let ?c = "\<lparr>dca_host = h, dca_handle = k, dca_generation = dw_active w, dca_key = '''', dca_result = Some r\<rparr>"
  let ?w = "w\<lparr>dw_calls := dw_calls w @ [?c]\<rparr>"
  have "pending ?w = pending w" by (simp add: pending_def)
  then have "calls_sound [k] ?w" using assms by (simp add: held_def calls_sound_def gen_at_def)
  moreover have "store_sound ?w"
    by (rule store_sound_cong [of w]) (use assms in \<open>simp_all add: held_def\<close>)
  ultimately show ?thesis
    by (simp add: end_call_def world_sound_def store_sound_release calls_sound_release)
qed

text \<open>The call waits: \<open>f\<close> leaves the flights of the generation as they are or starts the one waited for.\<close>

lemma held_wait:
  assumes "held k w" and g: "g = gen_at w (dw_active w)"
    and c: "c = \<lparr>dca_host = h, dca_handle = k, dca_generation = dw_active w, dca_key = key, dca_result = None\<rparr>"
    and f: "dg_id (f g) = dg_id g" "dg_queryRefs (f g) = dg_queryRefs g" "dg_draining (f g) = dg_draining g"
      "jm_ok (dg_flights g) \<Longrightarrow> jm_ok (dg_flights (f g))"
      "\<And>l. jm_has (dg_flights (f g)) l \<longleftrightarrow> l = key \<or> jm_has (dg_flights g) l"
  shows "world_sound (on_gen (dw_active w) f (w\<lparr>dw_calls := dw_calls w @ [c]\<rparr>))" (is "world_sound (on_gen _ _ ?w)")
proof -
  have at: "gen_at ?w j = gen_at w j" for j by (simp add: gen_at_def)
  have "store_sound ?w"
    by (rule store_sound_cong [of w]) (use assms(1) in \<open>simp_all add: held_def\<close>)
  then have store: "store_sound (on_gen (dw_active w) f ?w)"
    by (rule store_sound_on_gen) (simp_all add: at f flip: g)
  have active: "dw_active w < length (dw_generations w)" using assms(1) by (simp add: held_def store_sound_def)
  have pend: "pending (on_gen (dw_active w) f ?w) = pending w @ [c]" by (simp add: pending_def c)
  have has: "jm_has (dg_flights (gen_at (on_gen (dw_active w) f ?w) j)) l \<longleftrightarrow>
      (j = dw_active w \<and> l = key) \<or> jm_has (dg_flights (gen_at w j)) l" for j l
    using active f(5) by (auto simp: gen_at_on_gen at simp flip: g)
  have ok: "jm_ok (dg_flights (gen_at w j)) \<Longrightarrow> jm_ok (dg_flights (gen_at (on_gen (dw_active w) f ?w) j))" for j
    using f(4) unfolding g by (auto simp: gen_at_on_gen at)
  have sound: "calls_sound [k] w" "dnh_generation (dw_handles w ! k) = dw_active w" using assms(1) by (simp_all add: held_def)
  have "calls_sound [] (on_gen (dw_active w) f ?w)"
    unfolding calls_sound_def pend has
    using sound active ok unfolding calls_sound_def by (auto simp: c waits_for_def)
  with store show ?thesis by (simp add: world_sound_def)
qed

lemma on_gen_same [simp]: "on_gen i (\<lambda>g. g) w = w"
  by (simp add: on_gen_def gen_at_def)

lemma counters_sound [simp]:
  "world_sound (w\<lparr>dw_queries := n\<rparr>) = world_sound w" "world_sound (w\<lparr>dw_failures := n\<rparr>) = world_sound w"
  by (simp_all add: world_sound_def store_sound_def calls_sound_def pending_def gen_at_def)

lemma on_gen_counters:
  "on_gen i f (w\<lparr>dw_queries := n\<rparr>) = (on_gen i f w)\<lparr>dw_queries := n\<rparr>"
  "on_gen i f (w\<lparr>dw_failures := n\<rparr>) = (on_gen i f w)\<lparr>dw_failures := n\<rparr>"
  by (simp_all add: on_gen_def gen_at_def)

lemma cached_fields:
  "getPositive now h g = (r, g') \<Longrightarrow> dg_id g' = dg_id g \<and> dg_queryRefs g' = dg_queryRefs g \<and>
     dg_draining g' = dg_draining g \<and> dg_flights g' = dg_flights g \<and> dg_config g' = dg_config g"
  "getNegative now h g = (r, g') \<Longrightarrow> dg_id g' = dg_id g \<and> dg_queryRefs g' = dg_queryRefs g \<and>
     dg_draining g' = dg_draining g \<and> dg_flights g' = dg_flights g \<and> dg_config g' = dg_config g"
  by (auto simp: getPositive_def getNegative_def split: prod.splits)

lemma dns_resolve_sound:
  assumes "world_sound w"
  shows "world_sound (snd (dns_resolve now host w))"
proof (cases "isIP host = 0")
  case True
  let ?i = "dw_active w" and ?h = "js_lower host"
  obtain k w1 where acq: "ds_acquire w = (k, w1)" by (cases "ds_acquire w")
  then have w1: "held k w1" "dw_active w1 = ?i" using held_acquire [OF assms] by auto
  have i: "?i < length (dw_generations w1)" using w1 by (simp add: held_def store_sound_def)
  obtain pos g1 where pos: "getPositive now ?h (gen_at w1 ?i) = (pos, g1)" by (cases "getPositive now ?h (gen_at w1 ?i)")
  obtain negs g2 where negs: "getNegative now ?h g1 = (negs, g2)" by (cases "getNegative now ?h g1")
  let ?w2 = "on_gen ?i (\<lambda>g. g1) w1"
  let ?w3 = "on_gen ?i (\<lambda>g. g2) ?w2"
  have w2: "held k ?w2" by (rule held_on_gen [OF w1(1)]) (use cached_fields(1) [OF pos] in simp_all)
  have w3: "held k ?w3"
    by (rule held_on_gen [OF w2]) (use cached_fields(2) [OF negs] i in \<open>simp_all add: gen_at_on_gen\<close>)
  have g2: "g2 = gen_at ?w3 (dw_active ?w3)" using i w1(2) by (simp add: gen_at_on_gen)
  note wait = held_wait [OF w3 g2 refl, of _ "flight_key g2 ?h" ?h]
  have join: "world_sound (?w3\<lparr>dw_calls := dw_calls ?w3 @ [\<lparr>dca_host = ?h, dca_handle = k, dca_generation = ?i,
      dca_key = flight_key g2 ?h, dca_result = None\<rparr>]\<rparr>)" if "jm_has (dg_flights g2) (flight_key g2 ?h)"
    using wait [of "\<lambda>g. g"] that w1(2) by auto
  have start: "world_sound (on_gen ?i (\<lambda>g. g\<lparr>dg_flights := jm_set (flight_key g2 ?h) fl (dg_flights g)\<rparr>)
      (?w3\<lparr>dw_calls := dw_calls ?w3 @ [\<lparr>dca_host = ?h, dca_handle = k, dca_generation = ?i,
      dca_key = flight_key g2 ?h, dca_result = None\<rparr>]\<rparr>))" for fl
    using wait [of "\<lambda>g. g\<lparr>dg_flights := jm_set (flight_key g2 ?h) fl (dg_flights g)\<rparr>"] w1(2) by simp
  show ?thesis
    using True join start
    by (auto simp: dns_resolve_def Let_def acq pos negs on_gen_counters split: option.splits
        intro: held_end_call [OF w1(1)] held_end_call [OF w2] held_end_call [OF w3])
qed (simp add: dns_resolve_def assms)

lemma settle_flight_sound:
  assumes "world_sound w" "i < length (dw_generations w)"
  shows "world_sound (settle_flight i key r w)"
proof -
  let ?f = "\<lambda>g. g\<lparr>dg_flights := jm_del key (dg_flights g)\<rparr>"
  let ?w1 = "on_gen i ?f w"
  let ?w2 = "?w1\<lparr>dw_calls := map (\<lambda>c. if waits_for i key c then c\<lparr>dca_result := Some r\<rparr> else c) (dw_calls w)\<rparr>"
  let ?wait = "filter (waits_for i key) (dw_calls w)"
  have "store_sound ?w1" using assms(1) by (simp add: world_sound_def store_sound_on_gen)
  then have store: "store_sound ?w2" by (rule store_sound_cong) simp_all
  have at: "gen_at ?w2 k = gen_at ?w1 k" for k by (simp add: gen_at_def)
  have has: "jm_has (dg_flights (gen_at ?w2 k)) l \<longleftrightarrow> jm_has (dg_flights (gen_at w k)) l \<and> (k, l) \<noteq> (i, key)" for k l
    using assms(2) by (auto simp: at gen_at_on_gen)
  have ok: "jm_ok (dg_flights (gen_at w k)) \<Longrightarrow> jm_ok (dg_flights (gen_at ?w2 k))" for k
    by (auto simp: at gen_at_on_gen)
  have "filter (\<lambda>c. dca_result c = None) (map (\<lambda>c. if waits_for i key c then c\<lparr>dca_result := Some r\<rparr> else c) cs) =
      filter (\<lambda>c. \<not> waits_for i key c) (filter (\<lambda>c. dca_result c = None) cs)" for cs
    by (induction cs) (auto simp: waits_for_def)
  then have rest: "pending ?w2 = filter (\<lambda>c. \<not> waits_for i key c) (pending w)"
    by (simp add: pending_def)
  have wait: "?wait = filter (waits_for i key) (pending w)"
    by (auto simp: pending_def waits_for_def intro: filter_cong)
  have sound: "calls_sound [] w" using assms(1) by (simp add: world_sound_def)
  then have inj: "distinct (map dca_handle (pending w))" by (simp add: calls_sound_def)
  have "distinct (map dca_handle (filter (\<lambda>c. \<not> waits_for i key c) (pending w) @ filter (waits_for i key) (pending w)))"
    using inj by (auto simp: distinct_map intro: inj_on_subset dest: inj_onD)
  moreover have "dca_handle ` set (pending ?w2) \<union> set (map dca_handle ?wait) = dca_handle ` set (pending w)"
    unfolding rest wait by auto
  moreover have "\<forall>c \<in> set (pending ?w2). dca_generation c < length (dw_generations w) \<and>
      dnh_generation (dw_handles w ! dca_handle c) = dca_generation c \<and>
      jm_has (dg_flights (gen_at ?w2 (dca_generation c))) (dca_key c)"
    using sound unfolding has rest calls_sound_def by (auto simp: waits_for_def pending_def)
  moreover have "\<exists>c \<in> set (pending ?w2). waits_for k l c"
    if "k < length (dw_generations w)" "jm_has (dg_flights (gen_at ?w2 k)) l" for k l
  proof -
    from that sound obtain c where "c \<in> set (pending w)" "waits_for k l c" "(k, l) \<noteq> (i, key)"
      unfolding has calls_sound_def by blast
    then show ?thesis unfolding rest by (auto simp: waits_for_def)
  qed
  moreover have "jm_ok (dg_flights (gen_at ?w2 k))" if "k < length (dw_generations w)" for k
    using ok sound that by (simp add: calls_sound_def)
  moreover have "dw_handles ?w2 = dw_handles w" "length (dw_generations ?w2) = length (dw_generations w)" by simp_all
  ultimately have "calls_sound (map dca_handle ?wait) ?w2"
    using sound unfolding calls_sound_def wait rest by simp
  then have "calls_sound [] (fold ds_release (map dca_handle ?wait) ?w2)"
    using calls_sound_releases [of "map dca_handle ?wait" "[]" ?w2] by simp
  moreover have "store_sound (fold ds_release (map dca_handle ?wait) ?w2)" by (rule store_sound_releases [OF store])
  ultimately show ?thesis
    by (simp add: world_sound_def settle_flight_def Let_def fold_handles)
qed

lemma resolveUncached_fields:
  "resolveUncached now h u g = (r, g') \<Longrightarrow> dg_id g' = dg_id g \<and> dg_queryRefs g' = dg_queryRefs g \<and>
     dg_draining g' = dg_draining g \<and> dg_flights g' = dg_flights g"
  by (auto simp: resolveUncached_def Let_def set_keeps split: upstream.splits option.splits if_splits)

lemma world_sound_on_gen:
  assumes "world_sound w"
    and "dg_id (f (gen_at w i)) = dg_id (gen_at w i)" "dg_queryRefs (f (gen_at w i)) = dg_queryRefs (gen_at w i)"
      "dg_draining (f (gen_at w i)) = dg_draining (gen_at w i)"
      "map fst (dg_flights (f (gen_at w i))) = map fst (dg_flights (gen_at w i))"
  shows "world_sound (on_gen i f w)"
  using assms by (simp add: world_sound_def store_sound_on_gen calls_sound_on_gen)

lemma dns_complete_sound:
  assumes "world_sound w" "i < length (dw_generations w)"
  shows "world_sound (dns_complete now i key u w)"
proof -
  have "world_sound (on_gen i (\<lambda>x. g) w)" if "resolveUncached now h u (gen_at w i) = (r, g)" for h r g
    by (rule world_sound_on_gen [OF assms(1)]) (use resolveUncached_fields [OF that] in simp_all)
  then show ?thesis
    using assms by (auto simp: dns_complete_def Let_def settle_flight_sound split: option.splits prod.splits)
qed

lemma world_sound_stage:
  assumes "world_sound w" "dg_id g \<notin> dg_id ` set (dw_generations w)" "dg_flights g = []" "dg_queryRefs g = 0"
  shows "world_sound (w\<lparr>dw_generations := dw_generations w @ [g]\<rparr>)"
proof -
  let ?w = "w\<lparr>dw_generations := dw_generations w @ [g]\<rparr>"
  have at: "k < length (dw_generations w) \<Longrightarrow> gen_at ?w k = gen_at w k" "gen_at ?w (length (dw_generations w)) = g" for k
    by (simp_all add: gen_at_def nth_append)
  have none: "\<not> jm_has [] l" for l :: string by (simp add: jm_has_def)
  have pend: "pending ?w = pending w" and fields: "dw_handles ?w = dw_handles w"
    "length (dw_generations ?w) = Suc (length (dw_generations w))" by (simp_all add: pending_def)
  from assms(1) have old: "calls_sound [] w" by (simp add: world_sound_def)
  have "\<forall>c \<in> set (pending w). dca_generation c < Suc (length (dw_generations w)) \<and>
      dnh_generation (dw_handles w ! dca_handle c) = dca_generation c \<and>
      jm_has (dg_flights (gen_at ?w (dca_generation c))) (dca_key c)"
    using old by (simp add: calls_sound_def at less_Suc_eq)
  moreover have "\<forall>k < Suc (length (dw_generations w)). jm_ok (dg_flights (gen_at ?w k)) \<and>
      (\<forall>key. jm_has (dg_flights (gen_at ?w k)) key \<longrightarrow> (\<exists>c \<in> set (pending w). waits_for k key c))"
    using old by (simp add: calls_sound_def All_less_Suc at assms(3) none)
  ultimately have "calls_sound [] ?w"
    using old by (simp add: calls_sound_def pend fields)
  moreover have "store_sound ?w" using assms by (simp add: world_sound_def store_sound_stage)
  ultimately show ?thesis by (simp add: world_sound_def)
qed

lemma calls_sound_move: "calls_sound hs w \<Longrightarrow> calls_sound hs (move_active b store w)"
  unfolding move_active_def
  by (rule calls_sound_cong [of hs "on_gen b (set_draining False) (on_gen (dw_active w) (set_draining True) w)"])
    (simp_all add: calls_sound_on_gen gen_at_def)

lemma world_sound_switch:
  "world_sound w \<Longrightarrow> k < length (dw_generations w) \<Longrightarrow> k \<notin> set (jm_vals (dw_store w)) \<Longrightarrow> world_sound (ds_switchTo k w)"
  by (simp add: world_sound_def store_sound_switch) (simp add: ds_switch_move calls_sound_move)

lemma world_sound_restore:
  "world_sound w \<Longrightarrow> k < length (dw_generations w) \<Longrightarrow> k \<noteq> dw_active w \<Longrightarrow> world_sound (ds_restore k (dw_active w) w)"
  by (simp add: world_sound_def store_sound_restore) (simp add: ds_restore_move calls_sound_move calls_sound_releaseDrained)

lemma world_sound_releaseDrained: "world_sound w \<Longrightarrow> world_sound (ds_releaseDrained w)"
  by (simp add: world_sound_def store_sound_releaseDrained calls_sound_releaseDrained)

lemma world_sound_abort: "world_sound w \<Longrightarrow> world_sound (on_gen k abortInFlight w)"
  by (rule world_sound_on_gen) (auto simp: abortInFlight_def)

lemma world_sound_shutdown: "world_sound w \<Longrightarrow> world_sound (ds_shutdown w)"
proof -
  have "world_sound w \<Longrightarrow> world_sound (fold (\<lambda>k. on_gen k abortInFlight) ks w)" for ks w
    by (induction ks arbitrary: w) (simp_all add: world_sound_abort)
  then show "world_sound w \<Longrightarrow> world_sound (ds_shutdown w)"
    by (simp add: ds_shutdown_def world_sound_releaseDrained)
qed

lemma world_sound_new: "dg_flights g = [] \<Longrightarrow> dg_queryRefs g = 0 \<Longrightarrow> world_sound (newDnsWorld g)"
  by (auto simp: world_sound_def store_sound_def calls_sound_def newDnsWorld_def gen_at_def pending_def open_on_def
      jm_ok_Cons jm_has_def)

lemma dns_step_sound: "dns_step w w' \<Longrightarrow> world_sound w \<Longrightarrow> world_sound w'"
  by (induction rule: dns_step.induct)
    (auto intro: dns_resolve_sound dns_complete_sound world_sound_stage world_sound_switch world_sound_restore
      world_sound_releaseDrained world_sound_abort world_sound_shutdown)

lemma dns_reachable_sound:
  "dns_reachable g w \<Longrightarrow> dg_flights g = [] \<Longrightarrow> dg_queryRefs g = 0 \<Longrightarrow> world_sound w"
  by (induction rule: dns_reachable.induct) (simp_all add: world_sound_new dns_step_sound)

lemma ds_release_keeps [simp]:
  "dw_calls (ds_release k w) = dw_calls w" "length (dw_handles (ds_release k w)) = length (dw_handles w)" "length (dw_generations (ds_release k w)) = length (dw_generations w)"
  "dg_flights (gen_at (ds_release k w) j) = dg_flights (gen_at w j)"
proof -
  have "dg_flights (gen_at (ds_releaseDrained (released k w)) j) = dg_flights (gen_at (released k w) j)"
    by (simp add: ds_releaseDrained_def gen_at_def)
  also have "\<dots> = dg_flights (gen_at w j)"
    by (simp add: released_def gen_at_on_gen endQuery_def) (simp add: gen_at_def)
  finally show "dg_flights (gen_at (ds_release k w) j) = dg_flights (gen_at w j)" by (simp add: ds_release_cases)
qed (simp_all add: ds_release_cases released_def ds_releaseDrained_def)

lemma ds_releases_keep [simp]:
  "dw_calls (fold ds_release ks w) = dw_calls w" "length (dw_handles (fold ds_release ks w)) = length (dw_handles w)"
  "dg_flights (gen_at (fold ds_release ks w) j) = dg_flights (gen_at w j)"
  by (induction ks arbitrary: w) simp_all

lemma settle_flight_calls:
  "dw_calls (settle_flight i key r w) =
     map (\<lambda>d. if waits_for i key d then d\<lparr>dca_result := Some r\<rparr> else d) (dw_calls w)"
  by (simp add: settle_flight_def Let_def fold_handles)

lemma dns_complete_handles: "length (dw_handles (dns_complete now i key u w)) = length (dw_handles w)"
  by (simp add: dns_complete_def settle_flight_def Let_def fold_handles split: option.splits prod.splits)

lemma settle_flight_gone:
  "i < length (dw_generations w) \<Longrightarrow> \<not> jm_has (dg_flights (gen_at (settle_flight i key r w) i)) key"
  by (simp add: settle_flight_def Let_def fold_handles) (simp add: gen_at_def on_gen_def)

lemma dns_complete_settle:
  assumes "jm_get (dg_flights (gen_at w i)) key = Some f"
  shows "\<exists>r w1. dns_complete now i key u w = settle_flight i key r w1 \<and> dw_calls w1 = dw_calls w \<and>
     length (dw_generations w1) = length (dw_generations w) \<and>
     (\<not> fl_aborted f \<longrightarrow> r = fst (resolveUncached now (fl_host f) u (gen_at w i)))"
  using assms by (auto simp: dns_complete_def Let_def split: prod.splits)

lemma released_when_not_pending:
  assumes "world_sound w" "k < length (dw_handles w)" "k \<notin> dca_handle ` set (pending w)"
  shows "dnh_released (dw_handles w ! k)"
  using assms by (auto simp: world_sound_def calls_sound_def)

lemma distinct_single:
  assumes "distinct xs" "set xs = {x}"
  shows "xs = [x]"
proof -
  have "length xs = 1" using distinct_card [OF assms(1)] assms(2) by simp
  then obtain y where "xs = [y]" by (cases xs) auto
  with assms(2) show ?thesis by simp
qed

section \<open>Properties\<close>

text \<open>
  Property C29. DNS generations are not leaked: however traffic, upstream answers and reloads
  interleave, a generation's count is the number of open handles on it, and once every resolution
  has ended, dropping what is drained leaves the active generation alone in the store.
\<close>

theorem dns_store_no_leak:
  assumes "dns_reachable (newDnsGeneration hs i n c counters t) w"
  shows "(\<forall>k < length (dw_generations w). dg_queryRefs (gen_at w k) =
            length (filter (\<lambda>h. \<not> dnh_released h \<and> dnh_generation h = k) (dw_handles w))) \<and>
    ((\<forall>d \<in> set (dw_calls w). dca_result d \<noteq> None) \<longrightarrow>
       dw_store (ds_releaseDrained w) = [(dg_id (gen_at w (dw_active w)), dw_active w)])"
proof -
  have sound: "world_sound w" by (rule dns_reachable_sound [OF assms]) (simp_all add: newDnsGeneration_def)
  then have store: "store_sound w" and calls: "calls_sound [] w" by (simp_all add: world_sound_def)
  have counts: "\<forall>k < length (dw_generations w). dg_queryRefs (gen_at w k) = open_on (dw_handles w) k"
    using store by (simp add: store_sound_def)
  have "dw_store (ds_releaseDrained w) = [(dg_id (gen_at w (dw_active w)), dw_active w)]"
    if ended: "\<forall>d \<in> set (dw_calls w). dca_result d \<noteq> None"
  proof -
    have none: "pending w = []" using ended by (auto simp: pending_def filter_empty_conv)
    have "open_on (dw_handles w) k = 0" for k
      using calls by (auto simp: calls_sound_def none open_on_def filter_empty_conv in_set_conv_nth)
    moreover have "dg_flights (gen_at w k) = []" if "k < length (dw_generations w)" for k
      using calls that by (cases "dg_flights (gen_at w k)") (auto simp: calls_sound_def none jm_has_def)
    ultimately have "isReleasable (gen_at w k)" if "(j, k) \<in> set (dw_store w)" "k \<noteq> dw_active w" for j k
      using store that counts by (auto simp: store_sound_def isReleasable_def)
    then have all: "k = dw_active w \<and> j = dg_id (gen_at w k)" if "(j, k) \<in> set (dw_store (ds_releaseDrained w))" for j k
      using that store by (auto simp: ds_releaseDrained_def store_sound_def)
    have "(dg_id (gen_at w (dw_active w)), dw_active w) \<in> set (dw_store (ds_releaseDrained w))"
      using store by (simp add: ds_releaseDrained_def store_sound_def)
    moreover have "distinct (dw_store (ds_releaseDrained w))"
      using store by (auto simp: ds_releaseDrained_def store_sound_def jm_ok_def distinct_map)
    moreover have "set (dw_store (ds_releaseDrained w)) \<subseteq> {(dg_id (gen_at w (dw_active w)), dw_active w)}"
    proof (rule subrelI)
      fix j k assume "(j, k) \<in> set (dw_store (ds_releaseDrained w))"
      from all [OF this] show "(j, k) \<in> {(dg_id (gen_at w (dw_active w)), dw_active w)}" by simp
    qed
    ultimately show ?thesis by (intro distinct_single) blast+
  qed
  with counts show ?thesis by (auto simp: open_on_def)
qed

text \<open>
  Property C30. A resolution that waits ends: when the upstream answers its flight, in any way,
  every call waiting for that flight ends with one and the same outcome, which is the address if
  the answer is one and the flight was not aborted; the flight is gone and the call's handle
  released.
\<close>

theorem dns_call_ends:
  assumes "dns_reachable (newDnsGeneration hs i n c counters t) w"
    and "d \<in> set (dw_calls w)" "dca_result d = None"
  shows "\<exists>f r. jm_get (dg_flights (gen_at w (dca_generation d))) (dca_key d) = Some f \<and>
     (let w' = dns_complete now (dca_generation d) (dca_key d) u w in
      dw_calls w' = map (\<lambda>e. if waits_for (dca_generation d) (dca_key d) e then e\<lparr>dca_result := Some r\<rparr> else e) (dw_calls w) \<and>
      \<not> jm_has (dg_flights (gen_at w' (dca_generation d))) (dca_key d) \<and>
      dnh_released (dw_handles w' ! dca_handle d) \<and>
      (\<forall>a ttl. u = Answer a ttl \<and> \<not> fl_aborted f \<longrightarrow> r = Inr (Text a)))"
proof -
  let ?i = "dca_generation d" and ?k = "dca_key d"
  let ?w = "dns_complete now ?i ?k u w"
  have sound: "world_sound w" by (rule dns_reachable_sound [OF assms(1)]) (simp_all add: newDnsGeneration_def)
  have d: "d \<in> set (pending w)" using assms(2,3) by (simp add: pending_def)
  with sound have i: "?i < length (dw_generations w)" and has: "jm_has (dg_flights (gen_at w ?i)) ?k"
    and h: "dca_handle d < length (dw_handles w)" and inj: "inj_on dca_handle (set (pending w))"
    by (auto simp: world_sound_def calls_sound_def distinct_map)
  from has obtain f where f: "jm_get (dg_flights (gen_at w ?i)) ?k = Some f" by (auto simp: jm_has_get)
  from dns_complete_settle [OF f] obtain r w1 where w': "?w = settle_flight ?i ?k r w1" "dw_calls w1 = dw_calls w"
    "length (dw_generations w1) = length (dw_generations w)"
    and r: "\<not> fl_aborted f \<longrightarrow> r = fst (resolveUncached now (fl_host f) u (gen_at w ?i))" by blast
  have calls: "dw_calls ?w = map (\<lambda>e. if waits_for ?i ?k e then e\<lparr>dca_result := Some r\<rparr> else e) (dw_calls w)"
    by (simp add: w' settle_flight_calls)
  have "set (pending ?w) \<subseteq> set (pending w) - {d}"
    using assms(3) by (auto simp: pending_def calls waits_for_def split: if_splits)
  then have "dca_handle d \<notin> dca_handle ` set (pending ?w)" using inj d by (auto dest: inj_onD)
  moreover have "dca_handle d < length (dw_handles ?w)" using h by (simp add: dns_complete_handles)
  ultimately have "dnh_released (dw_handles ?w ! dca_handle d)"
    by (rule released_when_not_pending [OF dns_complete_sound [OF sound i], rotated])
  moreover have "r = Inr (Text a)" if "u = Answer a ttl" "\<not> fl_aborted f" for a ttl
    using r that by (simp add: resolveUncached_def Let_def)
  moreover have "\<not> jm_has (dg_flights (gen_at ?w ?i)) ?k" using i by (simp add: w' settle_flight_gone)
  ultimately show ?thesis using f calls by (auto simp: Let_def)
qed

lemma acquire_gen:
  "gen_at (snd (ds_acquire w)) k = (if k = dw_active w \<and> dw_active w < length (dw_generations w)
     then beginQuery (gen_at w k) else gen_at w k)"
proof -
  have "gen_at (snd (ds_acquire w)) k = gen_at (on_gen (dw_active w) beginQuery w) k"
    by (simp add: ds_acquire_def gen_at_def Let_def)
  then show ?thesis by (simp add: gen_at_on_gen)
qed

lemma beginQuery_fields [simp]:
  "dg_id (beginQuery g) = dg_id g" "dg_flights (beginQuery g) = dg_flights g" "dg_config (beginQuery g) = dg_config g"
  by (simp_all add: beginQuery_def)

text \<open>
  Queries are shared: a resolution that has to wait adds one waiting call for the host
  on the active generation, and asks the upstream only when no flight for that host is under way
  there; the lookups of the caches and the handles do not change what the others wait for.
\<close>

lemma dns_single_flight:
  assumes "dns_reachable (newDnsGeneration hs i n c counters t) w" "dns_resolve now host w = (None, w')"
  shows "let k = dw_active w; key = flight_key (gen_at w k) (js_lower host) in
    (\<exists>d. dw_calls w' = dw_calls w @ [d] \<and> waits_for k key d) \<and>
    dw_queries w' = dw_queries w + (if jm_has (dg_flights (gen_at w k)) key then 0 else 1) \<and>
    (\<forall>l. jm_has (dg_flights (gen_at w' k)) l \<longleftrightarrow> l = key \<or> jm_has (dg_flights (gen_at w k)) l)"
proof -
  let ?k = "dw_active w" and ?h = "js_lower host"
  have "world_sound w" by (rule dns_reachable_sound [OF assms(1)]) (simp_all add: newDnsGeneration_def)
  then have k: "?k < length (dw_generations w)" by (simp add: world_sound_def store_sound_def)
  obtain hd w1 where acq: "ds_acquire w = (hd, w1)" by (cases "ds_acquire w")
  have w1: "dw_active w1 = ?k" "dw_calls w1 = dw_calls w" "length (dw_generations w1) = length (dw_generations w)"
    "dw_queries w1 = dw_queries w" "gen_at w1 ?k = beginQuery (gen_at w ?k)"
    using acquire_fields [of w] acquire_gen [of w ?k] k acq by (auto simp: ds_acquire_def Let_def)
  obtain pos g1 where pos: "getPositive now ?h (beginQuery (gen_at w ?k)) = (pos, g1)"
    by (cases "getPositive now ?h (beginQuery (gen_at w ?k))")
  obtain negs g2 where negs: "getNegative now ?h g1 = (negs, g2)" by (cases "getNegative now ?h g1")
  have key: "flight_key g2 ?h = flight_key (gen_at w ?k) ?h" and fl: "dg_flights g2 = dg_flights (gen_at w ?k)"
    using cached_fields(1) [OF pos] cached_fields(2) [OF negs] by (simp_all add: flight_key_def w1)
  have at: "gen_at (w\<lparr>dw_calls := cs\<rparr>) j = gen_at w j" "gen_at (w\<lparr>dw_queries := q\<rparr>) j = gen_at w j" for w j cs q
    by (simp_all add: gen_at_def)
  show ?thesis
    using assms(2) k
    by (auto simp: dns_resolve_def Let_def acq pos negs key fl w1 waits_for_def gen_at_on_gen at on_gen_counters
        split: option.splits if_splits)
qed

text \<open>
  The host table is looked up as a plain JavaScript object, so a client that asks for
  the name \<open>constructor\<close> or \<open>__proto__\<close>, in any case, gets a built-in object instead of an
  address; no upstream is asked.
\<close>

lemma dns_prototype_host:
  assumes "js_lower host = ''constructor'' \<or> js_lower host = ''__proto__''" "isIP host = 0"
    and "jm_get (dc_hosts (dg_config (gen_at w (dw_active w)))) (js_lower host) = None"
  shows "fst (dns_resolve now host w) = Some (Inr (Builtin (js_lower host))) \<and>
     dw_queries (snd (dns_resolve now host w)) = dw_queries w"
proof -
  obtain hd w1 where acq: "ds_acquire w = (hd, w1)" by (cases "ds_acquire w")
  then have "dg_config (gen_at w1 (dw_active w)) = dg_config (gen_at w (dw_active w))" "dw_queries w1 = dw_queries w"
    using acquire_gen [of w "dw_active w"] by (auto simp: ds_acquire_def Let_def split: if_splits)
  moreover have "dw_queries (ds_release k w) = dw_queries w" for k w
    by (simp add: ds_release_cases released_def ds_releaseDrained_def)
  ultimately show ?thesis
    using assms by (auto simp: dns_resolve_def acq host_lookup_def inherited_def end_call_def Let_def)
qed

section \<open>Witnesses\<close>

definition sampleGen :: "string \<Rightarrow> dns_generation" where
  "sampleGen i = newDnsGeneration sampleHashes i 0 sampleDns None 0"

definition waitingWorld :: dns_world where
  "waitingWorld = snd (dns_resolve 1 ''b'' (newDnsWorld (sampleGen ''g'')))"

definition answeredWorld :: dns_world where
  "answeredWorld = dns_complete 2 0 ''g:A:b'' (Answer ''10.1.1.1'' 500) waitingWorld"

lemma not_ip: "isIP ''b'' = 0" "isIP ''Constructor'' = 0"
  by code_simp+

lemma waitingWorld_eq:
  "dw_calls waitingWorld = [\<lparr>dca_host = ''b'', dca_handle = 0, dca_generation = 0, dca_key = ''g:A:b'', dca_result = None\<rparr>]"
  "dw_generations waitingWorld = [(sampleGen ''g'')\<lparr>dg_queryRefs := 1, dg_flights := [(''g:A:b'', \<lparr>fl_host = ''b'', fl_aborted = False\<rparr>)]\<rparr>]"
  "dw_active waitingWorld = 0" "dw_queries waitingWorld = 1" "dw_store waitingWorld = [(''g'', 0)]"
  "dw_handles waitingWorld = [\<lparr>dnh_generation = 0, dnh_released = False\<rparr>]" "dw_failures waitingWorld = 0"
  by (simp_all add: waitingWorld_def dns_resolve_def not_ip ds_acquire_def newDnsWorld_def sampleGen_def newDnsGeneration_def
      sampleDns_def lower_abc host_lookup_def inherited_def gen_at_def on_gen_def getPositive_def getNegative_def cache_read_def
      beginQuery_def flight_key_def jm_has_def Let_def)

lemma waitingWorld_reachable: "dns_reachable (newDnsGeneration sampleHashes ''g'' 0 sampleDns None 0) waitingWorld"
  unfolding waitingWorld_def sampleGen_def by (intro dns_reachable.step [OF dns_reachable.start] dns_step.resolve)

lemma answeredWorld_reachable: "dns_reachable (newDnsGeneration sampleHashes ''g'' 0 sampleDns None 0) answeredWorld"
  unfolding answeredWorld_def
  by (intro dns_reachable.step [OF waitingWorld_reachable] dns_step.complete) (simp add: waitingWorld_eq)

lemma dns_store_no_leak_witness:
  "dw_store (ds_releaseDrained answeredWorld) = [(dg_id (gen_at answeredWorld (dw_active answeredWorld)), dw_active answeredWorld)]"
proof -
  have "jm_get (dg_flights (gen_at waitingWorld 0)) ''g:A:b'' = Some \<lparr>fl_host = ''b'', fl_aborted = False\<rparr>"
    by (simp add: gen_at_def waitingWorld_eq)
  from dns_complete_settle [OF this, of 2 "Answer ''10.1.1.1'' 500"]
  obtain r w1 where ended: "answeredWorld = settle_flight 0 ''g:A:b'' r w1" "dw_calls w1 = dw_calls waitingWorld"
    unfolding answeredWorld_def by blast
  have "\<forall>d \<in> set (dw_calls answeredWorld). dca_result d \<noteq> None"
    unfolding ended(1) settle_flight_calls ended(2) waitingWorld_eq by (simp add: waits_for_def)
  then show ?thesis using dns_store_no_leak [OF answeredWorld_reachable] by blast
qed

lemma dns_call_ends_witness:
  "\<exists>f r. jm_get (dg_flights (gen_at waitingWorld 0)) ''g:A:b'' = Some f \<and>
     (let w' = dns_complete 9 0 ''g:A:b'' (Failure (NetworkError ''down'')) waitingWorld in
      \<not> jm_has (dg_flights (gen_at w' 0)) ''g:A:b'' \<and> dnh_released (dw_handles w' ! 0))"
  using dns_call_ends [OF waitingWorld_reachable, of "hd (dw_calls waitingWorld)" 9 "Failure (NetworkError ''down'')"]
  by (auto simp: waitingWorld_eq Let_def)

end
