(* ===== verification/DnsAdapter.thy ===== *)
theory DnsAdapter
  imports DnsStore RoutingAdapters
begin

text \<open>
  The adapter that puts the DNS generations under the reload executor
  (\<^verbatim>\<open>src/reload/adapters/dnsRuntimeAdapter.ts\<close>) and the proof that it meets the contract of a
  reloadable component. As for routing, prepared values are a table of the world and a prepared
  component is a reference to one of them. The URL parser of the platform, the keyed hashes, the
  clock and the counters of the host are parameters.
\<close>

section \<open>Validation\<close>

record url_parts =
  url_protocol :: string
  url_username :: string
  url_password :: string
  url_hash :: string
  url_hostname :: string

record 'c dns_host =
  dnh_dns :: "'c \<Rightarrow> dns_config"
  dnh_hashes :: dns_hashes
  dnh_parseUrl :: "string \<Rightarrow> url_parts option"
  dnh_now :: int
  dnh_counters :: "dns_world \<Rightarrow> dns_counters"

definition isLoopbackHost :: "string \<Rightarrow> bool" where
  "isLoopbackHost h \<longleftrightarrow> h = ''localhost'' \<or> h = ''::1'' \<or> h = ''[::1]'' \<or> (isIPv4 h \<and> prefix ''127.'' h)"

fun check_endpoints :: "(string \<Rightarrow> url_parts option) \<Rightarrow> string list \<Rightarrow> unit result" where
  "check_endpoints parse [] = Inr ()"
| "check_endpoints parse (endpoint # es) =
     (case parse endpoint of
        None \<Rightarrow> Inl (ConfigError ''DNS candidate contains an invalid DoH endpoint URL'')
      | Some url \<Rightarrow>
          if url_protocol url \<noteq> ''https:'' \<and> url_protocol url \<noteq> ''http:''
          then Inl (ConfigError (''DNS candidate DoH endpoint uses unsupported scheme '' @ quoted (url_protocol url)))
          else if url_username url \<noteq> [] \<or> url_password url \<noteq> [] \<or> url_hash url \<noteq> []
          then Inl (ConfigError ''DNS candidate DoH endpoint must not contain credentials or a fragment'')
          else if url_protocol url = ''http:'' \<and> \<not> isLoopbackHost (url_hostname url)
          then Inl (ConfigError ''DNS candidate permits plaintext DoH only for loopback health fixtures'')
          else check_endpoints parse es)"

fun check_servers :: "string list \<Rightarrow> dns_server list \<Rightarrow> string list result" where
  "check_servers tags [] = Inr tags"
| "check_servers tags (s # ss) =
     (if ds_tag s \<in> set tags
      then Inl (ConfigError (''DNS candidate contains duplicate UDP server tag '' @ quoted (ds_tag s)))
      else if js_trim (ds_address s) = [] \<or> list_ex is_space (ds_address s)
      then Inl (ConfigError (''DNS candidate UDP server '' @ quoted (ds_tag s) @ '' has invalid address''))
      else check_servers (tags @ [ds_tag s]) ss)"

fun check_rules :: "string list \<Rightarrow> dns_rule list \<Rightarrow> unit result" where
  "check_rules tags [] = Inr ()"
| "check_rules tags (r # rs) =
     (if dru_serverTag r \<notin> set tags
      then Inl (ConfigError (''DNS candidate rule references missing UDP server '' @ quoted (dru_serverTag r)))
      else check_rules tags rs)"

definition validateDnsConfig :: "(string \<Rightarrow> url_parts option) \<Rightarrow> dns_config \<Rightarrow> unit result" where
  "validateDnsConfig parse c =
     (if doh_enabled (dc_doh c) \<and> doh_endpoints (dc_doh c) = []
      then Inl (ConfigError ''DNS candidate enables DoH without an endpoint'')
      else rbind (check_endpoints parse (doh_endpoints (dc_doh c))) (\<lambda>_.
           rbind (check_servers [] (dc_udpServers c)) (\<lambda>tags. check_rules tags (dc_rules c))))"

section \<open>The adapter\<close>

record dns_prepared =
  dpv_old :: nat
  dpv_candidate :: nat
  dpv_carryover :: carryover_plan
  dpv_committed :: bool

record dns_reload_world =
  drw_dns :: dns_world
  drw_prepared :: "dns_prepared list"

definition ds_recordRejectedFakeIpChange :: "dns_world \<Rightarrow> dns_world" where
  "ds_recordRejectedFakeIpChange w = w\<lparr>dw_rejected := dw_rejected w + 1\<rparr>"

definition dns_prepare ::
  "'c dns_host \<Rightarrow> 'c \<Rightarrow> op_context \<Rightarrow> dns_reload_world \<Rightarrow> prepared_component result \<times> dns_reload_world" where
  "dns_prepare host config ctx w =
     (let d = drw_dns w; dns = dnh_dns host config; oldGeneration = gen_at d (dw_active d) in
      if \<not> fakeIpConfigEqual (dc_fakeIp (dg_config oldGeneration)) (dc_fakeIp dns)
      then (Inl (ConfigError ''DNS-only transactional reload rejected unsupported high-risk fake-IP configuration change''),
            w\<lparr>drw_dns := ds_recordRejectedFakeIpChange d\<rparr>)
      else
        (case validateDnsConfig (dnh_parseUrl host) dns of
           Inl e \<Rightarrow> (Inl e, w)
         | Inr u \<Rightarrow>
             (case planDnsCacheCarryover (dnh_hashes host) oldGeneration dns (dnh_now host) False of
                Inl e \<Rightarrow> (Inl e, w)
              | Inr carryover \<Rightarrow>
                  (let g = applyDnsCacheCarryover carryover
                         (newDnsGeneration (dnh_hashes host) (oc_candidateGenerationId ctx @ ''-dns'')
                            (dg_sequence oldGeneration + 1) dns (Some (dnh_counters host d)) (dnh_now host))
                   in (Inr \<lparr>pc_component = CDns, pc_ref = length (drw_prepared w)\<rparr>,
                       w\<lparr>drw_dns := d\<lparr>dw_generations := dw_generations d @ [g]\<rparr>,
                         drw_prepared := drw_prepared w @ [\<lparr>dpv_old = dw_active d,
                           dpv_candidate = length (dw_generations d), dpv_carryover = carryover,
                           dpv_committed = False\<rparr>]\<rparr>)))))"

definition with_dns_prepared ::
  "prepared_component \<Rightarrow> (dns_prepared \<Rightarrow> dns_reload_world \<Rightarrow> unit result \<times> dns_reload_world) \<Rightarrow>
   dns_reload_world \<Rightarrow> unit result \<times> dns_reload_world" where
  "with_dns_prepared p f w =
     (if pc_ref p < length (drw_prepared w) then f (drw_prepared w ! pc_ref p) w else (Inl dangling, w))"

definition dns_set_committed :: "prepared_component \<Rightarrow> bool \<Rightarrow> dns_reload_world \<Rightarrow> dns_reload_world" where
  "dns_set_committed p b w =
     w\<lparr>drw_prepared := (drw_prepared w)[pc_ref p := (drw_prepared w ! pc_ref p)\<lparr>dpv_committed := b\<rparr>]\<rparr>"

fun health_rules :: "dns_config \<Rightarrow> dns_rule list \<Rightarrow> unit result" where
  "health_rules c [] = Inr ()"
| "health_rules c (r # rs) =
     (case find (\<lambda>s. ds_tag s = dru_serverTag r) (dc_udpServers c) of
        None \<Rightarrow> Inl (PlainError (''DNS candidate rule references missing server '' @ quoted (dru_serverTag r)))
      | Some s \<Rightarrow> health_rules c rs)"

definition dns_health :: "prepared_component \<Rightarrow> dns_reload_world \<Rightarrow> unit result \<times> dns_reload_world" where
  "dns_health p = with_dns_prepared p (\<lambda>v w.
     (let candidate = gen_at (drw_dns w) (dpv_candidate v) in
      (if length (dg_configHash candidate) \<noteq> 64 \<or> length (dg_upstreamHash candidate) \<noteq> 64
       then Inl (PlainError ''DNS candidate generation hash is invalid'')
       else health_rules (dg_config candidate) (dc_rules (dg_config candidate)), w)))"

definition dns_commit :: "prepared_component \<Rightarrow> dns_reload_world \<Rightarrow> unit result \<times> dns_reload_world" where
  "dns_commit p = with_dns_prepared p (\<lambda>v w.
     (Inr (), dns_set_committed p True (w\<lparr>drw_dns := ds_recordCarryover (cp_carried (dpv_carryover v))
        (cp_dropped (dpv_carryover v)) (ds_switchTo (dpv_candidate v) (drw_dns w))\<rparr>)))"

definition dns_rollback :: "prepared_component \<Rightarrow> dns_reload_world \<Rightarrow> unit result \<times> dns_reload_world" where
  "dns_rollback p = with_dns_prepared p (\<lambda>v w.
     (Inr (), dns_set_committed p False
        (if dpv_committed v then w\<lparr>drw_dns := ds_restore (dpv_old v) (dpv_candidate v) (drw_dns w)\<rparr> else w)))"

definition dns_cleanup :: "prepared_component \<Rightarrow> dns_reload_world \<Rightarrow> unit result \<times> dns_reload_world" where
  "dns_cleanup p = with_dns_prepared p (\<lambda>v w.
     (Inr (), w\<lparr>drw_dns := ds_releaseDrained
        (if dpv_committed v then drw_dns w else on_gen (dpv_candidate v) abortInFlight (drw_dns w))\<rparr>))"

definition dnsRuntimeAdapter :: "'c dns_host \<Rightarrow> ('c, dns_reload_world, prepared_component) reloadable" where
  "dnsRuntimeAdapter host =
     \<lparr>rc_name = CDns, rc_prepare = dns_prepare host, rc_health = (\<lambda>p ctx. dns_health p),
      rc_commit = (\<lambda>p ctx. dns_commit p), rc_rollback = (\<lambda>p ctx. dns_rollback p),
      rc_cleanup = (\<lambda>p ctx. dns_cleanup p)\<rparr>"

section \<open>It meets the contract\<close>

definition dns_adapter :: "('c, dns_reload_world, prepared_component) reloadable \<Rightarrow> bool" where
  "dns_adapter c \<longleftrightarrow> (\<exists>host. c = dnsRuntimeAdapter host)"

text \<open>
  What traffic sees: which generation is active and all of its content but the state of its flights.
\<close>

definition dns_view :: "dns_reload_world \<Rightarrow> nat \<times> dns_generation" where
  "dns_view w = (dw_active (drw_dns w), (gen_at (drw_dns w) (dw_active (drw_dns w)))\<lparr>dg_flights := []\<rparr>)"

definition dns_idle :: "dns_reload_world \<Rightarrow> bool" where
  "dns_idle w \<longleftrightarrow> dw_active (drw_dns w) < length (dw_generations (drw_dns w)) \<and>
     (\<forall>v \<in> set (drw_prepared w). \<not> dpv_committed v)"

definition dns_staged :: "dns_reload_world \<Rightarrow> dns_prepared \<Rightarrow> bool" where
  "dns_staged w v \<longleftrightarrow> dpv_old v = dw_active (drw_dns w) \<and> dpv_candidate v \<noteq> dw_active (drw_dns w) \<and>
     dpv_candidate v < length (dw_generations (drw_dns w))"

text \<open>The one committed value remembers the generation to go back to, which is otherwise untouched.\<close>

definition dns_switched :: "prepared_component \<times> (nat \<times> dns_generation) \<Rightarrow> dns_reload_world \<Rightarrow> bool" where
  "dns_switched x w \<longleftrightarrow>
     (\<forall>j < length (drw_prepared w). dpv_committed (drw_prepared w ! j) \<longleftrightarrow> j = pc_ref (fst x)) \<and>
     pc_ref (fst x) < length (drw_prepared w) \<and>
     (let v = drw_prepared w ! pc_ref (fst x); d = drw_dns w in
      dpv_old v < length (dw_generations d) \<and> dpv_old v \<noteq> dpv_candidate v \<and>
      snd x = (dpv_old v, (set_draining False (gen_at d (dpv_old v)))\<lparr>dg_flights := []\<rparr>))"

definition dns_undoing :: "(prepared_component \<times> (nat \<times> dns_generation)) list \<Rightarrow> dns_reload_world \<Rightarrow> bool" where
  "dns_undoing st w \<longleftrightarrow> (case st of [] \<Rightarrow> dns_idle w | x # xs \<Rightarrow> xs = [] \<and> dns_switched x w)"

definition dns_armed :: "(prepared_component \<times> (nat \<times> dns_generation)) list \<Rightarrow> dns_reload_world \<Rightarrow> bool" where
  "dns_armed st w \<longleftrightarrow> dns_undoing st w \<and> (\<forall>x \<in> set st. pc_component (fst x) = CDns) \<and>
     (st = [] \<longrightarrow> \<not> dg_draining (gen_at (drw_dns w) (dw_active (drw_dns w))) \<and> (\<forall>v \<in> set (drw_prepared w). dns_staged w v))"

lemma dns_armed_Nil:
  "dns_armed [] w \<longleftrightarrow> dns_idle w \<and> \<not> dg_draining (gen_at (drw_dns w) (dw_active (drw_dns w))) \<and>
     (\<forall>v \<in> set (drw_prepared w). dns_staged w v)"
  by (auto simp: dns_armed_def dns_undoing_def)

lemma dns_prepare_cases:
  assumes "dns_prepare host config ctx w = (r, w')"
  shows "(\<exists>e. r = Inl e \<and> (w' = w \<or> w' = w\<lparr>drw_dns := ds_recordRejectedFakeIpChange (drw_dns w)\<rparr>)) \<or>
     (\<exists>g carryover. validateDnsConfig (dnh_parseUrl host) (dnh_dns host config) = Inr () \<and>
        planDnsCacheCarryover (dnh_hashes host) (gen_at (drw_dns w) (dw_active (drw_dns w))) (dnh_dns host config)
          (dnh_now host) False = Inr carryover \<and>
        g = applyDnsCacheCarryover carryover (newDnsGeneration (dnh_hashes host) (oc_candidateGenerationId ctx @ ''-dns'')
              (dg_sequence (gen_at (drw_dns w) (dw_active (drw_dns w))) + 1) (dnh_dns host config)
              (Some (dnh_counters host (drw_dns w))) (dnh_now host)) \<and>
        r = Inr \<lparr>pc_component = CDns, pc_ref = length (drw_prepared w)\<rparr> \<and>
        w' = w\<lparr>drw_dns := (drw_dns w)\<lparr>dw_generations := dw_generations (drw_dns w) @ [g]\<rparr>,
              drw_prepared := drw_prepared w @ [\<lparr>dpv_old = dw_active (drw_dns w),
                dpv_candidate = length (dw_generations (drw_dns w)), dpv_carryover = carryover, dpv_committed = False\<rparr>]\<rparr>)"
  using assms by (auto simp: dns_prepare_def Let_def split: if_splits sum.splits)

lemma dns_prepare_law:
  assumes "dns_armed [] w" "dns_prepare host config ctx w = (r, w')"
  shows "dns_armed [] w' \<and> dns_view w' = dns_view w \<and> (\<forall>p. r = Inr p \<longrightarrow> pc_component p = CDns)"
proof -
  have rejected: "dns_armed [] (w\<lparr>drw_dns := ds_recordRejectedFakeIpChange (drw_dns w)\<rparr>)"
    "dns_view (w\<lparr>drw_dns := ds_recordRejectedFakeIpChange (drw_dns w)\<rparr>) = dns_view w"
    using assms(1) by (auto simp: dns_armed_Nil dns_idle_def dns_staged_def dns_view_def ds_recordRejectedFakeIpChange_def gen_at_def)
  have active: "dw_active (drw_dns w) < length (dw_generations (drw_dns w))" using assms(1) by (simp add: dns_armed_Nil dns_idle_def)
  from dns_prepare_cases [OF assms(2)] show ?thesis
  proof (elim disjE exE conjE)
    fix e assume "r = Inl e" "w' = w" then show ?thesis using assms(1) by simp
  next
    fix e assume "r = Inl e" "w' = w\<lparr>drw_dns := ds_recordRejectedFakeIpChange (drw_dns w)\<rparr>"
    then show ?thesis using rejected by simp
  next
    fix g carryover
    assume r: "r = Inr \<lparr>pc_component = CDns, pc_ref = length (drw_prepared w)\<rparr>"
      and w': "w' = w\<lparr>drw_dns := (drw_dns w)\<lparr>dw_generations := dw_generations (drw_dns w) @ [g]\<rparr>,
              drw_prepared := drw_prepared w @ [\<lparr>dpv_old = dw_active (drw_dns w),
                dpv_candidate = length (dw_generations (drw_dns w)), dpv_carryover = carryover, dpv_committed = False\<rparr>]\<rparr>"
    have "gen_at (drw_dns w') (dw_active (drw_dns w)) = gen_at (drw_dns w) (dw_active (drw_dns w))"
      using active by (simp add: w' gen_at_def nth_append)
    then show ?thesis
      using assms(1) active r by (auto simp: w' dns_armed_Nil dns_idle_def dns_staged_def dns_view_def)
  qed
qed

lemma dns_health_world: "dns_health p w = (r, w') \<Longrightarrow> w' = w"
  by (simp add: dns_health_def with_dns_prepared_def Let_def split: if_splits)

lemma gen_at_switch:
  assumes "k < length (dw_generations d)" "k \<noteq> dw_active d" "dw_active d < length (dw_generations d)"
  shows "gen_at (ds_switchTo k d) (dw_active d) = set_draining True (gen_at d (dw_active d))"
    "dw_active (ds_switchTo k d) = k" "length (dw_generations (ds_switchTo k d)) = length (dw_generations d)"
proof -
  have "gen_at (ds_switchTo k d) j = gen_at (on_gen k (set_draining False) (on_gen (dw_active d) (set_draining True) d)) j" for j
    by (simp add: ds_switchTo_def Let_def gen_at_def)
  then show "gen_at (ds_switchTo k d) (dw_active d) = set_draining True (gen_at d (dw_active d))"
    using assms by (simp add: gen_at_on_gen)
qed (simp_all add: ds_switchTo_def Let_def)

lemma gen_at_restore:
  assumes "old < length (dw_generations d)" "old \<noteq> k"
  shows "gen_at (ds_restore old k d) old = set_draining False (gen_at d old)" "dw_active (ds_restore old k d) = old"
    "length (dw_generations (ds_restore old k d)) = length (dw_generations d)"
proof -
  have "gen_at (ds_restore old k d) j = gen_at (on_gen old (set_draining False) (on_gen k (set_draining True) d)) j" for j
    by (simp add: ds_restore_def Let_def gen_at_def ds_releaseDrained_def)
  then show "gen_at (ds_restore old k d) old = set_draining False (gen_at d old)"
    using assms by (simp add: gen_at_on_gen)
qed (simp_all add: ds_restore_def Let_def ds_releaseDrained_def)

lemma ds_recordCarryover_gens [simp]:
  "gen_at (ds_recordCarryover a b d) k = gen_at d k" "dw_active (ds_recordCarryover a b d) = dw_active d"
  "length (dw_generations (ds_recordCarryover a b d)) = length (dw_generations d)"
  by (simp_all add: ds_recordCarryover_def gen_at_def)

lemma not_draining_same: "\<not> dg_draining g \<Longrightarrow> set_draining False (set_draining b g) = g"
  by (simp add: set_draining_def)

lemma dns_commit_law:
  assumes "pc_component p = CDns" "CDns \<notin> (pc_component \<circ> fst) ` set st" "dns_armed st w" "dns_commit p w = (r, w')"
  shows "case r of Inr u \<Rightarrow> dns_armed ((p, dns_view w) # st) w' | Inl e \<Rightarrow> dns_armed st w' \<and> dns_view w' = dns_view w"
proof -
  have st: "st = []" using assms(2,3) by (cases st) (auto simp: dns_armed_def)
  show ?thesis
  proof (cases "pc_ref p < length (drw_prepared w)")
    case False
    with assms(3,4) show ?thesis by (auto simp: dns_commit_def with_dns_prepared_def)
  next
    case True
    let ?v = "drw_prepared w ! pc_ref p" and ?d = "drw_dns w"
    let ?d' = "ds_recordCarryover (cp_carried (dpv_carryover ?v)) (cp_dropped (dpv_carryover ?v)) (ds_switchTo (dpv_candidate ?v) ?d)"
    from assms(3) st True have v: "dpv_old ?v = dw_active ?d" "dpv_candidate ?v \<noteq> dw_active ?d"
      "dpv_candidate ?v < length (dw_generations ?d)" "dw_active ?d < length (dw_generations ?d)"
      "\<not> dg_draining (gen_at ?d (dw_active ?d))" "\<forall>j < length (drw_prepared w). \<not> dpv_committed (drw_prepared w ! j)"
      by (auto simp: dns_armed_Nil dns_idle_def dns_staged_def)
    from assms(4) True have r: "r = Inr ()" and w': "w' = dns_set_committed p True (w\<lparr>drw_dns := ?d'\<rparr>)"
      by (auto simp: dns_commit_def with_dns_prepared_def)
    have prep: "drw_prepared w' = (drw_prepared w)[pc_ref p := ?v\<lparr>dpv_committed := True\<rparr>]" and dns: "drw_dns w' = ?d'"
      by (simp_all add: w' dns_set_committed_def)
    note sw = gen_at_switch [OF v(3,2,4)]
    have "dns_switched (p, dns_view w) w'"
      using True v sw by (auto simp: dns_switched_def prep dns dns_view_def not_draining_same nth_list_update Let_def)
    then show ?thesis using st r assms(1) by (simp add: dns_armed_def dns_undoing_def)
  qed
qed

lemma dns_rollback_law:
  assumes "dns_undoing ((p, v) # st) w" "dns_rollback p w = (Inr (), w')"
  shows "dns_undoing st w' \<and> dns_view w' = v"
proof -
  let ?q = "drw_prepared w ! pc_ref p" and ?d = "drw_dns w"
  from assms(1) have st: "st = []" and sw: "dns_switched (p, v) w" by (simp_all add: dns_undoing_def)
  then have ref: "pc_ref p < length (drw_prepared w)" and q: "dpv_committed ?q" "dpv_old ?q < length (dw_generations ?d)"
    "dpv_old ?q \<noteq> dpv_candidate ?q" "v = (dpv_old ?q, (set_draining False (gen_at ?d (dpv_old ?q)))\<lparr>dg_flights := []\<rparr>)"
    and others: "\<forall>j < length (drw_prepared w). dpv_committed (drw_prepared w ! j) \<longleftrightarrow> j = pc_ref p"
    by (auto simp: dns_switched_def Let_def)
  from assms(2) ref q(1) have w': "w' = dns_set_committed p False (w\<lparr>drw_dns := ds_restore (dpv_old ?q) (dpv_candidate ?q) ?d\<rparr>)"
    by (simp add: dns_rollback_def with_dns_prepared_def)
  have prep: "drw_prepared w' = (drw_prepared w)[pc_ref p := ?q\<lparr>dpv_committed := False\<rparr>]"
    and dns: "drw_dns w' = ds_restore (dpv_old ?q) (dpv_candidate ?q) ?d"
    by (simp_all add: w' dns_set_committed_def)
  note re = gen_at_restore [OF q(2,3)]
  have "\<not> dpv_committed (drw_prepared w' ! j)" if "j < length (drw_prepared w')" for j
    using others ref that by (cases "j = pc_ref p") (simp_all add: prep)
  then have "\<forall>x \<in> set (drw_prepared w'). \<not> dpv_committed x" by (auto simp: in_set_conv_nth)
  then show ?thesis using st q re by (simp add: dns_undoing_def dns_idle_def dns dns_view_def)
qed

lemma dns_rollback_idle:
  assumes "dns_undoing [] w" "dns_rollback p w = (Inr (), w')"
  shows "dns_undoing [] w' \<and> dns_view w' = dns_view w"
proof -
  from assms(2) have ref: "pc_ref p < length (drw_prepared w)"
    by (auto simp: dns_rollback_def with_dns_prepared_def split: if_splits)
  with assms have "\<not> dpv_committed (drw_prepared w ! pc_ref p)" by (simp add: dns_undoing_def dns_idle_def)
  with assms(2) ref have w': "w' = dns_set_committed p False w" by (simp add: dns_rollback_def with_dns_prepared_def)
  then show ?thesis
    using assms(1) by (auto simp: dns_undoing_def dns_idle_def dns_view_def dns_set_committed_def
        dest!: set_update_subset_insert [THEN subsetD])
qed

lemma dns_cleanup_law: "dns_view (snd (dns_cleanup p w)) = dns_view w"
proof -
  have "dns_view (w\<lparr>drw_dns := on_gen k abortInFlight (drw_dns w)\<rparr>) = dns_view w" for k
    by (auto simp: dns_view_def gen_at_on_gen abortInFlight_def)
  moreover have "dns_view (w\<lparr>drw_dns := ds_releaseDrained d\<rparr>) = dns_view (w\<lparr>drw_dns := d\<rparr>)" for d
    by (simp add: dns_view_def ds_releaseDrained_def gen_at_def)
  ultimately show ?thesis by (simp add: dns_cleanup_def with_dns_prepared_def)
qed

interpretation dns_reload: reload_contract dns_adapter tid dns_view pc_component dns_armed dns_undoing for tid
proof (unfold_locales, goal_cases)
  case (1 st w)
  then show ?case by (simp add: dns_armed_def)
next
  case (2 c ctx w cfg r w')
  then obtain host where "c = dnsRuntimeAdapter host" by (auto simp: dns_adapter_def)
  with 2 dns_prepare_law [of w host cfg ctx r w'] show ?case by (simp add: dnsRuntimeAdapter_def)
next
  case (3 c p st w ctx r1 w')
  then show ?case by (auto simp: dns_adapter_def dnsRuntimeAdapter_def dest: dns_health_world)
next
  case (4 c p st w ctx r1 w')
  then show ?case using dns_commit_law by (auto simp: dns_adapter_def dnsRuntimeAdapter_def)
next
  case (5 c p v st w ctx w')
  then show ?case using dns_rollback_law [of p v st w w'] by (auto simp: dns_adapter_def dnsRuntimeAdapter_def)
next
  case (6 c p w ctx w')
  then show ?case using dns_rollback_idle [of w p w'] by (auto simp: dns_adapter_def dnsRuntimeAdapter_def)
next
  case (7 c p ctx w)
  then show ?case using dns_cleanup_law by (auto simp: dns_adapter_def dnsRuntimeAdapter_def)
qed

section \<open>Validation\<close>

lemma check_endpoints_visible: "check_endpoints parse es = Inl e \<Longrightarrow> visible e"
  by (induction es) (auto simp: visible_def is_space_def char_code_def split: if_splits option.splits)

lemma check_servers_visible: "check_servers tags ss = Inl e \<Longrightarrow> visible e"
  by (induction ss arbitrary: tags) (auto simp: visible_def is_space_def char_code_def split: if_splits)

lemma check_rules_visible: "check_rules tags rs = Inl e \<Longrightarrow> visible e"
  by (induction rs) (auto simp: visible_def is_space_def char_code_def split: if_splits)

lemma validateDnsConfig_visible: "validateDnsConfig parse c = Inl e \<Longrightarrow> visible e"
  by (auto simp: validateDnsConfig_def rbind_def visible_def is_space_def char_code_def split: if_splits sum.splits
      dest!: check_endpoints_visible check_servers_visible check_rules_visible)

lemma planDnsCacheCarryover_visible: "planDnsCacheCarryover hs g c now b = Inl e \<Longrightarrow> visible e"
  by (auto simp: planDnsCacheCarryover_def Let_def visible_def is_space_def char_code_def split: if_splits)

lemma health_rules_visible: "health_rules c rs = Inl e \<Longrightarrow> visible e"
  by (induction rs) (auto simp: visible_def is_space_def char_code_def split: option.splits)

lemma with_dns_prepared_visible:
  assumes "with_dns_prepared p f w = (Inl e, w')" "\<And>v w e w'. f v w = (Inl e, w') \<Longrightarrow> visible e"
  shows "visible e"
  using assms dangling_visible by (auto simp: with_dns_prepared_def split: if_splits)

lemma dns_prepare_visible: "dns_prepare host cfg ctx w = (Inl e, w') \<Longrightarrow> visible e"
  by (auto simp: dns_prepare_def Let_def split: if_splits sum.splits
      intro: validateDnsConfig_visible planDnsCacheCarryover_visible)
    (auto simp: visible_def is_space_def char_code_def)

lemma dns_health_visible: "dns_health p w = (Inl e, w') \<Longrightarrow> visible e"
  unfolding dns_health_def by (erule with_dns_prepared_visible)
    (auto simp: Let_def split: if_splits intro: health_rules_visible, auto simp: visible_def is_space_def char_code_def)

lemma dns_commit_visible: "dns_commit p w = (Inl e, w') \<Longrightarrow> visible e"
  unfolding dns_commit_def by (erule with_dns_prepared_visible) auto

lemma dns_adapter_speaks: "dns_adapter c \<Longrightarrow> speaks c"
  using dns_prepare_visible dns_health_visible dns_commit_visible
  by (auto simp: dns_adapter_def dnsRuntimeAdapter_def speaks_def never_blank_def intro!: visible_not_blank)

lemma check_servers_Inr:
  "check_servers tags ss = Inr ts \<Longrightarrow> distinct tags \<Longrightarrow>
     ts = tags @ map ds_tag ss \<and> distinct ts \<and> (\<forall>s \<in> set ss. js_trim (ds_address s) \<noteq> [] \<and> \<not> list_ex is_space (ds_address s))"
  by (induction ss arbitrary: tags) (fastforce split: if_splits)+

lemma check_rules_Inr: "check_rules tags rs = Inr u \<longleftrightarrow> (\<forall>r \<in> set rs. dru_serverTag r \<in> set tags)"
  by (induction rs) auto

lemma health_rules_Inr: "health_rules c rs = Inr u \<longleftrightarrow> (\<forall>r \<in> set rs. dru_serverTag r \<in> ds_tag ` set (dc_udpServers c))"
proof (induction rs)
  case (Cons r rs)
  have "find (\<lambda>s. ds_tag s = dru_serverTag r) (dc_udpServers c) = None \<longleftrightarrow> dru_serverTag r \<notin> ds_tag ` set (dc_udpServers c)"
    by (simp add: find_None_iff image_iff) metis
  with Cons show ?case by (auto split: option.splits)
qed simp

lemma validateDnsConfig_Inr:
  assumes "validateDnsConfig parse c = Inr u"
  shows "(doh_enabled (dc_doh c) \<longrightarrow> doh_endpoints (dc_doh c) \<noteq> []) \<and> distinct (map ds_tag (dc_udpServers c)) \<and>
     (\<forall>r \<in> set (dc_rules c). dru_serverTag r \<in> ds_tag ` set (dc_udpServers c))"
  using assms by (auto simp: validateDnsConfig_def rbind_Inr_iff check_rules_Inr split: if_splits dest!: check_servers_Inr)

section \<open>Properties\<close>

text \<open>
  Property C28. A reload of DNS is atomic: when a transaction over the DNS adapter does not commit,
  no rollback reported an error and no operation took effect after losing its race, the generation
  that answers traffic is the one from before the reload, with its configuration, its caches, its
  counters and its open queries as they were, also after it had been switched away from.
\<close>

theorem dns_reload_atomic:
  assumes "initialExec env opts evs m w = Inr s0" "execute env opts s0 = (Inr False, s')"
    and "eo_components opts = [dnsRuntimeAdapter host]"
    and "eo_parse opts = None" "eo_validate opts = None" "no_late_effects env"
    and "drw_prepared w = []" "dw_active (drw_dns w) < length (dw_generations (drw_dns w))"
    and "\<not> dg_draining (gen_at (drw_dns w) (dw_active (drw_dns w)))"
    and "\<forall>x \<in> set (componentErrors s'). ce_stage x \<noteq> FRollback"
  shows "dw_active (drw_dns (world s')) = dw_active (drw_dns w) \<and>
     (gen_at (drw_dns (world s')) (dw_active (drw_dns w)))\<lparr>dg_flights := []\<rparr> =
       (gen_at (drw_dns w) (dw_active (drw_dns w)))\<lparr>dg_flights := []\<rparr>"
proof -
  let ?tid = "eo_transactionId opts"
  have c: "dns_adapter (dnsRuntimeAdapter host)" by (auto simp: dns_adapter_def)
  have "dns_reload.usable ?tid env opts"
    using assms c by (simp add: dns_reload.usable_def inert_def)
  moreover have "dns_armed [] w"
    using assms by (simp add: dns_armed_Nil dns_idle_def)
  moreover have "dns_reload.no_rollback_errors s'"
    using assms by (simp add: dns_reload.no_rollback_errors_def)
  moreover have "speaking opts"
    using assms c by (simp add: speaking_def dns_adapter_speaks)
  ultimately have "dns_view (world s') = dns_view w"
    using dns_reload.failure_leaves_no_trace [OF assms(1) _ _ assms(2)] by simp
  then show ?thesis by (auto simp: dns_view_def)
qed

text \<open>
  What prepares is healthy: a DNS candidate that prepare accepted has distinct server
  tags, rules that name a server, an endpoint when DoH is on, and passes the health check, provided
  the hashes are SHA-256 digests in hexadecimal; traffic still sees the old generation.
\<close>

lemma dns_prepare_healthy:
  assumes "dns_prepare host config ctx w = (Inr p, w')"
    and "\<forall>c. length (dh_config (dnh_hashes host) c) = 64" "\<forall>r. length (dh_resolver (dnh_hashes host) r) = 64"
  shows "dns_health p w' = (Inr (), w') \<and> dw_active (drw_dns w') = dw_active (drw_dns w) \<and>
     distinct (map ds_tag (dc_udpServers (dnh_dns host config))) \<and>
     (\<forall>r \<in> set (dc_rules (dnh_dns host config)). dru_serverTag r \<in> ds_tag ` set (dc_udpServers (dnh_dns host config))) \<and>
     (doh_enabled (dc_doh (dnh_dns host config)) \<longrightarrow> doh_endpoints (dc_doh (dnh_dns host config)) \<noteq> [])"
proof -
  let ?c = "dnh_dns host config"
  from dns_prepare_cases [OF assms(1)] obtain g carryover where valid: "validateDnsConfig (dnh_parseUrl host) ?c = Inr ()"
    and g: "g = applyDnsCacheCarryover carryover (newDnsGeneration (dnh_hashes host) (oc_candidateGenerationId ctx @ ''-dns'')
              (dg_sequence (gen_at (drw_dns w) (dw_active (drw_dns w))) + 1) ?c
              (Some (dnh_counters host (drw_dns w))) (dnh_now host))"
    and p: "p = \<lparr>pc_component = CDns, pc_ref = length (drw_prepared w)\<rparr>"
    and w': "w' = w\<lparr>drw_dns := (drw_dns w)\<lparr>dw_generations := dw_generations (drw_dns w) @ [g]\<rparr>,
              drw_prepared := drw_prepared w @ [\<lparr>dpv_old = dw_active (drw_dns w),
                dpv_candidate = length (dw_generations (drw_dns w)), dpv_carryover = carryover, dpv_committed = False\<rparr>]\<rparr>"
    by auto
  have cand: "gen_at (drw_dns w') (length (dw_generations (drw_dns w))) = g" by (simp add: w' gen_at_def)
  have "dg_config g = ?c" "length (dg_configHash g) = 64" "length (dg_upstreamHash g) = 64"
    using assms(2,3) by (simp_all add: g carryover_keeps newDnsGeneration_def)
  then have "dns_health p w' = (health_rules ?c (dc_rules ?c), w')"
    using cand by (simp add: dns_health_def with_dns_prepared_def Let_def p w')
  moreover have "health_rules ?c (dc_rules ?c) = Inr ()"
    using validateDnsConfig_Inr [OF valid] by (simp add: health_rules_Inr)
  ultimately show ?thesis using validateDnsConfig_Inr [OF valid] by (simp add: w')
qed

end
