(* ===== verification/ReloadWitness.thy ===== *)
theory ReloadWitness
  imports ReloadRuns DnsAdapter
begin

text \<open>
  Concrete reloads on which the properties of the executor apply: a reload of two components that
  commits, one whose second commit rejects with an empty message, and a reload of the routing
  adapters that fails after the new router generation has been published.
\<close>

section \<open>Components that add a number to the world\<close>

definition adder :: "reload_component_name \<Rightarrow> int \<Rightarrow> js_error option \<Rightarrow> (unit, int, unit) reloadable" where
  "adder name n failure =
     \<lparr>rc_name = name, rc_prepare = (\<lambda>cfg ctx w. (Inr (), w)), rc_health = (\<lambda>p ctx w. (Inr (), w)),
      rc_commit = (\<lambda>p ctx w. case failure of Some e \<Rightarrow> (Inl e, w) | None \<Rightarrow> (Inr (), w + n)),
      rc_rollback = (\<lambda>p ctx w. (Inr (), w - n)), rc_cleanup = (\<lambda>p ctx w. (Inr (), w))\<rparr>"

definition goodOptions :: "(unit, int, unit) exec_options" where
  "goodOptions = testOptions [adder CDns 1 None] ()"

theorem execute_settles_witness:
  "\<exists>s'. execute sampleEnv goodOptions (testStart goodOptions 0) = (Inr True, s') \<and> tx_state (txn s') = TCommitted
     \<and> committedEntries s' = preparedEntries s' \<and> world s' = 1"
proof -
  have sp: "speaking goodOptions"
    by (simp add: speaking_def goodOptions_def testOptions_def speaks_def never_blank_def adder_def)
  obtain r s' where run: "execute sampleEnv goodOptions (testStart goodOptions 0) = (r, s')" by fastforce
  have "\<exists>s'. execute sampleEnv goodOptions (testStart goodOptions 0) = (Inr True, s') \<and> world s' = 1"
    by (simp add: exec_eval start_eval goodOptions_def adder_def)
  with run execute_settles [OF testStart_ok [of "[adder CDns 1 None]" "()" 0, folded goodOptions_def] sp run]
  show ?thesis by auto
qed

definition blankOptions :: "(unit, int, unit) exec_options" where
  "blankOptions = testOptions [adder CDns 1 None, adder CRouter 2 (Some (PlainError ''''))] ()"

theorem execute_blank_message_skips_rollback_witness:
  "\<exists>s'. execute sampleEnv blankOptions (testStart blankOptions 0) =
       (Inl (PlainError ''reload failure reason must not be empty''), s')
     \<and> map (rc_name \<circ> fst) (committedEntries s') = [CDns] \<and> \<not> isTerminal (tx_state (txn s'))"
proof -
  let ?s1 = "event sampleEnv blankOptions TransactionStarted None None None None
        ((testStart blankOptions 0)\<lparr>metrics := transactionStarted (metrics (testStart blankOptions 0))\<rparr>)"
  obtain r s where run: "tryBlock sampleEnv blankOptions ?s1 = (r, s)" by (meson surj_pair)
  have "fst (tryBlock sampleEnv blankOptions ?s1) = Inl (PlainError '''')
      \<and> map (rc_name \<circ> fst) (committedEntries (snd (tryBlock sampleEnv blankOptions ?s1))) = [CDns]"
    by (simp add: exec_eval start_eval blankOptions_def adder_def)
  with run have s: "tryBlock sampleEnv blankOptions ?s1 = (Inl (PlainError ''''), s)"
    "map (rc_name \<circ> fst) (committedEntries s) = [CDns]" by simp_all
  have "blank (PlainError '''')" by (simp add: blank_def js_trim_def)
  from execute_blank_message_skips_rollback [OF
      testStart_ok [of "[adder CDns 1 None, adder CRouter 2 (Some (PlainError ''''))]" "()" 0, folded blankOptions_def]
      this s(1)] s(2)
  show ?thesis by (metis prod.collapse)
qed

section \<open>A reload of routing that fails after publishing\<close>

text \<open>
  Both adapters expect the router alone, so committing the router publishes the candidate and
  committing the policy is refused; the rollback of the router restores the old generation.
\<close>

definition failingReload :: "(router_config, routing_world, prepared_component) exec_options" where
  "failingReload = testOptions [routerRuntimeAdapter sampleHost [RcRouter], policyRuntimeAdapter sampleHost [RcRouter]]
     sampleRoute"

lemma failingReload_run:
  "\<exists>s'. execute sampleEnv failingReload (testStart failingReload sampleWorld) = (Inr False, s')
     \<and> (\<forall>x \<in> set (componentErrors s'). ce_stage x \<noteq> FRollback)"
  by (simp add: exec_eval start_eval routing_eval failingReload_def sampleWorld_def)

theorem routing_reload_atomic_witness:
  "\<exists>s'. execute sampleEnv failingReload (testStart failingReload sampleWorld) = (Inr False, s')
     \<and> rr_active (rw_runtime (world s')) = rr_active (rw_runtime sampleWorld)"
proof -
  from failingReload_run obtain s' where
    run: "execute sampleEnv failingReload (testStart failingReload sampleWorld) = (Inr False, s')"
    and ok: "\<forall>x \<in> set (componentErrors s'). ce_stage x \<noteq> FRollback" by (elim exE conjE)
  have adapters: "\<forall>c \<in> set (eo_components failingReload). routing_adapter c"
    by (auto simp: failingReload_def testOptions_def routing_adapter_def)
  have names: "distinct (map rc_name (eo_components failingReload))"
    by (simp add: failingReload_def testOptions_def routerRuntimeAdapter_def policyRuntimeAdapter_def)
  have empty: "rr_transactions (rw_runtime sampleWorld) = []" "rw_prepared sampleWorld = []"
    by (simp_all add: sampleWorld_def routing_eval)
  have "no_late_effects sampleEnv" by (simp add: no_late_effects_def sampleEnv_def)
  moreover have "initialExec sampleEnv failingReload [] (newReloadMetrics ''g0'') sampleWorld =
      Inr (testStart failingReload sampleWorld)" by (simp add: failingReload_def testStart_ok)
  ultimately have "eo_parse failingReload = None \<Longrightarrow> eo_validate failingReload = None \<Longrightarrow> ?thesis"
    using routing_reload_atomic [OF _ run adapters names _ _ _ empty ok] run by blast
  then show ?thesis by (simp add: failingReload_def testOptions_def)
qed

text \<open>A DNS reload whose candidate carries an ill-formed hash, so that its health check fails.\<close>

definition dnsHost :: "dns_hashes \<Rightarrow> dns_config dns_host" where
  "dnsHost hs = \<lparr>dnh_dns = (\<lambda>c. c), dnh_hashes = hs, dnh_parseUrl = (\<lambda>u. None), dnh_now = 0,
     dnh_counters = (\<lambda>w. \<lparr>dct_queries = dw_queries w, dct_failures = dw_failures w\<rparr>)\<rparr>"

definition shortHashes :: dns_hashes where
  "shortHashes = \<lparr>dh_config = (\<lambda>c. ''c''), dh_resolver = (\<lambda>r. ''r'')\<rparr>"

definition dnsReload :: "(dns_config, dns_reload_world, prepared_component) exec_options" where
  "dnsReload = testOptions [dnsRuntimeAdapter (dnsHost shortHashes)] sampleDns"

definition dnsStart :: dns_reload_world where
  "dnsStart = \<lparr>drw_dns = newDnsWorld (newDnsGeneration shortHashes ''g'' 0 sampleDns None 0), drw_prepared = []\<rparr>"

definition dnsCandidate :: dns_generation where
  "dnsCandidate = newDnsGeneration shortHashes ''g1-dns'' 1 sampleDns (Some \<lparr>dct_queries = 0, dct_failures = 0\<rparr>) 0"

definition dnsStaged :: dns_reload_world where
  "dnsStaged = dnsStart\<lparr>
     drw_dns := (drw_dns dnsStart)\<lparr>dw_generations := dw_generations (drw_dns dnsStart) @ [dnsCandidate]\<rparr>,
     drw_prepared := [\<lparr>dpv_old = 0, dpv_candidate = 1, dpv_carryover = \<lparr>cp_allowed = True, cp_reason = ''compatible-resolver'',
       cp_positive = [], cp_negative = [], cp_carried = 0, cp_dropped = 0\<rparr>, dpv_committed = False\<rparr>]\<rparr>"

lemmas dns_eval = dnsHost_def shortHashes_def dnsStart_def dnsStaged_def dnsCandidate_def with_dns_prepared_def
  newDnsWorld_def newDnsGeneration_def gen_at_def sampleDns_def

lemma dns_steps:
  "oc_candidateGenerationId ctx = ''g1'' \<Longrightarrow>
     dns_prepare (dnsHost shortHashes) sampleDns ctx dnsStart = (Inr \<lparr>pc_component = CDns, pc_ref = 0\<rparr>, dnsStaged)"
  "dns_health \<lparr>pc_component = CDns, pc_ref = 0\<rparr> dnsStaged =
     (Inl (PlainError ''DNS candidate generation hash is invalid''), dnsStaged)"
  "dns_rollback \<lparr>pc_component = CDns, pc_ref = 0\<rparr> dnsStaged = (Inr (), dnsStaged)"
  "dns_cleanup \<lparr>pc_component = CDns, pc_ref = 0\<rparr> dnsStaged = (Inr (), dnsStaged)"
  by (simp_all add: dns_eval dns_prepare_def dns_health_def dns_rollback_def dns_cleanup_def dns_set_committed_def
      fakeIpConfigEqual_def validateDnsConfig_def planDnsCacheCarryover_def applyDnsCacheCarryover_def jm_vals_def
      on_gen_def abortInFlight_def ds_releaseDrained_def isReleasable_def Let_def)

lemma dnsReload_run:
  "\<exists>s'. execute sampleEnv dnsReload (testStart dnsReload dnsStart) = (Inr False, s')
     \<and> (\<forall>x \<in> set (componentErrors s'). ce_stage x \<noteq> FRollback)"
  by (simp add: exec_eval start_eval dnsReload_def dnsRuntimeAdapter_def dns_steps)

theorem dns_reload_atomic_witness:
  "\<exists>s'. execute sampleEnv dnsReload (testStart dnsReload dnsStart) = (Inr False, s')
     \<and> dw_active (drw_dns (world s')) = dw_active (drw_dns dnsStart)"
proof -
  from dnsReload_run obtain s' where
    run: "execute sampleEnv dnsReload (testStart dnsReload dnsStart) = (Inr False, s')"
    and ok: "\<forall>x \<in> set (componentErrors s'). ce_stage x \<noteq> FRollback" by (elim exE conjE)
  have start: "initialExec sampleEnv dnsReload [] (newReloadMetrics ''g0'') dnsStart = Inr (testStart dnsReload dnsStart)"
    by (simp add: dnsReload_def testStart_ok)
  have late: "no_late_effects sampleEnv" by (simp add: no_late_effects_def sampleEnv_def)
  have comps: "eo_components dnsReload = [dnsRuntimeAdapter (dnsHost shortHashes)]" "eo_parse dnsReload = None"
    "eo_validate dnsReload = None" by (simp_all add: dnsReload_def testOptions_def)
  have world: "drw_prepared dnsStart = []" "dw_active (drw_dns dnsStart) < length (dw_generations (drw_dns dnsStart))"
    "\<not> dg_draining (gen_at (drw_dns dnsStart) (dw_active (drw_dns dnsStart)))"
    by (simp_all add: dnsStart_def newDnsWorld_def gen_at_def newDnsGeneration_def)
  from dns_reload_atomic [OF start run comps late world ok] run show ?thesis by blast
qed

end
