(* ===== verification/FakeIp.thy ===== *)
theory FakeIp
  imports Matcher JsMap
begin

text \<open>
  Fake IP addresses: \<^verbatim>\<open>src/dns/fakeIpPool.ts\<close>, \<^verbatim>\<open>fakeIpStore.ts\<close> and \<^verbatim>\<open>fakeIp.ts\<close>. A pool is
  a range of IPv4 addresses (32-bit words, since the source computes with \<open>>>> 0\<close>) with a cursor;
  the store maps domains to addresses and back, oldest use first; the service combines them. The
  clock is an argument: one call of the service sees one time. The file behind \<^verbatim>\<open>persistPath\<close> is
  the list of records last written.
\<close>

section \<open>The pool\<close>

definition octet :: "jsnum \<Rightarrow> nat option" where
  "octet n = (case n of JInt i \<Rightarrow> if 0 \<le> i \<and> i \<le> 255 then Some (nat i) else None | JNonInt \<Rightarrow> None)"

definition ipv4ToNumber :: "string \<Rightarrow> 32 word result" where
  "ipv4ToNumber address =
     (case map (\<lambda>p. octet (js_Number p)) (split_on (CHR ''.'') address) of
        [Some a, Some b, Some c, Some d] \<Rightarrow>
          Inr (or (or (push_bit 24 (of_nat a)) (push_bit 16 (of_nat b))) (or (push_bit 8 (of_nat c)) (of_nat d)))
      | _ \<Rightarrow> Inl (ConfigError (''invalid IPv4 address '' @ quoted address)))"

definition numberToIpv4 :: "32 word \<Rightarrow> string" where
  "numberToIpv4 v =
     dotted (unat (drop_bit 24 v)) (unat (and (drop_bit 16 v) 255)) (unat (and (drop_bit 8 v) 255)) (unat (and v 255))"

record fake_ip_pool =
  fp_first :: "32 word"
  fp_capacity :: nat
  fp_cursor :: nat

definition newFakeIpPool :: "string \<Rightarrow> int \<Rightarrow> fake_ip_pool result" where
  "newFakeIpPool cidr requestedSize =
     (case split_on (CHR ''/'') cidr of
        address # prefixRaw # rest \<Rightarrow>
          (case js_Number prefixRaw of
             JInt pfx \<Rightarrow>
               if pfx < 1 \<or> pfx > 30
               then Inl (ConfigError (''fake-ip range must be an IPv4 CIDR with prefix 1..30: '' @ quoted cidr))
               else rbind (ipv4ToNumber address) (\<lambda>base.
                 let host_bits = 32 - nat pfx;
                     network = and base (push_bit host_bits (- 1));
                     available = 2 ^ host_bits - 2;
                     capacity = min requestedSize available
                 in if capacity < 1
                    then Inl (ConfigError (''fake-ip range has no usable addresses: '' @ quoted cidr))
                    else Inr \<lparr>fp_first = network + 1, fp_capacity = nat capacity, fp_cursor = 0\<rparr>)
           | JNonInt \<Rightarrow>
               Inl (ConfigError (''fake-ip range must be an IPv4 CIDR with prefix 1..30: '' @ quoted cidr)))
      | _ \<Rightarrow> Inl (ConfigError (''fake-ip range must be an IPv4 CIDR with prefix 1..30: '' @ quoted cidr)))"

definition pool_address :: "fake_ip_pool \<Rightarrow> nat \<Rightarrow> string" where
  "pool_address p i = numberToIpv4 (fp_first p + of_nat i)"

definition pool_contains :: "string \<Rightarrow> fake_ip_pool \<Rightarrow> bool result" where
  "pool_contains address p =
     rbind (ipv4ToNumber address) (\<lambda>v.
       Inr (unat (fp_first p) \<le> unat v \<and> unat v < unat (fp_first p) + fp_capacity p))"

section \<open>The store\<close>

record fake_ip_record =
  fr_domain :: string
  fr_address :: string
  fr_expiresAt :: int

record fake_ip_store =
  fs_byDomain :: "(string, fake_ip_record) jsmap"
  fs_byAddress :: "(string, fake_ip_record) jsmap"
  fs_maxSize :: nat
  fs_persists :: bool
  fs_file :: "fake_ip_record list option"

definition fs_delete :: "fake_ip_record \<Rightarrow> fake_ip_store \<Rightarrow> fake_ip_store" where
  "fs_delete r s =
     s\<lparr>fs_byDomain := jm_del (fr_domain r) (fs_byDomain s), fs_byAddress := jm_del (fr_address r) (fs_byAddress s)\<rparr>"

definition fs_touch :: "fake_ip_record \<Rightarrow> fake_ip_store \<Rightarrow> fake_ip_store" where
  "fs_touch r s = s\<lparr>fs_byDomain := jm_set (fr_domain r) r (jm_del (fr_domain r) (fs_byDomain s))\<rparr>"

definition fs_read :: "int \<Rightarrow> fake_ip_record option \<Rightarrow> fake_ip_store \<Rightarrow> fake_ip_record option \<times> fake_ip_store" where
  "fs_read now ro s =
     (case ro of
        None \<Rightarrow> (None, s)
      | Some r \<Rightarrow> if fr_expiresAt r \<le> now then (None, fs_delete r s) else (Some r, s))"

definition fs_get :: "int \<Rightarrow> fake_ip_record option \<Rightarrow> fake_ip_store \<Rightarrow> fake_ip_record option \<times> fake_ip_store" where
  "fs_get now ro s =
     (case fs_read now ro s of
        (None, s1) \<Rightarrow> (None, s1)
      | (Some r, s1) \<Rightarrow> (Some r, fs_touch r s1))"

definition getByDomain :: "int \<Rightarrow> string \<Rightarrow> fake_ip_store \<Rightarrow> fake_ip_record option \<times> fake_ip_store" where
  "getByDomain now domain s = fs_get now (jm_get (fs_byDomain s) domain) s"

definition getByAddress :: "int \<Rightarrow> string \<Rightarrow> fake_ip_store \<Rightarrow> fake_ip_record option \<times> fake_ip_store" where
  "getByAddress now address s = fs_get now (jm_get (fs_byAddress s) address) s"

definition hasAddress :: "int \<Rightarrow> string \<Rightarrow> fake_ip_store \<Rightarrow> bool \<times> fake_ip_store" where
  "hasAddress now address s = (let (r, s1) = getByAddress now address s in (r \<noteq> None, s1))"

definition evictOldest :: "fake_ip_store \<Rightarrow> fake_ip_record option \<times> fake_ip_store" where
  "evictOldest s =
     (case jm_vals (fs_byDomain s) of
        [] \<Rightarrow> (None, s)
      | r # rs \<Rightarrow> (Some r, fs_delete r s))"

text \<open>The eviction loop of \<^verbatim>\<open>set\<close>; every round removes one record, so the size is enough fuel.\<close>

fun fs_trim :: "nat \<Rightarrow> fake_ip_store \<Rightarrow> fake_ip_store" where
  "fs_trim 0 s = s"
| "fs_trim (Suc n) s =
     (if length (fs_byDomain s) > fs_maxSize s then fs_trim n (snd (evictOldest s)) else s)"

definition fs_prune :: "int \<Rightarrow> fake_ip_store \<Rightarrow> fake_ip_store" where
  "fs_prune now s = fold (\<lambda>r s. snd (fs_read now (Some r) s)) (jm_vals (fs_byDomain s)) s"

definition fs_persist :: "int \<Rightarrow> fake_ip_store \<Rightarrow> fake_ip_store" where
  "fs_persist now s =
     (if fs_persists s
      then (let s1 = fs_prune now s in s1\<lparr>fs_file := Some (jm_vals (fs_byDomain s1))\<rparr>)
      else s)"

definition fs_set :: "int \<Rightarrow> fake_ip_record \<Rightarrow> fake_ip_store \<Rightarrow> fake_ip_store" where
  "fs_set now r s =
     (let s1 = (case jm_get (fs_byDomain s) (fr_domain r) of
                  Some previous \<Rightarrow> s\<lparr>fs_byAddress := jm_del (fr_address previous) (fs_byAddress s)\<rparr>
                | None \<Rightarrow> s);
          s2 = s1\<lparr>fs_byDomain := jm_set (fr_domain r) r (fs_byDomain s1),
                  fs_byAddress := jm_set (fr_address r) r (fs_byAddress s1)\<rparr>
      in fs_persist now (fs_trim (length (fs_byDomain s2)) s2))"

definition newFakeIpStore :: "int \<Rightarrow> nat \<Rightarrow> bool \<Rightarrow> fake_ip_record list option \<Rightarrow> fake_ip_store" where
  "newFakeIpStore now maxSize persists file =
     (let live = (if persists then filter (\<lambda>r. fr_expiresAt r > now) (case file of Some rs \<Rightarrow> rs | None \<Rightarrow> []) else [])
      in \<lparr>fs_byDomain = jm_of_list (map (\<lambda>r. (fr_domain r, r)) live),
          fs_byAddress = jm_of_list (map (\<lambda>r. (fr_address r, r)) live),
          fs_maxSize = maxSize, fs_persists = persists, fs_file = file\<rparr>)"

section \<open>The service\<close>

text \<open>\<^verbatim>\<open>pool.next\<close>: the callback reads the store, so it threads it.\<close>

fun pool_next :: "int \<Rightarrow> nat \<Rightarrow> fake_ip_pool \<Rightarrow> fake_ip_store \<Rightarrow> string option \<times> fake_ip_pool \<times> fake_ip_store" where
  "pool_next now 0 p s = (None, p, s)"
| "pool_next now (Suc n) p s =
     (let candidate = pool_address p (fp_cursor p);
          p1 = p\<lparr>fp_cursor := (fp_cursor p + 1) mod fp_capacity p\<rparr>;
          (used, s1) = hasAddress now candidate s
      in if used then pool_next now n p1 s1 else (Some candidate, p1, s1))"

record fake_ip_service =
  fi_pool :: fake_ip_pool
  fi_store :: fake_ip_store
  fi_ttlMs :: int

definition newFakeIpService ::
  "int \<Rightarrow> string \<Rightarrow> nat \<Rightarrow> int \<Rightarrow> bool \<Rightarrow> fake_ip_record list option \<Rightarrow> fake_ip_service result" where
  "newFakeIpService now cidr poolSize ttlSeconds persists file =
     rbind (newFakeIpPool cidr (int poolSize)) (\<lambda>p.
       Inr \<lparr>fi_pool = p, fi_store = newFakeIpStore now poolSize persists file, fi_ttlMs = ttlSeconds * 1000\<rparr>)"

definition assignFakeIp :: "int \<Rightarrow> string \<Rightarrow> fake_ip_service \<Rightarrow> string result \<times> fake_ip_service" where
  "assignFakeIp now domain s =
     (let normalized = js_lower domain; (existing, st) = getByDomain now normalized (fi_store s) in
      case existing of
        Some r \<Rightarrow> (Inr (fr_address r), s\<lparr>fi_store := st\<rparr>)
      | None \<Rightarrow>
          (let (found, p1, st1) = pool_next now (fp_capacity (fi_pool s)) (fi_pool s) st;
               store_it = (\<lambda>address st2. (Inr address, s\<lparr>fi_pool := p1,
                  fi_store := fs_set now \<lparr>fr_domain = normalized, fr_address = address,
                                          fr_expiresAt = now + fi_ttlMs s\<rparr> st2\<rparr>))
           in case found of
                Some address \<Rightarrow> store_it address st1
              | None \<Rightarrow>
                  (case evictOldest st1 of
                     (None, st2) \<Rightarrow> (Inl (ConfigError ''fake-ip pool is exhausted''), s\<lparr>fi_pool := p1, fi_store := st2\<rparr>)
                   | (Some evicted, st2) \<Rightarrow> store_it (fr_address evicted) st2)))"

definition reverseFakeIp :: "int \<Rightarrow> string \<Rightarrow> fake_ip_service \<Rightarrow> string option \<times> fake_ip_service" where
  "reverseFakeIp now address s =
     (let (r, st) = getByAddress now address (fi_store s) in (map_option fr_domain r, s\<lparr>fi_store := st\<rparr>))"

section \<open>The store is a bijection\<close>

text \<open>Both maps hold exactly the records \<open>R\<close>, each under its own key.\<close>

definition fs_rel :: "fake_ip_store \<Rightarrow> fake_ip_record set \<Rightarrow> bool" where
  "fs_rel s R \<longleftrightarrow>
     jm_ok (fs_byDomain s) \<and> jm_ok (fs_byAddress s) \<and>
     (\<forall>d r. (d, r) \<in> set (fs_byDomain s) \<longleftrightarrow> r \<in> R \<and> d = fr_domain r) \<and>
     (\<forall>a r. (a, r) \<in> set (fs_byAddress s) \<longleftrightarrow> r \<in> R \<and> a = fr_address r)"

lemma fs_rel_domain: "fs_rel s R \<Longrightarrow> jm_get (fs_byDomain s) d = Some r \<longleftrightarrow> r \<in> R \<and> d = fr_domain r"
  by (simp add: fs_rel_def flip: jm_in_get)

lemma fs_rel_address: "fs_rel s R \<Longrightarrow> jm_get (fs_byAddress s) a = Some r \<longleftrightarrow> r \<in> R \<and> a = fr_address r"
  by (simp add: fs_rel_def flip: jm_in_get)

lemma fs_rel_unique:
  assumes "fs_rel s R" "r \<in> R" "r' \<in> R"
  shows "fr_domain r = fr_domain r' \<longleftrightarrow> r = r'" "fr_address r = fr_address r' \<longleftrightarrow> r = r'"
  using fs_rel_domain [OF assms(1)] fs_rel_address [OF assms(1)] assms(2,3) by (metis option.inject)+

lemma fs_rel_delete:
  assumes "fs_rel s R" "r \<in> R"
  shows "fs_rel (fs_delete r s) (R - {r})"
proof -
  have "d = fr_domain x \<and> x \<in> R \<and> d \<noteq> fr_domain r \<longleftrightarrow> x \<in> R - {r} \<and> d = fr_domain x" for d x
    using fs_rel_unique(1) [OF assms(1) _ assms(2), of x] by auto
  moreover have "a = fr_address x \<and> x \<in> R \<and> a \<noteq> fr_address r \<longleftrightarrow> x \<in> R - {r} \<and> a = fr_address x" for a x
    using fs_rel_unique(2) [OF assms(1) _ assms(2), of x] by auto
  ultimately show ?thesis
    using assms(1) by (auto simp: fs_rel_def fs_delete_def set_jm_del)
qed

lemma fs_rel_touch:
  assumes "fs_rel s R" "r \<in> R"
  shows "fs_rel (fs_touch r s) R"
proof -
  have ok: "jm_ok (jm_del (fr_domain r) (fs_byDomain s))" using assms(1) by (simp add: fs_rel_def)
  have "x = r" if "x \<in> R" "fr_domain x = fr_domain r" for x
    using fs_rel_unique(1) [OF assms(1) that(1) assms(2)] that(2) by simp
  then show ?thesis
    using assms by (auto simp: fs_rel_def fs_touch_def set_jm_set [OF ok] set_jm_del)
qed

definition live :: "int \<Rightarrow> fake_ip_record option \<Rightarrow> fake_ip_record option" where
  "live now ro = (case ro of Some r \<Rightarrow> if fr_expiresAt r \<le> now then None else Some r | None \<Rightarrow> None)"

lemma fs_rel_get:
  assumes "fs_rel s R" "set_option ro \<subseteq> R"
  shows "fst (fs_get now ro s) = live now ro"
    "fs_rel (snd (fs_get now ro s)) (if live now ro = None then R - set_option ro else R)"
    "fs_maxSize (snd (fs_get now ro s)) = fs_maxSize s" "fs_persists (snd (fs_get now ro s)) = fs_persists s"
proof -
  show "fst (fs_get now ro s) = live now ro" "fs_maxSize (snd (fs_get now ro s)) = fs_maxSize s"
    "fs_persists (snd (fs_get now ro s)) = fs_persists s"
    by (auto simp: live_def fs_get_def fs_read_def fs_delete_def fs_touch_def split: option.splits)
  show "fs_rel (snd (fs_get now ro s)) (if live now ro = None then R - set_option ro else R)"
  proof (cases ro)
    case None
    with assms(1) show ?thesis by (simp add: live_def fs_get_def fs_read_def)
  next
    case (Some r)
    with assms(2) have "r \<in> R" by simp
    with Some fs_rel_delete [OF assms(1)] fs_rel_touch [OF assms(1)] show ?thesis
      by (simp add: live_def fs_get_def fs_read_def)
  qed
qed

text \<open>The live records of a store: lookups drop expired ones and nothing else.\<close>

definition kept :: "int \<Rightarrow> fake_ip_record set \<Rightarrow> fake_ip_record set \<Rightarrow> bool" where
  "kept now R R' \<longleftrightarrow> R' \<subseteq> R \<and> (\<forall>x \<in> R. now < fr_expiresAt x \<longrightarrow> x \<in> R')"

lemma kept_refl [simp]: "kept now R R"
  by (simp add: kept_def)

lemma kept_trans: "kept now R R' \<Longrightarrow> kept now R' R'' \<Longrightarrow> kept now R R''"
  by (auto simp: kept_def)

lemma fs_rel_byAddress:
  assumes "fs_rel s R"
  shows "\<exists>R'. fs_rel (snd (getByAddress now a s)) R' \<and> kept now R R' \<and>
    (case fst (getByAddress now a s) of
       None \<Rightarrow> \<forall>x \<in> R'. fr_address x \<noteq> a
     | Some r \<Rightarrow> r \<in> R' \<and> fr_address r = a \<and> now < fr_expiresAt r) \<and>
    fs_maxSize (snd (getByAddress now a s)) = fs_maxSize s \<and> fs_persists (snd (getByAddress now a s)) = fs_persists s"
proof -
  let ?ro = "jm_get (fs_byAddress s) a"
  have R: "set_option ?ro \<subseteq> R" by (auto simp: fs_rel_address [OF assms])
  note g = fs_rel_get [OF assms R, where now = now]
  let ?R = "if live now ?ro = None then R - set_option ?ro else R"
  have key: "x \<in> set_option ?ro \<longleftrightarrow> x \<in> R \<and> a = fr_address x" for x
    using fs_rel_address [OF assms, of a x] by simp
  have k: "kept now R ?R" by (auto simp: kept_def live_def split: option.splits if_splits)
  have c: "case live now ?ro of None \<Rightarrow> \<forall>x \<in> ?R. fr_address x \<noteq> a
     | Some r \<Rightarrow> r \<in> ?R \<and> fr_address r = a \<and> now < fr_expiresAt r"
  proof (cases "live now ?ro")
    case None
    with key show ?thesis by (simp only: option.case if_True simp_thms) blast
  next
    case (Some r)
    then have "?ro = Some r" "now < fr_expiresAt r" by (auto simp: live_def split: option.splits if_splits)
    with Some key [of r] show ?thesis by simp
  qed
  show ?thesis unfolding getByAddress_def g(1)
    by (rule exI [where x = ?R], intro conjI, rule g(2), rule k, rule c, rule g(3), rule g(4))
qed

lemma fs_rel_byDomain:
  assumes "fs_rel s R"
  shows "\<exists>R'. fs_rel (snd (getByDomain now d s)) R' \<and> kept now R R' \<and>
    (case fst (getByDomain now d s) of
       None \<Rightarrow> \<forall>x \<in> R'. fr_domain x \<noteq> d
     | Some r \<Rightarrow> r \<in> R' \<and> fr_domain r = d \<and> now < fr_expiresAt r) \<and>
    fs_maxSize (snd (getByDomain now d s)) = fs_maxSize s \<and> fs_persists (snd (getByDomain now d s)) = fs_persists s"
proof -
  let ?ro = "jm_get (fs_byDomain s) d"
  have R: "set_option ?ro \<subseteq> R" by (auto simp: fs_rel_domain [OF assms])
  note g = fs_rel_get [OF assms R, where now = now]
  let ?R = "if live now ?ro = None then R - set_option ?ro else R"
  have key: "x \<in> set_option ?ro \<longleftrightarrow> x \<in> R \<and> d = fr_domain x" for x
    using fs_rel_domain [OF assms, of d x] by simp
  have k: "kept now R ?R" by (auto simp: kept_def live_def split: option.splits if_splits)
  have c: "case live now ?ro of None \<Rightarrow> \<forall>x \<in> ?R. fr_domain x \<noteq> d
     | Some r \<Rightarrow> r \<in> ?R \<and> fr_domain r = d \<and> now < fr_expiresAt r"
  proof (cases "live now ?ro")
    case None
    with key show ?thesis by (simp only: option.case if_True simp_thms) blast
  next
    case (Some r)
    then have "?ro = Some r" "now < fr_expiresAt r" by (auto simp: live_def split: option.splits if_splits)
    with Some key [of r] show ?thesis by simp
  qed
  show ?thesis unfolding getByDomain_def g(1)
    by (rule exI [where x = ?R], intro conjI, rule g(2), rule k, rule c, rule g(3), rule g(4))
qed

lemma fs_rel_evict:
  assumes "fs_rel s R" "evictOldest s = (Some r, s')"
  shows "r \<in> R" "fs_rel s' (R - {r})" "fs_maxSize s' = fs_maxSize s" "fs_persists s' = fs_persists s"
    "\<exists>rest. fs_byDomain s = (fr_domain r, r) # rest \<and> fs_byDomain s' = rest"
proof -
  from assms(2) obtain d rest where h: "fs_byDomain s = (d, r) # rest" and s': "s' = fs_delete r s"
    by (cases "fs_byDomain s") (auto simp: evictOldest_def jm_vals_def)
  then have "(d, r) \<in> set (fs_byDomain s)" by simp
  with assms(1) have "r \<in> R \<and> d = fr_domain r" by (simp add: fs_rel_def)
  then have r: "r \<in> R" and d: "d = fr_domain r" by simp_all
  show "r \<in> R" by (rule r)
  show "fs_rel s' (R - {r})" unfolding s' by (rule fs_rel_delete [OF assms(1) r])
  show "fs_maxSize s' = fs_maxSize s" "fs_persists s' = fs_persists s" by (simp_all add: s' fs_delete_def)
  have "jm_ok ((fr_domain r, r) # rest)" using assms(1) by (simp add: fs_rel_def flip: d h)
  from jm_del_head [OF this] show "\<exists>rest. fs_byDomain s = (fr_domain r, r) # rest \<and> fs_byDomain s' = rest"
    using h by (simp add: s' fs_delete_def d)
qed

lemma hasAddress_eq: "hasAddress now a s = (fst (getByAddress now a s) \<noteq> None, snd (getByAddress now a s))"
  by (simp add: hasAddress_def split_beta)

text \<open>
  The search of the pool: a candidate it returns is free, and when it returns none, every address
  it tried is taken by a live record.
\<close>

lemma pool_next_spec:
  assumes "fs_rel s R" "fp_cursor p < fp_capacity p" "pool_next now n p s = (ro, p', s')"
  shows "\<exists>R'. fs_rel s' R' \<and> kept now R R' \<and> fs_maxSize s' = fs_maxSize s \<and> fs_persists s' = fs_persists s \<and>
    fp_first p' = fp_first p \<and> fp_capacity p' = fp_capacity p \<and> fp_cursor p' < fp_capacity p' \<and>
    (case ro of
       Some a \<Rightarrow> (\<exists>i < fp_capacity p. a = pool_address p i) \<and> (\<forall>x \<in> R'. fr_address x \<noteq> a)
     | None \<Rightarrow> \<forall>k < n. \<exists>x \<in> R. now < fr_expiresAt x \<and>
                fr_address x = pool_address p ((fp_cursor p + k) mod fp_capacity p))"
  using assms
proof (induction n arbitrary: p s R)
  case 0
  then show ?case by auto
next
  case (Suc n)
  let ?a = "pool_address p (fp_cursor p)"
  let ?p = "p\<lparr>fp_cursor := (fp_cursor p + 1) mod fp_capacity p\<rparr>"
  obtain R1 where R1: "fs_rel (snd (getByAddress now ?a s)) R1" and k1: "kept now R R1"
    and c1: "case fst (getByAddress now ?a s) of None \<Rightarrow> \<forall>x \<in> R1. fr_address x \<noteq> ?a
      | Some r \<Rightarrow> r \<in> R1 \<and> fr_address r = ?a \<and> now < fr_expiresAt r"
    and same: "fs_maxSize (snd (getByAddress now ?a s)) = fs_maxSize s"
      "fs_persists (snd (getByAddress now ?a s)) = fs_persists s"
    using fs_rel_byAddress [OF Suc.prems(1), of now ?a] by blast
  have sub: "x \<in> R" if "x \<in> R1" for x using k1 that by (auto simp: kept_def)
  have cur: "fp_cursor ?p < fp_capacity ?p" using Suc.prems(2) by simp
  show ?case
  proof (cases "fst (getByAddress now ?a s)")
    case None
    with Suc.prems(3) have res: "ro = Some ?a" "p' = ?p" "s' = snd (getByAddress now ?a s)"
      by (auto simp: hasAddress_eq Let_def)
    show ?thesis using R1 same c1 None k1 cur Suc.prems(2) by (auto simp: res)
  next
    case (Some r)
    with Suc.prems(3) have rest: "pool_next now n ?p (snd (getByAddress now ?a s)) = (ro, p', s')"
      by (simp add: hasAddress_eq Let_def)
    have addr: "pool_address (p\<lparr>fp_cursor := c\<rparr>) i = pool_address p i" for c i by (simp add: pool_address_def)
    have sel: "fp_capacity ?p = fp_capacity p" "fp_first ?p = fp_first p"
      "fp_cursor ?p = (fp_cursor p + 1) mod fp_capacity p" by simp_all
    obtain R' where
      R': "fs_rel s' R'" "kept now R1 R'" "fs_maxSize s' = fs_maxSize s" "fs_persists s' = fs_persists s"
        "fp_first p' = fp_first p" "fp_capacity p' = fp_capacity p" "fp_cursor p' < fp_capacity p'"
      and c: "case ro of Some a \<Rightarrow> (\<exists>i < fp_capacity p. a = pool_address p i) \<and> (\<forall>x \<in> R'. fr_address x \<noteq> a)
         | None \<Rightarrow> \<forall>k < n. \<exists>x \<in> R1. now < fr_expiresAt x \<and>
             fr_address x = pool_address p (((fp_cursor p + 1) mod fp_capacity p + k) mod fp_capacity p)"
      using Suc.IH [OF R1 cur rest] unfolding sel addr same by blast
    have "\<exists>x \<in> R. now < fr_expiresAt x \<and> fr_address x = pool_address p ((fp_cursor p + k) mod fp_capacity p)"
      if "ro = None" "k < Suc n" for k
    proof (cases k)
      case 0
      with c1 Some sub Suc.prems(2) show ?thesis by auto
    next
      case (Suc j)
      with c that have "\<exists>x \<in> R1. now < fr_expiresAt x \<and>
          fr_address x = pool_address p (((fp_cursor p + 1) mod fp_capacity p + j) mod fp_capacity p)" by simp
      then show ?thesis using sub Suc by (auto simp: mod_simps)
    qed
    with c R' kept_trans [OF k1 R'(2)] show ?thesis by (cases ro) auto
  qed
qed

lemma pool_exhausted_all:
  assumes "\<forall>k < c. P ((u + k) mod c)" "u < c" "i < c"
  shows "P (i :: nat)"
proof -
  let ?k = "(i + c - u) mod c"
  have "(u + ?k) mod c = (u + (i + c - u)) mod c" by (rule mod_add_right_eq)
  also have "\<dots> = i" using assms(2,3) by simp
  finally have "(u + ?k) mod c = i" .
  moreover have "?k < c" using assms(2) by simp
  ultimately show ?thesis using assms(1) by metis
qed

subsection \<open>Writing a record\<close>

lemma fs_rel_read:
  assumes "fs_rel s R" "r \<in> R"
  shows "fs_rel (snd (fs_read now (Some r) s)) (if fr_expiresAt r \<le> now then R - {r} else R)"
  using assms fs_rel_delete [OF assms] by (simp add: fs_read_def)

lemma fs_rel_prune:
  assumes "fs_rel s R"
  shows "fs_rel (fs_prune now s) {x \<in> R. now < fr_expiresAt x}"
proof -
  have step: "fs_rel (fold (\<lambda>r s. snd (fs_read now (Some r) s)) rs t) (T - {x \<in> set rs. fr_expiresAt x \<le> now})"
    if "fs_rel t T" "set rs \<subseteq> T" "distinct rs" for rs t T
    using that
  proof (induction rs arbitrary: t T)
    case (Cons r rs)
    let ?T = "if fr_expiresAt r \<le> now then T - {r} else T"
    have "fs_rel (snd (fs_read now (Some r) t)) ?T"
      using Cons.prems fs_rel_read by simp
    moreover have "set rs \<subseteq> ?T" "distinct rs" using Cons.prems by auto
    ultimately have "fs_rel (fold (\<lambda>r s. snd (fs_read now (Some r) s)) rs (snd (fs_read now (Some r) t)))
        (?T - {x \<in> set rs. fr_expiresAt x \<le> now})" by (rule Cons.IH)
    moreover have "?T - {x \<in> set rs. fr_expiresAt x \<le> now} = T - {x \<in> set (r # rs). fr_expiresAt x \<le> now}"
      by auto
    ultimately show ?case by simp
  qed simp
  have vals: "set (jm_vals (fs_byDomain s)) = R"
    using assms by (auto simp: fs_rel_def jm_vals_def image_iff) (metis snd_conv)
  have "distinct (jm_vals (fs_byDomain s))"
  proof -
    have "distinct (map fst (fs_byDomain s))" using assms by (simp add: fs_rel_def jm_ok_def)
    moreover have "map fst (fs_byDomain s) = map fr_domain (jm_vals (fs_byDomain s))"
      using assms by (auto simp: fs_rel_def jm_vals_def)
    ultimately show ?thesis by (simp add: distinct_map)
  qed
  from step [OF assms _ this] vals
  have "fs_rel (fs_prune now s) (R - {x \<in> R. fr_expiresAt x \<le> now})" by (simp add: fs_prune_def)
  moreover have "R - {x \<in> R. fr_expiresAt x \<le> now} = {x \<in> R. now < fr_expiresAt x}" by auto
  ultimately show ?thesis by simp
qed

lemma fs_rel_length:
  assumes "fs_rel s R"
  shows "length (fs_byDomain s) = card R" "finite R"
proof -
  have img: "R = snd ` set (fs_byDomain s)"
    using assms by (auto simp: fs_rel_def image_iff) (metis snd_conv)
  have "inj_on snd (set (fs_byDomain s))" using assms by (auto simp: fs_rel_def inj_on_def)
  then have "card R = card (set (fs_byDomain s))" by (simp add: img card_image)
  moreover have "distinct (fs_byDomain s)" using assms by (simp add: fs_rel_def jm_ok_def distinct_map)
  ultimately show "length (fs_byDomain s) = card R" by (simp add: distinct_card)
  show "finite R" by (simp add: img)
qed

section \<open>The service\<close>

definition fake_ip_inv :: "fake_ip_service \<Rightarrow> fake_ip_record set \<Rightarrow> bool" where
  "fake_ip_inv s R \<longleftrightarrow>
     fs_rel (fi_store s) R \<and> fp_cursor (fi_pool s) < fp_capacity (fi_pool s) \<and>
     fr_address ` R \<subseteq> pool_address (fi_pool s) ` {..<fp_capacity (fi_pool s)} \<and>
     fp_capacity (fi_pool s) \<le> fs_maxSize (fi_store s) \<and> 0 < fi_ttlMs s"

definition fake_ip_ok :: "fake_ip_service \<Rightarrow> bool" where
  "fake_ip_ok s \<longleftrightarrow> (\<exists>R. fake_ip_inv s R)"

text \<open>Every address of the pool is held by a record that has not expired.\<close>

definition pool_full :: "int \<Rightarrow> fake_ip_service \<Rightarrow> fake_ip_record set \<Rightarrow> bool" where
  "pool_full now s R \<longleftrightarrow> (\<forall>i < fp_capacity (fi_pool s). \<exists>x \<in> R. now < fr_expiresAt x \<and>
     fr_address x = pool_address (fi_pool s) i)"

lemma fs_trim_small: "length (fs_byDomain s) \<le> fs_maxSize s \<Longrightarrow> fs_trim n s = s"
  by (cases n) simp_all

lemma fs_rel_card:
  assumes "fs_rel s R" "fr_address ` R \<subseteq> f ` {..<c}"
  shows "card R \<le> c"
proof -
  have "inj_on fr_address R" using fs_rel_unique(2) [OF assms(1)] by (auto simp: inj_on_def)
  then have "card R = card (fr_address ` R)" by (simp add: card_image)
  also have "\<dots> \<le> card (f ` {..<c})" using assms(2) by (intro card_mono) auto
  also have "\<dots> \<le> c" using card_image_le [of "{..<c}" f] by simp
  finally show ?thesis .
qed

lemma fs_rel_persist:
  assumes "fs_rel s R"
  shows "\<exists>R'. fs_rel (fs_persist now s) R' \<and> kept now R R' \<and> fs_maxSize (fs_persist now s) = fs_maxSize s"
proof (cases "fs_persists s")
  case True
  let ?R = "{x \<in> R. now < fr_expiresAt x}"
  have same: "fs_maxSize (fold (\<lambda>r s. snd (fs_read now (Some r) s)) rs t) = fs_maxSize t" for rs t
    by (induction rs arbitrary: t) (auto simp: fs_read_def fs_delete_def)
  have "fs_rel (fs_persist now s) ?R"
    using fs_rel_prune [OF assms, of now] True by (simp add: fs_persist_def Let_def fs_rel_def)
  moreover have "kept now R ?R" by (auto simp: kept_def)
  moreover have "fs_maxSize (fs_persist now s) = fs_maxSize s"
    using True by (simp add: fs_persist_def Let_def fs_prune_def same)
  ultimately show ?thesis by blast
next
  case False
  with assms kept_refl show ?thesis by (auto simp: fs_persist_def)
qed

lemma fs_rel_insert:
  assumes "fs_rel s R" "\<forall>x \<in> R. fr_domain x \<noteq> fr_domain r" "\<forall>x \<in> R. fr_address x \<noteq> fr_address r"
  shows "fs_rel (s\<lparr>fs_byDomain := jm_set (fr_domain r) r (fs_byDomain s),
                   fs_byAddress := jm_set (fr_address r) r (fs_byAddress s)\<rparr>) (insert r R)"
  using assms by (auto simp: fs_rel_def set_jm_set)

lemma fs_rel_set:
  assumes "fs_rel s R" "\<forall>x \<in> R. fr_domain x \<noteq> fr_domain r" "\<forall>x \<in> R. fr_address x \<noteq> fr_address r"
    "fr_address ` insert r R \<subseteq> f ` {..<fs_maxSize s}"
  shows "\<exists>R'. fs_rel (fs_set now r s) R' \<and> kept now (insert r R) R' \<and> fs_maxSize (fs_set now r s) = fs_maxSize s"
proof -
  let ?s = "s\<lparr>fs_byDomain := jm_set (fr_domain r) r (fs_byDomain s),
              fs_byAddress := jm_set (fr_address r) r (fs_byAddress s)\<rparr>"
  have rel: "fs_rel ?s (insert r R)" by (rule fs_rel_insert [OF assms(1-3)])
  have "jm_get (fs_byDomain s) (fr_domain r) = None"
    using assms(2) fs_rel_domain [OF assms(1), of "fr_domain r"] by (cases "jm_get (fs_byDomain s) (fr_domain r)") metis+
  moreover have "fs_trim n ?s = ?s" for n
    using fs_rel_card [OF rel assms(4)] fs_rel_length(1) [OF rel] by (intro fs_trim_small) simp
  ultimately have "fs_set now r s = fs_persist now ?s" by (simp add: fs_set_def Let_def)
  with fs_rel_persist [OF rel, of now] show ?thesis by simp
qed

text \<open>Writing the new record of an assignment, whether the address was free or taken from the oldest.\<close>

lemma fake_ip_store_it:
  assumes "fs_rel st R" "\<forall>x \<in> R. fr_domain x \<noteq> fr_domain r" "\<forall>x \<in> R. fr_address x \<noteq> fr_address r"
    "fr_address ` insert r R \<subseteq> pool_address p ` {..<fp_capacity p}" "fp_capacity p \<le> fs_maxSize st"
    "fp_cursor p < fp_capacity p" "0 < fi_ttlMs s" "now < fr_expiresAt r"
  shows "\<exists>R'. fake_ip_inv (s\<lparr>fi_pool := p, fi_store := fs_set now r st\<rparr>) R' \<and> r \<in> R' \<and> kept now (insert r R) R'"
proof -
  have "fr_address ` insert r R \<subseteq> pool_address p ` {..<fs_maxSize st}"
    using assms(4,5) by (force simp: image_subset_iff)
  from fs_rel_set [OF assms(1-3) this] obtain R' where
    R': "fs_rel (fs_set now r st) R'" "kept now (insert r R) R'" "fs_maxSize (fs_set now r st) = fs_maxSize st" by blast
  moreover have "r \<in> R'" using R'(2) assms(8) by (auto simp: kept_def)
  moreover have "fr_address ` R' \<subseteq> pool_address p ` {..<fp_capacity p}"
    using assms(4) R'(2) by (auto simp: kept_def)
  ultimately show ?thesis using assms(5-7) by (auto simp: fake_ip_inv_def)
qed

lemma pool_address_same: "fp_first p = fp_first q \<Longrightarrow> pool_address p = pool_address q"
  by (simp add: pool_address_def fun_eq_iff)

lemma assign_spec:
  assumes "fake_ip_inv s R"
  shows "\<exists>a s' R' r. assignFakeIp now d s = (Inr a, s') \<and> fake_ip_inv s' R' \<and> r \<in> R' \<and> fr_domain r = js_lower d \<and>
    fr_address r = a \<and> now < fr_expiresAt r \<and> ((\<forall>x \<in> R. now < fr_expiresAt x \<longrightarrow> x \<in> R') \<or> pool_full now s R)"
proof -
  let ?p = "fi_pool s" let ?d = "js_lower d"
  from assms have rel: "fs_rel (fi_store s) R" and cur: "fp_cursor ?p < fp_capacity ?p"
    and sub: "fr_address ` R \<subseteq> pool_address ?p ` {..<fp_capacity ?p}"
    and cap: "fp_capacity ?p \<le> fs_maxSize (fi_store s)" and ttl: "0 < fi_ttlMs s"
    by (simp_all add: fake_ip_inv_def)
  obtain g st where g: "getByDomain now ?d (fi_store s) = (g, st)" by (metis surj_pair)
  obtain R1 where R1: "fs_rel st R1" and k1: "kept now R R1" and same1: "fs_maxSize st = fs_maxSize (fi_store s)"
    and c1: "case g of None \<Rightarrow> \<forall>x \<in> R1. fr_domain x \<noteq> ?d
      | Some r \<Rightarrow> r \<in> R1 \<and> fr_domain r = ?d \<and> now < fr_expiresAt r"
    using fs_rel_byDomain [OF rel, of now ?d] unfolding g fst_conv snd_conv by blast
  show ?thesis
  proof (cases g)
    case (Some r)
    then have "assignFakeIp now d s = (Inr (fr_address r), s\<lparr>fi_store := st\<rparr>)" by (simp add: assignFakeIp_def g)
    moreover have "fake_ip_inv (s\<lparr>fi_store := st\<rparr>) R1"
      using R1 cur sub cap ttl same1 k1 by (auto simp: fake_ip_inv_def kept_def)
    moreover have "r \<in> R1 \<and> fr_domain r = ?d \<and> now < fr_expiresAt r" using c1 Some by simp
    ultimately show ?thesis using k1 unfolding kept_def by blast
  next
    case None
    obtain f p1 st1 where pn: "pool_next now (fp_capacity ?p) ?p st = (f, p1, st1)" by (metis surj_pair)
    from pool_next_spec [OF R1 cur pn] obtain R2 where R2: "fs_rel st1 R2" "kept now R1 R2"
      "fs_maxSize st1 = fs_maxSize st" "fp_first p1 = fp_first ?p" "fp_capacity p1 = fp_capacity ?p"
      "fp_cursor p1 < fp_capacity p1"
      and c2: "case f of Some a \<Rightarrow> (\<exists>i < fp_capacity ?p. a = pool_address ?p i) \<and> (\<forall>x \<in> R2. fr_address x \<noteq> a)
        | None \<Rightarrow> \<forall>k < fp_capacity ?p. \<exists>x \<in> R1. now < fr_expiresAt x \<and>
            fr_address x = pool_address ?p ((fp_cursor ?p + k) mod fp_capacity ?p)" by blast
    have nd: "\<forall>x \<in> R2. fr_domain x \<noteq> ?d" using c1 None R2(2) by (auto simp: kept_def)
    have sub2: "fr_address ` R2 \<subseteq> pool_address p1 ` {..<fp_capacity p1}"
      using sub k1 R2(2) unfolding kept_def R2(5) pool_address_same [OF R2(4)] by blast
    have cap2: "fp_capacity p1 \<le> fs_maxSize st1" using cap by (simp add: R2(3,5) same1)
    have keep: "\<forall>x \<in> R. now < fr_expiresAt x \<longrightarrow> x \<in> R2" using k1 R2(2) by (auto simp: kept_def)
    let ?r = "\<lambda>a. \<lparr>fr_domain = ?d, fr_address = a, fr_expiresAt = now + fi_ttlMs s\<rparr>"
    show ?thesis
    proof (cases f)
      case (Some a)
      with c2 have free: "\<forall>x \<in> R2. fr_address x \<noteq> a" and "a \<in> pool_address ?p ` {..<fp_capacity ?p}" by auto
      then have a: "a \<in> pool_address p1 ` {..<fp_capacity p1}" by (simp add: R2(5) pool_address_same [OF R2(4)])
      obtain R' where R': "fake_ip_inv (s\<lparr>fi_pool := p1, fi_store := fs_set now (?r a) st1\<rparr>) R'" "?r a \<in> R'"
        "kept now (insert (?r a) R2) R'"
        using fake_ip_store_it [OF R2(1), of "?r a" p1 s now] nd free sub2 a cap2 R2(6) ttl by auto
      have "assignFakeIp now d s = (Inr a, s\<lparr>fi_pool := p1, fi_store := fs_set now (?r a) st1\<rparr>)"
        using None Some by (simp add: assignFakeIp_def g pn)
      moreover have "\<forall>x \<in> R. now < fr_expiresAt x \<longrightarrow> x \<in> R'" using keep R'(3) by (auto simp: kept_def)
      ultimately show ?thesis using R'(1,2) ttl
        by (intro exI [of _ a] exI [of _ "?r a"] exI [of _ R'] exI conjI) auto
    next
      case none: None
      with c2 have "\<forall>k < fp_capacity ?p. \<exists>x \<in> R1. now < fr_expiresAt x \<and>
            fr_address x = pool_address ?p ((fp_cursor ?p + k) mod fp_capacity ?p)" by simp
      then have "\<forall>i < fp_capacity ?p. \<exists>x \<in> R1. now < fr_expiresAt x \<and> fr_address x = pool_address ?p i"
        using pool_exhausted_all [where P = "\<lambda>i. \<exists>x \<in> R1. now < fr_expiresAt x \<and> fr_address x = pool_address ?p i"] cur
        by blast
      then have all: "\<And>i. i < fp_capacity ?p \<Longrightarrow> \<exists>x \<in> R1. now < fr_expiresAt x \<and> fr_address x = pool_address ?p i"
        by blast
      have "x \<in> R" if "x \<in> R1" for x using k1 that by (auto simp: kept_def)
      with all have full: "pool_full now s R" unfolding pool_full_def by blast
      from all [OF cur] have ne: "R2 \<noteq> {}" using R2(2) unfolding kept_def by blast
      have "fs_byDomain st1 \<noteq> []" using fs_rel_length [OF R2(1)] ne by auto
      then obtain e st2 where ev: "evictOldest st1 = (Some e, st2)"
        by (cases "fs_byDomain st1") (auto simp: evictOldest_def jm_vals_def)
      note e = fs_rel_evict [OF R2(1) ev]
      have "\<forall>x \<in> R2 - {e}. fr_address x \<noteq> fr_address e"
        using fs_rel_unique(2) [OF R2(1) _ e(1)] by auto
      moreover have "fr_address ` insert (?r (fr_address e)) (R2 - {e}) \<subseteq> pool_address p1 ` {..<fp_capacity p1}"
        using sub2 e(1) by auto
      ultimately obtain R' where R': "fake_ip_inv (s\<lparr>fi_pool := p1, fi_store := fs_set now (?r (fr_address e)) st2\<rparr>) R'"
        "?r (fr_address e) \<in> R'"
        using fake_ip_store_it [OF e(2), of "?r (fr_address e)" p1 s now] nd cap2 R2(6) ttl e(3) by auto
      have "assignFakeIp now d s = (Inr (fr_address e), s\<lparr>fi_pool := p1, fi_store := fs_set now (?r (fr_address e)) st2\<rparr>)"
        using None none by (simp add: assignFakeIp_def g pn ev)
      with R' full ttl show ?thesis
        by (intro exI [of _ "fr_address e"] exI [of _ "?r (fr_address e)"] exI [of _ R'] exI conjI) auto
    qed
  qed
qed

section \<open>Addresses and numbers\<close>

lemma and_255: "and v 255 = take_bit 8 v" for v :: "32 word"
  by (simp add: take_bit_eq_mask mask_eq_exp_minus_1)

lemma octets_of_word:
  fixes v :: "32 word"
  shows "or (or (push_bit 24 (drop_bit 24 v)) (push_bit 16 (take_bit 8 (drop_bit 16 v))))
    (or (push_bit 8 (take_bit 8 (drop_bit 8 v))) (take_bit 8 v)) = v"
proof (rule bit_word_eqI)
  fix n assume "n < LENGTH(32)"
  then show "bit (or (or (push_bit 24 (drop_bit 24 v)) (push_bit 16 (take_bit 8 (drop_bit 16 v))))
      (or (push_bit 8 (take_bit 8 (drop_bit 8 v))) (take_bit 8 v))) n = bit v n"
    by (cases "n < 8"; cases "n < 16"; cases "n < 24") (auto simp: bit_simps less_diff_conv2)
qed

lemma unat_take_8: "unat (take_bit 8 v) < 256" for v :: "32 word"
  by (simp add: take_bit_eq_mod unat_mod)

lemma unat_drop_24: "unat (drop_bit 24 v) < 256" for v :: "32 word"
  using unsigned_less [where ?'a = nat, of v] by (simp add: drop_bit_eq_div unat_div less_mult_imp_div_less)

lemma octet_Number: "n < 256 \<Longrightarrow> octet (js_Number (show_nat n)) = Some n"
  by (simp add: octet_def)

lemma ipv4_number_roundtrip: "ipv4ToNumber (numberToIpv4 v) = Inr v"
proof -
  note o = octet_Number [OF unat_drop_24 [of v]] octet_Number [OF unat_take_8]
  show ?thesis
    unfolding ipv4ToNumber_def numberToIpv4_def split_dotted and_255 list.map o
    by (simp add: octets_of_word)
qed

lemma network_range:
  fixes base :: "32 word"
  assumes "h < 32"
  shows "unat (and base (push_bit h (- 1))) + 2 ^ h \<le> 2 ^ 32"
proof -
  let ?n = "unat (and base (push_bit h (- 1)))"
  have "take_bit h (and base (push_bit h (- 1))) = 0" by (rule bit_word_eqI) (auto simp: bit_simps)
  then have "unat (take_bit h (and base (push_bit h (- 1 :: 32 word)))) = 0" by simp
  then have "take_bit h ?n = 0" by (simp only: unsigned_take_bit_eq)
  then have "2 ^ h dvd ?n" by (simp add: take_bit_eq_mod mod_eq_0_iff_dvd)
  then obtain k where k: "?n = 2 ^ h * k" by (elim dvdE)
  have pow: "(2 :: nat) ^ 32 = 2 ^ h * 2 ^ (32 - h)" using assms by (simp flip: power_add)
  have "?n < 2 ^ 32" using unsigned_less [where ?'a = nat, of "and base (push_bit h (- 1))"] by simp
  then have "2 ^ h * k < 2 ^ h * 2 ^ (32 - h)" unfolding k pow .
  then have "k < 2 ^ (32 - h)" by simp
  then have "2 ^ h * Suc k \<le> 2 ^ h * 2 ^ (32 - h)" by (intro mult_le_mono) simp_all
  then show ?thesis unfolding k pow by simp
qed

lemma word_succ_le: "unat (w + 1) \<le> Suc (unat w)" for w :: "32 word"
  using unat_plus_if' [of w 1] by (auto split: if_splits)

lemma newFakeIpPool_Inr:
  assumes "newFakeIpPool cidr n = Inr p"
  shows "0 < fp_capacity p" "fp_cursor p = 0" "int (fp_capacity p) \<le> n"
    "unat (fp_first p) + fp_capacity p < 2 ^ 32"
proof -
  obtain address prefixRaw rest pfx where sp: "split_on (CHR ''/'') cidr = address # prefixRaw # rest"
    and num: "js_Number prefixRaw = JInt pfx" and pfx: "1 \<le> pfx" "pfx \<le> 30"
    using assms by (auto simp: newFakeIpPool_def split: list.splits jsnum.splits if_splits)
  obtain base where "ipv4ToNumber address = Inr base"
    using assms pfx by (auto simp: newFakeIpPool_def sp num rbind_Inr_iff)
  then have cap: "1 \<le> min n (2 ^ (32 - nat pfx) - 2)"
    and p: "p = \<lparr>fp_first = and base (push_bit (32 - nat pfx) (- 1)) + 1,
                fp_capacity = nat (min n (2 ^ (32 - nat pfx) - 2)), fp_cursor = 0\<rparr>"
    using assms pfx by (auto simp: newFakeIpPool_def sp num Let_def split: if_splits)
  define h where "h = 32 - nat pfx"
  have h: "h < 32" using pfx by (auto simp: h_def)
  have two: "(2 :: nat) \<le> 2 ^ h" using pfx by (simp add: h_def self_le_power)
  show "0 < fp_capacity p" "fp_cursor p = 0" "int (fp_capacity p) \<le> n" using cap by (simp_all add: p)
  have net: "unat (and base (push_bit h (- 1))) + 2 ^ h \<le> 2 ^ 32" by (rule network_range [OF h])
  have first: "unat (fp_first p) \<le> unat (and base (push_bit h (- 1))) + 1"
    by (simp add: p h_def word_succ_le)
  have "int (fp_capacity p) \<le> 2 ^ h - 2" using cap by (simp add: p h_def)
  then have "int (fp_capacity p + 2) \<le> int (2 ^ h)" by simp
  then have "fp_capacity p + 2 \<le> 2 ^ h" by (simp only: zle_int)
  with net first show "unat (fp_first p) + fp_capacity p < 2 ^ 32" by linarith
qed

lemma pool_contains_address:
  assumes "unat (fp_first p) + fp_capacity p < 2 ^ 32" "i < fp_capacity p"
  shows "pool_contains (pool_address p i) p = Inr True"
proof -
  have i: "unat (of_nat i :: 32 word) = i" using assms by (simp add: unsigned_of_nat take_bit_nat_eq_self)
  have "unat (fp_first p + of_nat i) = unat (fp_first p) + i"
    using assms i by (subst unat_add_lem [THEN iffD1]) simp_all
  with assms show ?thesis by (simp add: pool_contains_def pool_address_def ipv4_number_roundtrip)
qed

section \<open>Runs of the service\<close>

datatype fake_ip_op = Assign int string | Reverse int string

definition fake_ip_step :: "fake_ip_op \<Rightarrow> fake_ip_service \<Rightarrow> fake_ip_service" where
  "fake_ip_step x s = (case x of Assign now d \<Rightarrow> snd (assignFakeIp now d s) | Reverse now a \<Rightarrow> snd (reverseFakeIp now a s))"

text \<open>The pool a service searches never moves; only the cursor does.\<close>

lemma pool_next_pool:
  "fp_first (fst (snd (pool_next now n p s))) = fp_first p \<and> fp_capacity (fst (snd (pool_next now n p s))) = fp_capacity p"
proof (induction n arbitrary: p s)
  case (Suc n)
  then show ?case by (simp add: hasAddress_eq Let_def)
qed simp

definition same_pool :: "fake_ip_pool \<Rightarrow> fake_ip_service \<Rightarrow> bool" where
  "same_pool p s \<longleftrightarrow> fp_first (fi_pool s) = fp_first p \<and> fp_capacity (fi_pool s) = fp_capacity p"

lemma assign_same_pool: "same_pool p s \<Longrightarrow> same_pool p (snd (assignFakeIp now d s))"
  using pool_next_pool [of now "fp_capacity (fi_pool s)" "fi_pool s" "snd (getByDomain now (js_lower d) (fi_store s))"]
  by (simp add: assignFakeIp_def same_pool_def Let_def split_beta split: option.splits prod.splits)

lemma reverse_spec:
  assumes "fake_ip_inv s R"
  shows "\<exists>R'. fake_ip_inv (snd (reverseFakeIp now a s)) R' \<and> kept now R R'"
    "r \<in> R \<Longrightarrow> now < fr_expiresAt r \<Longrightarrow> fst (reverseFakeIp now (fr_address r) s) = Some (fr_domain r)"
    "fst (reverseFakeIp now a s) = Some d \<Longrightarrow> \<exists>r \<in> R. fr_address r = a \<and> fr_domain r = d \<and> now < fr_expiresAt r"
proof -
  from assms have rel: "fs_rel (fi_store s) R" by (simp add: fake_ip_inv_def)
  have R: "\<exists>R'. fs_rel (snd (getByAddress now a (fi_store s))) R' \<and> kept now R R' \<and>
      (case fst (getByAddress now a (fi_store s)) of None \<Rightarrow> \<forall>x \<in> R'. fr_address x \<noteq> a
      | Some r \<Rightarrow> r \<in> R' \<and> fr_address r = a \<and> now < fr_expiresAt r) \<and>
      fs_maxSize (snd (getByAddress now a (fi_store s))) = fs_maxSize (fi_store s)" for a
    using fs_rel_byAddress [OF rel, of now a] by blast
  have eq: "reverseFakeIp now a s = (map_option fr_domain (fst (getByAddress now a (fi_store s))),
      s\<lparr>fi_store := snd (getByAddress now a (fi_store s))\<rparr>)" for a
    by (simp add: reverseFakeIp_def split_beta)
  show "\<exists>R'. fake_ip_inv (snd (reverseFakeIp now a s)) R' \<and> kept now R R'"
    using R [of a] assms by (fastforce simp: eq fake_ip_inv_def kept_def)
  show "fst (reverseFakeIp now (fr_address r) s) = Some (fr_domain r)" if r: "r \<in> R" "now < fr_expiresAt r"
  proof -
    from fs_rel_address [OF rel, of "fr_address r" r] r(1)
    have "jm_get (fs_byAddress (fi_store s)) (fr_address r) = Some r" by simp
    with r(2) show ?thesis by (simp add: eq getByAddress_def fs_get_def fs_read_def)
  qed
  show "\<exists>r \<in> R. fr_address r = a \<and> fr_domain r = d \<and> now < fr_expiresAt r"
    if d: "fst (reverseFakeIp now a s) = Some d"
  proof -
    from d obtain r where "fst (getByAddress now a (fi_store s)) = Some r" "fr_domain r = d" by (auto simp: eq)
    with R [of a] show ?thesis by (auto simp: kept_def)
  qed
qed

definition fake_ip_run :: "fake_ip_pool \<Rightarrow> fake_ip_service \<Rightarrow> bool" where
  "fake_ip_run p s \<longleftrightarrow> fake_ip_ok s \<and> same_pool p s"

interpretation fake_ip: invariant_system fake_ip_step "fake_ip_run p" for p
proof (unfold_locales)
  fix s x assume "fake_ip_run p s"
  then obtain R where R: "fake_ip_inv s R" and same: "same_pool p s" by (auto simp: fake_ip_run_def fake_ip_ok_def)
  show "fake_ip_run p (fake_ip_step x s)"
  proof (cases x)
    case (Assign now d)
    from assign_spec [OF R, of now d] have "fake_ip_ok (snd (assignFakeIp now d s))"
      by (auto simp: fake_ip_ok_def)
    with assign_same_pool [OF same] show ?thesis by (simp add: fake_ip_run_def fake_ip_step_def Assign)
  next
    case (Reverse now a)
    from reverse_spec(1) [OF R, of now a] same show ?thesis
      by (auto simp: fake_ip_run_def fake_ip_step_def Reverse fake_ip_ok_def same_pool_def reverseFakeIp_def split_beta)
  qed
qed

lemma newFakeIpService_run:
  assumes "newFakeIpService now cidr size_limit ttl persists file = Inr s" "0 < ttl" "\<not> persists \<or> file = None"
  shows "fake_ip_run (fi_pool s) s" "unat (fp_first (fi_pool s)) + fp_capacity (fi_pool s) < 2 ^ 32"
proof -
  from assms(1) obtain p where p: "newFakeIpPool cidr (int size_limit) = Inr p"
    and s: "s = \<lparr>fi_pool = p, fi_store = newFakeIpStore now size_limit persists file, fi_ttlMs = ttl * 1000\<rparr>"
    by (auto simp: newFakeIpService_def rbind_Inr_iff)
  note new = newFakeIpPool_Inr [OF p]
  have "fs_rel (fi_store s) {}"
    using assms(3) by (auto simp: s newFakeIpStore_def fs_rel_def jm_of_list_def)
  moreover have "fs_maxSize (fi_store s) = size_limit" by (simp add: s newFakeIpStore_def Let_def)
  ultimately have "fake_ip_inv s {}" using new assms(2) by (simp add: fake_ip_inv_def s)
  then show "fake_ip_run (fi_pool s) s" by (auto simp: fake_ip_run_def fake_ip_ok_def same_pool_def)
  show "unat (fp_first (fi_pool s)) + fp_capacity (fi_pool s) < 2 ^ 32" using new by (simp add: s)
qed

section \<open>Properties\<close>

lemma fake_ip_after:
  assumes "newFakeIpService now0 cidr size_limit ttl persists file = Inr s0" "0 < ttl" "\<not> persists \<or> file = None"
  shows "\<exists>R. fake_ip_inv (fold fake_ip_step ops s0) R" "same_pool (fi_pool s0) (fold fake_ip_step ops s0)"
  using fake_ip.run_keeps [OF newFakeIpService_run(1) [OF assms], of ops]
  by (simp_all add: fake_ip_run_def fake_ip_ok_def)

lemma same_poolD:
  assumes "same_pool p s"
  shows "pool_address (fi_pool s) = pool_address p" "fp_capacity (fi_pool s) = fp_capacity p"
  using assms pool_address_same [of "fi_pool s" p] by (simp_all add: same_pool_def)

lemma assign_again:
  assumes "fake_ip_inv s R" "r \<in> R" "fr_domain r = js_lower d" "now < fr_expiresAt r"
  shows "fst (assignFakeIp now d s) = Inr (fr_address r)"
proof -
  have "fs_rel (fi_store s) R" using assms(1) by (simp add: fake_ip_inv_def)
  from fs_rel_domain [OF this, of "js_lower d" r] assms(2,3)
  have "jm_get (fs_byDomain (fi_store s)) (js_lower d) = Some r" by simp
  with assms(4) show ?thesis by (simp add: assignFakeIp_def getByDomain_def fs_get_def fs_read_def)
qed

text \<open>Property C12. Whatever calls a fake-IP service has served since it was created (with a positive
  TTL and no state restored from disk), \<^verbatim>\<open>assign\<close> succeeds: the address it returns lies in the
  configured range, \<^verbatim>\<open>reverse\<close> maps it back to the lower-cased domain, and asking again for
  the domain, in any case, gives the same address. A full pool is no error.\<close>

theorem fake_ip_assign:
  assumes "newFakeIpService now0 cidr size_limit ttl persists file = Inr s0" "0 < ttl" "\<not> persists \<or> file = None"
    and "s = fold fake_ip_step ops s0"
  shows "\<exists>a s'. assignFakeIp now d s = (Inr a, s') \<and> pool_contains a (fi_pool s0) = Inr True \<and>
    fst (reverseFakeIp now a s') = Some (js_lower d) \<and>
    (\<forall>d'. js_lower d' = js_lower d \<longrightarrow> fst (assignFakeIp now d' s') = Inr a)"
proof -
  obtain R where R: "fake_ip_inv s R" using fake_ip_after(1) [OF assms(1-3)] assms(4) by blast
  from assign_spec [OF R, of now d] obtain a s' R' r where
    a: "assignFakeIp now d s = (Inr a, s')" and R': "fake_ip_inv s' R'"
    and r: "r \<in> R'" "fr_domain r = js_lower d" "fr_address r = a" "now < fr_expiresAt r" by blast
  have "same_pool (fi_pool s0) s'"
    using assign_same_pool [OF fake_ip_after(2) [OF assms(1-3)], of now d ops] a assms(4) by simp
  note p = same_poolD [OF this]
  from R' have "fr_address ` R' \<subseteq> pool_address (fi_pool s0) ` {..<fp_capacity (fi_pool s0)}"
    by (simp add: fake_ip_inv_def p)
  with r(1,3) obtain i where "i < fp_capacity (fi_pool s0)" "a = pool_address (fi_pool s0) i" by blast
  with pool_contains_address [OF newFakeIpService_run(2) [OF assms(1-3)]]
  have "pool_contains a (fi_pool s0) = Inr True" by simp
  with a r reverse_spec(2) [OF R' r(1) r(4)] assign_again [OF R' r(1) _ r(4)] show ?thesis by auto
qed

text \<open>Property C13. No live mapping is lost while the pool has a free address: if some address of
  the range reverses to nothing, assigning an address to a domain leaves every address that
  reversed to a domain reversing to that domain.\<close>

theorem fake_ip_keeps_live:
  assumes "newFakeIpService now0 cidr size_limit ttl persists file = Inr s0" "0 < ttl" "\<not> persists \<or> file = None"
    and "s = fold fake_ip_step ops s0"
    and "i < fp_capacity (fi_pool s0)" "fst (reverseFakeIp now (pool_address (fi_pool s0) i) s) = None"
    and "fst (reverseFakeIp now a s) = Some d'"
  shows "fst (reverseFakeIp now a (snd (assignFakeIp now d s))) = Some d'"
proof -
  obtain R where R: "fake_ip_inv s R" using fake_ip_after(1) [OF assms(1-3)] assms(4) by blast
  have "same_pool (fi_pool s0) s" using fake_ip_after(2) [OF assms(1-3)] assms(4) by simp
  note p = same_poolD [OF this]
  have "\<not> pool_full now s R"
  proof
    assume "pool_full now s R"
    with assms(5) obtain x where "x \<in> R" "now < fr_expiresAt x" "fr_address x = pool_address (fi_pool s0) i"
      by (auto simp: pool_full_def p)
    with reverse_spec(2) [OF R, of x now] assms(6) show False by simp
  qed
  with assign_spec [OF R, of now d] obtain R' where R': "fake_ip_inv (snd (assignFakeIp now d s)) R'"
    and keep: "\<forall>x \<in> R. now < fr_expiresAt x \<longrightarrow> x \<in> R'" by force
  obtain x where x: "x \<in> R" "fr_address x = a" "fr_domain x = d'" "now < fr_expiresAt x"
    using reverse_spec(3) [OF R assms(7)] by blast
  with keep have "x \<in> R'" by blast
  from reverse_spec(2) [OF R' this x(4)] show ?thesis by (simp add: x(2,3))
qed

definition sampleFakeIp :: "fake_ip_service result" where
  "sampleFakeIp = newFakeIpService 0 ''10.9.0.0/30'' 16 600 False None"

definition sampleFakeIpState :: fake_ip_service where
  "sampleFakeIpState = \<lparr>fi_pool = \<lparr>fp_first = 0x0A090001, fp_capacity = 2, fp_cursor = 0\<rparr>,
     fi_store = \<lparr>fs_byDomain = [], fs_byAddress = [], fs_maxSize = 16, fs_persists = False, fs_file = None\<rparr>,
     fi_ttlMs = 600000\<rparr>"

lemmas ipv4_eval = numberToIpv4_def dotted_def show_nat.simps digit_char_def char_code_def

lemma sample_addresses:
  "pool_address (fi_pool sampleFakeIpState) 0 = ''10.9.0.1''" "pool_address (fi_pool sampleFakeIpState) (Suc 0) = ''10.9.0.2''"
  by (simp_all add: sampleFakeIpState_def pool_address_def ipv4_eval) code_simp+

lemma sampleFakeIp_eq: "sampleFakeIp = Inr sampleFakeIpState"
  by (simp add: sampleFakeIp_def sampleFakeIpState_def newFakeIpService_def newFakeIpPool_def js_Number_def
      ipv4ToNumber_def octet_def js_trim_def is_space_def char_code_def lower_char_def Let_def read_decimal_def
      all_digits_def is_digit_def read_nat_def digit_value_def scale_decimal_def newFakeIpStore_def jm_of_list_def)
    code_simp

lemma sample_pool_address:
  "pool_address \<lparr>fp_first = 0x0A090001, fp_capacity = n, fp_cursor = k\<rparr> 0 = ''10.9.0.1''"
  "pool_address \<lparr>fp_first = 0x0A090001, fp_capacity = n, fp_cursor = k\<rparr> (Suc 0) = ''10.9.0.2''"
  using sample_addresses by (simp_all add: sampleFakeIpState_def pool_address_def)

lemma sample_lower: "js_lower ''a'' = ''a''" "js_lower ''b'' = ''b''" "js_lower ''c'' = ''c''"
  by code_simp+

lemmas fake_ip_eval = fake_ip_step_def assignFakeIp_def reverseFakeIp_def getByDomain_def getByAddress_def fs_get_def
  fs_read_def fs_touch_def fs_delete_def hasAddress_def evictOldest_def jm_vals_def fs_set_def fs_persist_def Let_def
  eval_nat_numeral sample_pool_address sample_lower

lemma fake_ip_assign_witness:
  "\<exists>a s'. assignFakeIp 5 ''Example.ORG'' (fold fake_ip_step [Assign 1 ''a'', Reverse 2 ''10.9.0.1''] sampleFakeIpState) = (Inr a, s') \<and>
    pool_contains a (fi_pool sampleFakeIpState) = Inr True \<and>
    fst (reverseFakeIp 5 a s') = Some (js_lower ''Example.ORG'') \<and>
    (\<forall>d'. js_lower d' = js_lower ''Example.ORG'' \<longrightarrow> fst (assignFakeIp 5 d' s') = Inr a)"
  by (rule fake_ip_assign [OF sampleFakeIp_eq [unfolded sampleFakeIp_def] _ _ refl]) simp_all

lemma fake_ip_keeps_live_witness:
  "fst (reverseFakeIp 3 ''10.9.0.1'' (snd (assignFakeIp 3 ''b'' (fold fake_ip_step [Assign 1 ''a''] sampleFakeIpState)))) =
     Some ''a''"
  by (rule fake_ip_keeps_live [OF sampleFakeIp_eq [unfolded sampleFakeIp_def] _ _ refl, where i = 1])
    (simp_all add: sampleFakeIpState_def fake_ip_eval)

text \<open>The eviction of a full pool is not by least recent use, although
  \<^verbatim>\<open>docs/fake-ip.md\<close> says mappings are LRU-limited: the search for a free address touches every
  record, so the record evicted is the one at the pool's cursor. In a pool of two addresses,
  after \<^verbatim>\<open>a\<close> and \<^verbatim>\<open>b\<close> were assigned and \<^verbatim>\<open>a\<close> used again, assigning \<^verbatim>\<open>c\<close> evicts the
  recently used \<^verbatim>\<open>a\<close> and keeps \<^verbatim>\<open>b\<close>.\<close>

lemma fake_ip_eviction_not_lru:
  "(let s = fold fake_ip_step [Assign 1 ''a'', Assign 2 ''b'', Assign 3 ''a''] sampleFakeIpState;
        s' = snd (assignFakeIp 4 ''c'' s)
    in map fst (fs_byDomain (fi_store s)) = [''b'', ''a''] \<and>
       fst (reverseFakeIp 4 ''10.9.0.1'' s) = Some ''a'' \<and> fst (reverseFakeIp 4 ''10.9.0.1'' s') = Some ''c'' \<and>
       fst (reverseFakeIp 4 ''10.9.0.2'' s') = Some ''b'')"
  by (simp add: sampleFakeIpState_def fake_ip_eval)

end
