(* ===== verification/ConfigRead.thy ===== *)
theory ConfigRead
  imports JsMap
begin

text \<open>
  Reading untyped values: the first part of \<^verbatim>\<open>src/config/schema.ts\<close>. A value is what
  \<^verbatim>\<open>JSON.parse\<close> yields; an object is the list of its own properties in the order of
  \<^verbatim>\<open>Object.entries\<close>, no key twice. The source pushes messages on a shared array while it
  reads; here every reader returns its value together with the messages it pushes, and a reader
  that calls others puts theirs together in the order of the calls.
\<close>

section \<open>Values\<close>

datatype json = JNull | JBool bool | JNum jsnum | JStr string | JArr "json list" | JObj "(string \<times> json) list"

type_synonym jobj = "(string \<times> json) list"

type_synonym 'a checked = "'a \<times> string list"

definition or_else :: "'a option \<Rightarrow> 'a \<Rightarrow> 'a" where
  "or_else x d = (case x of Some y \<Rightarrow> y | None \<Rightarrow> d)"

definition at_key :: "string \<Rightarrow> string \<Rightarrow> string \<Rightarrow> string list" where
  "at_key path key text = [path @ ''.'' @ key @ text]"

definition at_item :: "string \<Rightarrow> nat \<Rightarrow> string" where
  "at_item path i = path @ ''['' @ show_nat i @ '']''"

definition blank_text :: "string \<Rightarrow> bool" where
  "blank_text s \<longleftrightarrow> js_trim s = []"

fun isRecord :: "json \<Rightarrow> bool" where
  "isRecord (JObj r) = True"
| "isRecord v = False"

definition isExtensionType :: "string \<Rightarrow> bool" where
  "isExtensionType s \<longleftrightarrow> prefix ''plugin.'' s \<and> length s > length ''plugin.''"

section \<open>Fields\<close>

definition readString :: "jobj \<Rightarrow> string \<Rightarrow> string \<Rightarrow> string option checked" where
  "readString r key path =
     (case jm_get r key of
        Some (JStr s) \<Rightarrow> if blank_text s then (None, at_key path key '' must be a non-empty string'') else (Some s, [])
      | _ \<Rightarrow> (None, at_key path key '' must be a non-empty string''))"

definition readOptionalString :: "jobj \<Rightarrow> string \<Rightarrow> string \<Rightarrow> string option checked" where
  "readOptionalString r key path =
     (case jm_get r key of
        None \<Rightarrow> (None, [])
      | Some (JStr s) \<Rightarrow>
          if blank_text s then (None, at_key path key '' must be a non-empty string when provided'') else (Some s, [])
      | Some _ \<Rightarrow> (None, at_key path key '' must be a non-empty string when provided''))"

definition integer_in :: "int \<Rightarrow> int \<Rightarrow> json \<Rightarrow> int option" where
  "integer_in lo hi v = (case v of JNum (JInt n) \<Rightarrow> if lo \<le> n \<and> n \<le> hi then Some n else None | _ \<Rightarrow> None)"

definition between :: "int \<Rightarrow> int \<Rightarrow> string" where
  "between lo hi = '' must be an integer between '' @ show_int lo @ '' and '' @ show_int hi"

definition readNumber :: "jobj \<Rightarrow> string \<Rightarrow> string \<Rightarrow> int \<Rightarrow> int \<Rightarrow> int option checked" where
  "readNumber r key path lo hi =
     (case jm_get r key of
        None \<Rightarrow> (None, at_key path key (between lo hi))
      | Some v \<Rightarrow> (case integer_in lo hi v of Some n \<Rightarrow> (Some n, []) | None \<Rightarrow> (None, at_key path key (between lo hi))))"

definition readOptionalNumber :: "jobj \<Rightarrow> string \<Rightarrow> string \<Rightarrow> int \<Rightarrow> int \<Rightarrow> int option checked" where
  "readOptionalNumber r key path lo hi =
     (case jm_get r key of
        None \<Rightarrow> (None, [])
      | Some v \<Rightarrow> (case integer_in lo hi v of Some n \<Rightarrow> (Some n, [])
                  | None \<Rightarrow> (None, at_key path key (between lo hi @ '' when provided''))))"

definition readOptionalBoolean :: "jobj \<Rightarrow> string \<Rightarrow> string \<Rightarrow> bool option checked" where
  "readOptionalBoolean r key path =
     (case jm_get r key of
        None \<Rightarrow> (None, [])
      | Some (JBool b) \<Rightarrow> (Some b, [])
      | Some _ \<Rightarrow> (None, at_key path key '' must be a boolean when provided''))"

section \<open>Arrays\<close>

text \<open>
  The loops over arrays. \<open>read_items\<close> keeps the items that are well-formed and reports the others by
  their index; \<open>parse_items\<close> is \<^verbatim>\<open>map\<close> with a parser followed by \<^verbatim>\<open>filter\<close>.
\<close>

fun read_items :: "(json \<Rightarrow> 'a option) \<Rightarrow> string \<Rightarrow> string \<Rightarrow> nat \<Rightarrow> json list \<Rightarrow> 'a list checked" where
  "read_items f path text i [] = ([], [])"
| "read_items f path text i (v # vs) =
     (let rest = read_items f path text (Suc i) vs in
      case f v of
        Some x \<Rightarrow> (x # fst rest, snd rest)
      | None \<Rightarrow> (fst rest, (at_item path i @ text) # snd rest))"

fun parse_items :: "(string \<Rightarrow> json \<Rightarrow> 'a option checked) \<Rightarrow> string \<Rightarrow> nat \<Rightarrow> json list \<Rightarrow> 'a list checked" where
  "parse_items p path i [] = ([], [])"
| "parse_items p path i (v # vs) =
     (let x = p (at_item path i) v; rest = parse_items p path (Suc i) vs in
      ((case fst x of Some y \<Rightarrow> y # fst rest | None \<Rightarrow> fst rest), snd x @ snd rest))"

definition parse_optional_items ::
  "(string \<Rightarrow> json \<Rightarrow> 'a option checked) \<Rightarrow> string \<Rightarrow> json option \<Rightarrow> 'a list checked" where
  "parse_optional_items p path v =
     (case v of
        None \<Rightarrow> ([], [])
      | Some (JArr vs) \<Rightarrow> parse_items p path 0 vs
      | Some _ \<Rightarrow> ([], [path @ '' must be an array when provided'']))"

definition text_item :: "json \<Rightarrow> string option" where
  "text_item v = (case v of JStr s \<Rightarrow> if blank_text s then None else Some (js_trim s) | _ \<Rightarrow> None)"

definition readStringArray :: "jobj \<Rightarrow> string \<Rightarrow> string \<Rightarrow> string list option checked" where
  "readStringArray r key path =
     (case jm_get r key of
        None \<Rightarrow> (None, [])
      | Some (JArr vs) \<Rightarrow>
          (let items = read_items text_item (path @ ''.'' @ key) '' must be a non-empty string'' 0 vs
           in (Some (fst items), snd items))
      | Some _ \<Rightarrow> (None, at_key path key '' must be an array of non-empty strings''))"

definition readPortArray :: "jobj \<Rightarrow> string \<Rightarrow> string \<Rightarrow> int list option checked" where
  "readPortArray r key path =
     (case jm_get r key of
        None \<Rightarrow> (None, [])
      | Some v \<Rightarrow>
          (let values = (case v of JArr vs \<Rightarrow> vs | _ \<Rightarrow> [v]);
               items = read_items (integer_in 1 65535) (path @ ''.'' @ key) (between 1 65535) 0 values
           in (Some (fst items), snd items)))"

definition readByteArray :: "jobj \<Rightarrow> string \<Rightarrow> string \<Rightarrow> int list option checked" where
  "readByteArray r key path =
     (case jm_get r key of
        None \<Rightarrow> (None, [])
      | Some (JArr vs) \<Rightarrow>
          (let items = read_items (integer_in 0 255) (path @ ''.'' @ key) (between 0 255) 0 vs
           in (Some (fst items), snd items))
      | Some _ \<Rightarrow> (None, at_key path key '' must be an array of bytes''))"

section \<open>Tables\<close>

text \<open>
  \<^verbatim>\<open>output[key] = value\<close> on a plain object; an assignment to \<^verbatim>\<open>__proto__\<close> makes no property (of
  an array it would set the prototype, which is not modelled).
\<close>

definition put_own :: "string \<Rightarrow> 'v \<Rightarrow> (string, 'v) jsmap \<Rightarrow> (string, 'v) jsmap" where
  "put_own k v m = (if k = ''__proto__'' then m else jm_set k v m)"

fun read_string_entries :: "string \<Rightarrow> jobj \<Rightarrow> (string, string) jsmap \<Rightarrow> (string, string) jsmap checked" where
  "read_string_entries path [] out = (out, [])"
| "read_string_entries path ((k, v) # es) out =
     (case text_item v of
        Some s \<Rightarrow> read_string_entries path es (put_own (js_lower k) s out)
      | None \<Rightarrow> (let rest = read_string_entries path es out in
                 (fst rest, (path @ ''.'' @ k @ '' must be a non-empty string'') # snd rest)))"

definition readStringRecord :: "jobj \<Rightarrow> string \<Rightarrow> string \<Rightarrow> (string, string) jsmap option checked" where
  "readStringRecord r key path =
     (case jm_get r key of
        None \<Rightarrow> (None, [])
      | Some (JObj es) \<Rightarrow> (let t = read_string_entries (path @ ''.'' @ key) es [] in (Some (fst t), snd t))
      | Some _ \<Rightarrow> (None, at_key path key '' must be an object of string values''))"

fun read_array_entries :: "string \<Rightarrow> jobj \<Rightarrow> (string, string list) jsmap \<Rightarrow> (string, string list) jsmap checked" where
  "read_array_entries path [] out = (out, [])"
| "read_array_entries path ((k, v) # es) out =
     (case v of
        JArr vs \<Rightarrow>
          (let items = read_items text_item (path @ ''.'' @ k) '' must be a non-empty string'' 0 vs;
               rest = read_array_entries path es (put_own (js_lower k) (fst items) out)
           in (fst rest, snd items @ snd rest))
      | _ \<Rightarrow> (let rest = read_array_entries path es out in
              (fst rest, (path @ ''.'' @ k @ '' must be an array of strings'') # snd rest)))"

definition readStringArrayRecord :: "jobj \<Rightarrow> string \<Rightarrow> string \<Rightarrow> (string, string list) jsmap option checked" where
  "readStringArrayRecord r key path =
     (case jm_get r key of
        None \<Rightarrow> (None, [])
      | Some (JObj es) \<Rightarrow> (let t = read_array_entries (path @ ''.'' @ key) es [] in (Some (fst t), snd t))
      | Some _ \<Rightarrow> (None, at_key path key '' must be an object of string arrays''))"

definition readOptionsRecord :: "jobj \<Rightarrow> string \<Rightarrow> string \<Rightarrow> jobj checked" where
  "readOptionsRecord r key path =
     (case jm_get r key of
        None \<Rightarrow> ([], [])
      | Some (JObj es) \<Rightarrow> (es, [])
      | Some _ \<Rightarrow> ([], at_key path key '' must be an object when provided''))"

text \<open>
  The shape most sections share: a missing section is the default, a section that is no object is
  the default with a message, and otherwise its fields are read.
\<close>

definition read_section :: "jobj \<Rightarrow> string \<Rightarrow> string \<Rightarrow> 'a \<Rightarrow> (jobj \<Rightarrow> 'a checked) \<Rightarrow> 'a checked" where
  "read_section r key message dflt fields =
     (case jm_get r key of
        None \<Rightarrow> (dflt, [])
      | Some (JObj s) \<Rightarrow> fields s
      | Some _ \<Rightarrow> (dflt, [message]))"

text \<open>\<^verbatim>\<open>read(...) ?? fallback\<close>.\<close>

definition numberOr :: "jobj \<Rightarrow> string \<Rightarrow> string \<Rightarrow> int \<Rightarrow> int \<Rightarrow> int \<Rightarrow> int checked" where
  "numberOr r key path lo hi d = (let x = readOptionalNumber r key path lo hi in (or_else (fst x) d, snd x))"

definition booleanOr :: "jobj \<Rightarrow> string \<Rightarrow> string \<Rightarrow> bool \<Rightarrow> bool checked" where
  "booleanOr r key path d = (let x = readOptionalBoolean r key path in (or_else (fst x) d, snd x))"

definition stringOr :: "jobj \<Rightarrow> string \<Rightarrow> string \<Rightarrow> string \<Rightarrow> string checked" where
  "stringOr r key path d = (let x = readOptionalString r key path in (or_else (fst x) d, snd x))"

section \<open>What was read\<close>

lemma or_else_simps [simp]:
  "or_else (Some x) d = x"
  "or_else None d = d"
  by (simp_all add: or_else_def)

lemma integer_in_Some: "integer_in lo hi v = Some n \<longleftrightarrow> v = JNum (JInt n) \<and> lo \<le> n \<and> n \<le> hi"
  by (auto simp: integer_in_def split: json.splits jsnum.splits)

lemma readNumber_range: "fst (readNumber r k p lo hi) = Some n \<Longrightarrow> lo \<le> n \<and> n \<le> hi"
  by (auto simp: readNumber_def integer_in_Some split: option.splits)

lemma readOptionalNumber_range: "fst (readOptionalNumber r k p lo hi) = Some n \<Longrightarrow> lo \<le> n \<and> n \<le> hi"
  by (auto simp: readOptionalNumber_def integer_in_Some split: option.splits)

lemma numberOr_range: "lo \<le> d \<Longrightarrow> d \<le> hi \<Longrightarrow> lo \<le> fst (numberOr r k p lo hi d) \<and> fst (numberOr r k p lo hi d) \<le> hi"
  by (cases "fst (readOptionalNumber r k p lo hi)") (auto simp: numberOr_def Let_def dest: readOptionalNumber_range)

lemma readString_Some: "fst (readString r k p) = Some s \<Longrightarrow> \<not> blank_text s \<and> snd (readString r k p) = []"
  by (auto simp: readString_def split: option.splits json.splits if_splits)

lemma readString_clean: "snd (readString r k p) = [] \<Longrightarrow> \<exists>s. fst (readString r k p) = Some s \<and> \<not> blank_text s"
  by (auto simp: readString_def at_key_def split: option.splits json.splits if_splits)

lemma readNumber_clean: "snd (readNumber r k p lo hi) = [] \<Longrightarrow> \<exists>n. fst (readNumber r k p lo hi) = Some n \<and> lo \<le> n \<and> n \<le> hi"
proof -
  assume "snd (readNumber r k p lo hi) = []"
  then obtain n where "fst (readNumber r k p lo hi) = Some n" by (auto simp: readNumber_def at_key_def split: option.splits)
  then show ?thesis using readNumber_range by blast
qed

lemma read_items_sound: "x \<in> set (fst (read_items f p t i vs)) \<Longrightarrow> \<exists>v \<in> set vs. f v = Some x"
  by (induction vs arbitrary: i) (auto simp: Let_def split: option.splits if_splits)

lemma parse_items_sound: "x \<in> set (fst (parse_items p path i vs)) \<Longrightarrow> \<exists>v \<in> set vs. \<exists>j. fst (p (at_item path j) v) = Some x \<and>
    (snd (parse_items p path i vs) = [] \<longrightarrow> snd (p (at_item path j) v) = [])"
  by (induction vs arbitrary: i) (fastforce simp: Let_def split: option.splits if_splits)+

lemma parse_optional_items_sound: "x \<in> set (fst (parse_optional_items p path v)) \<Longrightarrow> \<exists>w j. fst (p (at_item path j) w) = Some x \<and>
    (snd (parse_optional_items p path v) = [] \<longrightarrow> snd (p (at_item path j) w) = [])"
  by (auto simp: parse_optional_items_def split: option.splits json.splits dest!: parse_items_sound)

end
