(* ===== verification/ConfigSections.thy ===== *)
theory ConfigSections
  imports ConfigRead DnsCache
begin

text \<open>
  The sections of the configuration that stand for themselves (\<^verbatim>\<open>parseLog\<close> to \<^verbatim>\<open>parseTun\<close> in
  \<^verbatim>\<open>src/config/schema.ts\<close>) with their types (\<^verbatim>\<open>src/config/types.ts\<close>) and defaults. The DNS
  section yields the configuration the DNS model runs on.
\<close>

section \<open>Types and defaults\<close>

datatype log_level = LogDebug | LogInfo | LogWarn | LogError | LogSilent

record limit_config =
  lim_connectTimeoutMs :: int
  lim_handshakeTimeoutMs :: int
  lim_idleTimeoutMs :: int
  lim_shutdownTimeoutMs :: int
  lim_maxHeaderBytes :: int
  lim_maxConnections :: int
  lim_leakReportIntervalMs :: int
  lim_maxUdpSessions :: int
  lim_udpIdleTimeoutMs :: int

record geo_config =
  geo_geoip :: "(string, string list) jsmap"
  geo_geosite :: "(string, string list) jsmap"

record plugin_module =
  plm_tag :: string
  plm_path :: string
  plm_enabled :: bool
  plm_manifest :: "string option"

record wasm_extension =
  wex_tag :: string
  wex_path :: string
  wex_enabled :: bool

datatype isolation_mode = InProcess | WorkerThread | ChildProcess

record plugin_isolation =
  pli_mode :: isolation_mode
  pli_timeoutMs :: int
  pli_memoryLimitMb :: int
  pli_stdoutLimitBytes :: int

record plugin_config =
  plg_modules :: "plugin_module list"
  plg_wasm :: "wasm_extension list"
  plg_isolation :: plugin_isolation

record worker_config =
  wrk_enabled :: bool
  wrk_size :: int
  wrk_taskTimeoutMs :: int

record quic_config =
  quic_enabled :: bool
  quic_handshakeTimeoutMs :: int

record pool_config =
  cpo_enabled :: bool
  cpo_maxIdlePerEndpoint :: int
  cpo_idleTimeoutMs :: int

record hot_reload_config =
  hrl_enabled :: bool
  hrl_debounceMs :: int

datatype reload_mode = LegacyReload | TransactionalExperimental

datatype reload_target = TargetMetrics | TargetDashboard | TargetRouter | TargetPolicy | TargetDns | TargetOutbound

record reload_config =
  rld_mode :: reload_mode
  rld_enabledComponents :: "reload_target list"
  rld_timeoutMs :: int
  rld_shadowBeforeCommit :: bool
  rld_rollbackOnFailure :: bool

record probing_config =
  prb_enabled :: bool
  prb_intervalMs :: int
  prb_timeoutMs :: int
  prb_maxConcurrency :: int
  prb_budgetPerInterval :: int
  prb_backoffBaseMs :: int
  prb_backoffMaxMs :: int

record metrics_config =
  mtr_enabled :: bool
  mtr_listen :: string
  mtr_port :: int
  mtr_path :: string

record dashboard_config =
  dsh_enabled :: bool
  dsh_listen :: string
  dsh_port :: int
  dsh_token :: string
  dsh_rateLimitPerMinute :: int
  dsh_cors :: bool

record tun_config =
  tun_enabled :: bool
  tun_experimental :: bool
  tun_name :: string
  tun_mtu :: int

definition DEFAULT_LOG :: log_level where
  "DEFAULT_LOG = LogInfo"

definition DEFAULT_LIMITS :: limit_config where
  "DEFAULT_LIMITS = \<lparr>lim_connectTimeoutMs = 10000, lim_handshakeTimeoutMs = 10000, lim_idleTimeoutMs = 120000,
     lim_shutdownTimeoutMs = 5000, lim_maxHeaderBytes = 64 * 1024, lim_maxConnections = 10000,
     lim_leakReportIntervalMs = 60000, lim_maxUdpSessions = 4096, lim_udpIdleTimeoutMs = 60000\<rparr>"

definition DEFAULT_FAKE_IP :: fake_ip_config where
  "DEFAULT_FAKE_IP = \<lparr>fic_enabled = False, fic_range = Some ''198.18.0.0/15'', fic_cidr = None, fic_size = Some 65536,
     fic_ttlSeconds = Some 600, fic_persistPath = None\<rparr>"

definition DEFAULT_DOH :: doh_config where
  "DEFAULT_DOH = \<lparr>doh_enabled = False, doh_endpoints = [], doh_timeoutMs = 1000\<rparr>"

definition DEFAULT_DNS :: dns_config where
  "DEFAULT_DNS = \<lparr>dc_strategy = SystemStrategy, dc_cacheTtlMs = 60000, dc_cacheMaxEntries = Some 4096,
     dc_negativeTtlMs = Some 5000, dc_hosts = [], dc_udpServers = [], dc_rules = [], dc_fallbackHosts = [],
     dc_fakeIp = DEFAULT_FAKE_IP, dc_doh = DEFAULT_DOH\<rparr>"

definition DEFAULT_GEO :: geo_config where
  "DEFAULT_GEO = \<lparr>geo_geoip = [], geo_geosite = []\<rparr>"

definition DEFAULT_ISOLATION :: plugin_isolation where
  "DEFAULT_ISOLATION = \<lparr>pli_mode = InProcess, pli_timeoutMs = 3000, pli_memoryLimitMb = 64, pli_stdoutLimitBytes = 64 * 1024\<rparr>"

definition DEFAULT_PLUGINS :: plugin_config where
  "DEFAULT_PLUGINS = \<lparr>plg_modules = [], plg_wasm = [], plg_isolation = DEFAULT_ISOLATION\<rparr>"

definition DEFAULT_WORKERS :: worker_config where
  "DEFAULT_WORKERS = \<lparr>wrk_enabled = False, wrk_size = 1, wrk_taskTimeoutMs = 30000\<rparr>"

definition DEFAULT_TRANSPORT :: quic_config where
  "DEFAULT_TRANSPORT = \<lparr>quic_enabled = False, quic_handshakeTimeoutMs = 10000\<rparr>"

definition DEFAULT_CONNECTION_POOL :: pool_config where
  "DEFAULT_CONNECTION_POOL = \<lparr>cpo_enabled = False, cpo_maxIdlePerEndpoint = 8, cpo_idleTimeoutMs = 30000\<rparr>"

definition DEFAULT_HOT_RELOAD :: hot_reload_config where
  "DEFAULT_HOT_RELOAD = \<lparr>hrl_enabled = False, hrl_debounceMs = 250\<rparr>"

definition DEFAULT_RELOAD :: reload_config where
  "DEFAULT_RELOAD = \<lparr>rld_mode = LegacyReload, rld_enabledComponents = [], rld_timeoutMs = 5000,
     rld_shadowBeforeCommit = True, rld_rollbackOnFailure = True\<rparr>"

definition DEFAULT_PROBING :: probing_config where
  "DEFAULT_PROBING = \<lparr>prb_enabled = False, prb_intervalMs = 30000, prb_timeoutMs = 1000, prb_maxConcurrency = 4,
     prb_budgetPerInterval = 16, prb_backoffBaseMs = 1000, prb_backoffMaxMs = 60000\<rparr>"

definition DEFAULT_OBSERVABILITY :: metrics_config where
  "DEFAULT_OBSERVABILITY = \<lparr>mtr_enabled = False, mtr_listen = ''127.0.0.1'', mtr_port = 19090, mtr_path = ''/metrics''\<rparr>"

definition DEFAULT_DASHBOARD :: dashboard_config where
  "DEFAULT_DASHBOARD = \<lparr>dsh_enabled = False, dsh_listen = ''127.0.0.1'', dsh_port = 19091, dsh_token = ''change-me'',
     dsh_rateLimitPerMinute = 120, dsh_cors = False\<rparr>"

definition DEFAULT_TUN :: tun_config where
  "DEFAULT_TUN = \<lparr>tun_enabled = False, tun_experimental = True, tun_name = ''sepigs0'', tun_mtu = 1500\<rparr>"

section \<open>Logging and limits\<close>

definition LOG_LEVELS :: "(string \<times> log_level) list" where
  "LOG_LEVELS = [(''debug'', LogDebug), (''info'', LogInfo), (''warn'', LogWarn), (''error'', LogError), (''silent'', LogSilent)]"

text \<open>A value that has to be one of a few names.\<close>

definition choice :: "(string \<times> 'a) list \<Rightarrow> json \<Rightarrow> 'a option" where
  "choice names v = (case v of JStr s \<Rightarrow> map_of names s | _ \<Rightarrow> None)"

definition parseLog :: "jobj \<Rightarrow> log_level checked" where
  "parseLog root = read_section root ''log'' ''log must be an object'' DEFAULT_LOG (\<lambda>r.
     (case jm_get r ''level'' of
        None \<Rightarrow> (DEFAULT_LOG, [])
      | Some v \<Rightarrow> (case choice LOG_LEVELS v of Some l \<Rightarrow> (l, [])
                  | None \<Rightarrow> (DEFAULT_LOG, [''log.level must be one of debug, info, warn, error, silent'']))))"

definition parseLimits :: "jobj \<Rightarrow> limit_config checked" where
  "parseLimits root = read_section root ''limits'' ''limits must be an object'' DEFAULT_LIMITS (\<lambda>r.
     (let connectTimeoutMs = numberOr r ''connectTimeoutMs'' ''limits'' 1 300000 (lim_connectTimeoutMs DEFAULT_LIMITS);
          handshakeTimeoutMs = numberOr r ''handshakeTimeoutMs'' ''limits'' 1 300000 (lim_handshakeTimeoutMs DEFAULT_LIMITS);
          idleTimeoutMs = numberOr r ''idleTimeoutMs'' ''limits'' 1 3600000 (lim_idleTimeoutMs DEFAULT_LIMITS);
          shutdownTimeoutMs = numberOr r ''shutdownTimeoutMs'' ''limits'' 1 300000 (lim_shutdownTimeoutMs DEFAULT_LIMITS);
          maxHeaderBytes = numberOr r ''maxHeaderBytes'' ''limits'' 1024 (1024 * 1024) (lim_maxHeaderBytes DEFAULT_LIMITS);
          maxConnections = numberOr r ''maxConnections'' ''limits'' 1 1000000 (lim_maxConnections DEFAULT_LIMITS);
          leakReportIntervalMs = numberOr r ''leakReportIntervalMs'' ''limits'' 1000 3600000 (lim_leakReportIntervalMs DEFAULT_LIMITS);
          maxUdpSessions = numberOr r ''maxUdpSessions'' ''limits'' 1 1000000 (lim_maxUdpSessions DEFAULT_LIMITS);
          udpIdleTimeoutMs = numberOr r ''udpIdleTimeoutMs'' ''limits'' 100 3600000 (lim_udpIdleTimeoutMs DEFAULT_LIMITS)
      in (\<lparr>lim_connectTimeoutMs = fst connectTimeoutMs, lim_handshakeTimeoutMs = fst handshakeTimeoutMs,
           lim_idleTimeoutMs = fst idleTimeoutMs, lim_shutdownTimeoutMs = fst shutdownTimeoutMs,
           lim_maxHeaderBytes = fst maxHeaderBytes, lim_maxConnections = fst maxConnections,
           lim_leakReportIntervalMs = fst leakReportIntervalMs, lim_maxUdpSessions = fst maxUdpSessions,
           lim_udpIdleTimeoutMs = fst udpIdleTimeoutMs\<rparr>,
          snd connectTimeoutMs @ snd handshakeTimeoutMs @ snd idleTimeoutMs @ snd shutdownTimeoutMs @ snd maxHeaderBytes
            @ snd maxConnections @ snd leakReportIntervalMs @ snd maxUdpSessions @ snd udpIdleTimeoutMs)))"

section \<open>DNS\<close>

definition parseDnsUdpServer :: "string \<Rightarrow> json \<Rightarrow> dns_server option checked" where
  "parseDnsUdpServer path value =
     (case value of
        JObj r \<Rightarrow>
          (let tag = readString r ''tag'' path; address = readString r ''address'' path;
               port = numberOr r ''port'' path 1 65535 53; timeoutMs = numberOr r ''timeoutMs'' path 1 30000 1000
           in (case (fst tag, fst address) of
                 (Some t, Some a) \<Rightarrow> Some \<lparr>ds_tag = t, ds_address = a, ds_port = nat (fst port), ds_timeoutMs = nat (fst timeoutMs)\<rparr>
               | _ \<Rightarrow> None,
               snd tag @ snd address @ snd port @ snd timeoutMs))
      | _ \<Rightarrow> (None, [path @ '' must be an object'']))"

definition parseDnsRule :: "string \<Rightarrow> json \<Rightarrow> dns_rule option checked" where
  "parseDnsRule path value =
     (case value of
        JObj r \<Rightarrow>
          (let domainSuffix = readStringArray r ''domainSuffix'' path; serverTag = readString r ''serverTag'' path
           in (case (fst domainSuffix, fst serverTag) of
                 (Some d, Some t) \<Rightarrow> Some \<lparr>dru_domainSuffix = d, dru_serverTag = t\<rparr> | _ \<Rightarrow> None,
               snd domainSuffix @ snd serverTag))
      | _ \<Rightarrow> (None, [path @ '' must be an object'']))"

text \<open>The \<^verbatim>\<open>cidr\<close> field is read only when \<^verbatim>\<open>range\<close> gave nothing.\<close>

definition parseFakeIp :: "jobj \<Rightarrow> fake_ip_config checked" where
  "parseFakeIp rawDns = read_section rawDns ''fakeIp'' ''dns.fakeIp must be an object when provided'' DEFAULT_FAKE_IP (\<lambda>r.
     (let enabled = booleanOr r ''enabled'' ''dns.fakeIp'' (fic_enabled DEFAULT_FAKE_IP);
          range1 = readOptionalString r ''range'' ''dns.fakeIp'';
          range2 = (if fst range1 = None then stringOr r ''cidr'' ''dns.fakeIp'' ''198.18.0.0/15'' else ('''', []));
          poolSize = numberOr r ''size'' ''dns.fakeIp'' 1 131070 65536;
          ttlSeconds = numberOr r ''ttlSeconds'' ''dns.fakeIp'' 1 86400 600;
          persistPath = readOptionalString r ''persistPath'' ''dns.fakeIp''
      in (\<lparr>fic_enabled = fst enabled, fic_range = Some (or_else (fst range1) (fst range2)), fic_cidr = None,
           fic_size = Some (nat (fst poolSize)), fic_ttlSeconds = Some (fst ttlSeconds), fic_persistPath = fst persistPath\<rparr>,
          snd enabled @ snd range1 @ snd range2 @ snd poolSize @ snd ttlSeconds @ snd persistPath)))"

definition parseDoh :: "jobj \<Rightarrow> doh_config checked" where
  "parseDoh rawDns = read_section rawDns ''doh'' ''dns.doh must be an object when provided'' DEFAULT_DOH (\<lambda>r.
     (let enabled = booleanOr r ''enabled'' ''dns.doh'' (doh_enabled DEFAULT_DOH);
          endpoints = readStringArray r ''endpoints'' ''dns.doh'';
          timeoutMs = numberOr r ''timeoutMs'' ''dns.doh'' 1 30000 (doh_timeoutMs DEFAULT_DOH)
      in (\<lparr>doh_enabled = fst enabled, doh_endpoints = or_else (fst endpoints) (doh_endpoints DEFAULT_DOH),
           doh_timeoutMs = fst timeoutMs\<rparr>,
          snd enabled @ snd endpoints @ snd timeoutMs)))"

definition DNS_STRATEGIES :: "(string \<times> dns_strategy) list" where
  "DNS_STRATEGIES = [(''system'', SystemStrategy), (''prefer-ipv4'', PreferIpv4), (''prefer-ipv6'', PreferIpv6)]"

definition read_strategy :: "jobj \<Rightarrow> dns_strategy checked" where
  "read_strategy r =
     (case jm_get r ''strategy'' of
        None \<Rightarrow> (SystemStrategy, [])
      | Some v \<Rightarrow> (case choice DNS_STRATEGIES v of Some s \<Rightarrow> (s, [])
                  | None \<Rightarrow> (SystemStrategy, [''dns.strategy must be one of system, prefer-ipv4, prefer-ipv6''])))"

definition parseDns :: "jobj \<Rightarrow> dns_config checked" where
  "parseDns root = read_section root ''dns'' ''dns must be an object'' DEFAULT_DNS (\<lambda>r.
     (let strategy = read_strategy r;
          udpServers = parse_optional_items parseDnsUdpServer ''dns.udpServers'' (jm_get r ''udpServers'');
          rules = parse_optional_items parseDnsRule ''dns.rules'' (jm_get r ''rules'');
          cacheTtlMs = numberOr r ''cacheTtlMs'' ''dns'' 1 3600000 (dc_cacheTtlMs DEFAULT_DNS);
          cacheMaxEntries = numberOr r ''cacheMaxEntries'' ''dns'' 1 1000000 4096;
          negativeTtlMs = numberOr r ''negativeTtlMs'' ''dns'' 0 300000 5000;
          hosts = readStringRecord r ''hosts'' ''dns'';
          fallbackHosts = readStringRecord r ''fallbackHosts'' ''dns'';
          fakeIp = parseFakeIp r; doh = parseDoh r
      in (\<lparr>dc_strategy = fst strategy, dc_cacheTtlMs = fst cacheTtlMs, dc_cacheMaxEntries = Some (nat (fst cacheMaxEntries)),
           dc_negativeTtlMs = Some (fst negativeTtlMs), dc_hosts = or_else (fst hosts) [], dc_udpServers = fst udpServers,
           dc_rules = fst rules, dc_fallbackHosts = or_else (fst fallbackHosts) [], dc_fakeIp = fst fakeIp, dc_doh = fst doh\<rparr>,
          snd strategy @ snd udpServers @ snd rules @ snd cacheTtlMs @ snd cacheMaxEntries @ snd negativeTtlMs @ snd hosts
            @ snd fallbackHosts @ snd fakeIp @ snd doh)))"

section \<open>Geo tables and plugins\<close>

definition parseGeo :: "jobj \<Rightarrow> geo_config checked" where
  "parseGeo root = read_section root ''geo'' ''geo must be an object'' DEFAULT_GEO (\<lambda>r.
     (let geoip = readStringArrayRecord r ''geoip'' ''geo''; geosite = readStringArrayRecord r ''geosite'' ''geo''
      in (\<lparr>geo_geoip = or_else (fst geoip) [], geo_geosite = or_else (fst geosite) []\<rparr>, snd geoip @ snd geosite)))"

definition parsePluginModule :: "string \<Rightarrow> json \<Rightarrow> plugin_module option checked" where
  "parsePluginModule path value =
     (case value of
        JObj r \<Rightarrow>
          (let tag = readString r ''tag'' path; modulePath = readString r ''path'' path;
               manifest = readOptionalString r ''manifest'' path; enabled = booleanOr r ''enabled'' path True
           in (case (fst tag, fst modulePath) of
                 (Some t, Some p) \<Rightarrow> Some \<lparr>plm_tag = t, plm_path = p, plm_enabled = fst enabled, plm_manifest = fst manifest\<rparr>
               | _ \<Rightarrow> None,
               snd tag @ snd modulePath @ snd manifest @ snd enabled))
      | _ \<Rightarrow> (None, [path @ '' must be an object'']))"

definition parseWasmExtension :: "string \<Rightarrow> json \<Rightarrow> wasm_extension option checked" where
  "parseWasmExtension path value =
     (case value of
        JObj r \<Rightarrow>
          (let tag = readString r ''tag'' path; wasmPath = readString r ''path'' path; enabled = booleanOr r ''enabled'' path True
           in (case (fst tag, fst wasmPath) of
                 (Some t, Some p) \<Rightarrow> Some \<lparr>wex_tag = t, wex_path = p, wex_enabled = fst enabled\<rparr> | _ \<Rightarrow> None,
               snd tag @ snd wasmPath @ snd enabled))
      | _ \<Rightarrow> (None, [path @ '' must be an object'']))"

definition PLUGIN_ISOLATION_MODES :: "(string \<times> isolation_mode) list" where
  "PLUGIN_ISOLATION_MODES = [(''in-process'', InProcess), (''worker-thread'', WorkerThread), (''child-process'', ChildProcess)]"

definition read_isolation_mode :: "jobj \<Rightarrow> isolation_mode checked" where
  "read_isolation_mode r =
     (case jm_get r ''mode'' of
        None \<Rightarrow> (pli_mode DEFAULT_ISOLATION, [])
      | Some v \<Rightarrow> (case choice PLUGIN_ISOLATION_MODES v of Some m \<Rightarrow> (m, [])
                  | None \<Rightarrow> (pli_mode DEFAULT_ISOLATION, [''plugins.isolation.mode must be '' @ quoted ''in-process'' @ '', ''
                       @ quoted ''worker-thread'' @ '', or '' @ quoted ''child-process''])))"

definition parsePluginIsolation :: "jobj \<Rightarrow> plugin_isolation checked" where
  "parsePluginIsolation rawPlugins =
     read_section rawPlugins ''isolation'' ''plugins.isolation must be an object when provided'' DEFAULT_ISOLATION (\<lambda>r.
     (let mode = read_isolation_mode r;
          timeoutMs = numberOr r ''timeoutMs'' ''plugins.isolation'' 1 300000 (pli_timeoutMs DEFAULT_ISOLATION);
          memoryLimitMb = numberOr r ''memoryLimitMb'' ''plugins.isolation'' 16 4096 (pli_memoryLimitMb DEFAULT_ISOLATION);
          stdoutLimitBytes = numberOr r ''stdoutLimitBytes'' ''plugins.isolation'' 1024 (10 * 1024 * 1024)
            (pli_stdoutLimitBytes DEFAULT_ISOLATION)
      in (\<lparr>pli_mode = fst mode, pli_timeoutMs = fst timeoutMs, pli_memoryLimitMb = fst memoryLimitMb,
           pli_stdoutLimitBytes = fst stdoutLimitBytes\<rparr>,
          snd mode @ snd timeoutMs @ snd memoryLimitMb @ snd stdoutLimitBytes)))"

definition parsePlugins :: "jobj \<Rightarrow> plugin_config checked" where
  "parsePlugins root = read_section root ''plugins'' ''plugins must be an object'' DEFAULT_PLUGINS (\<lambda>r.
     (let modules = parse_optional_items parsePluginModule ''plugins.modules'' (jm_get r ''modules'');
          wasm = parse_optional_items parseWasmExtension ''plugins.wasm'' (jm_get r ''wasm'');
          isolation = parsePluginIsolation r
      in (\<lparr>plg_modules = fst modules, plg_wasm = fst wasm, plg_isolation = fst isolation\<rparr>,
          snd modules @ snd wasm @ snd isolation)))"

section \<open>Workers, transport, pool\<close>

definition parseWorkers :: "jobj \<Rightarrow> worker_config checked" where
  "parseWorkers root = read_section root ''workers'' ''workers must be an object'' DEFAULT_WORKERS (\<lambda>r.
     (let enabled = booleanOr r ''enabled'' ''workers'' (wrk_enabled DEFAULT_WORKERS);
          poolSize = numberOr r ''size'' ''workers'' 1 128 (wrk_size DEFAULT_WORKERS);
          taskTimeoutMs = numberOr r ''taskTimeoutMs'' ''workers'' 1 3600000 (wrk_taskTimeoutMs DEFAULT_WORKERS)
      in (\<lparr>wrk_enabled = fst enabled, wrk_size = fst poolSize, wrk_taskTimeoutMs = fst taskTimeoutMs\<rparr>,
          snd enabled @ snd poolSize @ snd taskTimeoutMs)))"

definition parseTransport :: "jobj \<Rightarrow> quic_config checked" where
  "parseTransport root = read_section root ''transport'' ''transport must be an object'' DEFAULT_TRANSPORT (\<lambda>t.
     read_section t ''quic'' ''transport.quic must be an object when provided'' DEFAULT_TRANSPORT (\<lambda>r.
     (let enabled = booleanOr r ''enabled'' ''transport.quic'' (quic_enabled DEFAULT_TRANSPORT);
          handshakeTimeoutMs = numberOr r ''handshakeTimeoutMs'' ''transport.quic'' 1 300000
            (quic_handshakeTimeoutMs DEFAULT_TRANSPORT)
      in (\<lparr>quic_enabled = fst enabled, quic_handshakeTimeoutMs = fst handshakeTimeoutMs\<rparr>,
          snd enabled @ snd handshakeTimeoutMs))))"

definition parseConnectionPool :: "jobj \<Rightarrow> pool_config checked" where
  "parseConnectionPool root =
     read_section root ''connectionPool'' ''connectionPool must be an object'' DEFAULT_CONNECTION_POOL (\<lambda>r.
     (let enabled = booleanOr r ''enabled'' ''connectionPool'' (cpo_enabled DEFAULT_CONNECTION_POOL);
          maxIdlePerEndpoint = numberOr r ''maxIdlePerEndpoint'' ''connectionPool'' 0 10000
            (cpo_maxIdlePerEndpoint DEFAULT_CONNECTION_POOL);
          idleTimeoutMs = numberOr r ''idleTimeoutMs'' ''connectionPool'' 1 3600000
            (cpo_idleTimeoutMs DEFAULT_CONNECTION_POOL)
      in (\<lparr>cpo_enabled = fst enabled, cpo_maxIdlePerEndpoint = fst maxIdlePerEndpoint, cpo_idleTimeoutMs = fst idleTimeoutMs\<rparr>,
          snd enabled @ snd maxIdlePerEndpoint @ snd idleTimeoutMs)))"

section \<open>Reloading\<close>

definition parseHotReload :: "jobj \<Rightarrow> hot_reload_config checked" where
  "parseHotReload root = read_section root ''hotReload'' ''hotReload must be an object'' DEFAULT_HOT_RELOAD (\<lambda>r.
     (let enabled = booleanOr r ''enabled'' ''hotReload'' (hrl_enabled DEFAULT_HOT_RELOAD);
          debounceMs = numberOr r ''debounceMs'' ''hotReload'' 10 60000 (hrl_debounceMs DEFAULT_HOT_RELOAD)
      in (\<lparr>hrl_enabled = fst enabled, hrl_debounceMs = fst debounceMs\<rparr>, snd enabled @ snd debounceMs)))"

definition RELOAD_TARGETS :: "(string \<times> reload_target) list" where
  "RELOAD_TARGETS = [(''metrics'', TargetMetrics), (''dashboard'', TargetDashboard), (''router'', TargetRouter),
     (''policy'', TargetPolicy), (''dns'', TargetDns), (''outbound'', TargetOutbound)]"

fun read_targets :: "reload_target list \<Rightarrow> string list \<Rightarrow> reload_target list checked" where
  "read_targets seen [] = ([], [])"
| "read_targets seen (c # cs) =
     (case map_of RELOAD_TARGETS c of
        None \<Rightarrow> (let rest = read_targets seen cs in
                 (fst rest, (''reload.transactional.enabledComponents contains unsupported component '' @ quoted c) # snd rest))
      | Some t \<Rightarrow>
          if t \<in> set seen
          then (let rest = read_targets seen cs in
                (fst rest, (''reload.transactional.enabledComponents contains duplicate component '' @ quoted c) # snd rest))
          else (let rest = read_targets (t # seen) cs in (t # fst rest, snd rest)))"

definition RELOAD_MODES :: "(string \<times> reload_mode) list" where
  "RELOAD_MODES = [(''legacy'', LegacyReload), (''transactional-experimental'', TransactionalExperimental)]"

definition read_reload_mode :: "jobj \<Rightarrow> reload_mode checked" where
  "read_reload_mode r =
     (let rawMode = stringOr r ''mode'' ''reload'' ''legacy'' in
      case map_of RELOAD_MODES (fst rawMode) of
        Some m \<Rightarrow> (m, snd rawMode)
      | None \<Rightarrow> (LegacyReload, snd rawMode @ [''reload.mode must be '' @ quoted ''legacy'' @ '' or '' @ quoted ''transactional-experimental'']))"

definition parseReload :: "jobj \<Rightarrow> reload_config checked" where
  "parseReload root = read_section root ''reload'' ''reload must be an object'' DEFAULT_RELOAD (\<lambda>r.
     (let mode = read_reload_mode r;
          shape = (case jm_get r ''transactional'' of None \<Rightarrow> [] | Some (JObj t) \<Rightarrow> []
                   | Some _ \<Rightarrow> [''reload.transactional must be an object when provided'']);
          transactional = (case jm_get r ''transactional'' of Some (JObj t) \<Rightarrow> t | _ \<Rightarrow> []);
          rawComponents = readStringArray transactional ''enabledComponents'' ''reload.transactional'';
          enabledComponents = read_targets [] (or_else (fst rawComponents) []);
          rollbackOnFailure = booleanOr transactional ''rollbackOnFailure'' ''reload.transactional''
            (rld_rollbackOnFailure DEFAULT_RELOAD);
          must_roll_back = (if fst mode = TransactionalExperimental \<and> \<not> fst rollbackOnFailure
            then [''reload.transactional.rollbackOnFailure must be true in transactional-experimental mode''] else []);
          timeoutMs = numberOr transactional ''timeoutMs'' ''reload.transactional'' 100 60000 (rld_timeoutMs DEFAULT_RELOAD);
          shadowBeforeCommit = booleanOr transactional ''shadowBeforeCommit'' ''reload.transactional''
            (rld_shadowBeforeCommit DEFAULT_RELOAD)
      in (\<lparr>rld_mode = fst mode, rld_enabledComponents = fst enabledComponents, rld_timeoutMs = fst timeoutMs,
           rld_shadowBeforeCommit = fst shadowBeforeCommit, rld_rollbackOnFailure = fst rollbackOnFailure\<rparr>,
          snd mode @ shape @ snd rawComponents @ snd enabledComponents @ snd rollbackOnFailure @ must_roll_back
            @ snd timeoutMs @ snd shadowBeforeCommit)))"

section \<open>Probing, observability, dashboard, TUN\<close>

definition parseProbing :: "jobj \<Rightarrow> probing_config checked" where
  "parseProbing root = read_section root ''probing'' ''probing must be an object'' DEFAULT_PROBING (\<lambda>r.
     (let enabled = booleanOr r ''enabled'' ''probing'' (prb_enabled DEFAULT_PROBING);
          intervalMs = numberOr r ''intervalMs'' ''probing'' 100 3600000 (prb_intervalMs DEFAULT_PROBING);
          timeoutMs = numberOr r ''timeoutMs'' ''probing'' 1 300000 (prb_timeoutMs DEFAULT_PROBING);
          maxConcurrency = numberOr r ''maxConcurrency'' ''probing'' 1 1000 (prb_maxConcurrency DEFAULT_PROBING);
          budgetPerInterval = numberOr r ''budgetPerInterval'' ''probing'' 1 1000000 (prb_budgetPerInterval DEFAULT_PROBING);
          backoffBaseMs = numberOr r ''backoffBaseMs'' ''probing'' 1 3600000 (prb_backoffBaseMs DEFAULT_PROBING);
          backoffMaxMs = numberOr r ''backoffMaxMs'' ''probing'' 1 (24 * 3600000) (prb_backoffMaxMs DEFAULT_PROBING)
      in (\<lparr>prb_enabled = fst enabled, prb_intervalMs = fst intervalMs, prb_timeoutMs = fst timeoutMs,
           prb_maxConcurrency = fst maxConcurrency, prb_budgetPerInterval = fst budgetPerInterval,
           prb_backoffBaseMs = fst backoffBaseMs, prb_backoffMaxMs = fst backoffMaxMs\<rparr>,
          snd enabled @ snd intervalMs @ snd timeoutMs @ snd maxConcurrency @ snd budgetPerInterval @ snd backoffBaseMs
            @ snd backoffMaxMs)))"

definition parseMetricsServer :: "jobj \<Rightarrow> metrics_config checked" where
  "parseMetricsServer rawObservability =
     read_section rawObservability ''metrics'' ''observability.metrics must be an object when provided'' DEFAULT_OBSERVABILITY (\<lambda>r.
     (let metricsPath = stringOr r ''path'' ''observability.metrics'' (mtr_path DEFAULT_OBSERVABILITY);
          rooted = prefix ''/'' (fst metricsPath);
          enabled = booleanOr r ''enabled'' ''observability.metrics'' (mtr_enabled DEFAULT_OBSERVABILITY);
          listen = stringOr r ''listen'' ''observability.metrics'' (mtr_listen DEFAULT_OBSERVABILITY);
          port = numberOr r ''port'' ''observability.metrics'' 0 65535 (mtr_port DEFAULT_OBSERVABILITY)
      in (\<lparr>mtr_enabled = fst enabled, mtr_listen = fst listen, mtr_port = fst port,
           mtr_path = (if rooted then fst metricsPath else mtr_path DEFAULT_OBSERVABILITY)\<rparr>,
          snd metricsPath @ (if rooted then [] else [''observability.metrics.path must start with /''])
            @ snd enabled @ snd listen @ snd port)))"

definition parseObservability :: "jobj \<Rightarrow> metrics_config checked" where
  "parseObservability root =
     read_section root ''observability'' ''observability must be an object when provided'' DEFAULT_OBSERVABILITY parseMetricsServer"

definition parseDashboard :: "jobj \<Rightarrow> dashboard_config checked" where
  "parseDashboard root =
     read_section root ''dashboard'' ''dashboard must be an object when provided'' DEFAULT_DASHBOARD (\<lambda>r.
     (let enabled = booleanOr r ''enabled'' ''dashboard'' (dsh_enabled DEFAULT_DASHBOARD);
          listen = stringOr r ''listen'' ''dashboard'' (dsh_listen DEFAULT_DASHBOARD);
          port = numberOr r ''port'' ''dashboard'' 0 65535 (dsh_port DEFAULT_DASHBOARD);
          token = stringOr r ''token'' ''dashboard'' (dsh_token DEFAULT_DASHBOARD);
          rateLimitPerMinute = numberOr r ''rateLimitPerMinute'' ''dashboard'' 1 100000 (dsh_rateLimitPerMinute DEFAULT_DASHBOARD);
          cors = booleanOr r ''cors'' ''dashboard'' (dsh_cors DEFAULT_DASHBOARD)
      in (\<lparr>dsh_enabled = fst enabled, dsh_listen = fst listen, dsh_port = fst port, dsh_token = fst token,
           dsh_rateLimitPerMinute = fst rateLimitPerMinute, dsh_cors = fst cors\<rparr>,
          snd enabled @ snd listen @ snd port @ snd token @ snd rateLimitPerMinute @ snd cors)))"

definition parseTun :: "jobj \<Rightarrow> tun_config checked" where
  "parseTun root = read_section root ''tun'' ''tun must be an object when provided'' DEFAULT_TUN (\<lambda>r.
     (let enabled = booleanOr r ''enabled'' ''tun'' (tun_enabled DEFAULT_TUN);
          experimental = booleanOr r ''experimental'' ''tun'' (tun_experimental DEFAULT_TUN);
          name = stringOr r ''name'' ''tun'' (tun_name DEFAULT_TUN);
          mtu = numberOr r ''mtu'' ''tun'' 576 65535 (tun_mtu DEFAULT_TUN)
      in (\<lparr>tun_enabled = fst enabled, tun_experimental = fst experimental, tun_name = fst name, tun_mtu = fst mtu\<rparr>,
          snd enabled @ snd experimental @ snd name @ snd mtu)))"

end
