(* ===== verification/ConfigProxy.thy ===== *)
theory ConfigProxy
  imports ConfigSections
begin

text \<open>
  Inbounds and outbounds of the configuration (\<^verbatim>\<open>parseInbound\<close> and \<^verbatim>\<open>parseOutbound\<close> in
  \<^verbatim>\<open>src/config/schema.ts\<close>). A cipher name that is not one of the known ones is reported and the
  configuration never returned, so it has a placeholder here.
\<close>

section \<open>Types\<close>

datatype cipher = Aes128Gcm | Aes256Gcm | ChaCha20Poly1305

record basic_auth =
  au_enabled :: bool
  au_username :: string
  au_password :: string

record inbound_base =
  inb_tag :: string
  inb_listen :: string
  inb_port :: int
  inb_connectTimeoutMs :: "int option"
  inb_idleTimeoutMs :: "int option"
  inb_maxHeaderBytes :: "int option"

record inbound_tls =
  itl_enabled :: bool
  itl_certPath :: "string option"
  itl_keyPath :: "string option"

datatype inbound_kind =
    HttpInbound "basic_auth option"
  | Socks5Inbound "bool option" "basic_auth option"
  | ShadowsocksInbound cipher string bool
  | TrojanInbound string inbound_tls
  | PluginInbound string jobj

record inbound_config =
  inc_base :: inbound_base
  inc_kind :: inbound_kind

record outbound_base =
  otb_tag :: string
  otb_connectTimeoutMs :: "int option"
  otb_idleTimeoutMs :: "int option"

record outbound_tls =
  otl_enabled :: bool
  otl_rejectUnauthorized :: bool
  otl_serverName :: "string option"

record wireguard_peer =
  wgp_publicKey :: string
  wgp_endpointHost :: string
  wgp_endpointPort :: int
  wgp_allowedIps :: "string list"

datatype outbound_kind =
    DirectOutbound
  | BlockOutbound "string option"
  | TcpRelayOutbound string int
  | ShadowsocksOutbound string int cipher string
  | TrojanOutbound string int string outbound_tls
  | WireGuardOutbound string "string list" wireguard_peer "int list option"
  | PluginOutbound string jobj

record outbound_config =
  otc_base :: outbound_base
  otc_kind :: outbound_kind

section \<open>Inbounds\<close>

definition SHADOWSOCKS_METHODS :: "(string \<times> cipher) list" where
  "SHADOWSOCKS_METHODS = [(''aes-128-gcm'', Aes128Gcm), (''aes-256-gcm'', Aes256Gcm), (''chacha20-ietf-poly1305'', ChaCha20Poly1305)]"

definition check_method :: "string \<Rightarrow> string option \<Rightarrow> cipher option checked" where
  "check_method path method =
     (case method of
        None \<Rightarrow> (None, [])
      | Some m \<Rightarrow> (case map_of SHADOWSOCKS_METHODS m of Some c \<Rightarrow> (Some c, [])
                  | None \<Rightarrow> (Some Aes128Gcm, [path @ ''.method must be one of aes-128-gcm, aes-256-gcm, chacha20-ietf-poly1305''])))"

definition parseAuth :: "jobj \<Rightarrow> string \<Rightarrow> basic_auth option checked" where
  "parseAuth r path = read_section r ''auth'' (path @ ''.auth must be an object when provided'') None (\<lambda>a.
     (let enabled = booleanOr a ''enabled'' (path @ ''.auth'') True;
          username = readString a ''username'' (path @ ''.auth''); password = readString a ''password'' (path @ ''.auth'')
      in (case (fst username, fst password) of
            (Some u, Some p) \<Rightarrow> Some \<lparr>au_enabled = fst enabled, au_username = u, au_password = p\<rparr> | _ \<Rightarrow> None,
          snd enabled @ snd username @ snd password)))"

definition parseHttpAuth :: "jobj \<Rightarrow> string \<Rightarrow> basic_auth option checked" where
  "parseHttpAuth = parseAuth"

definition parseSocksAuth :: "jobj \<Rightarrow> string \<Rightarrow> basic_auth option checked" where
  "parseSocksAuth = parseAuth"

definition parse_socks_inbound :: "jobj \<Rightarrow> string \<Rightarrow> inbound_kind checked" where
  "parse_socks_inbound r path =
     (let udpAssociate = readOptionalBoolean r ''udpAssociate'' path; auth = parseSocksAuth r path
      in (Socks5Inbound (fst udpAssociate) (fst auth), snd udpAssociate @ snd auth))"

definition parse_shadowsocks_inbound :: "jobj \<Rightarrow> string \<Rightarrow> inbound_kind option checked" where
  "parse_shadowsocks_inbound r path =
     (let method = readString r ''method'' path; password = readString r ''password'' path;
          udp = booleanOr r ''udp'' path False; cipher = check_method path (fst method)
      in (case (fst cipher, fst password) of (Some c, Some p) \<Rightarrow> Some (ShadowsocksInbound c p (fst udp)) | _ \<Rightarrow> None,
          snd method @ snd password @ snd udp @ snd cipher))"

definition parse_inbound_tls :: "jobj \<Rightarrow> string \<Rightarrow> inbound_tls checked" where
  "parse_inbound_tls r path =
     read_section r ''tls'' (path @ ''.tls must be an object when provided'') \<lparr>itl_enabled = False, itl_certPath = None, itl_keyPath = None\<rparr>
     (\<lambda>t. (let enabled = booleanOr t ''enabled'' (path @ ''.tls'') False;
               certPath = readOptionalString t ''certPath'' (path @ ''.tls''); keyPath = readOptionalString t ''keyPath'' (path @ ''.tls'')
           in (\<lparr>itl_enabled = fst enabled, itl_certPath = fst certPath, itl_keyPath = fst keyPath\<rparr>,
               snd enabled @ snd certPath @ snd keyPath
                 @ (if fst enabled \<and> (fst certPath = None \<or> fst keyPath = None)
                    then [path @ ''.tls certPath and keyPath are required when TLS is enabled''] else []))))"

definition parse_trojan_inbound :: "jobj \<Rightarrow> string \<Rightarrow> inbound_kind option checked" where
  "parse_trojan_inbound r path =
     (let password = readString r ''password'' path; tls = parse_inbound_tls r path
      in (map_option (\<lambda>p. TrojanInbound p (fst tls)) (fst password), snd password @ snd tls))"

definition parse_inbound_kind :: "jobj \<Rightarrow> string \<Rightarrow> string \<Rightarrow> inbound_kind option checked" where
  "parse_inbound_kind r path kind =
     (if kind = ''http'' then (let auth = parseHttpAuth r path in (Some (HttpInbound (fst auth)), snd auth))
      else if kind = ''socks5'' then (let k = parse_socks_inbound r path in (Some (fst k), snd k))
      else if kind = ''shadowsocks'' then parse_shadowsocks_inbound r path
      else if kind = ''trojan'' then parse_trojan_inbound r path
      else if isExtensionType kind
      then (let options = readOptionsRecord r ''options'' path in (Some (PluginInbound kind (fst options)), snd options))
      else (None, [path @ ''.type must be '' @ quoted ''http'' @ '', '' @ quoted ''socks5'' @ '', '' @ quoted ''shadowsocks''
              @ '', '' @ quoted ''trojan'' @ '', or start with '' @ quoted ''plugin.'']))"

definition parseInbound :: "string \<Rightarrow> json \<Rightarrow> inbound_config option checked" where
  "parseInbound path value =
     (case value of
        JObj r \<Rightarrow>
          (let kind = readString r ''type'' path; tag = readString r ''tag'' path; listen = readString r ''listen'' path;
               port = readNumber r ''port'' path 0 65535;
               connectTimeoutMs = readOptionalNumber r ''connectTimeoutMs'' path 1 300000;
               idleTimeoutMs = readOptionalNumber r ''idleTimeoutMs'' path 1 3600000;
               maxHeaderBytes = readOptionalNumber r ''maxHeaderBytes'' path 1024 (1024 * 1024);
               messages = snd kind @ snd tag @ snd listen @ snd port @ snd connectTimeoutMs @ snd idleTimeoutMs @ snd maxHeaderBytes
           in case (fst kind, fst tag, fst listen, fst port) of
                (Some k, Some t, Some l, Some p) \<Rightarrow>
                  (let base = \<lparr>inb_tag = t, inb_listen = l, inb_port = p, inb_connectTimeoutMs = fst connectTimeoutMs,
                         inb_idleTimeoutMs = fst idleTimeoutMs, inb_maxHeaderBytes = fst maxHeaderBytes\<rparr>;
                       parsed = parse_inbound_kind r path k
                   in (map_option (\<lambda>x. \<lparr>inc_base = base, inc_kind = x\<rparr>) (fst parsed), messages @ snd parsed))
              | _ \<Rightarrow> (None, messages))
      | _ \<Rightarrow> (None, [path @ '' must be an object'']))"

section \<open>Outbounds\<close>

definition parse_relay :: "jobj \<Rightarrow> string \<Rightarrow> outbound_kind option checked" where
  "parse_relay r path =
     (let targetHost = readString r ''targetHost'' path; targetPort = readNumber r ''targetPort'' path 1 65535
      in (case (fst targetHost, fst targetPort) of (Some h, Some p) \<Rightarrow> Some (TcpRelayOutbound h p) | _ \<Rightarrow> None,
          snd targetHost @ snd targetPort))"

definition parse_shadowsocks_outbound :: "jobj \<Rightarrow> string \<Rightarrow> outbound_kind option checked" where
  "parse_shadowsocks_outbound r path =
     (let serverHost = readString r ''serverHost'' path; serverPort = readNumber r ''serverPort'' path 1 65535;
          method = readString r ''method'' path; password = readString r ''password'' path; cipher = check_method path (fst method)
      in (case (fst serverHost, fst serverPort, fst cipher, fst password) of
            (Some h, Some n, Some c, Some p) \<Rightarrow> Some (ShadowsocksOutbound h n c p) | _ \<Rightarrow> None,
          snd serverHost @ snd serverPort @ snd method @ snd password @ snd cipher))"

definition parse_outbound_tls :: "jobj \<Rightarrow> string \<Rightarrow> outbound_tls checked" where
  "parse_outbound_tls r path =
     (let tlsPath = path @ ''.tls'' in
      read_section r ''tls'' (tlsPath @ '' must be an object when provided'')
        \<lparr>otl_enabled = True, otl_rejectUnauthorized = True, otl_serverName = None\<rparr>
        (\<lambda>t. (let enabled = booleanOr t ''enabled'' tlsPath True;
                  rejectUnauthorized = booleanOr t ''rejectUnauthorized'' tlsPath True;
                  serverName = readOptionalString t ''serverName'' tlsPath
              in (\<lparr>otl_enabled = fst enabled, otl_rejectUnauthorized = fst rejectUnauthorized, otl_serverName = fst serverName\<rparr>,
                  snd enabled @ snd rejectUnauthorized @ snd serverName))))"

definition parse_trojan_outbound :: "jobj \<Rightarrow> string \<Rightarrow> outbound_kind option checked" where
  "parse_trojan_outbound r path =
     (let serverHost = readString r ''serverHost'' path; serverPort = readNumber r ''serverPort'' path 1 65535;
          password = readString r ''password'' path; tls = parse_outbound_tls r path
      in (case (fst serverHost, fst serverPort, fst password) of
            (Some h, Some n, Some p) \<Rightarrow> Some (TrojanOutbound h n p (fst tls)) | _ \<Rightarrow> None,
          snd serverHost @ snd serverPort @ snd password @ snd tls))"

definition parse_wireguard :: "jobj \<Rightarrow> string \<Rightarrow> outbound_kind option checked" where
  "parse_wireguard r path =
     (let privateKey = readString r ''privateKey'' path; address = readStringArray r ''address'' path in
      case jm_get r ''peer'' of
        Some (JObj peer) \<Rightarrow>
          (let peerPath = path @ ''.peer''; publicKey = readString peer ''publicKey'' peerPath;
               endpointHost = readString peer ''endpointHost'' peerPath;
               endpointPort = readNumber peer ''endpointPort'' peerPath 1 65535;
               allowedIps = readStringArray peer ''allowedIps'' peerPath; reserved = readByteArray r ''reserved'' path
           in (case (fst privateKey, fst address, fst publicKey, fst endpointHost, fst endpointPort, fst allowedIps) of
                 (Some k, Some a, Some q, Some h, Some n, Some ips) \<Rightarrow>
                   Some (WireGuardOutbound k a \<lparr>wgp_publicKey = q, wgp_endpointHost = h, wgp_endpointPort = n, wgp_allowedIps = ips\<rparr>
                     (fst reserved))
               | _ \<Rightarrow> None,
               snd privateKey @ snd address @ snd publicKey @ snd endpointHost @ snd endpointPort @ snd allowedIps @ snd reserved))
      | _ \<Rightarrow> (None, snd privateKey @ snd address @ [path @ ''.peer must be an object'']))"

definition parse_outbound_kind :: "jobj \<Rightarrow> string \<Rightarrow> string \<Rightarrow> outbound_kind option checked" where
  "parse_outbound_kind r path kind =
     (if kind = ''direct'' then (Some DirectOutbound, [])
      else if kind = ''block'' then (let reason = readOptionalString r ''reason'' path in (Some (BlockOutbound (fst reason)), snd reason))
      else if kind = ''tcpRelay'' then parse_relay r path
      else if kind = ''shadowsocks'' then parse_shadowsocks_outbound r path
      else if kind = ''trojan'' then parse_trojan_outbound r path
      else if kind = ''wireguard'' then parse_wireguard r path
      else if isExtensionType kind
      then (let options = readOptionsRecord r ''options'' path in (Some (PluginOutbound kind (fst options)), snd options))
      else (None, [path @ ''.type must be '' @ quoted ''direct'' @ '', '' @ quoted ''block'' @ '', '' @ quoted ''tcpRelay'' @ '', ''
              @ quoted ''shadowsocks'' @ '', '' @ quoted ''trojan'' @ '', '' @ quoted ''wireguard'' @ '', or start with '' @ quoted ''plugin.'']))"

definition parseOutbound :: "string \<Rightarrow> json \<Rightarrow> outbound_config option checked" where
  "parseOutbound path value =
     (case value of
        JObj r \<Rightarrow>
          (let kind = readString r ''type'' path; tag = readString r ''tag'' path;
               connectTimeoutMs = readOptionalNumber r ''connectTimeoutMs'' path 1 300000;
               idleTimeoutMs = readOptionalNumber r ''idleTimeoutMs'' path 1 3600000;
               messages = snd kind @ snd tag @ snd connectTimeoutMs @ snd idleTimeoutMs
           in case (fst kind, fst tag) of
                (Some k, Some t) \<Rightarrow>
                  (let base = \<lparr>otb_tag = t, otb_connectTimeoutMs = fst connectTimeoutMs, otb_idleTimeoutMs = fst idleTimeoutMs\<rparr>;
                       parsed = parse_outbound_kind r path k
                   in (map_option (\<lambda>x. \<lparr>otc_base = base, otc_kind = x\<rparr>) (fst parsed), messages @ snd parsed))
              | _ \<Rightarrow> (None, messages))
      | _ \<Rightarrow> (None, [path @ '' must be an object'']))"

end
