(* ===== verification/ConfigRoute.thy ===== *)
theory ConfigRoute
  imports ConfigProxy Router
begin

text \<open>
  The routing section, the checks across sections and \<^verbatim>\<open>parseConfig\<close> itself
  (\<^verbatim>\<open>src/config/schema.ts\<close>). A rule of the configuration extends the rule the router works on
  with the geo tags it was expanded from. Looking up a geo tag may throw; then nothing else the
  parser found matters.
\<close>

section \<open>Rules\<close>

record config_rule = route_rule +
  cru_geoIp :: "string list option"
  cru_geoSite :: "string list option"

record rule_set_file =
  rsf_tag :: string
  rsf_path :: string
  rsf_outboundTag :: string

record route_config =
  rtc_defaultOutbound :: string
  rtc_rules :: "config_rule list"
  rtc_ruleSetFiles :: "rule_set_file list"
  rtc_policies :: "routing_policy list"

definition not_iterable :: js_error where
  "not_iterable = TypeError ''Spread syntax requires ...iterable[Symbol.iterator] to be a function''"

fun expand_geo :: "(string, string list) jsmap \<Rightarrow> string \<Rightarrow> string list \<Rightarrow> string list checked result" where
  "expand_geo table message [] = Inr ([], [])"
| "expand_geo table message (t # ts) =
     (case jm_get table (js_lower t) of
        Some values \<Rightarrow> rbind (expand_geo table message ts) (\<lambda>rest. Inr (values @ fst rest, snd rest))
      | None \<Rightarrow>
          if inherited (js_lower t) then Inl not_iterable
          else rbind (expand_geo table message ts) (\<lambda>rest. Inr (fst rest, (message @ quoted t) # snd rest)))"

definition expandGeoIp :: "string list option \<Rightarrow> geo_config \<Rightarrow> string \<Rightarrow> string list checked result" where
  "expandGeoIp tags geo path = expand_geo (geo_geoip geo) (path @ ''.geoIp references unknown GeoIP tag '') (or_else tags [])"

definition expandGeoSite :: "string list option \<Rightarrow> geo_config \<Rightarrow> string \<Rightarrow> string list checked result" where
  "expandGeoSite tags geo path = expand_geo (geo_geosite geo) (path @ ''.geoSite references unknown GeoSite tag '') (or_else tags [])"

text \<open>\<^verbatim>\<open>forEach\<close> with an index that only reports.\<close>

definition indexed :: "(nat \<Rightarrow> 'a \<Rightarrow> string list) \<Rightarrow> 'a list \<Rightarrow> string list" where
  "indexed f xs = concat (map (\<lambda>(i, x). f i x) (List.enumerate 0 xs))"

definition check_cidrs :: "string \<Rightarrow> string list \<Rightarrow> string list" where
  "check_cidrs path cidrs =
     indexed (\<lambda>i c. if isValidCidr c then [] else [at_item (path @ ''.ipCidr'') i @ '' must be a valid CIDR'']) cidrs"

definition non_empty :: "'a list \<Rightarrow> 'a list option" where
  "non_empty xs = (if xs = [] then None else Some xs)"

definition parseRouteRule :: "geo_config \<Rightarrow> string \<Rightarrow> json \<Rightarrow> config_rule option checked result" where
  "parseRouteRule geo path value =
     (case value of
        JObj r \<Rightarrow>
          (let outboundTag = readString r ''outboundTag'' path in
           case fst outboundTag of
             None \<Rightarrow> Inr (None, snd outboundTag)
           | Some target \<Rightarrow>
               (let tag = readOptionalString r ''tag'' path; domain = readStringArray r ''domain'' path;
                    domainSuffix = readStringArray r ''domainSuffix'' path; ipCidr = readStringArray r ''ipCidr'' path;
                    geoIp = readStringArray r ''geoIp'' path; geoSite = readStringArray r ''geoSite'' path;
                    port = readPortArray r ''port'' path
                in rbind (expandGeoIp (fst geoIp) geo path) (\<lambda>expandedGeoIp.
                   rbind (expandGeoSite (fst geoSite) geo path) (\<lambda>expandedGeoSite.
                     (let mergedIpCidr = or_else (fst ipCidr) [] @ fst expandedGeoIp;
                          mergedDomainSuffix = or_else (fst domainSuffix) [] @ fst expandedGeoSite
                      in Inr (Some \<lparr>rr_tag = fst tag, rr_outboundTag = target, rr_domain = fst domain,
                                rr_domainSuffix = non_empty mergedDomainSuffix, rr_ipCidr = non_empty mergedIpCidr,
                                rr_port = map_option (map nat) (fst port), cru_geoIp = fst geoIp, cru_geoSite = fst geoSite\<rparr>,
                              snd outboundTag @ snd tag @ snd domain @ snd domainSuffix @ snd ipCidr @ snd geoIp @ snd geoSite
                                @ snd port @ snd expandedGeoIp @ snd expandedGeoSite @ check_cidrs path mergedIpCidr))))))
      | _ \<Rightarrow> Inr (None, [path @ '' must be an object'']))"

fun parse_rules :: "geo_config \<Rightarrow> nat \<Rightarrow> json list \<Rightarrow> config_rule list checked result" where
  "parse_rules geo i [] = Inr ([], [])"
| "parse_rules geo i (v # vs) =
     rbind (parseRouteRule geo (at_item ''route.rules'' i) v) (\<lambda>x.
     rbind (parse_rules geo (Suc i) vs) (\<lambda>rest.
       Inr ((case fst x of Some r \<Rightarrow> r # fst rest | None \<Rightarrow> fst rest), snd x @ snd rest)))"

definition parseRouteRuleSetFile :: "string \<Rightarrow> json \<Rightarrow> rule_set_file option checked" where
  "parseRouteRuleSetFile path value =
     (case value of
        JObj r \<Rightarrow>
          (let tag = readString r ''tag'' path; filePath = readString r ''path'' path; outboundTag = readString r ''outboundTag'' path
           in (case (fst tag, fst filePath, fst outboundTag) of
                 (Some t, Some p, Some out) \<Rightarrow> Some \<lparr>rsf_tag = t, rsf_path = p, rsf_outboundTag = out\<rparr> | _ \<Rightarrow> None,
               snd tag @ snd filePath @ snd outboundTag))
      | _ \<Rightarrow> (None, [path @ '' must be an object'']))"

section \<open>Policies\<close>

definition ROUTING_POLICY_TYPES :: "(string \<times> policy_type) list" where
  "ROUTING_POLICY_TYPES = [(''loadBalance'', LoadBalance), (''failover'', Failover)]"

definition LOAD_BALANCE_STRATEGIES :: "(string \<times> balance_strategy) list" where
  "LOAD_BALANCE_STRATEGIES = [(''roundRobin'', RoundRobin), (''leastLatency'', LeastLatency), (''random'', RandomPick)]"

text \<open>A type that is none of the known ones is reported; here it has a placeholder.\<close>

definition check_policy_type :: "string \<Rightarrow> string option \<Rightarrow> policy_type option checked" where
  "check_policy_type path t =
     (case t of
        None \<Rightarrow> (None, [])
      | Some s \<Rightarrow> (case map_of ROUTING_POLICY_TYPES s of Some p \<Rightarrow> (Some p, [])
                  | None \<Rightarrow> (Some LoadBalance, [path @ ''.type must be '' @ quoted ''loadBalance'' @ '' or '' @ quoted ''failover''])))"

definition read_balance_strategy :: "jobj \<Rightarrow> string \<Rightarrow> balance_strategy checked" where
  "read_balance_strategy r path =
     (case jm_get r ''strategy'' of
        None \<Rightarrow> (RoundRobin, [])
      | Some v \<Rightarrow> (case choice LOAD_BALANCE_STRATEGIES v of Some s \<Rightarrow> (s, [])
                  | None \<Rightarrow> (RoundRobin, [path @ ''.strategy must be '' @ quoted ''roundRobin'' @ '', '' @ quoted ''leastLatency''
                       @ '', or '' @ quoted ''random'' @ '' when provided''])))"

definition parseRoutingPolicy :: "string \<Rightarrow> json \<Rightarrow> routing_policy option checked" where
  "parseRoutingPolicy path value =
     (case value of
        JObj r \<Rightarrow>
          (let tag = readString r ''tag'' path; kind = readString r ''type'' path; outbounds = readStringArray r ''outbounds'' path;
               policyType = check_policy_type path (fst kind); strategy = read_balance_strategy r path;
               messages = snd tag @ snd kind @ snd outbounds @ snd policyType @ snd strategy
           in case (fst tag, fst policyType, fst outbounds) of
                (Some t, Some k, Some out) \<Rightarrow>
                  (let unhealthyAfterFailures = numberOr r ''unhealthyAfterFailures'' path 1 1000 3;
                       recoverAfterMs = numberOr r ''recoverAfterMs'' path 1 3600000 30000
                   in (Some \<lparr>rp_tag = t, rp_type = k, rp_outbounds = out, rp_strategy = fst strategy,
                         rp_unhealthyAfterFailures = nat (fst unhealthyAfterFailures), rp_recoverAfterMs = fst recoverAfterMs\<rparr>,
                       messages @ (if out = [] then [path @ ''.outbounds must contain at least one outbound tag''] else [])
                         @ snd unhealthyAfterFailures @ snd recoverAfterMs))
              | _ \<Rightarrow> (None, messages))
      | _ \<Rightarrow> (None, [path @ '' must be an object'']))"

definition parseRouter :: "jobj \<Rightarrow> geo_config \<Rightarrow> route_config option checked result" where
  "parseRouter root geo =
     (case jm_get root ''route'' of
        Some (JObj r) \<Rightarrow>
          (let defaultOutbound = readString r ''defaultOutbound'' ''route'' in
           case jm_get r ''rules'' of
             Some (JArr vs) \<Rightarrow>
               rbind (parse_rules geo 0 vs) (\<lambda>rules.
                 (let ruleSetFiles = parse_optional_items parseRouteRuleSetFile ''route.ruleSetFiles'' (jm_get r ''ruleSetFiles'');
                      policies = parse_optional_items parseRoutingPolicy ''route.policies'' (jm_get r ''policies'')
                  in Inr (map_option (\<lambda>d. \<lparr>rtc_defaultOutbound = d, rtc_rules = fst rules, rtc_ruleSetFiles = fst ruleSetFiles,
                            rtc_policies = fst policies\<rparr>) (fst defaultOutbound),
                          snd defaultOutbound @ snd rules @ snd ruleSetFiles @ snd policies)))
           | _ \<Rightarrow> Inr (None, snd defaultOutbound @ [''route.rules must be an array'']))
      | _ \<Rightarrow> Inr (None, [''route must be an object'']))"

section \<open>The configuration\<close>

record sepigs_config =
  cfg_log :: log_level
  cfg_limits :: limit_config
  cfg_dns :: dns_config
  cfg_geo :: geo_config
  cfg_plugins :: plugin_config
  cfg_workers :: worker_config
  cfg_transport :: quic_config
  cfg_connectionPool :: pool_config
  cfg_hotReload :: hot_reload_config
  cfg_reload :: reload_config
  cfg_probing :: probing_config
  cfg_observability :: metrics_config
  cfg_dashboard :: dashboard_config
  cfg_tun :: tun_config
  cfg_inbounds :: "inbound_config list"
  cfg_outbounds :: "outbound_config list"
  cfg_route :: route_config

abbreviation inbound_tag :: "inbound_config \<Rightarrow> string" where
  "inbound_tag x \<equiv> inb_tag (inc_base x)"

abbreviation outbound_tag :: "outbound_config \<Rightarrow> string" where
  "outbound_tag x \<equiv> otb_tag (otc_base x)"

fun checkUniqueTags :: "string \<Rightarrow> string list \<Rightarrow> string list \<Rightarrow> string list" where
  "checkUniqueTags path seen [] = []"
| "checkUniqueTags path seen (t # ts) =
     (if t \<in> set seen then (path @ '' contains duplicate tag '' @ quoted t) # checkUniqueTags path seen ts
      else checkUniqueTags path (t # seen) ts)"

definition checkOutboundReferences :: "sepigs_config \<Rightarrow> string list" where
  "checkOutboundReferences c =
     (let outboundTags = map outbound_tag (cfg_outbounds c); route = cfg_route c;
          policyTags = map rp_tag (rtc_policies route); routeTargets = outboundTags @ policyTags
      in concat (map (\<lambda>p. if rp_tag p \<in> set outboundTags
             then [''route.policies contains tag '' @ quoted (rp_tag p) @ '' that duplicates an outbound tag''] else [])
           (rtc_policies route))
         @ (if rtc_defaultOutbound route \<in> set routeTargets then []
            else [''route.defaultOutbound references unknown outbound '' @ quoted (rtc_defaultOutbound route)])
         @ indexed (\<lambda>i r. if rr_outboundTag r \<in> set routeTargets then []
             else [at_item ''route.rules'' i @ ''.outboundTag references unknown outbound '' @ quoted (rr_outboundTag r)])
           (rtc_rules route)
         @ indexed (\<lambda>i f. if rsf_outboundTag f \<in> set routeTargets then []
             else [at_item ''route.ruleSetFiles'' i @ ''.outboundTag references unknown outbound '' @ quoted (rsf_outboundTag f)])
           (rtc_ruleSetFiles route)
         @ indexed (\<lambda>i p. indexed (\<lambda>j t. if t \<in> set outboundTags then []
             else [at_item (at_item ''route.policies'' i @ ''.outbounds'') j @ '' references unknown outbound '' @ quoted t])
             (rp_outbounds p)) (rtc_policies route))"

definition checkDnsReferences :: "sepigs_config \<Rightarrow> string list" where
  "checkDnsReferences c =
     (let serverTags = map ds_tag (dc_udpServers (cfg_dns c)) in
      indexed (\<lambda>i r. if dru_serverTag r \<in> set serverTags then []
        else [at_item ''dns.rules'' i @ ''.serverTag references unknown DNS server '' @ quoted (dru_serverTag r)])
        (dc_rules (cfg_dns c)))"

definition PUBLIC_LISTEN_ADDRESSES :: "string list" where
  "PUBLIC_LISTEN_ADDRESSES = [''0.0.0.0'', ''::'', ''[::]'']"

fun authenticated :: "inbound_kind \<Rightarrow> bool" where
  "authenticated (HttpInbound (Some a)) = au_enabled a"
| "authenticated (Socks5Inbound u (Some a)) = au_enabled a"
| "authenticated k = False"

definition checkPublicExposure :: "sepigs_config \<Rightarrow> string list" where
  "checkPublicExposure c =
     concat (map (\<lambda>i. if inb_listen (inc_base i) \<notin> set PUBLIC_LISTEN_ADDRESSES then []
        else if authenticated (inc_kind i) then []
        else [''inbound '' @ quoted (inbound_tag i) @ '' listens on '' @ inb_listen (inc_base i)
               @ ''; public HTTP/SOCKS listeners must enable authentication'']) (cfg_inbounds c))
     @ (if mtr_enabled (cfg_observability c) \<and> mtr_listen (cfg_observability c) \<in> set PUBLIC_LISTEN_ADDRESSES
        then [''observability.metrics.listen must not be public; bind metrics to 127.0.0.1 or protect it behind a separate authenticated endpoint'']
        else [])
     @ (if dsh_enabled (cfg_dashboard c)
        then (if dsh_listen (cfg_dashboard c) \<in> set PUBLIC_LISTEN_ADDRESSES then [''dashboard.listen must not be public''] else [])
          @ (if dsh_token (cfg_dashboard c) = ''change-me'' \<or> length (dsh_token (cfg_dashboard c)) < 16
             then [''dashboard.token must be changed and contain at least 16 characters when dashboard is enabled''] else [])
        else [])"

definition parseConfigVersion :: "jobj \<Rightarrow> string list" where
  "parseConfigVersion root =
     (case jm_get root ''configVersion'' of
        None \<Rightarrow> []
      | Some (JNum (JInt n)) \<Rightarrow> if n \<noteq> 1 then [''configVersion '' @ show_int n @ '' is not supported by this sepigs build''] else []
      | Some _ \<Rightarrow> [''configVersion must be integer 1''])"

text \<open>\<^verbatim>\<open>inbounds\<close> and \<^verbatim>\<open>outbounds\<close> have to be arrays with an entry.\<close>

definition parse_required_items :: "(string \<Rightarrow> json \<Rightarrow> 'a option checked) \<Rightarrow> string \<Rightarrow> jobj \<Rightarrow> 'a list checked" where
  "parse_required_items p key root =
     (case jm_get root key of
        Some (JArr (v # vs)) \<Rightarrow> parse_items p key 0 (v # vs)
      | _ \<Rightarrow> ([], [key @ '' must be a non-empty array'']))"

definition no_route :: route_config where
  "no_route = \<lparr>rtc_defaultOutbound = '''', rtc_rules = [], rtc_ruleSetFiles = [], rtc_policies = []\<rparr>"

text \<open>\<^verbatim>\<open>parseConfig\<close> in three steps: the configuration, what was reported, and the outcome.\<close>

definition assemble :: "jobj \<Rightarrow> route_config option \<Rightarrow> sepigs_config" where
  "assemble r route =
     \<lparr>cfg_log = fst (parseLog r), cfg_limits = fst (parseLimits r), cfg_dns = fst (parseDns r), cfg_geo = fst (parseGeo r),
      cfg_plugins = fst (parsePlugins r), cfg_workers = fst (parseWorkers r), cfg_transport = fst (parseTransport r),
      cfg_connectionPool = fst (parseConnectionPool r), cfg_hotReload = fst (parseHotReload r), cfg_reload = fst (parseReload r),
      cfg_probing = fst (parseProbing r), cfg_observability = fst (parseObservability r), cfg_dashboard = fst (parseDashboard r),
      cfg_tun = fst (parseTun r), cfg_inbounds = fst (parse_required_items parseInbound ''inbounds'' r),
      cfg_outbounds = fst (parse_required_items parseOutbound ''outbounds'' r), cfg_route = or_else route no_route\<rparr>"

definition read_messages :: "jobj \<Rightarrow> string list" where
  "read_messages r =
     parseConfigVersion r @ snd (parseLog r) @ snd (parseLimits r) @ snd (parseDns r) @ snd (parseGeo r) @ snd (parsePlugins r)
       @ snd (parseWorkers r) @ snd (parseTransport r) @ snd (parseConnectionPool r) @ snd (parseHotReload r)
       @ snd (parseReload r) @ snd (parseProbing r) @ snd (parseObservability r) @ snd (parseDashboard r) @ snd (parseTun r)
       @ snd (parse_required_items parseInbound ''inbounds'' r) @ snd (parse_required_items parseOutbound ''outbounds'' r)"

definition check_messages :: "sepigs_config \<Rightarrow> bool \<Rightarrow> string list" where
  "check_messages c routed =
     checkUniqueTags ''inbounds'' [] (map inbound_tag (cfg_inbounds c))
       @ checkUniqueTags ''outbounds'' [] (map outbound_tag (cfg_outbounds c))
       @ checkUniqueTags ''plugins.modules'' [] (map plm_tag (plg_modules (cfg_plugins c)))
       @ checkUniqueTags ''plugins.wasm'' [] (map wex_tag (plg_wasm (cfg_plugins c)))
       @ checkUniqueTags ''dns.udpServers'' [] (map ds_tag (dc_udpServers (cfg_dns c)))
       @ checkUniqueTags ''route.policies'' [] (map rp_tag (rtc_policies (cfg_route c)))
       @ checkDnsReferences c @ checkPublicExposure c @ (if routed then checkOutboundReferences c else [])"

definition parseConfig :: "json \<Rightarrow> sepigs_config result" where
  "parseConfig input =
     (case input of
        JObj r \<Rightarrow>
          rbind (parseRouter r (fst (parseGeo r))) (\<lambda>route.
            (let c = assemble r (fst route); messages = read_messages r @ snd route @ check_messages c (fst route \<noteq> None)
             in if messages \<noteq> []
                then Inl (ConfigError (''invalid sepigs config:'' @ [CHR 0x0A]
                       @ js_join [CHR 0x0A] (map (\<lambda>e. ''- '' @ e) messages)))
                else Inr c))
      | _ \<Rightarrow> Inl (ConfigError ''config root must be an object''))"

end
