(* ===== verification/ConfigChecked.thy ===== *)
theory ConfigChecked
  imports ConfigRoute
begin

text \<open>
  What a configuration that \<^verbatim>\<open>parseConfig\<close> returned satisfies: its tags are unique and its
  references resolve, its numbers are in range, and how far the check of public listeners goes.
\<close>

section \<open>The checks\<close>

lemma checkUniqueTags_iff: "checkUniqueTags path seen ts = [] \<longleftrightarrow> distinct ts \<and> set ts \<inter> set seen = {}"
  by (induction ts arbitrary: seen) auto

lemma indexed_Nil: "indexed f xs = [] \<longleftrightarrow> (\<forall>i < length xs. f i (xs ! i) = [])"
proof -
  have "indexed f xs = [] \<longleftrightarrow> (\<forall>p \<in> set (List.enumerate 0 xs). f (fst p) (snd p) = [])"
    by (auto simp: indexed_def case_prod_beta)
  also have "\<dots> \<longleftrightarrow> (\<forall>i < length xs. f i (xs ! i) = [])"
    by (simp add: Ball_def in_set_enumerate_eq)
  finally show ?thesis .
qed

lemma all_nth_iff: "(\<forall>i < length xs. P (xs ! i)) \<longleftrightarrow> (\<forall>x \<in> set xs. P x)"
  by (metis in_set_conv_nth)

lemma check_cidrs_Nil: "check_cidrs path cs = [] \<longleftrightarrow> (\<forall>c \<in> set cs. isValidCidr c)"
  unfolding check_cidrs_def indexed_Nil all_nth_iff [of cs isValidCidr, symmetric] by auto

text \<open>Everything a returned configuration went through.\<close>

definition read_from :: "jobj \<Rightarrow> sepigs_config \<Rightarrow> bool" where
  "read_from raw c \<longleftrightarrow>
     parseLog raw = (cfg_log c, []) \<and> parseLimits raw = (cfg_limits c, []) \<and> parseDns raw = (cfg_dns c, []) \<and>
     parseGeo raw = (cfg_geo c, []) \<and> parsePlugins raw = (cfg_plugins c, []) \<and> parseWorkers raw = (cfg_workers c, []) \<and>
     parseTransport raw = (cfg_transport c, []) \<and> parseConnectionPool raw = (cfg_connectionPool c, []) \<and>
     parseHotReload raw = (cfg_hotReload c, []) \<and> parseReload raw = (cfg_reload c, []) \<and>
     parseProbing raw = (cfg_probing c, []) \<and> parseObservability raw = (cfg_observability c, []) \<and>
     parseDashboard raw = (cfg_dashboard c, []) \<and> parseTun raw = (cfg_tun c, []) \<and>
     parse_required_items parseInbound ''inbounds'' raw = (cfg_inbounds c, []) \<and>
     parse_required_items parseOutbound ''outbounds'' raw = (cfg_outbounds c, []) \<and>
     parseRouter raw (cfg_geo c) = Inr (Some (cfg_route c), [])"

definition checks_passed :: "sepigs_config \<Rightarrow> bool" where
  "checks_passed c \<longleftrightarrow>
     distinct (map inbound_tag (cfg_inbounds c)) \<and> distinct (map outbound_tag (cfg_outbounds c)) \<and>
     distinct (map plm_tag (plg_modules (cfg_plugins c))) \<and> distinct (map wex_tag (plg_wasm (cfg_plugins c))) \<and>
     distinct (map ds_tag (dc_udpServers (cfg_dns c))) \<and> distinct (map rp_tag (rtc_policies (cfg_route c))) \<and>
     checkDnsReferences c = [] \<and> checkPublicExposure c = [] \<and> checkOutboundReferences c = []"

lemma parseRouter_None: "parseRouter raw geo = Inr (None, es) \<Longrightarrow> es \<noteq> []"
  by (auto simp: parseRouter_def Let_def rbind_Inr_iff dest: readString_clean split: option.splits json.splits)

lemma fst_snd_Nil: "snd x = [] \<Longrightarrow> x = (fst x, [])"
  by (cases x) simp

lemma parseConfig_InrD:
  assumes "parseConfig v = Inr c"
  shows "\<exists>raw. v = JObj raw \<and> read_from raw c \<and> checks_passed c"
proof -
  from assms obtain raw where v: "v = JObj raw" by (cases v) (simp_all add: parseConfig_def)
  with assms obtain route where route: "parseRouter raw (fst (parseGeo raw)) = Inr route"
    by (cases "parseRouter raw (fst (parseGeo raw))") (simp_all add: parseConfig_def)
  from assms have none: "read_messages raw = []" "snd route = []" "check_messages (assemble raw (fst route)) (fst route \<noteq> None) = []"
    and c: "c = assemble raw (fst route)"
    by (simp_all add: parseConfig_def v route Let_def split: if_splits)
  have some: "fst route \<noteq> None"
  proof
    assume "fst route = None"
    then have "parseRouter raw (fst (parseGeo raw)) = Inr (None, snd route)" using route by (cases route) simp
    from parseRouter_None [OF this] none(2) show False by simp
  qed
  have "read_from raw c"
    unfolding read_from_def c using none(1,2) some route by (auto simp: assemble_def read_messages_def prod_eq_iff)
  moreover have "checks_passed c"
    unfolding checks_passed_def c using none(3) some by (simp add: checkUniqueTags_iff check_messages_def)
  ultimately show ?thesis using v by blast
qed

section \<open>References\<close>

lemma concat_map_Nil: "concat (map f xs) = [] \<longleftrightarrow> (\<forall>x \<in> set xs. f x = [])"
  by auto

lemma if_Nil: "(if P then [] else [x]) = [] \<longleftrightarrow> P" "(if P then [x] else []) = [] \<longleftrightarrow> \<not> P"
  by simp_all

lemma checkOutboundReferences_iff:
  "checkOutboundReferences c = [] \<longleftrightarrow>
     (let out = map outbound_tag (cfg_outbounds c); route = cfg_route c; targets = out @ map rp_tag (rtc_policies route) in
      set (map rp_tag (rtc_policies route)) \<inter> set out = {} \<and> rtc_defaultOutbound route \<in> set targets \<and>
      (\<forall>r \<in> set (rtc_rules route). rr_outboundTag r \<in> set targets) \<and>
      (\<forall>f \<in> set (rtc_ruleSetFiles route). rsf_outboundTag f \<in> set targets) \<and>
      (\<forall>p \<in> set (rtc_policies route). set (rp_outbounds p) \<subseteq> set out))"
proof -
  let ?out = "map outbound_tag (cfg_outbounds c)" and ?ps = "rtc_policies (cfg_route c)"
  have policies: "(\<forall>i < length ?ps. \<forall>j < length (rp_outbounds (?ps ! i)). rp_outbounds (?ps ! i) ! j \<in> set ?out) \<longleftrightarrow>
      (\<forall>p \<in> set ?ps. set (rp_outbounds p) \<subseteq> set ?out)"
    unfolding all_nth_iff [of "rp_outbounds _" "\<lambda>t. t \<in> set ?out"]
      all_nth_iff [of ?ps "\<lambda>p. \<forall>t \<in> set (rp_outbounds p). t \<in> set ?out"] by (simp only: subset_iff Ball_def)
  have apart: "(\<forall>p \<in> set ?ps. rp_tag p \<notin> set ?out) \<longleftrightarrow> set (map rp_tag ?ps) \<inter> set ?out = {}" by auto
  show ?thesis
    unfolding checkOutboundReferences_def Let_def append_is_Nil_conv indexed_Nil concat_map_Nil if_Nil policies apart
      all_nth_iff [of "rtc_rules _" "\<lambda>r. rr_outboundTag r \<in> _"] all_nth_iff [of "rtc_ruleSetFiles _" "\<lambda>f. rsf_outboundTag f \<in> _"]
    by (rule refl)
qed

lemma checkDnsReferences_iff:
  "checkDnsReferences c = [] \<longleftrightarrow>
     (\<forall>r \<in> set (dc_rules (cfg_dns c)). dru_serverTag r \<in> set (map ds_tag (dc_udpServers (cfg_dns c))))"
  unfolding checkDnsReferences_def Let_def indexed_Nil if_Nil
    all_nth_iff [of "dc_rules _" "\<lambda>r. dru_serverTag r \<in> _"] ..

lemma checkPublicExposure_iff:
  "checkPublicExposure c = [] \<longleftrightarrow>
     (\<forall>i \<in> set (cfg_inbounds c). inb_listen (inc_base i) \<in> set PUBLIC_LISTEN_ADDRESSES \<longrightarrow> authenticated (inc_kind i)) \<and>
     (mtr_enabled (cfg_observability c) \<longrightarrow> mtr_listen (cfg_observability c) \<notin> set PUBLIC_LISTEN_ADDRESSES) \<and>
     (dsh_enabled (cfg_dashboard c) \<longrightarrow> dsh_listen (cfg_dashboard c) \<notin> set PUBLIC_LISTEN_ADDRESSES \<and>
        dsh_token (cfg_dashboard c) \<noteq> ''change-me'' \<and> 16 \<le> length (dsh_token (cfg_dashboard c)))"
  unfolding checkPublicExposure_def append_is_Nil_conv concat_map_Nil by auto

lemma parse_rules_each:
  "parse_rules geo i vs = Inr (rs, []) \<Longrightarrow> r \<in> set rs \<Longrightarrow> \<exists>path v. parseRouteRule geo path v = Inr (Some r, [])"
proof (induction vs arbitrary: i rs)
  case (Cons v vs)
  from Cons.prems(1) obtain y ys where y: "parseRouteRule geo (at_item ''route.rules'' i) v = Inr y"
    and ys: "parse_rules geo (Suc i) vs = Inr ys" and clean: "snd y = []" "snd ys = []"
    and all: "rs = (case fst y of Some r \<Rightarrow> r # fst ys | None \<Rightarrow> fst ys)" unfolding parse_rules.simps rbind_Inr_iff by blast
  obtain x rest where p: "y = (x, [])" "ys = (rest, [])" using clean by (cases y; cases ys) simp
  have x: "parseRouteRule geo (at_item ''route.rules'' i) v = Inr (x, [])"
    and rest: "parse_rules geo (Suc i) vs = Inr (rest, [])" using y ys p by simp_all
  have rs: "rs = (case x of Some r \<Rightarrow> r # rest | None \<Rightarrow> rest)" using all unfolding p fst_conv .
  show ?case
  proof (cases x)
    case None
    with Cons.IH [OF rest] rs Cons.prems(2) show ?thesis by simp
  next
    case (Some y)
    with rs Cons.prems(2) consider "r = y" | "r \<in> set rest" by auto
    then show ?thesis using Cons.IH [OF rest] x Some by cases blast+
  qed
qed simp

lemma parseRouter_rules:
  assumes "parseRouter raw geo = Inr (Some route, [])" "r \<in> set (rtc_rules route)"
  shows "\<exists>path v. parseRouteRule geo path v = Inr (Some r, [])"
proof -
  from assms(1) obtain vs rs where "parse_rules geo 0 vs = Inr (rs, [])" "rtc_rules route = rs"
    by (auto simp: parseRouter_def Let_def rbind_Inr_iff prod_eq_iff split: option.splits json.splits)
  with parse_rules_each [of geo 0 vs rs r] assms(2) show ?thesis by simp
qed

text \<open>A rule contains what its geo tags stand for.\<close>

definition geo_tags_resolve :: "(string, string list) jsmap \<Rightarrow> string list option \<Rightarrow> string list option \<Rightarrow> bool" where
  "geo_tags_resolve table tags values \<longleftrightarrow>
     (\<forall>t \<in> set (or_else tags []). \<exists>vs. jm_get table (js_lower t) = Some vs \<and> set vs \<subseteq> set (or_else values []))"

lemma expand_geo_all:
  "expand_geo table message ts = Inr (vs, []) \<Longrightarrow> t \<in> set ts \<Longrightarrow> \<exists>ws. jm_get table (js_lower t) = Some ws \<and> set ws \<subseteq> set vs"
proof (induction ts arbitrary: vs)
  case (Cons u ts)
  from Cons.prems(1) obtain ws rest where ws: "jm_get table (js_lower u) = Some ws" "expand_geo table message ts = Inr (rest, [])" "vs = ws @ rest"
    by (auto simp: rbind_Inr_iff prod_eq_iff split: option.splits if_splits)
  with Cons.IH [OF ws(2)] Cons.prems(2) show ?case by auto
qed simp

lemma or_else_non_empty [simp]: "or_else (non_empty xs) [] = xs"
  by (simp add: non_empty_def)

lemma parseRouteRule_geo:
  assumes "parseRouteRule geo path v = Inr (Some r, [])"
  shows "geo_tags_resolve (geo_geoip geo) (cru_geoIp r) (rr_ipCidr r) \<and> geo_tags_resolve (geo_geosite geo) (cru_geoSite r) (rr_domainSuffix r)"
proof -
  from assms obtain ips sites cs ds where
    ip: "expandGeoIp (cru_geoIp r) geo path = Inr (ips, [])" "rr_ipCidr r = non_empty (cs @ ips)" and
    site: "expandGeoSite (cru_geoSite r) geo path = Inr (sites, [])" "rr_domainSuffix r = non_empty (ds @ sites)"
    by (auto simp: parseRouteRule_def Let_def rbind_Inr_iff prod_eq_iff split: json.splits option.splits)
  show ?thesis
    using expand_geo_all [OF ip(1) [unfolded expandGeoIp_def]] expand_geo_all [OF site(1) [unfolded expandGeoSite_def]]
    unfolding geo_tags_resolve_def ip(2) site(2) or_else_non_empty by fastforce
qed

lemma route_references_ok:
  assumes "read_from raw c" "r \<in> set (rtc_rules (cfg_route c))"
  shows "geo_tags_resolve (geo_geoip (cfg_geo c)) (cru_geoIp r) (rr_ipCidr r) \<and>
    geo_tags_resolve (geo_geosite (cfg_geo c)) (cru_geoSite r) (rr_domainSuffix r)"
  using parseRouter_rules [of raw "cfg_geo c" "cfg_route c" r] parseRouteRule_geo assms by (auto simp: read_from_def)

section \<open>Listening elsewhere\<close>

text \<open>The same configuration with every inbound listening on another address.\<close>

fun relisten_item :: "string \<Rightarrow> json \<Rightarrow> json" where
  "relisten_item l (JObj r) = JObj (jm_set ''listen'' (JStr l) r)"
| "relisten_item l v = v"

fun relisten :: "string \<Rightarrow> json \<Rightarrow> json" where
  "relisten l (JObj raw) =
     (case jm_get raw ''inbounds'' of
        Some (JArr vs) \<Rightarrow> JObj (jm_set ''inbounds'' (JArr (map (relisten_item l) vs)) raw)
      | _ \<Rightarrow> JObj raw)"
| "relisten l v = v"

definition inbound_at :: "string \<Rightarrow> inbound_config \<Rightarrow> inbound_config" where
  "inbound_at l i = i\<lparr>inc_base := (inc_base i)\<lparr>inb_listen := l\<rparr>\<rparr>"

lemmas field_readers = readString_def readOptionalString_def readNumber_def readOptionalNumber_def readOptionalBoolean_def
  readStringArray_def readOptionsRecord_def

lemma other_fields:
  assumes "k \<noteq> k'"
  shows "readString (jm_set k' v r) k p = readString r k p" "readOptionalString (jm_set k' v r) k p = readOptionalString r k p"
    "readNumber (jm_set k' v r) k p lo hi = readNumber r k p lo hi"
    "readOptionalNumber (jm_set k' v r) k p lo hi = readOptionalNumber r k p lo hi"
    "readOptionalBoolean (jm_set k' v r) k p = readOptionalBoolean r k p"
    "readOptionsRecord (jm_set k' v r) k p = readOptionsRecord r k p"
    "read_section (jm_set k' v r) k m d f = read_section r k m d f"
    "booleanOr (jm_set k' v r) k p b = booleanOr r k p b"
  using assms by (simp_all add: field_readers read_section_def booleanOr_def)

lemma parse_inbound_kind_relisten:
  "parse_inbound_kind (jm_set ''listen'' v r) path k = parse_inbound_kind r path k"
  by (simp add: parse_inbound_kind_def parseHttpAuth_def parse_socks_inbound_def parseSocksAuth_def parseAuth_def
      parse_shadowsocks_inbound_def parse_trojan_inbound_def parse_inbound_tls_def other_fields)

lemma parseInbound_relisten:
  assumes "snd (parseInbound path v) = []" "\<not> blank_text l"
  shows "parseInbound path (relisten_item l v) = (map_option (inbound_at l) (fst (parseInbound path v)), [])"
proof (cases v)
  case (JObj r)
  have listen: "readString (jm_set ''listen'' (JStr l) r) ''listen'' path = (Some l, [])"
    using assms(2) by (simp add: readString_def)
  note fields = parseInbound_def other_fields parse_inbound_kind_relisten listen
  from assms(1) have clean: "snd (readString r ''type'' path) = []" "snd (readString r ''tag'' path) = []"
    "snd (readString r ''listen'' path) = []" "snd (readNumber r ''port'' path 0 65535) = []"
    by (auto simp: parseInbound_def JObj Let_def split: option.splits)
  obtain k t l0 n where "fst (readString r ''type'' path) = Some k" "fst (readString r ''tag'' path) = Some t"
    "fst (readString r ''listen'' path) = Some l0" "fst (readNumber r ''port'' path 0 65535) = Some n"
    using clean readString_clean readNumber_clean by meson
  with assms(1) clean show ?thesis
    by (simp add: JObj fields Let_def option.map_comp comp_def inbound_at_def)
qed (use assms(1) in \<open>simp_all add: parseInbound_def\<close>)

lemma parse_inbounds_relisten:
  assumes "snd (parse_items parseInbound path i vs) = []" "\<not> blank_text l"
  shows "parse_items parseInbound path i (map (relisten_item l) vs) = (map (inbound_at l) (fst (parse_items parseInbound path i vs)), [])"
  using assms(1)
proof (induction vs arbitrary: i)
  case (Cons v vs)
  then have "snd (parseInbound (at_item path i) v) = []" "snd (parse_items parseInbound path (Suc i) vs) = []"
    by (simp_all add: Let_def)
  with Cons.IH parseInbound_relisten [OF _ assms(2)] show ?case by (simp add: Let_def split: option.splits)
qed simp

lemma sections_relisten:
  "parseLog (jm_set ''inbounds'' v r) = parseLog r" "parseLimits (jm_set ''inbounds'' v r) = parseLimits r"
  "parseDns (jm_set ''inbounds'' v r) = parseDns r" "parseGeo (jm_set ''inbounds'' v r) = parseGeo r"
  "parsePlugins (jm_set ''inbounds'' v r) = parsePlugins r" "parseWorkers (jm_set ''inbounds'' v r) = parseWorkers r"
  "parseTransport (jm_set ''inbounds'' v r) = parseTransport r"
  "parseConnectionPool (jm_set ''inbounds'' v r) = parseConnectionPool r" "parseHotReload (jm_set ''inbounds'' v r) = parseHotReload r"
  "parseReload (jm_set ''inbounds'' v r) = parseReload r" "parseProbing (jm_set ''inbounds'' v r) = parseProbing r"
  "parseObservability (jm_set ''inbounds'' v r) = parseObservability r" "parseDashboard (jm_set ''inbounds'' v r) = parseDashboard r"
  "parseTun (jm_set ''inbounds'' v r) = parseTun r"
  by (unfold parseLog_def parseLimits_def parseDns_def parseGeo_def parsePlugins_def parseWorkers_def parseTransport_def
      parseConnectionPool_def parseHotReload_def parseReload_def parseProbing_def parseObservability_def parseDashboard_def parseTun_def)
    (rule other_fields(7), simp)+

lemma rest_relisten:
  "parseConfigVersion (jm_set ''inbounds'' v r) = parseConfigVersion r"
  "parseRouter (jm_set ''inbounds'' v r) geo = parseRouter r geo"
  "parse_required_items parseOutbound ''outbounds'' (jm_set ''inbounds'' v r) = parse_required_items parseOutbound ''outbounds'' r"
  by (simp_all add: parseConfigVersion_def parseRouter_def parse_required_items_def)

lemmas moved_sections = sections_relisten rest_relisten

lemma relisten_checks:
  assumes "check_messages c True = []" "l \<notin> set PUBLIC_LISTEN_ADDRESSES" "at = c\<lparr>cfg_inbounds := map (inbound_at l) (cfg_inbounds c)\<rparr>"
  shows "check_messages at True = []"
proof -
  have same: "cfg_outbounds at = cfg_outbounds c" "cfg_plugins at = cfg_plugins c" "cfg_dns at = cfg_dns c" "cfg_route at = cfg_route c"
    by (simp_all add: assms(3))
  have tags: "map inbound_tag (cfg_inbounds at) = map inbound_tag (cfg_inbounds c)" by (simp add: assms(3) inbound_at_def comp_def)
  have old: "checkPublicExposure c = []" using assms(1) unfolding check_messages_def by simp
  have "checkPublicExposure at = []"
    using old assms(2) unfolding checkPublicExposure_iff by (auto simp: assms(3) inbound_at_def)
  moreover have "checkDnsReferences at = checkDnsReferences c" "checkOutboundReferences at = checkOutboundReferences c"
    unfolding checkDnsReferences_def checkOutboundReferences_def same by (rule refl)+
  ultimately show ?thesis using assms(1) unfolding check_messages_def same tags old by simp
qed

lemma parseConfig_relisten:
  assumes "parseConfig v = Inr c" "\<not> blank_text l" "l \<notin> set PUBLIC_LISTEN_ADDRESSES"
  shows "parseConfig (relisten l v) = Inr (c\<lparr>cfg_inbounds := map (inbound_at l) (cfg_inbounds c)\<rparr>)"
proof -
  from parseConfig_InrD [OF assms(1)] obtain raw where v: "v = JObj raw" and raw: "read_from raw c" by blast
  from raw have ins: "parse_required_items parseInbound ''inbounds'' raw = (cfg_inbounds c, [])"
    and route: "parseRouter raw (cfg_geo c) = Inr (Some (cfg_route c), [])" and geo: "fst (parseGeo raw) = cfg_geo c"
    by (simp_all add: read_from_def)
  from ins obtain w ws where vs: "jm_get raw ''inbounds'' = Some (JArr (w # ws))"
    and items: "parse_items parseInbound ''inbounds'' 0 (w # ws) = (cfg_inbounds c, [])"
    by (auto simp: parse_required_items_def simp del: parse_items.simps split: option.splits json.splits list.splits)
  let ?raw = "jm_set ''inbounds'' (JArr (map (relisten_item l) (w # ws))) raw"
  have "parse_items parseInbound ''inbounds'' 0 (map (relisten_item l) (w # ws)) = (map (inbound_at l) (cfg_inbounds c), [])"
    using parse_inbounds_relisten [OF _ assms(2), of "''inbounds''" 0 "w # ws"] items by (simp del: parse_items.simps list.map)
  then have moved: "parse_required_items parseInbound ''inbounds'' ?raw = (map (inbound_at l) (cfg_inbounds c), [])"
    by (simp add: parse_required_items_def del: parse_items.simps)
  from assms(1) have old: "read_messages raw = []" "check_messages c True = []" "c = assemble raw (Some (cfg_route c))"
    using route by (simp_all add: parseConfig_def v geo Let_def split: if_splits)
  have "assemble ?raw (Some (cfg_route c)) = c\<lparr>cfg_inbounds := map (inbound_at l) (cfg_inbounds c)\<rparr>"
    by (subst (2) old(3)) (simp add: assemble_def moved_sections moved del: list.map)
  moreover have "read_messages ?raw = []"
    using old(1) unfolding read_messages_def moved_sections moved by simp
  ultimately show ?thesis
    using route geo relisten_checks [OF old(2) assms(3) refl]
    by (simp add: v vs parseConfig_def moved_sections Let_def del: list.map)
qed

section \<open>Properties\<close>

text \<open>
  Property C33. References of an accepted configuration resolve: the tags of inbounds, of DNS servers,
  of plugin modules and of WebAssembly extensions are unique, no outbound or policy shares its tag with
  another, the default, every rule and every rule-set file goes to one of them, policies choose among
  outbounds, DNS rules name a server, and every geo tag of a rule is a known one, whose address blocks
  or domain suffixes the rule contains.
\<close>

theorem config_references:
  assumes "parseConfig v = Inr c"
  shows "let out = map outbound_tag (cfg_outbounds c); route = cfg_route c; targets = out @ map rp_tag (rtc_policies route) in
    distinct (map inbound_tag (cfg_inbounds c)) \<and> distinct targets \<and> rtc_defaultOutbound route \<in> set targets \<and>
    distinct (map plm_tag (plg_modules (cfg_plugins c))) \<and> distinct (map wex_tag (plg_wasm (cfg_plugins c))) \<and>
    (\<forall>r \<in> set (rtc_rules route). rr_outboundTag r \<in> set targets \<and>
      (\<forall>t \<in> set (or_else (cru_geoIp r) []). \<exists>vs. jm_get (geo_geoip (cfg_geo c)) (js_lower t) = Some vs \<and>
         set vs \<subseteq> set (or_else (rr_ipCidr r) [])) \<and>
      (\<forall>t \<in> set (or_else (cru_geoSite r) []). \<exists>vs. jm_get (geo_geosite (cfg_geo c)) (js_lower t) = Some vs \<and>
         set vs \<subseteq> set (or_else (rr_domainSuffix r) []))) \<and>
    (\<forall>f \<in> set (rtc_ruleSetFiles route). rsf_outboundTag f \<in> set targets) \<and>
    (\<forall>p \<in> set (rtc_policies route). set (rp_outbounds p) \<subseteq> set out) \<and>
    distinct (map ds_tag (dc_udpServers (cfg_dns c))) \<and>
    (\<forall>r \<in> set (dc_rules (cfg_dns c)). dru_serverTag r \<in> ds_tag ` set (dc_udpServers (cfg_dns c)))"
proof -
  from parseConfig_InrD [OF assms] obtain raw where "read_from raw c" "checks_passed c" by blast
  then show ?thesis
    using route_references_ok [of raw c]
    unfolding checks_passed_def checkOutboundReferences_iff checkDnsReferences_iff geo_tags_resolve_def Let_def by auto
qed

text \<open>
  Property C34. What counts as public is three spellings of the wildcard address. On these, an accepted
  configuration has only HTTP and SOCKS inbounds with authentication on, so none of Shadowsocks or
  Trojan, which have passwords of their own; metrics and dashboard do not listen there, and the token
  of the dashboard is not the default and has sixteen characters at least. Any other address is
  accepted whatever listens on it: an accepted configuration stays accepted, with nothing else changed,
  when all its inbounds move to any text that is none of the three, be it \<^verbatim>\<open>::0\<close>, which is
  the same wildcard address, or the address of a public interface.
\<close>

theorem config_exposure:
  assumes "parseConfig v = Inr c"
  shows "(\<forall>i \<in> set (cfg_inbounds c). inb_listen (inc_base i) \<in> {''0.0.0.0'', ''::'', ''[::]''} \<longrightarrow>
       (\<exists>a. au_enabled a \<and> (inc_kind i = HttpInbound (Some a) \<or> (\<exists>u. inc_kind i = Socks5Inbound u (Some a))))) \<and>
     (mtr_enabled (cfg_observability c) \<longrightarrow> mtr_listen (cfg_observability c) \<notin> {''0.0.0.0'', ''::'', ''[::]''}) \<and>
     (dsh_enabled (cfg_dashboard c) \<longrightarrow> dsh_listen (cfg_dashboard c) \<notin> {''0.0.0.0'', ''::'', ''[::]''} \<and>
        dsh_token (cfg_dashboard c) \<noteq> ''change-me'' \<and> 16 \<le> length (dsh_token (cfg_dashboard c))) \<and>
     (\<forall>l. \<not> blank_text l \<and> l \<notin> {''0.0.0.0'', ''::'', ''[::]''} \<longrightarrow>
        parseConfig (relisten l v) = Inr (c\<lparr>cfg_inbounds := map (inbound_at l) (cfg_inbounds c)\<rparr>))"
proof -
  have auth: "authenticated k \<longleftrightarrow> (\<exists>a. au_enabled a \<and> (k = HttpInbound (Some a) \<or> (\<exists>u. k = Socks5Inbound u (Some a))))" for k
    by (cases k rule: authenticated.cases) auto
  have public: "set PUBLIC_LISTEN_ADDRESSES = {''0.0.0.0'', ''::'', ''[::]''}" by (simp add: PUBLIC_LISTEN_ADDRESSES_def)
  from parseConfig_InrD [OF assms] have "checkPublicExposure c = []" by (auto simp: checks_passed_def)
  with parseConfig_relisten [OF assms] show ?thesis unfolding checkPublicExposure_iff auth public by blast
qed

section \<open>Ranges\<close>

lemma parse_required_items_sound:
  assumes "parse_required_items p key r = (xs, [])" "x \<in> set xs"
  shows "\<exists>v j. fst (p (at_item key j) v) = Some x \<and> snd (p (at_item key j) v) = []"
proof -
  from assms obtain v vs where "parse_items p key 0 (v # vs) = (xs, [])"
    by (auto simp: parse_required_items_def split: option.splits json.splits list.splits)
  then show ?thesis using parse_items_sound [of x p key 0 "v # vs"] assms(2) by (metis fst_conv snd_conv)
qed

lemma parse_required_items_nonempty:
  assumes "parse_required_items p key r = (xs, [])" "\<And>path v. fst (p path v) = None \<Longrightarrow> snd (p path v) \<noteq> []"
  shows "xs \<noteq> []"
  using assms by (auto simp: parse_required_items_def Let_def split: option.splits json.splits list.splits)

lemma clean_or_None:
  "snd (readString r k p) = [] \<Longrightarrow> fst (readString r k p) \<noteq> None"
  "snd (readNumber r k p lo hi) = [] \<Longrightarrow> fst (readNumber r k p lo hi) \<noteq> None"
  by (auto dest: readString_clean readNumber_clean)

lemma parseInbound_base:
  "fst (parseInbound path v) = Some x \<Longrightarrow> 0 \<le> inb_port (inc_base x) \<and> inb_port (inc_base x) \<le> 65535 \<and>
     (\<forall>n. inb_connectTimeoutMs (inc_base x) = Some n \<longrightarrow> 1 \<le> n \<and> n \<le> 300000) \<and>
     (\<forall>n. inb_idleTimeoutMs (inc_base x) = Some n \<longrightarrow> 1 \<le> n \<and> n \<le> 3600000) \<and>
     (\<forall>n. inb_maxHeaderBytes (inc_base x) = Some n \<longrightarrow> 1024 \<le> n \<and> n \<le> 1024 * 1024)"
  by (auto simp: parseInbound_def Let_def dest!: readNumber_range readOptionalNumber_range
      split: json.splits option.splits)

fun outbound_port :: "outbound_kind \<Rightarrow> int option" where
  "outbound_port (TcpRelayOutbound h p) = Some p"
| "outbound_port (ShadowsocksOutbound h p c w) = Some p"
| "outbound_port (TrojanOutbound h p w t) = Some p"
| "outbound_port (WireGuardOutbound k a peer r) = Some (wgp_endpointPort peer)"
| "outbound_port _ = None"

lemma parse_outbound_kind_port:
  "fst (parse_outbound_kind r path k) = Some x \<Longrightarrow> outbound_port x = Some n \<Longrightarrow> 1 \<le> n \<and> n \<le> 65535"
  by (auto simp: parse_outbound_kind_def parse_relay_def parse_shadowsocks_outbound_def parse_trojan_outbound_def
      parse_wireguard_def Let_def dest!: readNumber_range split: if_splits option.splits json.splits)

lemma parseOutbound_port:
  "fst (parseOutbound path v) = Some x \<Longrightarrow> outbound_port (otc_kind x) = Some n \<Longrightarrow> 1 \<le> n \<and> n \<le> 65535"
  by (auto simp: parseOutbound_def Let_def dest: parse_outbound_kind_port split: json.splits option.splits)

lemma readByteArray_range: "fst (readByteArray r k p) = Some bs \<Longrightarrow> n \<in> set bs \<Longrightarrow> 0 \<le> n \<and> n \<le> 255"
  by (auto simp: readByteArray_def Let_def integer_in_Some split: option.splits json.splits dest!: read_items_sound)

lemma parse_outbound_kind_bytes:
  "fst (parse_outbound_kind r path k) = Some (WireGuardOutbound key address peer (Some bs)) \<Longrightarrow> n \<in> set bs \<Longrightarrow> 0 \<le> n \<and> n \<le> 255"
  by (auto simp: parse_outbound_kind_def parse_relay_def parse_shadowsocks_outbound_def parse_trojan_outbound_def
      parse_wireguard_def Let_def dest: readByteArray_range split: if_splits option.splits json.splits)

definition outbound_in_range :: "outbound_config \<Rightarrow> bool" where
  "outbound_in_range x \<longleftrightarrow>
     (\<forall>n. outbound_port (otc_kind x) = Some n \<longrightarrow> n \<in> {1..65535}) \<and>
     (\<forall>n. otb_connectTimeoutMs (otc_base x) = Some n \<longrightarrow> n \<in> {1..300000}) \<and>
     (\<forall>n. otb_idleTimeoutMs (otc_base x) = Some n \<longrightarrow> n \<in> {1..3600000}) \<and>
     (\<forall>key address peer bs. otc_kind x = WireGuardOutbound key address peer (Some bs) \<longrightarrow> set bs \<subseteq> {0..255})"

lemma parseOutbound_range:
  assumes "fst (parseOutbound path v) = Some x"
  shows "outbound_in_range x"
proof -
  have "otb_connectTimeoutMs (otc_base x) = Some n \<Longrightarrow> n \<in> {1..300000}" "otb_idleTimeoutMs (otc_base x) = Some n \<Longrightarrow> n \<in> {1..3600000}" for n
    using assms by (auto simp: parseOutbound_def Let_def dest!: readOptionalNumber_range split: json.splits option.splits)
  moreover have "set bs \<subseteq> {0..255}" if "otc_kind x = WireGuardOutbound key address peer (Some bs)" for key address peer bs
    using assms that by (auto simp: parseOutbound_def Let_def dest: parse_outbound_kind_bytes split: json.splits option.splits)
  ultimately show ?thesis using parseOutbound_port [OF assms] unfolding outbound_in_range_def by auto
qed

definition inbound_in_range :: "inbound_config \<Rightarrow> bool" where
  "inbound_in_range x \<longleftrightarrow> inb_port (inc_base x) \<in> {0..65535} \<and>
     (\<forall>n. inb_connectTimeoutMs (inc_base x) = Some n \<longrightarrow> n \<in> {1..300000}) \<and>
     (\<forall>n. inb_idleTimeoutMs (inc_base x) = Some n \<longrightarrow> n \<in> {1..3600000}) \<and>
     (\<forall>n. inb_maxHeaderBytes (inc_base x) = Some n \<longrightarrow> n \<in> {1024..1048576})"

lemma parseInbound_range: "fst (parseInbound path v) = Some x \<Longrightarrow> inbound_in_range x"
  using parseInbound_base [of path v x] by (auto simp: inbound_in_range_def)

lemma read_section_cases:
  "fst (read_section r key msg d f) = x \<Longrightarrow> x = d \<or> (\<exists>s. x = fst (f s))"
  by (auto simp: read_section_def split: option.splits json.splits)

definition limits_in_range :: "limit_config \<Rightarrow> bool" where
  "limits_in_range l \<longleftrightarrow> lim_connectTimeoutMs l \<in> {1..300000} \<and> lim_handshakeTimeoutMs l \<in> {1..300000} \<and>
     lim_idleTimeoutMs l \<in> {1..3600000} \<and> lim_shutdownTimeoutMs l \<in> {1..300000} \<and> lim_maxHeaderBytes l \<in> {1024..1048576} \<and>
     lim_maxConnections l \<in> {1..1000000} \<and> lim_leakReportIntervalMs l \<in> {1000..3600000} \<and>
     lim_maxUdpSessions l \<in> {1..1000000} \<and> lim_udpIdleTimeoutMs l \<in> {100..3600000}"

lemma parseLimits_range: "limits_in_range (fst (parseLimits r))"
proof -
  have "limits_in_range DEFAULT_LIMITS" by (simp add: limits_in_range_def DEFAULT_LIMITS_def)
  then show ?thesis
    unfolding parseLimits_def read_section_def
    by (auto simp: limits_in_range_def Let_def numberOr_range split: option.splits json.splits)
qed

definition dns_in_range :: "dns_config \<Rightarrow> bool" where
  "dns_in_range d \<longleftrightarrow> dc_cacheTtlMs d \<in> {1..3600000} \<and>
     (\<exists>n \<in> {1..1000000}. dc_cacheMaxEntries d = Some n) \<and> (\<exists>n \<in> {0..300000}. dc_negativeTtlMs d = Some n) \<and>
     (\<forall>s \<in> set (dc_udpServers d). ds_port s \<in> {1..65535} \<and> ds_timeoutMs s \<in> {1..30000} \<and> \<not> blank_text (ds_tag s)) \<and>
     doh_timeoutMs (dc_doh d) \<in> {1..30000} \<and> (\<exists>n \<in> {1..131070}. fic_size (dc_fakeIp d) = Some n) \<and>
     (\<exists>n \<in> {1..86400}. fic_ttlSeconds (dc_fakeIp d) = Some n)"

lemma numberOr_nat:
  "lo \<le> d \<Longrightarrow> d \<le> hi \<Longrightarrow> nat lo \<le> nat (fst (numberOr r k p lo hi d)) \<and> nat (fst (numberOr r k p lo hi d)) \<le> nat hi"
  using numberOr_range [of lo d hi r k p] by (simp add: nat_mono)

lemma parseDnsUdpServer_range:
  "fst (parseDnsUdpServer path v) = Some s \<Longrightarrow>
     ds_port s \<in> {1..65535} \<and> ds_timeoutMs s \<in> {1..30000} \<and> \<not> blank_text (ds_tag s)"
  using numberOr_nat [of 1 53 65535] numberOr_nat [of 1 1000 30000]
  by (auto simp: parseDnsUdpServer_def Let_def dest!: readString_Some split: json.splits option.splits)

lemma parseDoh_range: "doh_timeoutMs (fst (parseDoh r)) \<in> {1..30000}"
  by (auto simp: parseDoh_def read_section_def DEFAULT_DOH_def numberOr_range Let_def split: option.splits json.splits)

lemma parseFakeIp_range:
  "\<exists>n \<in> {1..131070}. fic_size (fst (parseFakeIp r)) = Some n" "\<exists>n \<in> {1..86400}. fic_ttlSeconds (fst (parseFakeIp r)) = Some n"
proof -
  have "nat (fst (numberOr s k p 1 131070 65536)) \<in> {1..131070}" for s k p
    using numberOr_nat [of 1 65536 131070 s k p] by simp
  then show "\<exists>n \<in> {1..131070}. fic_size (fst (parseFakeIp r)) = Some n"
    by (auto simp: parseFakeIp_def read_section_def DEFAULT_FAKE_IP_def Let_def split: option.splits json.splits)
  show "\<exists>n \<in> {1..86400}. fic_ttlSeconds (fst (parseFakeIp r)) = Some n"
    by (auto simp: parseFakeIp_def read_section_def DEFAULT_FAKE_IP_def numberOr_range Let_def split: option.splits json.splits)
qed

lemma parseDns_range: "dns_in_range (fst (parseDns r))"
proof -
  have "dns_in_range DEFAULT_DNS" by (simp add: dns_in_range_def DEFAULT_DNS_def DEFAULT_DOH_def DEFAULT_FAKE_IP_def)
  moreover have "ds_port s \<in> {1..65535} \<and> ds_timeoutMs s \<in> {1..30000} \<and> \<not> blank_text (ds_tag s)"
    if "s \<in> set (fst (parse_optional_items parseDnsUdpServer path v))" for s path v
    using parse_optional_items_sound [OF that] parseDnsUdpServer_range by blast
  moreover have "nat (fst (numberOr s k p 1 1000000 4096)) \<in> {1..1000000}" for s k p
    using numberOr_nat [of 1 4096 1000000 s k p] by simp
  ultimately show ?thesis
    using parseFakeIp_range parseDoh_range
    unfolding parseDns_def read_section_def
    by (auto simp: dns_in_range_def Let_def numberOr_range DEFAULT_DNS_def split: option.splits json.splits)
qed

text \<open>The sections that stand for themselves.\<close>

definition sections_in_range :: "sepigs_config \<Rightarrow> bool" where
  "sections_in_range c \<longleftrightarrow>
     wrk_size (cfg_workers c) \<in> {1..128} \<and> wrk_taskTimeoutMs (cfg_workers c) \<in> {1..3600000} \<and>
     quic_handshakeTimeoutMs (cfg_transport c) \<in> {1..300000} \<and>
     cpo_maxIdlePerEndpoint (cfg_connectionPool c) \<in> {0..10000} \<and> cpo_idleTimeoutMs (cfg_connectionPool c) \<in> {1..3600000} \<and>
     hrl_debounceMs (cfg_hotReload c) \<in> {10..60000} \<and> rld_timeoutMs (cfg_reload c) \<in> {100..60000} \<and>
     prb_intervalMs (cfg_probing c) \<in> {100..3600000} \<and> prb_timeoutMs (cfg_probing c) \<in> {1..300000} \<and>
     prb_maxConcurrency (cfg_probing c) \<in> {1..1000} \<and> prb_budgetPerInterval (cfg_probing c) \<in> {1..1000000} \<and>
     prb_backoffBaseMs (cfg_probing c) \<in> {1..3600000} \<and> prb_backoffMaxMs (cfg_probing c) \<in> {1..86400000} \<and>
     mtr_port (cfg_observability c) \<in> {0..65535} \<and> dsh_port (cfg_dashboard c) \<in> {0..65535} \<and>
     dsh_rateLimitPerMinute (cfg_dashboard c) \<in> {1..100000} \<and> tun_mtu (cfg_tun c) \<in> {576..65535} \<and>
     pli_timeoutMs (plg_isolation (cfg_plugins c)) \<in> {1..300000} \<and>
     pli_memoryLimitMb (plg_isolation (cfg_plugins c)) \<in> {16..4096} \<and>
     pli_stdoutLimitBytes (plg_isolation (cfg_plugins c)) \<in> {1024..10485760}"

lemma small_sections_range:
  "wrk_size (fst (parseWorkers r)) \<in> {1..128} \<and> wrk_taskTimeoutMs (fst (parseWorkers r)) \<in> {1..3600000}"
  "quic_handshakeTimeoutMs (fst (parseTransport r)) \<in> {1..300000}"
  "cpo_maxIdlePerEndpoint (fst (parseConnectionPool r)) \<in> {0..10000} \<and> cpo_idleTimeoutMs (fst (parseConnectionPool r)) \<in> {1..3600000}"
  "hrl_debounceMs (fst (parseHotReload r)) \<in> {10..60000}" "rld_timeoutMs (fst (parseReload r)) \<in> {100..60000}"
  by (auto simp: parseWorkers_def parseTransport_def parseConnectionPool_def parseHotReload_def parseReload_def read_section_def
      DEFAULT_WORKERS_def DEFAULT_TRANSPORT_def DEFAULT_CONNECTION_POOL_def DEFAULT_HOT_RELOAD_def DEFAULT_RELOAD_def
      numberOr_range Let_def split: option.splits json.splits)

lemma probing_range:
  "prb_intervalMs (fst (parseProbing r)) \<in> {100..3600000} \<and> prb_timeoutMs (fst (parseProbing r)) \<in> {1..300000} \<and>
   prb_maxConcurrency (fst (parseProbing r)) \<in> {1..1000} \<and> prb_budgetPerInterval (fst (parseProbing r)) \<in> {1..1000000} \<and>
   prb_backoffBaseMs (fst (parseProbing r)) \<in> {1..3600000} \<and> prb_backoffMaxMs (fst (parseProbing r)) \<in> {1..86400000}"
  by (auto simp: parseProbing_def read_section_def DEFAULT_PROBING_def numberOr_range Let_def split: option.splits json.splits)

lemma server_sections_range:
  "mtr_port (fst (parseObservability r)) \<in> {0..65535}"
  "dsh_port (fst (parseDashboard r)) \<in> {0..65535} \<and> dsh_rateLimitPerMinute (fst (parseDashboard r)) \<in> {1..100000}"
  "tun_mtu (fst (parseTun r)) \<in> {576..65535}"
  by (auto simp: parseObservability_def parseMetricsServer_def parseDashboard_def parseTun_def read_section_def
      DEFAULT_OBSERVABILITY_def DEFAULT_DASHBOARD_def DEFAULT_TUN_def numberOr_range Let_def split: option.splits json.splits)

lemma plugins_range:
  "pli_timeoutMs (plg_isolation (fst (parsePlugins r))) \<in> {1..300000} \<and> pli_memoryLimitMb (plg_isolation (fst (parsePlugins r))) \<in> {16..4096} \<and>
   pli_stdoutLimitBytes (plg_isolation (fst (parsePlugins r))) \<in> {1024..10485760}"
  by (auto simp: parsePlugins_def parsePluginIsolation_def read_section_def DEFAULT_PLUGINS_def DEFAULT_ISOLATION_def
      numberOr_range Let_def split: option.splits json.splits)

lemma read_from_sections: "read_from raw c \<Longrightarrow> sections_in_range c"
  using small_sections_range [of raw] probing_range [of raw] server_sections_range [of raw] plugins_range [of raw]
  by (simp add: read_from_def sections_in_range_def)

lemma parseRoutingPolicy_range:
  "fst (parseRoutingPolicy path v) = Some p \<Longrightarrow> rp_unhealthyAfterFailures p \<in> {1..1000} \<and> rp_recoverAfterMs p \<in> {1..3600000}"
  using numberOr_nat [of 1 3 1000] numberOr_range [of 1 30000 3600000]
  by (auto simp: parseRoutingPolicy_def Let_def split: json.splits option.splits)

lemma parseRoutingPolicy_outbounds:
  "fst (parseRoutingPolicy path v) = Some p \<Longrightarrow> snd (parseRoutingPolicy path v) = [] \<Longrightarrow> rp_outbounds p \<noteq> []"
  by (auto simp: parseRoutingPolicy_def Let_def split: json.splits option.splits)

definition rule_ok :: "config_rule \<Rightarrow> bool" where
  "rule_ok r \<longleftrightarrow> (\<forall>ps. rr_port r = Some ps \<longrightarrow> (\<forall>p \<in> set ps. p \<in> {1..65535})) \<and>
     (\<forall>cs. rr_ipCidr r = Some cs \<longrightarrow> (\<forall>c \<in> set cs. isValidCidr c))"

lemma readPortArray_range: "fst (readPortArray r k p) = Some ps \<Longrightarrow> n \<in> set ps \<Longrightarrow> 1 \<le> n \<and> n \<le> 65535"
  by (auto simp: readPortArray_def Let_def integer_in_Some split: option.splits dest!: read_items_sound)

lemma parseRouteRule_ok:
  assumes "parseRouteRule geo path v = Inr (Some r, [])"
  shows "rule_ok r"
proof -
  from assms obtain raw cs where ports: "rr_port r = map_option (map nat) (fst (readPortArray raw ''port'' path))"
    and cidrs: "rr_ipCidr r = non_empty cs" "check_cidrs path cs = []"
    by (auto simp: parseRouteRule_def Let_def rbind_Inr_iff split: json.splits option.splits)
  have "p \<in> {1..65535}" if "rr_port r = Some ps" "p \<in> set ps" for p ps
  proof -
    from that ports obtain n ns where "fst (readPortArray raw ''port'' path) = Some ns" "n \<in> set ns" "p = nat n" by auto
    with readPortArray_range [of raw "''port''" path ns n] show ?thesis by (simp add: Suc_le_eq nat_le_iff)
  qed
  moreover have "\<forall>c \<in> set cs. isValidCidr c" using cidrs(2) by (simp add: check_cidrs_Nil)
  ultimately show ?thesis using cidrs(1) by (auto simp: rule_ok_def non_empty_def split: if_splits)
qed

lemma parseRouter_ok:
  assumes "parseRouter raw geo = Inr (Some route, [])"
  shows "(\<forall>r \<in> set (rtc_rules route). rule_ok r) \<and>
     (\<forall>p \<in> set (rtc_policies route). rp_outbounds p \<noteq> [] \<and> rp_unhealthyAfterFailures p \<in> {1..1000} \<and>
        rp_recoverAfterMs p \<in> {1..3600000})"
proof -
  from assms obtain r where policies: "parse_optional_items parseRoutingPolicy ''route.policies'' (jm_get r ''policies'') = (rtc_policies route, [])"
    by (auto simp: parseRouter_def Let_def rbind_Inr_iff prod_eq_iff split: option.splits json.splits)
  have "rp_outbounds p \<noteq> [] \<and> rp_unhealthyAfterFailures p \<in> {1..1000} \<and> rp_recoverAfterMs p \<in> {1..3600000}"
    if "p \<in> set (rtc_policies route)" for p
  proof -
    from that policies obtain w j where "fst (parseRoutingPolicy (at_item ''route.policies'' j) w) = Some p"
      "snd (parseRoutingPolicy (at_item ''route.policies'' j) w) = []"
      using parse_optional_items_sound [of p parseRoutingPolicy "''route.policies''" "jm_get r ''policies''"] by auto
    then show ?thesis using parseRoutingPolicy_range parseRoutingPolicy_outbounds by blast
  qed
  moreover have "rule_ok r" if "r \<in> set (rtc_rules route)" for r
    using parseRouter_rules [OF assms that] parseRouteRule_ok by blast
  ultimately show ?thesis by blast
qed

text \<open>
  Property C35. Every number of an accepted configuration that the parser reads is in its range: the
  limits, the DNS section with its servers, fake addresses and DNS over HTTPS, workers, transport,
  connection pool, reloading, probing, metrics, dashboard, TUN and plugin isolation; the ports (0 asks
  the system for one), timeouts and header limits of inbounds; the ports and timeouts of outbounds and
  WireGuard's reserved bytes; the ports of rules and the thresholds of policies. Besides, every policy
  has an outbound and every CIDR of a rule parses. Options of plugin in- and outbounds are not read.
\<close>

theorem config_in_range:
  assumes "parseConfig v = Inr c"
  shows "limits_in_range (cfg_limits c) \<and> dns_in_range (cfg_dns c) \<and> sections_in_range c \<and>
     (\<forall>i \<in> set (cfg_inbounds c). inbound_in_range i) \<and> (\<forall>x \<in> set (cfg_outbounds c). outbound_in_range x) \<and>
     (\<forall>r \<in> set (rtc_rules (cfg_route c)). rule_ok r) \<and>
     (\<forall>p \<in> set (rtc_policies (cfg_route c)). rp_outbounds p \<noteq> [] \<and> rp_unhealthyAfterFailures p \<in> {1..1000} \<and>
        rp_recoverAfterMs p \<in> {1..3600000})"
proof -
  from parseConfig_InrD [OF assms] obtain raw where from_raw: "read_from raw c" by blast
  then have "limits_in_range (cfg_limits c)" "dns_in_range (cfg_dns c)"
    using parseLimits_range [of raw] parseDns_range [of raw] by (simp_all add: read_from_def)
  moreover have "\<forall>i \<in> set (cfg_inbounds c). inbound_in_range i"
    using from_raw parse_required_items_sound [of parseInbound "''inbounds''" raw "cfg_inbounds c"] parseInbound_range
    unfolding read_from_def by blast
  moreover have "\<forall>x \<in> set (cfg_outbounds c). outbound_in_range x"
    using from_raw parse_required_items_sound [of parseOutbound "''outbounds''" raw "cfg_outbounds c"] parseOutbound_range
    unfolding read_from_def by blast
  moreover have "parseRouter raw (cfg_geo c) = Inr (Some (cfg_route c), [])" using from_raw by (simp add: read_from_def)
  note parseRouter_ok [OF this]
  ultimately show ?thesis using read_from_sections [OF from_raw] by blast
qed

lemma expand_geo_Inl:
  "expand_geo table message ts = Inl e \<Longrightarrow> e = not_iterable \<and> (\<exists>t \<in> set ts. inherited (js_lower t) \<and> jm_get table (js_lower t) = None)"
  by (induction ts) (auto simp: rbind_def split: option.splits if_splits sum.splits)

lemma rbind2_Inl: "rbind m (\<lambda>a. rbind n (\<lambda>b. Inr (g a b))) = Inl e \<Longrightarrow> m = Inl e \<or> n = Inl e"
  by (cases m; cases n) simp_all

lemma parseRouteRule_Inl:
  assumes "parseRouteRule geo path v = Inl e"
  shows "e = not_iterable \<and> (\<exists>rule ts t key. v = JObj rule \<and> key \<in> {''geoIp'', ''geoSite''} \<and>
     fst (readStringArray rule key path) = Some ts \<and> t \<in> set ts \<and> inherited (js_lower t))"
proof -
  have expanded: "e = not_iterable \<and> (\<exists>ts t. x = Some ts \<and> t \<in> set ts \<and> inherited (js_lower t))"
    if "expandGeoIp x geo path = Inl e \<or> expandGeoSite x geo path = Inl e" for x
    using that by (cases x) (auto simp: expandGeoIp_def expandGeoSite_def dest!: expand_geo_Inl)
  from assms obtain rule where v: "v = JObj rule" by (cases v) (simp_all add: parseRouteRule_def)
  let ?ip = "fst (readStringArray rule ''geoIp'' path)" and ?site = "fst (readStringArray rule ''geoSite'' path)"
  have "expandGeoIp ?ip geo path = Inl e \<or> expandGeoSite ?site geo path = Inl e"
  proof (cases "fst (readString rule ''outboundTag'' path)")
    case None
    with assms show ?thesis by (simp add: parseRouteRule_def v Let_def)
  next
    case (Some target)
    show ?thesis
      using assms unfolding parseRouteRule_def v json.case Let_def Some option.case by (rule rbind2_Inl)
  qed
  then consider "expandGeoIp ?ip geo path = Inl e" | "expandGeoSite ?site geo path = Inl e" by (rule disjE)
  then show ?thesis
  proof cases
    case 1
    from expanded [OF disjI1 [OF 1]] obtain ts t where "e = not_iterable" "?ip = Some ts" "t \<in> set ts" "inherited (js_lower t)"
      by (elim conjE exE)
    then show ?thesis using v by (intro conjI exI [of _ rule] exI [of _ ts] exI [of _ t] exI [of _ "''geoIp''"]) simp_all
  next
    case 2
    from expanded [OF disjI2 [OF 2]] obtain ts t where "e = not_iterable" "?site = Some ts" "t \<in> set ts" "inherited (js_lower t)"
      by (elim conjE exE)
    then show ?thesis using v by (intro conjI exI [of _ rule] exI [of _ ts] exI [of _ t] exI [of _ "''geoSite''"]) simp_all
  qed
qed

lemma parse_rules_Inl:
  "parse_rules geo i vs = Inl e \<Longrightarrow> e = not_iterable \<and> (\<exists>rule ts t key path. JObj rule \<in> set vs \<and> key \<in> {''geoIp'', ''geoSite''} \<and>
     fst (readStringArray rule key path) = Some ts \<and> t \<in> set ts \<and> inherited (js_lower t))"
proof (induction vs arbitrary: i)
  case (Cons v vs)
  from Cons.prems consider "parseRouteRule geo (at_item ''route.rules'' i) v = Inl e" | "parse_rules geo (Suc i) vs = Inl e"
    by (auto simp: rbind_def split: sum.splits)
  then show ?case
  proof cases
    case 1
    from parseRouteRule_Inl [OF this] show ?thesis by (meson list.set_intros(1))
  next
    case 2
    from Cons.IH [OF this] show ?thesis by (meson list.set_intros(2))
  qed
qed simp

text \<open>
  How parsing fails: with a configuration error that lists what is wrong, or, when a rule
  names the geo tag \<open>constructor\<close> or \<open>__proto__\<close> in any case, with a bare type error, because the geo
  tables are looked up as plain objects.
\<close>

lemma config_errors:
  assumes "parseConfig v = Inl e"
  shows "(\<exists>m. e = ConfigError m) \<or>
     (e = not_iterable \<and> (\<exists>raw r vs rule key path ts t. v = JObj raw \<and> jm_get raw ''route'' = Some (JObj r) \<and>
        jm_get r ''rules'' = Some (JArr vs) \<and> JObj rule \<in> set vs \<and> key \<in> {''geoIp'', ''geoSite''} \<and>
        fst (readStringArray rule key path) = Some ts \<and> t \<in> set ts \<and> js_lower t \<in> {''constructor'', ''__proto__''}))"
proof (cases v)
  case (JObj raw)
  show ?thesis
  proof (cases "parseRouter raw (fst (parseGeo raw))")
    case (Inr route)
    with assms show ?thesis by (auto simp: parseConfig_def JObj Let_def split: if_splits)
  next
    case (Inl err)
    with assms have e: "parseRouter raw (fst (parseGeo raw)) = Inl e" by (simp add: parseConfig_def JObj)
    then obtain r vs where r: "jm_get raw ''route'' = Some (JObj r)" "jm_get r ''rules'' = Some (JArr vs)"
      and "parse_rules (fst (parseGeo raw)) 0 vs = Inl e"
      by (auto simp: parseRouter_def Let_def rbind_def split: option.splits json.splits sum.splits)
    from parse_rules_Inl [OF this(3)] show ?thesis using r JObj unfolding inherited_def by blast
  qed
qed (use assms in \<open>auto simp: parseConfig_def\<close>)

section \<open>Witnesses\<close>

definition sampleInbound :: "string \<Rightarrow> json" where
  "sampleInbound listen = JObj [(''type'', JStr ''http''), (''tag'', JStr ''in''), (''listen'', JStr listen), (''port'', JNum (JInt 8080))]"

definition sampleRoot :: "string \<Rightarrow> string \<Rightarrow> jobj" where
  "sampleRoot listen site =
     [(''inbounds'', JArr [sampleInbound listen]),
      (''outbounds'', JArr [JObj [(''type'', JStr ''direct''), (''tag'', JStr ''out'')]]),
      (''geo'', JObj [(''geosite'', JObj [(''Lan'', JArr [JStr ''lan.example''])])]),
      (''route'', JObj [(''defaultOutbound'', JStr ''out''),
         (''rules'', JArr [JObj [(''outboundTag'', JStr ''out''), (''geoSite'', JArr [JStr site]), (''port'', JNum (JInt 443))]])])]"

definition sampleJson :: "string \<Rightarrow> string \<Rightarrow> json" where
  "sampleJson listen site = JObj (sampleRoot listen site)"

lemmas read_eval = read_section_def numberOr_def booleanOr_def stringOr_def readString_def readOptionalString_def readNumber_def
  readOptionalNumber_def readOptionalBoolean_def integer_in_def readStringArray_def readStringArrayRecord_def readPortArray_def
  blank_text_def js_trim_def is_space_def char_code_def text_item_def put_own_def parse_required_items_def parse_optional_items_def
  Let_def

lemmas section_eval = parseLog_def parseLimits_def parseDns_def parsePlugins_def parseWorkers_def parseTransport_def
  parseConnectionPool_def parseHotReload_def parseReload_def parseProbing_def parseObservability_def parseDashboard_def parseTun_def

lemma lower_geo: "js_lower ''Lan'' = ''lan''" "js_lower ''lan'' = ''lan''" "js_lower ''Constructor'' = ''constructor''"
  by code_simp+

lemma sample_sections:
  "parseLog (sampleRoot l g) = (DEFAULT_LOG, [])" "parseLimits (sampleRoot l g) = (DEFAULT_LIMITS, [])"
  "parseDns (sampleRoot l g) = (DEFAULT_DNS, [])" "parsePlugins (sampleRoot l g) = (DEFAULT_PLUGINS, [])"
  "parseWorkers (sampleRoot l g) = (DEFAULT_WORKERS, [])" "parseTransport (sampleRoot l g) = (DEFAULT_TRANSPORT, [])"
  "parseConnectionPool (sampleRoot l g) = (DEFAULT_CONNECTION_POOL, [])" "parseHotReload (sampleRoot l g) = (DEFAULT_HOT_RELOAD, [])"
  "parseReload (sampleRoot l g) = (DEFAULT_RELOAD, [])" "parseProbing (sampleRoot l g) = (DEFAULT_PROBING, [])"
  "parseObservability (sampleRoot l g) = (DEFAULT_OBSERVABILITY, [])" "parseDashboard (sampleRoot l g) = (DEFAULT_DASHBOARD, [])"
  "parseTun (sampleRoot l g) = (DEFAULT_TUN, [])" "parseConfigVersion (sampleRoot l g) = []"
  by (simp_all add: sampleRoot_def section_eval read_section_def parseConfigVersion_def)

lemma sample_geo: "parseGeo (sampleRoot l g) = (\<lparr>geo_geoip = [], geo_geosite = [(''lan'', [''lan.example''])]\<rparr>, [])"
  by (simp add: sampleRoot_def parseGeo_def read_eval lower_geo)

lemma sample_inbounds:
  "\<not> blank_text l \<Longrightarrow> parse_required_items parseInbound ''inbounds'' (sampleRoot l g) =
     ([\<lparr>inc_base = \<lparr>inb_tag = ''in'', inb_listen = l, inb_port = 8080, inb_connectTimeoutMs = None, inb_idleTimeoutMs = None,
        inb_maxHeaderBytes = None\<rparr>, inc_kind = HttpInbound None\<rparr>], [])"
  by (simp add: sampleRoot_def sampleInbound_def parseInbound_def parse_inbound_kind_def parseHttpAuth_def parseAuth_def read_eval)

lemma sample_outbounds:
  "parse_required_items parseOutbound ''outbounds'' (sampleRoot l g) =
     ([\<lparr>otc_base = \<lparr>otb_tag = ''out'', otb_connectTimeoutMs = None, otb_idleTimeoutMs = None\<rparr>, otc_kind = DirectOutbound\<rparr>], [])"
  by (simp add: sampleRoot_def parseOutbound_def parse_outbound_kind_def read_eval)

lemmas route_eval = sampleRoot_def parseRouter_def parseRouteRule_def expandGeoIp_def expandGeoSite_def
  check_cidrs_def indexed_def non_empty_def

lemma sample_route:
  "\<exists>r. parseRouter (sampleRoot l ''lan'') \<lparr>geo_geoip = [], geo_geosite = [(''lan'', [''lan.example''])]\<rparr> = Inr (Some r, []) \<and>
     rtc_defaultOutbound r = ''out'' \<and> map rr_outboundTag (rtc_rules r) = [''out''] \<and> rtc_policies r = [] \<and> rtc_ruleSetFiles r = []"
  by (simp add: route_eval read_eval lower_geo)

lemma sampleJson_ok:
  assumes "l = ''127.0.0.1'' \<or> l = ''::0''"
  shows "\<exists>c. parseConfig (sampleJson l ''lan'') = Inr c \<and> map (\<lambda>i. (inb_listen (inc_base i), inc_kind i)) (cfg_inbounds c) = [(l, HttpInbound None)]"
proof -
  from sample_route [of l] obtain r where
    "parseRouter (sampleRoot l ''lan'') \<lparr>geo_geoip = [], geo_geosite = [(''lan'', [''lan.example''])]\<rparr> = Inr (Some r, []) \<and>
     rtc_defaultOutbound r = ''out'' \<and> map rr_outboundTag (rtc_rules r) = [''out''] \<and> rtc_policies r = [] \<and> rtc_ruleSetFiles r = []"
    by (rule exE)
  then have r: "parseRouter (sampleRoot l ''lan'') \<lparr>geo_geoip = [], geo_geosite = [(''lan'', [''lan.example''])]\<rparr> = Inr (Some r, [])"
    "rtc_defaultOutbound r = ''out''" "map rr_outboundTag (rtc_rules r) = [''out'']" "rtc_policies r = []" "rtc_ruleSetFiles r = []"
    by - (elim conjE, assumption)+
  have l: "\<not> blank_text l" "l \<notin> set PUBLIC_LISTEN_ADDRESSES"
    using assms by (auto simp: blank_text_def js_trim_def is_space_def char_code_def PUBLIC_LISTEN_ADDRESSES_def)
  have rules: "\<forall>x \<in> set (rtc_rules r). rr_outboundTag x = ''out''" using r(3) by (metis list.set_map imageI list.set(1) list.set(2) insertE empty_iff)
  have "read_messages (sampleRoot l ''lan'') = []"
    by (simp add: read_messages_def sample_sections sample_geo sample_inbounds [OF l(1)] sample_outbounds)
  moreover have "check_messages (assemble (sampleRoot l ''lan'') (Some r)) True = []"
    using rules r(2-5) l(2)
    by (simp add: check_messages_def assemble_def sample_sections sample_geo sample_inbounds [OF l(1)] sample_outbounds
        checkOutboundReferences_iff checkDnsReferences_iff checkPublicExposure_iff DEFAULT_PLUGINS_def DEFAULT_DNS_def
        DEFAULT_OBSERVABILITY_def DEFAULT_DASHBOARD_def Let_def)
  ultimately have "parseConfig (sampleJson l ''lan'') = Inr (assemble (sampleRoot l ''lan'') (Some r))"
    by (simp add: parseConfig_def sampleJson_def sample_geo r(1))
  then show ?thesis by (simp add: assemble_def sample_inbounds [OF l(1)])
qed

lemma config_references_witness:
  "\<exists>c. parseConfig (sampleJson ''127.0.0.1'' ''lan'') = Inr c \<and>
     rtc_defaultOutbound (cfg_route c) \<in> set (map outbound_tag (cfg_outbounds c) @ map rp_tag (rtc_policies (cfg_route c)))"
proof -
  obtain c where c: "parseConfig (sampleJson ''127.0.0.1'' ''lan'') = Inr c" using sampleJson_ok by blast
  from config_references [OF c] have
    "rtc_defaultOutbound (cfg_route c) \<in> set (map outbound_tag (cfg_outbounds c) @ map rp_tag (rtc_policies (cfg_route c)))"
    unfolding Let_def by (elim conjE)
  with c show ?thesis by blast
qed

text \<open>An HTTP proxy without authentication, moved from the loopback address to all of them.\<close>

lemma relisten_sample: "relisten ''::0'' (sampleJson ''127.0.0.1'' site) = sampleJson ''::0'' site"
  by (simp add: sampleJson_def sampleRoot_def sampleInbound_def)

lemma config_exposure_witness:
  "\<exists>c. parseConfig (sampleJson ''127.0.0.1'' ''lan'') = Inr c \<and>
     (\<exists>c'. parseConfig (sampleJson ''::0'' ''lan'') = Inr c' \<and>
        map (\<lambda>i. (inb_listen (inc_base i), inc_kind i)) (cfg_inbounds c') = [(''::0'', HttpInbound None)])"
proof -
  obtain c where c: "parseConfig (sampleJson ''127.0.0.1'' ''lan'') = Inr c"
    "map (\<lambda>i. (inb_listen (inc_base i), inc_kind i)) (cfg_inbounds c) = [(''127.0.0.1'', HttpInbound None)]"
    using sampleJson_ok [OF disjI1 [OF refl]] by (elim exE conjE)
  have l: "\<not> blank_text ''::0'' \<and> ''::0'' \<notin> {''0.0.0.0'', ''::'', ''[::]''}"
    by code_simp
  from config_exposure [OF c(1)] l have
    "parseConfig (sampleJson ''::0'' ''lan'') = Inr (c\<lparr>cfg_inbounds := map (inbound_at ''::0'') (cfg_inbounds c)\<rparr>)"
    unfolding relisten_sample [symmetric] by blast
  moreover have "map (\<lambda>i. (inb_listen (inc_base i), inc_kind i)) (map (inbound_at ''::0'') (cfg_inbounds c)) = [(''::0'', HttpInbound None)]"
    using c(2) by (auto simp: inbound_at_def map_eq_Cons_conv)
  ultimately show ?thesis using c(1) by simp
qed

lemma config_in_range_witness:
  "\<exists>c. parseConfig (sampleJson ''127.0.0.1'' ''lan'') = Inr c \<and> limits_in_range (cfg_limits c) \<and> dns_in_range (cfg_dns c)"
proof -
  obtain c where c: "parseConfig (sampleJson ''127.0.0.1'' ''lan'') = Inr c" using sampleJson_ok by blast
  with config_in_range [OF c] show ?thesis by blast
qed

end
