(* ===== verification/SsStream.thy ===== *)
theory SsStream
  imports Bytes ConfigProxy
begin

text \<open>
  The Shadowsocks transport (\<^verbatim>\<open>src/protocol/shadowsocks.ts\<close> and \<^verbatim>\<open>src/utils/bufferQueue.ts\<close>). The
  ciphers, HKDF and MD5 are those of Node's crypto module and are parameters; random salts are
  arguments. A stream keeps what it wrote to the raw socket and what it pushed to its reader.
\<close>

section \<open>The buffer queue\<close>

record buffer_queue =
  bq_chunks :: "bytes list"
  bq_headOffset :: nat
  bq_totalLength :: nat

definition newBufferQueue :: buffer_queue where
  "newBufferQueue = \<lparr>bq_chunks = [], bq_headOffset = 0, bq_totalLength = 0\<rparr>"

definition bq_push :: "bytes \<Rightarrow> buffer_queue \<Rightarrow> buffer_queue" where
  "bq_push chunk q =
     (if length chunk = 0 then q
      else q\<lparr>bq_chunks := bq_chunks q @ [chunk], bq_totalLength := bq_totalLength q + length chunk\<rparr>)"

text \<open>
  The copying loop: \<open>n\<close> bytes are still to be copied. A chunk that was copied to its end is shifted
  out; a chunk that was not has given all that was asked for, and the loop ends.
\<close>

fun bq_copy :: "nat \<Rightarrow> bytes list \<Rightarrow> nat \<Rightarrow> bytes result \<times> bytes list \<times> nat" where
  "bq_copy n [] off = (if n = 0 then (Inr [], [], off) else (Inl (RangeError ''buffer queue is empty''), [], off))"
| "bq_copy n (chunk # chunks) off =
     (if n = 0 then (Inr [], chunk # chunks, off)
      else (let available = length chunk - off; count = min available n; part = take count (drop off chunk) in
            if off + count = length chunk
            then (let rest = bq_copy (n - count) chunks 0 in (rbind (fst rest) (\<lambda>bs. Inr (part @ bs)), snd rest))
            else (Inr part, chunk # chunks, off + count)))"

definition bq_read :: "nat \<Rightarrow> buffer_queue \<Rightarrow> bytes result \<times> buffer_queue" where
  "bq_read n q =
     (if n > bq_totalLength q then (Inl (RangeError ''buffer queue read exceeds available bytes''), q)
      else if n = 0 then (Inr [], q)
      else (case bq_chunks q of
              first # chunks \<Rightarrow>
                if length first - bq_headOffset q \<ge> n
                then (let output = take n (drop (bq_headOffset q) first); off = bq_headOffset q + n in
                      (Inr output,
                       if off = length first
                       then q\<lparr>bq_chunks := chunks, bq_headOffset := 0, bq_totalLength := bq_totalLength q - n\<rparr>
                       else q\<lparr>bq_headOffset := off, bq_totalLength := bq_totalLength q - n\<rparr>))
                else (let r = bq_copy n (first # chunks) (bq_headOffset q) in
                      (fst r, q\<lparr>bq_chunks := fst (snd r), bq_headOffset := snd (snd r), bq_totalLength := bq_totalLength q - n\<rparr>))
            | [] \<Rightarrow> (Inl (RangeError ''buffer queue is empty''), q)))"

text \<open>What the queue holds, and when it is well formed.\<close>

definition bq_bytes :: "buffer_queue \<Rightarrow> bytes" where
  "bq_bytes q = drop (bq_headOffset q) (concat (bq_chunks q))"

definition bq_ok :: "buffer_queue \<Rightarrow> bool" where
  "bq_ok q \<longleftrightarrow> (\<forall>c \<in> set (bq_chunks q). c \<noteq> []) \<and> bq_totalLength q = length (bq_bytes q) \<and>
     (case bq_chunks q of [] \<Rightarrow> bq_headOffset q = 0 | c # cs \<Rightarrow> bq_headOffset q < length c)"

text \<open>The contract of a queue of bytes, as the stream that decrypts relies on it.\<close>

locale byte_queue =
  fixes empty :: 'q and push :: "bytes \<Rightarrow> 'q \<Rightarrow> 'q" and read :: "nat \<Rightarrow> 'q \<Rightarrow> bytes result \<times> 'q"
    and content :: "'q \<Rightarrow> bytes" and ok :: "'q \<Rightarrow> bool"
  assumes empty_ok: "ok empty" and content_empty: "content empty = []"
    and push_ok: "ok q \<Longrightarrow> ok (push c q)" and content_push: "ok q \<Longrightarrow> content (push c q) = content q @ c"
    and read_some: "ok q \<Longrightarrow> n \<le> length (content q) \<Longrightarrow>
      fst (read n q) = Inr (take n (content q)) \<and> ok (snd (read n q)) \<and> content (snd (read n q)) = drop n (content q)"
    and read_none: "ok q \<Longrightarrow> length (content q) < n \<Longrightarrow> (\<exists>e. fst (read n q) = Inl e) \<and> snd (read n q) = q"
begin

lemma pushes: "ok q \<Longrightarrow> ok (fold push cs q) \<and> content (fold push cs q) = content q @ concat cs"
proof (induction cs arbitrary: q)
  case (Cons c cs)
  from Cons.IH [OF push_ok [OF Cons.prems]] show ?case by (simp add: content_push [OF Cons.prems])
qed simp

text \<open>How the bytes were cut into chunks makes no difference to what is read.\<close>

lemma reads_ignore_cuts:
  assumes "concat cs = concat ds" "n \<le> length (concat cs)"
  shows "fst (read n (fold push cs empty)) = fst (read n (fold push ds empty))"
  using assms pushes [OF empty_ok, of cs] pushes [OF empty_ok, of ds]
    read_some [of "fold push cs empty" n] read_some [of "fold push ds empty" n] by (simp add: content_empty)

end

lemma bq_copy_spec:
  "\<forall>c \<in> set cs. c \<noteq> [] \<Longrightarrow> (case cs of [] \<Rightarrow> off = 0 | c # _ \<Rightarrow> off < length c) \<Longrightarrow> n \<le> length (drop off (concat cs)) \<Longrightarrow>
   \<exists>ds k. bq_copy n cs off = (Inr (take n (drop off (concat cs))), ds, k) \<and> drop k (concat ds) = drop n (drop off (concat cs)) \<and>
     (\<forall>c \<in> set ds. c \<noteq> []) \<and> (case ds of [] \<Rightarrow> k = 0 | c # _ \<Rightarrow> k < length c)"
proof (induction n cs off rule: bq_copy.induct)
  case (2 n chunk chunks off)
  define count where "count = min (length chunk - off) n"
  show ?case
  proof (cases "n = 0")
    case True
    with 2 show ?thesis by simp
  next
    case n: False
    show ?thesis
    proof (cases "off + count = length chunk")
      case True
      then have count: "count = length chunk - off" "count \<le> n" using 2 by (auto simp: count_def)
      have first: "case chunks of [] \<Rightarrow> 0 = 0 | c # _ \<Rightarrow> 0 < length c" using 2 by (cases chunks) auto
      have enough: "n - count \<le> length (drop 0 (concat chunks))" using 2 count by simp
      from 2 (1) [OF n refl count_def refl] True first enough 2 (2) obtain ds k where
        "bq_copy (n - count) chunks 0 = (Inr (take (n - count) (concat chunks)), ds, k)" "drop k (concat ds) = drop (n - count) (concat chunks)"
        "\<forall>c \<in> set ds. c \<noteq> []" "case ds of [] \<Rightarrow> k = 0 | c # _ \<Rightarrow> k < length c"
        by auto
      with n True count show ?thesis by (simp add: count_def [symmetric] Let_def)
    next
      case False
      then have count: "count = n" "off + n < length chunk" using 2 by (auto simp: count_def)
      with n False show ?thesis using 2 by (simp add: count_def [symmetric] Let_def add.commute)
    qed
  qed
qed simp

lemma bq_read_some:
  assumes "bq_ok q" "n \<le> length (bq_bytes q)"
  shows "fst (bq_read n q) = Inr (take n (bq_bytes q)) \<and> bq_ok (snd (bq_read n q)) \<and> bq_bytes (snd (bq_read n q)) = drop n (bq_bytes q)"
proof (cases "n = 0 \<or> bq_chunks q = []")
  case True
  with assms(2) have "n = 0" by (auto simp: bq_bytes_def)
  with assms(1) show ?thesis by (simp add: bq_read_def)
next
  case False
  then obtain c cs where q: "bq_chunks q = c # cs" and n: "n \<noteq> 0" by (cases "bq_chunks q") auto
  let ?off = "bq_headOffset q"
  from assms q have ok: "\<forall>x \<in> set (c # cs). x \<noteq> []" "?off < length c" "bq_totalLength q = length (bq_bytes q)"
    by (auto simp: bq_ok_def)
  show ?thesis
  proof (cases "length c - ?off \<ge> n")
    case True
    have first: "case cs of [] \<Rightarrow> True | d # _ \<Rightarrow> d \<noteq> []" using ok(1) by (cases cs) auto
    show ?thesis
    proof (cases "?off + n = length c")
      case True
      then have "drop (n + ?off) c = []" "n - (length c - ?off) = 0" by simp_all
      with True ok q n assms(2) first show ?thesis
        by (cases cs) (auto simp: bq_read_def bq_bytes_def bq_ok_def Let_def)
    next
      case False
      with True ok(2) have "?off + n < length c" by simp
      with False ok q n assms(2) show ?thesis
        by (auto simp: bq_read_def bq_bytes_def bq_ok_def Let_def add.commute)
    qed
  next
    case False
    have enough: "\<not> n > bq_totalLength q" using assms(2) ok(3) by simp
    have content: "bq_bytes q = drop ?off (concat (c # cs))" by (simp only: bq_bytes_def q)
    have first: "case c # cs of [] \<Rightarrow> ?off = 0 | c # _ \<Rightarrow> ?off < length c" using ok(2) by simp
    from bq_copy_spec [OF ok(1) first, of n] assms(2) obtain ds k where
      copy: "bq_copy n (c # cs) ?off = (Inr (take n (bq_bytes q)), ds, k)" and left: "drop k (concat ds) = drop n (bq_bytes q)"
      and ds: "\<forall>c \<in> set ds. c \<noteq> []" "case ds of [] \<Rightarrow> k = 0 | c # _ \<Rightarrow> k < length c"
      unfolding content by blast
    let ?q = "q\<lparr>bq_chunks := ds, bq_headOffset := k, bq_totalLength := bq_totalLength q - n\<rparr>"
    have "bq_read n q = (Inr (take n (bq_bytes q)), ?q)"
      using False n enough unfolding bq_read_def q list.case copy Let_def fst_conv snd_conv by simp
    moreover have "bq_bytes ?q = drop n (bq_bytes q)" using left by (simp add: bq_bytes_def [of ?q])
    moreover from this have "bq_ok ?q" using ds ok(3) by (cases ds) (simp_all add: bq_ok_def)
    ultimately show ?thesis by simp
  qed
qed

lemma bq_offset: "bq_ok q \<Longrightarrow> bq_headOffset q \<le> length (concat (bq_chunks q))"
  by (cases "bq_chunks q") (simp_all add: bq_ok_def)

lemma bq_push_ok: "bq_ok q \<Longrightarrow> bq_ok (bq_push c q) \<and> bq_bytes (bq_push c q) = bq_bytes q @ c"
proof (cases "c = []")
  case False
  assume ok: "bq_ok q"
  with False bq_offset [OF ok] have content: "bq_bytes (bq_push c q) = bq_bytes q @ c"
    by (simp add: bq_push_def bq_bytes_def)
  moreover have "bq_ok (bq_push c q)"
    using ok content False unfolding bq_ok_def by (cases "bq_chunks q") (simp_all add: bq_push_def)
  ultimately show ?thesis by blast
qed (simp add: bq_push_def)

lemma bq_empty: "bq_ok newBufferQueue" "bq_bytes newBufferQueue = []"
  by (simp_all add: newBufferQueue_def bq_ok_def bq_bytes_def)

lemma bq_read_none: "bq_ok q \<Longrightarrow> length (bq_bytes q) < n \<Longrightarrow> (\<exists>e. fst (bq_read n q) = Inl e) \<and> snd (bq_read n q) = q"
  by (simp add: bq_read_def bq_ok_def)

interpretation bq: byte_queue newBufferQueue bq_push bq_read bq_bytes bq_ok
  by (rule byte_queue.intro) (simp_all add: bq_empty bq_push_ok bq_read_some bq_read_none)

text \<open>
  Property C26. The chunked queue behaves as one list of bytes: pushing appends, reading takes from the
  front exactly what was asked for, whatever the cuts between the chunks; asking for more than there
  is throws and changes nothing.
\<close>

theorem buffer_queue_refines:
  assumes "bq_ok q"
  shows "bq_ok (bq_push c q) \<and> bq_bytes (bq_push c q) = bq_bytes q @ c \<and> bq_totalLength q = length (bq_bytes q) \<and>
    (if n \<le> length (bq_bytes q)
     then fst (bq_read n q) = Inr (take n (bq_bytes q)) \<and> bq_ok (snd (bq_read n q)) \<and> bq_bytes (snd (bq_read n q)) = drop n (bq_bytes q)
     else (\<exists>e. fst (bq_read n q) = Inl e) \<and> snd (bq_read n q) = q)"
  using assms bq.push_ok bq.content_push bq.read_some [of q n] bq.read_none [of q n] by (auto simp: bq_ok_def)

lemma buffer_queue_refines_witness:
  "bq_bytes (bq_push [3] (bq_push [1, 2] newBufferQueue)) = [1, 2, 3] \<and>
   fst (bq_read 2 (bq_push [3] (bq_push [1, 2] newBufferQueue))) = Inr [1, 2]"
proof -
  let ?q = "bq_push [3] (bq_push [1, 2] newBufferQueue)"
  have "bq_ok (bq_push [1, 2] newBufferQueue)" and content: "bq_bytes (bq_push [1, 2] newBufferQueue) = [1, 2]"
    using bq.pushes [OF bq.empty_ok, of "[[1, 2]]"] by (simp_all add: bq.content_empty)
  from buffer_queue_refines [OF this(1), of "[3]"] content have "bq_ok ?q" "bq_bytes ?q = [1, 2, 3]" by auto
  with buffer_queue_refines [OF this(1), of "[]" 2] show ?thesis by simp
qed

section \<open>Ciphers and keys\<close>

record cipher_spec =
  cs_keyLength :: nat
  cs_saltLength :: nat
  cs_nonceLength :: nat
  cs_authTagLength :: nat
  cs_nodeCipher :: string

fun CIPHERS :: "cipher \<Rightarrow> cipher_spec" where
  "CIPHERS Aes128Gcm = \<lparr>cs_keyLength = 16, cs_saltLength = 16, cs_nonceLength = 12, cs_authTagLength = 16, cs_nodeCipher = ''aes-128-gcm''\<rparr>"
| "CIPHERS Aes256Gcm = \<lparr>cs_keyLength = 32, cs_saltLength = 32, cs_nonceLength = 12, cs_authTagLength = 16, cs_nodeCipher = ''aes-256-gcm''\<rparr>"
| "CIPHERS ChaCha20Poly1305 = \<lparr>cs_keyLength = 32, cs_saltLength = 32, cs_nonceLength = 12, cs_authTagLength = 16, cs_nodeCipher = ''chacha20-poly1305''\<rparr>"

text \<open>
  What the code takes from \<^verbatim>\<open>node:crypto\<close>: encryption under a cipher name, key and nonce gives the
  ciphertext and its tag, decryption takes both back or throws; \<^verbatim>\<open>hkdfSync\<close> with SHA-1 from key,
  salt, info and length; \<^verbatim>\<open>createHash("md5")\<close>.
\<close>

record node_crypto =
  nc_encrypt :: "string \<Rightarrow> bytes \<Rightarrow> bytes \<Rightarrow> bytes \<Rightarrow> bytes \<times> bytes"
  nc_decrypt :: "string \<Rightarrow> bytes \<Rightarrow> bytes \<Rightarrow> bytes \<Rightarrow> bytes \<Rightarrow> bytes result"
  nc_hkdf :: "bytes \<Rightarrow> bytes \<Rightarrow> bytes \<Rightarrow> nat \<Rightarrow> bytes"
  nc_md5 :: "bytes \<Rightarrow> bytes"

record crypto_context =
  cx_method :: cipher
  cx_spec :: cipher_spec
  cx_masterKey :: bytes

text \<open>The loop of \<^verbatim>\<open>evpBytesToKey\<close>; \<open>n\<close> rounds suffice when every digest has at least a byte.\<close>

fun evp_rounds :: "node_crypto \<Rightarrow> nat \<Rightarrow> bytes \<Rightarrow> nat \<Rightarrow> bytes \<Rightarrow> bytes \<Rightarrow> bytes option" where
  "evp_rounds nc keyLength password 0 previous chunks = (if length chunks < keyLength then None else Some (take keyLength chunks))"
| "evp_rounds nc keyLength password (Suc n) previous chunks =
     (if length chunks < keyLength
      then (let digest = nc_md5 nc (previous @ password) in evp_rounds nc keyLength password n digest (chunks @ digest))
      else Some (take keyLength chunks))"

definition evpBytesToKey :: "node_crypto \<Rightarrow> string \<Rightarrow> nat \<Rightarrow> bytes option" where
  "evpBytesToKey nc password keyLength = evp_rounds nc keyLength (utf8 password) keyLength [] []"

definition createShadowsocksCryptoContext :: "node_crypto \<Rightarrow> cipher \<Rightarrow> string \<Rightarrow> crypto_context option" where
  "createShadowsocksCryptoContext nc m password =
     map_option (\<lambda>k. \<lparr>cx_method = m, cx_spec = CIPHERS m, cx_masterKey = k\<rparr>) (evpBytesToKey nc password (cs_keyLength (CIPHERS m)))"

definition deriveSubkey :: "node_crypto \<Rightarrow> bytes \<Rightarrow> bytes \<Rightarrow> nat \<Rightarrow> bytes" where
  "deriveSubkey nc masterKey salt keyLength = nc_hkdf nc masterKey salt (latin1 ''ss-subkey'') keyLength"

definition aeadEncrypt :: "node_crypto \<Rightarrow> crypto_context \<Rightarrow> bytes \<Rightarrow> bytes \<Rightarrow> bytes \<Rightarrow> bytes" where
  "aeadEncrypt nc cx key nonce plaintext =
     (let encrypted = nc_encrypt nc (cs_nodeCipher (cx_spec cx)) key nonce plaintext in fst encrypted @ snd encrypted)"

definition aeadDecrypt :: "node_crypto \<Rightarrow> crypto_context \<Rightarrow> bytes \<Rightarrow> bytes \<Rightarrow> bytes \<Rightarrow> bytes result" where
  "aeadDecrypt nc cx key nonce ciphertextWithTag =
     (let tagLength = cs_authTagLength (cx_spec cx); n = length ciphertextWithTag - tagLength in
      if length ciphertextWithTag < tagLength then Inl (ProtocolError ''AEAD ciphertext is too short'')
      else nc_decrypt nc (cs_nodeCipher (cx_spec cx)) key nonce (take n ciphertextWithTag) (drop n ciphertextWithTag))"

fun incrementNonce :: "bytes \<Rightarrow> bytes" where
  "incrementNonce [] = []"
| "incrementNonce (b # bs) = (let b1 = b + 1 in if b1 \<noteq> 0 then b1 # bs else b1 # incrementNonce bs)"

section \<open>The stream\<close>

record ss_stream =
  ss_encryptKey :: "bytes option"
  ss_prefix :: bytes
  ss_encryptNonce :: bytes
  ss_decryptNonce :: bytes
  ss_decryptBuffer :: buffer_queue
  ss_decryptKey :: "bytes option"
  ss_prefixSent :: bool
  ss_pendingPayloadLength :: "nat option"
  ss_written :: "bytes list"
  ss_pushed :: "bytes list"
  ss_failure :: "js_error option"

definition ss_sendSalt :: "node_crypto \<Rightarrow> crypto_context \<Rightarrow> bytes \<Rightarrow> ss_stream \<Rightarrow> ss_stream" where
  "ss_sendSalt nc cx salt s =
     s\<lparr>ss_encryptKey := Some (deriveSubkey nc (cx_masterKey cx) salt (cs_keyLength (cx_spec cx))), ss_written := ss_written s @ [salt]\<rparr>"

definition newShadowsocksTcpStream :: "node_crypto \<Rightarrow> crypto_context \<Rightarrow> bytes \<Rightarrow> bool \<Rightarrow> bytes \<Rightarrow> ss_stream" where
  "newShadowsocksTcpStream nc cx pfx sendSaltOnCreate salt =
     (let s = \<lparr>ss_encryptKey = None, ss_prefix = pfx, ss_encryptNonce = replicate 12 0, ss_decryptNonce = replicate 12 0,
        ss_decryptBuffer = newBufferQueue, ss_decryptKey = None, ss_prefixSent = False, ss_pendingPayloadLength = None,
        ss_written = [], ss_pushed = [], ss_failure = None\<rparr>
      in if sendSaltOnCreate then ss_sendSalt nc cx salt s else s)"

definition createShadowsocksServerStream :: "node_crypto \<Rightarrow> crypto_context \<Rightarrow> ss_stream" where
  "createShadowsocksServerStream nc cx = newShadowsocksTcpStream nc cx [] False []"

text \<open>Parts of at most 0x3fff bytes, each with a sealed length before it; the nonce counts both.\<close>

function encryptTcpPayload :: "node_crypto \<Rightarrow> crypto_context \<Rightarrow> bytes \<Rightarrow> bytes \<Rightarrow> bytes \<Rightarrow> bytes \<times> bytes" where
  "encryptTcpPayload nc cx key nonce payload =
     (if payload = [] then ([], nonce)
      else (let part = take 16383 payload; nonce1 = incrementNonce nonce;
                rest = encryptTcpPayload nc cx key (incrementNonce nonce1) (drop 16383 payload)
            in (aeadEncrypt nc cx key nonce (u16_bytes (length part)) @ aeadEncrypt nc cx key nonce1 part @ fst rest, snd rest)))"
  by pat_completeness auto
termination by (relation "measure (\<lambda>(nc, cx, key, nonce, payload). length payload)") auto

declare encryptTcpPayload.simps [simp del]

definition ss_write :: "node_crypto \<Rightarrow> crypto_context \<Rightarrow> bytes \<Rightarrow> bytes \<Rightarrow> ss_stream \<Rightarrow> unit result \<times> ss_stream" where
  "ss_write nc cx salt chunk s =
     (let payload = (if ss_prefixSent s then chunk else ss_prefix s @ chunk);
          s1 = s\<lparr>ss_prefixSent := True\<rparr>;
          s2 = (if ss_encryptKey s1 = None then ss_sendSalt nc cx salt s1 else s1)
      in case ss_encryptKey s2 of
           None \<Rightarrow> (Inl (ProtocolError ''failed to initialize Shadowsocks encrypt key''), s2)
         | Some key \<Rightarrow>
             (let encrypted = encryptTcpPayload nc cx key (ss_encryptNonce s2) payload in
              (Inr (), s2\<lparr>ss_encryptNonce := snd encrypted, ss_written := ss_written s2 @ [fst encrypted]\<rparr>)))"

text \<open>What a piece of the handler for incoming data does: wait for more, go on, or throw.\<close>

datatype ss_outcome = SsWait | SsContinue | SsThrow js_error

definition ss_openKey :: "node_crypto \<Rightarrow> crypto_context \<Rightarrow> ss_stream \<Rightarrow> ss_outcome \<times> ss_stream" where
  "ss_openKey nc cx s =
     (case ss_decryptKey s of
        Some key \<Rightarrow> (SsContinue, s)
      | None \<Rightarrow>
          if bq_totalLength (ss_decryptBuffer s) < cs_saltLength (cx_spec cx) then (SsWait, s)
          else (case bq_read (cs_saltLength (cx_spec cx)) (ss_decryptBuffer s) of
                  (Inl e, q) \<Rightarrow> (SsThrow e, s\<lparr>ss_decryptBuffer := q\<rparr>)
                | (Inr salt, q) \<Rightarrow>
                    (SsContinue, s\<lparr>ss_decryptBuffer := q,
                       ss_decryptKey := Some (deriveSubkey nc (cx_masterKey cx) salt (cs_keyLength (cx_spec cx)))\<rparr>)))"

text \<open>\<^verbatim>\<open>aeadDecrypt(context, key, this.nextDecryptNonce(), this.decryptBuffer.read(n))\<close>.\<close>

definition ss_open :: "node_crypto \<Rightarrow> crypto_context \<Rightarrow> bytes \<Rightarrow> nat \<Rightarrow> ss_stream \<Rightarrow> bytes result \<times> ss_stream" where
  "ss_open nc cx key n s =
     (let nonce = ss_decryptNonce s; r = bq_read n (ss_decryptBuffer s) in
      (rbind (fst r) (aeadDecrypt nc cx key nonce),
       s\<lparr>ss_decryptNonce := incrementNonce nonce, ss_decryptBuffer := snd r\<rparr>))"

definition ss_readLength :: "node_crypto \<Rightarrow> crypto_context \<Rightarrow> bytes \<Rightarrow> ss_stream \<Rightarrow> ss_outcome \<times> ss_stream" where
  "ss_readLength nc cx key s =
     (case ss_pendingPayloadLength s of
        Some n \<Rightarrow> (SsContinue, s)
      | None \<Rightarrow>
          (let lengthCipherBytes = 2 + cs_authTagLength (cx_spec cx) in
           if bq_totalLength (ss_decryptBuffer s) < lengthCipherBytes then (SsWait, s)
           else (case ss_open nc cx key lengthCipherBytes s of
                   (Inl e, s1) \<Rightarrow> (SsThrow e, s1)
                 | (Inr lengthPlain, s1) \<Rightarrow>
                     if length lengthPlain < 2 then (SsThrow (RangeError ''Attempt to access memory outside buffer bounds''), s1)
                     else (SsContinue, s1\<lparr>ss_pendingPayloadLength := Some (u16_at lengthPlain 0)\<rparr>))))"

definition ss_readPayload :: "node_crypto \<Rightarrow> crypto_context \<Rightarrow> bytes \<Rightarrow> ss_stream \<Rightarrow> ss_outcome \<times> ss_stream" where
  "ss_readPayload nc cx key s =
     (case ss_pendingPayloadLength s of
        None \<Rightarrow> (SsWait, s)
      | Some n \<Rightarrow>
          (let payloadCipherBytes = n + cs_authTagLength (cx_spec cx) in
           if bq_totalLength (ss_decryptBuffer s) < payloadCipherBytes then (SsWait, s)
           else (case ss_open nc cx key payloadCipherBytes s of
                   (Inl e, s1) \<Rightarrow> (SsThrow e, s1)
                 | (Inr payload, s1) \<Rightarrow>
                     (SsContinue, s1\<lparr>ss_pendingPayloadLength := None,
                        ss_pushed := (if payload \<noteq> [] then ss_pushed s1 @ [payload] else ss_pushed s1)\<rparr>))))"

text \<open>The endless loop; without fuel it has not returned.\<close>

fun ss_loop :: "node_crypto \<Rightarrow> crypto_context \<Rightarrow> bytes \<Rightarrow> nat \<Rightarrow> ss_stream \<Rightarrow> ss_stream option" where
  "ss_loop nc cx key 0 s = None"
| "ss_loop nc cx key (Suc n) s =
     (case ss_readLength nc cx key s of
        (SsWait, s1) \<Rightarrow> Some s1
      | (SsThrow e, s1) \<Rightarrow> Some (s1\<lparr>ss_failure := Some e\<rparr>)
      | (SsContinue, s1) \<Rightarrow>
          (case ss_readPayload nc cx key s1 of
             (SsWait, s2) \<Rightarrow> Some s2
           | (SsThrow e, s2) \<Rightarrow> Some (s2\<lparr>ss_failure := Some e\<rparr>)
           | (SsContinue, s2) \<Rightarrow> ss_loop nc cx key n s2))"

text \<open>A stream that was destroyed has destroyed its raw socket and hears nothing more.\<close>

definition handleEncryptedData :: "node_crypto \<Rightarrow> crypto_context \<Rightarrow> bytes \<Rightarrow> ss_stream \<Rightarrow> ss_stream option" where
  "handleEncryptedData nc cx chunk s =
     (if ss_failure s \<noteq> None then Some s
      else (let s1 = s\<lparr>ss_decryptBuffer := bq_push chunk (ss_decryptBuffer s)\<rparr> in
            case ss_openKey nc cx s1 of
              (SsWait, s2) \<Rightarrow> Some s2
            | (SsThrow e, s2) \<Rightarrow> Some (s2\<lparr>ss_failure := Some e\<rparr>)
            | (SsContinue, s2) \<Rightarrow>
                (case ss_decryptKey s2 of
                   Some key \<Rightarrow> ss_loop nc cx key (Suc (bq_totalLength (ss_decryptBuffer s2))) s2
                 | None \<Rightarrow> None)))"

fun ss_receive :: "node_crypto \<Rightarrow> crypto_context \<Rightarrow> bytes list \<Rightarrow> ss_stream \<Rightarrow> ss_stream option" where
  "ss_receive nc cx [] s = Some s"
| "ss_receive nc cx (c # cs) s = Option.bind (handleEncryptedData nc cx c s) (ss_receive nc cx cs)"

section \<open>Datagrams\<close>

definition encryptUdpPacket :: "node_crypto \<Rightarrow> crypto_context \<Rightarrow> bytes \<Rightarrow> bytes \<Rightarrow> bytes" where
  "encryptUdpPacket nc cx salt payload =
     (let key = deriveSubkey nc (cx_masterKey cx) salt (cs_keyLength (cx_spec cx)) in
      salt @ aeadEncrypt nc cx key (replicate (cs_nonceLength (cx_spec cx)) 0) payload)"

definition decryptUdpPacket :: "node_crypto \<Rightarrow> crypto_context \<Rightarrow> bytes \<Rightarrow> bytes result" where
  "decryptUdpPacket nc cx packet =
     (if length packet < cs_saltLength (cx_spec cx) + cs_authTagLength (cx_spec cx)
      then Inl (ProtocolError ''Shadowsocks UDP packet is too short'')
      else (let salt = take (cs_saltLength (cx_spec cx)) packet;
                key = deriveSubkey nc (cx_masterKey cx) salt (cs_keyLength (cx_spec cx)) in
            aeadDecrypt nc cx key (replicate (cs_nonceLength (cx_spec cx)) 0) (drop (cs_saltLength (cx_spec cx)) packet)))"

end
