(* ===== verification/SsProofs.thy ===== *)
theory SsProofs
  imports SsStream
begin

text \<open>
  What the Shadowsocks transport promises: what one end writes the other end reads, however the
  network cuts it; no nonce is used twice under one key; every call of the handler returns.
\<close>

section \<open>What is asked of the cryptography\<close>

text \<open>Decryption undoes encryption under keys and nonces of the right length; the tag has its length.\<close>

definition aead_ok :: "node_crypto \<Rightarrow> cipher_spec \<Rightarrow> bool" where
  "aead_ok nc spec \<longleftrightarrow>
     (\<forall>key nonce p. length key = cs_keyLength spec \<and> length nonce = 12 \<longrightarrow>
        length (snd (nc_encrypt nc (cs_nodeCipher spec) key nonce p)) = cs_authTagLength spec \<and>
        length (fst (nc_encrypt nc (cs_nodeCipher spec) key nonce p)) = length p \<and>
        nc_decrypt nc (cs_nodeCipher spec) key nonce (fst (nc_encrypt nc (cs_nodeCipher spec) key nonce p))
          (snd (nc_encrypt nc (cs_nodeCipher spec) key nonce p)) = Inr p)"

definition hkdf_ok :: "node_crypto \<Rightarrow> bool" where
  "hkdf_ok nc \<longleftrightarrow> (\<forall>master salt info n. length (nc_hkdf nc master salt info n) = n)"

definition context_ok :: "crypto_context \<Rightarrow> bool" where
  "context_ok cx \<longleftrightarrow> cx_spec cx = CIPHERS (cx_method cx)"

lemma context_okD: "context_ok cx \<Longrightarrow> cs_authTagLength (cx_spec cx) = 16 \<and> cs_nonceLength (cx_spec cx) = 12"
  by (cases "cx_method cx") (simp_all add: context_ok_def)

lemma length_seal:
  "aead_ok nc (cx_spec cx) \<Longrightarrow> length key = cs_keyLength (cx_spec cx) \<Longrightarrow> length nonce = 12 \<Longrightarrow>
    length (aeadEncrypt nc cx key nonce p) = length p + cs_authTagLength (cx_spec cx)"
  by (simp add: aead_ok_def aeadEncrypt_def Let_def)

lemma open_seal:
  "aead_ok nc (cx_spec cx) \<Longrightarrow> length key = cs_keyLength (cx_spec cx) \<Longrightarrow> length nonce = 12 \<Longrightarrow>
    aeadDecrypt nc cx key nonce (aeadEncrypt nc cx key nonce p) = Inr p"
  by (simp add: aead_ok_def aeadEncrypt_def aeadDecrypt_def Let_def)

section \<open>Nonces\<close>

fun nonce_value :: "bytes \<Rightarrow> nat" where
  "nonce_value [] = 0"
| "nonce_value (b # bs) = unat b + 256 * nonce_value bs"

definition advance :: "nat \<Rightarrow> bytes \<Rightarrow> bytes" where
  "advance k nonce = (incrementNonce ^^ k) nonce"

lemma length_incrementNonce [simp]: "length (incrementNonce bs) = length bs"
  by (induction bs) (simp_all add: Let_def)

lemma nonce_value_less: "nonce_value bs < 256 ^ length bs"
proof (induction bs)
  case (Cons b bs)
  then show ?case using unat8_less [of b] by simp
qed simp

lemma suc8: "if b + 1 = (0 :: 8 word) then unat b = 255 else unat (b + 1) = unat b + 1"
proof -
  have next_value: "unat (b + 1) = (unat b + 1) mod 256" by (simp add: unat_word_ariths)
  show ?thesis
  proof (cases "unat b = 255")
    case True
    with next_value have "unat (b + 1) = 0" by simp
    with True show ?thesis by (simp only: unat_eq_0) simp
  next
    case False
    with next_value unat8_less [of b] have "unat (b + 1) = unat b + 1" by simp
    then show ?thesis by (metis add_is_0 unsigned_0 one_neq_zero)
  qed
qed

lemma nonce_value_increment: "nonce_value (incrementNonce bs) = (nonce_value bs + 1) mod 256 ^ length bs"
proof (induction bs)
  case (Cons b bs)
  show ?case
  proof (cases "b + 1 = 0")
    case True
    then have b: "unat b = 255" using suc8 [of b] by simp
    have "256 * ((nonce_value bs + 1) mod 256 ^ length bs) = (256 * (nonce_value bs + 1)) mod (256 * 256 ^ length bs)"
      by (rule mult_mod_right)
    with Cons True b show ?thesis by (simp add: Let_def algebra_simps)
  next
    case False
    with suc8 [of b] have b: "unat (b + 1) = unat b + 1" by simp
    then have "unat b + 1 + 256 * nonce_value bs < 256 * 256 ^ length bs"
      using nonce_value_less [of bs] unat8_less [of "b + 1"] by simp
    with False b show ?thesis by (simp add: Let_def)
  qed
qed simp

lemma length_advance [simp]: "length (advance k bs) = length bs"
  by (induction k) (simp_all add: advance_def)

lemma advance_simps: "advance 0 n = n" "advance (Suc k) n = incrementNonce (advance k n)"
  by (simp_all add: advance_def)

lemma advance_add: "advance (j + k) n = advance j (advance k n)"
  by (simp add: advance_def funpow_add)

lemma advance_plus: "advance k (advance j n) = advance (j + k) n"
  by (simp add: advance_add [symmetric] add.commute)

lemma advance_Suc2: "advance (Suc (Suc k)) n = advance k (incrementNonce (incrementNonce n))"
  using advance_add [of k 2 n] by (simp add: advance_def numeral_2_eq_2)

lemma advance_value: "nonce_value (advance k n) = (nonce_value n + k) mod 256 ^ length n"
proof (induction k)
  case 0
  then show ?case using nonce_value_less [of n] by (simp add: advance_simps)
next
  case (Suc k)
  then show ?case by (simp add: advance_simps nonce_value_increment mod_Suc_eq)
qed

lemma nonce_value_zero [simp]: "nonce_value (replicate k 0) = 0"
  by (induction k) simp_all

lemma nonces_distinct:
  assumes "m \<le> 2 ^ 96"
  shows "distinct (map (\<lambda>i. advance i (replicate 12 0)) [0..<m])"
proof -
  have "inj_on (\<lambda>i. advance i (replicate 12 0 :: bytes)) {0..<m}"
  proof (rule inj_onI)
    fix i j assume ij: "i \<in> {0..<m}" "j \<in> {0..<m}" and eq: "advance i (replicate 12 0 :: bytes) = advance j (replicate 12 0)"
    have "nonce_value (advance k (replicate 12 0)) = k" if "k < m" for k
      using that assms advance_value [of k "replicate 12 0"] by simp
    with ij eq show "i = j" by (metis atLeastLessThan_iff)
  qed
  then show ?thesis by (simp add: distinct_map)
qed

section \<open>What a stream writes\<close>

text \<open>The parts of a payload, and what is sealed for a list of parts: nonce and plaintext.\<close>

function ss_parts :: "bytes \<Rightarrow> bytes list" where
  "ss_parts payload = (if payload = [] then [] else take 16383 payload # ss_parts (drop 16383 payload))"
  by pat_completeness auto
termination by (relation "measure length") auto

declare ss_parts.simps [simp del]

fun ss_sealed :: "bytes \<Rightarrow> bytes list \<Rightarrow> (bytes \<times> bytes) list" where
  "ss_sealed nonce [] = []"
| "ss_sealed nonce (p # ps) = (nonce, u16_bytes (length p)) # (incrementNonce nonce, p) # ss_sealed (incrementNonce (incrementNonce nonce)) ps"

definition ss_wire :: "node_crypto \<Rightarrow> crypto_context \<Rightarrow> bytes \<Rightarrow> (bytes \<times> bytes) list \<Rightarrow> bytes" where
  "ss_wire nc cx key xs = concat (map (\<lambda>(nonce, p). aeadEncrypt nc cx key nonce p) xs)"

definition parts_ok :: "bytes list \<Rightarrow> bool" where
  "parts_ok ps \<longleftrightarrow> (\<forall>p \<in> set ps. p \<noteq> [] \<and> length p \<le> 16383)"

lemma ss_parts_ok: "concat (ss_parts payload) = payload \<and> parts_ok (ss_parts payload)"
proof (induction payload rule: ss_parts.induct)
  case (1 payload)
  show ?case
  proof (cases "payload = []")
    case False
    have "take 16383 payload \<noteq> []" "length (take 16383 payload) \<le> 16383" using False by simp_all
    with 1 False show ?thesis by (subst (1 2) ss_parts.simps) (simp add: parts_ok_def)
  qed (simp add: ss_parts.simps parts_ok_def)
qed

lemma ss_sealed_append: "ss_sealed nonce (ps @ qs) = ss_sealed nonce ps @ ss_sealed (advance (2 * length ps) nonce) qs"
  by (induction ps arbitrary: nonce) (simp_all add: advance_Suc2 advance_simps(1))

lemma encryptTcpPayload_parts:
  "encryptTcpPayload nc cx key nonce payload =
     (ss_wire nc cx key (ss_sealed nonce (ss_parts payload)), advance (2 * length (ss_parts payload)) nonce)"
proof (induction nc cx key nonce payload rule: encryptTcpPayload.induct)
  case (1 nc cx key nonce payload)
  show ?case
  proof (cases "payload = []")
    case False
    then have parts: "ss_parts payload = take 16383 payload # ss_parts (drop 16383 payload)" by (subst ss_parts.simps) simp
    show ?thesis
      unfolding encryptTcpPayload.simps [of nc cx key nonce payload] parts
      using 1 [OF False refl refl] False by (simp add: Let_def ss_wire_def advance_Suc2)
  qed (simp add: encryptTcpPayload.simps ss_parts.simps ss_wire_def advance_simps(1))
qed

lemma map_fst_sealed: "map fst (ss_sealed nonce ps) = map (\<lambda>i. advance i nonce) [0..<2 * length ps]"
proof (induction ps arbitrary: nonce)
  case (Cons p ps)
  have "[0..<2 * length (p # ps)] = 0 # 1 # map (\<lambda>i. Suc (Suc i)) [0..<2 * length ps]"
    by (simp add: upt_conv_Cons map_Suc_upt [symmetric] del: upt_Suc)
  moreover have "advance 0 nonce = nonce" "advance 1 nonce = incrementNonce nonce" by (simp_all add: advance_def)
  ultimately show ?case by (simp only: ss_sealed.simps list.map Cons.IH map_map comp_def advance_Suc2 fst_conv)
qed simp

text \<open>A stream that has sent a salt and sealed these parts under the key derived from it.\<close>

definition has_sent :: "node_crypto \<Rightarrow> crypto_context \<Rightarrow> bytes \<Rightarrow> bytes list \<Rightarrow> ss_stream \<Rightarrow> bool" where
  "has_sent nc cx salt ps s \<longleftrightarrow>
     (let key = deriveSubkey nc (cx_masterKey cx) salt (cs_keyLength (cx_spec cx)) in
      ss_encryptKey s = Some key \<and> concat (ss_written s) = salt @ ss_wire nc cx key (ss_sealed (replicate 12 0) ps) \<and>
      ss_encryptNonce s = advance (2 * length ps) (replicate 12 0))"

lemma has_sent_write:
  assumes "has_sent nc cx salt ps s"
  shows "fst (ss_write nc cx x chunk s) = Inr () \<and>
    has_sent nc cx salt (ps @ ss_parts (if ss_prefixSent s then chunk else ss_prefix s @ chunk)) (snd (ss_write nc cx x chunk s)) \<and>
    ss_prefixSent (snd (ss_write nc cx x chunk s)) \<and> ss_prefix (snd (ss_write nc cx x chunk s)) = ss_prefix s"
proof -
  show ?thesis
    using assms by (simp add: has_sent_def ss_write_def Let_def encryptTcpPayload_parts ss_sealed_append ss_wire_def advance_plus algebra_simps)
qed

text \<open>The first write sends the salt if it was not sent when the stream was made.\<close>

lemma has_sent_first:
  assumes "ss_encryptKey s = None" "ss_written s = []" "ss_encryptNonce s = replicate 12 0"
  shows "ss_write nc cx salt chunk s = ss_write nc cx salt chunk (ss_sendSalt nc cx salt s)" "has_sent nc cx salt [] (ss_sendSalt nc cx salt s)"
  using assms by (simp_all add: ss_write_def ss_sendSalt_def has_sent_def Let_def ss_wire_def advance_simps)

fun ss_writes :: "node_crypto \<Rightarrow> crypto_context \<Rightarrow> bytes \<Rightarrow> bytes list \<Rightarrow> ss_stream \<Rightarrow> ss_stream" where
  "ss_writes nc cx salt [] s = s"
| "ss_writes nc cx salt (c # cs) s = ss_writes nc cx salt cs (snd (ss_write nc cx salt c s))"

lemma has_sent_writes:
  "has_sent nc cx salt ps s \<Longrightarrow> ss_prefixSent s \<Longrightarrow> has_sent nc cx salt (ps @ concat (map ss_parts cs)) (ss_writes nc cx salt cs s)"
proof (induction cs arbitrary: s ps)
  case (Cons c cs)
  from has_sent_write [OF Cons.prems(1), of salt c] Cons.prems(2)
    Cons.IH [of "ps @ ss_parts c" "snd (ss_write nc cx salt c s)"] show ?case by simp
qed simp

lemma stream_has_sent:
  assumes "ws \<noteq> [] \<or> eager"
  shows "\<exists>ps. has_sent nc cx salt ps (ss_writes nc cx salt ws (newShadowsocksTcpStream nc cx pfx eager salt)) \<and> parts_ok ps \<and>
    concat ps = (if ws = [] then [] else pfx @ concat ws)"
proof -
  let ?s = "newShadowsocksTcpStream nc cx pfx False salt"
  let ?t = "ss_sendSalt nc cx salt ?s"
  have new: "ss_encryptKey ?s = None" "ss_written ?s = []" "ss_encryptNonce ?s = replicate 12 0"
    "ss_prefix ?t = pfx" "\<not> ss_prefixSent ?t" "newShadowsocksTcpStream nc cx pfx True salt = ?t"
    by (simp_all add: newShadowsocksTcpStream_def Let_def ss_sendSalt_def)
  from has_sent_first [OF new(1-3)] have t: "has_sent nc cx salt [] ?t" by simp
  have concat_parts: "concat (concat (map ss_parts cs)) = concat cs \<and> parts_ok (concat (map ss_parts cs))" for cs
    using ss_parts_ok by (induction cs) (auto simp: parts_ok_def)
  show ?thesis
  proof (cases ws)
    case Nil
    with assms t new(6) show ?thesis by (intro exI [of _ "[]"]) (simp add: parts_ok_def)
  next
    case (Cons w vs)
    have "snd (ss_write nc cx salt w (newShadowsocksTcpStream nc cx pfx eager salt)) = snd (ss_write nc cx salt w ?t)"
      using has_sent_first(1) [OF new(1-3), of nc cx salt w] new(6) by (cases eager) simp_all
    with Cons has_sent_write [OF t, of salt w] new(4,5)
      has_sent_writes [of nc cx salt "ss_parts (pfx @ w)" "snd (ss_write nc cx salt w ?t)" vs]
    have "has_sent nc cx salt (ss_parts (pfx @ w) @ concat (map ss_parts vs))
        (ss_writes nc cx salt ws (newShadowsocksTcpStream nc cx pfx eager salt))" by simp
    moreover have "concat (ss_parts (pfx @ w) @ concat (map ss_parts vs)) = pfx @ concat ws"
      "parts_ok (ss_parts (pfx @ w) @ concat (map ss_parts vs))"
      using concat_parts [of vs] ss_parts_ok [of "pfx @ w"] Cons by (auto simp: parts_ok_def)
    ultimately show ?thesis using Cons by (intro exI conjI) auto
  qed
qed

section \<open>What a stream reads\<close>

text \<open>
  The stream has its key and nothing failed; the bytes in its queue and those still to come are the
  rest of what the other end sealed, from the point where this end stands, and carry \<open>out\<close>.
\<close>

definition ss_ahead :: "node_crypto \<Rightarrow> crypto_context \<Rightarrow> bytes \<Rightarrow> ss_stream \<Rightarrow> bytes \<Rightarrow> bytes \<Rightarrow> bool" where
  "ss_ahead nc cx key s rest out \<longleftrightarrow>
     ss_decryptKey s = Some key \<and> ss_failure s = None \<and> length (ss_decryptNonce s) = 12 \<and> bq_ok (ss_decryptBuffer s) \<and>
     (\<exists>ps. parts_ok ps \<and> out = concat ps \<and>
        (case ss_pendingPayloadLength s of
           None \<Rightarrow> bq_bytes (ss_decryptBuffer s) @ rest = ss_wire nc cx key (ss_sealed (ss_decryptNonce s) ps)
         | Some n \<Rightarrow> \<exists>p qs. ps = p # qs \<and> n = length p \<and>
             bq_bytes (ss_decryptBuffer s) @ rest =
               aeadEncrypt nc cx key (ss_decryptNonce s) p @ ss_wire nc cx key (ss_sealed (incrementNonce (ss_decryptNonce s)) qs)))"

definition crypto_ok :: "node_crypto \<Rightarrow> crypto_context \<Rightarrow> bytes \<Rightarrow> bool" where
  "crypto_ok nc cx key \<longleftrightarrow> aead_ok nc (cx_spec cx) \<and> context_ok cx \<and> length key = cs_keyLength (cx_spec cx)"

lemma crypto_okD:
  "crypto_ok nc cx key \<Longrightarrow> length nonce = 12 \<Longrightarrow> length (aeadEncrypt nc cx key nonce p) = length p + 16 \<and> cs_authTagLength (cx_spec cx) = 16 \<and>
    aeadDecrypt nc cx key nonce (aeadEncrypt nc cx key nonce p) = Inr p"
  using length_seal [of nc cx key nonce p] open_seal [of nc cx key nonce p] context_okD [of cx] by (simp add: crypto_ok_def)

lemma ss_wire_Cons: "ss_wire nc cx key ((n, p) # xs) = aeadEncrypt nc cx key n p @ ss_wire nc cx key xs"
  by (simp add: ss_wire_def)

lemma ss_open_next:
  assumes "crypto_ok nc cx key" "length (ss_decryptNonce s) = 12" "bq_ok (ss_decryptBuffer s)"
    and "bq_bytes (ss_decryptBuffer s) @ rest = aeadEncrypt nc cx key (ss_decryptNonce s) p @ later"
    and "length p + 16 \<le> length (bq_bytes (ss_decryptBuffer s))"
  obtains q where "ss_open nc cx key (length p + 16) s = (Inr p, s\<lparr>ss_decryptNonce := incrementNonce (ss_decryptNonce s), ss_decryptBuffer := q\<rparr>)"
    "bq_ok q" "bq_bytes q @ rest = later" "length (bq_bytes q) + length p + 16 = length (bq_bytes (ss_decryptBuffer s))"
proof -
  let ?q = "ss_decryptBuffer s" and ?n = "length p + 16" and ?c = "aeadEncrypt nc cx key (ss_decryptNonce s) p"
  from crypto_okD [OF assms(1,2), of p] have len: "length ?c = ?n" and dec: "aeadDecrypt nc cx key (ss_decryptNonce s) ?c = Inr p" by simp_all
  from arg_cong [OF assms(4), of "take ?n"] arg_cong [OF assms(4), of "drop ?n"] len assms(5)
  have cut: "take ?n (bq_bytes ?q) = ?c" "drop ?n (bq_bytes ?q) @ rest = later" by simp_all
  from bq.read_some [OF assms(3,5)] cut dec show ?thesis
    by (intro that [of "snd (bq_read ?n ?q)"]) (use assms(5) in \<open>simp_all add: ss_open_def Let_def\<close>)
qed

lemma readLength_ahead:
  assumes ok: "crypto_ok nc cx key" and ahead: "ss_ahead nc cx key s rest out"
  shows "(ss_readLength nc cx key s = (SsWait, s) \<and> (rest = [] \<longrightarrow> out = [])) \<or>
    (\<exists>t. ss_readLength nc cx key s = (SsContinue, t) \<and> ss_ahead nc cx key t rest out \<and> ss_pendingPayloadLength t \<noteq> None \<and>
      ss_pushed t = ss_pushed s \<and> length (bq_bytes (ss_decryptBuffer t)) \<le> length (bq_bytes (ss_decryptBuffer s)))"
proof (cases "ss_pendingPayloadLength s")
  case (Some n)
  with ahead show ?thesis by (simp add: ss_readLength_def)
next
  case None
  from ahead obtain ps where s: "ss_decryptKey s = Some key" "ss_failure s = None" "length (ss_decryptNonce s) = 12" "bq_ok (ss_decryptBuffer s)"
    and ps: "parts_ok ps" "out = concat ps" "bq_bytes (ss_decryptBuffer s) @ rest = ss_wire nc cx key (ss_sealed (ss_decryptNonce s) ps)"
    by (auto simp: ss_ahead_def None)
  from crypto_okD [OF ok s(3)] have tag: "cs_authTagLength (cx_spec cx) = 16" by blast
  from s(4) have total: "bq_totalLength (ss_decryptBuffer s) = length (bq_bytes (ss_decryptBuffer s))" by (simp add: bq_ok_def)
  show ?thesis
  proof (cases "length (bq_bytes (ss_decryptBuffer s)) < 18")
    case True
    have "out = []" if "rest = []"
    proof (cases ps)
      case (Cons p qs)
      with ps(3) that crypto_okD [OF ok s(3), of "u16_bytes (length p)"] have "18 \<le> length (bq_bytes (ss_decryptBuffer s))"
        by (simp add: ss_wire_Cons)
      with True show ?thesis by simp
    qed (simp add: ps(2))
    with True None tag total show ?thesis by (simp add: ss_readLength_def)
  next
    case False
    have "ps \<noteq> []"
    proof
      assume "ps = []"
      with ps(3) have "bq_bytes (ss_decryptBuffer s) = []" by (simp add: ss_wire_def)
      with False show False by simp
    qed
    then obtain p qs where cons: "ps = p # qs" by (cases ps) auto
    have "bq_bytes (ss_decryptBuffer s) @ rest = aeadEncrypt nc cx key (ss_decryptNonce s) (u16_bytes (length p)) @
        aeadEncrypt nc cx key (incrementNonce (ss_decryptNonce s)) p @ ss_wire nc cx key (ss_sealed (incrementNonce (incrementNonce (ss_decryptNonce s))) qs)"
      using ps(3) by (simp add: cons ss_wire_Cons)
    moreover have "length (u16_bytes (length p)) + 16 \<le> length (bq_bytes (ss_decryptBuffer s))" using False by simp
    ultimately obtain q where "ss_open nc cx key (length (u16_bytes (length p)) + 16) s =
        (Inr (u16_bytes (length p)), s\<lparr>ss_decryptNonce := incrementNonce (ss_decryptNonce s), ss_decryptBuffer := q\<rparr>)"
      and q: "bq_ok q" "bq_bytes q @ rest = aeadEncrypt nc cx key (incrementNonce (ss_decryptNonce s)) p @
         ss_wire nc cx key (ss_sealed (incrementNonce (incrementNonce (ss_decryptNonce s))) qs)"
      "length (bq_bytes q) + length (u16_bytes (length p)) + 16 = length (bq_bytes (ss_decryptBuffer s))"
      by (rule ss_open_next [OF ok s(3,4)])
    then have opened: "ss_open nc cx key 18 s =
        (Inr (u16_bytes (length p)), s\<lparr>ss_decryptNonce := incrementNonce (ss_decryptNonce s), ss_decryptBuffer := q\<rparr>)" by simp
    let ?t = "s\<lparr>ss_decryptNonce := incrementNonce (ss_decryptNonce s), ss_decryptBuffer := q, ss_pendingPayloadLength := Some (length p)\<rparr>"
    have p: "length p < 65536" using ps(1) cons by (auto simp: parts_ok_def)
    then have "ss_readLength nc cx key s = (SsContinue, ?t)"
      using False None tag total opened u16_at_u16 [OF p, of "[]"] by (simp add: ss_readLength_def Let_def)
    moreover have "ss_ahead nc cx key ?t rest out"
      using s q(1,2) ps(1,2) cons unfolding ss_ahead_def by (intro conjI exI [of _ ps]) simp_all
    ultimately show ?thesis using q(3) by (intro disjI2 exI [of _ ?t]) simp
  qed
qed

lemma readPayload_ahead:
  assumes ok: "crypto_ok nc cx key" and ahead: "ss_ahead nc cx key s rest out" and "ss_pendingPayloadLength s \<noteq> None"
  shows "(ss_readPayload nc cx key s = (SsWait, s) \<and> rest \<noteq> []) \<or>
    (\<exists>t p. ss_readPayload nc cx key s = (SsContinue, t) \<and> out = p @ drop (length p) out \<and> ss_ahead nc cx key t rest (drop (length p) out) \<and>
      concat (ss_pushed t) = concat (ss_pushed s) @ p \<and> length (bq_bytes (ss_decryptBuffer t)) < length (bq_bytes (ss_decryptBuffer s)))"
proof -
  from assms(3) obtain n where pending: "ss_pendingPayloadLength s = Some n" by blast
  from ahead obtain p qs where s: "ss_decryptKey s = Some key" "ss_failure s = None" "length (ss_decryptNonce s) = 12" "bq_ok (ss_decryptBuffer s)"
    and p: "parts_ok (p # qs)" "out = concat (p # qs)" "n = length p" and
    bytes: "bq_bytes (ss_decryptBuffer s) @ rest =
      aeadEncrypt nc cx key (ss_decryptNonce s) p @ ss_wire nc cx key (ss_sealed (incrementNonce (ss_decryptNonce s)) qs)"
    by (auto simp: ss_ahead_def pending)
  from crypto_okD [OF ok s(3), of p] have tag: "cs_authTagLength (cx_spec cx) = 16"
    "length (aeadEncrypt nc cx key (ss_decryptNonce s) p) = length p + 16" by simp_all
  from s(4) have total: "bq_totalLength (ss_decryptBuffer s) = length (bq_bytes (ss_decryptBuffer s))" by (simp add: bq_ok_def)
  show ?thesis
  proof (cases "length (bq_bytes (ss_decryptBuffer s)) < length p + 16")
    case True
    with arg_cong [OF bytes, of length] tag have "rest \<noteq> []" by auto
    with True pending p(3) tag total show ?thesis by (simp add: ss_readPayload_def)
  next
    case False
    then have "length p + 16 \<le> length (bq_bytes (ss_decryptBuffer s))" by simp
    with bytes obtain q where opened: "ss_open nc cx key (length p + 16) s =
        (Inr p, s\<lparr>ss_decryptNonce := incrementNonce (ss_decryptNonce s), ss_decryptBuffer := q\<rparr>)"
      and q: "bq_ok q" "bq_bytes q @ rest = ss_wire nc cx key (ss_sealed (incrementNonce (ss_decryptNonce s)) qs)"
      "length (bq_bytes q) + length p + 16 = length (bq_bytes (ss_decryptBuffer s))"
      by (rule ss_open_next [OF ok s(3,4)])
    let ?t = "s\<lparr>ss_decryptNonce := incrementNonce (ss_decryptNonce s), ss_decryptBuffer := q, ss_pendingPayloadLength := None,
        ss_pushed := ss_pushed s @ [p]\<rparr>"
    have "p \<noteq> []" using p(1) by (simp add: parts_ok_def)
    then have "ss_readPayload nc cx key s = (SsContinue, ?t)"
      using False pending p(3) tag total opened by (simp add: ss_readPayload_def Let_def)
    moreover have "ss_ahead nc cx key ?t rest (concat qs)"
      using s q(1,2) p(1) unfolding ss_ahead_def by (intro conjI exI [of _ qs]) (simp_all add: parts_ok_def)
    ultimately show ?thesis using q(3) p(2) by (intro disjI2 exI [of _ ?t] exI [of _ p]) simp
  qed
qed

lemma ss_loop_ahead:
  assumes ok: "crypto_ok nc cx key"
  shows "ss_ahead nc cx key s rest out \<Longrightarrow> length (bq_bytes (ss_decryptBuffer s)) < n \<Longrightarrow>
    \<exists>t out'. ss_loop nc cx key n s = Some t \<and> ss_ahead nc cx key t rest out' \<and>
      concat (ss_pushed s) @ out = concat (ss_pushed t) @ out' \<and> (rest = [] \<longrightarrow> out' = [])"
proof (induction n arbitrary: s out)
  case (Suc n)
  from readLength_ahead [OF ok Suc.prems(1)] show ?case
  proof (elim disjE exE conjE)
    assume "ss_readLength nc cx key s = (SsWait, s)" "rest = [] \<longrightarrow> out = []"
    with Suc.prems(1) show ?case by (intro exI [of _ s] exI [of _ out]) simp
  next
    fix t assume t: "ss_readLength nc cx key s = (SsContinue, t)" "ss_ahead nc cx key t rest out" "ss_pendingPayloadLength t \<noteq> None"
      "ss_pushed t = ss_pushed s" "length (bq_bytes (ss_decryptBuffer t)) \<le> length (bq_bytes (ss_decryptBuffer s))"
    from readPayload_ahead [OF ok t(2,3)] show ?case
    proof (elim disjE exE conjE)
      assume "ss_readPayload nc cx key t = (SsWait, t)" "rest \<noteq> []"
      with t show ?case by (intro exI [of _ t] exI [of _ out]) simp
    next
      fix u p assume u: "ss_readPayload nc cx key t = (SsContinue, u)" "out = p @ drop (length p) out" "ss_ahead nc cx key u rest (drop (length p) out)"
        "concat (ss_pushed u) = concat (ss_pushed t) @ p" "length (bq_bytes (ss_decryptBuffer u)) < length (bq_bytes (ss_decryptBuffer t))"
      with t Suc.prems(2) Suc.IH [OF u(3)] obtain v out' where v: "ss_loop nc cx key n u = Some v" "ss_ahead nc cx key v rest out'"
        "concat (ss_pushed u) @ drop (length p) out = concat (ss_pushed v) @ out'" "rest = [] \<longrightarrow> out' = []" by auto
      have "concat (ss_pushed s) @ out = concat (ss_pushed v) @ out'"
        using u(2,4) v(3) t(4) by (metis append.assoc)
      with t u v show ?case by (intro exI [of _ v] exI [of _ out']) simp
    qed
  qed
qed simp

text \<open>Before the key is known the stream waits for the salt.\<close>

definition ss_before :: "node_crypto \<Rightarrow> crypto_context \<Rightarrow> bytes \<Rightarrow> ss_stream \<Rightarrow> bytes \<Rightarrow> bytes list \<Rightarrow> bool" where
  "ss_before nc cx salt s rest ps \<longleftrightarrow>
     ss_decryptKey s = None \<and> ss_failure s = None \<and> ss_pendingPayloadLength s = None \<and> ss_pushed s = [] \<and>
     ss_decryptNonce s = replicate 12 0 \<and> bq_ok (ss_decryptBuffer s) \<and> parts_ok ps \<and> length (bq_bytes (ss_decryptBuffer s)) < length salt \<and>
     bq_bytes (ss_decryptBuffer s) @ rest =
       salt @ ss_wire nc cx (deriveSubkey nc (cx_masterKey cx) salt (cs_keyLength (cx_spec cx))) (ss_sealed (replicate 12 0) ps)"

lemma data_ahead:
  assumes ok: "crypto_ok nc cx key" and ahead: "ss_ahead nc cx key s (c @ rest) out"
  shows "\<exists>t out'. handleEncryptedData nc cx c s = Some t \<and> ss_ahead nc cx key t rest out' \<and>
      concat (ss_pushed s) @ out = concat (ss_pushed t) @ out' \<and> (rest = [] \<longrightarrow> out' = [])"
proof -
  let ?s = "s\<lparr>ss_decryptBuffer := bq_push c (ss_decryptBuffer s)\<rparr>"
  from ahead have s: "ss_decryptKey s = Some key" "ss_failure s = None" "bq_ok (ss_decryptBuffer s)" by (simp_all add: ss_ahead_def)
  then have ahead': "ss_ahead nc cx key ?s rest out" using ahead
    by (cases "ss_pendingPayloadLength s") (simp_all add: ss_ahead_def bq_push_ok)
  have "bq_totalLength (ss_decryptBuffer ?s) = length (bq_bytes (ss_decryptBuffer ?s))" using bq_push_ok [OF s(3), of c] by (simp add: bq_ok_def)
  with ss_loop_ahead [OF ok ahead', of "Suc (bq_totalLength (ss_decryptBuffer ?s))"] s show ?thesis
    by (simp add: handleEncryptedData_def ss_openKey_def Let_def del: ss_loop.simps)
qed

lemma data_before:
  assumes ok: "aead_ok nc (cx_spec cx)" "context_ok cx" "hkdf_ok nc" and len: "length salt = cs_saltLength (cx_spec cx)"
    and before: "ss_before nc cx salt s (c @ rest) ps"
  defines "key \<equiv> deriveSubkey nc (cx_masterKey cx) salt (cs_keyLength (cx_spec cx))"
  shows "\<exists>t. handleEncryptedData nc cx c s = Some t \<and>
     (ss_before nc cx salt t rest ps \<and> rest \<noteq> [] \<or>
      (\<exists>out'. ss_ahead nc cx key t rest out' \<and> concat ps = concat (ss_pushed t) @ out' \<and> (rest = [] \<longrightarrow> out' = [])))"
proof -
  let ?s = "s\<lparr>ss_decryptBuffer := bq_push c (ss_decryptBuffer s)\<rparr>" and ?q = "bq_push c (ss_decryptBuffer s)"
  from before have s: "ss_decryptKey s = None" "ss_failure s = None" "bq_ok (ss_decryptBuffer s)" "ss_pushed s = []"
    "ss_pendingPayloadLength s = None" "ss_decryptNonce s = replicate 12 0" "parts_ok ps" by (simp_all add: ss_before_def)
  have q: "bq_ok ?q" "bq_bytes ?q @ rest = salt @ ss_wire nc cx key (ss_sealed (replicate 12 0) ps)"
    using before bq_push_ok [OF s(3), of c] by (simp_all add: ss_before_def key_def)
  then have total: "bq_totalLength ?q = length (bq_bytes ?q)" by (simp add: bq_ok_def)
  have cok: "crypto_ok nc cx key" using ok by (simp add: crypto_ok_def key_def deriveSubkey_def hkdf_ok_def)
  show ?thesis
  proof (cases "length (bq_bytes ?q) < length salt")
    case True
    then have "rest \<noteq> []" using arg_cong [OF q(2), of length] by auto
    moreover have "handleEncryptedData nc cx c s = Some ?s"
      using True s total len by (simp add: handleEncryptedData_def ss_openKey_def Let_def)
    moreover have "ss_before nc cx salt ?s rest ps" using s q True unfolding ss_before_def key_def by simp
    ultimately show ?thesis by blast
  next
    case False
    then have read: "fst (bq_read (length salt) ?q) = Inr salt" "bq_ok (snd (bq_read (length salt) ?q))"
      "bq_bytes (snd (bq_read (length salt) ?q)) @ rest = ss_wire nc cx key (ss_sealed (replicate 12 0) ps)"
      using bq.read_some [OF q(1), of "length salt"] arg_cong [OF q(2), of "take (length salt)"] arg_cong [OF q(2), of "drop (length salt)"]
      by simp_all
    obtain q1 where q1: "bq_read (length salt) ?q = (Inr salt, q1)" using read(1) by (metis prod.collapse)
    let ?t = "?s\<lparr>ss_decryptBuffer := q1, ss_decryptKey := Some key\<rparr>"
    have ahead: "ss_ahead nc cx key ?t rest (concat ps)"
      using s read(2,3) q1 unfolding ss_ahead_def by (intro conjI exI [of _ ps]) simp_all
    have "bq_totalLength q1 = length (bq_bytes q1)" using read(2) q1 by (simp add: bq_ok_def)
    with ss_loop_ahead [OF cok ahead, of "Suc (bq_totalLength q1)"] obtain t out' where
      "ss_loop nc cx key (Suc (bq_totalLength q1)) ?t = Some t" "ss_ahead nc cx key t rest out'" "concat ps = concat (ss_pushed t) @ out'"
      "rest = [] \<longrightarrow> out' = []" using s(4) by auto
    moreover have "handleEncryptedData nc cx c s = ss_loop nc cx key (Suc (bq_totalLength q1)) ?t"
      using False s total len q1 key_def by (simp add: handleEncryptedData_def ss_openKey_def Let_def del: ss_loop.simps)
    ultimately show ?thesis by auto
  qed
qed

section \<open>From one end to the other\<close>

lemma receive_ahead:
  assumes ok: "crypto_ok nc cx key"
  shows "ss_ahead nc cx key s (concat cs @ rest) out \<Longrightarrow>
   \<exists>t out'. ss_receive nc cx cs s = Some t \<and> ss_failure t = None \<and> concat (ss_pushed s) @ out = concat (ss_pushed t) @ out' \<and>
     (cs \<noteq> [] \<and> rest = [] \<longrightarrow> out' = [])"
proof (induction cs arbitrary: s out)
  case Nil
  then show ?case by (auto simp: ss_ahead_def)
next
  case (Cons c cs)
  then have "ss_ahead nc cx key s (c @ concat cs @ rest) out" by simp
  from data_ahead [OF ok this] obtain t out' where t: "handleEncryptedData nc cx c s = Some t" "ss_ahead nc cx key t (concat cs @ rest) out'"
    "concat (ss_pushed s) @ out = concat (ss_pushed t) @ out'" "concat cs @ rest = [] \<longrightarrow> out' = []" by blast
  from Cons.IH [OF t(2)] obtain u out'' where u: "ss_receive nc cx cs t = Some u" "ss_failure u = None"
    "concat (ss_pushed t) @ out' = concat (ss_pushed u) @ out''" "cs \<noteq> [] \<and> rest = [] \<longrightarrow> out'' = []" by blast
  show ?case
  proof (cases cs)
    case Nil
    with t u show ?thesis by (intro exI [of _ u] exI [of _ out']) simp
  next
    case (Cons d ds)
    with t u show ?thesis by (intro exI [of _ u] exI [of _ out'']) simp
  qed
qed

lemma receive_before:
  assumes ok: "aead_ok nc (cx_spec cx)" "context_ok cx" "hkdf_ok nc" and len: "length salt = cs_saltLength (cx_spec cx)"
  shows "ss_before nc cx salt s (concat cs @ rest) ps \<Longrightarrow>
   \<exists>t out'. ss_receive nc cx cs s = Some t \<and> ss_failure t = None \<and> concat ps = concat (ss_pushed t) @ out' \<and> (rest = [] \<longrightarrow> out' = [])"
proof (induction cs arbitrary: s)
  case Nil
  then have "rest \<noteq> []" using arg_cong [of "bq_bytes (ss_decryptBuffer s) @ rest" _ length] by (auto simp: ss_before_def)
  with Nil show ?case by (simp add: ss_before_def)
next
  case (Cons c cs)
  let ?key = "deriveSubkey nc (cx_masterKey cx) salt (cs_keyLength (cx_spec cx))"
  have cok: "crypto_ok nc cx ?key" using ok by (simp add: crypto_ok_def deriveSubkey_def hkdf_ok_def)
  from Cons.prems have "ss_before nc cx salt s (c @ concat cs @ rest) ps" by simp
  from data_before [OF ok len this] obtain t where t: "handleEncryptedData nc cx c s = Some t" and
    "ss_before nc cx salt t (concat cs @ rest) ps \<and> concat cs @ rest \<noteq> [] \<or>
     (\<exists>out'. ss_ahead nc cx ?key t (concat cs @ rest) out' \<and> concat ps = concat (ss_pushed t) @ out' \<and> (concat cs @ rest = [] \<longrightarrow> out' = []))"
    by blast
  then show ?case
  proof (elim disjE exE conjE)
    assume "ss_before nc cx salt t (concat cs @ rest) ps"
    from Cons.IH [OF this] t show ?thesis by simp
  next
    fix out' assume ahead: "ss_ahead nc cx ?key t (concat cs @ rest) out'" and out': "concat ps = concat (ss_pushed t) @ out'"
      "concat cs @ rest = [] \<longrightarrow> out' = []"
    from receive_ahead [OF cok ahead] obtain u out'' where "ss_receive nc cx cs t = Some u" "ss_failure u = None"
      "concat (ss_pushed t) @ out' = concat (ss_pushed u) @ out''" "cs \<noteq> [] \<and> rest = [] \<longrightarrow> out'' = []" by blast
    with t out' show ?thesis by (cases "cs = []") (auto intro!: exI [of _ u])
  qed
qed

text \<open>
  Property C9. Two ends with the same master key: whatever the one end writes, after its prefix, the
  other end pushes to its reader, in order and nothing else, however the network cuts the bytes; as
  long as only a part has arrived, what was pushed is a beginning of it. No call of the handler runs
  on forever and nothing fails. The ciphers must decrypt what they encrypted and HKDF give the length
  asked for.
\<close>

theorem ss_stream_roundtrip:
  assumes "aead_ok nc (cx_spec cx)" "hkdf_ok nc" "context_ok cx" "length salt = cs_saltLength (cx_spec cx)"
    and "ws \<noteq> [] \<or> eager"
    and "sender = ss_writes nc cx salt ws (newShadowsocksTcpStream nc cx pfx eager salt)"
    and "concat chunks @ rest = concat (ss_written sender)"
  shows "\<exists>receiver missing. ss_receive nc cx chunks (newShadowsocksTcpStream nc cx pfx' eager' salt') = Some receiver \<and>
     ss_failure receiver = None \<and> concat (ss_pushed receiver) @ missing = (if ws = [] then [] else pfx @ concat ws) \<and>
     (rest = [] \<longrightarrow> missing = [])"
proof -
  let ?key = "deriveSubkey nc (cx_masterKey cx) salt (cs_keyLength (cx_spec cx))"
  let ?r = "newShadowsocksTcpStream nc cx pfx' eager' salt'"
  from stream_has_sent [OF assms(5), of nc cx salt pfx] obtain ps where ps: "has_sent nc cx salt ps sender" "parts_ok ps"
    "concat ps = (if ws = [] then [] else pfx @ concat ws)" unfolding assms(6) by blast
  then have wire: "concat chunks @ rest = salt @ ss_wire nc cx ?key (ss_sealed (replicate 12 0) ps)"
    using assms(7) by (simp add: has_sent_def Let_def)
  have "0 < length salt" unfolding assms(4) using assms(3) by (cases "cx_method cx") (simp_all add: context_ok_def)
  then have "ss_before nc cx salt ?r (concat chunks @ rest) ps"
    using wire ps(2) bq_empty by (simp add: ss_before_def newShadowsocksTcpStream_def ss_sendSalt_def Let_def)
  from receive_before [OF assms(1,3,2,4) this] ps(3) show ?thesis by metis
qed

lemma sealed_shape:
  "\<forall>p \<in> set ps. length p \<le> 16383 \<Longrightarrow> length nonce = k \<Longrightarrow> (n, p) \<in> set (ss_sealed nonce ps) \<Longrightarrow> length n = k \<and> length p \<le> 16383"
proof (induction ps arbitrary: nonce)
  case (Cons q ps)
  from Cons.IH [of "incrementNonce (incrementNonce nonce)"] Cons.prems show ?case by auto
qed simp

text \<open>
  Property C25. A stream seals every piece under one key with a nonce of its own: what it wrote is the
  salt followed by sealed pieces whose nonces are pairwise different, for up to \<open>2 ^ 96\<close> pieces.
\<close>

theorem ss_nonces_unique:
  assumes "ws \<noteq> [] \<or> eager" "stream = ss_writes nc cx salt ws (newShadowsocksTcpStream nc cx pfx eager salt)"
  shows "\<exists>key sealed. concat (ss_written stream) = salt @ concat (map (\<lambda>(nonce, p). aeadEncrypt nc cx key nonce p) sealed) \<and>
     (length sealed \<le> 2 ^ 96 \<longrightarrow> distinct (map fst sealed)) \<and> (\<forall>(nonce, p) \<in> set sealed. length nonce = 12 \<and> length p \<le> 16383)"
proof -
  from stream_has_sent [OF assms(1), of nc cx salt pfx] obtain ps where ps: "has_sent nc cx salt ps stream"
    and ok: "parts_ok ps" unfolding assms(2) by blast
  let ?sealed = "ss_sealed (replicate 12 0) ps"
  have nonces: "map fst ?sealed = map (\<lambda>i. advance i (replicate 12 0)) [0..<2 * length ps]" by (rule map_fst_sealed)
  then have "length ?sealed = 2 * length ps" by (metis length_map length_upt minus_nat.diff_0)
  then have "length ?sealed \<le> 2 ^ 96 \<longrightarrow> distinct (map fst ?sealed)" using nonces_distinct nonces by metis
  moreover have "length nonce = 12 \<and> length p \<le> 16383" if "(nonce, p) \<in> set ?sealed" for nonce p
    using that ok by (intro sealed_shape [of ps "replicate 12 0" 12]) (simp_all add: parts_ok_def)
  ultimately show ?thesis using ps unfolding has_sent_def Let_def ss_wire_def by (intro exI conjI) auto
qed

section \<open>Keys and datagrams\<close>

text \<open>With digests that are not empty the key is long enough after as many rounds as it has bytes.\<close>

lemma evp_rounds_total:
  assumes "\<And>x. nc_md5 nc x \<noteq> []"
  shows "keyLength \<le> length chunks + n \<Longrightarrow> \<exists>k. evp_rounds nc keyLength pw n previous chunks = Some k \<and> length k = keyLength"
proof (induction n arbitrary: previous chunks)
  case (Suc n)
  have "1 \<le> length (nc_md5 nc (previous @ pw))" using assms [of "previous @ pw"] by (cases "nc_md5 nc (previous @ pw)") auto
  with Suc.prems Suc.IH [of "chunks @ nc_md5 nc (previous @ pw)" "nc_md5 nc (previous @ pw)"] show ?case
    by (simp add: Let_def min_def)
qed simp

lemma context_created:
  assumes "\<And>x. nc_md5 nc x \<noteq> []"
  shows "\<exists>cx. createShadowsocksCryptoContext nc m password = Some cx \<and> context_ok cx \<and> length (cx_masterKey cx) = cs_keyLength (cx_spec cx)"
  using evp_rounds_total [OF assms, of "cs_keyLength (CIPHERS m)" "[]" "cs_keyLength (CIPHERS m)" "utf8 password" "[]"]
  by (auto simp: createShadowsocksCryptoContext_def evpBytesToKey_def context_ok_def)

text \<open>
  A datagram sealed under a password's context opens to its payload on the other side, the
  context always exists, and a packet shorter than salt and tag is refused.
\<close>

lemma ss_datagram_roundtrip:
  assumes "aead_ok nc (CIPHERS m)" "hkdf_ok nc" "\<And>x. nc_md5 nc x \<noteq> []"
  shows "\<exists>cx. createShadowsocksCryptoContext nc m password = Some cx \<and>
    (\<forall>salt payload. length salt = cs_saltLength (cx_spec cx) \<longrightarrow>
       decryptUdpPacket nc cx (encryptUdpPacket nc cx salt payload) = Inr payload) \<and>
    (\<forall>packet. length packet < cs_saltLength (cx_spec cx) + 16 \<longrightarrow> (\<exists>e. decryptUdpPacket nc cx packet = Inl e))"
proof -
  from context_created [OF assms(3)] obtain cx where cx: "createShadowsocksCryptoContext nc m password = Some cx" "context_ok cx" by blast
  have aead: "aead_ok nc (cx_spec cx)" using assms(1) cx by (auto simp: createShadowsocksCryptoContext_def)
  from context_okD [OF cx(2)] have spec: "cs_authTagLength (cx_spec cx) = 16" "cs_nonceLength (cx_spec cx) = 12" by simp_all
  have key: "length (deriveSubkey nc (cx_masterKey cx) salt (cs_keyLength (cx_spec cx))) = cs_keyLength (cx_spec cx)" for salt
    using assms(2) by (simp add: deriveSubkey_def hkdf_ok_def)
  have "decryptUdpPacket nc cx (encryptUdpPacket nc cx salt payload) = Inr payload" if "length salt = cs_saltLength (cx_spec cx)" for salt payload
    using that length_seal [OF aead key, of "replicate 12 0" salt payload] open_seal [OF aead key, of "replicate 12 0" salt payload] spec
    by (simp add: decryptUdpPacket_def encryptUdpPacket_def Let_def)
  moreover have "\<exists>e. decryptUdpPacket nc cx packet = Inl e" if "length packet < cs_saltLength (cx_spec cx) + 16" for packet
    using that spec by (simp add: decryptUdpPacket_def)
  ultimately show ?thesis using cx(1) by blast
qed

section \<open>Witnesses\<close>

text \<open>A cipher that leaves the text as it is and appends a tag of zeros meets what is asked of it.\<close>

definition plainCrypto :: node_crypto where
  "plainCrypto = \<lparr>nc_encrypt = (\<lambda>name key nonce p. (p, replicate 16 0)), nc_decrypt = (\<lambda>name key nonce c tag. Inr c),
     nc_hkdf = (\<lambda>master salt info n. replicate n 1), nc_md5 = (\<lambda>x. replicate 16 2)\<rparr>"

definition plainContext :: crypto_context where
  "plainContext = \<lparr>cx_method = Aes128Gcm, cx_spec = CIPHERS Aes128Gcm, cx_masterKey = replicate 16 2\<rparr>"

lemma plainCrypto_ok: "cs_authTagLength spec = 16 \<Longrightarrow> aead_ok plainCrypto spec" "hkdf_ok plainCrypto" "context_ok plainContext"
  "nc_md5 plainCrypto x \<noteq> []"
  by (simp_all add: aead_ok_def hkdf_ok_def context_ok_def plainCrypto_def plainContext_def)

definition plainSender :: ss_stream where
  "plainSender = ss_writes plainCrypto plainContext (replicate 16 7) [[1, 2], [3]] (newShadowsocksTcpStream plainCrypto plainContext [9] True (replicate 16 7))"

lemma ss_stream_roundtrip_witness:
  "\<exists>receiver. ss_receive plainCrypto plainContext [concat (ss_written plainSender)] (createShadowsocksServerStream plainCrypto plainContext)
     = Some receiver \<and> concat (ss_pushed receiver) = [9, 1, 2, 3]"
proof -
  have "cs_authTagLength (cx_spec plainContext) = 16" "length (replicate 16 (7 :: 8 word)) = cs_saltLength (cx_spec plainContext)"
    by (simp_all add: plainContext_def)
  from ss_stream_roundtrip [OF plainCrypto_ok(1) [OF this(1)] plainCrypto_ok(2,3) this(2) _ plainSender_def,
      of "[concat (ss_written plainSender)]" "[]" "[]" False "[]"]
  show ?thesis by (auto simp: createShadowsocksServerStream_def simp del: ss_receive.simps)
qed

lemma ss_nonces_unique_witness:
  "\<exists>key sealed. concat (ss_written plainSender) = replicate 16 7 @ concat (map (\<lambda>(nonce, p). aeadEncrypt plainCrypto plainContext key nonce p) sealed)"
  using ss_nonces_unique [OF _ plainSender_def] by blast

end
