(* ===== verification/AddrCodec.thy ===== *)
theory AddrCodec
  imports Matcher Bytes
begin

text \<open>
  Destinations on the wire (\<^verbatim>\<open>src/protocol/address.ts\<close>): a type byte, the address, a big-endian port.
  Text is read back from bytes as UTF-8; a sequence that stands for a character outside the
  model's strings (or for none) is one substitute character per byte.
\<close>

section \<open>Reading text\<close>

definition substitute :: char where
  "substitute = CHR 0x1A"

fun utf8_text :: "bytes \<Rightarrow> string" where
  "utf8_text [] = []"
| "utf8_text (b # bs) =
     (if unat b < 128 then char_of (unat b) # utf8_text bs
      else (case bs of
              c # cs \<Rightarrow>
                if (unat b = 194 \<or> unat b = 195) \<and> 128 \<le> unat c \<and> unat c < 192
                then char_of ((unat b - 192) * 64 + (unat c - 128)) # utf8_text cs
                else substitute # utf8_text bs
            | [] \<Rightarrow> [substitute]))"

section \<open>Encoding\<close>

definition socks_octet :: "string \<Rightarrow> nat option" where
  "socks_octet part = (case js_Number part of JInt v \<Rightarrow> if 0 \<le> v \<and> v \<le> 255 then Some (nat v) else None | JNonInt \<Rightarrow> None)"

fun socks_octets :: "string list \<Rightarrow> bytes option" where
  "socks_octets [] = Some []"
| "socks_octets (p # ps) = (case socks_octet p of None \<Rightarrow> None | Some v \<Rightarrow> map_option ((#) (of_nat v)) (socks_octets ps))"

definition ipv6Group :: "string \<Rightarrow> nat result" where
  "ipv6Group part = (if v6_segment part then Inr (read_hex part) else Inl (ProtocolError (''invalid IPv6 group '' @ quoted part)))"

definition socksIpv6Groups :: "string \<Rightarrow> nat list result" where
  "socksIpv6Groups input = (if input = [] then Inr [] else rmap ipv6Group (split_on (CHR '':'') input))"

definition ipv6ToBytes :: "string \<Rightarrow> bytes result" where
  "ipv6ToBytes host =
     (let parts = split_pair (CHR '':'') host; invalid = ProtocolError (''invalid IPv6 address '' @ quoted host) in
      if length parts > 2 then Inl invalid
      else rbind (socksIpv6Groups (parts ! 0)) (\<lambda>head.
           rbind (socksIpv6Groups (if length parts = 2 then parts ! 1 else [])) (\<lambda>tail.
             (let groups = (if length parts = 2 then head @ replicate (8 - length head - length tail) 0 @ tail else head)
              in if length groups \<noteq> 8 \<or> length head + length tail > 8 then Inl invalid
                 else Inr (concat (map u16_bytes groups))))))"

definition encodeSocksAddress :: "destination \<Rightarrow> bytes result" where
  "encodeSocksAddress d =
     (let port = u16_bytes (d_port d) in
      case d_addressType d of
        Ipv4 \<Rightarrow>
          (let parts = split_on (CHR ''.'') (d_host d) in
           case socks_octets parts of
             Some bs \<Rightarrow> if length parts \<noteq> 4 then Inl (ProtocolError (''invalid IPv4 address '' @ quoted (d_host d)))
                        else Inr (1 # bs @ port)
           | None \<Rightarrow> Inl (ProtocolError (''invalid IPv4 address '' @ quoted (d_host d))))
      | Ipv6 \<Rightarrow> rbind (ipv6ToBytes (d_host d)) (\<lambda>bs. Inr (4 # bs @ port))
      | Domain \<Rightarrow>
          (let host = utf8 (d_host d) in
           if length host > 255
           then Inl (ProtocolError (''domain name is too long for SOCKS address: '' @ quoted (d_host d)))
           else Inr (3 # of_nat (length host) # host @ port)))"

section \<open>Decoding\<close>

definition slice :: "nat \<Rightarrow> nat \<Rightarrow> bytes \<Rightarrow> bytes" where
  "slice i j bs = take (j - i) (drop i bs)"

definition readPort :: "bytes \<Rightarrow> nat \<Rightarrow> nat result" where
  "readPort buffer i =
     (if i + 1 < length buffer then Inr (be16 (buffer ! i) (buffer ! (i + 1)))
      else Inl (ProtocolError ''missing SOCKS address port''))"

definition dotted_bytes :: "bytes \<Rightarrow> string" where
  "dotted_bytes bs = js_join ''.'' (map (\<lambda>b. show_nat (unat b)) bs)"

fun byte_groups :: "bytes \<Rightarrow> nat list" where
  "byte_groups (a # b # bs) = be16 a b # byte_groups bs"
| "byte_groups bs = []"

definition colon_groups :: "bytes \<Rightarrow> string" where
  "colon_groups bs = js_join '':'' (map show_hex (byte_groups bs))"

definition decodeSocksAddress :: "bytes \<Rightarrow> nat \<Rightarrow> (destination \<times> nat) result" where
  "decodeSocksAddress buffer off =
     (if off \<ge> length buffer then Inl (ProtocolError ''missing SOCKS address type'')
      else if buffer ! off = 1
      then (let addressEnd = off + 5; portEnd = addressEnd + 2 in
            if portEnd > length buffer then Inl (ProtocolError ''truncated IPv4 SOCKS address'')
            else rbind (readPort buffer addressEnd) (\<lambda>port.
                   Inr (makeDestination (dotted_bytes (slice (off + 1) addressEnd buffer)) port, portEnd)))
      else if buffer ! off = 3
      then (if off + 1 \<ge> length buffer \<or> buffer ! (off + 1) = 0
            then Inl (ProtocolError ''invalid domain SOCKS address length'')
            else (let hostStart = off + 2; hostEnd = hostStart + unat (buffer ! (off + 1)); portEnd = hostEnd + 2 in
                  if portEnd > length buffer then Inl (ProtocolError ''truncated domain SOCKS address'')
                  else rbind (readPort buffer hostEnd) (\<lambda>port.
                         Inr (makeDestination (utf8_text (slice hostStart hostEnd buffer)) port, portEnd))))
      else if buffer ! off = 4
      then (let addressEnd = off + 17; portEnd = addressEnd + 2 in
            if portEnd > length buffer then Inl (ProtocolError ''truncated IPv6 SOCKS address'')
            else rbind (readPort buffer addressEnd) (\<lambda>port.
                   Inr (makeDestination (colon_groups (slice (off + 1) addressEnd buffer)) port, portEnd)))
      else Inl (ProtocolError (''unsupported SOCKS address type '' @ show_nat (unat (buffer ! off)))))"

section \<open>Text\<close>

lemma char_of_code: "char_of (char_code c) = c"
  by (simp add: char_code_def)

lemma char_code_less: "char_code c < 256"
  by (simp add: char_code_def)

lemma utf8_text_pair:
  "unat b = 194 \<or> unat b = 195 \<Longrightarrow> 128 \<le> unat c \<Longrightarrow> unat c < 192 \<Longrightarrow>
    utf8_text (b # c # cs) = char_of ((unat b - 192) * 64 + (unat c - 128)) # utf8_text cs"
  by auto

lemma utf8_text_utf8 [simp]: "utf8_text (utf8 s) = s"
proof (induction s)
  case (Cons c s)
  define n where "n = char_code c"
  have n: "n < 256" and c: "char_of n = c" unfolding n_def by (simp_all add: char_code_less char_of_code)
  show ?case
  proof (cases "n < 128")
    case True
    then have "utf8 (c # s) = of_nat n # utf8 s" by (simp add: utf8_def utf8_char_def n_def Let_def)
    with Cons True c show ?thesis by (simp add: unat_of_nat8)
  next
    case False
    define hi where "hi = 192 + n div 64"
    define lo where "lo = 128 + n mod 64"
    from False have eq: "utf8 (c # s) = of_nat hi # of_nat lo # utf8 s"
      by (simp add: utf8_def utf8_char_def n_def hi_def lo_def Let_def)
    have "n div 64 = 2 \<or> n div 64 = 3" using False n by linarith
    then have hi: "hi = 194 \<or> hi = 195" and lo: "128 \<le> lo" "lo < 192" by (auto simp: hi_def lo_def)
    then have b: "unat (of_nat hi :: 8 word) = hi" "unat (of_nat lo :: 8 word) = lo" by (auto simp: unat_of_nat8)
    have "(hi - 192) * 64 + (lo - 128) = n" by (simp add: hi_def lo_def)
    moreover have "utf8_text (of_nat hi # of_nat lo # utf8 s) = char_of ((hi - 192) * 64 + (lo - 128)) # utf8_text (utf8 s)"
      using utf8_text_pair [of "of_nat hi" "of_nat lo"] hi lo unfolding b by blast
    ultimately show ?thesis unfolding eq using Cons c by simp
  qed
qed (simp add: utf8_def)

lemma utf8_empty: "utf8 s = [] \<longleftrightarrow> s = []"
  by (cases s) (auto simp: utf8_def utf8_char_def Let_def)

section \<open>Slices\<close>

lemma slice_append: "slice (length pre + i) (length pre + j) (pre @ xs) = slice i j xs"
  by (simp add: slice_def)

lemma slice_0: "slice 0 j xs = take j xs"
  by (simp add: slice_def)

lemma readPort_append: "readPort (pre @ xs) (length pre + i) = readPort xs i"
  by (simp add: readPort_def nth_append)

lemma decode_shift:
  "decodeSocksAddress (pre @ xs) (length pre) = rbind (decodeSocksAddress xs 0) (\<lambda>(d, n). Inr (d, length pre + n))"
proof -
  have shift: "slice (length pre + i) (length pre + j + k) (pre @ xs) = slice i (j + k) xs"
    "slice (length pre + i) (length pre + j) (pre @ xs) = slice i j xs"
    "readPort (pre @ xs) (length pre + j + k) = readPort xs (j + k)" "readPort (pre @ xs) (length pre + j) = readPort xs j" for i j k
    using slice_append [of pre i "j + k" xs] slice_append [of pre i j xs] readPort_append [of pre xs "j + k"] readPort_append [of pre xs j]
    by (simp_all add: add.assoc)
  have nth: "(pre @ xs) ! length pre = xs ! 0" "(pre @ xs) ! (length pre + 1) = xs ! 1"
    by (simp_all add: nth_append)
  show ?thesis
    unfolding decodeSocksAddress_def Let_def nth shift add_0 length_append
    by (auto simp: rbind_def split: sum.splits)
qed

section \<open>IPv4\<close>

lemma octet_show [simp]: "n < 256 \<Longrightarrow> socks_octet (show_nat n) = Some n"
  by (simp add: socks_octet_def)

lemma octets_show: "socks_octets (map (\<lambda>b. show_nat (unat b)) bs) = Some bs"
proof (induction bs)
  case (Cons b bs)
  then show ?case using unat8_less [of b] by simp
qed simp

lemma digit_char_digit_value: "is_digit c \<Longrightarrow> digit_char (digit_value c) = c"
  by (simp add: is_digit_def digit_char_def digit_value_def char_of_code)

lemma digit_value_less: "is_digit c \<Longrightarrow> digit_value c < 10"
  by (auto simp: is_digit_def digit_value_def)

lemma show_read_nat:
  "s \<noteq> [] \<Longrightarrow> all_digits s \<Longrightarrow> length s = 1 \<or> hd s \<noteq> CHR ''0'' \<Longrightarrow> show_nat (read_nat s) = s \<and> (hd s \<noteq> CHR ''0'' \<longrightarrow> 0 < read_nat s)"
proof (induction s rule: rev_induct)
  case (snoc c t)
  then have c: "is_digit c" by (simp add: all_digits_def)
  have val_eq: "read_nat (t @ [c]) = 10 * read_nat t + digit_value c" by (simp add: read_nat_def read_nat_acc_append)
  show ?case
  proof (cases t)
    case Nil
    have "digit_value c = 0 \<Longrightarrow> c = CHR ''0''"
      using digit_char_digit_value [OF c] by (auto simp: digit_char_def char_of_def bit_0)
    with Nil c show ?thesis
      by (subst show_nat.simps) (auto simp: read_nat_def digit_value_less digit_char_digit_value)
  next
    case (Cons d ds)
    with snoc have t: "show_nat (read_nat t) = t" "0 < read_nat t" by (auto simp: all_digits_def)
    with c show ?thesis unfolding val_eq
      by (subst show_nat.simps) (use digit_value_less [OF c] in \<open>simp add: digit_char_digit_value\<close>)
  qed
qed simp

lemma octet_segment: "v4_segment s \<Longrightarrow> socks_octet s = Some (read_nat s) \<and> read_nat s < 256 \<and> show_nat (read_nat s) = s"
  using show_read_nat [of s] by (auto simp: v4_segment_def socks_octet_def js_Number_digits)

lemma octets_segments:
  "list_all v4_segment ps \<Longrightarrow> \<exists>bs. socks_octets ps = Some bs \<and> length bs = length ps \<and> map (\<lambda>b. show_nat (unat b)) bs = ps"
proof (induction ps)
  case (Cons p ps)
  then obtain bs where "socks_octets ps = Some bs" "length bs = length ps" "map (\<lambda>b. show_nat (unat b)) bs = ps" by auto
  with Cons.prems octet_segment [of p] show ?case
    by (intro exI [of _ "of_nat (read_nat p) # bs"]) (simp add: unat_of_nat8)
qed simp

lemma encode_ipv4:
  assumes "isIPv4 host" "n < 65536"
  obtains bs where "encodeSocksAddress \<lparr>d_host = host, d_port = n, d_addressType = Ipv4\<rparr> = Inr (1 # bs @ u16_bytes n)"
    "length bs = 4" "dotted_bytes bs = host"
proof -
  from assms have parts: "length (split_on (CHR ''.'') host) = 4" "list_all v4_segment (split_on (CHR ''.'') host)"
    by (simp_all add: isIPv4_def Let_def)
  from octets_segments [OF parts(2)] obtain bs where bs: "socks_octets (split_on (CHR ''.'') host) = Some bs"
    "length bs = length (split_on (CHR ''.'') host)" "map (\<lambda>b. show_nat (unat b)) bs = split_on (CHR ''.'') host"
    by blast
  show ?thesis
    by (rule that [of bs]) (use bs parts in \<open>simp_all add: encodeSocksAddress_def dotted_bytes_def js_join_split_on\<close>)
qed

section \<open>IPv6\<close>

lemma hex_char_hex: "n < 16 \<Longrightarrow> hex_value (hex_char n) \<noteq> None"
  by simp

lemma hex_no_colon: "hex_value c \<noteq> None \<Longrightarrow> c \<noteq> CHR '':'' \<and> c \<noteq> CHR ''.'' \<and> c \<noteq> CHR ''%''"
  by (auto simp: hex_value_def char_code_def Let_def)

lemma show_hex_shape: "0 < k \<Longrightarrow> n < 16 ^ k \<Longrightarrow> show_hex n \<noteq> [] \<and> length (show_hex n) \<le> k \<and> list_all (\<lambda>c. hex_value c \<noteq> None) (show_hex n)"
proof (induction k arbitrary: n)
  case (Suc k)
  show ?case
  proof (cases "n < 16")
    case True
    then show ?thesis by (subst (1 2 3) show_hex.simps) simp
  next
    case False
    with Suc.prems have "n div 16 < 16 ^ k" by (simp add: less_mult_imp_div_less mult.commute)
    moreover from this False have "0 < k" by (cases k) auto
    ultimately have "show_hex (n div 16) \<noteq> []" "length (show_hex (n div 16)) \<le> k" "list_all (\<lambda>c. hex_value c \<noteq> None) (show_hex (n div 16))"
      using Suc.IH by simp_all
    with False show ?thesis by (subst (1 2 3) show_hex.simps) simp
  qed
qed simp

lemma v6_segment_show_hex: "n < 65536 \<Longrightarrow> v6_segment (show_hex n)"
  using show_hex_shape [of 4 n] by (simp add: v6_segment_def)

lemma v6_segment_chars: "v6_segment p \<Longrightarrow> CHR '':'' \<notin> set p \<and> CHR ''.'' \<notin> set p \<and> CHR ''%'' \<notin> set p \<and> p \<noteq> []"
  using hex_no_colon by (fastforce simp: v6_segment_def list_all_iff)

lemma split_pair_cons: "x \<noteq> c \<or> t = [] \<or> hd t \<noteq> c \<Longrightarrow> split_pair c t = [z] \<Longrightarrow> split_pair c (x # t) = [x # z]"
  by (cases t) auto

lemma split_pair_segment:
  "c \<notin> set p \<Longrightarrow> split_pair c t = [z] \<Longrightarrow> split_pair c (p @ t) = [p @ z]"
  by (induction p) (auto intro: split_pair_cons)

lemma split_pair_join:
  "ps \<noteq> [] \<Longrightarrow> (\<And>p. p \<in> set ps \<Longrightarrow> c \<notin> set p \<and> p \<noteq> []) \<Longrightarrow> split_pair c (js_join [c] ps) = [js_join [c] ps]"
proof (induction ps rule: induct_list012)
  case (2 p)
  then show ?case using split_pair_segment [of c p "[]" "[]"] by simp
next
  case (3 p q ps)
  from 3 have rest: "split_pair c (js_join [c] (q # ps)) = [js_join [c] (q # ps)]" by simp
  have "js_join [c] (q # ps) \<noteq> [] \<and> hd (js_join [c] (q # ps)) \<noteq> c"
    using "3.prems" (2) [of q] by (cases ps; cases q) auto
  with rest have "split_pair c (c # js_join [c] (q # ps)) = [c # js_join [c] (q # ps)]" by (intro split_pair_cons) auto
  with "3.prems" (2) [of p] split_pair_segment [of c p] show ?case by simp
qed simp

lemma v6_groups_segments: "list_all v6_segment ps \<Longrightarrow> v6_groups ps = Some (length ps)"
  by (induction ps rule: v6_groups.induct) auto

lemma js_join_chars: "x \<in> set (js_join [c] ps) \<Longrightarrow> x = c \<or> (\<exists>p \<in> set ps. x \<in> set p)"
  by (induction ps rule: induct_list012) auto

text \<open>An address written as eight groups of hexadecimal digits.\<close>

lemma full_ipv6:
  assumes "length gs = 8" "\<forall>g \<in> set gs. g < 65536"
  shows "isIPv6 (js_join '':'' (map show_hex gs)) \<and> \<not> isIPv4 (js_join '':'' (map show_hex gs)) \<and>
    ipv6ToBytes (js_join '':'' (map show_hex gs)) = Inr (concat (map u16_bytes gs))"
proof -
  let ?ps = "map show_hex gs" and ?s = "js_join '':'' (map show_hex gs)"
  have segments: "\<forall>p \<in> set ?ps. v6_segment p" using assms(2) by (auto simp: v6_segment_show_hex)
  have ne: "?ps \<noteq> []" "gs \<noteq> []" using assms(1) by auto
  have chars: "CHR ''.'' \<notin> set ?s" "CHR ''%'' \<notin> set ?s"
    using segments v6_segment_chars by (auto dest!: js_join_chars)
  have pair: "split_pair (CHR '':'') ?s = [?s]"
    using segments v6_segment_chars by (intro split_pair_join ne(1)) blast
  have split: "split_on (CHR '':'') ?s = ?ps"
    using segments v6_segment_chars by (intro split_on_join ne(1)) blast
  have "?s \<noteq> []" using segments v6_segment_chars ne by (cases gs; cases "tl gs") auto
  then have parts: "colon_parts ?s = ?ps" by (simp add: colon_parts_def split)
  have "before_zone ?s = ?s" "zone_of ?s = []"
    using chars(2) by (auto simp: before_zone_def zone_of_def takeWhile_eq_all_conv dropWhile_eq_Nil_conv)
  then have "isIPv6 ?s"
    using segments v6_groups_segments [of ?ps] assms(1) by (simp add: isIPv6_def v6_core_def pair parts list_all_iff)
  moreover have "\<not> isIPv4 ?s" using chars(1) isIPv4_dot by blast
  moreover have "rmap ipv6Group ?ps = Inr gs"
    using assms(2) by (auto simp: rmap_Inr_iff ipv6Group_def v6_segment_show_hex list_all2_conv_all_nth)
  then have "ipv6ToBytes ?s = Inr (concat (map u16_bytes gs))"
    using \<open>?s \<noteq> []\<close> assms(1) by (simp add: ipv6ToBytes_def pair socksIpv6Groups_def split Let_def)
  ultimately show ?thesis by blast
qed

lemma byte_groups_range: "g \<in> set (byte_groups bs) \<Longrightarrow> g < 65536"
  by (induction bs rule: byte_groups.induct) (auto simp: be16_less)

lemma byte_groups_length: "length bs = 2 * n \<Longrightarrow> length (byte_groups bs) = n \<and> concat (map u16_bytes (byte_groups bs)) = bs"
proof (induction n arbitrary: bs)
  case (Suc n)
  then obtain a b cs where "bs = a # b # cs" "length cs = 2 * n" by (auto simp: length_Suc_conv)
  with Suc.IH show ?case by simp
qed simp

lemma colon_groups_ipv6:
  "length bs = 16 \<Longrightarrow> detectAddressType (colon_groups bs) = Ipv6 \<and> ipv6ToBytes (colon_groups bs) = Inr bs"
  using full_ipv6 [of "byte_groups bs"] byte_groups_length [of bs 8] byte_groups_range
  by (auto simp: colon_groups_def detectAddressType_def isIP_def)

lemma length_groups: "length (concat (map u16_bytes gs)) = 2 * length gs"
  by (induction gs) simp_all

lemma ipv6ToBytes_length: "ipv6ToBytes host = Inr bs \<Longrightarrow> length bs = 16"
  unfolding ipv6ToBytes_def Let_def by (auto simp: rbind_Inr_iff length_groups simp del: map_append split: if_splits)

text \<open>Which IPv6 literals can be encoded: those without an IPv4 tail and without a zone.\<close>

lemma groups_of_segments: "list_all v6_segment ps \<Longrightarrow> rmap ipv6Group ps = Inr (map read_hex ps)"
  by (rule rmap_total) (simp add: ipv6Group_def list_all_iff)

lemma socksIpv6Groups_segments:
  "list_all v6_segment (colon_parts a) \<Longrightarrow> \<exists>gs. socksIpv6Groups a = Inr gs \<and> length gs = length (colon_parts a)"
  by (auto simp: socksIpv6Groups_def colon_parts_def groups_of_segments)

lemma socks_plain_groups_Some: "v6_plain_groups ps = Some n \<Longrightarrow> list_all v6_segment ps \<and> n = length ps"
  by (induction ps arbitrary: n) (auto split: if_splits)

lemma v6_groups_Some: "v6_groups ps = Some n \<Longrightarrow> \<forall>p \<in> set ps. CHR ''.'' \<notin> set p \<Longrightarrow> list_all v6_segment ps \<and> n = length ps"
proof (induction ps arbitrary: n rule: v6_groups.induct)
  case (2 p)
  then show ?case using isIPv4_dot [of p] by (auto split: if_splits)
qed (auto split: if_splits)

lemma split_pair_chars: "p \<in> set (split_pair c s) \<Longrightarrow> set p \<subseteq> set s"
proof (induction c s arbitrary: p rule: split_pair.induct)
  case (1 c x y xs)
  then show ?case by (cases "split_pair c (y # xs)") (auto split: if_splits, blast+)
qed auto

lemma colon_parts_chars: "p \<in> set (colon_parts a) \<Longrightarrow> set p \<subseteq> set a"
proof -
  have "q \<in> set (split_on c t) \<Longrightarrow> set q \<subseteq> set t" for q t and c :: char
  proof (induction t arbitrary: q)
    case (Cons x t)
    then show ?case by (cases "split_on c t") (auto split: if_splits, blast)
  qed simp
  then show "p \<in> set (colon_parts a) \<Longrightarrow> set p \<subseteq> set a" by (simp add: colon_parts_def split: if_splits)
qed

lemma ipv6ToBytes_plain:
  assumes "isIPv6 host" "CHR ''.'' \<notin> set host" "CHR ''%'' \<notin> set host"
  shows "\<exists>bs. ipv6ToBytes host = Inr bs"
proof -
  have "before_zone host = host" using assms(3) by (auto simp: before_zone_def takeWhile_eq_all_conv)
  with assms(1) have core: "v6_core host" by (simp add: isIPv6_def)
  have no_dot: "\<forall>q \<in> set (colon_parts a). CHR ''.'' \<notin> set q" if "a \<in> set (split_pair (CHR '':'') host)" for a
    using that assms(2) split_pair_chars colon_parts_chars by blast
  show ?thesis
  proof (cases "split_pair (CHR '':'') host" rule: v6_groups.cases)
    case (2 a)
    with core have "v6_groups (colon_parts a) = Some 8" by (simp add: v6_core_def)
    from v6_groups_Some [OF this] no_dot [of a] 2 have "list_all v6_segment (colon_parts a)" "length (colon_parts a) = 8" by auto
    with socksIpv6Groups_segments [of a] obtain gs where "socksIpv6Groups a = Inr gs" "length gs = 8" by auto
    with 2 show ?thesis by (simp add: ipv6ToBytes_def Let_def socksIpv6Groups_def)
  next
    case (3 a b bs)
    with core have bs: "bs = []" by (simp add: v6_core_def split: list.splits)
    with 3 core obtain m n where "v6_plain_groups (colon_parts a) = Some m" "v6_groups (colon_parts b) = Some n" "m + n \<le> 7"
      by (auto simp: v6_core_def split: option.splits)
    with socks_plain_groups_Some [of "colon_parts a" m] v6_groups_Some [of "colon_parts b" n] no_dot [of b] 3
    have "list_all v6_segment (colon_parts a)" "list_all v6_segment (colon_parts b)" "length (colon_parts a) + length (colon_parts b) \<le> 7"
      by auto
    with socksIpv6Groups_segments [of a] socksIpv6Groups_segments [of b]
    obtain hs ts where "socksIpv6Groups a = Inr hs" "socksIpv6Groups b = Inr ts" "length hs + length ts \<le> 7" by auto
    with 3 bs show ?thesis by (simp add: ipv6ToBytes_def Let_def)
  qed (use core in \<open>simp add: v6_core_def\<close>)
qed

lemma socksIpv6Groups_chars:
  assumes "socksIpv6Groups a = Inr gs" "x \<in> set a"
  shows "x = CHR '':'' \<or> hex_value x \<noteq> None"
proof -
  have "a \<noteq> []" using assms(2) by auto
  with assms(1) have "list_all2 (\<lambda>p g. ipv6Group p = Inr g) (split_on (CHR '':'') a) gs"
    by (simp add: socksIpv6Groups_def rmap_Inr_iff)
  then have "\<forall>p \<in> set (split_on (CHR '':'') a). v6_segment p"
    by (auto simp: list_all2_conv_all_nth in_set_conv_nth ipv6Group_def split: if_splits)
  moreover have "x = CHR '':'' \<or> (\<exists>p \<in> set (split_on (CHR '':'') a). x \<in> set p)"
    using js_join_chars [of x "CHR '':''" "split_on (CHR '':'') a"] assms(2) by (simp add: js_join_split_on)
  ultimately show ?thesis by (fastforce simp: v6_segment_def list_all_iff)
qed

lemma ipv6ToBytes_chars:
  assumes "ipv6ToBytes host = Inr bs"
  shows "CHR ''.'' \<notin> set host \<and> CHR ''%'' \<notin> set host"
proof -
  have "x \<noteq> CHR ''.'' \<and> x \<noteq> CHR ''%''" if "x \<in> set host" for x
  proof (cases "x = CHR '':''")
    case False
    with that split_pair_has obtain a where a: "a \<in> set (split_pair (CHR '':'') host)" "x \<in> set a" by blast
    from assms have "\<exists>gs. socksIpv6Groups a = Inr gs" if "a \<in> set (split_pair (CHR '':'') host)" for a
      using that by (cases "split_pair (CHR '':'') host" rule: v6_groups.cases)
        (auto simp: ipv6ToBytes_def Let_def rbind_Inr_iff split: if_splits)
    with a socksIpv6Groups_chars False hex_no_colon show ?thesis by blast
  qed auto
  then show ?thesis by blast
qed

section \<open>Round trips\<close>

lemma readPort_u16: "n < 65536 \<Longrightarrow> readPort (pre @ u16_bytes n @ rest) (length pre) = Inr n"
  by (simp add: readPort_def u16_bytes_def nth_append)

lemma decode_ipv4:
  assumes "length bs = 4" "n < 65536"
  shows "decodeSocksAddress ((1 # bs @ u16_bytes n) @ rest) 0 = Inr (makeDestination (dotted_bytes bs) n, 7)"
  using readPort_u16 [of n "1 # bs" rest] assms by (simp add: decodeSocksAddress_def slice_def Let_def)

lemma decode_ipv6:
  assumes "length bs = 16" "n < 65536"
  shows "decodeSocksAddress ((4 # bs @ u16_bytes n) @ rest) 0 = Inr (makeDestination (colon_groups bs) n, 19)"
  using readPort_u16 [of n "4 # bs" rest] assms by (simp add: decodeSocksAddress_def slice_def Let_def)

lemma decode_domain:
  assumes "length bs < 256" "bs \<noteq> []" "n < 65536"
  shows "decodeSocksAddress ((3 # of_nat (length bs) # bs @ u16_bytes n) @ rest) 0 = Inr (makeDestination (utf8_text bs) n, length bs + 4)"
proof -
  have len: "unat (of_nat (length bs) :: 8 word) = length bs" using assms(1) by (simp add: unat_of_nat8)
  then have "of_nat (length bs) \<noteq> (0 :: 8 word)" using assms(2) by (metis length_0_conv unsigned_0)
  then show ?thesis
    using readPort_u16 [of n "3 # of_nat (length bs) # bs" rest] assms len by (simp add: decodeSocksAddress_def slice_def Let_def)
qed

text \<open>What an encoded address looks like, and what it decodes to.\<close>

definition address_frame :: "bytes \<Rightarrow> destination \<Rightarrow> bool" where
  "address_frame bs d \<longleftrightarrow> (\<forall>rest. decodeSocksAddress (bs @ rest) 0 = Inr (d, length bs))"

lemma address_frame_at: "address_frame bs d \<Longrightarrow> decodeSocksAddress (pre @ bs @ rest) (length pre) = Inr (d, length pre + length bs)"
  by (simp add: decode_shift address_frame_def)

lemma encode_frame:
  assumes "host \<noteq> []" "n < 65536" "detectAddressType host = Domain \<longrightarrow> length (utf8 host) \<le> 255"
    "detectAddressType host = Ipv6 \<longrightarrow> CHR ''.'' \<notin> set host \<and> CHR ''%'' \<notin> set host"
  obtains bs d where "encodeSocksAddress (makeDestination host n) = Inr bs" "address_frame bs d" "d_port d = n"
    "d_addressType d = detectAddressType host" "detectAddressType host \<noteq> Ipv6 \<longrightarrow> d_host d = host" "encodeSocksAddress d = Inr bs"
proof (cases "detectAddressType host")
  case Ipv4
  then have "isIPv4 host" by (auto simp: detectAddressType_def isIP_def Let_def split: if_splits)
  from encode_ipv4 [OF this assms(2)] obtain bs where bs: "length bs = 4" "dotted_bytes bs = host"
    and "encodeSocksAddress (makeDestination host n) = Inr (1 # bs @ u16_bytes n)"
    using Ipv4 by (metis makeDestination_def)
  with Ipv4 decode_ipv4 [OF bs(1) assms(2)] show ?thesis
    by (intro that [of "1 # bs @ u16_bytes n" "makeDestination host n"]) (simp_all add: address_frame_def makeDestination_def)
next
  case Ipv6
  with assms(4) have "isIPv6 host" "CHR ''.'' \<notin> set host" "CHR ''%'' \<notin> set host"
    by (auto simp: detectAddressType_def isIP_def Let_def split: if_splits)
  from ipv6ToBytes_plain [OF this] obtain bs where bs: "ipv6ToBytes host = Inr bs" by blast
  from ipv6ToBytes_length [OF this] have len: "length bs = 16" .
  from colon_groups_ipv6 [OF len] decode_ipv6 [OF len assms(2)] show ?thesis using Ipv6 bs len
    by (intro that [of "4 # bs @ u16_bytes n" "makeDestination (colon_groups bs) n"])
      (simp_all add: address_frame_def makeDestination_def encodeSocksAddress_def)
next
  case Domain
  let ?bs = "3 # of_nat (length (utf8 host)) # utf8 host @ u16_bytes n"
  have "utf8 host \<noteq> []" using assms(1) by (simp add: utf8_empty)
  with decode_domain [of "utf8 host" n] assms Domain show ?thesis
    by (intro that [of ?bs "makeDestination host n"]) (simp_all add: address_frame_def makeDestination_def encodeSocksAddress_def Let_def)
qed

lemma rmap_group_Inl: "rmap ipv6Group ps = Inl e \<Longrightarrow> \<exists>m. e = ProtocolError m"
  by (induction ps) (auto simp: ipv6Group_def rbind_def split: sum.splits if_splits)

text \<open>
  Property C24. An encoded destination decodes again, wherever it stands in a buffer: same port, same
  kind of address, the same text for domains and IPv4 literals, and for an IPv6 literal its full form,
  which encodes to the same bytes. Only an empty host, a domain of more than 255 bytes and an IPv6
  literal with an IPv4 tail or a zone are left out; those last ones fail.
\<close>

theorem socks_address_roundtrip:
  assumes "host \<noteq> []" "n < 65536" "detectAddressType host = Domain \<longrightarrow> length (utf8 host) \<le> 255"
  shows "if detectAddressType host = Ipv6 \<and> (CHR ''.'' \<in> set host \<or> CHR ''%'' \<in> set host)
    then \<exists>m. encodeSocksAddress (makeDestination host n) = Inl (ProtocolError m)
    else \<exists>bs d. encodeSocksAddress (makeDestination host n) = Inr bs \<and> encodeSocksAddress d = Inr bs \<and>
      (\<forall>pre rest. decodeSocksAddress (pre @ bs @ rest) (length pre) = Inr (d, length pre + length bs)) \<and>
      d_port d = n \<and> d_addressType d = detectAddressType host \<and> (detectAddressType host \<noteq> Ipv6 \<longrightarrow> d_host d = host)"
proof (cases "detectAddressType host = Ipv6 \<and> (CHR ''.'' \<in> set host \<or> CHR ''%'' \<in> set host)")
  case True
  with ipv6ToBytes_chars [of host] obtain e where e: "ipv6ToBytes host = Inl e" by (cases "ipv6ToBytes host") auto
  then have "\<exists>m. e = ProtocolError m"
    by (auto simp: ipv6ToBytes_def Let_def rbind_def socksIpv6Groups_def dest!: rmap_group_Inl split: if_splits sum.splits)
  with True e show ?thesis by (auto simp: encodeSocksAddress_def makeDestination_def)
next
  case False
  with encode_frame [OF assms] obtain bs d where "encodeSocksAddress (makeDestination host n) = Inr bs" "address_frame bs d" "d_port d = n"
    "d_addressType d = detectAddressType host" "detectAddressType host \<noteq> Ipv6 \<longrightarrow> d_host d = host" "encodeSocksAddress d = Inr bs"
    by blast
  with False address_frame_at [of bs d] show ?thesis by (auto intro!: exI [of _ bs] exI [of _ d])
qed

lemma socks_address_roundtrip_witness:
  "\<exists>bs d. encodeSocksAddress (makeDestination ''a.io'' 443) = Inr bs \<and>
     (\<forall>pre rest. decodeSocksAddress (pre @ bs @ rest) (length pre) = Inr (d, length pre + length bs)) \<and> d_port d = 443"
proof -
  have kind: "detectAddressType ''a.io'' = Domain" by code_simp
  have "length (utf8 ''a.io'') \<le> 255" by code_simp
  with socks_address_roundtrip [of "''a.io''" 443] kind show ?thesis by auto
qed

end
