(* ===== verification/Handshake.thy ===== *)
theory Handshake
  imports AddrCodec ConfigProxy
begin

text \<open>
  How clients introduce themselves to the SOCKS5 inbound (\<^verbatim>\<open>src/inbound/socks5.ts\<close>), over the
  buffered reader of \<^verbatim>\<open>src/utils/net.ts\<close>. The network is a list of read events and of write
  outcomes; the router and the outbound are the argument \<open>openTcp\<close>.
\<close>

section \<open>The buffered reader\<close>

text \<open>
  What one \<^verbatim>\<open>pull\<close> finds: the chunks the socket had, possibly after waiting (none, when it became
  readable for nothing), or the failure of the wait. When there is nothing more the timer fires.
\<close>

datatype read_event = Arrived "bytes list" | ReadFailed js_error

record session =
  se_buffer :: bytes
  se_timeoutMs :: int
  se_maxBytes :: nat
  se_events :: "read_event list"
  se_written :: "bytes list"
  se_writeFaults :: "js_error option list"

type_synonym 'a io = "session \<Rightarrow> 'a result \<times> session"

definition io_return :: "'a \<Rightarrow> 'a io" where
  "io_return x s = (Inr x, s)"

definition io_fail :: "js_error \<Rightarrow> 'a io" where
  "io_fail e s = (Inl e, s)"

definition io_bind :: "'a io \<Rightarrow> ('a \<Rightarrow> 'b io) \<Rightarrow> 'b io" where
  "io_bind m f s = (case m s of (Inl e, s1) \<Rightarrow> (Inl e, s1) | (Inr x, s1) \<Rightarrow> f x s1)"

fun appendChunks :: "nat \<Rightarrow> bytes \<Rightarrow> bytes list \<Rightarrow> unit result \<times> bytes" where
  "appendChunks maxBytes buf [] = (Inr (), buf)"
| "appendChunks maxBytes buf (c # cs) =
     (if length buf + length c > maxBytes
      then (Inl (ProtocolError (''protocol data exceeded '' @ show_nat maxBytes @ '' bytes'')), buf)
      else appendChunks maxBytes (buf @ c) cs)"

fun fill :: "int \<Rightarrow> nat \<Rightarrow> nat \<Rightarrow> bytes \<Rightarrow> read_event list \<Rightarrow> unit result \<times> bytes \<times> read_event list" where
  "fill timeoutMs maxBytes n buf [] =
     (if n \<le> length buf then Inr () else Inl (TimeoutError (''protocol read timeout after '' @ show_int timeoutMs @ ''ms'')), buf, [])"
| "fill timeoutMs maxBytes n buf (ev # evs) =
     (if n \<le> length buf then (Inr (), buf, ev # evs)
      else (case ev of
              ReadFailed e \<Rightarrow> (Inl e, buf, evs)
            | Arrived cs \<Rightarrow> (case appendChunks maxBytes buf cs of
                (Inl e, buf1) \<Rightarrow> (Inl e, buf1, evs)
              | (Inr u, buf1) \<Rightarrow> fill timeoutMs maxBytes n buf1 evs)))"

definition readExact :: "nat \<Rightarrow> bytes io" where
  "readExact n s =
     (case fill (se_timeoutMs s) (se_maxBytes s) n (se_buffer s) (se_events s) of
        (Inl e, buf, evs) \<Rightarrow> (Inl e, s\<lparr>se_buffer := buf, se_events := evs\<rparr>)
      | (Inr u, buf, evs) \<Rightarrow> (Inr (take n buf), s\<lparr>se_buffer := drop n buf, se_events := evs\<rparr>))"

definition releaseRemainder :: "bytes io" where
  "releaseRemainder s = (Inr (se_buffer s), s\<lparr>se_buffer := []\<rparr>)"

text \<open>\<^verbatim>\<open>writeSocket\<close>: the outcome of each write is given, those not listed succeed.\<close>

definition writeSocket :: "bytes \<Rightarrow> unit io" where
  "writeSocket data s =
     (case se_writeFaults s of
        Some e # fs \<Rightarrow> (Inl e, s\<lparr>se_writeFaults := fs\<rparr>)
      | fs \<Rightarrow> (Inr (), s\<lparr>se_written := se_written s @ [data], se_writeFaults := tl fs\<rparr>))"

section \<open>SOCKS5\<close>

definition safeEqual :: "string \<Rightarrow> string \<Rightarrow> bool" where
  "safeEqual left right =
     (let leftBuffer = utf8 left; rightBuffer = utf8 right in
      if length leftBuffer \<noteq> length rightBuffer then False else leftBuffer = rightBuffer)"

definition authenticateUserPass :: "basic_auth \<Rightarrow> unit io" where
  "authenticateUserPass auth =
     io_bind (readExact 2) (\<lambda>versionBuffer.
       if versionBuffer ! 0 \<noteq> 1 then io_fail (ProtocolError ''invalid SOCKS5 username/password auth packet'')
       else io_bind (readExact (unat (versionBuffer ! 1))) (\<lambda>usernameBytes.
         let username = utf8_text usernameBytes in
         io_bind (readExact 1) (\<lambda>passwordLengthBuffer.
         io_bind (readExact (unat (passwordLengthBuffer ! 0))) (\<lambda>passwordBytes.
           let password = utf8_text passwordBytes in
           if \<not> safeEqual username (au_username auth) \<or> \<not> safeEqual password (au_password auth)
           then io_bind (writeSocket [1, 1]) (\<lambda>u. io_fail (ProtocolError ''SOCKS5 username/password auth failed''))
           else writeSocket [1, 0]))))"

definition negotiateAuth :: "basic_auth option \<Rightarrow> unit io" where
  "negotiateAuth auth =
     io_bind (readExact 2) (\<lambda>head.
       if head ! 0 \<noteq> 5 then io_fail (ProtocolError ''invalid SOCKS5 greeting'')
       else io_bind (readExact (unat (head ! 1))) (\<lambda>methods.
         case auth of
           Some a \<Rightarrow>
             if au_enabled a
             then (if 2 \<notin> set methods
                   then io_bind (writeSocket [5, 255]) (\<lambda>u. io_fail (ProtocolError ''SOCKS5 client does not support username/password auth''))
                   else io_bind (writeSocket [5, 2]) (\<lambda>u. authenticateUserPass a))
             else (if 0 \<notin> set methods
                   then io_bind (writeSocket [5, 255]) (\<lambda>u. io_fail (ProtocolError ''SOCKS5 client does not support no-auth''))
                   else writeSocket [5, 0])
         | None \<Rightarrow>
             (if 0 \<notin> set methods
              then io_bind (writeSocket [5, 255]) (\<lambda>u. io_fail (ProtocolError ''SOCKS5 client does not support no-auth''))
              else writeSocket [5, 0])))"

definition readSocksAddress :: "8 word \<Rightarrow> string io" where
  "readSocksAddress addressType =
     (if addressType = 1 then io_bind (readExact 4) (\<lambda>bs. io_return (dotted_bytes bs))
      else if addressType = 3
      then io_bind (readExact 1) (\<lambda>lengthBuffer.
             if lengthBuffer ! 0 = 0 then io_fail (ProtocolError ''invalid SOCKS5 domain length'')
             else io_bind (readExact (unat (lengthBuffer ! 0))) (\<lambda>bs. io_return (utf8_text bs)))
      else if addressType = 4 then io_bind (readExact 16) (\<lambda>bs. io_return (colon_groups bs))
      else io_fail (ProtocolError (''unsupported SOCKS5 address type '' @ show_nat (unat addressType))))"

definition readCommand :: "(nat \<times> destination) io" where
  "readCommand =
     io_bind (readExact 4) (\<lambda>head.
       if head ! 0 \<noteq> 5 \<or> head ! 2 \<noteq> 0 then io_fail (ProtocolError ''invalid SOCKS5 request header'')
       else io_bind (readSocksAddress (head ! 3)) (\<lambda>host.
            io_bind (readExact 2) (\<lambda>portBuffer.
              io_return (unat (head ! 1), makeDestination host (be16 (portBuffer ! 0) (portBuffer ! 1))))))"

text \<open>The reply always carries a literal address here, so the inbound's own encoder agrees with the shared one.\<close>

definition createReply :: "8 word \<Rightarrow> bytes result" where
  "createReply replyCode = rbind (encodeSocksAddress (makeDestination ''0.0.0.0'' 0)) (\<lambda>bs. Inr ([5, replyCode, 0] @ bs))"

definition reply_io :: "8 word \<Rightarrow> unit io" where
  "reply_io code = (case createReply code of Inl e \<Rightarrow> io_fail e | Inr bs \<Rightarrow> writeSocket bs)"

text \<open>
  \<^verbatim>\<open>handleConnection\<close>: what became of the connection. \<open>openTcp\<close> is the router and the outbound; what is
  already buffered goes to the remote first.
\<close>

datatype socks_outcome =
    SocksClosed js_error
  | SocksUdp destination
  | SocksUnreachable destination js_error
  | SocksRelay destination bytes

definition socks5_handle :: "basic_auth option \<Rightarrow> bool option \<Rightarrow> (destination \<Rightarrow> unit result) \<Rightarrow> session \<Rightarrow> socks_outcome \<times> session" where
  "socks5_handle auth udpAssociate openTcp s =
     (case io_bind (negotiateAuth auth) (\<lambda>u. readCommand) s of
        (Inl e, s1) \<Rightarrow> (SocksClosed e, s1)
      | (Inr (command, d), s1) \<Rightarrow>
          if command = 3
          then (if udpAssociate \<noteq> Some True
                then (case reply_io 7 s1 of
                        (Inl e, s2) \<Rightarrow> (SocksClosed e, s2)
                      | (Inr u, s2) \<Rightarrow> (SocksClosed (ProtocolError ''SOCKS5 UDP ASSOCIATE is disabled for this inbound''), s2))
                else (SocksUdp d, s1))
          else if command \<noteq> 1
          then (case reply_io 7 s1 of
                  (Inl e, s2) \<Rightarrow> (SocksClosed e, s2)
                | (Inr u, s2) \<Rightarrow> (SocksClosed (ProtocolError (''SOCKS5 command '' @ show_nat command @ '' is not supported'')), s2))
          else (case openTcp d of
                  Inl e \<Rightarrow> (case reply_io 1 s1 of (Inl e2, s2) \<Rightarrow> (SocksClosed e2, s2) | (Inr u, s2) \<Rightarrow> (SocksUnreachable d e, s2))
                | Inr u \<Rightarrow> (case reply_io 0 s1 of
                    (Inl e, s2) \<Rightarrow> (SocksClosed e, s2)
                  | (Inr u, s2) \<Rightarrow> (SocksRelay d (se_buffer s2), s2\<lparr>se_buffer := []\<rparr>))))"

section \<open>What was read is what was sent\<close>

fun arrivals :: "read_event list \<Rightarrow> bytes" where
  "arrivals [] = []"
| "arrivals (Arrived cs # evs) = concat cs @ arrivals evs"
| "arrivals (ReadFailed e # evs) = []"

definition input :: "session \<Rightarrow> bytes" where
  "input s = se_buffer s @ arrivals (se_events s)"

lemma appendChunks_Inr: "appendChunks m buf cs = (Inr u, b) \<Longrightarrow> b = buf @ concat cs"
proof (induction cs arbitrary: buf)
  case (Cons c cs)
  from Cons.prems Cons.IH [of "buf @ c"] show ?case by (simp split: if_splits)
qed simp

lemma fill_Inr: "fill t m n buf evs = (Inr u, b, evs') \<Longrightarrow> n \<le> length b \<and> b @ arrivals evs' = buf @ arrivals evs"
proof (induction t m n buf evs rule: fill.induct)
  case (2 t m n buf ev evs)
  then show ?case
    by (auto split: if_splits read_event.splits sum.splits prod.splits dest!: appendChunks_Inr)
qed (simp split: if_splits)

lemma readExact_Inr: "readExact n s = (Inr bs, s1) \<Longrightarrow> length bs = n \<and> input s = bs @ input s1"
proof -
  assume "readExact n s = (Inr bs, s1)"
  then obtain u buf evs where f: "fill (se_timeoutMs s) (se_maxBytes s) n (se_buffer s) (se_events s) = (Inr u, buf, evs)"
    and eqs: "bs = take n buf" "s1 = s\<lparr>se_buffer := drop n buf, se_events := evs\<rparr>"
    by (auto simp: readExact_def split: prod.splits sum.splits)
  from fill_Inr [OF f] have "n \<le> length buf" "buf @ arrivals evs = input s" by (simp_all add: input_def)
  moreover from this(2) have "bs @ input s1 = input s" by (simp add: eqs input_def append_assoc [symmetric] del: append_assoc)
  ultimately show ?thesis by (simp add: eqs(1))
qed

lemma writeSocket_Inr: "writeSocket d s = (Inr u, s1) \<Longrightarrow> input s1 = input s"
  by (auto simp: writeSocket_def input_def split: list.splits option.splits)

lemma io_bind_Inr: "io_bind m f s = (Inr y, s') \<longleftrightarrow> (\<exists>x s1. m s = (Inr x, s1) \<and> f x s1 = (Inr y, s'))"
  by (auto simp: io_bind_def split: prod.splits sum.splits)

lemma io_fail_Inr [simp]: "io_fail e s \<noteq> (Inr y, s')"
  by (simp add: io_fail_def)

lemma length_1_iff: "length bs = 1 \<longleftrightarrow> bs = [bs ! 0]"
  by (cases bs) auto

lemma length_2_iff: "length bs = 2 \<longleftrightarrow> bs = [bs ! 0, bs ! 1]"
  by (cases bs; cases "tl bs") auto

lemma safeEqual_iff: "safeEqual x y \<longleftrightarrow> x = y"
  unfolding safeEqual_def Let_def by (metis utf8_text_utf8)

lemma authenticate_Inr:
  assumes "authenticateUserPass a s = (Inr v, s')"
  shows "\<exists>u p. input s = [1, of_nat (length u)] @ u @ [of_nat (length p)] @ p @ input s' \<and> utf8_text u = au_username a \<and> utf8_text p = au_password a"
proof -
  from assms obtain h s1 where h: "readExact 2 s = (Inr h, s1)" and "(if h ! 0 \<noteq> 1 then io_fail (ProtocolError ''invalid SOCKS5 username/password auth packet'')
       else io_bind (readExact (unat (h ! 1))) (\<lambda>usernameBytes.
         let username = utf8_text usernameBytes in
         io_bind (readExact 1) (\<lambda>passwordLengthBuffer.
         io_bind (readExact (unat (passwordLengthBuffer ! 0))) (\<lambda>passwordBytes.
           let password = utf8_text passwordBytes in
           if \<not> safeEqual username (au_username a) \<or> \<not> safeEqual password (au_password a)
           then io_bind (writeSocket [1, 1]) (\<lambda>u. io_fail (ProtocolError ''SOCKS5 username/password auth failed''))
           else writeSocket [1, 0])))) s1 = (Inr v, s')"
    unfolding authenticateUserPass_def io_bind_Inr by blast
  then obtain u s2 l s3 p s4 where "h ! 0 = 1" and u: "readExact (unat (h ! 1)) s1 = (Inr u, s2)" and l: "readExact 1 s2 = (Inr l, s3)"
    and p: "readExact (unat (l ! 0)) s3 = (Inr p, s4)" and rest: "(if \<not> safeEqual (utf8_text u) (au_username a) \<or> \<not> safeEqual (utf8_text p) (au_password a)
           then io_bind (writeSocket [1, 1]) (\<lambda>u. io_fail (ProtocolError ''SOCKS5 username/password auth failed''))
           else writeSocket [1, 0]) s4 = (Inr v, s')"
    by (auto simp: io_bind_Inr Let_def split: if_splits)
  from rest have ok: "utf8_text u = au_username a" "utf8_text p = au_password a" "writeSocket [1, 0] s4 = (Inr v, s')"
    by (simp_all add: safeEqual_iff io_bind_Inr split: if_splits)
  from readExact_Inr [OF h] readExact_Inr [OF l] \<open>h ! 0 = 1\<close> have "h = [1, h ! 1]" "l = [l ! 0]" by (metis length_2_iff, metis length_1_iff)
  moreover from readExact_Inr [OF u] readExact_Inr [OF p] have "h ! 1 = of_nat (length u)" "l ! 0 = of_nat (length p)" by simp_all
  ultimately have bytes: "h = [1, of_nat (length u)]" "l = [of_nat (length p)]" by simp_all
  have "input s = h @ u @ l @ p @ input s'"
    using readExact_Inr [OF h] readExact_Inr [OF u] readExact_Inr [OF l] readExact_Inr [OF p] writeSocket_Inr [OF ok(3)] by simp
  then show ?thesis using ok(1,2) unfolding bytes by (intro exI [of _ u] exI [of _ p]) simp
qed

text \<open>What the client sent before the inbound read a command.\<close>

definition greeting :: "bytes \<Rightarrow> bytes" where
  "greeting methods = [5, of_nat (length methods)] @ methods"

definition credentials :: "bytes \<Rightarrow> bytes \<Rightarrow> bytes" where
  "credentials u p = [1, of_nat (length u)] @ u @ [of_nat (length p)] @ p"

lemma negotiate_Inr:
  assumes "negotiateAuth (Some a) s = (Inr v, s')" "au_enabled a"
  shows "\<exists>methods u p. input s = greeting methods @ credentials u p @ input s' \<and> 2 \<in> set methods \<and>
    utf8_text u = au_username a \<and> utf8_text p = au_password a"
proof -
  from assms obtain h s1 methods s2 s3 where h: "readExact 2 s = (Inr h, s1)" "h ! 0 = 5"
    and m: "readExact (unat (h ! 1)) s1 = (Inr methods, s2)" "2 \<in> set methods"
    and w: "writeSocket [5, 2] s2 = (Inr (), s3)" "authenticateUserPass a s3 = (Inr v, s')"
    by (auto simp: negotiateAuth_def io_bind_Inr split: if_splits)
  from authenticate_Inr [OF w(2)] obtain u p where up: "input s3 = credentials u p @ input s'"
    "utf8_text u = au_username a" "utf8_text p = au_password a" by (auto simp: credentials_def)
  from readExact_Inr [OF h(1)] h(2) have "h = [5, h ! 1]" by (metis length_2_iff)
  moreover from readExact_Inr [OF m(1)] have "h ! 1 = of_nat (length methods)" by simp
  ultimately have bytes: "h = [5, of_nat (length methods)]" by simp
  have "input s = h @ methods @ credentials u p @ input s'"
    using readExact_Inr [OF h(1)] readExact_Inr [OF m(1)] writeSocket_Inr [OF w(1)] up(1) by simp
  then have "input s = greeting methods @ credentials u p @ input s'" by (simp add: greeting_def bytes)
  with up(2,3) m(2) show ?thesis by blast
qed

text \<open>
  Property C10. With authentication on, no client gets past the handshake of the SOCKS5 inbound - to the
  router, to a UDP association, not even to a refused connection - without the configured user name and
  password in its first bytes, however they were cut and whatever else went wrong.
\<close>

theorem socks5_auth_required:
  assumes "socks5_handle (Some a) udpAssociate openTcp s = (result, s')" "au_enabled a" "\<forall>e. result \<noteq> SocksClosed e"
  shows "\<exists>methods u p rest. input s = greeting methods @ credentials u p @ rest \<and> 2 \<in> set methods \<and>
    utf8_text u = au_username a \<and> utf8_text p = au_password a"
proof -
  from assms(1,3) obtain v s1 where "negotiateAuth (Some a) s = (Inr v, s1)"
    by (cases "negotiateAuth (Some a) s"; cases "fst (negotiateAuth (Some a) s)") (auto simp: socks5_handle_def io_bind_def)
  from negotiate_Inr [OF this assms(2)] show ?thesis by blast
qed

definition some_auth :: basic_auth where
  "some_auth = \<lparr>au_enabled = True, au_username = ''u'', au_password = ''pw''\<rparr>"

definition some_session :: "read_event list \<Rightarrow> session" where
  "some_session evs = \<lparr>se_buffer = [], se_timeoutMs = 1000, se_maxBytes = 64, se_events = evs, se_written = [], se_writeFaults = []\<rparr>"

lemma socks5_auth_required_witness:
  "\<exists>methods u p rest. [5, 2, 0, 2, 1, 1, 117, 2, 112, 119, 5, 1, 0, 1, 10, 0, 0, 1, 0, 80, 7] = greeting methods @ credentials u p @ rest \<and>
     2 \<in> set methods \<and> utf8_text u = ''u'' \<and> utf8_text p = ''pw''"
proof -
  let ?s = "some_session [Arrived [[5, 2, 0], [2, 1, 1]], Arrived [], Arrived [[117, 2, 112], [119, 5, 1, 0, 1, 10, 0, 0, 1, 0, 80, 7]]]"
  have "fst (socks5_handle (Some some_auth) None (\<lambda>d. Inr ()) ?s) = SocksRelay (makeDestination ''10.0.0.1'' 80) [7]"
    by code_simp
  moreover have "input ?s = [5, 2, 0, 2, 1, 1, 117, 2, 112, 119, 5, 1, 0, 1, 10, 0, 0, 1, 0, 80, 7]"
    by (simp add: input_def some_session_def)
  ultimately show ?thesis
    using socks5_auth_required [of some_auth None "\<lambda>d. Inr ()" ?s, OF prod.collapse [symmetric]] by (simp add: some_auth_def)
qed

section \<open>A correct client is served\<close>

text \<open>The bytes \<open>i\<close> are in the buffer or will arrive, within the limit and without a failure; writes succeed.\<close>

definition steady :: "session \<Rightarrow> bytes \<Rightarrow> bool" where
  "steady s i \<longleftrightarrow> input s = i \<and> length i \<le> se_maxBytes s \<and> (\<forall>ev \<in> set (se_events s). \<exists>cs. ev = Arrived cs) \<and> se_writeFaults s = []"

lemma appendChunks_fits: "length buf + length (concat cs) \<le> m \<Longrightarrow> appendChunks m buf cs = (Inr (), buf @ concat cs)"
  by (induction cs arbitrary: buf) auto

lemma fill_fits:
  "\<forall>ev \<in> set evs. \<exists>cs. ev = Arrived cs \<Longrightarrow> length (buf @ arrivals evs) \<le> m \<Longrightarrow> n \<le> length (buf @ arrivals evs) \<Longrightarrow>
   \<exists>b evs'. fill t m n buf evs = (Inr (), b, evs') \<and> set evs' \<subseteq> set evs"
proof (induction evs arbitrary: buf)
  case (Cons ev evs)
  then obtain cs where ev: "ev = Arrived cs" by auto
  show ?case
  proof (cases "n \<le> length buf")
    case False
    have "appendChunks m buf cs = (Inr (), buf @ concat cs)" using Cons.prems ev by (intro appendChunks_fits) simp
    moreover have "\<exists>b evs'. fill t m n (buf @ concat cs) evs = (Inr (), b, evs') \<and> set evs' \<subseteq> set evs"
      using Cons.prems ev by (intro Cons.IH) (simp_all add: add.assoc)
    ultimately show ?thesis using False ev by auto
  qed simp
qed simp

lemma readExact_steady:
  assumes "steady s (bs @ i)" "length bs = n"
  obtains s1 where "readExact n s = (Inr bs, s1)" "steady s1 i" "se_written s1 = se_written s"
proof -
  from assms fill_fits [of "se_events s" "se_buffer s" "se_maxBytes s" n "se_timeoutMs s"] obtain b evs where
    f: "fill (se_timeoutMs s) (se_maxBytes s) n (se_buffer s) (se_events s) = (Inr (), b, evs)" "set evs \<subseteq> set (se_events s)"
    by (auto simp: steady_def input_def)
  let ?s = "s\<lparr>se_buffer := drop n b, se_events := evs\<rparr>"
  have r: "readExact n s = (Inr (take n b), ?s)" using f(1) by (simp add: readExact_def)
  from readExact_Inr [OF this] assms have "take n b = bs" "input ?s = i" by (auto simp: steady_def append_eq_append_conv)
  with r assms f(2) show ?thesis by (intro that [of ?s]) (auto simp: steady_def)
qed

lemma writeSocket_steady: "steady s i \<Longrightarrow> writeSocket d s = (Inr (), s\<lparr>se_written := se_written s @ [d]\<rparr>) \<and> steady (s\<lparr>se_written := se_written s @ [d]\<rparr>) i"
  by (simp add: writeSocket_def steady_def input_def)

lemma io_bind_step:
  "readExact n s = (Inr bs, s1) \<Longrightarrow> io_bind (readExact n) f s = f bs s1"
  "writeSocket d s = (Inr u, s1) \<Longrightarrow> io_bind (writeSocket d) g s = g u s1"
  "readSocksAddress t s = (Inr host, s1) \<Longrightarrow> io_bind (readSocksAddress t) h s = h host s1"
  "negotiateAuth auth s = (Inr u, s1) \<Longrightarrow> io_bind (negotiateAuth auth) j s = j u s1"
  by (simp_all add: io_bind_def)

text \<open>An encoded destination is read from the socket as it is decoded from a buffer.\<close>

lemma decode_cases:
  assumes "decodeSocksAddress xs 0 = Inr (d, k)"
  obtains (four) b hi lo rest where "xs = 1 # b @ [hi, lo] @ rest" "length b = 4" "k = 7" "d = makeDestination (dotted_bytes b) (be16 hi lo)"
    | (name) b hi lo rest where "xs = 3 # of_nat (length b) # b @ [hi, lo] @ rest" "0 < length b" "length b < 256" "k = length b + 4"
        "d = makeDestination (utf8_text b) (be16 hi lo)"
    | (six) b hi lo rest where "xs = 4 # b @ [hi, lo] @ rest" "length b = 16" "k = 19" "d = makeDestination (colon_groups b) (be16 hi lo)"
proof -
  have split: "ys = take n ys @ [ys ! n, ys ! Suc n] @ drop (Suc (Suc n)) ys" if "Suc n < length ys" for n and ys :: bytes
    using that by (simp add: Cons_nth_drop_Suc)
  from assms obtain t ys where xs: "xs = t # ys" by (cases xs) (simp_all add: decodeSocksAddress_def)
  consider "t = 1" | "t = 3" | "t = 4" using assms unfolding xs
    by (auto simp: decodeSocksAddress_def split: if_splits)
  then show ?thesis
  proof cases
    case 1
    with assms xs have "7 \<le> length xs" "d = makeDestination (dotted_bytes (take 4 ys)) (be16 (ys ! 4) (ys ! 5))" "k = 7"
      by (auto simp: decodeSocksAddress_def Let_def slice_def readPort_def split: if_splits)
    with xs 1 split [of 4 ys] show ?thesis by (intro four [of "take 4 ys"]) (simp_all add: eval_nat_numeral)
  next
    case 2
    with assms xs obtain l zs where ys: "ys = l # zs" "l \<noteq> 0"
      by (cases ys) (auto simp: decodeSocksAddress_def split: if_splits)
    let ?n = "unat l"
    have l: "0 < ?n" "?n < 256" using ys(2) unat8_less [of l] by (simp_all add: unat_gt_0)
    from 2 assms xs ys have "?n + 4 \<le> length xs" "d = makeDestination (utf8_text (take ?n zs)) (be16 (zs ! ?n) (zs ! Suc ?n))" "k = ?n + 4"
      by (auto simp: decodeSocksAddress_def Let_def slice_def readPort_def split: if_splits)
    with xs ys 2 l split [of ?n zs] show ?thesis by (intro name [of "take ?n zs"]) (simp_all add: min_absorb2)
  next
    case 3
    with assms xs have "19 \<le> length xs" "d = makeDestination (colon_groups (take 16 ys)) (be16 (ys ! 16) (ys ! 17))" "k = 19"
      by (auto simp: decodeSocksAddress_def Let_def slice_def readPort_def split: if_splits)
    with xs 3 split [of 16 ys] show ?thesis by (intro six [of "take 16 ys"]) (simp_all add: eval_nat_numeral)
  qed
qed

lemma readCommand_steady:
  assumes "steady s ([5, c, 0] @ xs)" "decodeSocksAddress xs 0 = Inr (d, k)"
  obtains s1 where "readCommand s = (Inr (unat c, d), s1)" "steady s1 (drop k xs)" "se_written s1 = se_written s"
proof -
  note result = that
  have finish: thesis
    if xs: "xs = t # ys @ [hi, lo] @ rest" and k: "k = length ys + 3" and d: "d = makeDestination host (be16 hi lo)"
      and address: "\<And>s2. steady s2 (ys @ [hi, lo] @ rest) \<Longrightarrow>
        \<exists>s3. readSocksAddress t s2 = (Inr host, s3) \<and> steady s3 ([hi, lo] @ rest) \<and> se_written s3 = se_written s2"
    for t ys hi lo rest host
  proof -
    have "steady s ([5, c, 0, t] @ ys @ [hi, lo] @ rest)" using assms(1) xs by simp
    from readExact_steady [OF this, of 4] obtain s2 where s2: "readExact 4 s = (Inr [5, c, 0, t], s2)"
      "steady s2 (ys @ [hi, lo] @ rest)" "se_written s2 = se_written s" by auto
    from address [OF s2(2)] obtain s3 where s3: "readSocksAddress t s2 = (Inr host, s3)" "steady s3 ([hi, lo] @ rest)"
      "se_written s3 = se_written s2" by blast
    from readExact_steady [OF s3(2), of 2] obtain s4 where s4: "readExact 2 s3 = (Inr [hi, lo], s4)" "steady s4 rest"
      "se_written s4 = se_written s3" by auto
    have "readCommand s = (Inr (unat c, d), s4)"
      unfolding readCommand_def io_bind_step(1) [OF s2(1)]
      by (simp add: io_bind_step(3) [OF s3(1)] io_bind_step(1) [OF s4(1)] io_return_def d)
    moreover have "drop k xs = rest" by (simp add: xs k eval_nat_numeral)
    ultimately show thesis using result [of s4] s4 s3(3) s2(3) by simp
  qed
  from assms(2) show ?thesis
  proof (cases rule: decode_cases)
    case (four b hi lo rest)
    show ?thesis
    proof (rule finish [OF four(1) _ four(4)])
      fix s2 assume "steady s2 (b @ [hi, lo] @ rest)"
      from readExact_steady [OF this four(2)] obtain s3 where "readExact 4 s2 = (Inr b, s3)" "steady s3 ([hi, lo] @ rest)"
        "se_written s3 = se_written s2" by blast
      then show "\<exists>s3. readSocksAddress 1 s2 = (Inr (dotted_bytes b), s3) \<and> steady s3 ([hi, lo] @ rest) \<and> se_written s3 = se_written s2"
        by (simp add: readSocksAddress_def io_bind_step io_return_def)
    qed (use four in simp)
  next
    case (six b hi lo rest)
    show ?thesis
    proof (rule finish [OF six(1) _ six(4)])
      fix s2 assume "steady s2 (b @ [hi, lo] @ rest)"
      from readExact_steady [OF this six(2)] obtain s3 where "readExact 16 s2 = (Inr b, s3)" "steady s3 ([hi, lo] @ rest)"
        "se_written s3 = se_written s2" by blast
      then show "\<exists>s3. readSocksAddress 4 s2 = (Inr (colon_groups b), s3) \<and> steady s3 ([hi, lo] @ rest) \<and> se_written s3 = se_written s2"
        by (simp add: readSocksAddress_def io_bind_step io_return_def)
    qed (use six in simp)
  next
    case (name b hi lo rest)
    have len: "unat (of_nat (length b) :: 8 word) = length b" using name(3) by (simp add: unat_of_nat8)
    then have ne: "of_nat (length b) \<noteq> (0 :: 8 word)" using name(2) by (metis less_nat_zero_code unsigned_0)
    show ?thesis
    proof (rule finish [where t = 3 and ys = "of_nat (length b) # b" and hi = hi and lo = lo and rest = rest and host = "utf8_text b"])
      fix s2 assume "steady s2 ((of_nat (length b) # b) @ [hi, lo] @ rest)"
      then have "steady s2 ([of_nat (length b)] @ b @ [hi, lo] @ rest)" by simp
      from readExact_steady [OF this, of 1] obtain s3 where s3: "readExact 1 s2 = (Inr [of_nat (length b)], s3)"
        "steady s3 (b @ [hi, lo] @ rest)" "se_written s3 = se_written s2" by auto
      from readExact_steady [OF s3(2) refl] obtain s4 where "readExact (length b) s3 = (Inr b, s4)" "steady s4 ([hi, lo] @ rest)"
        "se_written s4 = se_written s3" by blast
      with s3 show "\<exists>s3. readSocksAddress 3 s2 = (Inr (utf8_text b), s3) \<and> steady s3 ([hi, lo] @ rest) \<and> se_written s3 = se_written s2"
        by (simp add: readSocksAddress_def io_bind_step len ne io_return_def)
    qed (use name in simp_all)
  qed
qed

text \<open>What the client sends before its request, and what it is answered, with or without a password.\<close>

definition introduction :: "basic_auth option \<Rightarrow> bytes \<Rightarrow> bytes" where
  "introduction auth methods =
     greeting methods @ (case auth of None \<Rightarrow> [] | Some a \<Rightarrow> if au_enabled a then credentials (utf8 (au_username a)) (utf8 (au_password a)) else [])"

definition method_for :: "basic_auth option \<Rightarrow> 8 word" where
  "method_for auth = (case auth of None \<Rightarrow> 0 | Some a \<Rightarrow> if au_enabled a then 2 else 0)"

definition answers :: "basic_auth option \<Rightarrow> bytes list" where
  "answers auth = [5, method_for auth] # (case auth of None \<Rightarrow> [] | Some a \<Rightarrow> if au_enabled a then [[1, 0]] else [])"

definition credentials_fit :: "basic_auth option \<Rightarrow> bool" where
  "credentials_fit auth \<longleftrightarrow> (\<forall>a. auth = Some a \<longrightarrow> length (utf8 (au_username a)) < 256 \<and> length (utf8 (au_password a)) < 256)"

lemma authenticate_steady:
  assumes "steady s (credentials (utf8 (au_username a)) (utf8 (au_password a)) @ i)"
    "length (utf8 (au_username a)) < 256" "length (utf8 (au_password a)) < 256"
  obtains s1 where "authenticateUserPass a s = (Inr (), s1)" "steady s1 i" "se_written s1 = se_written s @ [[1, 0]]"
proof -
  let ?u = "utf8 (au_username a)" and ?p = "utf8 (au_password a)"
  have len: "unat (of_nat (length ?u) :: 8 word) = length ?u" "unat (of_nat (length ?p) :: 8 word) = length ?p"
    using assms(2,3) by (simp_all add: unat_of_nat8)
  have "steady s ([1, of_nat (length ?u)] @ ?u @ [of_nat (length ?p)] @ ?p @ i)" using assms(1) by (simp add: credentials_def)
  from readExact_steady [OF this, of 2] obtain s1 where s1: "readExact 2 s = (Inr [1, of_nat (length ?u)], s1)"
    "steady s1 (?u @ [of_nat (length ?p)] @ ?p @ i)" "se_written s1 = se_written s" by auto
  from readExact_steady [OF s1(2) refl] obtain s2 where s2: "readExact (length ?u) s1 = (Inr ?u, s2)"
    "steady s2 ([of_nat (length ?p)] @ ?p @ i)" "se_written s2 = se_written s1" by blast
  from readExact_steady [OF s2(2), of 1] obtain s3 where s3: "readExact 1 s2 = (Inr [of_nat (length ?p)], s3)"
    "steady s3 (?p @ i)" "se_written s3 = se_written s2" by auto
  from readExact_steady [OF s3(2) refl] obtain s4 where s4: "readExact (length ?p) s3 = (Inr ?p, s4)" "steady s4 i"
    "se_written s4 = se_written s3" by blast
  have "authenticateUserPass a s = writeSocket [1, 0] s4"
    unfolding authenticateUserPass_def io_bind_step(1) [OF s1(1)]
    by (simp add: io_bind_step(1) [OF s2(1)] io_bind_step(1) [OF s3(1)] io_bind_step(1) [OF s4(1)] len safeEqual_iff Let_def del: One_nat_def)
  with writeSocket_steady [OF s4(2), of "[1, 0]"] show ?thesis using that s1(3) s2(3) s3(3) s4(3) by auto
qed

lemma negotiate_steady:
  assumes "steady s (introduction auth methods @ i)" "length methods < 256" "method_for auth \<in> set methods" "credentials_fit auth"
  obtains s1 where "negotiateAuth auth s = (Inr (), s1)" "steady s1 i" "se_written s1 = se_written s @ answers auth"
proof -
  let ?creds = "case auth of None \<Rightarrow> [] | Some a \<Rightarrow> if au_enabled a then credentials (utf8 (au_username a)) (utf8 (au_password a)) else []"
  have len: "unat (of_nat (length methods) :: 8 word) = length methods" using assms(2) by (simp add: unat_of_nat8)
  have "steady s ([5, of_nat (length methods)] @ methods @ ?creds @ i)" using assms(1) by (simp add: introduction_def greeting_def)
  from readExact_steady [OF this, of 2] obtain s1 where s1: "readExact 2 s = (Inr [5, of_nat (length methods)], s1)"
    "steady s1 (methods @ ?creds @ i)" "se_written s1 = se_written s" by auto
  from readExact_steady [OF s1(2) refl] obtain s2 where s2: "readExact (length methods) s1 = (Inr methods, s2)"
    "steady s2 (?creds @ i)" "se_written s2 = se_written s1" by blast
  let ?s3 = "s2\<lparr>se_written := se_written s2 @ [[5, method_for auth]]\<rparr>"
  from writeSocket_steady [OF s2(2)] have s3: "writeSocket [5, method_for auth] s2 = (Inr (), ?s3)" "steady ?s3 (?creds @ i)" by blast+
  note step = io_bind_step(1) [OF s1(1)] io_bind_step(1) [OF s2(1)] io_bind_step(2) [OF s3(1)]
  show ?thesis
  proof (cases "\<exists>a. auth = Some a \<and> au_enabled a")
    case True
    then obtain a where a: "auth = Some a" "au_enabled a" by blast
    then have "steady ?s3 (credentials (utf8 (au_username a)) (utf8 (au_password a)) @ i)" using s3(2) by simp
    from authenticate_steady [OF this] assms(4) a obtain s4 where s4: "authenticateUserPass a ?s3 = (Inr (), s4)" "steady s4 i"
      "se_written s4 = se_written ?s3 @ [[1, 0]]" by (auto simp: credentials_fit_def)
    have "negotiateAuth auth s = authenticateUserPass a ?s3"
      using a assms(3) s3(1) by (simp add: negotiateAuth_def step(1,2) len io_bind_step(2) method_for_def)
    with s4 a s2(3) s1(3) show ?thesis by (intro that [of s4]) (simp_all add: answers_def)
  next
    case False
    then have "method_for auth = 0" "?creds = []" by (auto simp: method_for_def split: option.splits)
    moreover have "negotiateAuth auth s = writeSocket [5, 0] s2"
      using False assms(3) by (auto simp: negotiateAuth_def step(1,2) len method_for_def split: option.splits if_splits)
    ultimately show ?thesis using that [of ?s3] s3 s2(3) s1(3) False by (auto simp: answers_def split: option.splits)
  qed
qed

lemma reply_bytes: "createReply code = Inr [5, code, 0, 1, 0, 0, 0, 0, 0, 0]"
proof -
  have "detectAddressType ''0.0.0.0'' = Ipv4" "split_on (CHR ''.'') ''0.0.0.0'' = [''0'', ''0'', ''0'', ''0'']" by code_simp+
  moreover have "socks_octet ''0'' = Some 0" by code_simp
  ultimately show ?thesis by (simp add: createReply_def encodeSocksAddress_def makeDestination_def u16_bytes_def)
qed

text \<open>
  Property C11. A client that introduces itself as the inbound is configured - with or without user name
  and password - and asks for a destination is connected to that destination, answered with the method,
  the verdict on its password and a success reply, and what it sent after its request is kept for the
  remote, however the network cut its bytes.
\<close>

theorem socks5_connects:
  assumes "steady s (introduction auth methods @ [5, 1, 0] @ address @ extra)"
    and "encodeSocksAddress (makeDestination host n) = Inr address" "host \<noteq> []" "n < 65536"
    and "length methods < 256" "method_for auth \<in> set methods" "credentials_fit auth" "\<And>d. openTcp d = Inr ()"
  shows "\<exists>d early s'. socks5_handle auth udpAssociate openTcp s = (SocksRelay d early, s') \<and> early @ arrivals (se_events s') = extra \<and>
    se_buffer s' = [] \<and> se_written s' = se_written s @ answers auth @ [[5, 0, 0, 1, 0, 0, 0, 0, 0, 0]] \<and>
    encodeSocksAddress d = Inr address \<and> d_port d = n \<and> d_addressType d = detectAddressType host \<and>
    (detectAddressType host \<noteq> Ipv6 \<longrightarrow> d_host d = host)"
proof -
  have domain: "detectAddressType host = Domain \<longrightarrow> length (utf8 host) \<le> 255"
    using assms(2) by (auto simp: encodeSocksAddress_def makeDestination_def Let_def split: if_splits)
  have plain: "detectAddressType host = Ipv6 \<longrightarrow> CHR ''.'' \<notin> set host \<and> CHR ''%'' \<notin> set host"
    using assms(2) ipv6ToBytes_chars [of host] by (auto simp: encodeSocksAddress_def makeDestination_def rbind_Inr_iff)
  from encode_frame [OF assms(3,4) domain plain] assms(2) obtain d where frame: "address_frame address d"
    and d: "encodeSocksAddress d = Inr address" "d_port d = n" "d_addressType d = detectAddressType host"
      "detectAddressType host \<noteq> Ipv6 \<longrightarrow> d_host d = host" by auto
  from negotiate_steady [OF assms(1,5-7)] obtain s1 where s1: "negotiateAuth auth s = (Inr (), s1)"
    "steady s1 ([5, 1, 0] @ address @ extra)" "se_written s1 = se_written s @ answers auth" by blast
  have "decodeSocksAddress (address @ extra) 0 = Inr (d, length address)" using frame by (simp add: address_frame_def)
  from readCommand_steady [OF s1(2) this] obtain s2 where s2: "readCommand s1 = (Inr (1, d), s2)" "steady s2 extra"
    "se_written s2 = se_written s1" by auto
  have "io_bind (negotiateAuth auth) (\<lambda>u. readCommand) s = (Inr (1, d), s2)" using s1(1) s2(1) by (simp add: io_bind_def)
  let ?s3 = "s2\<lparr>se_written := se_written s2 @ [[5, 0, 0, 1, 0, 0, 0, 0, 0, 0]], se_buffer := []\<rparr>"
  from \<open>io_bind (negotiateAuth auth) (\<lambda>u. readCommand) s = (Inr (1, d), s2)\<close>
    assms(8) writeSocket_steady [OF s2(2), of "[5, 0, 0, 1, 0, 0, 0, 0, 0, 0]"]
  have "socks5_handle auth udpAssociate openTcp s = (SocksRelay d (se_buffer s2), ?s3)"
    by (simp add: socks5_handle_def reply_io_def reply_bytes)
  moreover have "se_buffer s2 @ arrivals (se_events s2) = extra" using s2(2) by (simp add: steady_def input_def)
  ultimately show ?thesis using d s1(3) s2(3)
    by (intro exI [of _ d] exI [of _ "se_buffer s2"] exI [of _ ?s3] conjI) simp_all
qed

lemma socks5_connects_witness:
  "\<exists>d early s'. socks5_handle (Some some_auth) None (\<lambda>d. Inr ())
      (some_session [Arrived [[5, 2, 0], [2, 1, 1]], Arrived [], Arrived [[117, 2, 112], [119, 5, 1, 0, 1, 10, 0, 0, 1, 0, 80, 7]]]) =
        (SocksRelay d early, s') \<and> early @ arrivals (se_events s') = [7] \<and>
     se_written s' = [[5, 2], [1, 0], [5, 0, 0, 1, 0, 0, 0, 0, 0, 0]] \<and> d_host d = ''10.0.0.1'' \<and> d_port d = 80"
proof -
  let ?s = "some_session [Arrived [[5, 2, 0], [2, 1, 1]], Arrived [], Arrived [[117, 2, 112], [119, 5, 1, 0, 1, 10, 0, 0, 1, 0, 80, 7]]]"
  have kind: "detectAddressType ''10.0.0.1'' = Ipv4" by code_simp
  have address: "encodeSocksAddress (makeDestination ''10.0.0.1'' 80) = Inr [1, 10, 0, 0, 1, 0, 80]" by code_simp
  have intro: "introduction (Some some_auth) [0, 2] = [5, 2, 0, 2, 1, 1, 117, 2, 112, 119]" by code_simp
  have steady: "steady ?s (introduction (Some some_auth) [0, 2] @ [5, 1, 0] @ [1, 10, 0, 0, 1, 0, 80] @ [7])"
    unfolding intro by (simp add: steady_def some_session_def input_def)
  have "length (utf8 ''u'') < 256" "length (utf8 ''pw'') < 256" by code_simp+
  then have fit: "method_for (Some some_auth) \<in> set [0, 2]" "credentials_fit (Some some_auth)"
    by (simp_all add: credentials_fit_def some_auth_def method_for_def)
  have answers: "answers (Some some_auth) = [[5, 2], [1, 0]]" by code_simp
  from socks5_connects [OF steady address _ _ _ fit, of "\<lambda>d. Inr ()" None] kind answers show ?thesis
    by (auto simp: some_session_def)
qed

end
