(* ===== verification/RequestHeader.thy ===== *)
theory RequestHeader
  imports Handshake
begin

text \<open>
  Request headers that arrive as data events: the Trojan inbound and outbound
  (\<^verbatim>\<open>src/inbound/trojan.ts\<close>, \<^verbatim>\<open>src/outbound/trojan.ts\<close>), the Shadowsocks inbound
  (\<^verbatim>\<open>src/inbound/shadowsocks.ts\<close>), and SOCKS5 datagrams (\<^verbatim>\<open>src/inbound/socks5Udp.ts\<close>). The SHA-224
  of a password, as hexadecimal text, is a parameter.
\<close>

section \<open>Reading a header from data events\<close>

datatype header_state = HsWaiting bytes | HsAccepted destination bytes | HsRejected js_error

text \<open>
  The \<^verbatim>\<open>onData\<close> of both inbounds: all that came so far is looked at again with every chunk, until it is
  accepted or rejected and the listener removed.
\<close>

fun header_feed :: "(bytes \<Rightarrow> header_state) \<Rightarrow> js_error \<Rightarrow> nat \<Rightarrow> bytes \<Rightarrow> bytes list \<Rightarrow> header_state" where
  "header_feed check tooLong maxBytes seen [] = HsWaiting seen"
| "header_feed check tooLong maxBytes seen (chunk # chunks) =
     (let data = seen @ chunk in
      if length data > maxBytes then HsRejected tooLong
      else (case check data of
              HsWaiting d \<Rightarrow> header_feed check tooLong maxBytes data chunks
            | r \<Rightarrow> r))"

definition truncated :: "js_error \<Rightarrow> bool" where
  "truncated e = (case e of ProtocolError m \<Rightarrow> prefix ''truncated'' m | _ \<Rightarrow> False)"

definition ssHeaderCheck :: "bytes \<Rightarrow> header_state" where
  "ssHeaderCheck data =
     (case decodeSocksAddress data 0 of
        Inr (d, off) \<Rightarrow> HsAccepted d (drop off data)
      | Inl e \<Rightarrow> if truncated e then HsWaiting data else HsRejected e)"

definition ssReadAddress :: "nat \<Rightarrow> bytes list \<Rightarrow> header_state" where
  "ssReadAddress maxBytes chunks =
     header_feed ssHeaderCheck (ProtocolError ''Shadowsocks request header exceeds limit'') maxBytes [] chunks"

text \<open>\<^verbatim>\<open>data.indexOf("\r\n")\<close>.\<close>

fun find_crlf :: "bytes \<Rightarrow> nat option" where
  "find_crlf (a # b # bs) = (if a = 13 \<and> b = 10 then Some 0 else map_option Suc (find_crlf (b # bs)))"
| "find_crlf bs = None"

definition trojanHeaderCheck :: "bytes \<Rightarrow> bytes \<Rightarrow> header_state" where
  "trojanHeaderCheck expectedHash data =
     (case find_crlf data of
        None \<Rightarrow> HsWaiting data
      | Some lineEnd \<Rightarrow>
          if take lineEnd data \<noteq> expectedHash then HsRejected (ProtocolError ''Trojan password authentication failed'')
          else (let commandOffset = lineEnd + 2 in
                if commandOffset \<ge> length data then HsWaiting data
                else if data ! commandOffset \<noteq> 1
                then HsRejected (ProtocolError (''Trojan command '' @ show_nat (unat (data ! commandOffset)) @ '' is unsupported''))
                else (case decodeSocksAddress data (commandOffset + 1) of
                        Inr (d, off) \<Rightarrow>
                          if length data < off + 2 then HsWaiting data
                          else if data ! off \<noteq> 13 \<or> data ! (off + 1) \<noteq> 10
                          then HsRejected (ProtocolError ''Trojan request terminator is invalid'')
                          else HsAccepted d (drop (off + 2) data)
                      | Inl e \<Rightarrow> if truncated e then HsWaiting data else HsRejected e)))"

definition readTrojanHandshake :: "(string \<Rightarrow> string) \<Rightarrow> string \<Rightarrow> nat \<Rightarrow> bytes list \<Rightarrow> header_state" where
  "readTrojanHandshake sha224hex password maxBytes chunks =
     header_feed (trojanHeaderCheck (latin1 (sha224hex password))) (ProtocolError ''Trojan request header exceeds limit'') maxBytes [] chunks"

definition createTrojanRequest :: "(string \<Rightarrow> string) \<Rightarrow> string \<Rightarrow> destination \<Rightarrow> bytes result" where
  "createTrojanRequest sha224hex password d =
     rbind (encodeSocksAddress d) (\<lambda>address. Inr (latin1 (sha224hex password) @ [13, 10] @ [1] @ address @ [13, 10]))"

section \<open>Datagrams\<close>

definition udpReadAddress :: "bytes \<Rightarrow> nat \<Rightarrow> 8 word \<Rightarrow> (string \<times> nat) result" where
  "udpReadAddress buffer off kind =
     (if kind = 1
      then (if off + 4 > length buffer then Inl (ProtocolError ''SOCKS5 UDP IPv4 address is truncated'')
            else Inr (dotted_bytes (slice off (off + 4) buffer), off + 4))
      else if kind = 3
      then (let n = unat (byte_at buffer off); start = off + 1 in
            if n = 0 \<or> start + n > length buffer then Inl (ProtocolError ''SOCKS5 UDP domain is truncated'')
            else Inr (utf8_text (slice start (start + n) buffer), start + n))
      else if kind = 4
      then (if off + 16 > length buffer then Inl (ProtocolError ''SOCKS5 UDP IPv6 address is truncated'')
            else Inr (colon_groups (slice off (off + 16) buffer), off + 16))
      else Inl (ProtocolError (''unsupported SOCKS5 UDP address type '' @ show_nat (unat kind))))"

definition parseSocksUdpPacket :: "bytes \<Rightarrow> (destination \<times> bytes) result" where
  "parseSocksUdpPacket message =
     (if length message < 7 then Inl (ProtocolError ''SOCKS5 UDP packet is too short'')
      else if message ! 0 \<noteq> 0 \<or> message ! 1 \<noteq> 0 then Inl (ProtocolError ''SOCKS5 UDP packet has invalid reserved bytes'')
      else if message ! 2 \<noteq> 0 then Inl (ProtocolError ''SOCKS5 UDP fragmentation is not supported'')
      else rbind (udpReadAddress message 4 (message ! 3)) (\<lambda>(host, off).
        if off + 1 \<ge> length message then Inl (ProtocolError ''SOCKS5 UDP packet missing destination port'')
        else Inr (makeDestination host (be16 (message ! off) (message ! (off + 1))), drop (off + 2) message)))"

definition encodeSocksUdpPacket :: "destination \<Rightarrow> bytes \<Rightarrow> bytes result" where
  "encodeSocksUdpPacket source payload = rbind (encodeSocksAddress source) (\<lambda>bs. Inr ([0, 0, 0] @ bs @ payload))"

section \<open>Where a header may be cut\<close>

text \<open>The lengths of what has arrived after each chunk.\<close>

fun cut_points :: "nat \<Rightarrow> bytes list \<Rightarrow> nat list" where
  "cut_points n [] = []"
| "cut_points n (c # cs) = (n + length c) # cut_points (n + length c) cs"

lemma cut_points_ge: "k \<in> set (cut_points n cs) \<Longrightarrow> n \<le> k"
  by (induction cs arbitrary: n) fastforce+

text \<open>
  A check that waits for the first \<open>n\<close> bytes, except at the lengths in \<open>bad\<close>, where it rejects.
\<close>

definition checks_prefixes :: "(bytes \<Rightarrow> header_state) \<Rightarrow> bytes \<Rightarrow> nat \<Rightarrow> nat set \<Rightarrow> destination \<Rightarrow> bool" where
  "checks_prefixes check full n bad d \<longleftrightarrow>
     (\<forall>k \<le> length full. if k \<in> bad then (\<exists>e. check (take k full) = HsRejected e)
        else if k < n then check (take k full) = HsWaiting (take k full)
        else check (take k full) = HsAccepted d (drop n (take k full)))"

text \<open>
  Such a header is accepted when no event ends at a bad length, and one ends with the header complete
  and no more than the limit seen.
\<close>

lemma header_feed_prefixes:
  assumes checks: "checks_prefixes check full n bad d" and bad: "bad \<subseteq> {..<n}" and n: "n \<le> length full"
  shows "take j full @ concat chunks = full \<Longrightarrow> j < n \<Longrightarrow>
    if set (cut_points j chunks) \<inter> bad = {} \<and> (\<exists>k \<in> set (cut_points j chunks). n \<le> k \<and> k \<le> maxBytes)
    then \<exists>early m. header_feed check tooLong maxBytes (take j full) chunks = HsAccepted d early \<and> early @ concat (drop m chunks) = drop n full
    else \<exists>e. header_feed check tooLong maxBytes (take j full) chunks = HsRejected e"
proof (induction chunks arbitrary: j)
  case Nil
  then have "length (take j full) = length full" by simp
  with Nil n show ?case by simp
next
  case (Cons c cs)
  let ?k = "j + length c"
  have j: "length (take j full) = j" using Cons.prems n by simp
  have split: "take j full @ c @ concat cs = full" using Cons.prems by simp
  have k: "?k \<le> length full" using arg_cong [OF split, of length] j by simp
  have data: "take j full @ c = take ?k full" using arg_cong [OF split, of "take ?k"] j by simp
  have rest: "take ?k full @ concat cs = full" using split data by (metis append.assoc)
  have len: "length (take j full @ c) = ?k" using j by simp
  from checks k have check: "if ?k \<in> bad then (\<exists>e. check (take ?k full) = HsRejected e)
      else if ?k < n then check (take ?k full) = HsWaiting (take ?k full)
      else check (take ?k full) = HsAccepted d (drop n (take ?k full))" by (simp add: checks_prefixes_def)
  show ?case
  proof (cases "?k > maxBytes")
    case True
    then have "\<not> (\<exists>k \<in> set (cut_points j (c # cs)). k \<le> maxBytes)" using cut_points_ge [of _ ?k cs] by fastforce
    with True len show ?thesis by (auto simp: Let_def)
  next
    case max_k: False
    show ?thesis
    proof (cases "?k \<in> bad")
      case True
      with check max_k len data show ?thesis by (auto simp: Let_def)
    next
      case good: False
      show ?thesis
      proof (cases "?k < n")
        case True
        have step: "header_feed check tooLong maxBytes (take j full) (c # cs) = header_feed check tooLong maxBytes (take ?k full) cs"
          "set (cut_points j (c # cs)) \<inter> bad = set (cut_points ?k cs) \<inter> bad"
          "(\<exists>k \<in> set (cut_points j (c # cs)). n \<le> k \<and> k \<le> maxBytes) \<longleftrightarrow> (\<exists>k \<in> set (cut_points ?k cs). n \<le> k \<and> k \<le> maxBytes)"
          using True good check max_k len data by (auto simp: Let_def)
        have "drop (Suc m) (c # cs) = drop m cs" for m by simp
        with Cons.IH [OF rest True] show ?thesis unfolding step by metis
      next
        case False
        have "set (cut_points ?k cs) \<inter> bad = {}" using False bad cut_points_ge by fastforce
        moreover have "\<exists>k \<in> set (cut_points j (c # cs)). n \<le> k \<and> k \<le> maxBytes" using False max_k by auto
        moreover have "drop n (take ?k full) @ concat cs = drop n full"
          using arg_cong [OF rest, of "drop n"] False k by simp
        ultimately show ?thesis using good False check max_k len data by (auto simp: Let_def intro: exI [of _ 1])
      qed
    qed
  qed
qed

section \<open>Beginnings of an address\<close>

definition bad_cut :: "bytes \<Rightarrow> nat \<Rightarrow> bool" where
  "bad_cut address k \<longleftrightarrow> k = 0 \<or> (k = 1 \<and> hd address = 3)"

lemma truncated_texts:
  "truncated (ProtocolError ''truncated IPv4 SOCKS address'')" "truncated (ProtocolError ''truncated domain SOCKS address'')"
  "truncated (ProtocolError ''truncated IPv6 SOCKS address'')" "\<not> truncated (ProtocolError ''missing SOCKS address type'')"
  "\<not> truncated (ProtocolError ''invalid domain SOCKS address length'')"
  by (simp_all add: truncated_def)

lemma decode_beginning:
  assumes "decodeSocksAddress address 0 = Inr (d, length address)" "k < length address"
  shows "\<exists>e. decodeSocksAddress (take k address) 0 = Inl e \<and> truncated e = (\<not> bad_cut address k)"
proof (cases k)
  case 0
  then show ?thesis by (simp add: decodeSocksAddress_def bad_cut_def truncated_texts)
next
  case (Suc j)
  from assms(1) show ?thesis
  proof (cases rule: decode_cases)
    case (four b hi lo rest)
    with assms(2) have "take k address = 1 # take j (b @ [hi, lo])" "j < 6" by (simp_all add: Suc)
    with four show ?thesis by (auto simp: decodeSocksAddress_def Let_def bad_cut_def Suc truncated_texts)
  next
    case (six b hi lo rest)
    with assms(2) have "take k address = 4 # take j (b @ [hi, lo])" "j < 18" by (simp_all add: Suc)
    with six show ?thesis by (auto simp: decodeSocksAddress_def Let_def bad_cut_def Suc truncated_texts)
  next
    case (name b hi lo rest)
    let ?l = "of_nat (length b) :: 8 word"
    have l: "unat ?l = length b" using name(3) by (simp add: unat_of_nat8)
    then have ne: "?l \<noteq> 0" using name(2) by (metis less_nat_zero_code unsigned_0)
    show ?thesis
    proof (cases j)
      case 0
      with name Suc show ?thesis by (simp add: decodeSocksAddress_def bad_cut_def truncated_texts)
    next
      case (Suc i)
      let ?x = "take i (b @ [hi, lo])"
      from Suc name assms(2) \<open>k = Suc j\<close> have x: "take k address = 3 # ?l # ?x" "length ?x < length b + 2" by simp_all
      have "decodeSocksAddress (3 # ?l # y) 0 = Inl (ProtocolError ''truncated domain SOCKS address'')" if "length y < length b + 2" for y
        using that l ne by (simp add: decodeSocksAddress_def Let_def)
      with x Suc \<open>k = Suc j\<close> show ?thesis by (simp add: bad_cut_def truncated_texts)
    qed
  qed
qed

lemma ss_checks:
  assumes "address_frame address d"
  shows "checks_prefixes ssHeaderCheck (address @ payload) (length address) {k. k < length address \<and> bad_cut address k} d"
proof -
  from assms have whole: "decodeSocksAddress address 0 = Inr (d, length address)"
    unfolding address_frame_def by (metis append_Nil2)
  have "if k \<in> {k. k < length address \<and> bad_cut address k} then (\<exists>e. ssHeaderCheck (take k (address @ payload)) = HsRejected e)
      else if k < length address then ssHeaderCheck (take k (address @ payload)) = HsWaiting (take k (address @ payload))
      else ssHeaderCheck (take k (address @ payload)) = HsAccepted d (drop (length address) (take k (address @ payload)))" for k
  proof (cases "k < length address")
    case True
    then have "take k (address @ payload) = take k address" by simp
    with True decode_beginning [OF whole True] show ?thesis by (auto simp: ssHeaderCheck_def)
  next
    case False
    then have "take k (address @ payload) = address @ take (k - length address) payload" by simp
    with assms False show ?thesis by (simp add: ssHeaderCheck_def address_frame_def)
  qed
  then show ?thesis unfolding checks_prefixes_def by blast
qed

section \<open>Trojan\<close>

lemma find_crlf_hash: "13 \<notin> set h \<Longrightarrow> find_crlf (h @ 13 # 10 # r) = Some (length h)"
  by (induction h rule: find_crlf.induct) auto

lemma find_crlf_none: "13 \<notin> set h \<Longrightarrow> find_crlf h = None \<and> find_crlf (h @ [13]) = None"
  by (induction h rule: find_crlf.induct) auto

lemma trojan_check_after:
  assumes "13 \<notin> set hash"
  defines "p \<equiv> hash @ [13, 10, 1]"
  shows "trojanHeaderCheck hash (p @ x) =
    (case decodeSocksAddress x 0 of
       Inr (e, off) \<Rightarrow>
         if length x < off + 2 then HsWaiting (p @ x)
         else if x ! off \<noteq> 13 \<or> x ! (off + 1) \<noteq> 10 then HsRejected (ProtocolError ''Trojan request terminator is invalid'')
         else HsAccepted e (drop (off + 2) x)
     | Inl e \<Rightarrow> if truncated e then HsWaiting (p @ x) else HsRejected e)"
proof -
  have pre: "find_crlf (p @ x) = Some (length hash)" "take (length hash) (p @ x) = hash" "(p @ x) ! (length hash + 2) = 1"
    "\<not> length hash + 2 \<ge> length (p @ x)" "length hash + 2 + 1 = length p"
    using find_crlf_hash [OF assms(1), of "1 # x"] by (simp_all add: p_def nth_append)
  have at: "(p @ x) ! (length p + k) = x ! k" "drop (length p + k) (p @ x) = drop k x" for k by simp_all
  have unfolded: "trojanHeaderCheck hash (p @ x) =
      (case rbind (decodeSocksAddress x 0) (\<lambda>(d, n). Inr (d, length p + n)) of
         Inr (d, off) \<Rightarrow>
           if length (p @ x) < off + 2 then HsWaiting (p @ x)
           else if (p @ x) ! off \<noteq> 13 \<or> (p @ x) ! (off + 1) \<noteq> 10
           then HsRejected (ProtocolError ''Trojan request terminator is invalid'')
           else HsAccepted d (drop (off + 2) (p @ x))
       | Inl e \<Rightarrow> if truncated e then HsWaiting (p @ x) else HsRejected e)"
    unfolding trojanHeaderCheck_def pre(1) option.case Let_def pre(5) decode_shift using pre(2,3,4) by simp
  show ?thesis
  proof (cases "decodeSocksAddress x 0")
    case (Inl e)
    then show ?thesis by (simp add: unfolded)
  next
    case (Inr r)
    then show ?thesis using at(1) [of "snd r"] at(1) [of "snd r + 1"] at(2) [of "snd r + 2"]
      by (cases r) (simp add: unfolded add.assoc [symmetric] del: nth_append_length_plus)
  qed
qed

lemma trojan_check_whole:
  assumes "13 \<notin> set hash" "decodeSocksAddress (address @ x) 0 = Inr (d, length address)"
  shows "trojanHeaderCheck hash ((hash @ [13, 10, 1]) @ address @ x) =
    (if length x < 2 then HsWaiting ((hash @ [13, 10, 1]) @ address @ x)
     else if x ! 0 \<noteq> 13 \<or> x ! 1 \<noteq> 10 then HsRejected (ProtocolError ''Trojan request terminator is invalid'')
     else HsAccepted d (drop 2 x))"
proof -
  have "(address @ x) ! length address = x ! 0" "(address @ x) ! (length address + 1) = x ! 1"
    using nth_append_length_plus [of address x 0] nth_append_length_plus [of address x 1] by (simp_all only: add_0_right)
  moreover have "length (address @ x) < length address + 2 \<longleftrightarrow> length x < 2" "drop (length address + 2) (address @ x) = drop 2 x" by simp_all
  ultimately show ?thesis using trojan_check_after [OF assms(1), of "address @ x"] unfolding assms(2) sum.case prod.case by (simp only:)
qed

lemma trojan_checks:
  assumes frame: "address_frame address d" and hash: "13 \<notin> set hash"
  defines "l \<equiv> length hash + 3"
  shows "checks_prefixes (trojanHeaderCheck hash) (hash @ [13, 10] @ [1] @ address @ [13, 10] @ payload) (l + length address + 2)
     {k. \<exists>i < length address. bad_cut address i \<and> k = l + i} d"
proof -
  let ?full = "hash @ [13, 10] @ [1] @ address @ [13, 10] @ payload" and ?bad = "{k. \<exists>i < length address. bad_cut address i \<and> k = l + i}"
  from frame have whole: "decodeSocksAddress address 0 = Inr (d, length address)"
    unfolding address_frame_def by (metis append_Nil2)
  have early: "trojanHeaderCheck hash (take k ?full) = HsWaiting (take k ?full)" if "k < l" for k
  proof -
    have "k \<le> length hash \<or> k = length hash + 1 \<or> k = length hash + 2" using that unfolding l_def by linarith
    then consider "k \<le> length hash" | "k = length hash + 1" | "k = length hash + 2" by blast
    then show ?thesis
    proof cases
      case 1
      then have "take k ?full = take k hash" by simp
      moreover have "13 \<notin> set (take k hash)" using hash by (auto dest: in_set_takeD)
      ultimately show ?thesis using find_crlf_none [of "take k hash"] by (simp add: trojanHeaderCheck_def)
    next
      case 2
      then have "take k ?full = hash @ [13]" by simp
      then show ?thesis using find_crlf_none [OF hash] by (simp add: trojanHeaderCheck_def)
    next
      case 3
      then have "take k ?full = hash @ 13 # 10 # []" by simp
      then show ?thesis using find_crlf_hash [OF hash, of "[]"] by (simp add: trojanHeaderCheck_def Let_def)
    qed
  qed
  have begins: "take (l + i) ?full = (hash @ [13, 10, 1]) @ take i (address @ [13, 10] @ payload)" for i by (simp add: l_def numeral_3_eq_3)
  note late = trojan_check_after [OF hash]
  have "if k \<in> ?bad then (\<exists>e. trojanHeaderCheck hash (take k ?full) = HsRejected e)
      else if k < l + length address + 2 then trojanHeaderCheck hash (take k ?full) = HsWaiting (take k ?full)
      else trojanHeaderCheck hash (take k ?full) = HsAccepted d (drop (l + length address + 2) (take k ?full))"
    if k: "k \<le> length ?full" for k
  proof (cases "k < l")
    case True
    with early show ?thesis by auto
  next
    case False
    then obtain i where i: "k = l + i" by (metis le_add_diff_inverse not_less)
    show ?thesis
    proof (cases "i < length address")
      case True
      then have "take i (address @ [13, 10] @ payload) = take i address" by simp
      with True i begins [of i] late [of "take i address"] decode_beginning [OF whole True] show ?thesis by auto
    next
      case False
      let ?x = "take (i - length address) ([13, 10] @ payload)"
      have x: "take k ?full = (hash @ [13, 10, 1]) @ address @ ?x" using begins [of i] False by (simp add: i)
      have "decodeSocksAddress (address @ ?x) 0 = Inr (d, length address)" using frame unfolding address_frame_def by blast
      then have "trojanHeaderCheck hash ((hash @ [13, 10, 1]) @ address @ ?x) =
          (if length ?x < 2 then HsWaiting ((hash @ [13, 10, 1]) @ address @ ?x)
           else if ?x ! 0 \<noteq> 13 \<or> ?x ! 1 \<noteq> 10 then HsRejected (ProtocolError ''Trojan request terminator is invalid'')
           else HsAccepted d (drop 2 ?x))"
        by (rule trojan_check_whole [OF hash])
      then have check: "trojanHeaderCheck hash (take k ?full) =
          (if length ?x < 2 then HsWaiting (take k ?full)
           else if ?x ! 0 \<noteq> 13 \<or> ?x ! 1 \<noteq> 10 then HsRejected (ProtocolError ''Trojan request terminator is invalid'')
           else HsAccepted d (drop 2 ?x))"
        unfolding x .
      show ?thesis
      proof (cases "i < length address + 2")
        case True
        then have "length ?x < 2" by auto
        with check True False i show ?thesis by auto
      next
        case False
        then obtain m where m: "i = length address + 2 + m" by (metis le_add_diff_inverse not_less)
        then have "?x = 13 # 10 # take m payload" by simp
        moreover have "drop (l + length address + 2) (take k ?full) = take m payload" unfolding x by (simp add: l_def m eval_nat_numeral)
        ultimately show ?thesis using check False i by auto
      qed
    qed
  qed
  then show ?thesis unfolding checks_prefixes_def by blast
qed

section \<open>Properties\<close>

lemma cut_points_0: "k \<in> set (cut_points 0 chunks) \<Longrightarrow> k \<le> length (concat chunks)"
proof -
  have "k \<in> set (cut_points n chunks) \<Longrightarrow> k \<le> n + length (concat chunks)" for n by (induction chunks arbitrary: n) fastforce+
  from this [of 0] show "k \<in> set (cut_points 0 chunks) \<Longrightarrow> k \<le> length (concat chunks)" by simp
qed

lemma encode_kind:
  "encodeSocksAddress (makeDestination host n) = Inr bs \<Longrightarrow> bs \<noteq> [] \<and> (hd bs = 3 \<longleftrightarrow> detectAddressType host = Domain)"
  by (cases "detectAddressType host")
    (auto simp: encodeSocksAddress_def makeDestination_def Let_def rbind_def split: sum.splits option.splits if_splits)

lemma header_feed_accepts:
  assumes "checks_prefixes check full n bad d" "bad \<subseteq> {..<n}" "0 < n" "n \<le> length full" "concat chunks = full"
  shows "if set (cut_points 0 chunks) \<inter> bad = {} \<and> (\<exists>k \<in> set (cut_points 0 chunks). n \<le> k \<and> k \<le> maxBytes)
    then \<exists>early m. header_feed check tooLong maxBytes [] chunks = HsAccepted d early \<and> early @ concat (drop m chunks) = drop n full
    else \<exists>e. header_feed check tooLong maxBytes [] chunks = HsRejected e"
proof -
  have "take 0 full @ concat chunks = full" using assms(5) by simp
  from header_feed_prefixes [OF assms(1,2,4) this assms(3), of maxBytes tooLong] show ?thesis unfolding take_0 .
qed

lemma header_feed_accepted:
  "header_feed check tooLong maxBytes seen chunks = HsAccepted d early \<Longrightarrow>
     \<exists>m. check (seen @ concat (take m chunks)) = HsAccepted d early \<and> length (seen @ concat (take m chunks)) \<le> maxBytes"
proof (induction chunks arbitrary: seen)
  case (Cons c cs)
  show ?case
  proof (cases "check (seen @ c)")
    case (HsWaiting b)
    with Cons.prems have "header_feed check tooLong maxBytes (seen @ c) cs = HsAccepted d early" by (simp add: Let_def split: if_splits)
    from Cons.IH [OF this] obtain m where "check ((seen @ c) @ concat (take m cs)) = HsAccepted d early"
      "length ((seen @ c) @ concat (take m cs)) \<le> maxBytes" by blast
    then show ?thesis by (intro exI [of _ "Suc m"]) simp
  qed (use Cons.prems in \<open>auto simp: Let_def intro!: exI [of _ 1] split: if_splits\<close>)
qed simp

lemma port_kind_cases:
  assumes "bs \<noteq> []"
  shows "l + length bs + 2 \<le> length full \<Longrightarrow> set cuts \<inter> {k. \<exists>i < length bs. bad_cut bs i \<and> k = l + i} = {} \<longleftrightarrow>
    l \<notin> set cuts \<and> (hd bs = 3 \<and> 1 < length bs \<longrightarrow> l + 1 \<notin> set cuts)"
  using assms by (auto simp: bad_cut_def Suc_le_eq)

text \<open>
  Property C22. A correct Trojan request, cut into data events in any way, all before the timeout, is
  accepted with its destination, and
  what follows it is handed on byte for byte, in exactly these cases: some event ends when the request
  is complete and, with any early data it brought along, no longer than the limit for headers; no event
  ends right after the command byte; and, for a domain, none right after the address type. In all others
  the connection is refused: over the limit because early data counts as header, at the two cuts because
  the decoder complains of a missing type or a bad length instead of a truncated address.
\<close>

theorem trojan_header:
  assumes "host \<noteq> []" "n < 65536" "detectAddressType host = Domain \<longrightarrow> length (utf8 host) \<le> 255"
    "detectAddressType host = Ipv6 \<longrightarrow> CHR ''.'' \<notin> set host \<and> CHR ''%'' \<notin> set host"
    "13 \<notin> set (latin1 (sha224hex password))"
    "createTrojanRequest sha224hex password (makeDestination host n) = Inr request" "concat chunks = request @ payload"
  defines "command \<equiv> length (latin1 (sha224hex password)) + 3" and "ends \<equiv> set (cut_points 0 chunks)"
  shows "\<exists>d. d_port d = n \<and> d_addressType d = detectAddressType host \<and> (detectAddressType host \<noteq> Ipv6 \<longrightarrow> d_host d = host) \<and>
    (if (\<exists>k \<in> ends. length request \<le> k \<and> k \<le> maxBytes) \<and> command \<notin> ends \<and> (detectAddressType host = Domain \<longrightarrow> command + 1 \<notin> ends)
     then \<exists>early m. readTrojanHandshake sha224hex password maxBytes chunks = HsAccepted d early \<and> early @ concat (drop m chunks) = payload
     else \<exists>e. readTrojanHandshake sha224hex password maxBytes chunks = HsRejected e)"
proof -
  from encode_frame [OF assms(1-4)] obtain bs d where bs: "encodeSocksAddress (makeDestination host n) = Inr bs" and frame: "address_frame bs d"
    and d: "d_port d = n" "d_addressType d = detectAddressType host" "detectAddressType host \<noteq> Ipv6 \<longrightarrow> d_host d = host" by metis
  let ?hash = "latin1 (sha224hex password)" and ?bad = "{k. \<exists>i < length bs. bad_cut bs i \<and> k = command + i}"
  have request: "request = ?hash @ [13, 10] @ [1] @ bs @ [13, 10]" using assms(6) by (simp add: createTrojanRequest_def bs)
  have len: "command + length bs + 2 = length request" by (simp add: request command_def)
  have checks: "checks_prefixes (trojanHeaderCheck ?hash) (request @ payload) (length request) ?bad d"
    using trojan_checks [OF frame assms(5), of payload] unfolding len [symmetric] unfolding request command_def by simp
  have kind: "bs \<noteq> []" "hd bs = 3 \<longleftrightarrow> detectAddressType host = Domain" using encode_kind [OF bs] by auto
  have two: "detectAddressType host = Domain \<Longrightarrow> 1 < length bs"
    using bs by (auto simp: encodeSocksAddress_def makeDestination_def Let_def split: if_splits)
  have "ends \<inter> ?bad = {} \<longleftrightarrow> command \<notin> ends \<and> (detectAddressType host = Domain \<longrightarrow> command + 1 \<notin> ends)"
    using port_kind_cases [of bs command request] kind two len unfolding ends_def by auto
  then have cond: "(ends \<inter> ?bad = {} \<and> (\<exists>k \<in> ends. length request \<le> k \<and> k \<le> maxBytes)) \<longleftrightarrow>
      (\<exists>k \<in> ends. length request \<le> k \<and> k \<le> maxBytes) \<and> command \<notin> ends \<and> (detectAddressType host = Domain \<longrightarrow> command + 1 \<notin> ends)"
    by blast
  have range: "?bad \<subseteq> {..<length request}" "0 < length request" "length request \<le> length (request @ payload)" using len by auto
  have rest: "drop (length request) (request @ payload) = payload" by simp
  show ?thesis
    using header_feed_accepts [OF checks range assms(7), of maxBytes "ProtocolError ''Trojan request header exceeds limit''"]
    unfolding readTrojanHandshake_def ends_def [symmetric] cond rest by (intro exI [of _ d] conjI d)
qed

lemma find_crlf_split: "find_crlf data = Some k \<Longrightarrow> data = take k data @ 13 # 10 # drop (k + 2) data"
  by (induction data arbitrary: k rule: find_crlf.induct) (auto split: if_splits)

lemma trojan_check_accepted:
  assumes "trojanHeaderCheck hash data = HsAccepted d early"
  shows "\<exists>x off. data = hash @ [13, 10, 1] @ x \<and> decodeSocksAddress x 0 = Inr (d, off) \<and>
    off + 2 \<le> length x \<and> x ! off = 13 \<and> x ! (off + 1) = 10 \<and> early = drop (off + 2) x"
proof -
  from assms obtain k where k: "find_crlf data = Some k" by (cases "find_crlf data") (simp_all add: trojanHeaderCheck_def)
  from assms have hash: "take k data = hash" and cmd: "k + 2 < length data" "data ! (k + 2) = 1"
    by (simp_all add: trojanHeaderCheck_def k Let_def split: if_splits)
  have "drop (k + 2) data = 1 # drop (k + 3) data" using cmd Cons_nth_drop_Suc [of "k + 2" data] by (simp add: eval_nat_numeral)
  with find_crlf_split [OF k] hash have "data = (hash @ [13, 10, 1]) @ drop (k + 3) data" by simp
  then obtain x where data: "data = (hash @ [13, 10, 1]) @ x" by blast
  let ?p = "hash @ [13, 10, 1]"
  have len: "length ?p = k + 3" using hash cmd(1) by auto
  from assms have "case decodeSocksAddress data (length ?p) of
      Inr (d', off) \<Rightarrow> \<not> length data < off + 2 \<and> data ! off = 13 \<and> data ! (off + 1) = 10 \<and> d' = d \<and> early = drop (off + 2) data
    | Inl e \<Rightarrow> False"
    using hash cmd len by (auto simp: trojanHeaderCheck_def k Let_def eval_nat_numeral split: if_splits sum.splits)
  then obtain off where off: "decodeSocksAddress data (length ?p) = Inr (d, off)" "\<not> length data < off + 2" "data ! off = 13" "data ! (off + 1) = 10"
    "early = drop (off + 2) data" by (auto split: sum.splits)
  from off(1) decode_shift [of ?p x] obtain n where n: "decodeSocksAddress x 0 = Inr (d, n)" "off = length ?p + n"
    unfolding data by (cases "decodeSocksAddress x 0") auto
  have at: "data ! (length ?p + i) = x ! i" "drop (length ?p + i) data = drop i x" for i
    unfolding data by (rule nth_append_length_plus) (simp add: eval_nat_numeral)
  have "x ! n = 13" "x ! (n + 1) = 10" "early = drop (n + 2) x"
    using off(3-5) at(1) [of n] at(1) [of "n + 1"] at(2) [of "n + 2"] unfolding n(2) by (simp_all only: add.assoc)
  moreover have "n + 2 \<le> length x" using off(2) n(2) unfolding data by simp
  moreover have "data = hash @ [13, 10, 1] @ x" using data by simp
  ultimately show ?thesis using n(1) by blast
qed

text \<open>
  Property C23. A Trojan connection gets past the handshake only if what it sent begins with the hash of
  the configured password, the connect command and an address followed by a line end, within the limit
  for headers; everything after that is kept.
\<close>

theorem trojan_password_required:
  "readTrojanHandshake sha224hex password maxBytes chunks = HsAccepted d early \<Longrightarrow>
     \<exists>m x off. concat (take m chunks) = latin1 (sha224hex password) @ [13, 10, 1] @ x \<and> length (concat (take m chunks)) \<le> maxBytes \<and>
       decodeSocksAddress x 0 = Inr (d, off) \<and> off + 2 \<le> length x \<and> x ! off = 13 \<and> x ! (off + 1) = 10 \<and> early = drop (off + 2) x"
  unfolding readTrojanHandshake_def using header_feed_accepted trojan_check_accepted by (metis append_Nil)

definition toy_hash :: "string \<Rightarrow> string" where
  "toy_hash password = ''ab''"

lemma trojan_password_required_witness:
  "\<exists>m x off. concat (take m [[97, 98, 13], [10, 1, 1, 10, 0, 0, 1, 0, 80, 13, 10, 7]]) = latin1 (toy_hash ''pw'') @ [13, 10, 1] @ x \<and>
     length (concat (take m [[97, 98, 13], [10, 1, 1, 10, 0, 0, 1, 0, 80, 13, 10, 7 :: 8 word]])) \<le> 64 \<and>
     decodeSocksAddress x 0 = Inr (makeDestination ''10.0.0.1'' 80, off) \<and> off + 2 \<le> length x \<and> x ! off = 13 \<and> x ! (off + 1) = 10 \<and> [7] = drop (off + 2) x"
proof -
  have "readTrojanHandshake toy_hash ''pw'' 64 [[97, 98, 13], [10, 1, 1, 10, 0, 0, 1, 0, 80, 13, 10, 7]] =
      HsAccepted (makeDestination ''10.0.0.1'' 80) [7]" by code_simp
  from trojan_password_required [OF this] show ?thesis .
qed

lemma trojan_header_witness:
  "\<exists>d e e' early m. d_port d = 443 \<and> d_host d = ''a.io'' \<and>
     readTrojanHandshake toy_hash ''pw'' 64 [[97, 98, 13, 10, 1, 3, 4], [97, 46, 105, 111, 1, 187, 13, 10], [7]] = HsAccepted d early \<and>
     early @ concat (drop m [[97, 98, 13, 10, 1, 3, 4], [97, 46, 105, 111, 1, 187, 13, 10], [7]]) = [7] \<and>
     readTrojanHandshake toy_hash ''pw'' 64 [[97, 98, 13, 10, 1], [3, 4, 97, 46, 105, 111, 1, 187, 13, 10], [7]] = HsRejected e \<and>
     readTrojanHandshake toy_hash ''pw'' 15 [[97, 98, 13, 10, 1, 3, 4], [97, 46, 105, 111, 1, 187, 13, 10, 7]] = HsRejected e'"
proof -
  let ?request = "[97, 98, 13, 10, 1, 3, 4, 97, 46, 105, 111, 1, 187, 13, 10] :: bytes"
  have kind: "detectAddressType ''a.io'' = Domain" by code_simp
  have len: "length (utf8 ''a.io'') \<le> 255" by code_simp
  have hash: "latin1 (toy_hash ''pw'') = [97, 98]" by code_simp
  have request: "createTrojanRequest toy_hash ''pw'' (makeDestination ''a.io'' 443) = Inr ?request" by code_simp
  have "13 \<notin> set (latin1 (toy_hash ''pw''))" unfolding hash by simp
  note applied = trojan_header [where host = "''a.io''" and n = 443 and payload = "[7]", OF _ _ _ _ this request]
  let ?whole = "[[97, 98, 13, 10, 1, 3, 4], [97, 46, 105, 111, 1, 187, 13, 10], [7]] :: bytes list"
  let ?split = "[[97, 98, 13, 10, 1], [3, 4, 97, 46, 105, 111, 1, 187, 13, 10], [7]] :: bytes list"
  let ?long = "[[97, 98, 13, 10, 1, 3, 4], [97, 46, 105, 111, 1, 187, 13, 10, 7]] :: bytes list"
  have cuts: "set (cut_points 0 ?whole) = {7, 15, 16}" "set (cut_points 0 ?split) = {5, 15, 16}" "set (cut_points 0 ?long) = {7, 16}" by auto
  from applied [of ?whole 64] len kind obtain d early m where "d_port d = 443" "d_host d = ''a.io''"
    "readTrojanHandshake toy_hash ''pw'' 64 ?whole = HsAccepted d early" "early @ concat (drop m ?whole) = [7]"
    unfolding hash cuts by auto
  moreover from applied [of ?split 64] len kind obtain e where "readTrojanHandshake toy_hash ''pw'' 64 ?split = HsRejected e"
    unfolding hash cuts by auto
  moreover from applied [of ?long 15] len kind obtain e' where "readTrojanHandshake toy_hash ''pw'' 15 ?long = HsRejected e'"
    unfolding hash cuts by auto
  ultimately show ?thesis by blast
qed

end
