(* ===== verification/ConnCore.thy ===== *)
theory ConnCore
  imports Complex_Main JsMap Router
begin

text \<open>
  The bookkeeping of connections (\<^verbatim>\<open>src/core\<close>): the resource limiter, the statistics, the leak
  detector, the timers and the connection manager. Connections, timers and sockets are objects other
  code keeps references to after the manager forgot them, so each kind lives in a store, a list indexed
  by reference. A socket is what the bookkeeping sees of it: whether it is destroyed, whether it told
  so, and who listens for that. Times are in milliseconds and an argument.
\<close>

section \<open>The resource limiter\<close>

record resource_limiter =
  rl_maxConnections :: nat
  rl_activeConnections :: nat
  rl_rejectedConnections :: nat

definition newResourceLimiter :: "nat \<Rightarrow> resource_limiter" where
  "newResourceLimiter maxConnections = \<lparr>rl_maxConnections = maxConnections, rl_activeConnections = 0, rl_rejectedConnections = 0\<rparr>"

definition tryAcquireConnection :: "resource_limiter \<Rightarrow> bool \<times> resource_limiter" where
  "tryAcquireConnection l =
     (if rl_activeConnections l \<ge> rl_maxConnections l
      then (False, l\<lparr>rl_rejectedConnections := rl_rejectedConnections l + 1\<rparr>)
      else (True, l\<lparr>rl_activeConnections := rl_activeConnections l + 1\<rparr>))"

definition releaseConnection :: "resource_limiter \<Rightarrow> resource_limiter" where
  "releaseConnection l =
     (if rl_activeConnections l > 0 then l\<lparr>rl_activeConnections := rl_activeConnections l - 1\<rparr> else l)"

section \<open>Statistics\<close>

record stats_tracker =
  st_activeConnections :: nat
  st_totalConnections :: nat
  st_failedConnections :: nat
  st_closedConnections :: nat
  st_rejectedConnections :: nat
  st_bytesClientToRemote :: nat
  st_bytesRemoteToClient :: nat
  st_totalConnectionDurationMs :: int
  st_udpPacketsClientToRemote :: nat
  st_udpPacketsRemoteToClient :: nat
  st_udpBytesClientToRemote :: nat
  st_udpBytesRemoteToClient :: nat
  st_udpSessionsTotal :: nat
  st_udpSessionsActive :: nat
  st_udpErrorsTotal :: nat
  st_routeMatchesTotal :: nat
  st_outboundFailuresTotal :: nat
  st_dnsQueriesTotal :: nat
  st_dnsFailuresTotal :: nat
  st_hotReloadTotal :: nat
  st_hotReloadFailuresTotal :: nat
  st_fakeIpAssignmentsTotal :: nat
  st_dashboardRequestsTotal :: nat
  st_dashboardErrorsTotal :: nat
  st_startedAt :: int

definition newStatsTracker :: "int \<Rightarrow> stats_tracker" where
  "newStatsTracker now =
     \<lparr>st_activeConnections = 0, st_totalConnections = 0, st_failedConnections = 0, st_closedConnections = 0,
      st_rejectedConnections = 0, st_bytesClientToRemote = 0, st_bytesRemoteToClient = 0, st_totalConnectionDurationMs = 0,
      st_udpPacketsClientToRemote = 0, st_udpPacketsRemoteToClient = 0, st_udpBytesClientToRemote = 0,
      st_udpBytesRemoteToClient = 0, st_udpSessionsTotal = 0, st_udpSessionsActive = 0, st_udpErrorsTotal = 0,
      st_routeMatchesTotal = 0, st_outboundFailuresTotal = 0, st_dnsQueriesTotal = 0, st_dnsFailuresTotal = 0,
      st_hotReloadTotal = 0, st_hotReloadFailuresTotal = 0, st_fakeIpAssignmentsTotal = 0,
      st_dashboardRequestsTotal = 0, st_dashboardErrorsTotal = 0, st_startedAt = now\<rparr>"

definition startConnection :: "stats_tracker \<Rightarrow> stats_tracker" where
  "startConnection s = s\<lparr>st_activeConnections := st_activeConnections s + 1, st_totalConnections := st_totalConnections s + 1\<rparr>"

definition closeConnectionStats :: "bool \<Rightarrow> int \<Rightarrow> stats_tracker \<Rightarrow> stats_tracker" where
  "closeConnectionStats failed durationMs s =
     s\<lparr>st_activeConnections := (if st_activeConnections s > 0 then st_activeConnections s - 1 else st_activeConnections s),
       st_closedConnections := st_closedConnections s + 1,
       st_totalConnectionDurationMs := st_totalConnectionDurationMs s + max 0 durationMs,
       st_failedConnections := (if failed then st_failedConnections s + 1 else st_failedConnections s)\<rparr>"

definition rejectConnection :: "stats_tracker \<Rightarrow> stats_tracker" where
  "rejectConnection s = s\<lparr>st_rejectedConnections := st_rejectedConnections s + 1\<rparr>"

definition addClientToRemoteBytes :: "nat \<Rightarrow> stats_tracker \<Rightarrow> stats_tracker" where
  "addClientToRemoteBytes n s = s\<lparr>st_bytesClientToRemote := st_bytesClientToRemote s + n\<rparr>"

definition addRemoteToClientBytes :: "nat \<Rightarrow> stats_tracker \<Rightarrow> stats_tracker" where
  "addRemoteToClientBytes n s = s\<lparr>st_bytesRemoteToClient := st_bytesRemoteToClient s + n\<rparr>"

definition addUdpClientToRemoteBytes :: "nat \<Rightarrow> stats_tracker \<Rightarrow> stats_tracker" where
  "addUdpClientToRemoteBytes n s =
     s\<lparr>st_udpPacketsClientToRemote := st_udpPacketsClientToRemote s + 1, st_udpBytesClientToRemote := st_udpBytesClientToRemote s + n\<rparr>"

definition addUdpRemoteToClientBytes :: "nat \<Rightarrow> stats_tracker \<Rightarrow> stats_tracker" where
  "addUdpRemoteToClientBytes n s =
     s\<lparr>st_udpPacketsRemoteToClient := st_udpPacketsRemoteToClient s + 1, st_udpBytesRemoteToClient := st_udpBytesRemoteToClient s + n\<rparr>"

definition openUdpSession :: "stats_tracker \<Rightarrow> stats_tracker" where
  "openUdpSession s = s\<lparr>st_udpSessionsTotal := st_udpSessionsTotal s + 1, st_udpSessionsActive := st_udpSessionsActive s + 1\<rparr>"

definition closeUdpSession :: "stats_tracker \<Rightarrow> stats_tracker" where
  "closeUdpSession s = s\<lparr>st_udpSessionsActive := st_udpSessionsActive s - 1\<rparr>"

definition recordUdpError :: "stats_tracker \<Rightarrow> stats_tracker" where
  "recordUdpError s = s\<lparr>st_udpErrorsTotal := st_udpErrorsTotal s + 1\<rparr>"

definition recordRouteMatch :: "stats_tracker \<Rightarrow> stats_tracker" where
  "recordRouteMatch s = s\<lparr>st_routeMatchesTotal := st_routeMatchesTotal s + 1\<rparr>"

definition recordOutboundFailure :: "stats_tracker \<Rightarrow> stats_tracker" where
  "recordOutboundFailure s = s\<lparr>st_outboundFailuresTotal := st_outboundFailuresTotal s + 1\<rparr>"

definition recordDnsQuery :: "stats_tracker \<Rightarrow> stats_tracker" where
  "recordDnsQuery s = s\<lparr>st_dnsQueriesTotal := st_dnsQueriesTotal s + 1\<rparr>"

definition recordDnsFailure :: "stats_tracker \<Rightarrow> stats_tracker" where
  "recordDnsFailure s = s\<lparr>st_dnsFailuresTotal := st_dnsFailuresTotal s + 1\<rparr>"

definition recordHotReload :: "bool \<Rightarrow> stats_tracker \<Rightarrow> stats_tracker" where
  "recordHotReload ok s =
     s\<lparr>st_hotReloadTotal := st_hotReloadTotal s + 1,
       st_hotReloadFailuresTotal := (if ok then st_hotReloadFailuresTotal s else st_hotReloadFailuresTotal s + 1)\<rparr>"

definition recordFakeIpAssignment :: "stats_tracker \<Rightarrow> stats_tracker" where
  "recordFakeIpAssignment s = s\<lparr>st_fakeIpAssignmentsTotal := st_fakeIpAssignmentsTotal s + 1\<rparr>"

definition recordDashboardRequest :: "bool \<Rightarrow> stats_tracker \<Rightarrow> stats_tracker" where
  "recordDashboardRequest ok s =
     s\<lparr>st_dashboardRequestsTotal := st_dashboardRequestsTotal s + 1,
       st_dashboardErrorsTotal := (if ok then st_dashboardErrorsTotal s else st_dashboardErrorsTotal s + 1)\<rparr>"

text \<open>The derived figures of a snapshot; the quotients are exact here where the code has doubles.\<close>

record stats_figures =
  sf_totalBytes :: nat
  sf_averageConnectionDurationMs :: rat
  sf_failureRate :: rat
  sf_uptimeMs :: int

definition statsSnapshot :: "int \<Rightarrow> stats_tracker \<Rightarrow> stats_figures" where
  "statsSnapshot now s =
     (let completed = (if st_closedConnections s = 0 then 1 else st_closedConnections s);
          failureBase = st_totalConnections s + st_rejectedConnections s
      in \<lparr>sf_totalBytes = st_bytesClientToRemote s + st_bytesRemoteToClient s + st_udpBytesClientToRemote s + st_udpBytesRemoteToClient s,
          sf_averageConnectionDurationMs = of_int (st_totalConnectionDurationMs s) / of_nat completed,
          sf_failureRate = (if failureBase = 0 then 0 else of_nat (st_failedConnections s + st_rejectedConnections s) / of_nat failureBase),
          sf_uptimeMs = now - st_startedAt s\<rparr>)"

section \<open>Sockets\<close>

text \<open>
  Who listens for the close of a socket: the leak detector, which then forgets its entries, and the
  connection the socket belongs to. \<^verbatim>\<open>once\<close> listeners are removed before they run.
\<close>

datatype close_listener =
    LeakCleanup string string
  | CloseOwner nat string

record socket_state =
  sk_destroyed :: bool
  sk_closeEmitted :: bool
  sk_listeners :: "close_listener list"

definition newSocket :: socket_state where
  "newSocket = \<lparr>sk_destroyed = False, sk_closeEmitted = False, sk_listeners = []\<rparr>"

definition once_close :: "close_listener \<Rightarrow> socket_state \<Rightarrow> socket_state" where
  "once_close l s = s\<lparr>sk_listeners := sk_listeners s @ [l]\<rparr>"

definition removeListener :: "close_listener \<Rightarrow> socket_state \<Rightarrow> socket_state" where
  "removeListener l s = s\<lparr>sk_listeners := remove1 l (sk_listeners s)\<rparr>"

definition closeSocket :: "socket_state \<Rightarrow> socket_state" where
  "closeSocket s = (if sk_destroyed s then s else s\<lparr>sk_destroyed := True\<rparr>)"

section \<open>The leak detector\<close>

record leak_detector =
  ld_sockets :: "(string, nat) jsmap"
  ld_timers :: "(string, int) jsmap"
  ld_emitters :: "(string, string \<times> nat) jsmap"
  ld_nextId :: nat

definition newLeakDetector :: leak_detector where
  "newLeakDetector = \<lparr>ld_sockets = [], ld_timers = [], ld_emitters = [], ld_nextId = 1\<rparr>"

definition nextLabel :: "string \<Rightarrow> string \<Rightarrow> leak_detector \<Rightarrow> string \<times> leak_detector" where
  "nextLabel kind label d = (kind @ '':'' @ show_nat (ld_nextId d) @ '':'' @ label, d\<lparr>ld_nextId := ld_nextId d + 1\<rparr>)"

text \<open>The clean-up a tracker returns is the identifier it deletes; deleting twice deletes nothing more.\<close>

definition trackTimer :: "int \<Rightarrow> string \<Rightarrow> leak_detector \<Rightarrow> string \<times> leak_detector" where
  "trackTimer timer label d =
     (let (key, d1) = nextLabel ''timer'' label d in (key, d1\<lparr>ld_timers := jm_set key timer (ld_timers d1)\<rparr>))"

definition untrackTimer :: "string \<Rightarrow> leak_detector \<Rightarrow> leak_detector" where
  "untrackTimer key d = d\<lparr>ld_timers := jm_del key (ld_timers d)\<rparr>"

definition trackEmitter :: "nat \<Rightarrow> string \<Rightarrow> leak_detector \<Rightarrow> string \<times> leak_detector" where
  "trackEmitter emitter label d =
     (let (key, d1) = nextLabel ''emitter'' label d in (key, d1\<lparr>ld_emitters := jm_set key (label, emitter) (ld_emitters d1)\<rparr>))"

definition untrackEmitter :: "string \<Rightarrow> leak_detector \<Rightarrow> leak_detector" where
  "untrackEmitter key d = d\<lparr>ld_emitters := jm_del key (ld_emitters d)\<rparr>"

text \<open>\<^verbatim>\<open>trackSocket\<close>: the identifiers of the socket and of its emitter, and the listener it adds.\<close>

definition trackSocket :: "nat \<Rightarrow> string \<Rightarrow> leak_detector \<Rightarrow> (string \<times> string) \<times> leak_detector" where
  "trackSocket socket label d =
     (let (key, d1) = nextLabel ''socket'' label d;
          (emitterId, d2) = trackEmitter socket label (d1\<lparr>ld_sockets := jm_set key socket (ld_sockets d1)\<rparr>)
      in ((key, emitterId), d2))"

definition untrackSocket :: "string \<Rightarrow> string \<Rightarrow> leak_detector \<Rightarrow> leak_detector" where
  "untrackSocket key emitterId d = untrackEmitter emitterId (d\<lparr>ld_sockets := jm_del key (ld_sockets d)\<rparr>)"

section \<open>Timers\<close>

text \<open>
  A managed timer is armed with the time at which it fires and the identifier under which the leak
  detector knows it. The only callbacks are those of connections, so a timer carries its connection.
\<close>

record managed_timer =
  mt_label :: string
  mt_timeoutMs :: int
  mt_armed :: "(int \<times> string) option"
  mt_connection :: nat

definition timer_arm :: "int \<Rightarrow> managed_timer \<Rightarrow> leak_detector \<Rightarrow> managed_timer \<times> leak_detector" where
  "timer_arm now t d =
     (let due = now + mt_timeoutMs t; (key, d1) = trackTimer due (mt_label t) d in (t\<lparr>mt_armed := Some (due, key)\<rparr>, d1))"

definition timer_clear :: "managed_timer \<Rightarrow> leak_detector \<Rightarrow> managed_timer \<times> leak_detector" where
  "timer_clear t d =
     (case mt_armed t of None \<Rightarrow> (t, d) | Some (due, key) \<Rightarrow> (t\<lparr>mt_armed := None\<rparr>, untrackTimer key d))"

definition timer_refresh :: "int \<Rightarrow> int \<Rightarrow> managed_timer \<Rightarrow> leak_detector \<Rightarrow> managed_timer \<times> leak_detector" where
  "timer_refresh now timeoutMs t d =
     (let (t1, d1) = timer_clear (t\<lparr>mt_timeoutMs := timeoutMs\<rparr>) d in timer_arm now t1 d1)"

section \<open>Connections\<close>

datatype conn_state = CHandshake | CEstablished | CClosing | CClosed

text \<open>What \<^verbatim>\<open>socketCleanups\<close> holds: the clean-up of the leak detector and the removal of the own listener.\<close>

datatype socket_cleanup =
    Untrack nat string string
  | Unlisten nat close_listener

record managed_connection =
  mc_id :: string
  mc_inboundTag :: string
  mc_protocol :: string
  mc_network :: string
  mc_source :: "(string \<times> nat) option"
  mc_startTime :: int
  mc_idleTimeoutMs :: int
  mc_state :: conn_state
  mc_destination :: "destination option"
  mc_bytesUpload :: nat
  mc_bytesDownload :: nat
  mc_closeReason :: "string option"
  mc_timer :: nat
  mc_clientSocket :: "nat option"
  mc_remoteSocket :: "nat option"
  mc_socketCleanups :: "socket_cleanup list"

record connection_options =
  co_inboundTag :: string
  co_protocol :: string
  co_network :: string
  co_source :: "(string \<times> nat) option"
  co_clientSocket :: nat
  co_handshakeTimeoutMs :: int
  co_idleTimeoutMs :: int

text \<open>
  The manager with everything it shares: the stores of sockets, timers and connections, the timers
  registered with the timeout manager, and the table of open connections.
\<close>

record conn_world =
  cw_limiter :: resource_limiter
  cw_stats :: stats_tracker
  cw_leak :: leak_detector
  cw_sockets :: "socket_state list"
  cw_timers :: "managed_timer list"
  cw_registered :: "nat list"
  cw_conns :: "managed_connection list"
  cw_connections :: "(string, nat) jsmap"
  cw_nextId :: nat

definition newConnectionManager :: "nat \<Rightarrow> int \<Rightarrow> conn_world" where
  "newConnectionManager maxConnections now =
     \<lparr>cw_limiter = newResourceLimiter maxConnections, cw_stats = newStatsTracker now, cw_leak = newLeakDetector,
      cw_sockets = [], cw_timers = [], cw_registered = [], cw_conns = [], cw_connections = [], cw_nextId = 1\<rparr>"

definition on_conn :: "nat \<Rightarrow> (managed_connection \<Rightarrow> managed_connection) \<Rightarrow> conn_world \<Rightarrow> conn_world" where
  "on_conn k f w = w\<lparr>cw_conns := (cw_conns w)[k := f (cw_conns w ! k)]\<rparr>"

definition on_socket :: "nat \<Rightarrow> (socket_state \<Rightarrow> socket_state) \<Rightarrow> conn_world \<Rightarrow> conn_world" where
  "on_socket s f w = w\<lparr>cw_sockets := (cw_sockets w)[s := f (cw_sockets w ! s)]\<rparr>"

definition on_stats :: "(stats_tracker \<Rightarrow> stats_tracker) \<Rightarrow> conn_world \<Rightarrow> conn_world" where
  "on_stats f w = w\<lparr>cw_stats := f (cw_stats w)\<rparr>"

subsection \<open>The timeout manager\<close>

text \<open>A timer operation works on the timer and on the leak detector.\<close>

definition on_timer :: "nat \<Rightarrow> (managed_timer \<Rightarrow> leak_detector \<Rightarrow> managed_timer \<times> leak_detector) \<Rightarrow> conn_world \<Rightarrow> conn_world" where
  "on_timer t f w =
     (let (t1, d1) = f (cw_timers w ! t) (cw_leak w) in w\<lparr>cw_timers := (cw_timers w)[t := t1], cw_leak := d1\<rparr>)"

definition createTimeout :: "int \<Rightarrow> string \<Rightarrow> int \<Rightarrow> nat \<Rightarrow> conn_world \<Rightarrow> nat \<times> conn_world" where
  "createTimeout now label timeoutMs k w =
     (let (t, d) = timer_arm now \<lparr>mt_label = label, mt_timeoutMs = timeoutMs, mt_armed = None, mt_connection = k\<rparr> (cw_leak w) in
      (length (cw_timers w),
       w\<lparr>cw_timers := cw_timers w @ [t], cw_leak := d, cw_registered := cw_registered w @ [length (cw_timers w)]\<rparr>))"

definition clearManaged :: "nat \<Rightarrow> conn_world \<Rightarrow> conn_world" where
  "clearManaged t w = (let w1 = on_timer t timer_clear w in w1\<lparr>cw_registered := remove1 t (cw_registered w1)\<rparr>)"

definition refreshManaged :: "int \<Rightarrow> int \<Rightarrow> nat \<Rightarrow> conn_world \<Rightarrow> conn_world" where
  "refreshManaged now timeoutMs t w = on_timer t (timer_refresh now timeoutMs) w"

definition clearAllTimers :: "conn_world \<Rightarrow> conn_world" where
  "clearAllTimers w = (fold (\<lambda>t. on_timer t timer_clear) (cw_registered w) w)\<lparr>cw_registered := []\<rparr>"

subsection \<open>The life of a connection\<close>

text \<open>\<^verbatim>\<open>attachClientSocket\<close> and \<^verbatim>\<open>attachRemoteSocket\<close> after the field is set.\<close>

definition attachSocket :: "nat \<Rightarrow> nat \<Rightarrow> string \<Rightarrow> string \<Rightarrow> conn_world \<Rightarrow> conn_world" where
  "attachSocket k s label reason w =
     (let ((key, emitterId), d) = trackSocket s label (cw_leak w);
          w1 = on_socket s (once_close (LeakCleanup key emitterId)) (w\<lparr>cw_leak := d\<rparr>);
          w2 = on_socket s (once_close (CloseOwner k reason)) w1
      in on_conn k (\<lambda>c. c\<lparr>mc_socketCleanups := mc_socketCleanups c @ [Untrack s key emitterId, Unlisten s (CloseOwner k reason)]\<rparr>) w2)"

definition handshakeLabel :: "string \<Rightarrow> string" where
  "handshakeLabel cid = ''connection:'' @ cid @ '':handshake''"

definition newManagedConnection :: "int \<Rightarrow> string \<Rightarrow> connection_options \<Rightarrow> conn_world \<Rightarrow> nat \<times> conn_world" where
  "newManagedConnection now cid opts w =
     (let k = length (cw_conns w);
          (t, w1) = createTimeout now (handshakeLabel cid) (co_handshakeTimeoutMs opts) k w;
          c = \<lparr>mc_id = cid, mc_inboundTag = co_inboundTag opts, mc_protocol = co_protocol opts, mc_network = co_network opts,
               mc_source = co_source opts, mc_startTime = now, mc_idleTimeoutMs = co_idleTimeoutMs opts, mc_state = CHandshake,
               mc_destination = None, mc_bytesUpload = 0, mc_bytesDownload = 0, mc_closeReason = None, mc_timer = t,
               mc_clientSocket = Some (co_clientSocket opts), mc_remoteSocket = None, mc_socketCleanups = []\<rparr>
      in (k, attachSocket k (co_clientSocket opts) (cid @ '':client'') ''client socket closed'' (w1\<lparr>cw_conns := cw_conns w1 @ [c]\<rparr>)))"

definition setDestination :: "nat \<Rightarrow> destination \<Rightarrow> conn_world \<Rightarrow> conn_world" where
  "setDestination k d = on_conn k (\<lambda>c. c\<lparr>mc_destination := Some d\<rparr>)"

definition markEstablished :: "int \<Rightarrow> nat \<Rightarrow> conn_world \<Rightarrow> conn_world" where
  "markEstablished now k w =
     (let c = cw_conns w ! k in
      if mc_state c \<noteq> CHandshake then w
      else refreshManaged now (mc_idleTimeoutMs c) (mc_timer c) (on_conn k (\<lambda>c. c\<lparr>mc_state := CEstablished\<rparr>) w))"

definition attachRemoteSocket :: "nat \<Rightarrow> nat \<Rightarrow> conn_world \<Rightarrow> conn_world" where
  "attachRemoteSocket k s w =
     (let w1 = on_conn k (\<lambda>c. c\<lparr>mc_remoteSocket := Some s\<rparr>) w in
      attachSocket k s (mc_id (cw_conns w ! k) @ '':remote'') ''remote socket closed'' w1)"

definition conn_touch :: "int \<Rightarrow> nat \<Rightarrow> conn_world \<Rightarrow> conn_world" where
  "conn_touch now k w =
     (let c = cw_conns w ! k in
      if mc_state c = CEstablished then refreshManaged now (mc_idleTimeoutMs c) (mc_timer c) w else w)"

definition addUploadBytes :: "int \<Rightarrow> nat \<Rightarrow> nat \<Rightarrow> conn_world \<Rightarrow> conn_world" where
  "addUploadBytes now k n w =
     conn_touch now k (on_stats (addClientToRemoteBytes n) (on_conn k (\<lambda>c. c\<lparr>mc_bytesUpload := mc_bytesUpload c + n\<rparr>) w))"

definition addDownloadBytes :: "int \<Rightarrow> nat \<Rightarrow> nat \<Rightarrow> conn_world \<Rightarrow> conn_world" where
  "addDownloadBytes now k n w =
     conn_touch now k (on_stats (addRemoteToClientBytes n) (on_conn k (\<lambda>c. c\<lparr>mc_bytesDownload := mc_bytesDownload c + n\<rparr>) w))"

fun runSocketCleanup :: "socket_cleanup \<Rightarrow> conn_world \<Rightarrow> conn_world" where
  "runSocketCleanup (Untrack s key emitterId) w =
     on_socket s (removeListener (LeakCleanup key emitterId)) (w\<lparr>cw_leak := untrackSocket key emitterId (cw_leak w)\<rparr>)"
| "runSocketCleanup (Unlisten s l) w = on_socket s (removeListener l) w"

definition closeOptional :: "nat option \<Rightarrow> conn_world \<Rightarrow> conn_world" where
  "closeOptional socket w = (case socket of None \<Rightarrow> w | Some s \<Rightarrow> on_socket s closeSocket w)"

definition finalizeConnection :: "int \<Rightarrow> nat \<Rightarrow> bool \<Rightarrow> conn_world \<Rightarrow> conn_world" where
  "finalizeConnection now k failed w =
     (let c = cw_conns w ! k in
      if \<not> jm_has (cw_connections w) (mc_id c) then w
      else w\<lparr>cw_connections := jm_del (mc_id c) (cw_connections w), cw_limiter := releaseConnection (cw_limiter w),
             cw_stats := closeConnectionStats failed (now - mc_startTime c) (cw_stats w)\<rparr>)"

definition conn_close :: "int \<Rightarrow> nat \<Rightarrow> bool \<Rightarrow> string \<Rightarrow> conn_world \<Rightarrow> conn_world" where
  "conn_close now k failed reason w =
     (let c = cw_conns w ! k in
      if mc_state c = CClosed \<or> mc_state c = CClosing then w
      else (let w1 = on_conn k (\<lambda>c. c\<lparr>mc_state := CClosing, mc_closeReason := Some reason\<rparr>) w;
                w2 = clearManaged (mc_timer c) w1;
                w3 = fold runSocketCleanup (mc_socketCleanups c) (on_conn k (\<lambda>c. c\<lparr>mc_socketCleanups := []\<rparr>) w2);
                w4 = closeOptional (mc_remoteSocket c) (closeOptional (mc_clientSocket c) w3)
            in finalizeConnection now k failed (on_conn k (\<lambda>c. c\<lparr>mc_state := CClosed\<rparr>) w4)))"

subsection \<open>The manager\<close>

definition accept :: "int \<Rightarrow> connection_options \<Rightarrow> conn_world \<Rightarrow> nat option \<times> conn_world" where
  "accept now opts w =
     (let (acquired, l) = tryAcquireConnection (cw_limiter w); w1 = w\<lparr>cw_limiter := l\<rparr> in
      if \<not> acquired then (None, on_stats rejectConnection w1)
      else (let (k, w2) = newManagedConnection now (show_nat (cw_nextId w1)) opts w1 in
            (Some k, on_stats startConnection
               (w2\<lparr>cw_nextId := cw_nextId w2 + 1, cw_connections := jm_set (mc_id (cw_conns w2 ! k)) k (cw_connections w2)\<rparr>))))"

definition closeConnection :: "int \<Rightarrow> string \<Rightarrow> string \<Rightarrow> conn_world \<Rightarrow> bool \<times> conn_world" where
  "closeConnection now cid reason w =
     (case jm_get (cw_connections w) cid of None \<Rightarrow> (False, w) | Some k \<Rightarrow> (True, conn_close now k True reason w))"

definition closeAll :: "int \<Rightarrow> string \<Rightarrow> conn_world \<Rightarrow> conn_world" where
  "closeAll now reason w = fold (\<lambda>k. conn_close now k False reason) (jm_vals (cw_connections w)) w"

section \<open>What happens to connections\<close>

text \<open>
  A timer whose time has come clears itself and closes its connection. A socket tells once that it is
  closed, after it was destroyed from either side.
\<close>

definition timerFires :: "int \<Rightarrow> nat \<Rightarrow> conn_world \<Rightarrow> conn_world" where
  "timerFires now t w =
     (case mt_armed (cw_timers w ! t) of
        None \<Rightarrow> w
      | Some (due, key) \<Rightarrow>
          if now < due then w
          else conn_close now (mt_connection (cw_timers w ! t)) True ''handshake timeout'' (on_timer t timer_clear w))"

fun runCloseListener :: "int \<Rightarrow> nat \<Rightarrow> close_listener \<Rightarrow> conn_world \<Rightarrow> conn_world" where
  "runCloseListener now s (LeakCleanup key emitterId) w = runSocketCleanup (Untrack s key emitterId) w"
| "runCloseListener now s (CloseOwner k reason) w = conn_close now k False reason w"

definition socketClosed :: "int \<Rightarrow> nat \<Rightarrow> conn_world \<Rightarrow> conn_world" where
  "socketClosed now s w =
     (let sk = cw_sockets w ! s in
      if sk_closeEmitted sk then w
      else fold (runCloseListener now s) (sk_listeners sk)
             (on_socket s (\<lambda>sk. sk\<lparr>sk_destroyed := True, sk_closeEmitted := True, sk_listeners := []\<rparr>) w))"

text \<open>
  The events a manager sees: a new client with its socket, a new socket to a remote host for a
  connection, what handlers report, commands, timers and sockets. References name existing objects;
  an event on any other is none.
\<close>

datatype conn_event =
    ClientArrives connection_options
  | RemoteConnected nat
  | DestinationKnown nat destination
  | HandshakeDone nat
  | Uploaded nat nat
  | Downloaded nat nat
  | HandlerCloses nat bool string
  | CloseCommand string string
  | CloseAllCommand string
  | TimerDue nat
  | SocketCloses nat

definition addSocket :: "conn_world \<Rightarrow> conn_world" where
  "addSocket w = w\<lparr>cw_sockets := cw_sockets w @ [newSocket]\<rparr>"

fun conn_step :: "int \<Rightarrow> conn_event \<Rightarrow> conn_world \<Rightarrow> conn_world" where
  "conn_step now (ClientArrives opts) w = snd (accept now (opts\<lparr>co_clientSocket := length (cw_sockets w)\<rparr>) (addSocket w))"
| "conn_step now (RemoteConnected k) w =
     (if k < length (cw_conns w) then attachRemoteSocket k (length (cw_sockets w)) (addSocket w) else w)"
| "conn_step now (DestinationKnown k d) w = (if k < length (cw_conns w) then setDestination k d w else w)"
| "conn_step now (HandshakeDone k) w = (if k < length (cw_conns w) then markEstablished now k w else w)"
| "conn_step now (Uploaded k n) w = (if k < length (cw_conns w) then addUploadBytes now k n w else w)"
| "conn_step now (Downloaded k n) w = (if k < length (cw_conns w) then addDownloadBytes now k n w else w)"
| "conn_step now (HandlerCloses k failed reason) w = (if k < length (cw_conns w) then conn_close now k failed reason w else w)"
| "conn_step now (CloseCommand cid reason) w = snd (closeConnection now cid reason w)"
| "conn_step now (CloseAllCommand reason) w = closeAll now reason w"
| "conn_step now (TimerDue t) w = (if t < length (cw_timers w) then timerFires now t w else w)"
| "conn_step now (SocketCloses s) w = (if s < length (cw_sockets w) then socketClosed now s w else w)"

definition conn_run :: "(int \<times> conn_event) list \<Rightarrow> conn_world \<Rightarrow> conn_world" where
  "conn_run es w = fold (\<lambda>(now, e). conn_step now e) es w"

end
