(* ===== verification/ConnInv.thy ===== *)
theory ConnInv
  imports ConnCore
begin

text \<open>
  The invariant of the bookkeeping of connections, and that every operation and every event keeps it.
  Operations on sockets and listeners are shown to leave the books as they are, closing and accepting
  are compared with what they do to the books alone.
\<close>

section \<open>Names are fresh\<close>

lemma takeWhile_show_nat: "takeWhile (\<lambda>c. c \<noteq> CHR '':'') (show_nat n @ CHR '':'' # l) = show_nat n"
proof -
  have "\<forall>c \<in> set (show_nat n). c \<noteq> CHR '':''" using show_nat_digits [of n] by (auto simp: is_digit_def char_code_def)
  then show ?thesis by (simp add: takeWhile_append2)
qed

definition timer_key :: "nat \<Rightarrow> string \<Rightarrow> string" where
  "timer_key n label = ''timer:'' @ show_nat n @ '':'' @ label"

lemma timer_key_inject: "timer_key m a = timer_key n b \<Longrightarrow> m = n"
proof -
  assume "timer_key m a = timer_key n b"
  then have "show_nat m @ CHR '':'' # a = show_nat n @ CHR '':'' # b" by (simp add: timer_key_def)
  then have "show_nat m = show_nat n" using takeWhile_show_nat by metis
  then show "m = n" by simp
qed

section \<open>The parts of the world\<close>

definition is_open :: "managed_connection \<Rightarrow> bool" where
  "is_open c \<longleftrightarrow> mc_state c = CHandshake \<or> mc_state c = CEstablished"

lemma on_conn_fields [simp]:
  "cw_limiter (on_conn k f w) = cw_limiter w" "cw_stats (on_conn k f w) = cw_stats w" "cw_leak (on_conn k f w) = cw_leak w"
  "cw_sockets (on_conn k f w) = cw_sockets w" "cw_timers (on_conn k f w) = cw_timers w" "cw_registered (on_conn k f w) = cw_registered w"
  "cw_connections (on_conn k f w) = cw_connections w" "cw_nextId (on_conn k f w) = cw_nextId w"
  "cw_conns (on_conn k f w) = (cw_conns w)[k := f (cw_conns w ! k)]"
  by (simp_all add: on_conn_def)

lemma on_socket_fields [simp]:
  "cw_limiter (on_socket k g w) = cw_limiter w" "cw_stats (on_socket k g w) = cw_stats w" "cw_leak (on_socket k g w) = cw_leak w"
  "cw_conns (on_socket k g w) = cw_conns w" "cw_timers (on_socket k g w) = cw_timers w" "cw_registered (on_socket k g w) = cw_registered w"
  "cw_connections (on_socket k g w) = cw_connections w" "cw_nextId (on_socket k g w) = cw_nextId w"
  "cw_sockets (on_socket k g w) = (cw_sockets w)[k := g (cw_sockets w ! k)]"
  by (simp_all add: on_socket_def)

lemma on_stats_fields [simp]:
  "cw_limiter (on_stats h w) = cw_limiter w" "cw_stats (on_stats h w) = h (cw_stats w)" "cw_leak (on_stats h w) = cw_leak w"
  "cw_sockets (on_stats h w) = cw_sockets w" "cw_timers (on_stats h w) = cw_timers w" "cw_registered (on_stats h w) = cw_registered w"
  "cw_connections (on_stats h w) = cw_connections w" "cw_nextId (on_stats h w) = cw_nextId w" "cw_conns (on_stats h w) = cw_conns w"
  by (simp_all add: on_stats_def)

lemma on_timer_fields [simp]:
  "cw_limiter (on_timer t g w) = cw_limiter w" "cw_stats (on_timer t g w) = cw_stats w" "cw_leak (on_timer t g w) = snd (g (cw_timers w ! t) (cw_leak w))"
  "cw_sockets (on_timer t g w) = cw_sockets w" "cw_conns (on_timer t g w) = cw_conns w" "cw_registered (on_timer t g w) = cw_registered w"
  "cw_connections (on_timer t g w) = cw_connections w" "cw_nextId (on_timer t g w) = cw_nextId w"
  "cw_timers (on_timer t g w) = (cw_timers w)[t := fst (g (cw_timers w ! t) (cw_leak w))]"
  by (simp_all add: on_timer_def split_beta Let_def)

text \<open>Operations that only concern sockets, their listeners, and where a connection goes.\<close>

definition conn_view :: "managed_connection \<Rightarrow> managed_connection" where
  "conn_view c = c\<lparr>mc_destination := None, mc_remoteSocket := None, mc_socketCleanups := []\<rparr>"

lemma conn_view_fields [simp]:
  "mc_id (conn_view c) = mc_id c" "mc_timer (conn_view c) = mc_timer c" "mc_state (conn_view c) = mc_state c"
  "mc_bytesUpload (conn_view c) = mc_bytesUpload c" "mc_bytesDownload (conn_view c) = mc_bytesDownload c"
  "mc_startTime (conn_view c) = mc_startTime c" "mc_idleTimeoutMs (conn_view c) = mc_idleTimeoutMs c"
  "mc_closeReason (conn_view c) = mc_closeReason c"
  by (simp_all add: conn_view_def)

definition same_core :: "conn_world \<Rightarrow> conn_world \<Rightarrow> bool" where
  "same_core w w' \<longleftrightarrow> cw_limiter w' = cw_limiter w \<and> cw_stats w' = cw_stats w \<and> cw_timers w' = cw_timers w \<and>
     cw_registered w' = cw_registered w \<and> cw_connections w' = cw_connections w \<and> cw_nextId w' = cw_nextId w \<and>
     map conn_view (cw_conns w') = map conn_view (cw_conns w) \<and>
     ld_timers (cw_leak w') = ld_timers (cw_leak w) \<and> ld_nextId (cw_leak w) \<le> ld_nextId (cw_leak w')"

lemma same_core_refl [simp]: "same_core w w"
  by (simp add: same_core_def)

lemma same_core_trans: "same_core w1 w2 \<Longrightarrow> same_core w2 w3 \<Longrightarrow> same_core w1 w3"
  by (simp add: same_core_def)

lemma map_update_same: "f y = f (xs ! k) \<Longrightarrow> map f (xs[k := y]) = map f xs"
  by (metis list_update_id map_update)

lemma same_core_socket [simp]: "same_core w (on_socket s f w)"
  by (simp add: same_core_def)

lemma same_core_conn: "(\<And>c. conn_view (f c) = conn_view c) \<Longrightarrow> same_core w (on_conn k f w)"
  by (simp add: same_core_def map_update_same)

lemma same_core_destination [simp]: "same_core w (setDestination k d w)"
  unfolding setDestination_def by (rule same_core_conn) (simp add: conn_view_def)

lemma untrackSocket_fields [simp]:
  "ld_timers (untrackSocket key e d) = ld_timers d" "ld_nextId (untrackSocket key e d) = ld_nextId d"
  by (simp_all add: untrackSocket_def untrackEmitter_def)

lemma trackSocket_fields [simp]:
  "ld_timers (snd (trackSocket s l d)) = ld_timers d" "ld_nextId (snd (trackSocket s l d)) = ld_nextId d + 2"
  by (simp_all add: trackSocket_def trackEmitter_def nextLabel_def)

lemma same_core_cleanup: "same_core w (runSocketCleanup a w)"
  by (cases a) (auto simp: same_core_def)

lemma same_core_cleanups: "same_core w (fold runSocketCleanup as w)"
  by (induction as arbitrary: w) (auto intro: same_core_trans same_core_cleanup)

lemma same_core_closeOptional: "same_core w (closeOptional s w)"
  by (cases s) (simp_all add: closeOptional_def)

lemma same_core_attach: "same_core w (attachSocket k s label reason w)"
proof -
  obtain key e d where t: "trackSocket s label (cw_leak w) = ((key, e), d)" by (metis prod.exhaust)
  from trackSocket_fields [of s label "cw_leak w"] have "ld_timers d = ld_timers (cw_leak w)" "ld_nextId d = ld_nextId (cw_leak w) + 2"
    by (simp_all add: t)
  then show ?thesis by (simp add: attachSocket_def t same_core_def map_update_same conn_view_def)
qed

lemma same_core_attachRemote: "same_core w (attachRemoteSocket k s w)"
  unfolding attachRemoteSocket_def Let_def
  by (rule same_core_trans [OF _ same_core_attach]) (simp add: same_core_conn conn_view_def)

lemma same_core_addSocket [simp]: "same_core w (addSocket w)"
  by (simp add: same_core_def addSocket_def)

section \<open>The invariant\<close>

definition open_refs :: "managed_connection list \<Rightarrow> nat list" where
  "open_refs cs = filter (\<lambda>k. is_open (cs ! k)) [0..<length cs]"

definition leak_ok :: "managed_timer list \<Rightarrow> leak_detector \<Rightarrow> bool" where
  "leak_ok ts d \<longleftrightarrow> jm_ok (ld_timers d) \<and>
     (\<forall>key. jm_has (ld_timers d) key \<longleftrightarrow> (\<exists>k < length ts. \<exists>due. mt_armed (ts ! k) = Some (due, key))) \<and>
     (\<forall>j k due due' key. j < length ts \<and> k < length ts \<and> mt_armed (ts ! j) = Some (due, key) \<and> mt_armed (ts ! k) = Some (due', key) \<longrightarrow> j = k) \<and>
     (\<forall>key. jm_has (ld_timers d) key \<longrightarrow> (\<exists>m l. m < ld_nextId d \<and> key = timer_key m l))"

definition timers_ok :: "conn_world \<Rightarrow> bool" where
  "timers_ok w \<longleftrightarrow> length (cw_timers w) = length (cw_conns w) \<and>
     (\<forall>k < length (cw_conns w). mc_timer (cw_conns w ! k) = k \<and> mt_connection (cw_timers w ! k) = k \<and>
        (mt_armed (cw_timers w ! k) \<noteq> None \<longleftrightarrow> is_open (cw_conns w ! k))) \<and>
     cw_registered w = open_refs (cw_conns w) \<and> leak_ok (cw_timers w) (cw_leak w)"

definition table_ok :: "conn_world \<Rightarrow> bool" where
  "table_ok w \<longleftrightarrow> cw_nextId w = Suc (length (cw_conns w)) \<and>
     (\<forall>k < length (cw_conns w). mc_id (cw_conns w ! k) = show_nat (Suc k) \<and> mc_state (cw_conns w ! k) \<noteq> CClosing) \<and>
     cw_connections w = map (\<lambda>k. (show_nat (Suc k), k)) (open_refs (cw_conns w))"

definition counters_ok :: "conn_world \<Rightarrow> bool" where
  "counters_ok w \<longleftrightarrow> rl_activeConnections (cw_limiter w) = length (cw_connections w) \<and>
     length (cw_connections w) \<le> rl_maxConnections (cw_limiter w) \<and>
     st_activeConnections (cw_stats w) = length (cw_connections w) \<and>
     st_totalConnections (cw_stats w) = length (cw_conns w) \<and>
     st_closedConnections (cw_stats w) + length (cw_connections w) = length (cw_conns w) \<and>
     st_failedConnections (cw_stats w) \<le> st_closedConnections (cw_stats w) \<and>
     rl_rejectedConnections (cw_limiter w) = st_rejectedConnections (cw_stats w)"

definition bytes_ok :: "conn_world \<Rightarrow> bool" where
  "bytes_ok w \<longleftrightarrow> st_bytesClientToRemote (cw_stats w) = sum_list (map mc_bytesUpload (cw_conns w)) \<and>
     st_bytesRemoteToClient (cw_stats w) = sum_list (map mc_bytesDownload (cw_conns w))"

definition conn_ok :: "conn_world \<Rightarrow> bool" where
  "conn_ok w \<longleftrightarrow> timers_ok w \<and> table_ok w \<and> counters_ok w \<and> bytes_ok w"

subsection \<open>Views decide\<close>

lemma views:
  assumes "map conn_view cs = map conn_view cs'"
  shows "length cs = length cs'" "\<And>k. k < length cs' \<Longrightarrow> conn_view (cs ! k) = conn_view (cs' ! k)"
    "map mc_bytesUpload cs = map mc_bytesUpload cs'" "map mc_bytesDownload cs = map mc_bytesDownload cs'" "open_refs cs = open_refs cs'"
proof -
  show len: "length cs = length cs'" using assms by (rule map_eq_imp_length_eq)
  show view: "conn_view (cs ! k) = conn_view (cs' ! k)" if "k < length cs'" for k
    using arg_cong [OF assms, of "\<lambda>xs. xs ! k"] that len by simp
  have through: "map f cs = map f cs'" if "\<And>c. f (conn_view c) = f c" for f :: "managed_connection \<Rightarrow> 'a"
    using arg_cong [OF assms, of "map f"] that by (simp add: comp_def)
  show "map mc_bytesUpload cs = map mc_bytesUpload cs'" "map mc_bytesDownload cs = map mc_bytesDownload cs'"
    by (rule through, simp)+
  have "is_open (cs ! k) = is_open (cs' ! k)" if "k < length cs'" for k
    using view [OF that] unfolding is_open_def by (metis conn_view_fields(3))
  then show "open_refs cs = open_refs cs'" unfolding open_refs_def len by (intro filter_cong) auto
qed

lemma leak_ok_same: "ld_timers d' = ld_timers d \<Longrightarrow> ld_nextId d \<le> ld_nextId d' \<Longrightarrow> leak_ok ts d \<Longrightarrow> leak_ok ts d'"
  by (simp add: leak_ok_def) (meson order_less_le_trans)

lemma conn_ok_same_core:
  assumes "same_core w w'" "conn_ok w"
  shows "conn_ok w'"
proof -
  from assms(1) have eqs: "cw_limiter w' = cw_limiter w" "cw_stats w' = cw_stats w" "cw_timers w' = cw_timers w"
    "cw_registered w' = cw_registered w" "cw_connections w' = cw_connections w" "cw_nextId w' = cw_nextId w"
    and view: "map conn_view (cw_conns w') = map conn_view (cw_conns w)"
    and leak: "ld_timers (cw_leak w') = ld_timers (cw_leak w)" "ld_nextId (cw_leak w) \<le> ld_nextId (cw_leak w')"
    by (simp_all add: same_core_def)
  note v = views [OF view]
  have fields: "mc_id (cw_conns w' ! k) = mc_id (cw_conns w ! k) \<and> mc_timer (cw_conns w' ! k) = mc_timer (cw_conns w ! k) \<and>
      mc_state (cw_conns w' ! k) = mc_state (cw_conns w ! k) \<and> is_open (cw_conns w' ! k) = is_open (cw_conns w ! k)"
    if "k < length (cw_conns w)" for k
    using v(2) [OF that] unfolding is_open_def by (metis conn_view_fields(1,2,3))
  have "timers_ok w'" using assms(2) leak_ok_same [OF leak] fields unfolding conn_ok_def timers_ok_def eqs v by simp
  moreover have "table_ok w'" using assms(2) fields unfolding conn_ok_def table_ok_def eqs v by simp
  moreover have "counters_ok w'" "bytes_ok w'" using assms(2) unfolding conn_ok_def counters_ok_def bytes_ok_def eqs v by simp_all
  ultimately show ?thesis by (simp add: conn_ok_def)
qed

lemma conn_ok_fields:
  assumes "conn_ok w"
    and "cw_timers w' = cw_timers w" "cw_leak w' = cw_leak w" "cw_registered w' = cw_registered w"
      "cw_connections w' = cw_connections w" "cw_nextId w' = cw_nextId w" "cw_conns w' = cw_conns w"
      "st_bytesClientToRemote (cw_stats w') = st_bytesClientToRemote (cw_stats w)"
      "st_bytesRemoteToClient (cw_stats w') = st_bytesRemoteToClient (cw_stats w)" "counters_ok w'"
  shows "conn_ok w'"
  using assms(1,10) unfolding conn_ok_def timers_ok_def table_ok_def bytes_ok_def assms(2-9) by blast

subsection \<open>Timers\<close>

lemma jm_keys_timers [simp]:
  "ld_nextId (untrackTimer key d) = ld_nextId d" "ld_timers (untrackTimer key d) = jm_del key (ld_timers d)"
  by (simp_all add: untrackTimer_def)

lemma trackTimer_eq:
  "trackTimer due label d = (timer_key (ld_nextId d) label,
     d\<lparr>ld_nextId := Suc (ld_nextId d), ld_timers := jm_set (timer_key (ld_nextId d) label) due (ld_timers d)\<rparr>)"
  by (simp add: trackTimer_def nextLabel_def timer_key_def)

lemma timer_clear_fields [simp]:
  "mt_armed (fst (timer_clear t d)) = None" "mt_connection (fst (timer_clear t d)) = mt_connection t"
  "mt_timeoutMs (fst (timer_clear t d)) = mt_timeoutMs t" "mt_label (fst (timer_clear t d)) = mt_label t"
  by (simp_all add: timer_clear_def split: option.splits)

lemma timer_clear_ok:
  assumes "leak_ok ts d" "k < length ts"
  shows "leak_ok (ts[k := fst (timer_clear (ts ! k) d)]) (snd (timer_clear (ts ! k) d))"
proof -
  show ?thesis
  proof (cases "mt_armed (ts ! k)")
    case None
    then show ?thesis using assms by (simp add: timer_clear_def)
  next
    case (Some a)
    obtain due key where a: "a = (due, key)" by (cases a)
    have c: "timer_clear (ts ! k) d = ((ts ! k)\<lparr>mt_armed := None\<rparr>, untrackTimer key d)" by (simp add: timer_clear_def Some a)
    have only: "mt_armed (ts ! j) = Some (due', key) \<Longrightarrow> j < length ts \<Longrightarrow> j = k" for j due'
      using assms Some unfolding leak_ok_def a by metis
    from assms(1) have ok: "jm_ok (ld_timers d)"
      and has: "jm_has (ld_timers d) x \<longleftrightarrow> (\<exists>k < length ts. \<exists>due. mt_armed (ts ! k) = Some (due, x))"
      and inj: "\<forall>j k due due' key. j < length ts \<and> k < length ts \<and> mt_armed (ts ! j) = Some (due, key) \<and> mt_armed (ts ! k) = Some (due', key) \<longrightarrow> j = k"
      and named: "jm_has (ld_timers d) x \<Longrightarrow> \<exists>m l. m < ld_nextId d \<and> x = timer_key m l" for x unfolding leak_ok_def by blast+
    show ?thesis unfolding leak_ok_def c
    proof (intro conjI allI impI, goal_cases)
      case 1 show ?case using ok by simp
    next
      case (2 x)
      have other: "mt_armed ((ts[k := (ts ! k)\<lparr>mt_armed := None\<rparr>]) ! j) = Some (due', x) \<longleftrightarrow> j \<noteq> k \<and> mt_armed (ts ! j) = Some (due', x)"
        if "j < length ts" for j due' using that by (cases "j = k") simp_all
      show ?case
      proof
        assume "jm_has (ld_timers (snd ((ts ! k)\<lparr>mt_armed := None\<rparr>, untrackTimer key d))) x"
        then have "x \<noteq> key" "jm_has (ld_timers d) x" by simp_all
        with has obtain j due' where j: "j < length ts" "mt_armed (ts ! j) = Some (due', x)" by blast
        with \<open>x \<noteq> key\<close> Some have "j \<noteq> k" by (auto simp: a)
        with j other show "\<exists>i < length (ts[k := fst ((ts ! k)\<lparr>mt_armed := None\<rparr>, untrackTimer key d)]). \<exists>due.
            mt_armed (ts[k := fst ((ts ! k)\<lparr>mt_armed := None\<rparr>, untrackTimer key d)] ! i) = Some (due, x)" by auto
      next
        assume "\<exists>i < length (ts[k := fst ((ts ! k)\<lparr>mt_armed := None\<rparr>, untrackTimer key d)]). \<exists>due.
            mt_armed (ts[k := fst ((ts ! k)\<lparr>mt_armed := None\<rparr>, untrackTimer key d)] ! i) = Some (due, x)"
        then obtain j due' where j: "j < length ts" "j \<noteq> k" "mt_armed (ts ! j) = Some (due', x)" using other by auto
        with only have "x \<noteq> key" by blast
        with j has show "jm_has (ld_timers (snd ((ts ! k)\<lparr>mt_armed := None\<rparr>, untrackTimer key d))) x" by auto
      qed
    next
      case (3 i j due due' y)
      then show ?case using inj assms(2) by (auto simp: nth_list_update split: if_splits)
    next
      case (4 x)
      then show ?case using named by simp
    qed
  qed
qed

lemma leak_ok_arm:
  assumes "leak_ok ts d" "k < length ts" "mt_armed (ts ! k) = None" "timer_arm now t d = (t', d')"
  shows "leak_ok (ts[k := t']) d'" "mt_armed t' \<noteq> None" "mt_connection t' = mt_connection t" "mt_armed t' = Some (now + mt_timeoutMs t, timer_key (ld_nextId d) (mt_label t))"
proof -
  let ?key = "timer_key (ld_nextId d) (mt_label t)" and ?due = "now + mt_timeoutMs t"
  have t': "t' = t\<lparr>mt_armed := Some (?due, ?key)\<rparr>" and d': "ld_timers d' = jm_set ?key ?due (ld_timers d)" "ld_nextId d' = Suc (ld_nextId d)"
    using assms(4) by (auto simp: timer_arm_def trackTimer_eq Let_def)
  from assms(1) have ok: "jm_ok (ld_timers d)"
    and has: "jm_has (ld_timers d) x \<longleftrightarrow> (\<exists>k < length ts. \<exists>due. mt_armed (ts ! k) = Some (due, x))"
    and inj: "\<forall>j k due due' key. j < length ts \<and> k < length ts \<and> mt_armed (ts ! j) = Some (due, key) \<and> mt_armed (ts ! k) = Some (due', key) \<longrightarrow> j = k"
    and named: "jm_has (ld_timers d) x \<Longrightarrow> \<exists>m l. m < ld_nextId d \<and> x = timer_key m l" for x unfolding leak_ok_def by blast+
  have fresh: "\<not> jm_has (ld_timers d) ?key" using named timer_key_inject by (metis nat_neq_iff)
  then have other: "mt_armed (ts ! j) \<noteq> Some (due', ?key)" if "j < length ts" for j due' using has that by blast
  have at: "mt_armed (ts[k := t'] ! j) = (if j = k then Some (?due, ?key) else mt_armed (ts ! j))" for j
    using assms(2) by (simp add: t')
  show "leak_ok (ts[k := t']) d'" unfolding leak_ok_def at
  proof (intro conjI allI impI, goal_cases)
    case 1 show ?case using ok by (simp add: d')
  next
    case (2 x)
    show ?case
    proof (cases "x = ?key")
      case True
      then show ?thesis using assms(2) by (auto simp: d')
    next
      case False
      have "(\<exists>j < length ts. \<exists>due. (if j = k then Some (?due, ?key) else mt_armed (ts ! j)) = Some (due, x)) \<longleftrightarrow>
          (\<exists>j < length ts. \<exists>due. mt_armed (ts ! j) = Some (due, x))" using False assms(2,3) by (metis option.distinct(1) option.inject prod.inject)
      with False has show ?thesis by (simp add: d')
    qed
  next
    case (3 i j due due' y)
    then show ?case using inj other assms(2) by (auto split: if_splits)
  next
    case (4 x)
    then show ?case using named [of x] by (auto simp: d' intro: less_SucI)
  qed
qed (use assms(4) in \<open>auto simp: timer_arm_def trackTimer_eq Let_def\<close>)

lemma leak_ok_append:
  assumes "leak_ok ts d" "mt_armed t = None"
  shows "leak_ok (ts @ [t]) d"
proof -
  have split: "(\<exists>k < Suc (length ts). P k) \<longleftrightarrow> (\<exists>k < length ts. P k) \<or> P (length ts)" for P by (auto simp: less_Suc_eq)
  show ?thesis using assms unfolding leak_ok_def
    by (auto simp: nth_append split assms(2) less_Suc_eq)
qed

lemma refreshManaged_fields [simp]:
  "cw_limiter (refreshManaged now ms t w) = cw_limiter w" "cw_stats (refreshManaged now ms t w) = cw_stats w"
  "cw_sockets (refreshManaged now ms t w) = cw_sockets w" "cw_conns (refreshManaged now ms t w) = cw_conns w"
  "cw_registered (refreshManaged now ms t w) = cw_registered w" "cw_connections (refreshManaged now ms t w) = cw_connections w"
  "cw_nextId (refreshManaged now ms t w) = cw_nextId w"
  by (simp_all add: refreshManaged_def)

text \<open>Refreshing the timer of an open connection.\<close>

lemma refresh_ok:
  assumes "conn_ok w" "k < length (cw_conns w)" "is_open (cw_conns w ! k)"
  shows "conn_ok (refreshManaged now ms k w)"
    "\<exists>key. mt_armed (cw_timers (refreshManaged now ms k w) ! k) = Some (now + ms, key)"
proof -
  let ?ts = "cw_timers w" and ?d = "cw_leak w" and ?t = "(cw_timers w ! k)\<lparr>mt_timeoutMs := ms\<rparr>"
  have len: "k < length ?ts" and leak: "leak_ok ?ts ?d" and conn: "mt_connection (?ts ! k) = k"
    using assms by (auto simp: conn_ok_def timers_ok_def)
  obtain t1 d1 where c: "timer_clear ?t ?d = (t1, d1)" by (metis prod.exhaust)
  obtain t2 d2 where a: "timer_arm now t1 d1 = (t2, d2)" by (metis prod.exhaust)
  have "leak_ok (?ts[k := ?t]) ?d" using leak len unfolding leak_ok_def by (auto simp: nth_list_update split: if_splits)
  from timer_clear_ok [OF this, of k] len c have l1: "leak_ok (?ts[k := t1]) d1" by simp
  have t1: "mt_armed t1 = None" "mt_connection t1 = k" "mt_timeoutMs t1 = ms"
    using timer_clear_fields [of ?t ?d] conn by (simp_all add: c)
  from leak_ok_arm [OF l1 _ _ a, of k] len t1 have l2: "leak_ok (?ts[k := t2]) d2" "mt_armed t2 \<noteq> None" "mt_connection t2 = k"
    "\<exists>key. mt_armed t2 = Some (now + ms, key)" by simp_all
  have w: "cw_timers (refreshManaged now ms k w) = ?ts[k := t2]" "cw_leak (refreshManaged now ms k w) = d2"
    by (simp_all add: refreshManaged_def timer_refresh_def c a)
  show "\<exists>key. mt_armed (cw_timers (refreshManaged now ms k w) ! k) = Some (now + ms, key)" using l2(4) len by (simp add: w)
  have "timers_ok (refreshManaged now ms k w)"
    using assms l2 len unfolding conn_ok_def timers_ok_def w by (auto simp: nth_list_update)
  then show "conn_ok (refreshManaged now ms k w)"
    using assms(1) unfolding conn_ok_def table_ok_def counters_ok_def bytes_ok_def refreshManaged_fields by blast
qed

subsection \<open>Closing\<close>

text \<open>What closing does, but for the sockets.\<close>

definition close_core :: "int \<Rightarrow> nat \<Rightarrow> bool \<Rightarrow> string \<Rightarrow> conn_world \<Rightarrow> conn_world" where
  "close_core now k failed reason w =
     (let c = cw_conns w ! k; t = timer_clear (cw_timers w ! k) (cw_leak w) in
      w\<lparr>cw_conns := (cw_conns w)[k := c\<lparr>mc_state := CClosed, mc_closeReason := Some reason\<rparr>],
        cw_timers := (cw_timers w)[k := fst t], cw_leak := snd t, cw_registered := remove1 k (cw_registered w),
        cw_connections := jm_del (mc_id c) (cw_connections w), cw_limiter := releaseConnection (cw_limiter w),
        cw_stats := closeConnectionStats failed (now - mc_startTime c) (cw_stats w)\<rparr>)"

lemma clearManaged_fields [simp]:
  "cw_limiter (clearManaged t w) = cw_limiter w" "cw_stats (clearManaged t w) = cw_stats w"
  "cw_sockets (clearManaged t w) = cw_sockets w" "cw_conns (clearManaged t w) = cw_conns w"
  "cw_registered (clearManaged t w) = remove1 t (cw_registered w)" "cw_connections (clearManaged t w) = cw_connections w"
  "cw_nextId (clearManaged t w) = cw_nextId w"
  "cw_timers (clearManaged t w) = (cw_timers w)[t := fst (timer_clear (cw_timers w ! t) (cw_leak w))]"
  "cw_leak (clearManaged t w) = snd (timer_clear (cw_timers w ! t) (cw_leak w))"
  by (simp_all add: clearManaged_def Let_def)

text \<open>The middle of closing: the connection is marked, its timer gone, its sockets are let go of.\<close>

definition close_middle :: "nat \<Rightarrow> string \<Rightarrow> conn_world \<Rightarrow> conn_world" where
  "close_middle k reason w =
     (let c = cw_conns w ! k;
          w2 = clearManaged (mc_timer c) (on_conn k (\<lambda>c. c\<lparr>mc_state := CClosing, mc_closeReason := Some reason\<rparr>) w);
          w3 = fold runSocketCleanup (mc_socketCleanups c) (on_conn k (\<lambda>c. c\<lparr>mc_socketCleanups := []\<rparr>) w2)
      in closeOptional (mc_remoteSocket c) (closeOptional (mc_clientSocket c) w3))"

lemma conn_close_open:
  "is_open (cw_conns w ! k) \<Longrightarrow>
     conn_close now k failed reason w =
       finalizeConnection now k failed (on_conn k (\<lambda>c. c\<lparr>mc_state := CClosed\<rparr>) (close_middle k reason w))"
  by (auto simp: conn_close_def close_middle_def is_open_def Let_def)

lemma conn_close_closed: "\<not> is_open (cw_conns w ! k) \<Longrightarrow> conn_close now k failed reason w = w"
  by (cases "mc_state (cw_conns w ! k)") (auto simp: conn_close_def is_open_def)

lemma close_middle_core:
  "same_core (clearManaged (mc_timer (cw_conns w ! k)) (on_conn k (\<lambda>c. c\<lparr>mc_state := CClosing, mc_closeReason := Some reason\<rparr>) w))
     (close_middle k reason w)"
  unfolding close_middle_def Let_def
  by (intro same_core_trans [OF _ same_core_closeOptional] same_core_trans [OF _ same_core_cleanups] same_core_conn)
    (simp add: conn_view_def)

lemma conn_view_state: "conn_view (c\<lparr>mc_state := s\<rparr>) = (conn_view c)\<lparr>mc_state := s\<rparr>"
  by (simp add: conn_view_def)

lemma close_core_same:
  assumes "conn_ok w" "k < length (cw_conns w)" "is_open (cw_conns w ! k)"
  shows "same_core (close_core now k failed reason w) (conn_close now k failed reason w)"
proof -
  let ?c = "cw_conns w ! k" and ?m = "close_middle k reason w"
  let ?c1 = "?c\<lparr>mc_state := CClosing, mc_closeReason := Some reason\<rparr>"
  from assms have timer: "mc_timer ?c = k" and idk: "mc_id ?c = show_nat (Suc k)"
    and table: "cw_connections w = map (\<lambda>k. (show_nat (Suc k), k)) (open_refs (cw_conns w))"
    by (auto simp: conn_ok_def timers_ok_def table_ok_def)
  from close_middle_core [of w k reason] have m: "cw_limiter ?m = cw_limiter w" "cw_stats ?m = cw_stats w"
    "cw_timers ?m = (cw_timers w)[k := fst (timer_clear (cw_timers w ! k) (cw_leak w))]"
    "cw_registered ?m = remove1 k (cw_registered w)" "cw_connections ?m = cw_connections w" "cw_nextId ?m = cw_nextId w"
    "map conn_view (cw_conns ?m) = map conn_view ((cw_conns w)[k := ?c1])"
    "ld_timers (cw_leak ?m) = ld_timers (snd (timer_clear (cw_timers w ! k) (cw_leak w)))"
    "ld_nextId (snd (timer_clear (cw_timers w ! k) (cw_leak w))) \<le> ld_nextId (cw_leak ?m)"
    by (simp_all add: same_core_def timer)
  note v = views [OF m(7)]
  have len: "length (cw_conns ?m) = length (cw_conns w)" using v(1) by simp
  have at: "conn_view (cw_conns ?m ! k) = conn_view ?c1" using v(2) [of k] assms(2) by simp
  have cid: "mc_id (cw_conns ?m ! k) = mc_id ?c" and start: "mc_startTime (cw_conns ?m ! k) = mc_startTime ?c"
    using arg_cong [OF at, of mc_id] arg_cong [OF at, of mc_startTime] by simp_all
  have "map conn_view ((cw_conns ?m)[k := (cw_conns ?m ! k)\<lparr>mc_state := CClosed\<rparr>]) =
      (map conn_view (cw_conns ?m))[k := (conn_view ?c1)\<lparr>mc_state := CClosed\<rparr>]"
    by (simp add: map_update conn_view_state at)
  also have "\<dots> = map conn_view ((cw_conns w)[k := ?c\<lparr>mc_state := CClosed, mc_closeReason := Some reason\<rparr>])"
    unfolding m(7) map_update list_update_overwrite by (rule arg_cong) (simp add: conn_view_def)
  finally have view: "map conn_view ((cw_conns ?m)[k := (cw_conns ?m ! k)\<lparr>mc_state := CClosed\<rparr>]) = \<dots>" .
  have has: "jm_has (cw_connections w) (mc_id ?c)"
    using assms(2,3) unfolding table idk by (auto simp: jm_has_def open_refs_def image_image)
  have "k < length (cw_conns ?m)" using len assms(2) by simp
  then show ?thesis
    unfolding conn_close_open [OF assms(3)] finalizeConnection_def same_core_def
    using view has m by (simp add: Let_def close_core_def cid start)
qed

lemma distinct_open_refs [simp]: "distinct (open_refs cs)"
  by (simp add: open_refs_def)

lemma in_open_refs: "k \<in> set (open_refs cs) \<longleftrightarrow> k < length cs \<and> is_open (cs ! k)"
  by (auto simp: open_refs_def)

lemma open_refs_same: "is_open c = is_open (cs ! k) \<Longrightarrow> open_refs (cs[k := c]) = open_refs cs"
  unfolding open_refs_def length_list_update
  by (intro filter_cong refl) (metis list_update_beyond linorder_not_le nth_list_update)

lemma open_refs_close: "\<not> is_open c \<Longrightarrow> open_refs (cs[k := c]) = remove1 k (open_refs cs)"
proof -
  assume closed: "\<not> is_open c"
  have "is_open (cs[k := c] ! j) \<longleftrightarrow> is_open (cs ! j) \<and> j \<noteq> k" if "j < length cs" for j
    using closed that by (cases "j = k") simp_all
  then have "open_refs (cs[k := c]) = filter (\<lambda>j. j \<noteq> k) (open_refs cs)"
    using closed by (auto simp: open_refs_def intro!: filter_cong)
  then show ?thesis by (simp add: distinct_remove1_removeAll removeAll_filter_not_eq eq_commute)
qed

lemma open_refs_append: "open_refs (cs @ [c]) = open_refs cs @ (if is_open c then [length cs] else [])"
proof -
  have "filter (\<lambda>k. is_open ((cs @ [c]) ! k)) [0..<length cs] = open_refs cs"
    unfolding open_refs_def by (intro filter_cong) (auto simp: nth_append)
  then show ?thesis by (simp add: open_refs_def)
qed

lemma table_close:
  "jm_del (show_nat (Suc k)) (map (\<lambda>k. (show_nat (Suc k), k)) ks) = map (\<lambda>k. (show_nat (Suc k), k)) (removeAll k ks)"
  by (induction ks) auto

lemma close_core_ok:
  assumes "conn_ok w" "k < length (cw_conns w)" "is_open (cw_conns w ! k)"
  shows "conn_ok (close_core now k failed reason w)"
proof -
  let ?c = "cw_conns w ! k" and ?w = "close_core now k failed reason w"
  let ?c1 = "?c\<lparr>mc_state := CClosed, mc_closeReason := Some reason\<rparr>"
  from assms(1) have t: "timers_ok w" and tab: "table_ok w" and cnt: "counters_ok w" and b: "bytes_ok w" by (simp_all add: conn_ok_def)
  have conns: "cw_conns ?w = (cw_conns w)[k := ?c1]" by (simp add: close_core_def Let_def)
  have closed: "\<not> is_open ?c1" by (simp add: is_open_def)
  have refs: "open_refs (cw_conns ?w) = removeAll k (open_refs (cw_conns w))"
    unfolding conns by (simp add: open_refs_close [OF closed] distinct_remove1_removeAll)
  have mem: "k \<in> set (open_refs (cw_conns w))" using assms(2,3) by (simp add: in_open_refs)
  from tab have idk: "mc_id ?c = show_nat (Suc k)" and table: "cw_connections w = map (\<lambda>k. (show_nat (Suc k), k)) (open_refs (cw_conns w))"
    using assms(2) by (simp_all add: table_ok_def)
  have table': "cw_connections ?w = map (\<lambda>k. (show_nat (Suc k), k)) (open_refs (cw_conns ?w))"
    unfolding refs by (simp add: close_core_def Let_def idk table table_close)
  have count: "length (cw_connections w) = Suc (length (cw_connections ?w))"
    using mem length_pos_if_in_set [OF mem] unfolding table table' refs
    by (simp add: distinct_remove1_removeAll [symmetric] length_remove1)
  have at: "cw_conns ?w ! j = (if j = k then ?c1 else cw_conns w ! j)" for j using assms(2) by (simp add: conns)
  have "timers_ok ?w"
  proof -
    have ts: "cw_timers ?w = (cw_timers w)[k := fst (timer_clear (cw_timers w ! k) (cw_leak w))]"
      "cw_leak ?w = snd (timer_clear (cw_timers w ! k) (cw_leak w))" "cw_registered ?w = remove1 k (cw_registered w)"
      by (simp_all add: close_core_def Let_def)
    have "leak_ok (cw_timers ?w) (cw_leak ?w)" unfolding ts using t assms(2) by (intro timer_clear_ok) (simp_all add: timers_ok_def)
    then show ?thesis using t assms(2) closed unfolding timers_ok_def refs ts(3)
      by (auto simp: at ts(1) conns nth_list_update distinct_remove1_removeAll)
  qed
  moreover have "table_ok ?w"
  proof -
    have "mc_id (cw_conns ?w ! j) = show_nat (Suc j) \<and> mc_state (cw_conns ?w ! j) \<noteq> CClosing" if "j < length (cw_conns w)" for j
      using tab that unfolding table_ok_def by (simp add: at)
    moreover have "cw_nextId ?w = Suc (length (cw_conns w))" using tab by (simp add: table_ok_def close_core_def Let_def)
    ultimately show ?thesis using table' unfolding table_ok_def by (simp add: conns)
  qed
  moreover have "counters_ok ?w"
    using cnt count unfolding counters_ok_def conns
    by (simp add: close_core_def Let_def releaseConnection_def closeConnectionStats_def)
  moreover have "bytes_ok ?w"
    using b unfolding bytes_ok_def conns
    by (simp add: close_core_def Let_def closeConnectionStats_def map_update_same)
  ultimately show ?thesis by (simp add: conn_ok_def)
qed

lemma conn_close_ok: "conn_ok w \<Longrightarrow> k < length (cw_conns w) \<Longrightarrow> conn_ok (conn_close now k failed reason w)"
  using conn_ok_same_core [OF close_core_same close_core_ok] conn_close_closed by metis

subsection \<open>Accepting\<close>

definition fresh_conn :: "int \<Rightarrow> connection_options \<Rightarrow> conn_world \<Rightarrow> managed_connection" where
  "fresh_conn now opts w =
     \<lparr>mc_id = show_nat (cw_nextId w), mc_inboundTag = co_inboundTag opts, mc_protocol = co_protocol opts, mc_network = co_network opts,
      mc_source = co_source opts, mc_startTime = now, mc_idleTimeoutMs = co_idleTimeoutMs opts, mc_state = CHandshake,
      mc_destination = None, mc_bytesUpload = 0, mc_bytesDownload = 0, mc_closeReason = None, mc_timer = length (cw_timers w),
      mc_clientSocket = Some (co_clientSocket opts), mc_remoteSocket = None, mc_socketCleanups = []\<rparr>"

definition accept_core :: "int \<Rightarrow> connection_options \<Rightarrow> conn_world \<Rightarrow> conn_world" where
  "accept_core now opts w =
     (let armed = timer_arm now \<lparr>mt_label = handshakeLabel (show_nat (cw_nextId w)), mt_timeoutMs = co_handshakeTimeoutMs opts, mt_armed = None, mt_connection = length (cw_conns w)\<rparr> (cw_leak w)
      in w\<lparr>cw_limiter := snd (tryAcquireConnection (cw_limiter w)), cw_stats := startConnection (cw_stats w), cw_leak := snd armed,
           cw_timers := cw_timers w @ [fst armed], cw_registered := cw_registered w @ [length (cw_timers w)],
           cw_conns := cw_conns w @ [fresh_conn now opts w], cw_nextId := cw_nextId w + 1,
           cw_connections := jm_set (show_nat (cw_nextId w)) (length (cw_conns w)) (cw_connections w)\<rparr>)"

lemma same_core_lift:
  assumes "same_core w w'"
  shows "same_core (w\<lparr>cw_stats := s, cw_nextId := n, cw_connections := m\<rparr>) (w'\<lparr>cw_stats := s, cw_nextId := n, cw_connections := m\<rparr>)"
  using assms by (simp add: same_core_def)

lemma accept_core_same:
  assumes "fst (tryAcquireConnection (cw_limiter w))"
  shows "same_core (accept_core now opts w) (snd (accept now opts w))" "fst (accept now opts w) = Some (length (cw_conns w))"
proof -
  let ?l = "snd (tryAcquireConnection (cw_limiter w))" and ?cid = "show_nat (cw_nextId w)" and ?k = "length (cw_conns w)"
  let ?label = "handshakeLabel ?cid"
  obtain t d where arm: "timer_arm now \<lparr>mt_label = ?label, mt_timeoutMs = co_handshakeTimeoutMs opts, mt_armed = None, mt_connection = ?k\<rparr> (cw_leak w) = (t, d)"
    by (metis prod.exhaust)
  let ?w1 = "w\<lparr>cw_limiter := ?l, cw_timers := cw_timers w @ [t], cw_leak := d, cw_registered := cw_registered w @ [length (cw_timers w)],
      cw_conns := cw_conns w @ [fresh_conn now opts w]\<rparr>"
  let ?w2 = "attachSocket ?k (co_clientSocket opts) (?cid @ '':client'') ''client socket closed'' ?w1"
  have n: "newManagedConnection now ?cid opts (w\<lparr>cw_limiter := ?l\<rparr>) = (?k, ?w2)"
    using arm by (simp add: newManagedConnection_def createTimeout_def Let_def fresh_conn_def)
  have same: "same_core ?w1 ?w2" by (rule same_core_attach)
  then have "map conn_view (cw_conns ?w2) = map conn_view (cw_conns ?w1)" unfolding same_core_def by blast
  from views(2) [OF this, of ?k] have "conn_view (cw_conns ?w2 ! ?k) = conn_view (fresh_conn now opts w)" by simp
  from arg_cong [OF this, of mc_id] have cid: "mc_id (cw_conns ?w2 ! ?k) = ?cid" by (simp add: fresh_conn_def)
  have rest: "cw_stats ?w2 = cw_stats w" "cw_nextId ?w2 = cw_nextId w" "cw_connections ?w2 = cw_connections w"
    using same by (simp_all add: same_core_def)
  have a: "accept now opts w = (Some ?k, on_stats startConnection (?w2\<lparr>cw_nextId := cw_nextId w + 1, cw_connections := jm_set ?cid ?k (cw_connections w)\<rparr>))"
  proof -
    obtain l where "tryAcquireConnection (cw_limiter w) = (True, l)" using assms by (metis prod.collapse)
    then have "accept now opts w = (case newManagedConnection now ?cid opts (w\<lparr>cw_limiter := ?l\<rparr>) of (k, w2) \<Rightarrow>
        (Some k, on_stats startConnection (w2\<lparr>cw_nextId := cw_nextId w2 + 1, cw_connections := jm_set (mc_id (cw_conns w2 ! k)) k (cw_connections w2)\<rparr>)))"
      by (simp add: accept_def Let_def)
    then show ?thesis unfolding n prod.case cid rest .
  qed
  then show "fst (accept now opts w) = Some ?k" by simp
  have "snd (accept now opts w) = ?w2\<lparr>cw_stats := startConnection (cw_stats w), cw_nextId := cw_nextId w + 1, cw_connections := jm_set ?cid ?k (cw_connections w)\<rparr>"
    unfolding a by (simp add: on_stats_def rest)
  moreover have "accept_core now opts w = ?w1\<lparr>cw_stats := startConnection (cw_stats w), cw_nextId := cw_nextId w + 1, cw_connections := jm_set ?cid ?k (cw_connections w)\<rparr>"
    by (simp add: accept_core_def Let_def arm)
  ultimately show "same_core (accept_core now opts w) (snd (accept now opts w))" using same_core_lift [OF same] by simp
qed

lemma accept_core_ok:
  assumes "conn_ok w" "fst (tryAcquireConnection (cw_limiter w))"
  shows "conn_ok (accept_core now opts w)"
proof -
  let ?w = "accept_core now opts w" and ?c = "fresh_conn now opts w" and ?n = "length (cw_conns w)"
  let ?t0 = "\<lparr>mt_label = handshakeLabel (show_nat (cw_nextId w)), mt_timeoutMs = co_handshakeTimeoutMs opts, mt_armed = None, mt_connection = ?n\<rparr>"
  obtain t d where arm: "timer_arm now ?t0 (cw_leak w) = (t, d)" by (metis prod.exhaust)
  from assms(1) have t: "timers_ok w" and tab: "table_ok w" and cnt: "counters_ok w" and b: "bytes_ok w" by (simp_all add: conn_ok_def)
  have len: "length (cw_timers w) = ?n" and leak: "leak_ok (cw_timers w) (cw_leak w)" using t by (simp_all add: timers_ok_def)
  have w: "cw_conns ?w = cw_conns w @ [?c]" "cw_timers ?w = cw_timers w @ [t]" "cw_leak ?w = d" "cw_registered ?w = cw_registered w @ [?n]"
    "cw_nextId ?w = cw_nextId w + 1" "cw_connections ?w = jm_set (show_nat (cw_nextId w)) ?n (cw_connections w)"
    "cw_stats ?w = startConnection (cw_stats w)" "cw_limiter ?w = snd (tryAcquireConnection (cw_limiter w))"
    by (simp_all add: accept_core_def Let_def arm len)
  have c: "is_open ?c" "mc_id ?c = show_nat (cw_nextId w)" "mc_timer ?c = ?n" "mc_bytesUpload ?c = 0" "mc_bytesDownload ?c = 0" "mc_state ?c = CHandshake"
    by (simp_all add: fresh_conn_def is_open_def len)
  have refs: "open_refs (cw_conns ?w) = open_refs (cw_conns w) @ [?n]" using c(1) by (simp add: w(1) open_refs_append)
  have "leak_ok (cw_timers w @ [?t0]) (cw_leak w)" by (rule leak_ok_append [OF leak]) simp
  from leak_ok_arm [OF this _ _ arm, of ?n] len have l: "leak_ok (cw_timers w @ [t]) d" "mt_armed t \<noteq> None" "mt_connection t = ?n"
    by (simp_all add: nth_append list_update_append)
  have "timers_ok ?w" using t l c len unfolding timers_ok_def refs w(2-4) by (auto simp: w(1) nth_append less_Suc_eq)
  moreover have table': "cw_connections ?w = map (\<lambda>k. (show_nat (Suc k), k)) (open_refs (cw_conns ?w))"
  proof -
    have "\<not> jm_has (cw_connections w) (show_nat (Suc ?n))" using tab in_open_refs by (auto simp: table_ok_def jm_has_def image_image)
    then show ?thesis using tab unfolding refs w(5,6) by (simp add: table_ok_def jm_set_absent)
  qed
  have "table_ok ?w"
    using tab table' c unfolding table_ok_def w(1,5) by (auto simp: nth_append less_Suc_eq)
  moreover have "counters_ok ?w"
  proof -
    have "length (cw_connections ?w) = Suc (length (cw_connections w))" unfolding table' refs using tab by (simp add: table_ok_def)
    then show ?thesis using cnt assms(2) unfolding counters_ok_def w(1,7,8)
      by (simp add: startConnection_def tryAcquireConnection_def split: if_splits)
  qed
  moreover have "bytes_ok ?w" using b c unfolding bytes_ok_def w by (simp add: startConnection_def)
  ultimately show ?thesis by (simp add: conn_ok_def)
qed

lemma accept_ok:
  assumes "conn_ok w"
  shows "conn_ok (snd (accept now opts w))"
proof (cases "fst (tryAcquireConnection (cw_limiter w))")
  case True
  with assms show ?thesis using conn_ok_same_core [OF accept_core_same(1) accept_core_ok] by blast
next
  case False
  then have "tryAcquireConnection (cw_limiter w) =
      (False, (cw_limiter w)\<lparr>rl_rejectedConnections := rl_rejectedConnections (cw_limiter w) + 1\<rparr>)"
    by (simp add: tryAcquireConnection_def split: if_splits)
  then have a: "snd (accept now opts w) = on_stats rejectConnection (w\<lparr>cw_limiter := (cw_limiter w)\<lparr>rl_rejectedConnections := rl_rejectedConnections (cw_limiter w) + 1\<rparr>\<rparr>)"
    by (simp add: accept_def Let_def)
  show ?thesis unfolding a
    by (rule conn_ok_fields [OF assms]) (use assms in \<open>simp_all add: conn_ok_def counters_ok_def rejectConnection_def\<close>)
qed

subsection \<open>Traffic and timers\<close>

lemma conn_ok_conn:
  assumes "conn_ok w" "k < length (cw_conns w)" "mc_id (f (cw_conns w ! k)) = mc_id (cw_conns w ! k)"
    "mc_timer (f (cw_conns w ! k)) = mc_timer (cw_conns w ! k)" "is_open (f (cw_conns w ! k)) = is_open (cw_conns w ! k)"
    "mc_state (f (cw_conns w ! k)) \<noteq> CClosing" "cw_timers w' = cw_timers w" "cw_leak w' = cw_leak w" "cw_registered w' = cw_registered w"
    "cw_connections w' = cw_connections w" "cw_nextId w' = cw_nextId w" "cw_limiter w' = cw_limiter w"
    "cw_conns w' = (cw_conns w)[k := f (cw_conns w ! k)]"
    "counters_ok (w\<lparr>cw_stats := cw_stats w'\<rparr>)" "bytes_ok w'"
  shows "conn_ok w'"
proof -
  let ?c = "f (cw_conns w ! k)"
  have refs: "open_refs (cw_conns w') = open_refs (cw_conns w)" unfolding assms(13) using assms(5) by (rule open_refs_same)
  have len: "length (cw_conns w') = length (cw_conns w)" by (simp add: assms(13))
  have at: "cw_conns w' ! j = (if j = k then ?c else cw_conns w ! j)" for j using assms(2) by (simp add: assms(13))
  from assms(1) have t: "timers_ok w" and tab: "table_ok w" by (simp_all add: conn_ok_def)
  have "timers_ok w'" using t assms(2,4,5) unfolding timers_ok_def refs len assms(7-9) by (simp add: at)
  moreover have "table_ok w'" using tab assms(2,3,6) unfolding table_ok_def refs len assms(10,11) by (simp add: at)
  moreover have "counters_ok w'" using assms(14) unfolding counters_ok_def len assms(10,12) by simp
  ultimately show ?thesis using assms(15) by (simp add: conn_ok_def)
qed

lemma markEstablished_ok:
  assumes "conn_ok w" "k < length (cw_conns w)"
  shows "conn_ok (markEstablished now k w)"
proof (cases "mc_state (cw_conns w ! k) = CHandshake")
  case True
  let ?f = "\<lambda>c. c\<lparr>mc_state := CEstablished\<rparr>"
  have "mc_timer (cw_conns w ! k) = k" using assms by (simp add: conn_ok_def timers_ok_def)
  moreover have "conn_ok (on_conn k ?f w)"
    by (rule conn_ok_conn [where f = ?f, OF assms]) (use assms True in \<open>simp_all add: is_open_def conn_ok_def counters_ok_def bytes_ok_def map_update_same\<close>)
  moreover have "is_open (cw_conns (on_conn k ?f w) ! k)" using assms(2) by (simp add: is_open_def)
  ultimately show ?thesis using True assms(2) refresh_ok(1) [of "on_conn k ?f w" k] by (simp add: markEstablished_def Let_def)
qed (use assms in \<open>simp add: markEstablished_def\<close>)

lemma conn_touch_ok: "conn_ok w \<Longrightarrow> k < length (cw_conns w) \<Longrightarrow> conn_ok (conn_touch now k w)"
proof -
  assume w: "conn_ok w" "k < length (cw_conns w)"
  then have "mc_timer (cw_conns w ! k) = k" by (simp add: conn_ok_def timers_ok_def)
  with w refresh_ok(1) [of w k] show ?thesis by (simp add: conn_touch_def is_open_def Let_def)
qed

lemma sum_list_bump: "k < length xs \<Longrightarrow> f y = f (xs ! k) + n \<Longrightarrow> sum_list (map f (xs[k := y])) = sum_list (map f xs) + (n :: nat)"
  by (induction xs arbitrary: k) (auto simp: nth_Cons split: nat.splits)

lemma addBytes_ok:
  assumes "conn_ok w" "k < length (cw_conns w)"
  shows "conn_ok (addUploadBytes now k n w)" "conn_ok (addDownloadBytes now k n w)"
proof -
  let ?u = "\<lambda>c. c\<lparr>mc_bytesUpload := mc_bytesUpload c + n\<rparr>" and ?d = "\<lambda>c. c\<lparr>mc_bytesDownload := mc_bytesDownload c + n\<rparr>"
  have state: "mc_state (cw_conns w ! k) \<noteq> CClosing" using assms by (simp add: conn_ok_def table_ok_def)
  have "conn_ok (on_stats (addClientToRemoteBytes n) (on_conn k ?u w))"
    by (rule conn_ok_conn [where f = ?u, OF assms])
      (use assms state in \<open>simp_all add: is_open_def conn_ok_def counters_ok_def bytes_ok_def addClientToRemoteBytes_def map_update_same sum_list_bump\<close>)
  then show "conn_ok (addUploadBytes now k n w)" using assms(2) by (simp add: addUploadBytes_def conn_touch_ok)
  have "conn_ok (on_stats (addRemoteToClientBytes n) (on_conn k ?d w))"
    by (rule conn_ok_conn [where f = ?d, OF assms])
      (use assms state in \<open>simp_all add: is_open_def conn_ok_def counters_ok_def bytes_ok_def addRemoteToClientBytes_def map_update_same sum_list_bump\<close>)
  then show "conn_ok (addDownloadBytes now k n w)" using assms(2) by (simp add: addDownloadBytes_def conn_touch_ok)
qed

lemma timer_clear_twice: "timer_clear (fst (timer_clear t d)) (snd (timer_clear t d)) = timer_clear t d"
  by (simp add: timer_clear_def split: option.splits)

lemma clear_then_close:
  assumes "k < length (cw_timers w)" "mc_timer (cw_conns w ! k) = k"
  shows "conn_close now k failed reason (on_timer k timer_clear w) = conn_close now k failed reason w \<or> \<not> is_open (cw_conns w ! k)"
proof -
  have "clearManaged k (on_conn k f (on_timer k timer_clear w)) = clearManaged k (on_conn k f w)" for f
    using assms(1) timer_clear_twice [of "cw_timers w ! k" "cw_leak w"]
    by (simp add: clearManaged_def on_timer_def on_conn_def split_beta Let_def)
  then show ?thesis using assms(2) by (cases "is_open (cw_conns w ! k)") (simp_all add: conn_close_open close_middle_def Let_def)
qed

lemma timerFires_ok:
  assumes "conn_ok w" "k < length (cw_timers w)"
  shows "conn_ok (timerFires now k w)"
proof -
  from assms have k: "k < length (cw_conns w)" and eqs: "mc_timer (cw_conns w ! k) = k" "mt_connection (cw_timers w ! k) = k"
    "mt_armed (cw_timers w ! k) \<noteq> None \<longleftrightarrow> is_open (cw_conns w ! k)" by (auto simp: conn_ok_def timers_ok_def)
  show ?thesis
  proof (cases "mt_armed (cw_timers w ! k)")
    case None
    with assms show ?thesis by (simp add: timerFires_def)
  next
    case (Some a)
    with eqs(3) clear_then_close [OF assms(2) eqs(1)] conn_close_ok [OF assms(1) k] assms(1) eqs(2) show ?thesis
      by (auto simp: timerFires_def split: prod.splits)
  qed
qed

subsection \<open>Sockets\<close>

text \<open>Closing a connection, part by part.\<close>

lemma runSocketCleanup_fields [simp]:
  "cw_conns (runSocketCleanup a w) = cw_conns w" "length (cw_sockets (runSocketCleanup a w)) = length (cw_sockets w)"
  "cw_conns (fold runSocketCleanup as w) = cw_conns w" "length (cw_sockets (fold runSocketCleanup as w)) = length (cw_sockets w)"
proof -
  show one: "cw_conns (runSocketCleanup a w) = cw_conns w" "length (cw_sockets (runSocketCleanup a w)) = length (cw_sockets w)" for a w
    by (cases a; simp)+
  show "cw_conns (fold runSocketCleanup as w) = cw_conns w" "length (cw_sockets (fold runSocketCleanup as w)) = length (cw_sockets w)"
    by (induction as arbitrary: w) (simp_all add: one)
qed

lemma closeOptional_fields [simp]:
  "cw_conns (closeOptional s w) = cw_conns w" "length (cw_sockets (closeOptional s w)) = length (cw_sockets w)"
  by (simp_all add: closeOptional_def split: option.splits)

lemma finalize_fields [simp]:
  "cw_conns (finalizeConnection now k failed w) = cw_conns w" "cw_sockets (finalizeConnection now k failed w) = cw_sockets w"
  by (simp_all add: finalizeConnection_def Let_def)

lemma conn_close_conns:
  "is_open (cw_conns w ! k) \<Longrightarrow> cw_conns (conn_close now k failed reason w) =
     (cw_conns w)[k := (cw_conns w ! k)\<lparr>mc_closeReason := Some reason, mc_socketCleanups := [], mc_state := CClosed\<rparr>]"
  by (cases "k < length (cw_conns w)") (simp_all add: conn_close_open close_middle_def Let_def list_update_beyond)

lemma conn_close_lengths [simp]:
  "length (cw_conns (conn_close now k failed reason w)) = length (cw_conns w)"
  "length (cw_sockets (conn_close now k failed reason w)) = length (cw_sockets w)"
  by (cases "is_open (cw_conns w ! k)"; simp add: conn_close_closed conn_close_open close_middle_def Let_def)+

text \<open>What cleaning up and closing do to a socket: listeners go, it may be destroyed, nothing is added.\<close>

definition socket_less :: "socket_state \<Rightarrow> socket_state \<Rightarrow> bool" where
  "socket_less a b \<longleftrightarrow> set (sk_listeners b) \<subseteq> set (sk_listeners a) \<and> (sk_destroyed a \<longrightarrow> sk_destroyed b) \<and>
     sk_closeEmitted b = sk_closeEmitted a"

definition sockets_less :: "conn_world \<Rightarrow> conn_world \<Rightarrow> bool" where
  "sockets_less w w' \<longleftrightarrow> list_all2 socket_less (cw_sockets w) (cw_sockets w')"

lemma socket_less_refl [simp]: "socket_less a a"
  by (simp add: socket_less_def)

lemma sockets_less_trans: "sockets_less w1 w2 \<Longrightarrow> sockets_less w2 w3 \<Longrightarrow> sockets_less w1 w3"
  unfolding sockets_less_def by (rule list_all2_trans) (auto simp: socket_less_def)

lemma sockets_less_same: "cw_sockets w' = cw_sockets w \<Longrightarrow> sockets_less w w'"
  by (simp add: sockets_less_def list_all2_refl)

lemma sockets_less_on: "(\<And>a. socket_less a (f a)) \<Longrightarrow> sockets_less w (on_socket s f w)"
  unfolding sockets_less_def list_all2_conv_all_nth
proof (intro conjI allI impI)
  fix i
  assume less: "\<And>a. socket_less a (f a)" and "i < length (cw_sockets w)"
  then show "socket_less (cw_sockets w ! i) (cw_sockets (on_socket s f w) ! i)" by (cases "i = s") simp_all
qed simp

lemma removeListener_less: "socket_less a (removeListener l a)"
  by (simp add: socket_less_def removeListener_def set_remove1_subset)

lemma closeSocket_less: "socket_less a (closeSocket a)"
  by (simp add: socket_less_def closeSocket_def)

lemma cleanup_less: "sockets_less w (runSocketCleanup a w)"
proof (cases a)
  case (Untrack s key e)
  have "sockets_less (w\<lparr>cw_leak := l\<rparr>) (on_socket s f (w\<lparr>cw_leak := l\<rparr>)) \<Longrightarrow> sockets_less w (on_socket s f (w\<lparr>cw_leak := l\<rparr>))" for f l
    by (simp add: sockets_less_def)
  with Untrack show ?thesis by (simp add: sockets_less_on removeListener_less)
qed (simp add: sockets_less_on removeListener_less)

lemma cleanups_less: "sockets_less w (fold runSocketCleanup as w)"
  by (induction as arbitrary: w) (auto intro: sockets_less_trans cleanup_less sockets_less_same)

lemma closeOptional_less: "sockets_less w (closeOptional s w)"
  by (cases s) (simp_all add: closeOptional_def sockets_less_same sockets_less_on closeSocket_less)

lemma conn_close_less: "sockets_less w (conn_close now k failed reason w)"
proof (cases "is_open (cw_conns w ! k)")
  case True
  have same: "sockets_less w1 w2 \<Longrightarrow> cw_sockets w1 = cw_sockets w \<Longrightarrow> sockets_less w w2" for w1 w2 by (simp add: sockets_less_def)
  let ?c = "cw_conns w ! k"
  let ?w2 = "on_conn k (\<lambda>c. c\<lparr>mc_socketCleanups := []\<rparr>) (clearManaged (mc_timer ?c) (on_conn k (\<lambda>c. c\<lparr>mc_state := CClosing, mc_closeReason := Some reason\<rparr>) w))"
  have "sockets_less ?w2 (close_middle k reason w)" unfolding close_middle_def Let_def
    by (intro sockets_less_trans [OF sockets_less_trans [OF cleanups_less closeOptional_less] closeOptional_less])
  then have "sockets_less w (close_middle k reason w)" by (rule same) simp
  then show ?thesis unfolding conn_close_open [OF True] by (simp add: sockets_less_def)
qed (simp add: conn_close_closed sockets_less_same)

subsection \<open>References\<close>

definition refs_ok :: "conn_world \<Rightarrow> bool" where
  "refs_ok w \<longleftrightarrow> (\<forall>sk \<in> set (cw_sockets w). \<forall>k r. CloseOwner k r \<in> set (sk_listeners sk) \<longrightarrow> k < length (cw_conns w)) \<and>
     (\<forall>c \<in> set (cw_conns w). \<forall>s. mc_clientSocket c = Some s \<or> mc_remoteSocket c = Some s \<longrightarrow> s < length (cw_sockets w))"

text \<open>Nobody new refers to a socket, and nobody who was closed is open again.\<close>

definition conn_less :: "managed_connection \<Rightarrow> managed_connection \<Rightarrow> bool" where
  "conn_less c c' \<longleftrightarrow> mc_clientSocket c' = mc_clientSocket c \<and> mc_remoteSocket c' = mc_remoteSocket c \<and> (is_open c' \<longrightarrow> is_open c)"

lemma conn_less_refl [simp]: "conn_less c c"
  by (simp add: conn_less_def)

definition keeps_refs :: "conn_world \<Rightarrow> conn_world \<Rightarrow> bool" where
  "keeps_refs w w' \<longleftrightarrow> sockets_less w w' \<and> list_all2 conn_less (cw_conns w) (cw_conns w')"

lemma keeps_refs_refl [simp]: "keeps_refs w w"
  by (simp add: keeps_refs_def sockets_less_same list_all2_refl)

lemma keeps_refs_trans:
  assumes "keeps_refs w1 w2" "keeps_refs w2 w3"
  shows "keeps_refs w1 w3"
proof -
  have "list_all2 conn_less (cw_conns w1) (cw_conns w3)"
    using assms list_all2_trans [of conn_less conn_less conn_less] unfolding keeps_refs_def by (auto simp: conn_less_def)
  then show ?thesis using assms sockets_less_trans by (simp add: keeps_refs_def) blast
qed

lemma keeps_refs_same: "cw_sockets w' = cw_sockets w \<Longrightarrow> cw_conns w' = cw_conns w \<Longrightarrow> keeps_refs w w'"
  by (simp add: keeps_refs_def sockets_less_same list_all2_refl)

lemma keeps_refs_less: "sockets_less w w' \<Longrightarrow> cw_conns w' = cw_conns w \<Longrightarrow> keeps_refs w w'"
  by (simp add: keeps_refs_def list_all2_refl)

lemma keeps_refs_conn:
  assumes "conn_less (cw_conns w ! k) c'" "sockets_less w w'" "cw_conns w' = (cw_conns w)[k := c']"
  shows "keeps_refs w w'"
proof -
  have "conn_less (cw_conns w ! i) ((cw_conns w)[k := c'] ! i)" if "i < length (cw_conns w)" for i
    using assms(1) that by (cases "i = k") simp_all
  then show ?thesis using assms(2,3) by (simp add: keeps_refs_def list_all2_conv_all_nth)
qed

lemma keeps_refs_lengths: "keeps_refs w w' \<Longrightarrow> length (cw_conns w') = length (cw_conns w) \<and> length (cw_sockets w') = length (cw_sockets w)"
  by (auto simp: keeps_refs_def sockets_less_def dest: list_all2_lengthD)

lemma refs_ok_keeps:
  assumes "keeps_refs w w'" "refs_ok w"
  shows "refs_ok w'"
proof -
  note len = keeps_refs_lengths [OF assms(1)]
  show ?thesis
    unfolding refs_ok_def
  proof (intro conjI ballI allI impI)
    fix sk k r
    assume "sk \<in> set (cw_sockets w')" "CloseOwner k r \<in> set (sk_listeners sk)"
    then obtain i where i: "i < length (cw_sockets w')" "sk = cw_sockets w' ! i" by (metis in_set_conv_nth)
    with assms(1) have "socket_less (cw_sockets w ! i) sk" by (simp add: keeps_refs_def sockets_less_def list_all2_conv_all_nth)
    with \<open>CloseOwner k r \<in> set (sk_listeners sk)\<close> have "CloseOwner k r \<in> set (sk_listeners (cw_sockets w ! i))" by (auto simp: socket_less_def)
    with assms(2) i len show "k < length (cw_conns w')" unfolding refs_ok_def by (metis nth_mem)
  next
    fix c s
    assume "c \<in> set (cw_conns w')" and s: "mc_clientSocket c = Some s \<or> mc_remoteSocket c = Some s"
    then obtain i where i: "i < length (cw_conns w')" "c = cw_conns w' ! i" by (metis in_set_conv_nth)
    with assms(1) s have "mc_clientSocket (cw_conns w ! i) = Some s \<or> mc_remoteSocket (cw_conns w ! i) = Some s"
      by (auto simp: keeps_refs_def list_all2_conv_all_nth conn_less_def)
    with assms(2) i len show "s < length (cw_sockets w')" unfolding refs_ok_def by (metis nth_mem)
  qed
qed

lemma conn_close_keeps: "keeps_refs w (conn_close now k failed reason w)"
proof (cases "is_open (cw_conns w ! k)")
  case True
  then show ?thesis using conn_close_less conn_close_conns [OF True]
    by (intro keeps_refs_conn [where k = k]) (simp_all add: conn_less_def is_open_def)
qed (simp add: conn_close_closed)

lemma on_timer_keeps [simp]: "keeps_refs w (on_timer t f w)"
  by (rule keeps_refs_same) simp_all

lemma touch_keeps: "keeps_refs w (conn_touch now k w)"
  by (rule keeps_refs_same) (simp_all add: conn_touch_def Let_def)

lemma closes_ok:
  assumes "conn_ok w" "refs_ok w" "\<forall>k \<in> set ks. k < length (cw_conns w)"
  shows "conn_ok (fold (\<lambda>k. conn_close now k failed reason) ks w) \<and> keeps_refs w (fold (\<lambda>k. conn_close now k failed reason) ks w)"
  using assms
proof (induction ks arbitrary: w)
  case (Cons k ks)
  let ?w = "conn_close now k failed reason w"
  have "conn_ok ?w" "refs_ok ?w" "\<forall>k \<in> set ks. k < length (cw_conns ?w)"
    using Cons.prems conn_close_ok refs_ok_keeps [OF conn_close_keeps] by auto
  from Cons.IH [OF this] show ?case using keeps_refs_trans [OF conn_close_keeps] by auto
qed simp

lemma closeAll_ok:
  assumes "conn_ok w" "refs_ok w"
  shows "conn_ok (closeAll now reason w)" "keeps_refs w (closeAll now reason w)"
proof -
  have "\<forall>k \<in> set (jm_vals (cw_connections w)). k < length (cw_conns w)"
    using assms(1) by (auto simp: conn_ok_def table_ok_def jm_vals_def in_open_refs)
  from closes_ok [OF assms this] show "conn_ok (closeAll now reason w)" "keeps_refs w (closeAll now reason w)" by (simp_all add: closeAll_def)
qed

lemma closeConnection_ok:
  assumes "conn_ok w"
  shows "conn_ok (snd (closeConnection now cid reason w))" "keeps_refs w (snd (closeConnection now cid reason w))"
proof -
  have "k < length (cw_conns w)" if "jm_get (cw_connections w) cid = Some k" for k
    using jm_get_Some_in [OF that] assms by (auto simp: conn_ok_def table_ok_def in_open_refs)
  then show "conn_ok (snd (closeConnection now cid reason w))" "keeps_refs w (snd (closeConnection now cid reason w))"
    using assms by (auto simp: closeConnection_def conn_close_ok conn_close_keeps split: option.splits)
qed

lemma listeners_ok:
  assumes "conn_ok w" "refs_ok w" "\<forall>k r. CloseOwner k r \<in> set ls \<longrightarrow> k < length (cw_conns w)"
  shows "conn_ok (fold (runCloseListener now s) ls w) \<and> keeps_refs w (fold (runCloseListener now s) ls w)"
  using assms
proof (induction ls arbitrary: w)
  case (Cons l ls)
  let ?w = "runCloseListener now s l w"
  have step: "conn_ok ?w \<and> keeps_refs w ?w"
  proof (cases l)
    case (LeakCleanup key e)
    with Cons.prems(1) conn_ok_same_core [OF same_core_cleanup] cleanup_less [of w "Untrack s key e"] show ?thesis
      by (auto intro!: keeps_refs_less simp del: runSocketCleanup.simps)
  next
    case (CloseOwner k r)
    with Cons.prems conn_close_ok conn_close_keeps show ?thesis by auto
  qed
  then have "refs_ok ?w" "\<forall>k r. CloseOwner k r \<in> set ls \<longrightarrow> k < length (cw_conns ?w)"
    using Cons.prems refs_ok_keeps keeps_refs_lengths by auto
  with Cons.IH [of ?w] step show ?case using keeps_refs_trans by auto
qed simp

subsection \<open>Every event\<close>

lemma attachSocket_fields [simp]:
  "length (cw_conns (attachSocket k s l r w)) = length (cw_conns w)" "length (cw_sockets (attachSocket k s l r w)) = length (cw_sockets w)"
  by (simp_all add: attachSocket_def split_beta Let_def)

lemma attachSocket_refs:
  assumes "refs_ok w" "k < length (cw_conns w)"
  shows "refs_ok (attachSocket k s label reason w)"
proof -
  have "\<exists>a e cs. cw_sockets (attachSocket k s label reason w) =
      (cw_sockets w)[s := once_close (CloseOwner k reason) (once_close (LeakCleanup a e) (cw_sockets w ! s))] \<and>
      cw_conns (attachSocket k s label reason w) = (cw_conns w)[k := (cw_conns w ! k)\<lparr>mc_socketCleanups := cs\<rparr>]"
    by (cases "s < length (cw_sockets w)") (auto simp: attachSocket_def split_beta Let_def list_update_beyond)
  then obtain a e cs where at: "cw_sockets (attachSocket k s label reason w) =
      (cw_sockets w)[s := once_close (CloseOwner k reason) (once_close (LeakCleanup a e) (cw_sockets w ! s))]"
    "cw_conns (attachSocket k s label reason w) = (cw_conns w)[k := (cw_conns w ! k)\<lparr>mc_socketCleanups := cs\<rparr>]" by blast
  have "j < length (cw_conns w)" if "sk \<in> set (cw_sockets (attachSocket k s label reason w))" "CloseOwner j r \<in> set (sk_listeners sk)" for sk j r
  proof -
    from that(1) obtain i where i: "i < length (cw_sockets w)" "sk = cw_sockets (attachSocket k s label reason w) ! i"
      by (metis attachSocket_fields(2) in_set_conv_nth)
    with that(2) have "CloseOwner j r \<in> set (sk_listeners (cw_sockets w ! i)) \<or> j = k"
      by (cases "i = s") (auto simp: at(1) once_close_def)
    with assms i(1) show ?thesis unfolding refs_ok_def by (metis nth_mem)
  qed
  moreover have "x < length (cw_sockets w)"
    if "c \<in> set (cw_conns (attachSocket k s label reason w))" "mc_clientSocket c = Some x \<or> mc_remoteSocket c = Some x" for c x
  proof -
    from that(1) obtain i where i: "i < length (cw_conns w)" "c = cw_conns (attachSocket k s label reason w) ! i"
      by (metis attachSocket_fields(1) in_set_conv_nth)
    with that(2) have "mc_clientSocket (cw_conns w ! i) = Some x \<or> mc_remoteSocket (cw_conns w ! i) = Some x"
      by (cases "i = k") (auto simp: at(2))
    with assms(1) i(1) show ?thesis unfolding refs_ok_def by (metis nth_mem)
  qed
  ultimately show ?thesis unfolding refs_ok_def by simp
qed

lemma addSocket_fields [simp]:
  "cw_conns (addSocket w) = cw_conns w" "cw_sockets (addSocket w) = cw_sockets w @ [newSocket]" "cw_limiter (addSocket w) = cw_limiter w"
  by (simp_all add: addSocket_def)

lemma addSocket_refs: "refs_ok w \<Longrightarrow> refs_ok (addSocket w)"
  unfolding refs_ok_def by (auto simp: newSocket_def) (metis less_SucI)+

lemma accept_refs:
  assumes "refs_ok w" "co_clientSocket opts < length (cw_sockets w)"
  shows "refs_ok (snd (accept now opts w))"
proof (cases "fst (tryAcquireConnection (cw_limiter w))")
  case False
  then have "keeps_refs w (snd (accept now opts w))" by (intro keeps_refs_same) (simp_all add: accept_def split_beta Let_def)
  with assms(1) show ?thesis by (rule refs_ok_keeps [rotated])
next
  case True
  let ?l = "snd (tryAcquireConnection (cw_limiter w))"
  obtain t w1 where c: "createTimeout now (handshakeLabel (show_nat (cw_nextId w))) (co_handshakeTimeoutMs opts) (length (cw_conns w)) (w\<lparr>cw_limiter := ?l\<rparr>) = (t, w1)"
    by (metis prod.exhaust)
  then have w1: "cw_conns w1 = cw_conns w" "cw_sockets w1 = cw_sockets w" by (auto simp: createTimeout_def split_beta Let_def)
  have "fst (newManagedConnection now (show_nat (cw_nextId w)) opts (w\<lparr>cw_limiter := ?l\<rparr>)) = length (cw_conns w)"
    by (simp add: newManagedConnection_def split_beta Let_def)
  then obtain w2 where n: "newManagedConnection now (show_nat (cw_nextId w)) opts (w\<lparr>cw_limiter := ?l\<rparr>) = (length (cw_conns w), w2)"
    by (metis prod.collapse)
  have "t = length (cw_timers w)" using c by (auto simp: createTimeout_def split_beta Let_def)
  with n c have "w2 = attachSocket (length (cw_conns w)) (co_clientSocket opts) (show_nat (cw_nextId w) @ '':client'') ''client socket closed''
      (w1\<lparr>cw_conns := cw_conns w1 @ [fresh_conn now opts w]\<rparr>)"
    by (simp add: newManagedConnection_def Let_def fresh_conn_def)
  moreover have "refs_ok (w1\<lparr>cw_conns := cw_conns w1 @ [fresh_conn now opts w]\<rparr>)"
    using assms unfolding refs_ok_def by (auto simp: w1 fresh_conn_def) (metis less_SucI)
  ultimately have "refs_ok w2" by (auto intro!: attachSocket_refs simp: w1)
  moreover have "keeps_refs w2 (snd (accept now opts w))"
    using True n by (intro keeps_refs_same) (simp_all add: accept_def split_beta Let_def)
  ultimately show ?thesis using refs_ok_keeps by blast
qed

lemma remote_refs:
  assumes "refs_ok w" "k < length (cw_conns w)" "s < length (cw_sockets w)"
  shows "refs_ok (attachRemoteSocket k s w)"
proof -
  have "refs_ok (on_conn k (\<lambda>c. c\<lparr>mc_remoteSocket := Some s\<rparr>) w)"
    using assms unfolding refs_ok_def by (auto dest!: set_update_subset_insert [THEN subsetD]) (metis nth_mem)
  with assms(2) show ?thesis by (simp add: attachRemoteSocket_def Let_def attachSocket_refs)
qed

lemma socketClosed_ok:
  assumes "conn_ok w" "refs_ok w" "s < length (cw_sockets w)"
  shows "conn_ok (socketClosed now s w)" "refs_ok (socketClosed now s w)"
proof -
  let ?w = "on_socket s (\<lambda>sk. sk\<lparr>sk_destroyed := True, sk_closeEmitted := True, sk_listeners := []\<rparr>) w"
  have ok: "conn_ok ?w" using assms(1) conn_ok_same_core [OF same_core_socket] by blast
  have refs: "refs_ok ?w"
    using assms(2) unfolding refs_ok_def by (auto dest!: set_update_subset_insert [THEN subsetD])
  have "\<forall>k r. CloseOwner k r \<in> set (sk_listeners (cw_sockets w ! s)) \<longrightarrow> k < length (cw_conns ?w)"
    using assms(2,3) unfolding refs_ok_def by (metis nth_mem on_socket_fields(4))
  from listeners_ok [OF ok refs this, of now s] refs_ok_keeps [OF _ refs] assms
  show "conn_ok (socketClosed now s w)" "refs_ok (socketClosed now s w)" by (auto simp: socketClosed_def Let_def)
qed

lemma timerFires_keeps: "keeps_refs w (timerFires now t w)"
  by (auto simp: timerFires_def split: option.splits intro: keeps_refs_trans [OF on_timer_keeps conn_close_keeps])

lemma markEstablished_keeps: "keeps_refs w (markEstablished now k w)"
proof (cases "mc_state (cw_conns w ! k) = CHandshake")
  case True
  then show ?thesis
    by (intro keeps_refs_conn [where k = k]) (simp_all add: markEstablished_def Let_def conn_less_def is_open_def sockets_less_same)
qed (simp add: markEstablished_def)

lemma addBytes_keeps: "keeps_refs w (addUploadBytes now k n w)" "keeps_refs w (addDownloadBytes now k n w)"
  unfolding addUploadBytes_def addDownloadBytes_def
  by (rule keeps_refs_trans [OF keeps_refs_conn [where k = k] touch_keeps], simp_all add: conn_less_def is_open_def sockets_less_same)+

lemma conn_step_ok:
  assumes "conn_ok w" "refs_ok w"
  shows "conn_ok (conn_step now e w) \<and> refs_ok (conn_step now e w)"
proof (cases e)
  case (ClientArrives opts)
  have "conn_ok (addSocket w)" using assms(1) conn_ok_same_core by force
  then show ?thesis using ClientArrives accept_ok accept_refs addSocket_refs assms(2) by auto
next
  case (RemoteConnected k)
  have "conn_ok (addSocket w)" using assms(1) conn_ok_same_core by force
  then show ?thesis using RemoteConnected assms conn_ok_same_core [OF same_core_attachRemote] remote_refs addSocket_refs by auto
next
  case (DestinationKnown k d)
  have "keeps_refs w (setDestination k d w)"
    by (rule keeps_refs_conn [where k = k]) (simp_all add: setDestination_def conn_less_def is_open_def sockets_less_same)
  then show ?thesis using DestinationKnown assms conn_ok_same_core [OF same_core_destination] refs_ok_keeps by auto
next
  case (HandshakeDone k)
  then show ?thesis using HandshakeDone assms markEstablished_ok refs_ok_keeps [OF markEstablished_keeps] by auto
next
  case (Uploaded k n)
  then show ?thesis using Uploaded assms addBytes_ok refs_ok_keeps [OF addBytes_keeps(1)] by auto
next
  case (Downloaded k n)
  then show ?thesis using Downloaded assms addBytes_ok refs_ok_keeps [OF addBytes_keeps(2)] by auto
next
  case (HandlerCloses k failed reason)
  then show ?thesis using assms conn_close_ok refs_ok_keeps [OF conn_close_keeps] by auto
next
  case (CloseCommand cid reason)
  then show ?thesis using closeConnection_ok [OF assms(1)] refs_ok_keeps [OF closeConnection_ok(2) assms(2)] assms by simp
next
  case (CloseAllCommand reason)
  then show ?thesis using closeAll_ok [OF assms] refs_ok_keeps [OF closeAll_ok(2) [OF assms] assms(2)] by simp
next
  case (TimerDue t)
  then show ?thesis using assms timerFires_ok refs_ok_keeps [OF timerFires_keeps] by auto
next
  case (SocketCloses s)
  then show ?thesis using assms socketClosed_ok by auto
qed

lemma new_manager_ok: "conn_ok (newConnectionManager limit now)" "refs_ok (newConnectionManager limit now)"
  by (simp_all add: newConnectionManager_def conn_ok_def timers_ok_def table_ok_def counters_ok_def bytes_ok_def refs_ok_def
      leak_ok_def open_refs_def newLeakDetector_def newResourceLimiter_def newStatsTracker_def jm_has_def)

lemma conn_run_ok: "conn_ok w \<Longrightarrow> refs_ok w \<Longrightarrow> conn_ok (conn_run es w) \<and> refs_ok (conn_run es w)"
  unfolding conn_run_def by (induction es arbitrary: w) (auto simp: conn_step_ok simp del: conn_step.simps)

lemmas reachable_ok = conn_run_ok [OF new_manager_ok]

end
