(* ===== verification/ConnProofs.thy ===== *)
theory ConnProofs
  imports ConnInv
begin

text \<open>
  What the bookkeeping of connections guarantees after any history of events: every counter, table and
  timer agrees with the connections that are open; what becomes of a socket that is attached to a
  closed connection; when the timer of a connection closes it.
\<close>

section \<open>Properties\<close>

lemma limit_cleanup: "cw_limiter (runSocketCleanup a w) = cw_limiter w"
  by (cases a) simp_all

lemma limit_cleanups: "cw_limiter (fold runSocketCleanup as w) = cw_limiter w"
  by (induction as arbitrary: w) (simp_all add: limit_cleanup)

lemma limit_close: "rl_maxConnections (cw_limiter (conn_close now k failed reason w)) = rl_maxConnections (cw_limiter w)"
proof -
  have "cw_limiter (closeOptional s w) = cw_limiter w" for s w by (simp add: closeOptional_def split: option.splits)
  then have "cw_limiter (close_middle k reason w) = cw_limiter w" by (simp add: close_middle_def Let_def limit_cleanups)
  moreover have "rl_maxConnections (cw_limiter (finalizeConnection now k failed w)) = rl_maxConnections (cw_limiter w)" for w
    by (simp add: finalizeConnection_def releaseConnection_def Let_def)
  ultimately show ?thesis by (cases "is_open (cw_conns w ! k)") (simp_all add: conn_close_open conn_close_closed)
qed

lemma limit_closes: "rl_maxConnections (cw_limiter (fold (\<lambda>k. conn_close now k failed reason) ks w)) = rl_maxConnections (cw_limiter w)"
  by (induction ks arbitrary: w) (simp_all add: limit_close)

lemma limit_listeners: "rl_maxConnections (cw_limiter (fold (runCloseListener now s) ls w)) = rl_maxConnections (cw_limiter w)"
proof (induction ls arbitrary: w)
  case (Cons l ls)
  have "rl_maxConnections (cw_limiter (runCloseListener now s l w)) = rl_maxConnections (cw_limiter w)"
    by (cases l) (simp_all add: limit_close)
  with Cons.IH show ?case by simp
qed simp

lemma limit_attach: "cw_limiter (attachSocket k s label reason w) = cw_limiter w"
  using same_core_attach unfolding same_core_def by blast

lemma limit_accept: "rl_maxConnections (cw_limiter (snd (accept now opts w))) = rl_maxConnections (cw_limiter w)"
  by (simp add: accept_def newManagedConnection_def createTimeout_def limit_attach tryAcquireConnection_def split_beta Let_def)

lemma limit_step: "rl_maxConnections (cw_limiter (conn_step now e w)) = rl_maxConnections (cw_limiter w)"
proof (cases e)
  case (RemoteConnected k)
  then show ?thesis using same_core_attachRemote [of "addSocket w" k "length (cw_sockets w)"] by (simp add: same_core_def)
next
  case (TimerDue t)
  then show ?thesis by (simp add: timerFires_def limit_close split: option.splits)
qed (simp_all add: limit_accept setDestination_def markEstablished_def addUploadBytes_def addDownloadBytes_def conn_touch_def
    limit_close closeConnection_def closeAll_def limit_closes socketClosed_def limit_listeners Let_def split: option.splits)

lemma limit_run: "rl_maxConnections (cw_limiter (conn_run es w)) = rl_maxConnections (cw_limiter w)"
  unfolding conn_run_def by (induction es arbitrary: w) (auto simp: limit_step simp del: conn_step.simps)

lemma leak_timers_count:
  assumes "conn_ok w"
  shows "length (ld_timers (cw_leak w)) = length (open_refs (cw_conns w))"
proof -
  let ?key = "\<lambda>k. snd (the (mt_armed (cw_timers w ! k)))" and ?ts = "cw_timers w"
  from assms have t: "timers_ok w" by (simp add: conn_ok_def)
  have armed: "k \<in> set (open_refs (cw_conns w)) \<longleftrightarrow> k < length ?ts \<and> mt_armed (?ts ! k) \<noteq> None" for k
    using t unfolding timers_ok_def in_open_refs by auto
  have leak: "leak_ok ?ts (cw_leak w)" using t by (simp add: timers_ok_def)
  have keys: "fst ` set (ld_timers (cw_leak w)) = ?key ` set (open_refs (cw_conns w))"
  proof (intro set_eqI iffI)
    fix x assume "x \<in> fst ` set (ld_timers (cw_leak w))"
    then obtain k due where "k < length ?ts" "mt_armed (?ts ! k) = Some (due, x)" using leak unfolding leak_ok_def jm_has_def by blast
    then show "x \<in> ?key ` set (open_refs (cw_conns w))" using armed by (auto intro!: image_eqI [of _ _ k])
  next
    fix x assume "x \<in> ?key ` set (open_refs (cw_conns w))"
    then obtain k where k: "k < length ?ts" "mt_armed (?ts ! k) \<noteq> None" "x = ?key k" using armed by blast
    then obtain due where "mt_armed (?ts ! k) = Some (due, x)" by auto
    with k leak show "x \<in> fst ` set (ld_timers (cw_leak w))" unfolding leak_ok_def jm_has_def by blast
  qed
  have inj: "inj_on ?key (set (open_refs (cw_conns w)))"
  proof (rule inj_onI)
    fix j k assume jk: "j \<in> set (open_refs (cw_conns w))" "k \<in> set (open_refs (cw_conns w))" "?key j = ?key k"
    then obtain a b key where "mt_armed (?ts ! j) = Some (a, key)" "mt_armed (?ts ! k) = Some (b, key)" using armed by auto
    with jk armed leak show "j = k" unfolding leak_ok_def by blast
  qed
  have "length (ld_timers (cw_leak w)) = card (fst ` set (ld_timers (cw_leak w)))"
    using leak by (metis distinct_card jm_ok_def leak_ok_def length_map set_map)
  also have "\<dots> = length (open_refs (cw_conns w))" unfolding keys by (simp add: card_image inj distinct_card)
  finally show ?thesis .
qed

lemma conn_books:
  fixes limit :: nat and t0 :: int and es :: "(int \<times> conn_event) list"
  defines "w \<equiv> conn_run es (newConnectionManager limit t0)"
  shows "cw_connections w = map (\<lambda>k. (mc_id (cw_conns w ! k), k)) (open_refs (cw_conns w)) \<and>
    rl_activeConnections (cw_limiter w) = length (open_refs (cw_conns w)) \<and> length (open_refs (cw_conns w)) \<le> limit \<and>
    st_activeConnections (cw_stats w) = length (open_refs (cw_conns w)) \<and> st_totalConnections (cw_stats w) = length (cw_conns w) \<and>
    st_closedConnections (cw_stats w) + length (open_refs (cw_conns w)) = length (cw_conns w) \<and>
    st_failedConnections (cw_stats w) \<le> st_closedConnections (cw_stats w) \<and>
    rl_rejectedConnections (cw_limiter w) = st_rejectedConnections (cw_stats w) \<and>
    cw_registered w = open_refs (cw_conns w) \<and> length (ld_timers (cw_leak w)) = length (open_refs (cw_conns w)) \<and>
    st_bytesClientToRemote (cw_stats w) = sum_list (map mc_bytesUpload (cw_conns w)) \<and>
    st_bytesRemoteToClient (cw_stats w) = sum_list (map mc_bytesDownload (cw_conns w))"
proof -
  have ok: "conn_ok w" unfolding w_def using reachable_ok by blast
  have limit: "rl_maxConnections (cw_limiter w) = limit"
    unfolding w_def limit_run by (simp add: newConnectionManager_def newResourceLimiter_def)
  have refs: "\<forall>k \<in> set (open_refs (cw_conns w)). mc_id (cw_conns w ! k) = show_nat (Suc k)"
    using ok by (auto simp: conn_ok_def table_ok_def in_open_refs)
  have table: "cw_connections w = map (\<lambda>k. (show_nat (Suc k), k)) (open_refs (cw_conns w))" using ok by (simp add: conn_ok_def table_ok_def)
  then have "length (cw_connections w) = length (open_refs (cw_conns w))" by simp
  moreover have "cw_connections w = map (\<lambda>k. (mc_id (cw_conns w ! k), k)) (open_refs (cw_conns w))" unfolding table using refs by simp
  ultimately show ?thesis using ok limit leak_timers_count [OF ok] unfolding conn_ok_def counters_ok_def timers_ok_def bytes_ok_def by simp
qed

text \<open>
  Property C18. After any history of clients, traffic, commands, timers and socket events, the books
  agree with the connections that are open: the table lists exactly those, oldest first; the limiter
  and the statistics count exactly those, never more than the limit; the timers registered with the
  timeout manager and those the leak detector sees are theirs, one each; every connection ever accepted
  is open or counted as closed, once; and the byte totals are the sums over all connections.
\<close>

theorem conn_bookkeeping:
  "let w = conn_run es (newConnectionManager limit t0) in
    cw_connections w = map (\<lambda>k. (mc_id (cw_conns w ! k), k)) (open_refs (cw_conns w)) \<and>
    rl_activeConnections (cw_limiter w) = length (open_refs (cw_conns w)) \<and> length (open_refs (cw_conns w)) \<le> limit \<and>
    st_activeConnections (cw_stats w) = length (open_refs (cw_conns w)) \<and> st_totalConnections (cw_stats w) = length (cw_conns w) \<and>
    st_closedConnections (cw_stats w) + length (open_refs (cw_conns w)) = length (cw_conns w) \<and>
    st_failedConnections (cw_stats w) \<le> st_closedConnections (cw_stats w) \<and>
    rl_rejectedConnections (cw_limiter w) = st_rejectedConnections (cw_stats w) \<and>
    cw_registered w = open_refs (cw_conns w) \<and> length (ld_timers (cw_leak w)) = length (open_refs (cw_conns w)) \<and>
    st_bytesClientToRemote (cw_stats w) = sum_list (map mc_bytesUpload (cw_conns w)) \<and>
    st_bytesRemoteToClient (cw_stats w) = sum_list (map mc_bytesDownload (cw_conns w))"
  unfolding Let_def by (rule conn_books)

subsection \<open>A remote socket that comes too late\<close>

definition abandoned :: "nat \<Rightarrow> conn_world \<Rightarrow> bool" where
  "abandoned s w \<longleftrightarrow> s < length (cw_sockets w) \<and> \<not> sk_destroyed (cw_sockets w ! s) \<and>
     (\<forall>c \<in> set (cw_conns w). is_open c \<longrightarrow> mc_clientSocket c \<noteq> Some s \<and> mc_remoteSocket c \<noteq> Some s)"

lemma destroyed_on: "(\<And>sk. sk_destroyed (f sk) = sk_destroyed sk) \<Longrightarrow> map sk_destroyed (cw_sockets (on_socket s f w)) = map sk_destroyed (cw_sockets w)"
  by (simp add: map_update_same)

lemma destroyed_cleanup: "map sk_destroyed (cw_sockets (runSocketCleanup a w)) = map sk_destroyed (cw_sockets w)"
  by (cases a) (simp_all add: map_update_same removeListener_def)

lemma destroyed_cleanups: "map sk_destroyed (cw_sockets (fold runSocketCleanup as w)) = map sk_destroyed (cw_sockets w)"
  by (induction as arbitrary: w) (simp_all add: destroyed_cleanup)

lemma destroyed_attach: "map sk_destroyed (cw_sockets (attachSocket k s label reason w)) = map sk_destroyed (cw_sockets w)"
  by (simp add: attachSocket_def split_beta Let_def destroyed_on once_close_def del: on_socket_fields(9))

lemma destroyed_nth: "map sk_destroyed xs = map sk_destroyed ys \<Longrightarrow> s < length ys \<Longrightarrow> sk_destroyed (xs ! s) = sk_destroyed (ys ! s)"
  by (metis length_map nth_map)

lemma closeOptional_other: "x \<noteq> Some s \<Longrightarrow> cw_sockets (closeOptional x w) ! s = cw_sockets w ! s"
  by (cases x) (simp_all add: closeOptional_def)

lemma abandoned_close:
  assumes "abandoned s w" "k < length (cw_conns w)"
  shows "abandoned s (conn_close now k failed reason w)"
proof (cases "is_open (cw_conns w ! k)")
  case True
  let ?c = "cw_conns w ! k"
  from assms True have other: "mc_clientSocket ?c \<noteq> Some s" "mc_remoteSocket ?c \<noteq> Some s" unfolding abandoned_def by auto
  have "sk_destroyed (cw_sockets (conn_close now k failed reason w) ! s) = sk_destroyed (cw_sockets w ! s)"
    using assms(1) destroyed_nth [OF destroyed_cleanups]
    by (simp add: conn_close_open [OF True] close_middle_def Let_def closeOptional_other other abandoned_def)
  then show ?thesis using assms conn_close_conns [OF True]
    by (auto simp: abandoned_def is_open_def dest!: set_update_subset_insert [THEN subsetD])
qed (use assms in \<open>simp add: conn_close_closed\<close>)

lemma abandoned_fields:
  assumes "abandoned s w" "map sk_destroyed (cw_sockets w') = map sk_destroyed (cw_sockets w) @ ds"
    "\<And>c. c \<in> set (cw_conns w') \<Longrightarrow> is_open c \<Longrightarrow> mc_clientSocket c \<noteq> Some s \<and> mc_remoteSocket c \<noteq> Some s"
  shows "abandoned s w'"
proof -
  have s: "s < length (cw_sockets w)" "\<not> sk_destroyed (cw_sockets w ! s)" using assms(1) by (simp_all add: abandoned_def)
  have "length (cw_sockets w') = length (cw_sockets w) + length ds" using arg_cong [OF assms(2), of length] by simp
  moreover from this have "sk_destroyed (cw_sockets w' ! s) = sk_destroyed (cw_sockets w ! s)"
    using arg_cong [OF assms(2), of "\<lambda>xs. xs ! s"] s by (simp add: nth_append)
  ultimately show ?thesis using s assms(3) by (simp add: abandoned_def)
qed

lemma abandoned_keeps:
  assumes "abandoned s w" "list_all2 conn_less (cw_conns w) (cw_conns w')" "map sk_destroyed (cw_sockets w') = map sk_destroyed (cw_sockets w)"
  shows "abandoned s w'"
proof (rule abandoned_fields [where ds = "[]", OF assms(1)])
  fix c assume c: "c \<in> set (cw_conns w')" "is_open c"
  then obtain i where i: "i < length (cw_conns w')" "c = cw_conns w' ! i" by (metis in_set_conv_nth)
  with assms(2) c(2) have "i < length (cw_conns w)" "conn_less (cw_conns w ! i) c" by (auto simp: list_all2_conv_all_nth)
  with assms(1) c(2) show "mc_clientSocket c \<noteq> Some s \<and> mc_remoteSocket c \<noteq> Some s"
    unfolding abandoned_def conn_less_def by (metis nth_mem)
qed (simp add: assms(3))

lemma abandoned_closes:
  "abandoned s w \<Longrightarrow> \<forall>k \<in> set ks. k < length (cw_conns w) \<Longrightarrow> abandoned s (fold (\<lambda>k. conn_close now k failed reason) ks w)"
  by (induction ks arbitrary: w) (simp_all add: abandoned_close)

lemma abandoned_listeners:
  "abandoned s w \<Longrightarrow> \<forall>k r. CloseOwner k r \<in> set ls \<longrightarrow> k < length (cw_conns w) \<Longrightarrow> abandoned s (fold (runCloseListener now x) ls w)"
proof (induction ls arbitrary: w)
  case (Cons l ls)
  let ?w = "runCloseListener now x l w"
  have "abandoned s ?w \<and> length (cw_conns ?w) = length (cw_conns w)"
  proof (cases l)
    case (LeakCleanup key e)
    have "abandoned s (runSocketCleanup (Untrack x key e) w)"
      by (rule abandoned_keeps [OF Cons.prems(1) _ destroyed_cleanup]) (simp add: list_all2_refl del: runSocketCleanup.simps)
    then show ?thesis by (simp add: LeakCleanup)
  next
    case (CloseOwner k r)
    with Cons.prems show ?thesis by (simp add: abandoned_close)
  qed
  then have w: "abandoned s ?w" "length (cw_conns ?w) = length (cw_conns w)" by simp_all
  have "\<forall>k r. CloseOwner k r \<in> set ls \<longrightarrow> k < length (cw_conns ?w)" using Cons.prems(2) unfolding w(2) by simp
  from Cons.IH [OF w(1) this] show ?case by simp
qed simp

lemma abandoned_keeps_refs:
  "abandoned s w \<Longrightarrow> keeps_refs w w' \<Longrightarrow> cw_sockets w' = cw_sockets w \<Longrightarrow> abandoned s w'"
  using abandoned_keeps [of s w w'] by (simp add: keeps_refs_def)

lemma abandoned_attach:
  assumes "abandoned s w" "s' \<noteq> s"
  shows "abandoned s (attachSocket k s' label reason w)"
proof (rule abandoned_keeps [OF assms(1) _ destroyed_attach])
  have "conn_less (cw_conns w ! i) ((cw_conns w)[k := (cw_conns w ! k)\<lparr>mc_socketCleanups := cs\<rparr>] ! i)"
    if "i < length (cw_conns w)" for i cs
    using that by (cases "i = k") (simp_all add: conn_less_def is_open_def)
  then show "list_all2 conn_less (cw_conns w) (cw_conns (attachSocket k s' label reason w))"
    unfolding list_all2_conv_all_nth by (simp add: attachSocket_def split_beta Let_def)
qed

lemma abandoned_addSocket: "abandoned s w \<Longrightarrow> abandoned s (addSocket w)"
  by (rule abandoned_fields [where ds = "[False]"]) (auto simp: newSocket_def abandoned_def)

lemma abandoned_accept:
  assumes "abandoned s w" "co_clientSocket opts \<noteq> s"
  shows "abandoned s (snd (accept now opts w))"
proof (cases "fst (tryAcquireConnection (cw_limiter w))")
  case False
  then have "cw_sockets (snd (accept now opts w)) = cw_sockets w" "cw_conns (snd (accept now opts w)) = cw_conns w"
    by (simp_all add: accept_def split_beta Let_def)
  with assms(1) show ?thesis by (simp add: abandoned_def)
next
  case True
  let ?l = "snd (tryAcquireConnection (cw_limiter w))" and ?n = "length (cw_conns w)" and ?cid = "show_nat (cw_nextId w)"
  obtain t w1 where c: "createTimeout now (handshakeLabel ?cid) (co_handshakeTimeoutMs opts) ?n (w\<lparr>cw_limiter := ?l\<rparr>) = (t, w1)"
    by (metis prod.exhaust)
  then have w1: "cw_conns w1 = cw_conns w" "cw_sockets w1 = cw_sockets w" and t: "t = length (cw_timers w)"
    by (auto simp: createTimeout_def split_beta Let_def)
  let ?w2 = "attachSocket ?n (co_clientSocket opts) (?cid @ '':client'') ''client socket closed'' (w1\<lparr>cw_conns := cw_conns w1 @ [fresh_conn now opts w]\<rparr>)"
  have n: "newManagedConnection now ?cid opts (w\<lparr>cw_limiter := ?l\<rparr>) = (?n, ?w2)"
    using c by (simp add: newManagedConnection_def Let_def fresh_conn_def t)
  have "abandoned s (w1\<lparr>cw_conns := cw_conns w1 @ [fresh_conn now opts w]\<rparr>)"
    using assms by (auto simp: abandoned_def w1 fresh_conn_def)
  then have "abandoned s ?w2" using assms(2) by (rule abandoned_attach)
  moreover have "cw_sockets (snd (accept now opts w)) = cw_sockets ?w2" "cw_conns (snd (accept now opts w)) = cw_conns ?w2"
    using True n by (simp_all add: accept_def split_beta Let_def)
  ultimately show ?thesis by (simp add: abandoned_def)
qed

lemma abandoned_step:
  assumes "abandoned s w" "conn_ok w" "refs_ok w" "e \<noteq> SocketCloses s"
  shows "abandoned s (conn_step now e w)"
proof -
  from assms(1) have s: "s \<noteq> length (cw_sockets w)" by (simp add: abandoned_def)
  have table: "k < length (cw_conns w)" if "(cid, k) \<in> set (cw_connections w)" for cid k
    using assms(2) that by (auto simp: conn_ok_def table_ok_def in_open_refs)
  show ?thesis
  proof (cases e)
    case (ClientArrives opts)
    then show ?thesis using abandoned_accept [OF abandoned_addSocket [OF assms(1)]] s by simp
  next
    case (RemoteConnected k)
    have "abandoned s (on_conn k (\<lambda>c. c\<lparr>mc_remoteSocket := Some (length (cw_sockets w))\<rparr>) (addSocket w))" if "k < length (cw_conns w)"
      using abandoned_addSocket [OF assms(1)] s that
      by (auto simp: abandoned_def is_open_def dest!: set_update_subset_insert [THEN subsetD])
    with RemoteConnected assms(1) s show ?thesis by (auto simp: attachRemoteSocket_def Let_def intro!: abandoned_attach)
  next
    case (DestinationKnown k d)
    have "keeps_refs w (setDestination k d w)"
      by (rule keeps_refs_conn [where k = k]) (simp_all add: setDestination_def conn_less_def is_open_def sockets_less_same)
    with DestinationKnown assms(1) abandoned_keeps_refs show ?thesis by (simp add: setDestination_def)
  next
    case (HandshakeDone k)
    have "keeps_refs w (markEstablished now k w)" "cw_sockets (markEstablished now k w) = cw_sockets w"
      by (rule markEstablished_keeps) (simp add: markEstablished_def Let_def)
    with HandshakeDone assms(1) abandoned_keeps_refs show ?thesis by simp
  next
    case (Uploaded k n)
    have "cw_sockets (addUploadBytes now k n w) = cw_sockets w" by (simp add: addUploadBytes_def conn_touch_def Let_def)
    with Uploaded assms(1) abandoned_keeps_refs [OF _ addBytes_keeps(1)] show ?thesis by simp
  next
    case (Downloaded k n)
    have "cw_sockets (addDownloadBytes now k n w) = cw_sockets w" by (simp add: addDownloadBytes_def conn_touch_def Let_def)
    with Downloaded assms(1) abandoned_keeps_refs [OF _ addBytes_keeps(2)] show ?thesis by simp
  next
    case (HandlerCloses k failed reason)
    with assms(1) show ?thesis by (simp add: abandoned_close)
  next
    case (CloseCommand cid reason)
    with assms(1) table show ?thesis by (auto simp: closeConnection_def abandoned_close dest: jm_get_Some_in split: option.splits)
  next
    case (CloseAllCommand reason)
    with assms(1) table show ?thesis by (auto simp: closeAll_def jm_vals_def intro!: abandoned_closes)
  next
    case (TimerDue t)
    have "mt_connection (cw_timers w ! t) < length (cw_conns w)" if "t < length (cw_timers w)"
      using assms(2) that by (auto simp: conn_ok_def timers_ok_def)
    moreover have "abandoned s (on_timer t timer_clear w)" using assms(1) by (rule abandoned_keeps_refs) simp_all
    ultimately show ?thesis using TimerDue assms(1) by (auto simp: timerFires_def abandoned_close split: option.splits)
  next
    case (SocketCloses x)
    with assms(4) have x: "x \<noteq> s" by simp
    let ?w = "on_socket x (\<lambda>sk. sk\<lparr>sk_destroyed := True, sk_closeEmitted := True, sk_listeners := []\<rparr>) w"
    have a: "abandoned s ?w" using assms(1) x by (simp add: abandoned_def)
    have "\<forall>k r. CloseOwner k r \<in> set (sk_listeners (cw_sockets w ! x)) \<longrightarrow> k < length (cw_conns ?w)" if "x < length (cw_sockets w)"
      using assms(3) that unfolding refs_ok_def by (metis nth_mem on_socket_fields(4))
    with abandoned_listeners [OF a] SocketCloses assms(1) show ?thesis by (auto simp: socketClosed_def Let_def)
  qed
qed

lemma abandoned_run:
  "abandoned s w \<Longrightarrow> conn_ok w \<Longrightarrow> refs_ok w \<Longrightarrow> \<forall>(now, e) \<in> set es. e \<noteq> SocketCloses s \<Longrightarrow> abandoned s (conn_run es w)"
proof (induction es arbitrary: w)
  case (Cons ne es)
  obtain now e where "ne = (now, e)" by (cases ne)
  with Cons.prems Cons.IH [of "conn_step now e w"] abandoned_step [of s w e now] conn_step_ok [of w now e] show ?case
    by (simp add: conn_run_def del: conn_step.simps)
qed (simp add: conn_run_def)

text \<open>
  Property C20. A remote socket that comes back from the router after its connection was closed - the
  client left or the handshake timed out while the outbound was connecting - is attached to the closed
  connection and forgotten: whatever happens afterwards, the stop of the engine included, nothing in
  the bookkeeping destroys it, until its peer closes it.
\<close>

theorem conn_late_remote_leaks:
  assumes "w = conn_run es (newConnectionManager limit t0)" "k < length (cw_conns w)" "mc_state (cw_conns w ! k) = CClosed"
    and "\<forall>(now, e) \<in> set later. e \<noteq> SocketCloses (length (cw_sockets w))"
  shows "\<not> sk_destroyed (cw_sockets (conn_run later (conn_step now (RemoteConnected k) w)) ! length (cw_sockets w)) \<and>
    mc_remoteSocket (cw_conns (conn_step now (RemoteConnected k) w) ! k) = Some (length (cw_sockets w))"
proof -
  let ?s = "length (cw_sockets w)" and ?w = "conn_step now (RemoteConnected k) w"
  have ok: "conn_ok w" "refs_ok w" using assms(1) reachable_ok by blast+
  let ?w1 = "on_conn k (\<lambda>c. c\<lparr>mc_remoteSocket := Some ?s\<rparr>) (addSocket w)"
  let ?w2 = "attachSocket k ?s (mc_id (cw_conns w ! k) @ '':remote'') ''remote socket closed'' ?w1"
  have w: "?w = ?w2" using assms(2) by (simp add: attachRemoteSocket_def Let_def)
  have conns: "\<exists>cs. cw_conns ?w2 = (cw_conns w)[k := (cw_conns w ! k)\<lparr>mc_remoteSocket := Some ?s, mc_socketCleanups := cs\<rparr>]"
    using assms(2) by (auto simp: attachSocket_def split_beta Let_def)
  then obtain cs where cs: "cw_conns ?w2 = (cw_conns w)[k := (cw_conns w ! k)\<lparr>mc_remoteSocket := Some ?s, mc_socketCleanups := cs\<rparr>]" by blast
  have "mc_clientSocket c \<noteq> Some ?s \<and> mc_remoteSocket c \<noteq> Some ?s" if "c \<in> set (cw_conns ?w2)" "is_open c" for c
  proof -
    from that assms(3) have "c \<in> set (cw_conns w)" unfolding cs by (auto simp: is_open_def dest!: set_update_subset_insert [THEN subsetD])
    with ok(2) show ?thesis unfolding refs_ok_def by (metis less_irrefl)
  qed
  moreover have "?s < length (cw_sockets ?w2)" by simp
  moreover have "\<not> sk_destroyed (cw_sockets ?w2 ! ?s)"
    using destroyed_nth [OF destroyed_attach, of ?s ?w1] by (simp add: newSocket_def)
  ultimately have "abandoned ?s ?w" unfolding w abandoned_def by blast
  from abandoned_run [OF this _ _ assms(4)] conn_step_ok [OF ok] have "abandoned ?s (conn_run later ?w)" by blast
  then show ?thesis using assms(2) unfolding w abandoned_def by (simp add: cs)
qed

definition some_client :: connection_options where
  "some_client = \<lparr>co_inboundTag = ''in'', co_protocol = ''socks5'', co_network = ''tcp'', co_source = None, co_clientSocket = 0,
     co_handshakeTimeoutMs = 10, co_idleTimeoutMs = 50\<rparr>"

lemmas manager_eval = newConnectionManager_def newLeakDetector_def newResourceLimiter_def newStatsTracker_def
  accept_def newManagedConnection_def attachSocket_def createTimeout_def timer_arm_def trackTimer_def trackSocket_def
  trackEmitter_def nextLabel_def on_conn_def on_socket_def on_stats_def on_timer_def once_close_def addSocket_def newSocket_def
  tryAcquireConnection_def startConnection_def handshakeLabel_def conn_run_def some_client_def

text \<open>A timer that is due closes its connection.\<close>

lemma timer_closes:
  assumes "conn_ok w" "k < length (cw_conns w)" "mt_armed (cw_timers w ! k) = Some (due, key)" "due \<le> now"
  shows "conn_step now (TimerDue k) w = conn_close now k True ''handshake timeout'' w" "is_open (cw_conns w ! k)"
proof -
  from assms(1,2) have len: "k < length (cw_timers w)" and t: "mc_timer (cw_conns w ! k) = k" "mt_connection (cw_timers w ! k) = k"
    and "mt_armed (cw_timers w ! k) \<noteq> None \<longleftrightarrow> is_open (cw_conns w ! k)" by (auto simp: conn_ok_def timers_ok_def)
  with assms(3) show "is_open (cw_conns w ! k)" by simp
  with assms(3,4) len t clear_then_close [OF len t(1)] show "conn_step now (TimerDue k) w = conn_close now k True ''handshake timeout'' w"
    by (auto simp: timerFires_def)
qed

definition timed_out :: conn_world where
  "timed_out = conn_run [(0, ClientArrives some_client), (10, TimerDue 0)] (newConnectionManager 5 0)"

lemma timed_out_eval: "length (cw_conns timed_out) = 1 \<and> mc_state (cw_conns timed_out ! 0) = CClosed \<and> length (cw_sockets timed_out) = 1"
proof -
  let ?w = "conn_run [(0, ClientArrives some_client)] (newConnectionManager 5 0)"
  have w: "length (cw_conns ?w) = 1" "length (cw_sockets ?w) = 1" "\<exists>key. mt_armed (cw_timers ?w ! 0) = Some (10, key)"
    by (simp_all add: manager_eval)
  have ok: "conn_ok ?w" using reachable_ok by blast
  have "timed_out = conn_step 10 (TimerDue 0) ?w" by (simp add: timed_out_def conn_run_def del: conn_step.simps)
  with w timer_closes [OF ok, of 0 10 _ 10] have t: "timed_out = conn_close 10 0 True ''handshake timeout'' ?w" and "is_open (cw_conns ?w ! 0)"
    by (auto simp del: conn_step.simps)
  from conn_close_conns [OF this(2)] w show ?thesis unfolding t by simp
qed

lemma conn_late_remote_leaks_witness:
  "\<not> sk_destroyed (cw_sockets (conn_run [(20, CloseAllCommand ''engine stop'')] (conn_step 12 (RemoteConnected 0) timed_out)) ! 1)"
  using conn_late_remote_leaks [OF timed_out_def, of 0 "[(20, CloseAllCommand ''engine stop'')]" 12] timed_out_eval by simp

section \<open>Timeouts\<close>

lemma close_core_outcome:
  assumes "conn_ok w" "k < length (cw_conns w)" "is_open (cw_conns w ! k)"
  shows "st_failedConnections (cw_stats (conn_close now k failed reason w)) = st_failedConnections (cw_stats w) + (if failed then 1 else 0)"
    "mc_state (cw_conns (conn_close now k failed reason w) ! k) = CClosed"
    "mc_closeReason (cw_conns (conn_close now k failed reason w) ! k) = Some reason"
proof -
  have "cw_stats (conn_close now k failed reason w) = cw_stats (close_core now k failed reason w)"
    using close_core_same [OF assms] unfolding same_core_def by blast
  then show "st_failedConnections (cw_stats (conn_close now k failed reason w)) = st_failedConnections (cw_stats w) + (if failed then 1 else 0)"
    by (simp add: close_core_def Let_def closeConnectionStats_def)
qed (use assms conn_close_conns [OF assms(3)] in simp_all)

lemma closeSocket_destroyed: "sk_destroyed (closeSocket sk)"
  by (simp add: closeSocket_def)

lemma closeOptional_destroyed: "x < length (cw_sockets w) \<Longrightarrow> sk_destroyed (cw_sockets (closeOptional (Some x) w) ! x)"
  by (simp add: closeOptional_def closeSocket_destroyed)

lemma sockets_less_destroyed: "sockets_less w w' \<Longrightarrow> x < length (cw_sockets w) \<Longrightarrow> sk_destroyed (cw_sockets w ! x) \<Longrightarrow> sk_destroyed (cw_sockets w' ! x)"
  by (auto simp: sockets_less_def list_all2_conv_all_nth socket_less_def)

lemma conn_close_destroys:
  assumes "is_open (cw_conns w ! k)" "mc_clientSocket (cw_conns w ! k) = Some x \<or> mc_remoteSocket (cw_conns w ! k) = Some x" "x < length (cw_sockets w)"
  shows "sk_destroyed (cw_sockets (conn_close now k failed reason w) ! x)"
proof -
  let ?c = "cw_conns w ! k"
  let ?w2 = "clearManaged (mc_timer ?c) (on_conn k (\<lambda>c. c\<lparr>mc_state := CClosing, mc_closeReason := Some reason\<rparr>) w)"
  let ?w3 = "fold runSocketCleanup (mc_socketCleanups ?c) (on_conn k (\<lambda>c. c\<lparr>mc_socketCleanups := []\<rparr>) ?w2)"
  have "x < length (cw_sockets ?w3)" using assms(3) by simp
  with assms(2) sockets_less_destroyed [OF closeOptional_less] closeOptional_destroyed
  have "sk_destroyed (cw_sockets (closeOptional (mc_remoteSocket ?c) (closeOptional (mc_clientSocket ?c) ?w3)) ! x)" by auto
  then show ?thesis by (simp add: conn_close_open [OF assms(1)] close_middle_def Let_def)
qed

text \<open>
  Property C19. Every open connection has a timer. Before its time a timer event does nothing; from then
  on it closes the connection, destroys both its sockets, and books it as a failed \<^verbatim>\<open>handshake timeout\<close> -
  also when the handshake was long done and the connection was only idle. Traffic on an established
  connection moves the time to the idle timeout from now.
\<close>

theorem conn_timeout:
  assumes "w = conn_run es (newConnectionManager limit t0)" "k < length (cw_conns w)" "is_open (cw_conns w ! k)"
  shows "\<exists>due key. mt_armed (cw_timers w ! k) = Some (due, key) \<and>
    (\<forall>now. if now < due then conn_step now (TimerDue k) w = w
      else mc_state (cw_conns (conn_step now (TimerDue k) w) ! k) = CClosed \<and>
        mc_closeReason (cw_conns (conn_step now (TimerDue k) w) ! k) = Some ''handshake timeout'' \<and>
        st_failedConnections (cw_stats (conn_step now (TimerDue k) w)) = Suc (st_failedConnections (cw_stats w)) \<and>
        (\<forall>x. mc_clientSocket (cw_conns w ! k) = Some x \<or> mc_remoteSocket (cw_conns w ! k) = Some x \<longrightarrow>
           sk_destroyed (cw_sockets (conn_step now (TimerDue k) w) ! x))) \<and>
    (\<forall>now n. mc_state (cw_conns w ! k) = CEstablished \<longrightarrow>
      (\<exists>key. mt_armed (cw_timers (conn_step now (Uploaded k n) w) ! k) = Some (now + mc_idleTimeoutMs (cw_conns w ! k), key)) \<and>
      (\<exists>key. mt_armed (cw_timers (conn_step now (Downloaded k n) w) ! k) = Some (now + mc_idleTimeoutMs (cw_conns w ! k), key)))"
proof -
  have ok: "conn_ok w" "refs_ok w" using assms(1) reachable_ok by blast+
  then have len: "k < length (cw_timers w)" and t: "mc_timer (cw_conns w ! k) = k" "mt_connection (cw_timers w ! k) = k"
    and armed: "mt_armed (cw_timers w ! k) \<noteq> None" using assms(2,3) by (auto simp: conn_ok_def timers_ok_def)
  from armed obtain due key where due: "mt_armed (cw_timers w ! k) = Some (due, key)" by auto
  note fires = timer_closes(1) [OF ok(1) assms(2) due]
  have "x < length (cw_sockets w)" if "mc_clientSocket (cw_conns w ! k) = Some x \<or> mc_remoteSocket (cw_conns w ! k) = Some x" for x
    using ok(2) assms(2) that unfolding refs_ok_def by (metis nth_mem)
  then have closed: "\<forall>now. if now < due then conn_step now (TimerDue k) w = w
      else mc_state (cw_conns (conn_step now (TimerDue k) w) ! k) = CClosed \<and>
        mc_closeReason (cw_conns (conn_step now (TimerDue k) w) ! k) = Some ''handshake timeout'' \<and>
        st_failedConnections (cw_stats (conn_step now (TimerDue k) w)) = Suc (st_failedConnections (cw_stats w)) \<and>
        (\<forall>x. mc_clientSocket (cw_conns w ! k) = Some x \<or> mc_remoteSocket (cw_conns w ! k) = Some x \<longrightarrow>
           sk_destroyed (cw_sockets (conn_step now (TimerDue k) w) ! x))"
    using close_core_outcome [OF ok(1) assms(2,3)] conn_close_destroys [OF assms(3)] fires
    by (simp add: not_less del: conn_step.simps) (simp add: timerFires_def due len)
  let ?u = "\<lambda>n w. on_stats (addClientToRemoteBytes n) (on_conn k (\<lambda>c. c\<lparr>mc_bytesUpload := mc_bytesUpload c + n\<rparr>) w)"
  let ?d = "\<lambda>n w. on_stats (addRemoteToClientBytes n) (on_conn k (\<lambda>c. c\<lparr>mc_bytesDownload := mc_bytesDownload c + n\<rparr>) w)"
  have "cw_timers (refreshManaged now ms k (?u n w)) = cw_timers (refreshManaged now ms k w)"
    "cw_timers (refreshManaged now ms k (?d n w)) = cw_timers (refreshManaged now ms k w)" for now ms n
    by (simp_all add: refreshManaged_def)
  then have "mc_state (cw_conns w ! k) = CEstablished \<Longrightarrow>
      cw_timers (conn_step now (Uploaded k n) w) = cw_timers (refreshManaged now (mc_idleTimeoutMs (cw_conns w ! k)) k w) \<and>
      cw_timers (conn_step now (Downloaded k n) w) = cw_timers (refreshManaged now (mc_idleTimeoutMs (cw_conns w ! k)) k w)" for now n
    using assms(2) t(1) by (simp add: addUploadBytes_def addDownloadBytes_def conn_touch_def Let_def)
  with closed due refresh_ok(2) [OF ok(1) assms(2,3)] show ?thesis by (simp del: conn_step.simps)
qed

lemma conn_timeout_witness:
  "\<exists>due key. mt_armed (cw_timers (conn_run [(0, ClientArrives some_client), (4, HandshakeDone 0)] (newConnectionManager 5 0)) ! 0) = Some (due, key)"
proof -
  let ?w = "conn_run [(0, ClientArrives some_client), (4, HandshakeDone 0)] (newConnectionManager 5 0)"
  have "length (cw_conns ?w) = 1 \<and> mc_state (cw_conns ?w ! 0) = CEstablished"
    by (simp add: manager_eval markEstablished_def refreshManaged_def timer_refresh_def timer_clear_def untrackTimer_def Let_def)
  then have "0 < length (cw_conns ?w)" "is_open (cw_conns ?w ! 0)" by (simp_all add: is_open_def)
  from conn_timeout [OF refl this] show ?thesis by blast
qed

end
