(* ===== verification/OutboundGen.thy ===== *)
theory OutboundGen
  imports ConfigRoute Policy "HOL-Library.List_Lexorder" "HOL-Library.Char_ord"
begin

text \<open>
  Outbound generations: \<^verbatim>\<open>src/outbound/generation.ts\<close>, \<^verbatim>\<open>generationTypes.ts\<close>,
  \<^verbatim>\<open>generationBuilder.ts\<close> and \<^verbatim>\<open>generationValidator.ts\<close>. The keyed hash is a parameter. Freezing
  and cloning make values that nobody changes, which is what values are here.
\<close>

section \<open>Configurations as objects\<close>

fun outbound_type :: "outbound_kind \<Rightarrow> string" where
  "outbound_type DirectOutbound = ''direct''"
| "outbound_type (BlockOutbound reason) = ''block''"
| "outbound_type (TcpRelayOutbound host port) = ''tcpRelay''"
| "outbound_type (ShadowsocksOutbound host port method password) = ''shadowsocks''"
| "outbound_type (TrojanOutbound host port password tls) = ''trojan''"
| "outbound_type (WireGuardOutbound key address peer reserved) = ''wireguard''"
| "outbound_type (PluginOutbound kind options) = kind"

abbreviation config_type :: "outbound_config \<Rightarrow> string" where
  "config_type c \<equiv> outbound_type (otc_kind c)"

text \<open>The own properties of a configuration; an absent optional value has none.\<close>

definition opt_key :: "string \<Rightarrow> ('a \<Rightarrow> json) \<Rightarrow> 'a option \<Rightarrow> jobj" where
  "opt_key k f v = (case v of None \<Rightarrow> [] | Some x \<Rightarrow> [(k, f x)])"

definition j_int :: "int \<Rightarrow> json" where
  "j_int n = JNum (JInt n)"

definition j_strings :: "string list \<Rightarrow> json" where
  "j_strings xs = JArr (map JStr xs)"

fun cipher_name :: "cipher \<Rightarrow> string" where
  "cipher_name Aes128Gcm = ''aes-128-gcm''"
| "cipher_name Aes256Gcm = ''aes-256-gcm''"
| "cipher_name ChaCha20Poly1305 = ''chacha20-ietf-poly1305''"

definition tls_object :: "outbound_tls \<Rightarrow> jobj" where
  "tls_object t = [(''enabled'', JBool (otl_enabled t)), (''rejectUnauthorized'', JBool (otl_rejectUnauthorized t))]
     @ opt_key ''serverName'' JStr (otl_serverName t)"

definition peer_object :: "wireguard_peer \<Rightarrow> jobj" where
  "peer_object p = [(''publicKey'', JStr (wgp_publicKey p)), (''endpointHost'', JStr (wgp_endpointHost p)),
     (''endpointPort'', j_int (wgp_endpointPort p)), (''allowedIps'', j_strings (wgp_allowedIps p))]"

fun kind_object :: "outbound_kind \<Rightarrow> jobj" where
  "kind_object DirectOutbound = []"
| "kind_object (BlockOutbound reason) = opt_key ''reason'' JStr reason"
| "kind_object (TcpRelayOutbound host port) = [(''targetHost'', JStr host), (''targetPort'', j_int port)]"
| "kind_object (ShadowsocksOutbound host port method password) =
     [(''serverHost'', JStr host), (''serverPort'', j_int port), (''method'', JStr (cipher_name method)), (''password'', JStr password)]"
| "kind_object (TrojanOutbound host port password tls) =
     [(''serverHost'', JStr host), (''serverPort'', j_int port), (''password'', JStr password), (''tls'', JObj (tls_object tls))]"
| "kind_object (WireGuardOutbound key address peer reserved) =
     [(''privateKey'', JStr key), (''address'', j_strings address), (''peer'', JObj (peer_object peer))]
       @ opt_key ''reserved'' (\<lambda>ns. JArr (map j_int ns)) reserved"
| "kind_object (PluginOutbound kind options) = [(''options'', JObj options)]"

definition outbound_object :: "outbound_config \<Rightarrow> jobj" where
  "outbound_object c =
     [(''type'', JStr (config_type c)), (''tag'', JStr (outbound_tag c))]
       @ opt_key ''connectTimeoutMs'' j_int (otb_connectTimeoutMs (otc_base c))
       @ opt_key ''idleTimeoutMs'' j_int (otb_idleTimeoutMs (otc_base c)) @ kind_object (otc_kind c)"

text \<open>
  \<^verbatim>\<open>stableJson\<close> up to the text \<^verbatim>\<open>JSON.stringify\<close> makes of it, which tells any two of these values
  apart: every object with its keys sorted. The code sorts by locale, which only the text would show.
\<close>

fun sortValue :: "json \<Rightarrow> json" where
  "sortValue (JArr vs) = JArr (map sortValue vs)"
| "sortValue (JObj r) = JObj (sort_key fst (map (\<lambda>(k, v). (k, sortValue v)) r))"
| "sortValue v = v"

definition stableJson :: "json \<Rightarrow> json" where
  "stableJson v = sortValue v"

definition stable_object :: "jobj \<Rightarrow> json" where
  "stable_object r = stableJson (JObj r)"

section \<open>Entries\<close>

datatype risk_level = RiskLow | RiskMedium | RiskHigh

record outbound_capabilities =
  ocap_tcp :: bool
  ocap_udp :: bool
  ocap_stateless :: bool

record outbound_entry =
  oe_tag :: string
  oe_type :: string
  oe_configHash :: string
  oe_configSnapshot :: json
  oe_capabilities :: outbound_capabilities
  oe_riskLevel :: risk_level
  oe_experimental :: bool
  oe_dependencies :: "string list"

definition riskLevelFor :: "string \<Rightarrow> risk_level" where
  "riskLevelFor t =
     (if t = ''direct'' \<or> t = ''block'' \<or> t = ''tcpRelay'' then RiskLow
      else if t = ''shadowsocks'' \<or> t = ''trojan'' then RiskMedium
      else RiskHigh)"

definition isExperimentalType :: "string \<Rightarrow> bool" where
  "isExperimentalType t \<longleftrightarrow> t \<noteq> ''direct'' \<and> t \<noteq> ''block'' \<and> t \<noteq> ''tcpRelay'' \<and> t \<noteq> ''shadowsocks'' \<and> t \<noteq> ''trojan''"

definition capabilitiesFor :: "string \<Rightarrow> outbound_capabilities" where
  "capabilitiesFor t =
     (if t = ''direct'' \<or> t = ''block'' then \<lparr>ocap_tcp = True, ocap_udp = True, ocap_stateless = True\<rparr>
      else if t = ''tcpRelay'' \<or> t = ''trojan'' then \<lparr>ocap_tcp = True, ocap_udp = False, ocap_stateless = True\<rparr>
      else if t = ''shadowsocks'' then \<lparr>ocap_tcp = True, ocap_udp = True, ocap_stateless = False\<rparr>
      else \<lparr>ocap_tcp = False, ocap_udp = False, ocap_stateless = False\<rparr>)"

definition dependenciesFor :: "string \<Rightarrow> string list" where
  "dependenciesFor t =
     (if t = ''direct'' then [''dns'', ''policy'']
      else if t = ''block'' then [''policy'']
      else if t = ''tcpRelay'' then [''policy'', ''tcp-transport'']
      else if t = ''shadowsocks'' then [''policy'', ''crypto'', ''tcp-transport'', ''udp'']
      else if t = ''trojan'' then [''policy'', ''tls'', ''tcp-transport'']
      else [''experimental-runtime''])"

fun includes_text :: "string \<Rightarrow> string \<Rightarrow> bool" where
  "includes_text pat [] \<longleftrightarrow> pat = []"
| "includes_text pat (c # cs) \<longleftrightarrow> prefix pat (c # cs) \<or> includes_text pat cs"

definition isSecretKey :: "string \<Rightarrow> bool" where
  "isSecretKey key \<longleftrightarrow>
     list_ex (\<lambda>w. includes_text w (js_lower key)) [''password'', ''token'', ''secret'', ''privatekey'', ''presharedkey'']"

fun redactValue :: "string \<Rightarrow> json \<Rightarrow> json" where
  "redactValue key (JArr vs) = JArr (map (redactValue '''') vs)"
| "redactValue key (JObj r) = JObj (map (\<lambda>(k, v). (k, redactValue k v)) r)"
| "redactValue key v = (if isSecretKey key then JStr ''[REDACTED]'' else v)"

definition redactOutboundConfig :: "outbound_config \<Rightarrow> json" where
  "redactOutboundConfig c = redactValue '''' (JObj (outbound_object c))"

definition createOutboundGenerationEntry :: "(json \<Rightarrow> string) \<Rightarrow> outbound_config \<Rightarrow> outbound_entry" where
  "createOutboundGenerationEntry keyedHash c =
     \<lparr>oe_tag = outbound_tag c, oe_type = config_type c, oe_configHash = keyedHash (stable_object (outbound_object c)),
      oe_configSnapshot = redactOutboundConfig c, oe_capabilities = capabilitiesFor (config_type c),
      oe_riskLevel = riskLevelFor (config_type c), oe_experimental = isExperimentalType (config_type c),
      oe_dependencies = dependenciesFor (config_type c)\<rparr>"

section \<open>Generations\<close>

datatype outbound_state = OActive | OCandidate | ODraining | ORetired

record policy_binding =
  pb_defaultOutbound :: string
  pb_policies :: "routing_policy list"

record outbound_generation =
  og_id :: string
  og_configHash :: string
  og_createdAt :: int
  og_registrySnapshot :: "(string, outbound_entry) jsmap"
  og_outboundTags :: "string list"
  og_outboundTypes :: "(string, string) jsmap"
  og_policyBinding :: policy_binding
  og_healthSnapshot :: "outbound_health list"
  og_state :: outbound_state
  og_parent :: "string option"

fun assertUniqueTags :: "string list \<Rightarrow> outbound_config list \<Rightarrow> unit result" where
  "assertUniqueTags tags [] = Inr ()"
| "assertUniqueTags tags (c # cs) =
     (if outbound_tag c \<in> set tags
      then Inl (PlainError (''outbound generation contains duplicate tag '' @ quoted (outbound_tag c)))
      else assertUniqueTags (outbound_tag c # tags) cs)"

text \<open>The hash of a generation covers its entries and what refers to them; it is a second parameter.\<close>

record outbound_hashes =
  ohs_config :: "json \<Rightarrow> string"
  ohs_generation :: "(string \<times> string \<times> string) list \<Rightarrow> policy_binding \<Rightarrow> string"

definition newOutboundGeneration ::
  "outbound_hashes \<Rightarrow> string \<Rightarrow> outbound_config list \<Rightarrow> string \<Rightarrow> routing_policy list \<Rightarrow> outbound_health list \<Rightarrow>
   outbound_state \<Rightarrow> string option \<Rightarrow> int \<Rightarrow> outbound_generation result" where
  "newOutboundGeneration hs i outbounds defaultOutbound policies health state parent createdAt =
     rbind (assertUniqueTags [] outbounds) (\<lambda>u.
       let entries = map (createOutboundGenerationEntry (ohs_config hs)) outbounds;
           binding = \<lparr>pb_defaultOutbound = defaultOutbound, pb_policies = policies\<rparr>
       in Inr \<lparr>og_id = i, og_configHash = ohs_generation hs (map (\<lambda>e. (oe_tag e, oe_type e, oe_configHash e)) entries) binding,
               og_createdAt = createdAt, og_registrySnapshot = jm_of_list (map (\<lambda>e. (oe_tag e, e)) entries),
               og_outboundTags = map oe_tag entries, og_outboundTypes = jm_of_list (map (\<lambda>e. (oe_tag e, oe_type e)) entries),
               og_policyBinding = binding, og_healthSnapshot = health, og_state = state, og_parent = parent\<rparr>)"

section \<open>Differences\<close>

text \<open>\<^verbatim>\<open>[...new Set(xs)]\<close>: each value at its first place.\<close>

definition remdups_first :: "'a list \<Rightarrow> 'a list" where
  "remdups_first xs = rev (remdups (rev xs))"

record outbound_rename =
  or_from :: string
  or_to :: string
  or_type :: string

record outbound_diff =
  od_added :: "string list"
  od_removed :: "string list"
  od_modified :: "(string \<times> string list) list"
  od_renamed :: "outbound_rename list"
  od_typeChanged :: "string list"
  od_targetChanged :: "string list"
  od_secretChanged :: "string list"
  od_policyReferencedTags :: "(string, string list) jsmap"
  od_missingPolicyReferences :: "string list"

definition withoutTag :: "outbound_config \<Rightarrow> jobj" where
  "withoutTag c = filter (\<lambda>(k, v). k \<noteq> ''tag'') (outbound_object c)"

text \<open>
  Renames: every removed configuration looks for the first added one, not taken yet, of the same type
  and content. The result is the renames, the tags taken and the tags given up.
\<close>

definition same_but_tag :: "outbound_config \<Rightarrow> outbound_config \<Rightarrow> bool" where
  "same_but_tag a b \<longleftrightarrow> config_type a = config_type b \<and> stable_object (withoutTag a) = stable_object (withoutTag b)"

fun find_renames ::
  "outbound_config list \<Rightarrow> outbound_config list \<Rightarrow> string list \<Rightarrow> outbound_rename list \<times> string list \<times> string list" where
  "find_renames added [] consumedAdded = ([], consumedAdded, [])"
| "find_renames added (old # olds) consumedAdded =
     (case find (\<lambda>item. outbound_tag item \<notin> set consumedAdded \<and> same_but_tag item old) added of
        None \<Rightarrow> find_renames added olds consumedAdded
      | Some replacement \<Rightarrow>
          (let (rs, ca, cr) = find_renames added olds (consumedAdded @ [outbound_tag replacement]) in
           (\<lparr>or_from = outbound_tag old, or_to = outbound_tag replacement, or_type = config_type replacement\<rparr> # rs,
            ca, outbound_tag old # cr)))"

definition changedFields :: "outbound_config \<Rightarrow> outbound_config \<Rightarrow> string list" where
  "changedFields previous candidate =
     (let p = outbound_object previous; c = outbound_object candidate in
      sort (map (\<lambda>key. if isSecretKey key then key @ '':[REDACTED]'' else key)
        (filter (\<lambda>key. map_option stableJson (jm_get p key) \<noteq> map_option stableJson (jm_get c key))
          (jm_keys (jm_of_list (map (\<lambda>(k, v). (k, ())) (p @ c)))))))"

fun targetIdentity :: "outbound_kind \<Rightarrow> string" where
  "targetIdentity (TcpRelayOutbound host port) = ''tcpRelay:'' @ host @ '':'' @ show_int port"
| "targetIdentity (ShadowsocksOutbound host port method password) = ''shadowsocks:'' @ host @ '':'' @ show_int port"
| "targetIdentity (TrojanOutbound host port password tls) = ''trojan:'' @ host @ '':'' @ show_int port"
| "targetIdentity k = outbound_type k"

text \<open>The secret identity is the text of an object, or the empty text.\<close>

fun secretIdentity :: "outbound_kind \<Rightarrow> json option" where
  "secretIdentity (ShadowsocksOutbound host port method password) =
     Some (stable_object [(''method'', JStr (cipher_name method)), (''password'', JStr password)])"
| "secretIdentity (TrojanOutbound host port password tls) =
     Some (stable_object [(''password'', JStr password), (''tls'', JObj (tls_object tls))])"
| "secretIdentity (WireGuardOutbound key address peer reserved) =
     Some (stable_object [(''privateKey'', JStr key), (''peer'', JStr (wgp_publicKey peer))])"
| "secretIdentity k = None"

text \<open>
  The table of references is a plain object: a tag that names a member of \<^verbatim>\<open>Object.prototype\<close> finds
  that member instead of nothing, and it is no list of sources.
\<close>

definition prototype_members :: "string list" where
  "prototype_members = [''constructor'', ''__defineGetter__'', ''__defineSetter__'', ''hasOwnProperty'', ''__lookupGetter__'',
     ''__lookupSetter__'', ''isPrototypeOf'', ''propertyIsEnumerable'', ''toString'', ''valueOf'', ''__proto__'', ''toLocaleString'']"

definition add_reference :: "string \<Rightarrow> string \<Rightarrow> (string, string list) jsmap \<Rightarrow> (string, string list) jsmap result" where
  "add_reference tag source refs =
     (case jm_get refs tag of
        Some current \<Rightarrow> Inr (jm_set tag (if source \<in> set current then current else current @ [source]) refs)
      | None \<Rightarrow> if tag \<in> set prototype_members then Inl (TypeError ''current.includes is not a function'')
                else Inr (jm_set tag [source] refs))"

fun add_references :: "(string \<times> string) list \<Rightarrow> (string, string list) jsmap \<Rightarrow> (string, string list) jsmap result" where
  "add_references [] refs = Inr refs"
| "add_references ((tag, source) # rs) refs = rbind (add_reference tag source refs) (add_references rs)"

definition route_references :: "route_config \<Rightarrow> (string \<times> string) list" where
  "route_references route =
     (rtc_defaultOutbound route, ''default'')
       # map (\<lambda>r. (rr_outboundTag r, case rr_tag r of Some t \<Rightarrow> t | None \<Rightarrow> ''rule'')) (rtc_rules route)
       @ concat (map (\<lambda>p. map (\<lambda>t. (t, ''policy:'' @ rp_tag p)) (rp_outbounds p)) (rtc_policies route))"

text \<open>Without a configuration a tag \<^verbatim>\<open>__proto__\<close> becomes the prototype of the table and no member of it.\<close>

definition policyReferences :: "outbound_config list \<Rightarrow> route_config option \<Rightarrow> (string, string list) jsmap result" where
  "policyReferences outbounds config =
     (case config of
        None \<Rightarrow> Inr (jm_of_list (map (\<lambda>c. (outbound_tag c, [])) (filter (\<lambda>c. outbound_tag c \<noteq> ''__proto__'') outbounds)))
      | Some route \<Rightarrow> add_references (route_references route) [])"

text \<open>\<^verbatim>\<open>Object.keys\<close>: array indices come first, in ascending order.\<close>

definition is_index :: "string \<Rightarrow> bool" where
  "is_index k \<longleftrightarrow> all_digits k \<and> k = show_nat (read_nat k) \<and> read_nat k < 4294967295"

definition object_keys :: "string list \<Rightarrow> string list" where
  "object_keys ks = sort_key read_nat (filter is_index ks) @ filter (\<lambda>k. \<not> is_index k) ks"

definition reference_all :: "string list \<Rightarrow> (string, string list) jsmap \<Rightarrow> (string, string list) jsmap" where
  "reference_all tags refs = fold (\<lambda>t m. if jm_has m t \<or> t \<in> set prototype_members then m else jm_set t [] m) tags refs"

definition by_tag :: "outbound_config list \<Rightarrow> (string, outbound_config) jsmap" where
  "by_tag cs = jm_of_list (map (\<lambda>c. (outbound_tag c, c)) cs)"

definition not_in :: "outbound_config list \<Rightarrow> outbound_config list \<Rightarrow> outbound_config list" where
  "not_in others cs = filter (\<lambda>c. \<not> jm_has (by_tag others) (outbound_tag c)) cs"

definition changed_pairs :: "outbound_config list \<Rightarrow> outbound_config list \<Rightarrow> (outbound_config \<times> outbound_config) list" where
  "changed_pairs current candidate =
     concat (map (\<lambda>next'. case jm_get (by_tag current) (outbound_tag next') of
         None \<Rightarrow> []
       | Some previous \<Rightarrow> if stable_object (outbound_object previous) = stable_object (outbound_object next') then []
                        else [(previous, next')]) candidate)"

definition differing :: "(outbound_kind \<Rightarrow> 'a) \<Rightarrow> (outbound_config \<times> outbound_config) list \<Rightarrow> string list" where
  "differing identity pairs =
     map (\<lambda>(p, n). outbound_tag n) (filter (\<lambda>(p, n). identity (otc_kind p) \<noteq> identity (otc_kind n)) pairs)"

definition diffOutboundConfigs ::
  "outbound_config list \<Rightarrow> outbound_config list \<Rightarrow> route_config option \<Rightarrow> outbound_diff result" where
  "diffOutboundConfigs current candidate config =
     (let removedCandidates = not_in candidate current; addedCandidates = not_in current candidate;
          renames = find_renames addedCandidates removedCandidates [];
          consumedAdded = fst (snd renames); consumedRemoved = snd (snd renames);
          changed = changed_pairs current candidate
      in rbind (policyReferences candidate config) (\<lambda>references.
         let candidateTags = remdups_first (map outbound_tag candidate);
             missing = filter (\<lambda>tag. tag \<notin> set candidateTags) (object_keys (jm_keys references))
         in Inr \<lparr>od_added = map outbound_tag (filter (\<lambda>c. outbound_tag c \<notin> set consumedAdded) addedCandidates),
                 od_removed = map outbound_tag (filter (\<lambda>c. outbound_tag c \<notin> set consumedRemoved) removedCandidates),
                 od_modified = map (\<lambda>(p, n). (outbound_tag n, changedFields p n)) changed,
                 od_renamed = fst renames,
                 od_typeChanged = differing outbound_type changed,
                 od_targetChanged = differing targetIdentity changed,
                 od_secretChanged = differing secretIdentity changed,
                 od_policyReferencedTags = reference_all candidateTags references,
                 od_missingPolicyReferences = missing\<rparr>))"

section \<open>Validation\<close>

record outbound_issue =
  oi_code :: string
  oi_message :: string
  oi_tag :: "string option"

record risk_summary =
  rsk_low :: nat
  rsk_medium :: nat
  rsk_high :: nat
  rsk_highest :: "risk_level option"

record outbound_validation =
  ov_errors :: "outbound_issue list"
  ov_warnings :: "outbound_issue list"
  ov_riskSummary :: risk_summary
  ov_requiresRuntimeRestart :: bool
  ov_unsupportedChanges :: "string list"

definition SUPPORTED_TYPES :: "string list" where
  "SUPPORTED_TYPES = [''direct'', ''block'', ''tcpRelay'', ''shadowsocks'', ''trojan'', ''wireguard'']"

definition issue :: "string \<Rightarrow> string \<Rightarrow> string \<Rightarrow> outbound_issue" where
  "issue code tag message = \<lparr>oi_code = code, oi_message = message, oi_tag = Some tag\<rparr>"

definition validateTag :: "outbound_config \<Rightarrow> string list \<Rightarrow> string list \<times> outbound_issue list" where
  "validateTag c tags =
     (let tag = outbound_tag c in
      if js_trim tag = [] then (tags, [\<lparr>oi_code = ''empty-tag'', oi_message = ''outbound tag must not be empty'', oi_tag = None\<rparr>])
      else (tag # tags, if tag \<in> set tags then [issue ''duplicate-tag'' tag (''duplicate outbound tag '' @ quoted tag)] else []))"

text \<open>Errors, warnings and unsupported changes of one type.\<close>

definition validateType :: "outbound_config \<Rightarrow> bool \<Rightarrow> outbound_issue list \<times> outbound_issue list \<times> string list" where
  "validateType c allowExperimental =
     (let tag = outbound_tag c; t = config_type c in
      if t \<notin> set SUPPORTED_TYPES
      then ([issue ''unsupported-type'' tag (''outbound '' @ quoted tag @ '' uses unsupported prototype type '' @ quoted t)], [],
            [''plugin or unknown outbound '' @ quoted tag @ '' is outside M10''])
      else if isExperimentalType t
      then (let unsupported = [''experimental outbound '' @ quoted tag @ '' is outside M10''] in
            if \<not> allowExperimental
            then ([issue ''experimental-not-enabled'' tag (''experimental outbound '' @ quoted tag @ '' requires explicit prototype opt-in'')], [], unsupported)
            else ([], [issue ''experimental-outbound'' tag (''experimental outbound '' @ quoted tag @ '' remains unsupported for runtime reload'')], unsupported))
      else ([], [], []))"

definition validateAllowedKeys :: "outbound_config \<Rightarrow> string list \<Rightarrow> outbound_issue list" where
  "validateAllowedKeys c allowed =
     (let unexpected = filter (\<lambda>k. k \<notin> set allowed) (map fst (outbound_object c)) in
      if unexpected \<noteq> []
      then [issue ''dangerous-extra-fields'' (outbound_tag c)
              (''outbound '' @ quoted (outbound_tag c) @ '' has unsupported fields: '' @ js_join '', '' unexpected)]
      else [])"

definition validateHostPort :: "string \<Rightarrow> string \<Rightarrow> int \<Rightarrow> string \<Rightarrow> outbound_issue list" where
  "validateHostPort tag host port label =
     (if js_trim host = [] \<or> list_ex is_space host
      then [issue ''invalid-target-host'' tag (label @ '' outbound '' @ quoted tag @ '' has an invalid target host'')] else [])
     @ (if port < 1 \<or> port > 65535
        then [issue ''invalid-target-port'' tag (label @ '' outbound '' @ quoted tag @ '' has an invalid target port'')] else [])"

definition validateTrojanTls :: "string \<Rightarrow> outbound_tls \<Rightarrow> outbound_issue list \<times> outbound_issue list" where
  "validateTrojanTls tag tls =
     (case otl_serverName tls of
        Some name \<Rightarrow>
          (if js_trim name = [] then [issue ''invalid-trojan-server-name'' tag (''outbound '' @ quoted tag @ '' has an empty TLS serverName'')] else [], [])
      | None \<Rightarrow>
          ([], if otl_enabled tls
               then [issue ''trojan-server-name-default'' tag (''outbound '' @ quoted tag @ '' uses serverHost as TLS serverName'')] else []))"

definition validateFields :: "outbound_config \<Rightarrow> outbound_issue list \<times> outbound_issue list" where
  "validateFields c =
     (let tag = outbound_tag c in
      case otc_kind c of
        DirectOutbound \<Rightarrow> (validateAllowedKeys c [''type'', ''tag'', ''connectTimeoutMs'', ''idleTimeoutMs''], [])
      | BlockOutbound reason \<Rightarrow> (validateAllowedKeys c [''type'', ''tag'', ''connectTimeoutMs'', ''idleTimeoutMs'', ''reason''], [])
      | TcpRelayOutbound host port \<Rightarrow> (validateHostPort tag host port ''TCP relay'', [])
      | ShadowsocksOutbound host port method password \<Rightarrow>
          (validateHostPort tag host port ''Shadowsocks''
             @ (if password = [] then [issue ''missing-shadowsocks-password'' tag (''outbound '' @ quoted tag @ '' requires a non-empty password'')] else []), [])
      | TrojanOutbound host port password tls \<Rightarrow>
          (validateHostPort tag host port ''Trojan''
             @ (if password = [] then [issue ''missing-trojan-password'' tag (''outbound '' @ quoted tag @ '' requires a non-empty password'')] else [])
             @ fst (validateTrojanTls tag tls), snd (validateTrojanTls tag tls))
      | _ \<Rightarrow> ([], []))"

text \<open>The loop over the outbounds: the tags seen, errors, warnings, unsupported changes.\<close>

fun validateEach ::
  "bool \<Rightarrow> outbound_config list \<Rightarrow> string list \<Rightarrow> string list \<times> outbound_issue list \<times> outbound_issue list \<times> string list" where
  "validateEach allowExperimental [] tags = (tags, [], [], [])"
| "validateEach allowExperimental (c # cs) tags =
     (let (tags1, e1) = validateTag c tags;
          (e2, w2, u2) = validateType c allowExperimental;
          (e3, w3) = validateFields c;
          (tags', es, ws, us) = validateEach allowExperimental cs tags1
      in (tags', e1 @ e2 @ e3 @ es, w2 @ w3 @ ws, u2 @ us))"

definition validateOutboundPolicies :: "routing_policy list \<Rightarrow> string list \<Rightarrow> outbound_issue list" where
  "validateOutboundPolicies policies tags =
     concat (map (\<lambda>p. map (\<lambda>t. issue ''missing-policy-outbound'' t (''policy '' @ quoted (rp_tag p) @ '' references missing outbound '' @ quoted t))
       (filter (\<lambda>t. t \<notin> set tags) (rp_outbounds p))) policies)"

definition summarizeRisk :: "outbound_config list \<Rightarrow> risk_summary" where
  "summarizeRisk cs =
     (let risk = (\<lambda>r. length (filter (\<lambda>c. riskLevelFor (config_type c) = r) cs)) in
      \<lparr>rsk_low = risk RiskLow, rsk_medium = risk RiskMedium, rsk_high = risk RiskHigh,
       rsk_highest = (if risk RiskHigh > 0 then Some RiskHigh else if risk RiskMedium > 0 then Some RiskMedium
         else if risk RiskLow > 0 then Some RiskLow else None)\<rparr>)"

definition validateOutboundGeneration ::
  "outbound_config list \<Rightarrow> string \<Rightarrow> routing_policy list \<Rightarrow> routing_policy list \<Rightarrow> outbound_diff \<Rightarrow> string list \<Rightarrow> bool \<Rightarrow>
   outbound_validation" where
  "validateOutboundGeneration outbounds defaultOutbound policies activePolicies diff activeReferenceTags allowExperimental =
     (let (tags, e1, w1, u1) = validateEach allowExperimental outbounds [];
          e2 = (if defaultOutbound \<notin> set tags \<and> defaultOutbound \<notin> rp_tag ` set policies
                then [\<lparr>oi_code = ''missing-default-outbound'',
                       oi_message = ''default outbound or policy '' @ quoted defaultOutbound @ '' is missing'', oi_tag = None\<rparr>] else []);
          e3 = validateOutboundPolicies policies tags;
          gone = (\<lambda>t. t \<in> set (od_removed diff));
          w2 = concat (map (\<lambda>p. map (\<lambda>t. issue ''removed-active-policy-reference'' t
                 (''removed outbound '' @ quoted t @ '' remains referenced by active policy '' @ quoted (rp_tag p) @ '' and must drain''))
                 (filter gone (rp_outbounds p))) activePolicies);
          w3 = map (\<lambda>t. issue ''removed-active-connection-reference'' t
                 (''removed outbound '' @ quoted t @ '' has an active generation reference and cannot be force-closed''))
                 (filter gone activeReferenceTags);
          w4 = map (\<lambda>t. issue ''secret-identity-changed'' t (''outbound '' @ quoted t @ '' secret identity changed: [REDACTED]''))
                 (od_secretChanged diff);
          unsupported = remdups_first (u1 @ map (\<lambda>t. ''outbound '' @ quoted t @ '' changes type and requires remove/add staging'') (od_typeChanged diff));
          errors = e1 @ e2 @ e3; risk = summarizeRisk outbounds
      in \<lparr>ov_errors = errors, ov_warnings = w1 @ w2 @ w3 @ w4, ov_riskSummary = risk,
          ov_requiresRuntimeRestart = (errors \<noteq> [] \<or> rsk_high risk > 0 \<or> rsk_medium risk > 0 \<or> unsupported \<noteq> []),
          ov_unsupportedChanges = unsupported\<rparr>)"

record outbound_build =
  ob_generation :: outbound_generation
  ob_diff :: outbound_diff
  ob_validation :: outbound_validation

definition buildOutboundGeneration ::
  "outbound_hashes \<Rightarrow> string \<Rightarrow> outbound_config list \<Rightarrow> outbound_config list \<Rightarrow> route_config \<Rightarrow> routing_policy list \<Rightarrow>
   outbound_health list \<Rightarrow> string list \<Rightarrow> string option \<Rightarrow> bool \<Rightarrow> int \<Rightarrow> outbound_build result" where
  "buildOutboundGeneration hs i currentOutbounds outbounds route currentPolicies health activeReferenceTags parent allowExperimental now =
     rbind (diffOutboundConfigs currentOutbounds outbounds (Some route)) (\<lambda>diff.
       let validation = validateOutboundGeneration outbounds (rtc_defaultOutbound route) (rtc_policies route) currentPolicies diff
             activeReferenceTags allowExperimental
       in rbind (newOutboundGeneration hs i outbounds (rtc_defaultOutbound route) (rtc_policies route) health OCandidate parent now)
            (\<lambda>generation. Inr \<lparr>ob_generation = generation, ob_diff = diff, ob_validation = validation\<rparr>))"

end
