(* ===== verification/OutboundGenProofs.thy ===== *)
theory OutboundGenProofs
  imports OutboundGen
begin

text \<open>
  What a built outbound generation guarantees: a candidate without errors and of low risk is one the
  runtime can take over, which secrets its snapshot hides, and that its differences account for every
  tag.
\<close>

section \<open>Validation\<close>

lemma validateEach_fst: "fst (validateEach ex cs tags) = fold (\<lambda>c ts. fst (validateTag c ts)) cs tags"
  by (induction cs arbitrary: tags) (simp_all add: split_beta Let_def)

lemma validateTag_clean: "snd (validateTag c tags) = [] \<Longrightarrow> js_trim (outbound_tag c) \<noteq> [] \<and> outbound_tag c \<notin> set tags \<and> fst (validateTag c tags) = outbound_tag c # tags"
  by (auto simp: validateTag_def Let_def split: if_splits)

lemma validateEach_clean:
  "fst (snd (validateEach ex cs tags)) = [] \<Longrightarrow>
    (\<forall>c \<in> set cs. js_trim (outbound_tag c) \<noteq> [] \<and> fst (validateType c ex) = [] \<and> fst (validateFields c) = []) \<and>
    distinct (map outbound_tag cs) \<and> set (map outbound_tag cs) \<inter> set tags = {} \<and>
    set (fst (validateEach ex cs tags)) = outbound_tag ` set cs \<union> set tags"
proof (induction cs arbitrary: tags)
  case (Cons c cs)
  from Cons.prems have clean: "snd (validateTag c tags) = []" "fst (validateType c ex) = []" "fst (validateFields c) = []"
    "fst (snd (validateEach ex cs (fst (validateTag c tags)))) = []" by (simp_all add: split_beta Let_def)
  note tag = validateTag_clean [OF clean(1)]
  from Cons.IH [OF clean(4)] tag clean(2,3) show ?case by (auto simp: split_beta Let_def)
qed simp

lemma validateEach_unsupported:
  "snd (snd (snd (validateEach ex cs tags))) = concat (map (\<lambda>c. snd (snd (validateType c ex))) cs)"
  by (induction cs arbitrary: tags) (simp_all add: split_beta Let_def)

lemma remdups_first_Nil [simp]: "remdups_first xs = [] \<longleftrightarrow> xs = []"
  by (simp add: remdups_first_def)

lemma set_remdups_first [simp]: "set (remdups_first xs) = set xs"
  by (simp add: remdups_first_def)

lemma risk_low:
  assumes "rsk_highest (summarizeRisk cs) = Some RiskLow" "c \<in> set cs"
  shows "config_type c \<in> {''direct'', ''block'', ''tcpRelay''}"
proof -
  have none: "filter (\<lambda>c. riskLevelFor (config_type c) = RiskHigh) cs = []" "filter (\<lambda>c. riskLevelFor (config_type c) = RiskMedium) cs = []"
    using assms(1) by (auto simp: summarizeRisk_def Let_def split: if_splits)
  with assms(2) have "riskLevelFor (config_type c) \<noteq> RiskHigh" "riskLevelFor (config_type c) \<noteq> RiskMedium"
    by (simp_all add: filter_empty_conv)
  then show ?thesis by (auto simp: riskLevelFor_def split: if_splits)
qed

lemma validateHostPort_clean:
  "validateHostPort tag host port label = [] \<longleftrightarrow> js_trim host \<noteq> [] \<and> \<not> list_ex is_space host \<and> 1 \<le> port \<and> port \<le> 65535"
  by (auto simp: validateHostPort_def)

lemma type_key: "(''type'', v) \<in> set (outbound_object c) \<longleftrightarrow> v = JStr (config_type c)"
  by (cases "otc_kind c") (auto simp: outbound_object_def opt_key_def split: option.splits)

lemma stable_type: "stable_object (outbound_object p) = stable_object (outbound_object c) \<Longrightarrow> config_type p = config_type c"
proof -
  assume eq: "stable_object (outbound_object p) = stable_object (outbound_object c)"
  let ?f = "\<lambda>(k, v). (k, sortValue v)"
  from eq have "set (sort_key fst (map ?f (outbound_object p))) = set (sort_key fst (map ?f (outbound_object c)))"
    by (simp add: stable_object_def stableJson_def)
  then have same: "?f ` set (outbound_object p) = ?f ` set (outbound_object c)" by simp
  have "(''type'', JStr (config_type p)) \<in> set (outbound_object p)" by (simp add: type_key)
  then have "?f (''type'', JStr (config_type p)) \<in> ?f ` set (outbound_object c)" unfolding same [symmetric] by (rule imageI)
  then obtain v where "(''type'', v) \<in> set (outbound_object c)" "sortValue v = JStr (config_type p)" by auto
  then show ?thesis by (simp add: type_key)
qed

lemma by_tag_get: "distinct (map outbound_tag cs) \<Longrightarrow> c \<in> set cs \<Longrightarrow> jm_get (by_tag cs) (outbound_tag c) = Some c"
proof -
  assume cs: "distinct (map outbound_tag cs)" "c \<in> set cs"
  have "map fst (rev (map (\<lambda>c. (outbound_tag c, c)) cs)) = rev (map outbound_tag cs)" by (simp add: rev_map comp_def)
  then have "distinct (map fst (rev (map (\<lambda>c. (outbound_tag c, c)) cs)))" using cs(1) by (metis distinct_rev)
  moreover have "(outbound_tag c, c) \<in> set (rev (map (\<lambda>c. (outbound_tag c, c)) cs))" using cs(2) by auto
  ultimately have "map_of (rev (map (\<lambda>c. (outbound_tag c, c)) cs)) (outbound_tag c) = Some c" by (rule map_of_is_SomeI)
  then show ?thesis by (simp add: by_tag_def jm_get_of_list)
qed

lemma diff_Inr:
  "diffOutboundConfigs current candidate config = Inr diff \<Longrightarrow>
    \<exists>references. policyReferences candidate config = Inr references"
  by (cases "policyReferences candidate config") (simp_all add: diffOutboundConfigs_def Let_def)

lemma diff_fields:
  assumes "diffOutboundConfigs current candidate config = Inr diff"
  shows "od_typeChanged diff = differing outbound_type (changed_pairs current candidate)"
    "od_renamed diff = fst (find_renames (not_in current candidate) (not_in candidate current) [])"
    "od_added diff = map outbound_tag (filter (\<lambda>c. outbound_tag c \<notin> set (fst (snd (find_renames (not_in current candidate) (not_in candidate current) [])))) (not_in current candidate))"
    "od_removed diff = map outbound_tag (filter (\<lambda>c. outbound_tag c \<notin> set (snd (snd (find_renames (not_in current candidate) (not_in candidate current) [])))) (not_in candidate current))"
proof -
  obtain references where refs: "policyReferences candidate config = Inr references" using diff_Inr [OF assms] by blast
  note built = assms [unfolded diffOutboundConfigs_def Let_def refs rbind_simps sum.inject, symmetric]
  show "od_typeChanged diff = differing outbound_type (changed_pairs current candidate)"
    unfolding built by (simp only: outbound_diff.select_convs)
  show "od_renamed diff = fst (find_renames (not_in current candidate) (not_in candidate current) [])"
    unfolding built by (simp only: outbound_diff.select_convs)
  show "od_added diff = map outbound_tag (filter (\<lambda>c. outbound_tag c \<notin> set (fst (snd (find_renames (not_in current candidate) (not_in candidate current) [])))) (not_in current candidate))"
    unfolding built by (simp only: outbound_diff.select_convs)
  show "od_removed diff = map outbound_tag (filter (\<lambda>c. outbound_tag c \<notin> set (snd (snd (find_renames (not_in current candidate) (not_in candidate current) [])))) (not_in candidate current))"
    unfolding built by (simp only: outbound_diff.select_convs)
qed

lemma typeChanged_Nil:
  assumes "od_typeChanged diff = []" "diffOutboundConfigs current candidate config = Inr diff"
    "c \<in> set candidate" "p \<in> set current" "outbound_tag p = outbound_tag c" "distinct (map outbound_tag current)"
  shows "config_type p = config_type c"
proof (rule ccontr)
  assume differ: "config_type p \<noteq> config_type c"
  have "jm_get (by_tag current) (outbound_tag c) = Some p" using by_tag_get [OF assms(6,4)] assms(5) by simp
  moreover have "stable_object (outbound_object p) \<noteq> stable_object (outbound_object c)" using stable_type differ by blast
  ultimately have "(p, c) \<in> set (changed_pairs current candidate)"
    unfolding changed_pairs_def set_concat by (intro UnionI [of "{(p, c)}"]) (simp_all add: assms(3) image_iff bexI [of _ c])
  then have "outbound_tag c \<in> set (differing outbound_type (changed_pairs current candidate))"
    unfolding differing_def set_map set_filter using differ by (intro image_eqI [of _ _ "(p, c)"]) simp_all
  with assms(1) diff_fields(1) [OF assms(2)] show False by simp
qed

lemma candidate_clean:
  assumes "ov_errors (validateOutboundGeneration cs dflt policies activePolicies diff refs ex) = []"
  shows "\<forall>c \<in> set cs. js_trim (outbound_tag c) \<noteq> [] \<and> fst (validateFields c) = []" (is ?fields)
    "distinct (map outbound_tag cs)" (is ?distinct)
    "dflt \<in> outbound_tag ` set cs \<or> dflt \<in> rp_tag ` set policies" (is ?default)
    "\<forall>p \<in> set policies. set (rp_outbounds p) \<subseteq> outbound_tag ` set cs" (is ?policies)
proof -
  obtain tags e1 w1 u1 where each: "validateEach ex cs [] = (tags, e1, w1, u1)" by (metis prod_cases4)
  from assms have errors: "e1 = []" "dflt \<in> set tags \<or> dflt \<in> rp_tag ` set policies" "validateOutboundPolicies policies tags = []"
    unfolding validateOutboundGeneration_def each Let_def by (simp_all split: if_splits)
  from validateEach_clean [of ex cs "[]"] errors(1) each
  have clean: ?fields ?distinct and tags: "set tags = outbound_tag ` set cs" by simp_all
  show ?fields ?distinct by (fact clean)+
  show ?default using errors(2) tags by simp
  show ?policies using errors(3) tags by (auto simp: validateOutboundPolicies_def filter_empty_conv)
qed

lemma candidate_types:
  assumes "ov_unsupportedChanges (validateOutboundGeneration cs dflt policies activePolicies diff refs ex) = []"
  shows "od_typeChanged diff = []"
  using assms by (simp add: validateOutboundGeneration_def Let_def split_beta)

lemma candidate_risk:
  "ov_riskSummary (validateOutboundGeneration cs dflt policies activePolicies diff refs ex) = summarizeRisk cs"
  by (simp add: validateOutboundGeneration_def Let_def split_beta)

section \<open>Renames\<close>

lemma find_renames_sound:
  "find_renames added olds ca0 = (rs, ca, cr) \<Longrightarrow>
     ca = ca0 @ map or_to rs \<and> cr = map or_from rs \<and> (distinct ca0 \<longrightarrow> distinct ca) \<and>
     set cr \<subseteq> outbound_tag ` set olds \<and> (distinct (map outbound_tag olds) \<longrightarrow> distinct cr) \<and>
     (\<forall>r \<in> set rs. \<exists>old \<in> set olds. \<exists>new \<in> set added. or_from r = outbound_tag old \<and> or_to r = outbound_tag new \<and> same_but_tag new old)"
proof (induction olds arbitrary: ca0 rs ca cr)
  case (Cons old olds)
  show ?case
  proof (cases "find (\<lambda>item. outbound_tag item \<notin> set ca0 \<and> same_but_tag item old) added")
    case None
    with Cons.prems Cons.IH show ?thesis by fastforce
  next
    case (Some new)
    obtain rs' ca' cr' where rest: "find_renames added olds (ca0 @ [outbound_tag new]) = (rs', ca', cr')" by (metis prod_cases3)
    from Some have new: "new \<in> set added" "outbound_tag new \<notin> set ca0" "same_but_tag new old" by (auto simp: find_Some_iff)
    from Cons.prems rest Some have result:
      "rs = \<lparr>or_from = outbound_tag old, or_to = outbound_tag new, or_type = config_type new\<rparr> # rs'" "ca = ca'" "cr = outbound_tag old # cr'"
      by simp_all
    note ih = Cons.IH [OF rest]
    have found: "\<forall>r \<in> set rs. \<exists>o' \<in> set (old # olds). \<exists>n \<in> set added. or_from r = outbound_tag o' \<and> or_to r = outbound_tag n \<and> same_but_tag n o'"
      using ih new unfolding result by auto
    have crs: "distinct cr" if "distinct (map outbound_tag (old # olds))" using that ih unfolding result by auto
    have cas: "distinct ca" if "distinct ca0"
    proof -
      from that new(2) have "distinct (ca0 @ [outbound_tag new])" by simp
      with ih show ?thesis unfolding result(2) by blast
    qed
    have "set cr \<subseteq> outbound_tag ` set (old # olds)" using ih unfolding result by auto
    with ih found crs cas show ?thesis unfolding result by simp
  qed
qed simp

lemma outbound_tag_not_in: "outbound_tag ` set (not_in others cs) = outbound_tag ` set cs - outbound_tag ` set others"
proof -
  have "jm_has (by_tag others) t \<longleftrightarrow> t \<in> outbound_tag ` set others" for t
    by (simp add: jm_has_get by_tag_def jm_get_of_list map_of_eq_None_iff image_image)
  then show ?thesis by (auto simp: not_in_def)
qed

lemma distinct_not_in: "distinct (map outbound_tag cs) \<Longrightarrow> distinct (map outbound_tag (not_in others cs))"
  unfolding not_in_def by (rule distinct_map_filter)

lemma set_not_in: "set (not_in others cs) \<subseteq> set cs"
  by (auto simp: not_in_def)

lemma outbound_diff_parts:
  assumes "diffOutboundConfigs current candidate config = Inr diff" "distinct (map outbound_tag current)"
  shows "set (od_added diff) \<union> or_to ` set (od_renamed diff) = outbound_tag ` set candidate - outbound_tag ` set current"
    and "set (od_added diff) \<inter> or_to ` set (od_renamed diff) = {}"
    and "set (od_removed diff) \<union> or_from ` set (od_renamed diff) = outbound_tag ` set current - outbound_tag ` set candidate"
    and "set (od_removed diff) \<inter> or_from ` set (od_renamed diff) = {}"
    and "distinct (map or_to (od_renamed diff)) \<and> distinct (map or_from (od_renamed diff))"
    and "\<forall>r \<in> set (od_renamed diff). \<exists>old \<in> set current. \<exists>new \<in> set candidate.
      or_from r = outbound_tag old \<and> or_to r = outbound_tag new \<and> same_but_tag new old"
proof -
  obtain rs ca cr where renames: "find_renames (not_in current candidate) (not_in candidate current) [] = (rs, ca, cr)"
    by (metis prod_cases3)
  note fields = diff_fields [OF assms(1), unfolded renames fst_conv snd_conv]
  note sound = find_renames_sound [OF renames]
  from sound have taken: "set ca = or_to ` set rs" "set cr = or_from ` set rs" "distinct (map or_to rs)" by auto
  from sound distinct_not_in [OF assms(2)] have once: "distinct (map or_from rs)" by auto
  from sound have found: "\<forall>r \<in> set rs. \<exists>old \<in> set (not_in candidate current). \<exists>new \<in> set (not_in current candidate).
      or_from r = outbound_tag old \<and> or_to r = outbound_tag new \<and> same_but_tag new old" by blast
  then have inside: "or_to ` set rs \<subseteq> outbound_tag ` set (not_in current candidate)"
    "or_from ` set rs \<subseteq> outbound_tag ` set (not_in candidate current)" by auto
  have split: "outbound_tag ` {c \<in> S. outbound_tag c \<notin> T} \<union> T = outbound_tag ` S" if "T \<subseteq> outbound_tag ` S" for S T
    using that by auto
  show "set (od_added diff) \<union> or_to ` set (od_renamed diff) = outbound_tag ` set candidate - outbound_tag ` set current"
    using split [OF inside(1)] by (simp add: fields taken outbound_tag_not_in)
  show "set (od_removed diff) \<union> or_from ` set (od_renamed diff) = outbound_tag ` set current - outbound_tag ` set candidate"
    using split [OF inside(2)] by (simp add: fields taken outbound_tag_not_in)
  show "set (od_added diff) \<inter> or_to ` set (od_renamed diff) = {}" "set (od_removed diff) \<inter> or_from ` set (od_renamed diff) = {}"
    by (auto simp: fields taken)
  show "distinct (map or_to (od_renamed diff)) \<and> distinct (map or_from (od_renamed diff))"
    using taken(3) once by (simp add: fields)
  show "\<forall>r \<in> set (od_renamed diff). \<exists>old \<in> set current. \<exists>new \<in> set candidate.
      or_from r = outbound_tag old \<and> or_to r = outbound_tag new \<and> same_but_tag new old"
    using found set_not_in unfolding fields by blast
qed

text \<open>
  The differences of two lists of outbounds account for every tag once. When the tags of
  the current list are distinct, the tags only the candidate has are those added and those renamed to,
  and no tag is both; the tags only the current list has are those removed and those renamed from, and
  no tag is both; no tag is renamed twice or taken twice, and a rename connects two configurations that
  differ in the tag alone.
\<close>

lemma outbound_diff_partition:
  assumes "diffOutboundConfigs current candidate config = Inr diff" "distinct (map outbound_tag current)"
  shows "set (od_added diff) \<union> or_to ` set (od_renamed diff) = outbound_tag ` set candidate - outbound_tag ` set current \<and>
    set (od_added diff) \<inter> or_to ` set (od_renamed diff) = {} \<and>
    set (od_removed diff) \<union> or_from ` set (od_renamed diff) = outbound_tag ` set current - outbound_tag ` set candidate \<and>
    set (od_removed diff) \<inter> or_from ` set (od_renamed diff) = {} \<and>
    distinct (map or_to (od_renamed diff)) \<and> distinct (map or_from (od_renamed diff)) \<and>
    (\<forall>r \<in> set (od_renamed diff). \<exists>old \<in> set current. \<exists>new \<in> set candidate.
      or_from r = outbound_tag old \<and> or_to r = outbound_tag new \<and> same_but_tag new old)"
  using outbound_diff_parts [OF assms] by blast

text \<open>A renamed outbound and a new one beside one that stays.\<close>

definition sample_outbound :: "string \<Rightarrow> outbound_kind \<Rightarrow> outbound_config" where
  "sample_outbound tag kind =
     \<lparr>otc_base = \<lparr>otb_tag = tag, otb_connectTimeoutMs = None, otb_idleTimeoutMs = None\<rparr>, otc_kind = kind\<rparr>"

section \<open>Errors\<close>

lemma add_references_fails:
  "(\<exists>e. add_references rs refs = Inl e) \<longleftrightarrow> (\<exists>(t, s) \<in> set rs. t \<in> set prototype_members)"
  if "\<forall>t \<in> set prototype_members. jm_get refs t = None"
  using that
proof (induction rs arbitrary: refs)
  case (Cons r rs)
  obtain t s where r: "r = (t, s)" by (cases r)
  show ?case
  proof (cases "t \<in> set prototype_members")
    case True
    with Cons.prems have "add_reference t s refs = Inl (TypeError ''current.includes is not a function'')"
      by (simp add: add_reference_def)
    with True show ?thesis by (simp add: r)
  next
    case False
    then have "\<exists>refs'. add_reference t s refs = Inr refs'" by (cases "jm_get refs t") (simp_all add: add_reference_def)
    then obtain refs' where refs': "add_reference t s refs = Inr refs'" ..
    then have "\<forall>m \<in> set prototype_members. jm_get refs' m = None"
      using False Cons.prems by (auto simp: add_reference_def split: option.splits if_splits)
    from Cons.IH [OF this] False show ?thesis by (auto simp: r refs')
  qed
qed simp

lemma add_references_error: "add_references rs refs = Inl e \<Longrightarrow> e = TypeError ''current.includes is not a function''"
proof (induction rs arbitrary: refs)
  case (Cons r rs)
  obtain t s where r: "r = (t, s)" by (cases r)
  with Cons show ?case
    by (cases "add_reference t s refs") (auto simp: add_reference_def split: option.splits if_splits)
qed simp

lemma assertUniqueTags_fails:
  "(\<exists>e. assertUniqueTags tags cs = Inl e) \<longleftrightarrow> \<not> distinct (map outbound_tag cs) \<or> set (map outbound_tag cs) \<inter> set tags \<noteq> {}"
  by (induction cs arbitrary: tags) auto

lemma newOutboundGeneration_fails:
  "(\<exists>e. newOutboundGeneration hs i cs dflt ps health state parent now = Inl e) \<longleftrightarrow> \<not> distinct (map outbound_tag cs)"
  using assertUniqueTags_fails [of "[]" cs]
  by (cases "assertUniqueTags [] cs") (auto simp: newOutboundGeneration_def Let_def)

lemma diff_fails:
  "(\<exists>e. diffOutboundConfigs current candidate config = Inl e) \<longleftrightarrow> (\<exists>e. policyReferences candidate config = Inl e)"
  by (cases "policyReferences candidate config") (simp_all add: diffOutboundConfigs_def Let_def)

text \<open>
  Building a candidate generation fails in two cases only: when two outbounds share a tag,
  and when the default, a rule or a policy refers to a tag that is the name of a member of
  \<^verbatim>\<open>Object.prototype\<close>, whether or not such an outbound exists. In the second case the failure is a
  bare \<^verbatim>\<open>TypeError\<close>, and it comes first.
\<close>

lemma outbound_build_fails:
  "((\<exists>b. buildOutboundGeneration hs i current candidate route policies health refs parent ex now = Inr b) =
      (distinct (map outbound_tag candidate) \<and> fst ` set (route_references route) \<inter> set prototype_members = {})) \<and>
   ((buildOutboundGeneration hs i current candidate route policies health refs parent ex now =
        Inl (TypeError ''current.includes is not a function'')) =
      (fst ` set (route_references route) \<inter> set prototype_members \<noteq> {}))"
proof -
  let ?bad = "fst ` set (route_references route) \<inter> set prototype_members \<noteq> {}"
  let ?diff = "diffOutboundConfigs current candidate (Some route)"
  have bad: "(\<exists>e. policyReferences candidate (Some route) = Inl e) \<longleftrightarrow> ?bad"
    using add_references_fails [of "[]" "route_references route"] by (force simp: policyReferences_def)
  show ?thesis
  proof (cases ?diff)
    case (Inl e)
    with diff_fails [of current candidate "Some route"] bad have b: ?bad by blast
    have "e = TypeError ''current.includes is not a function''"
      using Inl add_references_error
      by (cases "policyReferences candidate (Some route)") (auto simp: diffOutboundConfigs_def Let_def policyReferences_def)
    with Inl b show ?thesis by (simp add: buildOutboundGeneration_def)
  next
    case (Inr diff)
    with diff_fails [of current candidate "Some route"] bad have b: "\<not> ?bad" by auto
    have no_type_error: "newOutboundGeneration hs i candidate d ps health OCandidate parent now \<noteq> Inl (TypeError m)" for d ps m
    proof -
      have "assertUniqueTags tags cs \<noteq> Inl (TypeError m)" for tags cs by (induction cs arbitrary: tags) simp_all
      then show ?thesis by (cases "assertUniqueTags [] candidate") (auto simp: newOutboundGeneration_def Let_def)
    qed
    note fails = newOutboundGeneration_fails [of hs i candidate "rtc_defaultOutbound route" "rtc_policies route" health OCandidate parent now]
    show ?thesis
      using fails no_type_error b Inr
      by (cases "newOutboundGeneration hs i candidate (rtc_defaultOutbound route) (rtc_policies route) health OCandidate parent now")
        (auto simp: buildOutboundGeneration_def Let_def)
  qed
qed

section \<open>Redaction\<close>

text \<open>
  What redaction should hide, without the code's test and its recursion: a key names a secret when one
  of five words occurs in it, in any case, and two values agree up to secrets when they have the same
  shape and their plain values agree, those next to which a secret key stands left aside.
\<close>

definition names_secret :: "string \<Rightarrow> bool" where
  "names_secret key \<longleftrightarrow>
     sublist ''password'' (js_lower key) \<or> sublist ''token'' (js_lower key) \<or> sublist ''secret'' (js_lower key) \<or>
     sublist ''privatekey'' (js_lower key) \<or> sublist ''presharedkey'' (js_lower key)"

fun agree :: "string \<Rightarrow> json \<Rightarrow> json \<Rightarrow> bool"
  and agree_items :: "json list \<Rightarrow> json list \<Rightarrow> bool"
  and agree_fields :: "jobj \<Rightarrow> jobj \<Rightarrow> bool" where
  "agree key (JArr vs) (JArr ws) \<longleftrightarrow> agree_items vs ws"
| "agree key (JObj r) (JObj s) \<longleftrightarrow> agree_fields r s"
| "agree key (JArr vs) w \<longleftrightarrow> False"
| "agree key v (JArr ws) \<longleftrightarrow> False"
| "agree key (JObj r) w \<longleftrightarrow> False"
| "agree key v (JObj s) \<longleftrightarrow> False"
| "agree key v w \<longleftrightarrow> names_secret key \<or> v = w"
| "agree_items [] [] \<longleftrightarrow> True"
| "agree_items (v # vs) (w # ws) \<longleftrightarrow> agree [] v w \<and> agree_items vs ws"
| "agree_items _ _ \<longleftrightarrow> False"
| "agree_fields [] [] \<longleftrightarrow> True"
| "agree_fields ((k, v) # r) ((l, w) # s) \<longleftrightarrow> k = l \<and> agree k v w \<and> agree_fields r s"
| "agree_fields _ _ \<longleftrightarrow> False"

lemma includes_text_sublist: "includes_text pat s \<longleftrightarrow> sublist pat s"
  by (induction s) (auto simp: sublist_Cons_right)

lemma isSecretKey_names: "isSecretKey key \<longleftrightarrow> names_secret key"
  by (simp add: isSecretKey_def names_secret_def includes_text_sublist)

lemma redact_agree:
  "redactValue key v = redactValue key w \<longleftrightarrow> agree key v w"
  "map (redactValue []) vs = map (redactValue []) ws \<longleftrightarrow> agree_items vs ws"
  "map (\<lambda>(k, v). (k, redactValue k v)) r = map (\<lambda>(k, v). (k, redactValue k v)) s \<longleftrightarrow> agree_fields r s"
  by (induction key v w and vs ws and r s rule: agree_agree_items_agree_fields.induct) (auto simp: isSecretKey_names)

lemma agree_refl: "agree key v v" "agree_items vs vs" "agree_fields r r"
  using redact_agree by blast+

lemma agree_fields_append:
  "agree_fields (r @ (k, v) # s) (r @ (k, w) # s) \<longleftrightarrow> agree k v w"
  "agree_fields (r @ s) (r @ s') \<longleftrightarrow> agree_fields s s'"
  by (induction r) (auto simp: agree_refl)

lemma secret_fields: "names_secret ''password''" "names_secret ''privateKey''" "\<not> names_secret []" "\<not> names_secret ''value''"
  unfolding isSecretKey_names [symmetric] by code_simp+

text \<open>
  Property C21. The snapshot a generation keeps of an outbound hides its secrets and nothing else: two
  configurations have the same snapshot if and only if they agree up to the plain values of the keys
  that name a secret. So it does not depend on the password of Shadowsocks and Trojan, on the private
  key of WireGuard, or on a plain plugin option with such a key. But the key is lost on the way into an
  array and into an object: a secret in a list, or one level below such a key, stands in the snapshot.
\<close>

theorem outbound_redaction:
  "((redactOutboundConfig c = redactOutboundConfig c') = agree [] (JObj (outbound_object c)) (JObj (outbound_object c'))) \<and>
   redactOutboundConfig \<lparr>otc_base = b, otc_kind = ShadowsocksOutbound host port method s1\<rparr> =
     redactOutboundConfig \<lparr>otc_base = b, otc_kind = ShadowsocksOutbound host port method s2\<rparr> \<and>
   redactOutboundConfig \<lparr>otc_base = b, otc_kind = TrojanOutbound host port s1 tls\<rparr> =
     redactOutboundConfig \<lparr>otc_base = b, otc_kind = TrojanOutbound host port s2 tls\<rparr> \<and>
   redactOutboundConfig \<lparr>otc_base = b, otc_kind = WireGuardOutbound s1 address peer reserved\<rparr> =
     redactOutboundConfig \<lparr>otc_base = b, otc_kind = WireGuardOutbound s2 address peer reserved\<rparr> \<and>
   ((redactOutboundConfig \<lparr>otc_base = b, otc_kind = PluginOutbound kind (xs @ (key, JStr s1) # ys)\<rparr> =
     redactOutboundConfig \<lparr>otc_base = b, otc_kind = PluginOutbound kind (xs @ (key, JStr s2) # ys)\<rparr>) = (names_secret key \<or> s1 = s2)) \<and>
   ((redactOutboundConfig \<lparr>otc_base = b, otc_kind = PluginOutbound kind (xs @ (key, JArr [JStr s1]) # ys)\<rparr> =
     redactOutboundConfig \<lparr>otc_base = b, otc_kind = PluginOutbound kind (xs @ (key, JArr [JStr s2]) # ys)\<rparr>) = (s1 = s2)) \<and>
   ((redactOutboundConfig \<lparr>otc_base = b, otc_kind = PluginOutbound kind (xs @ (key, JObj [(''value'', JStr s1)]) # ys)\<rparr> =
     redactOutboundConfig \<lparr>otc_base = b, otc_kind = PluginOutbound kind (xs @ (key, JObj [(''value'', JStr s2)]) # ys)\<rparr>) = (s1 = s2))"
  unfolding redactOutboundConfig_def redact_agree
  by (simp add: outbound_object_def agree_fields_append agree_refl secret_fields)

end
