(* ===== verification/OutboundRegistry.thy ===== *)
theory OutboundRegistry
  imports OutboundGenProofs
begin

text \<open>
  The registry of outbound generations (\<^verbatim>\<open>src/outbound/runtimeRegistry.ts\<close>, with the usage count
  of \<^verbatim>\<open>OutboundGeneration\<close>). Outbounds are objects shared with connections, so they live in a
  store, a list indexed by reference, that also counts how often each was stopped; the references
  handed out live in a second one, which is the code's \<^verbatim>\<open>WeakMap\<close> of releases. Stopping an
  outbound is taken to succeed. The callbacks of the host, which register outbounds with the engine's
  lifecycle, are left out.
\<close>

section \<open>State\<close>

record runtime_outbound =
  ro_tag :: string
  ro_type :: string
  ro_stops :: nat

record runtime_record =
  rec_generation :: outbound_generation
  rec_usage :: nat
  rec_sequence :: nat
  rec_outbounds :: "(string, nat) jsmap"
  rec_referencesByTag :: "(string, nat) jsmap"
  rec_draining :: bool

record outbound_reference =
  orf_id :: string
  orf_generationId :: string
  orf_tag :: string
  orf_outbound :: nat
  orf_released :: bool

record outbound_registry =
  obr_activeGenerationId :: string
  obr_records :: "(string, runtime_record) jsmap"
  obr_references :: "outbound_reference list"
  obr_nextReferenceId :: nat
  obr_rejectedUnsupported :: nat
  obr_objects :: "runtime_outbound list"

definition unavailable :: "string \<Rightarrow> js_error" where
  "unavailable i = PlainError (''outbound runtime generation '' @ quoted i @ '' is unavailable'')"

fun checkRuntimeEntries :: "outbound_generation \<Rightarrow> (string, nat) jsmap \<Rightarrow> runtime_outbound list \<Rightarrow> string list \<Rightarrow> unit result" where
  "checkRuntimeEntries g outbounds objects [] =
     (if length outbounds \<noteq> length (og_outboundTags g)
      then Inl (PlainError ''outbound runtime generation contains unexpected objects'') else Inr ())"
| "checkRuntimeEntries g outbounds objects (tag # tags) =
     (case jm_get outbounds tag of
        None \<Rightarrow> Inl (PlainError (''outbound runtime generation is missing object '' @ quoted tag))
      | Some k \<Rightarrow>
          if Some (ro_type (objects ! k)) \<noteq> map_option oe_type (jm_get (og_registrySnapshot g) tag)
          then Inl (PlainError (''outbound runtime generation type mismatch for '' @ quoted tag))
          else checkRuntimeEntries g outbounds objects tags)"

definition validateRuntimeEntries :: "outbound_generation \<Rightarrow> (string, nat) jsmap \<Rightarrow> runtime_outbound list \<Rightarrow> unit result" where
  "validateRuntimeEntries g outbounds objects = checkRuntimeEntries g outbounds objects (og_outboundTags g)"

definition newOutboundRegistry ::
  "outbound_generation \<Rightarrow> (string, nat) jsmap \<Rightarrow> runtime_outbound list \<Rightarrow> outbound_registry result" where
  "newOutboundRegistry g outbounds objects =
     rbind (validateRuntimeEntries g outbounds objects) (\<lambda>u.
       Inr \<lparr>obr_activeGenerationId = og_id g,
            obr_records = [(og_id g, \<lparr>rec_generation = g, rec_usage = 0, rec_sequence = 0, rec_outbounds = outbounds,
                                      rec_referencesByTag = [], rec_draining = False\<rparr>)],
            obr_references = [], obr_nextReferenceId = 1, obr_rejectedUnsupported = 0, obr_objects = objects\<rparr>)"

section \<open>Operations\<close>

definition requireRecord :: "outbound_registry \<Rightarrow> string \<Rightarrow> runtime_record result" where
  "requireRecord r i = (case jm_get (obr_records r) i of None \<Rightarrow> Inl (unavailable i) | Some x \<Rightarrow> Inr x)"

definition getActiveGeneration :: "outbound_registry \<Rightarrow> outbound_generation result" where
  "getActiveGeneration r = rbind (requireRecord r (obr_activeGenerationId r)) (\<lambda>x. Inr (rec_generation x))"

definition getOutbound :: "outbound_registry \<Rightarrow> string \<Rightarrow> string \<Rightarrow> nat option" where
  "getOutbound r tag i = Option.bind (jm_get (obr_records r) i) (\<lambda>x. jm_get (rec_outbounds x) tag)"

definition reference_name :: "nat \<Rightarrow> string" where
  "reference_name n = ''outbound-ref-'' @ show_nat n"

definition acquireOutboundRef :: "string \<Rightarrow> string \<Rightarrow> outbound_registry \<Rightarrow> nat option \<times> outbound_registry" where
  "acquireOutboundRef tag i r =
     (case jm_get (obr_records r) i of
        None \<Rightarrow> (None, r)
      | Some x \<Rightarrow>
          case jm_get (rec_outbounds x) tag of
            None \<Rightarrow> (None, r)
          | Some k \<Rightarrow>
              (let n = (case jm_get (rec_referencesByTag x) tag of Some n \<Rightarrow> n | None \<Rightarrow> 0);
                   x1 = x\<lparr>rec_usage := rec_usage x + 1, rec_referencesByTag := jm_set tag (n + 1) (rec_referencesByTag x)\<rparr>;
                   reference = \<lparr>orf_id = reference_name (obr_nextReferenceId r), orf_generationId = i,
                                orf_tag = tag, orf_outbound = k, orf_released = False\<rparr>
               in (Some (length (obr_references r)),
                   r\<lparr>obr_records := jm_set i x1 (obr_records r), obr_references := obr_references r @ [reference],
                     obr_nextReferenceId := obr_nextReferenceId r + 1\<rparr>)))"

definition stop_object :: "nat \<Rightarrow> runtime_outbound list \<Rightarrow> runtime_outbound list" where
  "stop_object k objects = objects[k := (objects ! k)\<lparr>ro_stops := ro_stops (objects ! k) + 1\<rparr>]"

definition retireIfUnused :: "string \<Rightarrow> outbound_registry \<Rightarrow> bool \<times> outbound_registry" where
  "retireIfUnused i r =
     (case jm_get (obr_records r) i of
        None \<Rightarrow> (False, r)
      | Some x \<Rightarrow>
          if i = obr_activeGenerationId r \<or> rec_usage x > 0 then (False, r)
          else (True, r\<lparr>obr_records := jm_del i (obr_records r),
                        obr_objects := fold stop_object (jm_vals (rec_outbounds x)) (obr_objects r)\<rparr>))"

definition drop_reference :: "string \<Rightarrow> runtime_record \<Rightarrow> runtime_record" where
  "drop_reference tag x =
     (let remaining = (case jm_get (rec_referencesByTag x) tag of Some n \<Rightarrow> n | None \<Rightarrow> 1) - 1 in
      x\<lparr>rec_usage := rec_usage x - 1,
        rec_referencesByTag := (if remaining = 0 then jm_del tag (rec_referencesByTag x)
                                else jm_set tag remaining (rec_referencesByTag x))\<rparr>)"

definition releaseOutboundRef :: "nat \<Rightarrow> outbound_registry \<Rightarrow> outbound_registry" where
  "releaseOutboundRef k r =
     (let reference = obr_references r ! k; i = orf_generationId reference in
      if orf_released reference then r
      else (let r1 = r\<lparr>obr_references := (obr_references r)[k := reference\<lparr>orf_released := True\<rparr>]\<rparr>;
                r2 = (case jm_get (obr_records r1) i of
                        None \<Rightarrow> r1
                      | Some x \<Rightarrow> r1\<lparr>obr_records := jm_set i (drop_reference (orf_tag reference) x) (obr_records r1)\<rparr>)
            in snd (retireIfUnused i r2)))"

definition switchGeneration :: "outbound_generation \<Rightarrow> (string, nat) jsmap \<Rightarrow> outbound_registry \<Rightarrow> string result \<times> outbound_registry" where
  "switchGeneration candidate outbounds r =
     (if jm_has (obr_records r) (og_id candidate)
      then (Inl (PlainError (''outbound runtime generation '' @ quoted (og_id candidate) @ '' already exists'')), r)
      else case validateRuntimeEntries candidate outbounds (obr_objects r) of
        Inl e \<Rightarrow> (Inl e, r)
      | Inr u \<Rightarrow>
          case jm_get (obr_records r) (obr_activeGenerationId r) of
            None \<Rightarrow> (Inl (unavailable (obr_activeGenerationId r)), r)
          | Some old \<Rightarrow>
              (let x = \<lparr>rec_generation = candidate, rec_usage = 0, rec_sequence = rec_sequence old + 1, rec_outbounds = outbounds,
                        rec_referencesByTag = [], rec_draining = False\<rparr>
               in (Inr (og_id (rec_generation old)),
                   r\<lparr>obr_records := jm_set (og_id candidate) x
                       (jm_set (obr_activeGenerationId r) (old\<lparr>rec_draining := True\<rparr>) (obr_records r)),
                     obr_activeGenerationId := og_id candidate\<rparr>)))"

definition restoreGeneration :: "string \<Rightarrow> string \<Rightarrow> outbound_registry \<Rightarrow> unit result \<times> outbound_registry" where
  "restoreGeneration oldId candidateId r =
     (case jm_get (obr_records r) oldId of
        None \<Rightarrow> (Inl (unavailable oldId), r)
      | Some old \<Rightarrow>
          case jm_get (obr_records r) candidateId of
            None \<Rightarrow> (Inl (unavailable candidateId), r)
          | Some candidate \<Rightarrow>
              (let records = jm_set candidateId (candidate\<lparr>rec_draining := True\<rparr>) (obr_records r);
                   old1 = (if oldId = candidateId then candidate\<lparr>rec_draining := True\<rparr> else old)
               in (Inr (), r\<lparr>obr_records := jm_set oldId (old1\<lparr>rec_draining := False\<rparr>) records,
                             obr_activeGenerationId := oldId\<rparr>)))"

definition markDraining :: "string \<Rightarrow> outbound_registry \<Rightarrow> unit result \<times> outbound_registry" where
  "markDraining i r =
     (case jm_get (obr_records r) i of
        None \<Rightarrow> (Inl (unavailable i), r)
      | Some x \<Rightarrow>
          (Inr (), if i \<noteq> obr_activeGenerationId r then r\<lparr>obr_records := jm_set i (x\<lparr>rec_draining := True\<rparr>) (obr_records r)\<rparr> else r))"

definition recordRejectedUnsupported :: "outbound_registry \<Rightarrow> outbound_registry" where
  "recordRejectedUnsupported r = r\<lparr>obr_rejectedUnsupported := obr_rejectedUnsupported r + 1\<rparr>"

definition activeReferenceTags :: "outbound_registry \<Rightarrow> string \<Rightarrow> string list result" where
  "activeReferenceTags r i = rbind (requireRecord r i) (\<lambda>x. Inr (jm_keys (rec_referencesByTag x)))"

text \<open>\<^verbatim>\<open>stopAll\<close> stops every object once, also one that several generations share.\<close>

definition stopAll :: "outbound_registry \<Rightarrow> outbound_registry" where
  "stopAll r =
     r\<lparr>obr_records := [],
       obr_objects := fold stop_object (remdups_first (concat (map (\<lambda>x. jm_vals (rec_outbounds x)) (jm_vals (obr_records r))))) (obr_objects r)\<rparr>"

record registry_entry =
  re_tag :: string
  re_type :: string
  re_configHash :: string
  re_riskLevel :: risk_level
  re_experimental :: bool
  re_referenceCount :: nat

record registry_generation =
  rgs_id :: string
  rgs_sequence :: nat
  rgs_draining :: bool
  rgs_referenceCount :: nat
  rgs_entries :: "registry_entry list"

record registry_snapshot =
  rss_activeGenerationId :: string
  rss_activeGenerationSequence :: nat
  rss_drainingGenerations :: nat
  rss_rejectedUnsupported :: nat
  rss_generations :: "registry_generation list"

definition snapshotGeneration :: "runtime_record \<Rightarrow> registry_generation" where
  "snapshotGeneration x =
     \<lparr>rgs_id = og_id (rec_generation x), rgs_sequence = rec_sequence x, rgs_draining = rec_draining x,
      rgs_referenceCount = rec_usage x,
      rgs_entries = map (\<lambda>e. \<lparr>re_tag = oe_tag e, re_type = oe_type e, re_configHash = oe_configHash e,
         re_riskLevel = oe_riskLevel e, re_experimental = oe_experimental e,
         re_referenceCount = (case jm_get (rec_referencesByTag x) (oe_tag e) of Some n \<Rightarrow> n | None \<Rightarrow> 0)\<rparr>)
         (jm_vals (og_registrySnapshot (rec_generation x)))\<rparr>"

definition registrySnapshot :: "outbound_registry \<Rightarrow> registry_snapshot result" where
  "registrySnapshot r =
     (let records = map snapshotGeneration (sort_key rec_sequence (jm_vals (obr_records r))) in
      rbind (requireRecord r (obr_activeGenerationId r)) (\<lambda>active.
        Inr \<lparr>rss_activeGenerationId = og_id (rec_generation active), rss_activeGenerationSequence = rec_sequence active,
             rss_drainingGenerations = length (filter rgs_draining records),
             rss_rejectedUnsupported = obr_rejectedUnsupported r, rss_generations = records\<rparr>))"

section \<open>Histories\<close>

text \<open>
  What happens to a registry: outbounds are created by a reload, traffic takes and gives back
  references, a reload switches, restores and retires, the reload adapter stops the outbounds of a
  candidate that is not registered (its \<^verbatim>\<open>stopOutbounds\<close>, from a failed prepare or from
  cleanup), and the engine stops them all. References name handed out ones; a switch brings objects
  that exist, were not stopped and nobody else uses; what the adapter stops belongs to no record, but
  may have belonged to one that is gone.
\<close>

datatype registry_event =
    CreateOutbound string string
  | Acquire string string
  | Release nat
  | Switch outbound_generation "(string, nat) jsmap"
  | Restore string string
  | MarkDraining string
  | Retire string
  | Dispose "(string, nat) jsmap"
  | StopAll

definition fresh_objects :: "outbound_registry \<Rightarrow> (string, nat) jsmap \<Rightarrow> bool" where
  "fresh_objects r outbounds \<longleftrightarrow> jm_ok outbounds \<and> distinct (jm_vals outbounds) \<and>
     (\<forall>k \<in> set (jm_vals outbounds). k < length (obr_objects r) \<and> ro_stops (obr_objects r ! k) = 0 \<and>
        (\<forall>x \<in> set (jm_vals (obr_records r)). k \<notin> set (jm_vals (rec_outbounds x))))"

definition stopOutbounds :: "(string, nat) jsmap \<Rightarrow> outbound_registry \<Rightarrow> outbound_registry" where
  "stopOutbounds outbounds r = r\<lparr>obr_objects := fold stop_object (jm_vals outbounds) (obr_objects r)\<rparr>"

definition unregistered :: "outbound_registry \<Rightarrow> (string, nat) jsmap \<Rightarrow> bool" where
  "unregistered r outbounds \<longleftrightarrow>
     (\<forall>k \<in> set (jm_vals outbounds). \<forall>x \<in> set (jm_vals (obr_records r)). k \<notin> set (jm_vals (rec_outbounds x)))"

fun registry_step :: "registry_event \<Rightarrow> outbound_registry \<Rightarrow> outbound_registry" where
  "registry_step (CreateOutbound tag t) r = r\<lparr>obr_objects := obr_objects r @ [\<lparr>ro_tag = tag, ro_type = t, ro_stops = 0\<rparr>]\<rparr>"
| "registry_step (Acquire tag i) r = snd (acquireOutboundRef tag i r)"
| "registry_step (Release k) r = (if k < length (obr_references r) then releaseOutboundRef k r else r)"
| "registry_step (Switch g outbounds) r = (if fresh_objects r outbounds then snd (switchGeneration g outbounds r) else r)"
| "registry_step (Restore old candidate) r = snd (restoreGeneration old candidate r)"
| "registry_step (MarkDraining i) r = snd (markDraining i r)"
| "registry_step (Retire i) r = snd (retireIfUnused i r)"
| "registry_step (Dispose outbounds) r = (if unregistered r outbounds then stopOutbounds outbounds r else r)"
| "registry_step StopAll r = stopAll r"

end
