(* ===== verification/OutboundRegistryInv.thy ===== *)
theory OutboundRegistryInv
  imports OutboundRegistry
begin

text \<open>
  The invariant of the outbound registry: usage counts are the references still out, and an outbound
  that can be reached through a record was never stopped. It lasts until the registry is stopped as a
  whole, which leaves it empty.
\<close>

section \<open>The invariant\<close>

definition live_refs :: "outbound_reference list \<Rightarrow> string \<Rightarrow> nat" where
  "live_refs fs i = length (filter (\<lambda>f. \<not> orf_released f \<and> orf_generationId f = i) fs)"

definition live_tag :: "outbound_reference list \<Rightarrow> string \<Rightarrow> string \<Rightarrow> nat" where
  "live_tag fs i t = length (filter (\<lambda>f. \<not> orf_released f \<and> orf_generationId f = i \<and> orf_tag f = t) fs)"

definition record_ok :: "outbound_reference list \<Rightarrow> runtime_outbound list \<Rightarrow> string \<Rightarrow> runtime_record \<Rightarrow> bool" where
  "record_ok fs bs i x \<longleftrightarrow> og_id (rec_generation x) = i \<and> rec_usage x = live_refs fs i \<and>
     (\<forall>t. jm_get (rec_referencesByTag x) t = (if live_tag fs i t = 0 then None else Some (live_tag fs i t))) \<and>
     jm_ok (rec_outbounds x) \<and> distinct (jm_vals (rec_outbounds x)) \<and>
     (\<forall>k \<in> set (jm_vals (rec_outbounds x)). k < length bs \<and> ro_stops (bs ! k) = 0)"

definition apart :: "(string \<Rightarrow> runtime_record option) \<Rightarrow> bool" where
  "apart rs \<longleftrightarrow> (\<forall>i j x y. rs i = Some x \<longrightarrow> rs j = Some y \<longrightarrow> i \<noteq> j \<longrightarrow>
     set (jm_vals (rec_outbounds x)) \<inter> set (jm_vals (rec_outbounds y)) = {})"

definition reference_ok :: "(string \<Rightarrow> runtime_record option) \<Rightarrow> outbound_reference \<Rightarrow> bool" where
  "reference_ok rs f \<longleftrightarrow> orf_released f \<or>
     (\<exists>x. rs (orf_generationId f) = Some x \<and> jm_get (rec_outbounds x) (orf_tag f) = Some (orf_outbound f))"

text \<open>The invariant, in terms of the parts it reads.\<close>

definition parts_ok :: "(string \<Rightarrow> runtime_record option) \<Rightarrow> string \<Rightarrow> outbound_reference list \<Rightarrow> runtime_outbound list \<Rightarrow> bool" where
  "parts_ok rs a fs bs \<longleftrightarrow>
     (\<exists>x. rs a = Some x \<and> \<not> rec_draining x) \<and> (\<forall>i x. rs i = Some x \<longrightarrow> record_ok fs bs i x) \<and> apart rs \<and>
     (\<forall>f \<in> set fs. reference_ok rs f)"

definition registry_ok :: "outbound_registry \<Rightarrow> bool" where
  "registry_ok r \<longleftrightarrow> jm_ok (obr_records r) \<and>
     parts_ok (jm_get (obr_records r)) (obr_activeGenerationId r) (obr_references r) (obr_objects r)"

lemma parts_record: "parts_ok rs a fs bs \<Longrightarrow> rs i = Some x \<Longrightarrow> record_ok fs bs i x"
  by (simp add: parts_ok_def)

lemma filter_conj_le: "length (filter (\<lambda>x. A x \<and> B x \<and> C x) xs) \<le> length (filter (\<lambda>x. A x \<and> B x) xs)"
  by (induction xs) auto

lemma live_tag_le: "live_tag fs i t \<le> live_refs fs i"
  unfolding live_tag_def live_refs_def by (rule filter_conj_le)

lemma live_absent: "parts_ok rs a fs bs \<Longrightarrow> rs i = None \<Longrightarrow> live_refs fs i = 0 \<and> live_tag fs i t = 0"
proof -
  assume "parts_ok rs a fs bs" "rs i = None"
  then have "live_refs fs i = 0" unfolding parts_ok_def reference_ok_def live_refs_def by (auto simp: filter_empty_conv)
  with live_tag_le [of fs i t] show ?thesis by simp
qed

section \<open>Stopping\<close>

lemma stop_object_length [simp]: "length (stop_object k bs) = length bs"
  by (simp add: stop_object_def)

lemma stop_object_nth: "j < length bs \<Longrightarrow> ro_stops (stop_object k bs ! j) = ro_stops (bs ! j) + (if j = k then 1 else 0)"
  by (simp add: stop_object_def nth_list_update)

lemma fold_stop_length [simp]: "length (fold stop_object ks bs) = length bs"
  by (induction ks arbitrary: bs) simp_all

lemma fold_stop_nth:
  "distinct ks \<Longrightarrow> j < length bs \<Longrightarrow> ro_stops (fold stop_object ks bs ! j) = ro_stops (bs ! j) + (if j \<in> set ks then 1 else 0)"
  by (induction ks arbitrary: bs) (auto simp: stop_object_nth)

lemma fold_stop_bound:
  assumes "distinct ks" "\<forall>k \<in> set ks. k < length bs \<and> ro_stops (bs ! k) = 0" "\<forall>b \<in> set bs. ro_stops b \<le> 1"
  shows "\<forall>b \<in> set (fold stop_object ks bs). ro_stops b \<le> 1"
proof
  fix b
  assume "b \<in> set (fold stop_object ks bs)"
  then obtain j where j: "j < length bs" "b = fold stop_object ks bs ! j" by (auto simp: in_set_conv_nth)
  with assms fold_stop_nth [OF assms(1) j(1)] show "ro_stops b \<le> 1" by (auto split: if_splits)
qed

lemma fold_stop_other: "j \<notin> set ks \<Longrightarrow> j < length bs \<Longrightarrow> ro_stops (fold stop_object ks bs ! j) = ro_stops (bs ! j)"
  by (induction ks arbitrary: bs) (auto simp: stop_object_nth)

section \<open>Every operation keeps it\<close>

lemma parts_create:
  assumes "parts_ok rs a fs bs"
  shows "parts_ok rs a fs (bs @ [\<lparr>ro_tag = t, ro_type = ty, ro_stops = 0\<rparr>])"
proof -
  have "record_ok fs (bs @ [\<lparr>ro_tag = t, ro_type = ty, ro_stops = 0\<rparr>]) i x" if "record_ok fs bs i x" for i x
    using that by (auto simp: record_ok_def nth_append)
  with assms show ?thesis unfolding parts_ok_def by auto
qed

text \<open>A record may change its flag freely, as long as the active one does not drain.\<close>

lemma parts_flag:
  assumes "parts_ok rs a0 fs bs" "rs i = Some x"
    and "d \<Longrightarrow> i \<noteq> a" "a = i \<or> (\<exists>y. rs a = Some y \<and> \<not> rec_draining y)"
  shows "parts_ok (rs(i \<mapsto> x\<lparr>rec_draining := d\<rparr>)) a fs bs"
proof -
  let ?rs = "rs(i \<mapsto> x\<lparr>rec_draining := d\<rparr>)"
  have same: "record_ok fs bs j (y\<lparr>rec_draining := e\<rparr>) = record_ok fs bs j y" for j y e by (simp add: record_ok_def)
  have "apart ?rs" using assms(1,2) unfolding parts_ok_def apart_def by (auto split: if_splits)
  moreover have "\<forall>f \<in> set fs. reference_ok ?rs f" using assms(1,2) unfolding parts_ok_def by (auto simp: reference_ok_def)
  moreover have "\<forall>j y. ?rs j = Some y \<longrightarrow> record_ok fs bs j y"
    using assms(1,2) same unfolding parts_ok_def by (auto split: if_splits)
  moreover have "\<exists>y. ?rs a = Some y \<and> \<not> rec_draining y" using assms(3,4) by auto
  ultimately show ?thesis using assms(1) unfolding parts_ok_def by blast
qed

lemma parts_active: "parts_ok rs a fs bs \<Longrightarrow> \<exists>y. rs a = Some y \<and> \<not> rec_draining y"
  by (simp add: parts_ok_def)

lemma markDraining_ok: "registry_ok r \<Longrightarrow> registry_ok (snd (markDraining i r))"
  using parts_flag [of "jm_get (obr_records r)" "obr_activeGenerationId r" _ _ i _ True "obr_activeGenerationId r"]
  by (auto simp: registry_ok_def markDraining_def parts_active split: option.splits)

lemma restore_ok:
  assumes ok: "registry_ok r"
  shows "registry_ok (snd (restoreGeneration i j r))"
proof (cases "\<exists>x y. jm_get (obr_records r) i = Some x \<and> jm_get (obr_records r) j = Some y")
  case True
  let ?rs = "jm_get (obr_records r)"
  from True obtain x y where xy: "?rs i = Some x" "?rs j = Some y" by blast
  from ok have parts: "jm_ok (obr_records r)" "parts_ok ?rs (obr_activeGenerationId r) (obr_references r) (obr_objects r)"
    by (simp_all add: registry_ok_def)
  have first: "parts_ok (?rs(i \<mapsto> x\<lparr>rec_draining := False\<rparr>)) i (obr_references r) (obr_objects r)"
    by (rule parts_flag [OF parts(2) xy(1)]) simp_all
  show ?thesis
  proof (cases "i = j")
    case True
    with xy first parts(1) show ?thesis by (simp add: restoreGeneration_def registry_ok_def)
  next
    case False
    have "parts_ok (?rs(i \<mapsto> x\<lparr>rec_draining := False\<rparr>, j \<mapsto> y\<lparr>rec_draining := True\<rparr>)) i (obr_references r) (obr_objects r)"
      by (rule parts_flag [OF first]) (use xy False in auto)
    with xy False parts(1) show ?thesis by (simp add: restoreGeneration_def registry_ok_def fun_upd_twist [of i j])
  qed
next
  case False
  with ok show ?thesis by (auto simp: restoreGeneration_def split: option.splits)
qed

lemma acquire_ok:
  assumes ok: "registry_ok r"
  shows "registry_ok (snd (acquireOutboundRef t i r))"
proof (cases "\<exists>x k. jm_get (obr_records r) i = Some x \<and> jm_get (rec_outbounds x) t = Some k")
  case True
  let ?rs = "jm_get (obr_records r)" and ?fs = "obr_references r" and ?bs = "obr_objects r"
  from True obtain x k where x: "?rs i = Some x" "jm_get (rec_outbounds x) t = Some k" by blast
  from ok have parts: "jm_ok (obr_records r)" "parts_ok ?rs (obr_activeGenerationId r) ?fs ?bs" by (simp_all add: registry_ok_def)
  let ?f = "\<lparr>orf_id = reference_name (obr_nextReferenceId r), orf_generationId = i, orf_tag = t, orf_outbound = k,
      orf_released = False\<rparr>"
  let ?x = "x\<lparr>rec_usage := rec_usage x + 1, rec_referencesByTag := jm_set t (live_tag ?fs i t + 1) (rec_referencesByTag x)\<rparr>"
  have live: "live_refs (?fs @ [?f]) j = live_refs ?fs j + (if j = i then 1 else 0)"
    "live_tag (?fs @ [?f]) j u = live_tag ?fs j u + (if j = i \<and> u = t then 1 else 0)" for j u
    by (auto simp: live_refs_def live_tag_def)
  have xok: "record_ok ?fs ?bs i x" by (rule parts_record [OF parts(2) x(1)])
  then have "(case jm_get (rec_referencesByTag x) t of Some n \<Rightarrow> n | None \<Rightarrow> 0) = live_tag ?fs i t" by (simp add: record_ok_def)
  then have res: "snd (acquireOutboundRef t i r) = r\<lparr>obr_records := jm_set i ?x (obr_records r), obr_references := ?fs @ [?f],
      obr_nextReferenceId := obr_nextReferenceId r + 1\<rparr>" using x by (simp add: acquireOutboundRef_def Let_def)
  have "record_ok (?fs @ [?f]) ?bs i ?x" using xok by (simp add: record_ok_def live)
  moreover have "record_ok (?fs @ [?f]) ?bs j y" if "j \<noteq> i" "record_ok ?fs ?bs j y" for j y using that by (simp add: record_ok_def live)
  ultimately have "\<forall>j y. (?rs(i \<mapsto> ?x)) j = Some y \<longrightarrow> record_ok (?fs @ [?f]) ?bs j y" using parts(2) by (auto simp: parts_ok_def)
  moreover have "apart (?rs(i \<mapsto> ?x))" using parts(2) x(1) unfolding parts_ok_def apart_def by auto
  moreover have "\<forall>f \<in> set (?fs @ [?f]). reference_ok (?rs(i \<mapsto> ?x)) f" using parts(2) x by (auto simp: parts_ok_def reference_ok_def)
  moreover have "\<exists>y. (?rs(i \<mapsto> ?x)) (obr_activeGenerationId r) = Some y \<and> \<not> rec_draining y"
    using parts_active [OF parts(2)] x(1) by auto
  ultimately have "parts_ok (?rs(i \<mapsto> ?x)) (obr_activeGenerationId r) (?fs @ [?f]) ?bs" using parts(2) unfolding parts_ok_def by blast
  then show ?thesis unfolding res using parts(1) by (simp add: registry_ok_def)
next
  case False
  then have "snd (acquireOutboundRef t i r) = r" by (auto simp: acquireOutboundRef_def split: option.splits)
  with ok show ?thesis by simp
qed

text \<open>Retirement needs no live reference of the record.\<close>

lemma parts_retire:
  assumes parts: "parts_ok rs a fs bs" and x: "rs i = Some x" "i \<noteq> a" "live_refs fs i = 0"
  shows "parts_ok (rs(i := None)) a fs (fold stop_object (jm_vals (rec_outbounds x)) bs)"
proof -
  let ?ks = "jm_vals (rec_outbounds x)"
  let ?bs = "fold stop_object ?ks bs"
  have ks: "distinct ?ks" "\<forall>k \<in> set ?ks. k < length bs \<and> ro_stops (bs ! k) = 0"
    using parts_record [OF parts x(1)] by (simp_all add: record_ok_def)
  have "record_ok fs ?bs j y" if y: "rs j = Some y" "j \<noteq> i" for j y
  proof -
    have "record_ok fs bs j y" by (rule parts_record [OF parts y(1)])
    moreover have "set (jm_vals (rec_outbounds y)) \<inter> set ?ks = {}" using parts x(1) y unfolding parts_ok_def apart_def by blast
    ultimately show ?thesis using fold_stop_nth [OF ks(1)] by (auto simp: record_ok_def)
  qed
  moreover have "reference_ok (rs(i := None)) f" if f: "f \<in> set fs" for f
  proof -
    have "reference_ok rs f" using parts f by (simp add: parts_ok_def)
    moreover have "orf_released f \<or> orf_generationId f \<noteq> i" using x(3) f by (auto simp: live_refs_def filter_empty_conv)
    ultimately show ?thesis by (auto simp: reference_ok_def)
  qed
  moreover have "apart (rs(i := None))" using parts unfolding parts_ok_def apart_def by auto
  ultimately show ?thesis using parts_active [OF parts] x(2) unfolding parts_ok_def by auto
qed

lemma retire_cases:
  "retireIfUnused i r = (False, r) \<or>
   (\<exists>x. jm_get (obr_records r) i = Some x \<and> i \<noteq> obr_activeGenerationId r \<and> rec_usage x = 0 \<and>
      retireIfUnused i r = (True, r\<lparr>obr_records := jm_del i (obr_records r),
        obr_objects := fold stop_object (jm_vals (rec_outbounds x)) (obr_objects r)\<rparr>))"
  by (auto simp: retireIfUnused_def split: option.splits)

lemma retire_ok:
  assumes ok: "registry_ok r"
  shows "registry_ok (snd (retireIfUnused i r))"
proof -
  from ok have parts: "jm_ok (obr_records r)" "parts_ok (jm_get (obr_records r)) (obr_activeGenerationId r) (obr_references r) (obr_objects r)"
    by (simp_all add: registry_ok_def)
  show ?thesis
    using retire_cases [of i r]
  proof
    assume "\<exists>x. jm_get (obr_records r) i = Some x \<and> i \<noteq> obr_activeGenerationId r \<and> rec_usage x = 0 \<and>
      retireIfUnused i r = (True, r\<lparr>obr_records := jm_del i (obr_records r),
        obr_objects := fold stop_object (jm_vals (rec_outbounds x)) (obr_objects r)\<rparr>)"
    then obtain x where x: "jm_get (obr_records r) i = Some x" "i \<noteq> obr_activeGenerationId r" "rec_usage x = 0"
      "retireIfUnused i r = (True, r\<lparr>obr_records := jm_del i (obr_records r),
        obr_objects := fold stop_object (jm_vals (rec_outbounds x)) (obr_objects r)\<rparr>)" by blast
    have "live_refs (obr_references r) i = 0" using parts_record [OF parts(2) x(1)] x(3) by (simp add: record_ok_def)
    with parts_retire [OF parts(2) x(1,2)] parts(1) x(4) show ?thesis by (simp add: registry_ok_def)
  qed (simp add: ok)
qed

text \<open>Giving back a reference that is out, up to the retirement it may cause.\<close>

definition given_back :: "nat \<Rightarrow> outbound_registry \<Rightarrow> outbound_registry" where
  "given_back k r =
     (let f = obr_references r ! k; i = orf_generationId f;
          r1 = r\<lparr>obr_references := (obr_references r)[k := f\<lparr>orf_released := True\<rparr>]\<rparr>
      in case jm_get (obr_records r1) i of
           None \<Rightarrow> r1 | Some x \<Rightarrow> r1\<lparr>obr_records := jm_set i (drop_reference (orf_tag f) x) (obr_records r1)\<rparr>)"

lemma release_given_back:
  "\<not> orf_released (obr_references r ! k) \<Longrightarrow>
     releaseOutboundRef k r = snd (retireIfUnused (orf_generationId (obr_references r ! k)) (given_back k r))"
  by (simp add: releaseOutboundRef_def given_back_def Let_def)

lemma released_live:
  assumes "k < length fs" "\<not> orf_released (fs ! k)"
  defines "f \<equiv> fs ! k"
  shows "live_refs (fs[k := f\<lparr>orf_released := True\<rparr>]) j = live_refs fs j - (if j = orf_generationId f then 1 else 0)"
    "live_tag (fs[k := f\<lparr>orf_released := True\<rparr>]) j t = live_tag fs j t - (if j = orf_generationId f \<and> t = orf_tag f then 1 else 0)"
proof -
  let ?fs = "fs[k := f\<lparr>orf_released := True\<rparr>]"
  let ?P = "\<lambda>f. \<not> orf_released f \<and> orf_generationId f = j"
  show "live_refs ?fs j = live_refs fs j - (if j = orf_generationId f then 1 else 0)"
  proof (cases "j = orf_generationId f")
    case True
    with filter_update(1) [of k fs ?P "f\<lparr>orf_released := True\<rparr>"] assms show ?thesis by (simp add: live_refs_def f_def)
  next
    case False
    with filter_update(2) [of k fs ?P "f\<lparr>orf_released := True\<rparr>"] assms show ?thesis by (simp add: live_refs_def f_def)
  qed
  let ?Q = "\<lambda>f. \<not> orf_released f \<and> orf_generationId f = j \<and> orf_tag f = t"
  show "live_tag ?fs j t = live_tag fs j t - (if j = orf_generationId f \<and> t = orf_tag f then 1 else 0)"
  proof (cases "j = orf_generationId f \<and> t = orf_tag f")
    case True
    with filter_update(1) [of k fs ?Q "f\<lparr>orf_released := True\<rparr>"] assms show ?thesis by (simp add: live_tag_def f_def)
  next
    case False
    with filter_update(2) [of k fs ?Q "f\<lparr>orf_released := True\<rparr>"] assms show ?thesis by (auto simp: live_tag_def f_def)
  qed
qed

lemma live_refs_pos: "k < length fs \<Longrightarrow> \<not> orf_released (fs ! k) \<Longrightarrow> 0 < live_refs fs (orf_generationId (fs ! k))"
  using nth_mem by (fastforce simp: live_refs_def filter_empty_conv length_greater_0_conv simp del: length_greater_0_conv)

lemma live_tag_pos: "k < length fs \<Longrightarrow> \<not> orf_released (fs ! k) \<Longrightarrow> 0 < live_tag fs (orf_generationId (fs ! k)) (orf_tag (fs ! k))"
  using nth_mem by (fastforce simp: live_tag_def filter_empty_conv)

lemma drop_reference_ok:
  assumes "record_ok fs bs i x" "k < length fs" "\<not> orf_released (fs ! k)" "orf_generationId (fs ! k) = i"
  shows "record_ok (fs[k := (fs ! k)\<lparr>orf_released := True\<rparr>]) bs i (drop_reference (orf_tag (fs ! k)) x)"
proof -
  let ?t = "orf_tag (fs ! k)"
  have "(case jm_get (rec_referencesByTag x) ?t of Some n \<Rightarrow> n | None \<Rightarrow> 1) = live_tag fs i ?t"
    using assms live_tag_pos [OF assms(2,3)] by (simp add: record_ok_def)
  with assms show ?thesis by (auto simp: record_ok_def drop_reference_def Let_def released_live)
qed

lemma given_back_ok:
  assumes ok: "registry_ok r" and k: "k < length (obr_references r)" "\<not> orf_released (obr_references r ! k)"
  shows "registry_ok (given_back k r)"
proof -
  let ?rs = "jm_get (obr_records r)" and ?fs = "obr_references r" and ?bs = "obr_objects r" and ?a = "obr_activeGenerationId r"
  let ?f = "?fs ! k"
  let ?i = "orf_generationId ?f"
  let ?fs' = "?fs[k := ?f\<lparr>orf_released := True\<rparr>]"
  from ok have parts: "jm_ok (obr_records r)" "parts_ok ?rs ?a ?fs ?bs" by (simp_all add: registry_ok_def)
  from parts(2) k have "reference_ok ?rs ?f" by (auto simp: parts_ok_def)
  with k obtain x where x: "?rs ?i = Some x" by (auto simp: reference_ok_def)
  let ?x = "drop_reference (orf_tag ?f) x"
  have res: "given_back k r = r\<lparr>obr_references := ?fs', obr_records := jm_set ?i ?x (obr_records r)\<rparr>"
    using x by (simp add: given_back_def Let_def)
  have same: "rec_outbounds ?x = rec_outbounds x" "rec_draining ?x = rec_draining x" by (simp_all add: drop_reference_def Let_def)
  have "record_ok ?fs' ?bs ?i ?x" by (rule drop_reference_ok [OF parts_record [OF parts(2) x] k refl])
  moreover have "record_ok ?fs' ?bs j y" if "j \<noteq> ?i" "record_ok ?fs ?bs j y" for j y
    using that released_live [OF k] by (simp add: record_ok_def)
  ultimately have "\<forall>j y. (?rs(?i \<mapsto> ?x)) j = Some y \<longrightarrow> record_ok ?fs' ?bs j y" using parts(2) by (auto simp: parts_ok_def)
  moreover have "apart (?rs(?i \<mapsto> ?x))" using parts(2) x same unfolding parts_ok_def apart_def by auto
  moreover have "reference_ok (?rs(?i \<mapsto> ?x)) f" if "f \<in> set ?fs'" for f
  proof -
    from that have "f \<in> set ?fs \<or> f = ?f\<lparr>orf_released := True\<rparr>" by (auto dest!: set_update_subset_insert [THEN subsetD])
    with parts(2) x same show ?thesis by (auto simp: parts_ok_def reference_ok_def)
  qed
  moreover have "\<exists>y. (?rs(?i \<mapsto> ?x)) ?a = Some y \<and> \<not> rec_draining y" using parts_active [OF parts(2)] x same by auto
  ultimately have "parts_ok (?rs(?i \<mapsto> ?x)) ?a ?fs' ?bs" using parts(2) unfolding parts_ok_def by blast
  with parts(1) show ?thesis unfolding res by (simp add: registry_ok_def)
qed

lemma release_ok:
  assumes "registry_ok r" "k < length (obr_references r)"
  shows "registry_ok (releaseOutboundRef k r)"
proof (cases "orf_released (obr_references r ! k)")
  case True
  with assms show ?thesis by (simp add: releaseOutboundRef_def Let_def)
next
  case False
  then show ?thesis unfolding release_given_back [OF False] by (intro retire_ok given_back_ok assms)
qed

text \<open>A switch: the new record, beside an old one that drains.\<close>

lemma switch_cases:
  assumes "registry_ok r"
  shows "(\<exists>e. switchGeneration g obs r = (Inl e, r)) \<or>
    (\<exists>old. jm_get (obr_records r) (og_id g) = None \<and> jm_get (obr_records r) (obr_activeGenerationId r) = Some old \<and>
      validateRuntimeEntries g obs (obr_objects r) = Inr () \<and>
      switchGeneration g obs r = (Inr (obr_activeGenerationId r),
        r\<lparr>obr_records := jm_set (og_id g) \<lparr>rec_generation = g, rec_usage = 0, rec_sequence = rec_sequence old + 1, rec_outbounds = obs,
              rec_referencesByTag = [], rec_draining = False\<rparr>
            (jm_set (obr_activeGenerationId r) (old\<lparr>rec_draining := True\<rparr>) (obr_records r)),
          obr_activeGenerationId := og_id g\<rparr>))"
proof -
  from assms obtain old where old: "jm_get (obr_records r) (obr_activeGenerationId r) = Some old"
    "og_id (rec_generation old) = obr_activeGenerationId r"
    using parts_active parts_record by (fastforce simp: registry_ok_def record_ok_def)
  then show ?thesis
    by (cases "validateRuntimeEntries g obs (obr_objects r)")
      (auto simp: switchGeneration_def jm_get_None_iff [symmetric] Let_def)
qed

lemma switch_ok:
  assumes ok: "registry_ok r" and fresh: "fresh_objects r obs"
  shows "registry_ok (snd (switchGeneration g obs r))"
  using switch_cases [OF ok, of g obs]
proof (elim disjE exE conjE)
  fix old :: runtime_record
  let ?a = "obr_activeGenerationId r" and ?fs = "obr_references r" and ?bs = "obr_objects r"
  let ?new = "\<lparr>rec_generation = g, rec_usage = 0, rec_sequence = rec_sequence old + 1, rec_outbounds = obs,
    rec_referencesByTag = [], rec_draining = False\<rparr>"
  let ?base = "jm_get (obr_records r)"
  let ?rs = "?base(?a \<mapsto> old\<lparr>rec_draining := True\<rparr>, og_id g \<mapsto> ?new)"
  assume new: "?base (og_id g) = None" and old: "?base ?a = Some old"
    and res: "switchGeneration g obs r = (Inr ?a, r\<lparr>obr_records := jm_set (og_id g) ?new (jm_set ?a (old\<lparr>rec_draining := True\<rparr>) (obr_records r)),
          obr_activeGenerationId := og_id g\<rparr>)"
  from ok have parts: "jm_ok (obr_records r)" "parts_ok ?base ?a ?fs ?bs" by (simp_all add: registry_ok_def)
  have mine: "jm_ok obs" "distinct (jm_vals obs)"
    "\<forall>k \<in> set (jm_vals obs). k < length ?bs \<and> ro_stops (?bs ! k) = 0" using fresh by (simp_all add: fresh_objects_def)
  have other: "set (jm_vals obs) \<inter> set (jm_vals (rec_outbounds x)) = {}" if "?base j = Some x" for j x
  proof -
    have "x \<in> set (jm_vals (obr_records r))" using jm_get_Some_in [OF that] by (force simp: jm_vals_def)
    with fresh show ?thesis unfolding fresh_objects_def by blast
  qed
  have none: "live_refs ?fs (og_id g) = 0" "live_tag ?fs (og_id g) t = 0" for t using live_absent [OF parts(2) new] by blast+
  have "record_ok ?fs ?bs (og_id g) ?new" using mine none by (simp add: record_ok_def)
  moreover have "record_ok ?fs ?bs ?a (old\<lparr>rec_draining := True\<rparr>)" using parts_record [OF parts(2) old] by (simp add: record_ok_def)
  ultimately have "\<forall>j y. ?rs j = Some y \<longrightarrow> record_ok ?fs ?bs j y" using parts(2) by (auto simp: parts_ok_def)
  moreover have "apart ?rs" using parts(2) old other unfolding parts_ok_def apart_def by (auto split: if_splits)
  moreover have "\<forall>f \<in> set ?fs. reference_ok ?rs f" using parts(2) old new unfolding parts_ok_def by (auto simp: reference_ok_def)
  moreover have "\<exists>y. ?rs (og_id g) = Some y \<and> \<not> rec_draining y" by simp
  ultimately have "parts_ok ?rs (og_id g) ?fs ?bs" using parts(2) unfolding parts_ok_def by blast
  with parts(1) show ?thesis unfolding res by (simp add: registry_ok_def)
qed (simp add: ok)

lemma create_ok: "registry_ok r \<Longrightarrow> registry_ok (r\<lparr>obr_objects := obr_objects r @ [\<lparr>ro_tag = t, ro_type = ty, ro_stops = 0\<rparr>]\<rparr>)"
  by (simp add: registry_ok_def parts_create)

text \<open>Stopping what no record holds.\<close>

lemma record_in_vals: "jm_get m i = Some x \<Longrightarrow> x \<in> set (jm_vals m)"
  using jm_get_Some_in [of m i x] by (force simp: jm_vals_def)

lemma dispose_ok:
  assumes ok: "registry_ok r" and free: "unregistered r obs"
  shows "registry_ok (stopOutbounds obs r)"
proof -
  let ?bs = "fold stop_object (jm_vals obs) (obr_objects r)"
  have "record_ok (obr_references r) ?bs i x"
    if "jm_get (obr_records r) i = Some x" "record_ok (obr_references r) (obr_objects r) i x" for i x
    using that free record_in_vals [OF that(1)] by (force simp: record_ok_def unregistered_def fold_stop_other)
  with ok show ?thesis by (auto simp: registry_ok_def parts_ok_def stopOutbounds_def)
qed

text \<open>A registry that was stopped is empty, and stays so.\<close>

definition registry_live :: "outbound_registry \<Rightarrow> bool" where
  "registry_live r \<longleftrightarrow> registry_ok r \<or> obr_records r = []"

lemma live_ok: "registry_live r \<Longrightarrow> obr_records r \<noteq> [] \<Longrightarrow> registry_ok r"
  by (simp add: registry_live_def)

lemma stopAll_records [simp]: "obr_records (stopAll r) = []"
  by (simp add: stopAll_def)

lemma stopped_stays: "obr_records r = [] \<Longrightarrow> obr_records (registry_step e r) = []"
  by (cases e) (simp_all add: acquireOutboundRef_def releaseOutboundRef_def retireIfUnused_def switchGeneration_def
      restoreGeneration_def markDraining_def stopOutbounds_def jm_has_get Let_def split: sum.splits)

interpretation registry: invariant_system registry_step registry_live
proof (unfold_locales)
  fix r e
  assume live: "registry_live r"
  show "registry_live (registry_step e r)"
  proof (cases "obr_records r = []")
    case True
    then show ?thesis by (simp add: registry_live_def stopped_stays)
  next
    case False
    with live have "registry_ok r" by (rule live_ok)
    then show ?thesis
      by (cases e) (simp_all add: registry_live_def create_ok acquire_ok release_ok switch_ok restore_ok markDraining_ok retire_ok dispose_ok)
  qed
qed

text \<open>
  Everything a record holds is stopped once when the registry stops, and only the adapter's own
  stopping can reach an outbound a second time.
\<close>

lemma held_objects:
  assumes "registry_ok r" "x \<in> set (jm_vals (obr_records r))" "k \<in> set (jm_vals (rec_outbounds x))"
  shows "k < length (obr_objects r) \<and> ro_stops (obr_objects r ! k) = 0"
proof -
  from assms(1,2) obtain i where "jm_get (obr_records r) i = Some x"
    by (auto simp: registry_ok_def jm_vals_def jm_in_get)
  then have "record_ok (obr_references r) (obr_objects r) i x" using assms(1) by (auto simp: registry_ok_def parts_record)
  with assms(3) show ?thesis by (simp add: record_ok_def)
qed

lemma stopAll_held:
  assumes "registry_ok r" "x \<in> set (jm_vals (obr_records r))" "k \<in> set (jm_vals (rec_outbounds x))"
  shows "ro_stops (obr_objects (stopAll r) ! k) = 1"
  using held_objects [OF assms] assms(2,3) by (auto simp: stopAll_def remdups_first_def fold_stop_nth)

lemma stops_once:
  assumes live: "registry_live r" and once: "\<forall>b \<in> set (obr_objects r). ro_stops b \<le> 1" and e: "\<forall>obs. e \<noteq> Dispose obs"
  shows "\<forall>b \<in> set (obr_objects (registry_step e r)). ro_stops b \<le> 1"
proof (cases "obr_records r = []")
  case True
  with once e show ?thesis
    by (cases e) (auto simp: acquireOutboundRef_def releaseOutboundRef_def retireIfUnused_def switchGeneration_def stopAll_def
      restoreGeneration_def markDraining_def jm_has_get jm_vals_def Let_def remdups_first_def split: sum.splits option.splits if_splits)
next
  case False
  with live have ok: "registry_ok r" by (rule live_ok)
  have retire: "\<forall>b \<in> set (obr_objects (snd (retireIfUnused i r'))). ro_stops b \<le> 1"
    if "registry_ok r'" "\<forall>b \<in> set (obr_objects r'). ro_stops b \<le> 1" for i r'
    using retire_cases [of i r']
  proof (elim disjE exE conjE)
    fix x
    assume "jm_get (obr_records r') i = Some x" and res: "retireIfUnused i r' = (True, r'\<lparr>obr_records := jm_del i (obr_records r'),
        obr_objects := fold stop_object (jm_vals (rec_outbounds x)) (obr_objects r')\<rparr>)"
    with that(1) have "record_ok (obr_references r') (obr_objects r') i x" by (auto simp: registry_ok_def parts_record)
    then have "\<forall>b \<in> set (fold stop_object (jm_vals (rec_outbounds x)) (obr_objects r')). ro_stops b \<le> 1"
      by (intro fold_stop_bound that(2)) (simp_all add: record_ok_def)
    with res show ?thesis by simp
  qed (use that in simp)
  show ?thesis
  proof (cases e)
    case (Release k)
    have "\<forall>b \<in> set (obr_objects (given_back k r)). ro_stops b \<le> 1"
      using once by (simp add: given_back_def Let_def split: option.splits)
    with Release retire [OF given_back_ok [OF ok]] once show ?thesis
      by (cases "orf_released (obr_references r ! k)") (simp_all add: release_given_back, simp add: releaseOutboundRef_def Let_def)
  next
    case StopAll
    let ?ks = "remdups_first (concat (map (\<lambda>x. jm_vals (rec_outbounds x)) (jm_vals (obr_records r))))"
    have "\<forall>b \<in> set (fold stop_object ?ks (obr_objects r)). ro_stops b \<le> 1"
      by (rule fold_stop_bound) (use held_objects [OF ok] once in \<open>auto simp: remdups_first_def\<close>)
    then have "\<forall>b \<in> set (obr_objects (stopAll r)). ro_stops b \<le> 1" by (simp add: stopAll_def)
    with StopAll show ?thesis by simp
  next
    case (Switch g obs)
    then show ?thesis using switch_cases [OF ok, of g obs] once by auto
  qed (use once e retire [OF ok once] in \<open>auto simp: acquireOutboundRef_def restoreGeneration_def markDraining_def Let_def split: option.splits\<close>)
qed

lemma newOutboundRegistry_ok:
  assumes "newOutboundRegistry g obs bs = Inr r" "jm_ok obs" "distinct (jm_vals obs)"
    "\<forall>k \<in> set (jm_vals obs). k < length bs" "\<forall>b \<in> set bs. ro_stops b = 0"
  shows "registry_ok r"
proof -
  from assms(1) have r: "r = \<lparr>obr_activeGenerationId = og_id g,
      obr_records = [(og_id g, \<lparr>rec_generation = g, rec_usage = 0, rec_sequence = 0, rec_outbounds = obs, rec_referencesByTag = [], rec_draining = False\<rparr>)],
      obr_references = [], obr_nextReferenceId = 1, obr_rejectedUnsupported = 0, obr_objects = bs\<rparr>"
    by (cases "validateRuntimeEntries g obs bs") (simp_all add: newOutboundRegistry_def)
  show ?thesis
    using assms(2-) unfolding r
    by (auto simp: registry_ok_def parts_ok_def record_ok_def apart_def live_refs_def live_tag_def jm_ok_def)
qed

end
