(* ===== verification/OutboundAdapter.thy ===== *)
theory OutboundAdapter
  imports OutboundRegistryInv RoutingAdapters
begin

text \<open>
  The adapter that puts the outbound registry under the reload executor
  (\<^verbatim>\<open>src/reload/adapters/outboundRuntimeAdapter.ts\<close>), beside the adapters of the routing
  runtime, whose transaction it takes part in when routes change too
  (\<^verbatim>\<open>createRuntimeComponents\<close> of \<^verbatim>\<open>src/reload/runtimeIntegration.ts\<close>). The host supplies the parts of
  the configuration, the hashes, the clock and the factories of outbounds.
\<close>

section \<open>The adapter\<close>

record 'c outbound_host =
  oh_route :: "'c \<Rightarrow> route_config"
  oh_outbounds :: "'c \<Rightarrow> outbound_config list"
  oh_currentOutbounds :: "outbound_config list"
  oh_hashes :: outbound_hashes
  oh_create :: "'c \<Rightarrow> outbound_config \<Rightarrow> (string \<times> string) result"
  oh_now :: int

record outbound_prepared =
  opv_oldGenerationId :: string
  opv_candidateGeneration :: outbound_generation
  opv_candidateOutbounds :: "(string, nat) jsmap"
  opv_transactionId :: string
  opv_participates :: bool
  opv_validationWarnings :: "outbound_issue list"
  opv_switched :: bool
  opv_committed :: bool
  opv_disposed :: bool

text \<open>What the three adapters share: the registry, the routing runtime, and what was prepared.\<close>

record outbound_world =
  owo_registry :: outbound_registry
  owo_routing :: routing_world
  owo_prepared :: "outbound_prepared list"

definition ALLOWED_TYPES :: "string list" where
  "ALLOWED_TYPES = [''direct'', ''block'', ''tcpRelay'']"

definition on_registry :: "(outbound_registry \<Rightarrow> outbound_registry) \<Rightarrow> outbound_world \<Rightarrow> outbound_world" where
  "on_registry f w = w\<lparr>owo_registry := f (owo_registry w)\<rparr>"

text \<open>The factory loop: the objects created so far, by tag, and the first failure.\<close>

fun createOutbounds ::
  "(outbound_config \<Rightarrow> (string \<times> string) result) \<Rightarrow> outbound_config list \<Rightarrow> (string, nat) jsmap \<Rightarrow> outbound_registry \<Rightarrow>
   js_error option \<times> (string, nat) jsmap \<times> outbound_registry" where
  "createOutbounds create [] made r = (None, made, r)"
| "createOutbounds create (c # cs) made r =
     (case create c of
        Inl e \<Rightarrow> (Some e, made, r)
      | Inr (tag, t) \<Rightarrow>
          createOutbounds create cs (jm_set tag (length (obr_objects r)) made)
            (r\<lparr>obr_objects := obr_objects r @ [\<lparr>ro_tag = tag, ro_type = t, ro_stops = 0\<rparr>]\<rparr>))"

definition routingHealth :: "routing_world \<Rightarrow> outbound_health list" where
  "routingHealth w =
     (case drop (gp_manager (rr_active (rw_runtime w))) (rr_managers (rw_runtime w)) of
        m # ms \<Rightarrow> getHealthSnapshots m | [] \<Rightarrow> [])"

text \<open>The checks of a built candidate, in order; some count as a rejection.\<close>

definition rejectBuilt :: "outbound_build \<Rightarrow> (js_error \<times> bool) option" where
  "rejectBuilt b =
     (let unsupported = filter (\<lambda>e. oe_type e \<notin> set ALLOWED_TYPES) (jm_vals (og_registrySnapshot (ob_generation b)));
          v = ob_validation b
      in if unsupported \<noteq> []
         then Some (ConfigError (''M11 outbound transactional reload rejects unsupported type(s): ''
                      @ js_join '', '' (map oe_type unsupported)), True)
         else if ov_errors v \<noteq> []
         then Some (ConfigError (''M11 outbound candidate validation failed: '' @ js_join ''; '' (map oi_message (ov_errors v))), False)
         else if ov_unsupportedChanges v \<noteq> [] \<or> rsk_highest (ov_riskSummary v) \<noteq> Some RiskLow
         then Some (ConfigError ''M11 outbound candidate contains unsupported or non-low-risk changes'', True)
         else None)"

definition outbound_prepare ::
  "'c outbound_host \<Rightarrow> routing_component list \<Rightarrow> 'c \<Rightarrow> op_context \<Rightarrow> outbound_world \<Rightarrow> prepared_component result \<times> outbound_world" where
  "outbound_prepare host expected config ctx w =
     (let r = owo_registry w in
      case rbind (getActiveGeneration r) (\<lambda>old.
             rbind (activeReferenceTags r (obr_activeGenerationId r)) (\<lambda>tags.
               rbind (buildOutboundGeneration (oh_hashes host) (oc_candidateGenerationId ctx @ ''-outbound'') (oh_currentOutbounds host)
                   (oh_outbounds host config) (oh_route host config) (pb_policies (og_policyBinding old))
                   (routingHealth (owo_routing w)) tags (Some (og_id old)) False (oh_now host)) (\<lambda>b. Inr (old, b)))) of
        Inl e \<Rightarrow> (Inl e, w)
      | Inr (old, b) \<Rightarrow>
          case rejectBuilt b of
            Some (e, counted) \<Rightarrow> (Inl e, if counted then on_registry recordRejectedUnsupported w else w)
          | None \<Rightarrow>
              let (failure, made, r1) = createOutbounds (oh_create host config) (oh_outbounds host config) [] r in
              case failure of
                Some e \<Rightarrow> (Inl e, w\<lparr>owo_registry := stopOutbounds made r1\<rparr>)
              | None \<Rightarrow>
                  (Inr \<lparr>pc_component = COutboundRegistry, pc_ref = length (owo_prepared w)\<rparr>,
                   w\<lparr>owo_registry := r1, owo_prepared := owo_prepared w
                       @ [\<lparr>opv_oldGenerationId = og_id old, opv_candidateGeneration = ob_generation b, opv_candidateOutbounds = made,
                           opv_transactionId = oc_transactionId ctx, opv_participates = RcOutbound \<in> set expected,
                           opv_validationWarnings = ov_warnings (ob_validation b), opv_switched = False, opv_committed = False,
                           opv_disposed = False\<rparr>]\<rparr>))"

definition with_outbound ::
  "prepared_component \<Rightarrow> (outbound_prepared \<Rightarrow> outbound_world \<Rightarrow> unit result \<times> outbound_world) \<Rightarrow>
   outbound_world \<Rightarrow> unit result \<times> outbound_world" where
  "with_outbound p f w =
     (if pc_ref p < length (owo_prepared w) then f (owo_prepared w ! pc_ref p) w else (Inl dangling, w))"

definition set_prepared :: "prepared_component \<Rightarrow> (outbound_prepared \<Rightarrow> outbound_prepared) \<Rightarrow> outbound_world \<Rightarrow> outbound_world" where
  "set_prepared p f w = w\<lparr>owo_prepared := (owo_prepared w)[pc_ref p := f (owo_prepared w ! pc_ref p)]\<rparr>"

fun checkEntries :: "(string, nat) jsmap \<Rightarrow> runtime_outbound list \<Rightarrow> outbound_entry list \<Rightarrow> unit result" where
  "checkEntries outbounds objects [] = Inr ()"
| "checkEntries outbounds objects (e # es) =
     (if oe_type e \<notin> set ALLOWED_TYPES \<or> oe_riskLevel e \<noteq> RiskLow
      then Inl (ConfigError (''M11 health check rejects outbound type '' @ quoted (oe_type e)))
      else case jm_get outbounds (oe_tag e) of
        None \<Rightarrow> Inl (ConfigError (''M11 candidate factory unavailable for '' @ quoted (oe_tag e)))
      | Some k \<Rightarrow>
          if ro_type (objects ! k) \<noteq> oe_type e
          then Inl (ConfigError (''M11 candidate factory unavailable for '' @ quoted (oe_tag e)))
          else checkEntries outbounds objects es)"

definition outbound_health_check :: "prepared_component \<Rightarrow> outbound_world \<Rightarrow> unit result \<times> outbound_world" where
  "outbound_health_check p = with_outbound p (\<lambda>v w.
     (checkEntries (opv_candidateOutbounds v) (obr_objects (owo_registry w))
        (jm_vals (og_registrySnapshot (opv_candidateGeneration v))), w))"

definition commit_in_routing :: "outbound_prepared \<Rightarrow> routing_world \<Rightarrow> unit result \<times> routing_runtime" where
  "commit_in_routing v rw =
     (if opv_participates v then rt_commit (opv_transactionId v) RcOutbound (rw_runtime rw) else (Inr (), rw_runtime rw))"

text \<open>
  Committing: the switch, then the part in the routing transaction. When that refuses, the old
  generation comes back before the error goes on.
\<close>

definition outbound_commit :: "prepared_component \<Rightarrow> outbound_world \<Rightarrow> unit result \<times> outbound_world" where
  "outbound_commit p = with_outbound p (\<lambda>v w.
     (case switchGeneration (opv_candidateGeneration v) (opv_candidateOutbounds v) (owo_registry w) of
        (Inl e, r) \<Rightarrow> (Inl e, w\<lparr>owo_registry := r\<rparr>)
      | (Inr old, r) \<Rightarrow>
          let w1 = set_prepared p (\<lambda>v. v\<lparr>opv_switched := True\<rparr>) (w\<lparr>owo_registry := r\<rparr>);
              (result, rt) = commit_in_routing v (owo_routing w1);
              w2 = w1\<lparr>owo_routing := (owo_routing w1)\<lparr>rw_runtime := rt\<rparr>\<rparr>
          in case result of
               Inr u \<Rightarrow> (Inr (), set_prepared p (\<lambda>v. v\<lparr>opv_committed := True\<rparr>) w2)
             | Inl e \<Rightarrow>
                 case restoreGeneration (opv_oldGenerationId v) (og_id (opv_candidateGeneration v)) (owo_registry w2) of
                   (Inl e', r2) \<Rightarrow> (Inl e', w2\<lparr>owo_registry := r2\<rparr>)
                 | (Inr u, r2) \<Rightarrow>
                     (Inl e, set_prepared p (\<lambda>v. v\<lparr>opv_switched := False, opv_disposed := True\<rparr>)
                        (w2\<lparr>owo_registry := snd (retireIfUnused (og_id (opv_candidateGeneration v)) r2)\<rparr>))))"

definition outbound_rollback :: "prepared_component \<Rightarrow> outbound_world \<Rightarrow> unit result \<times> outbound_world" where
  "outbound_rollback p = with_outbound p (\<lambda>v w.
     let reset = set_prepared p (\<lambda>v. v\<lparr>opv_switched := False, opv_committed := False\<rparr>) in
     if \<not> opv_switched v then (Inr (), reset w)
     else (case restoreGeneration (opv_oldGenerationId v) (og_id (opv_candidateGeneration v)) (owo_registry w) of
             (Inl e, r) \<Rightarrow> (Inl e, w\<lparr>owo_registry := r\<rparr>)
           | (Inr u, r) \<Rightarrow>
               (let rw = owo_routing w;
                    rw1 = (if opv_participates v then rw\<lparr>rw_runtime := rt_rollback (opv_transactionId v) (rw_runtime rw)\<rparr> else rw)
                in (Inr (), reset (w\<lparr>owo_registry := r, owo_routing := rw1\<rparr>)))))"

definition outbound_cleanup :: "prepared_component \<Rightarrow> outbound_world \<Rightarrow> unit result \<times> outbound_world" where
  "outbound_cleanup p = with_outbound p (\<lambda>v w.
     let r = owo_registry w; candidate = og_id (opv_candidateGeneration v);
         dispose = set_prepared p (\<lambda>v. v\<lparr>opv_disposed := True\<rparr>);
         rest = (if opv_committed v then w\<lparr>owo_registry := snd (retireIfUnused (opv_oldGenerationId v) r)\<rparr>
                 else dispose (w\<lparr>owo_registry := snd (retireIfUnused candidate r)\<rparr>))
     in if opv_disposed v then (Inr (), w)
        else if opv_switched v then (Inr (), rest)
        else (case registrySnapshot r of
                Inl e \<Rightarrow> (Inl e, w)
              | Inr s \<Rightarrow>
                  if \<not> list_ex (\<lambda>g. rgs_id g = candidate) (rss_generations s)
                  then (Inr (), dispose (w\<lparr>owo_registry := stopOutbounds (opv_candidateOutbounds v) r\<rparr>))
                  else (Inr (), rest)))"

definition outboundRuntimeAdapter ::
  "'c outbound_host \<Rightarrow> routing_component list \<Rightarrow> ('c, outbound_world, prepared_component) reloadable" where
  "outboundRuntimeAdapter host expected =
     \<lparr>rc_name = COutboundRegistry, rc_prepare = outbound_prepare host expected,
      rc_health = (\<lambda>p ctx. outbound_health_check p), rc_commit = (\<lambda>p ctx. outbound_commit p),
      rc_rollback = (\<lambda>p ctx. outbound_rollback p), rc_cleanup = (\<lambda>p ctx. outbound_cleanup p)\<rparr>"

section \<open>The components of a reload\<close>

text \<open>An adapter of the routing runtime works on its part of the world.\<close>

definition on_routing ::
  "(routing_world \<Rightarrow> 'a \<times> routing_world) \<Rightarrow> outbound_world \<Rightarrow> 'a \<times> outbound_world" where
  "on_routing f w = (let (x, rw) = f (owo_routing w) in (x, w\<lparr>owo_routing := rw\<rparr>))"

definition beside_outbounds ::
  "('c, routing_world, prepared_component) reloadable \<Rightarrow> ('c, outbound_world, prepared_component) reloadable" where
  "beside_outbounds c =
     \<lparr>rc_name = rc_name c, rc_prepare = (\<lambda>cfg ctx. on_routing (rc_prepare c cfg ctx)),
      rc_health = (\<lambda>p ctx. on_routing (rc_health c p ctx)), rc_commit = (\<lambda>p ctx. on_routing (rc_commit c p ctx)),
      rc_rollback = (\<lambda>p ctx. on_routing (rc_rollback c p ctx)), rc_cleanup = (\<lambda>p ctx. on_routing (rc_cleanup c p ctx))\<rparr>"

definition expectedRoutingComponents :: "bool \<Rightarrow> bool \<Rightarrow> bool \<Rightarrow> routing_component list" where
  "expectedRoutingComponents router policy outbound =
     (let changed = (if router then [RcRouter] else []) @ (if policy then [RcPolicy] else [])
      in changed @ (if outbound \<and> changed \<noteq> [] then [RcOutbound] else []))"

definition createRuntimeComponents ::
  "'c routing_host \<Rightarrow> 'c outbound_host \<Rightarrow> bool \<Rightarrow> bool \<Rightarrow> bool \<Rightarrow> ('c, outbound_world, prepared_component) reloadable list" where
  "createRuntimeComponents rhost ohost router policy outbound =
     (let expected = expectedRoutingComponents router policy outbound in
      (if router then [beside_outbounds (routerRuntimeAdapter rhost expected)] else [])
      @ (if policy then [beside_outbounds (policyRuntimeAdapter rhost expected)] else [])
      @ (if outbound then [outboundRuntimeAdapter ohost expected] else []))"

end
