(* ===== verification/EngineRoute.thy ===== *)
theory EngineRoute
  imports OutboundAdapter ConnCore FakeIp
begin

text \<open>
  How the engine routes traffic (\<^verbatim>\<open>src/core/engine.ts\<close>): a request takes the routing generation of
  the moment, is matched, and tries the outbounds its policy selects, one after the other; a
  connection keeps the reference to its outbound until its socket closes. Requests wait at every
  attempt, so other requests, connections that close and reloads come in between: each event is a
  step. Giving back a reference and stopping outbounds are part of the step they happen in. A start that
  fails and is repeated begins with no outbounds, and references that only tests take from the engine
  are left out.
\<close>

section \<open>State\<close>

text \<open>
  An attempt that is awaited: the tag, the outbound, and the reference the registry handed out. The
  engine replaces its registry when it reloads in legacy mode; the number of the registry tells to
  which one outbounds and references belong.
\<close>

record attempt =
  at_tag :: string
  at_outbound :: nat
  at_registry :: nat
  at_reference :: "nat option"

datatype request_result = Opened nat | Answered | Refused js_error

record engine_task =
  et_udp :: bool
  et_request :: proxy_request
  et_handle :: nat
  et_route :: route_result
  et_candidates :: "string list"
  et_lastError :: "js_error option"
  et_attempt :: "attempt option"
  et_result :: "request_result option"

record engine_connection =
  ec_outbound :: nat
  ec_registry :: nat
  ec_reference :: "nat option"
  ec_closed :: bool

text \<open>\<^verbatim>\<open>this.outbounds\<close> holds outbounds with their types.\<close>

record engine =
  eg_routing :: routing_runtime
  eg_registry :: "outbound_registry option"
  eg_registries :: nat
  eg_outbounds :: "(string, nat \<times> string) jsmap"
  eg_componentsBuilt :: bool
  eg_fakeIp :: "fake_ip_service option"
  eg_stats :: stats_tracker
  eg_tasks :: "engine_task list"
  eg_connections :: "engine_connection list"

definition on_engine_stats :: "(stats_tracker \<Rightarrow> stats_tracker) \<Rightarrow> engine \<Rightarrow> engine" where
  "on_engine_stats f w = w\<lparr>eg_stats := f (eg_stats w)\<rparr>"

text \<open>The generation of a handle, and its policy manager.\<close>

definition routing_of :: "nat \<Rightarrow> engine \<Rightarrow> routing_pair" where
  "routing_of h w = rh_generation (rr_handles (eg_routing w) ! h)"

definition manager_of :: "nat \<Rightarrow> engine \<Rightarrow> policy_manager" where
  "manager_of h w = rr_managers (eg_routing w) ! gp_manager (routing_of h w)"

definition set_manager :: "nat \<Rightarrow> policy_manager \<Rightarrow> engine \<Rightarrow> engine" where
  "set_manager h m w =
     w\<lparr>eg_routing := (eg_routing w)\<lparr>rr_managers := (rr_managers (eg_routing w))[gp_manager (routing_of h w) := m]\<rparr>\<rparr>"

text \<open>The engine before it is started.\<close>

definition newEngine :: "routing_pair \<Rightarrow> policy_manager list \<Rightarrow> fake_ip_service option \<Rightarrow> int \<Rightarrow> engine" where
  "newEngine g ms s now =
     \<lparr>eg_routing = newRoutingRuntime g ms, eg_registry = None, eg_registries = 0, eg_outbounds = [], eg_componentsBuilt = False,
      eg_fakeIp = s, eg_stats = newStatsTracker now, eg_tasks = [], eg_connections = []\<rparr>"

section \<open>Requests\<close>

definition restoreFakeIpDestination :: "int \<Rightarrow> proxy_request \<Rightarrow> engine \<Rightarrow> proxy_request \<times> engine" where
  "restoreFakeIpDestination now request w =
     (case eg_fakeIp w of
        None \<Rightarrow> (request, w)
      | Some s \<Rightarrow>
          let (domain, s') = reverseFakeIp now (d_host (pr_destination request)) s; w' = w\<lparr>eg_fakeIp := Some s'\<rparr> in
          case domain of
            None \<Rightarrow> (request, w')
          | Some d \<Rightarrow> (request\<lparr>pr_destination := \<lparr>d_host = d, d_port = d_port (pr_destination request), d_addressType = Domain\<rparr>\<rparr>, w'))"

text \<open>The outbounds of the program that can send datagrams.\<close>

definition supportsUdp :: "string \<Rightarrow> bool" where
  "supportsUdp t \<longleftrightarrow> t \<in> {''direct'', ''block'', ''shadowsocks'', ''wireguard''}"

definition attempt_failed :: "int \<Rightarrow> nat \<Rightarrow> string \<Rightarrow> engine \<Rightarrow> engine" where
  "attempt_failed now h tag w = on_engine_stats recordOutboundFailure (set_manager h (recordFailure now tag (manager_of h w)) w)"

definition missing_outbound :: "string \<Rightarrow> js_error" where
  "missing_outbound tag = ConfigError (''route selected missing outbound '' @ quoted tag)"

definition no_udp :: "string \<Rightarrow> js_error" where
  "no_udp tag = ConfigError (''outbound '' @ quoted tag @ '' does not support UDP'')"

definition no_usable :: "engine_task \<Rightarrow> js_error" where
  "no_usable task = ConfigError ((if et_udp task then ''route selected no usable UDP outbound for ''
     else ''route selected no usable outbound for '') @ quoted (res_outboundTag (et_route task)))"

definition finish_task :: "request_result \<Rightarrow> engine_task \<Rightarrow> engine \<Rightarrow> engine_task \<times> engine" where
  "finish_task result task w =
     (task\<lparr>et_attempt := None, et_result := Some result\<rparr>, w\<lparr>eg_routing := rt_release (et_handle task) (eg_routing w)\<rparr>)"

text \<open>The outbound for a candidate: a reference of the registry, else the outbound the engine started with.\<close>

definition pickOutbound :: "string \<Rightarrow> engine \<Rightarrow> attempt option \<times> engine" where
  "pickOutbound tag w =
     (case eg_registry w of
        None \<Rightarrow> (map_option (\<lambda>(k, t). \<lparr>at_tag = tag, at_outbound = k, at_registry = eg_registries w, at_reference = None\<rparr>) (jm_get (eg_outbounds w) tag), w)
      | Some r \<Rightarrow>
          let (reference, r') = acquireOutboundRef tag (obr_activeGenerationId r) r; w' = w\<lparr>eg_registry := Some r'\<rparr> in
          case reference of
            Some k \<Rightarrow> (Some \<lparr>at_tag = tag, at_outbound = orf_outbound (obr_references r' ! k), at_registry = eg_registries w, at_reference = Some k\<rparr>, w')
          | None \<Rightarrow> (map_option (\<lambda>(k, t). \<lparr>at_tag = tag, at_outbound = k, at_registry = eg_registries w, at_reference = None\<rparr>)
                      (jm_get (eg_outbounds w) tag), w'))"

text \<open>The loop over the candidates, up to the first that is awaited or the end of the list.\<close>

fun tryTcp :: "int \<Rightarrow> string list \<Rightarrow> engine_task \<Rightarrow> engine \<Rightarrow> engine_task \<times> engine" where
  "tryTcp now [] task w =
     finish_task (Refused (case et_lastError task of Some e \<Rightarrow> e | None \<Rightarrow> no_usable task)) (task\<lparr>et_candidates := []\<rparr>) w"
| "tryTcp now (tag # tags) task w =
     (case pickOutbound tag w of
        (Some a, w') \<Rightarrow> (task\<lparr>et_candidates := tags, et_attempt := Some a\<rparr>, w')
      | (None, w') \<Rightarrow>
          tryTcp now tags (task\<lparr>et_lastError := Some (missing_outbound tag)\<rparr>) (attempt_failed now (et_handle task) tag w'))"

fun tryUdp :: "int \<Rightarrow> string list \<Rightarrow> engine_task \<Rightarrow> engine \<Rightarrow> engine_task \<times> engine" where
  "tryUdp now [] task w =
     finish_task (Refused (case et_lastError task of Some e \<Rightarrow> e | None \<Rightarrow> no_usable task)) (task\<lparr>et_candidates := []\<rparr>) w"
| "tryUdp now (tag # tags) task w =
     (case jm_get (eg_outbounds w) tag of
        None \<Rightarrow>
          tryUdp now tags (task\<lparr>et_lastError := Some (missing_outbound tag)\<rparr>) (attempt_failed now (et_handle task) tag w)
      | Some (k, t) \<Rightarrow>
          if \<not> supportsUdp t
          then tryUdp now tags (task\<lparr>et_lastError := Some (no_udp tag)\<rparr>) (attempt_failed now (et_handle task) tag w)
          else (task\<lparr>et_candidates := tags,
                     et_attempt := Some \<lparr>at_tag = tag, at_outbound = k, at_registry = eg_registries w, at_reference = None\<rparr>\<rparr>, w))"

definition tryCandidates :: "int \<Rightarrow> string list \<Rightarrow> engine_task \<Rightarrow> engine \<Rightarrow> engine_task \<times> engine" where
  "tryCandidates now tags task w = (if et_udp task then tryUdp now tags task w else tryTcp now tags task w)"

text \<open>A request up to its first attempt. The routing handle is taken before anything else.\<close>

definition begin_request :: "bool \<Rightarrow> int \<Rightarrow> rat \<Rightarrow> proxy_request \<Rightarrow> engine \<Rightarrow> engine_task \<times> engine" where
  "begin_request udp now rnd request w =
     (let (h, rt) = rt_acquire (eg_routing w);
          (routed, w1) = restoreFakeIpDestination now request (w\<lparr>eg_routing := rt\<rparr>);
          route = rgen_match (gp_router (routing_of h w1)) routed;
          w2 = on_engine_stats recordRouteMatch w1;
          (selection, m) = selectPolicy now rnd (res_outboundTag route) (manager_of h w2)
      in (\<lparr>et_udp = udp, et_request = routed, et_handle = h, et_route = route, et_candidates = ps_candidates selection,
           et_lastError = None, et_attempt = None, et_result = None\<rparr>, set_manager h m w2))"

definition start_request :: "bool \<Rightarrow> int \<Rightarrow> rat \<Rightarrow> proxy_request \<Rightarrow> engine \<Rightarrow> engine" where
  "start_request udp now rnd request w =
     (let (task, w1) = begin_request udp now rnd request w;
          (task', w2) = tryCandidates now (et_candidates task) task w1
      in w2\<lparr>eg_tasks := eg_tasks w2 @ [task']\<rparr>)"

definition openTcp :: "int \<Rightarrow> rat \<Rightarrow> proxy_request \<Rightarrow> engine \<Rightarrow> engine" where
  "openTcp = start_request False"

definition sendUdp :: "int \<Rightarrow> rat \<Rightarrow> proxy_request \<Rightarrow> engine \<Rightarrow> engine" where
  "sendUdp = start_request True"

section \<open>How an attempt ends\<close>

text \<open>A reference is known to the registry that handed it out; to another one it means nothing.\<close>

definition release_reference :: "nat \<Rightarrow> nat option \<Rightarrow> engine \<Rightarrow> engine" where
  "release_reference registry reference w =
     (case (reference, eg_registry w) of
        (Some k, Some r) \<Rightarrow> if registry = eg_registries w then w\<lparr>eg_registry := Some (releaseOutboundRef k r)\<rparr> else w
      | _ \<Rightarrow> w)"

definition put_task :: "nat \<Rightarrow> engine_task \<times> engine \<Rightarrow> engine" where
  "put_task t r = (snd r)\<lparr>eg_tasks := (eg_tasks (snd r))[t := fst r]\<rparr>"

definition fail_attempt :: "int \<Rightarrow> js_error \<Rightarrow> attempt \<Rightarrow> engine_task \<Rightarrow> engine \<Rightarrow> engine_task \<times> engine" where
  "fail_attempt now e a task w =
     tryCandidates now (et_candidates task) (task\<lparr>et_lastError := Some e, et_attempt := None\<rparr>)
       (attempt_failed now (et_handle task) (at_tag a) (release_reference (at_registry a) (at_reference a) w))"

definition before_start :: js_error where
  "before_start = ConfigError ''outbound runtime registry is unavailable before Engine start''"

text \<open>
  An outbound connected. Binding the reference to the connection needs a registry; when the engine was
  stopped meanwhile the attempt counts as failed, and nobody closes the connection.
\<close>

definition succeed_attempt :: "int \<Rightarrow> rat \<Rightarrow> attempt \<Rightarrow> engine_task \<Rightarrow> engine \<Rightarrow> engine_task \<times> engine" where
  "succeed_attempt now latency a task w =
     (if et_udp task
      then finish_task Answered task (set_manager (et_handle task) (recordSuccess (at_tag a) latency (manager_of (et_handle task) w)) w)
      else if at_reference a \<noteq> None \<and> eg_registry w = None
      then fail_attempt now before_start a task (w\<lparr>eg_connections := eg_connections w
             @ [\<lparr>ec_outbound = at_outbound a, ec_registry = at_registry a, ec_reference = None, ec_closed = False\<rparr>]\<rparr>)
      else finish_task (Opened (length (eg_connections w))) task
             (set_manager (et_handle task) (recordSuccess (at_tag a) latency (manager_of (et_handle task) w))
               (w\<lparr>eg_connections := eg_connections w
                 @ [\<lparr>ec_outbound = at_outbound a, ec_registry = at_registry a, ec_reference = at_reference a, ec_closed = False\<rparr>]\<rparr>)))"

definition attempt_of :: "nat \<Rightarrow> engine \<Rightarrow> attempt option" where
  "attempt_of t w = (if t < length (eg_tasks w) then et_attempt (eg_tasks w ! t) else None)"

definition attempt_succeeds :: "nat \<Rightarrow> int \<Rightarrow> rat \<Rightarrow> engine \<Rightarrow> engine" where
  "attempt_succeeds t now latency w =
     (case attempt_of t w of None \<Rightarrow> w | Some a \<Rightarrow> put_task t (succeed_attempt now latency a (eg_tasks w ! t) w))"

definition attempt_fails :: "nat \<Rightarrow> int \<Rightarrow> js_error \<Rightarrow> engine \<Rightarrow> engine" where
  "attempt_fails t now e w =
     (case attempt_of t w of None \<Rightarrow> w | Some a \<Rightarrow> put_task t (fail_attempt now e a (eg_tasks w ! t) w))"

text \<open>The close event of a socket gives its reference back, once.\<close>

definition connection_closes :: "nat \<Rightarrow> engine \<Rightarrow> engine" where
  "connection_closes c w =
     (if c < length (eg_connections w) \<and> \<not> ec_closed (eg_connections w ! c)
      then let x = eg_connections w ! c in
           release_reference (ec_registry x) (ec_reference x) (w\<lparr>eg_connections := (eg_connections w)[c := x\<lparr>ec_closed := True\<rparr>]\<rparr>)
      else w)"

section \<open>Outbounds of the engine\<close>

fun buildOutbounds ::
  "(outbound_config \<Rightarrow> (string \<times> string) result) \<Rightarrow> outbound_config list \<Rightarrow> (string, nat \<times> string) jsmap \<Rightarrow> runtime_outbound list \<Rightarrow>
   js_error option \<times> (string, nat \<times> string) jsmap \<times> runtime_outbound list" where
  "buildOutbounds create [] made objects = (None, made, objects)"
| "buildOutbounds create (c # cs) made objects =
     (case create c of
        Inl e \<Rightarrow> (Some e, made, objects)
      | Inr (tag, t) \<Rightarrow>
          buildOutbounds create cs (jm_set tag (length objects, t) made) (objects @ [\<lparr>ro_tag = tag, ro_type = t, ro_stops = 0\<rparr>]))"

definition createOutboundRuntimeRegistry ::
  "outbound_hashes \<Rightarrow> outbound_config list \<Rightarrow> route_config \<Rightarrow> int \<Rightarrow> (string, nat \<times> string) jsmap \<Rightarrow> runtime_outbound list \<Rightarrow>
   engine \<Rightarrow> outbound_registry result" where
  "createOutboundRuntimeRegistry hs cs route now made objects w =
     rbind (newOutboundGeneration hs ''runtime-outbound-0'' cs (rtc_defaultOutbound route) (rtc_policies route)
         (getHealthSnapshots (rr_managers (eg_routing w) ! gp_manager (rr_active (eg_routing w)))) OActive None now)
       (\<lambda>g. newOutboundRegistry g (map (\<lambda>(t, k, ty). (t, k)) made) objects)"

text \<open>Both at start and in a legacy reload: new outbounds, then a registry over them, or an error.\<close>

definition installOutbounds ::
  "outbound_hashes \<Rightarrow> (outbound_config \<Rightarrow> (string \<times> string) result) \<Rightarrow> outbound_config list \<Rightarrow> route_config \<Rightarrow> int \<Rightarrow>
   engine \<Rightarrow> unit result \<times> engine" where
  "installOutbounds hs create cs route now w =
     (let (failure, made, objects) = buildOutbounds create cs [] [];
          w1 = w\<lparr>eg_outbounds := made, eg_registry := None, eg_registries := eg_registries w + 1\<rparr>
      in case failure of
           Some e \<Rightarrow> (Inl e, w1)
         | None \<Rightarrow>
             case createOutboundRuntimeRegistry hs cs route now made objects w1 of
               Inl e \<Rightarrow> (Inl e, w1)
             | Inr r \<Rightarrow> (Inr (), w1\<lparr>eg_registry := Some r\<rparr>))"

definition buildComponents ::
  "outbound_hashes \<Rightarrow> (outbound_config \<Rightarrow> (string \<times> string) result) \<Rightarrow> outbound_config list \<Rightarrow> route_config \<Rightarrow> int \<Rightarrow>
   engine \<Rightarrow> unit result \<times> engine" where
  "buildComponents hs create cs route now w =
     (if eg_componentsBuilt w then (Inr (), w)
      else case installOutbounds hs create cs route now w of
             (Inl e, w') \<Rightarrow> (Inl e, w')
           | (Inr u, w') \<Rightarrow> (Inr (), w'\<lparr>eg_componentsBuilt := True\<rparr>))"

text \<open>
  A legacy reload first waits until every outbound is stopped, while requests still arrive, and then
  replaces outbounds and registry.
\<close>

definition stopOutboundRegistry :: "engine \<Rightarrow> engine" where
  "stopOutboundRegistry w = w\<lparr>eg_registry := map_option stopAll (eg_registry w)\<rparr>"

definition reloadOutbounds ::
  "outbound_hashes \<Rightarrow> (outbound_config \<Rightarrow> (string \<times> string) result) \<Rightarrow> outbound_config list \<Rightarrow> route_config \<Rightarrow> int \<Rightarrow>
   engine \<Rightarrow> unit result \<times> engine" where
  "reloadOutbounds hs create cs route now w = installOutbounds hs create cs route now (stopOutboundRegistry w)"

definition engineStop :: "engine \<Rightarrow> engine" where
  "engineStop w = w\<lparr>eg_registry := None\<rparr>"

section \<open>Steps\<close>

text \<open>
  What can happen to a running engine. A transactional reload moves the routing runtime and the
  registry without touching handles and references that are out; the prober writes policy managers,
  and DNS and the inbounds use fake addresses and statistics.
\<close>

inductive engine_step :: "engine \<Rightarrow> engine \<Rightarrow> bool" where
  open_tcp: "engine_step w (openTcp now rnd request w)"
| send_udp: "engine_step w (sendUdp now rnd request w)"
| attempt_succeeds: "engine_step w (attempt_succeeds t now latency w)"
| attempt_fails: "engine_step w (attempt_fails t now e w)"
| connection_closes: "engine_step w (connection_closes c w)"
| reload_routing: "routing_step (eg_routing w) rt \<Longrightarrow> rr_handles rt = rr_handles (eg_routing w) \<Longrightarrow> engine_step w (w\<lparr>eg_routing := rt\<rparr>)"
| reload_outbounds: "eg_registry w = Some r \<Longrightarrow> obr_references (registry_step e r) = obr_references r \<Longrightarrow>
    engine_step w (w\<lparr>eg_registry := Some (registry_step e r)\<rparr>)"
| legacy_stop: "engine_step w (stopOutboundRegistry w)"
| build: "engine_step w (snd (buildComponents hs create cs route now w))"
| legacy_install: "engine_step w (snd (installOutbounds hs create cs route now w))"
| stop: "engine_step w (engineStop w)"
| probe: "length ms = length (rr_managers (eg_routing w)) \<Longrightarrow>
    engine_step w (w\<lparr>eg_routing := (eg_routing w)\<lparr>rr_managers := ms\<rparr>\<rparr>)"
| elsewhere: "engine_step w (w\<lparr>eg_fakeIp := s, eg_stats := st\<rparr>)"

inductive engine_reachable :: "engine \<Rightarrow> engine \<Rightarrow> bool" for w0 where
  start: "engine_reachable w0 w0"
| step: "engine_reachable w0 w \<Longrightarrow> engine_step w w' \<Longrightarrow> engine_reachable w0 w'"

end
