(* ===== verification/OutboundRegistryProofs.thy ===== *)
theory OutboundRegistryProofs
  imports OutboundRegistryInv
begin

text \<open>
  What the registry promises traffic: an outbound it handed out works until it is given back, and has
  the type its generation lists; a generation that drains goes with its last reference. Both hold until
  the registry is stopped as a whole.
\<close>

section \<open>Types\<close>

definition record_typed :: "runtime_outbound list \<Rightarrow> runtime_record \<Rightarrow> bool" where
  "record_typed bs x \<longleftrightarrow> (\<forall>t \<in> set (og_outboundTags (rec_generation x)). \<exists>k e. jm_get (rec_outbounds x) t = Some k \<and> k < length bs \<and>
     jm_get (og_registrySnapshot (rec_generation x)) t = Some e \<and> ro_type (bs ! k) = oe_type e)"

definition registry_typed :: "outbound_registry \<Rightarrow> bool" where
  "registry_typed r \<longleftrightarrow> (\<forall>i x. jm_get (obr_records r) i = Some x \<longrightarrow> record_typed (obr_objects r) x)"

lemma checkRuntimeEntries_typed:
  assumes "checkRuntimeEntries g obs bs ts = Inr u" "\<forall>k \<in> set (jm_vals obs). k < length bs" "t \<in> set ts"
  shows "\<exists>k e. jm_get obs t = Some k \<and> k < length bs \<and> jm_get (og_registrySnapshot g) t = Some e \<and> ro_type (bs ! k) = oe_type e"
  using assms
proof (induction ts)
  case (Cons t' ts)
  from Cons.prems(1) obtain k where k: "jm_get obs t' = Some k" "Some (ro_type (bs ! k)) = map_option oe_type (jm_get (og_registrySnapshot g) t')"
    "checkRuntimeEntries g obs bs ts = Inr u" by (auto split: option.splits if_splits)
  then have "k < length bs" using Cons.prems(2) jm_get_Some_in [OF k(1)] by (force simp: jm_vals_def)
  moreover from k(2) obtain e where "jm_get (og_registrySnapshot g) t' = Some e" "ro_type (bs ! k) = oe_type e"
    by (cases "jm_get (og_registrySnapshot g) t'") auto
  ultimately show ?case using k Cons by (cases "t = t'") auto
qed simp

lemma objects_type [simp]:
  "ro_type (fold stop_object ks bs ! j) = ro_type (bs ! j)"
proof (induction ks arbitrary: bs)
  case (Cons k ks)
  have "ro_type (stop_object k bs ! j) = ro_type (bs ! j)"
    by (cases "j = k \<and> k < length bs") (auto simp: stop_object_def nth_list_update list_update_beyond)
  with Cons show ?case by simp
qed simp

lemma record_typed_keep:
  "record_typed bs x \<Longrightarrow> record_typed (fold stop_object ks bs) x"
  "record_typed bs x \<Longrightarrow> record_typed (bs @ cs) x"
  by (simp add: record_typed_def) (fastforce simp: record_typed_def nth_append)

lemma record_typed_fields:
  "record_typed bs (x\<lparr>rec_draining := d\<rparr>) = record_typed bs x"
  "record_typed bs (x\<lparr>rec_usage := n, rec_referencesByTag := m\<rparr>) = record_typed bs x"
  "record_typed bs (drop_reference t x) = record_typed bs x"
  by (simp_all add: record_typed_def drop_reference_def Let_def)

lemma registry_typed_stopped: "obr_records r = [] \<Longrightarrow> registry_typed r"
  by (simp add: registry_typed_def)

lemma registry_typed_step:
  assumes ok: "registry_ok r" and typed: "registry_typed r"
  shows "registry_typed (registry_step e r)"
proof (cases e)
  case (CreateOutbound t ty)
  with typed show ?thesis by (auto simp: registry_typed_def record_typed_keep)
next
  case (Acquire t i)
  with typed show ?thesis
    by (auto simp: registry_typed_def acquireOutboundRef_def record_typed_fields Let_def split: option.splits if_splits)
next
  case (Release k)
  have gone: "registry_typed (snd (retireIfUnused i r'))" if "registry_typed r'" for i r'
    using that retire_cases [of i r'] by (auto simp: registry_typed_def record_typed_keep split: if_splits)
  have "registry_typed (given_back k r)"
    using typed by (auto simp: registry_typed_def given_back_def record_typed_fields Let_def split: option.splits if_splits)
  with gone typed Release show ?thesis
    by (cases "orf_released (obr_references r ! k)") (simp_all add: release_given_back, simp add: releaseOutboundRef_def Let_def)
next
  case (Switch g obs)
  show ?thesis
  proof (cases "fresh_objects r obs")
    case True
    then have small: "\<forall>k \<in> set (jm_vals obs). k < length (obr_objects r)" by (simp add: fresh_objects_def)
    from switch_cases [OF ok, of g obs] show ?thesis
    proof (elim disjE exE conjE)
      fix old :: runtime_record
      assume valid: "validateRuntimeEntries g obs (obr_objects r) = Inr ()" and old: "jm_get (obr_records r) (obr_activeGenerationId r) = Some old"
        and res: "switchGeneration g obs r = (Inr (obr_activeGenerationId r),
          r\<lparr>obr_records := jm_set (og_id g) \<lparr>rec_generation = g, rec_usage = 0, rec_sequence = rec_sequence old + 1, rec_outbounds = obs,
              rec_referencesByTag = [], rec_draining = False\<rparr>
            (jm_set (obr_activeGenerationId r) (old\<lparr>rec_draining := True\<rparr>) (obr_records r)),
          obr_activeGenerationId := og_id g\<rparr>)"
      have "record_typed (obr_objects r) \<lparr>rec_generation = g, rec_usage = 0, rec_sequence = rec_sequence old + 1, rec_outbounds = obs,
              rec_referencesByTag = [], rec_draining = False\<rparr>"
        using checkRuntimeEntries_typed [OF valid [unfolded validateRuntimeEntries_def] small] by (simp add: record_typed_def)
      with typed old True Switch res show ?thesis by (auto simp: registry_typed_def record_typed_fields)
    qed (simp add: typed Switch)
  qed (simp add: typed Switch)
next
  case (Restore i j)
  with typed show ?thesis
    by (auto simp: registry_typed_def restoreGeneration_def record_typed_fields Let_def split: option.splits if_splits)
next
  case (MarkDraining i)
  with typed show ?thesis by (auto simp: registry_typed_def markDraining_def record_typed_fields split: option.splits if_splits)
next
  case (Retire i)
  with typed retire_cases [of i r] show ?thesis by (auto simp: registry_typed_def record_typed_keep split: if_splits)
next
  case (Dispose obs)
  with typed show ?thesis by (auto simp: registry_typed_def stopOutbounds_def record_typed_keep)
next
  case StopAll
  then show ?thesis by (simp add: registry_typed_stopped)
qed

interpretation typed_registry: invariant_system registry_step "\<lambda>r. registry_live r \<and> registry_typed r"
proof unfold_locales
  fix r e
  assume inv: "registry_live r \<and> registry_typed r"
  then have "registry_typed (registry_step e r)"
    by (cases "obr_records r = []") (simp_all add: registry_typed_stopped stopped_stays registry_typed_step live_ok)
  with inv show "registry_live (registry_step e r) \<and> registry_typed (registry_step e r)" by (simp add: registry.step_keeps)
qed

text \<open>Until the adapter stops something itself, nothing is stopped twice.\<close>

lemma history_stops_once:
  assumes "registry_live r" "\<forall>b \<in> set (obr_objects r). ro_stops b \<le> 1" "\<forall>obs. Dispose obs \<notin> set es"
  shows "\<forall>b \<in> set (obr_objects (fold registry_step es r)). ro_stops b \<le> 1"
  using assms
proof (induction es arbitrary: r)
  case (Cons e es)
  then have e: "\<forall>obs. e \<noteq> Dispose obs" "\<forall>obs. Dispose obs \<notin> set es" by auto
  show ?case using Cons.IH [OF registry.step_keeps [OF Cons.prems(1)] stops_once [OF Cons.prems(1,2) e(1)] e(2)] by simp
qed simp

text \<open>A registry as the engine creates it: a valid first generation over objects of its own.\<close>

definition initial_registry :: "outbound_generation \<Rightarrow> (string, nat) jsmap \<Rightarrow> runtime_outbound list \<Rightarrow> outbound_registry \<Rightarrow> bool" where
  "initial_registry g obs bs r \<longleftrightarrow> newOutboundRegistry g obs bs = Inr r \<and> jm_ok obs \<and> distinct (jm_vals obs) \<and>
     (\<forall>k \<in> set (jm_vals obs). k < length bs) \<and> (\<forall>b \<in> set bs. ro_stops b = 0)"

lemma initial_ok:
  assumes "initial_registry g obs bs r"
  shows "registry_ok r \<and> registry_typed r"
proof -
  from assms have new: "newOutboundRegistry g obs bs = Inr r" and small: "\<forall>k \<in> set (jm_vals obs). k < length bs"
    by (simp_all add: initial_registry_def)
  obtain u where "validateRuntimeEntries g obs bs = Inr u" using new by (auto simp: newOutboundRegistry_def rbind_Inr_iff)
  from checkRuntimeEntries_typed [OF this [unfolded validateRuntimeEntries_def] small] new
  have "registry_typed r" by (auto simp: registry_typed_def record_typed_def newOutboundRegistry_def rbind_Inr_iff split: if_splits)
  moreover have "registry_ok r" using assms by (intro newOutboundRegistry_ok) (auto simp: initial_registry_def)
  ultimately show ?thesis by simp
qed

lemma initial_live: "initial_registry g obs bs r \<Longrightarrow> registry_live r \<and> registry_typed r"
  using initial_ok [of g obs bs r] by (simp add: registry_live_def)

lemma initial_objects: "initial_registry g obs bs r \<Longrightarrow> \<forall>b \<in> set (obr_objects r). ro_stops b \<le> 1"
  by (auto simp: initial_registry_def newOutboundRegistry_def rbind_Inr_iff)

text \<open>A reference that is out names an outbound that works.\<close>

lemma live_reference:
  assumes "registry_ok r" "f \<in> set (obr_references r)" "\<not> orf_released f"
  shows "getOutbound r (orf_tag f) (orf_generationId f) = Some (orf_outbound f) \<and> ro_stops (obr_objects r ! orf_outbound f) = 0"
proof -
  from assms(1) have parts: "parts_ok (jm_get (obr_records r)) (obr_activeGenerationId r) (obr_references r) (obr_objects r)"
    by (simp add: registry_ok_def)
  with assms(2,3) obtain x where x: "jm_get (obr_records r) (orf_generationId f) = Some x" "jm_get (rec_outbounds x) (orf_tag f) = Some (orf_outbound f)"
    by (auto simp: parts_ok_def reference_ok_def)
  from jm_get_Some_in [OF x(2)] have "orf_outbound f \<in> set (jm_vals (rec_outbounds x))" by (force simp: jm_vals_def)
  with parts_record [OF parts x(1)] x show ?thesis by (simp add: record_ok_def getOutbound_def)
qed

section \<open>Properties\<close>

text \<open>
  Property C7. Every generation of a registry serves its tags with outbounds of the types it lists:
  after any history, each tag of each generation that is still kept names an existing outbound whose
  type is the one of the generation's entry.
\<close>

theorem outbound_registry_typed:
  assumes "initial_registry g obs bs r0" "r = fold registry_step es r0" "jm_get (obr_records r) i = Some x"
    and "t \<in> set (og_outboundTags (rec_generation x))"
  shows "\<exists>k e. getOutbound r t i = Some k \<and> k < length (obr_objects r) \<and>
    jm_get (og_registrySnapshot (rec_generation x)) t = Some e \<and> ro_type (obr_objects r ! k) = oe_type e"
proof -
  have "registry_typed r" using typed_registry.run_keeps [of r0 es] initial_live [OF assms(1)] assms(2) by simp
  with assms(3,4) show ?thesis by (auto simp: registry_typed_def record_typed_def getOutbound_def)
qed

text \<open>The last reference of a generation that is not active takes it along.\<close>

lemma last_release:
  assumes ok: "registry_ok r" and k: "\<not> orf_released (obr_references r ! k)" "orf_generationId (obr_references r ! k) = i"
    and i: "i \<noteq> obr_activeGenerationId r" "live_refs (obr_references r) i = 1" "jm_get (obr_records r) i = Some x"
  shows "\<not> jm_has (obr_records (releaseOutboundRef k r)) i \<and>
      (\<forall>b \<in> set (jm_vals (rec_outbounds x)). ro_stops (obr_objects (releaseOutboundRef k r) ! b) = 1)"
proof -
  have xok: "record_ok (obr_references r) (obr_objects r) i x" using ok i(3) by (auto simp: registry_ok_def parts_record)
  let ?x = "drop_reference (orf_tag (obr_references r ! k)) x"
  have x': "rec_usage ?x = 0" "rec_outbounds ?x = rec_outbounds x"
    using xok i(2) by (simp_all add: record_ok_def drop_reference_def Let_def)
  have get: "jm_get (obr_records (given_back k r)) i = Some ?x" "obr_activeGenerationId (given_back k r) = obr_activeGenerationId r"
    "obr_objects (given_back k r) = obr_objects r" using i(3) k(2) by (simp_all add: given_back_def Let_def)
  have "releaseOutboundRef k r = snd (retireIfUnused i (given_back k r))" using release_given_back k by simp
  then have res: "obr_records (releaseOutboundRef k r) = jm_del i (obr_records (given_back k r))"
    "obr_objects (releaseOutboundRef k r) = fold stop_object (jm_vals (rec_outbounds x)) (obr_objects r)"
    using get i(1) x' by (simp_all add: retireIfUnused_def)
  have "distinct (jm_vals (rec_outbounds x))"
    "\<forall>b \<in> set (jm_vals (rec_outbounds x)). b < length (obr_objects r) \<and> ro_stops (obr_objects r ! b) = 0"
    using xok by (simp_all add: record_ok_def)
  with fold_stop_nth show ?thesis unfolding res by simp
qed

text \<open>
  Property C5. An outbound in use is never stopped before the engine stops: after any history of
  traffic and reloads, a registry that was not stopped as a whole serves every reference still out with
  the outbound it was handed out with, which was never stopped; so were none of the outbounds its
  generations hold, and its usage counts are the references still out. Its active generation is there
  and does not drain. Giving back the last reference of another generation drops that generation and
  stops each of its outbounds once; stopping the registry does so for all it holds. As long as the
  reload adapter does not stop a candidate's outbounds itself, no outbound is stopped twice.
\<close>

theorem outbound_registry_sound:
  assumes "initial_registry g obs bs r0" "r = fold registry_step es r0"
  shows "(obr_records r \<noteq> [] \<longrightarrow>
      (\<forall>f \<in> set (obr_references r). orf_released f \<or>
        (getOutbound r (orf_tag f) (orf_generationId f) = Some (orf_outbound f) \<and> ro_stops (obr_objects r ! orf_outbound f) = 0)) \<and>
      (\<exists>x. jm_get (obr_records r) (obr_activeGenerationId r) = Some x \<and> \<not> rec_draining x)) \<and>
    (\<forall>i x. jm_get (obr_records r) i = Some x \<longrightarrow> rec_usage x = live_refs (obr_references r) i \<and>
      (\<forall>b \<in> set (jm_vals (rec_outbounds x)). ro_stops (obr_objects r ! b) = 0 \<and> ro_stops (obr_objects (stopAll r) ! b) = 1)) \<and>
    ((\<forall>c. Dispose c \<notin> set es) \<longrightarrow> (\<forall>b \<in> set (obr_objects r). ro_stops b \<le> 1)) \<and>
    (\<forall>k < length (obr_references r). \<forall>i x. orf_generationId (obr_references r ! k) = i \<longrightarrow> \<not> orf_released (obr_references r ! k) \<longrightarrow>
      i \<noteq> obr_activeGenerationId r \<longrightarrow> live_refs (obr_references r) i = 1 \<longrightarrow> jm_get (obr_records r) i = Some x \<longrightarrow>
      \<not> jm_has (obr_records (releaseOutboundRef k r)) i \<and>
      (\<forall>b \<in> set (jm_vals (rec_outbounds x)). ro_stops (obr_objects (releaseOutboundRef k r) ! b) = 1))"
proof -
  have live: "registry_live r" using typed_registry.run_keeps [of r0 es] initial_live [OF assms(1)] assms(2) by simp
  have "(\<forall>c. Dispose c \<notin> set es) \<longrightarrow> (\<forall>b \<in> set (obr_objects r). ro_stops b \<le> 1)"
    using history_stops_once [of r0 es] initial_live [OF assms(1)] initial_objects [OF assms(1)] assms(2) by simp
  moreover have "rec_usage x = live_refs (obr_references r) i \<and>
      (\<forall>b \<in> set (jm_vals (rec_outbounds x)). ro_stops (obr_objects r ! b) = 0 \<and> ro_stops (obr_objects (stopAll r) ! b) = 1)"
    if "jm_get (obr_records r) i = Some x" for i x
  proof -
    have ok: "registry_ok r" using live that by (auto simp: registry_live_def)
    with that have "record_ok (obr_references r) (obr_objects r) i x" by (auto simp: registry_ok_def parts_record)
    with stopAll_held [OF ok record_in_vals [OF that]] show ?thesis by (simp add: record_ok_def)
  qed
  moreover have "\<exists>x. jm_get (obr_records r) (obr_activeGenerationId r) = Some x \<and> \<not> rec_draining x" if "obr_records r \<noteq> []"
    using live_ok [OF live that] by (auto simp: registry_ok_def dest: parts_active)
  moreover have "\<not> jm_has (obr_records (releaseOutboundRef k r)) i \<and>
      (\<forall>b \<in> set (jm_vals (rec_outbounds x)). ro_stops (obr_objects (releaseOutboundRef k r) ! b) = 1)"
    if "orf_generationId (obr_references r ! k) = i" "\<not> orf_released (obr_references r ! k)" "i \<noteq> obr_activeGenerationId r"
      "live_refs (obr_references r) i = 1" "jm_get (obr_records r) i = Some x" for k i x
    by (rule last_release) (use live that in \<open>auto simp: registry_live_def\<close>)
  ultimately show ?thesis using live_reference live_ok [OF live] by blast
qed

section \<open>A small history\<close>

definition outboundHashes :: outbound_hashes where
  "outboundHashes = \<lparr>ohs_config = (\<lambda>j. ''c''), ohs_generation = (\<lambda>es b. ''g'')\<rparr>"

definition directGeneration :: "string \<Rightarrow> outbound_generation" where
  "directGeneration i =
     (case newOutboundGeneration outboundHashes i [sample_outbound ''d'' DirectOutbound] ''d'' [] [] OActive None 0 of Inr g \<Rightarrow> g)"

definition directRegistry :: outbound_registry where
  "directRegistry =
     (case newOutboundRegistry (directGeneration ''o0'') [(''d'', 0)] [\<lparr>ro_tag = ''d'', ro_type = ''direct'', ro_stops = 0\<rparr>] of Inr r \<Rightarrow> r)"

lemmas registry_eval = newOutboundRegistry_def validateRuntimeEntries_def directGeneration_def newOutboundGeneration_def
  createOutboundGenerationEntry_def sample_outbound_def jm_of_list_def Let_def

lemma directRegistry_new:
  "initial_registry (directGeneration ''o0'') [(''d'', 0)] [\<lparr>ro_tag = ''d'', ro_type = ''direct'', ro_stops = 0\<rparr>] directRegistry"
  by (simp add: initial_registry_def directRegistry_def registry_eval jm_ok_def jm_vals_def)

text \<open>A connection over the first generation, a switch to a second one, and the end of the connection.\<close>

definition directHistory :: "registry_event list" where
  "directHistory = [Acquire ''d'' ''o0'', CreateOutbound ''d'' ''direct'', Switch (directGeneration ''o1'') [(''d'', 1)]]"

lemma outbound_registry_typed_witness:
  "\<exists>k e. getOutbound directRegistry ''d'' ''o0'' = Some k \<and> k < length (obr_objects directRegistry) \<and>
    jm_get (og_registrySnapshot (directGeneration ''o0'')) ''d'' = Some e \<and> ro_type (obr_objects directRegistry ! k) = oe_type e"
proof -
  have x: "\<exists>x. jm_get (obr_records directRegistry) ''o0'' = Some x \<and> rec_generation x = directGeneration ''o0''"
    "''d'' \<in> set (og_outboundTags (directGeneration ''o0''))"
    by (simp_all add: directRegistry_def registry_eval)
  then obtain x where "jm_get (obr_records directRegistry) ''o0'' = Some x" "rec_generation x = directGeneration ''o0''" by blast
  with outbound_registry_typed [OF directRegistry_new, of directRegistry "[]" "''o0''" x "''d''"] x(2) show ?thesis by simp
qed

lemma directHistory_end:
  "obr_references (fold registry_step directHistory directRegistry) =
     [\<lparr>orf_id = reference_name 1, orf_generationId = ''o0'', orf_tag = ''d'', orf_outbound = 0, orf_released = False\<rparr>] \<and>
   obr_activeGenerationId (fold registry_step directHistory directRegistry) = ''o1'' \<and>
   obr_records (fold registry_step directHistory directRegistry) \<noteq> [] \<and>
   (\<exists>x. jm_get (obr_records (fold registry_step directHistory directRegistry)) ''o0'' = Some x \<and> rec_outbounds x = [(''d'', 0)])"
  by (simp add: directHistory_def directRegistry_def registry_eval acquireOutboundRef_def switchGeneration_def fresh_objects_def
      jm_ok_def jm_vals_def jm_has_get)

lemma outbound_registry_sound_witness:
  "ro_stops (obr_objects (fold registry_step directHistory directRegistry) ! 0) = 0 \<and>
   \<not> jm_has (obr_records (releaseOutboundRef 0 (fold registry_step directHistory directRegistry))) ''o0'' \<and>
   ro_stops (obr_objects (releaseOutboundRef 0 (fold registry_step directHistory directRegistry)) ! 0) = 1"
proof -
  let ?r = "fold registry_step directHistory directRegistry"
  from directHistory_end obtain x where refs: "obr_references ?r =
     [\<lparr>orf_id = reference_name 1, orf_generationId = ''o0'', orf_tag = ''d'', orf_outbound = 0, orf_released = False\<rparr>]"
    and active: "obr_activeGenerationId ?r = ''o1''" and running: "obr_records ?r \<noteq> []" and x: "jm_get (obr_records ?r) ''o0'' = Some x" "rec_outbounds x = [(''d'', 0)]"
    by (elim conjE exE)
  note sound = outbound_registry_sound [OF directRegistry_new refl, of directHistory]
  have "live_refs (obr_references ?r) ''o0'' = 1" by (simp add: refs live_refs_def)
  with sound refs active running x show ?thesis by (simp add: jm_vals_def)
qed

end
