(* ===== verification/EngineInv.thy ===== *)
theory EngineInv
  imports EngineRoute OutboundRegistryProofs
begin

text \<open>
  The invariant of the engine: every handle of the routing runtime that is out belongs to exactly one
  request that waits, and every reference of the registry that is out to exactly one waiting attempt
  or open connection.
\<close>

section \<open>Positions of a list\<close>

definition live_indices :: "('a \<Rightarrow> bool) \<Rightarrow> 'a list \<Rightarrow> nat multiset" where
  "live_indices P xs = mset (filter (\<lambda>k. P (xs ! k)) [0..<length xs])"

lemma live_indices_set: "live_indices P xs = mset_set {k. k < length xs \<and> P (xs ! k)}"
proof -
  have "mset_set (set (filter (\<lambda>k. P (xs ! k)) [0..<length xs])) = live_indices P xs"
    unfolding live_indices_def by (rule mset_set_set) simp
  then show ?thesis by simp
qed

lemma live_indices_append:
  "live_indices P (xs @ [x]) = (if P x then add_mset (length xs) (live_indices P xs) else live_indices P xs)"
proof -
  have "filter (\<lambda>k. P ((xs @ [x]) ! k)) [0..<length xs] = filter (\<lambda>k. P (xs ! k)) [0..<length xs]"
    by (rule filter_cong) (auto simp: nth_append)
  then show ?thesis by (simp add: live_indices_def)
qed

lemma live_indices_update:
  assumes "i < length xs" "P (xs ! i)" "\<not> P x"
  shows "live_indices P xs = add_mset i (live_indices P (xs[i := x]))"
proof -
  have "{k. k < length xs \<and> P (xs ! k)} = insert i {k. k < length xs \<and> P (xs[i := x] ! k)}"
    using assms by (auto simp: nth_list_update)
  moreover have "i \<notin> {k. k < length xs \<and> P (xs[i := x] ! k)}" using assms by simp
  ultimately show ?thesis by (simp add: live_indices_set)
qed

lemma live_indices_mem: "k \<in># live_indices P xs \<longleftrightarrow> k < length xs \<and> P (xs ! k)"
  by (simp add: live_indices_set)

lemma live_indices_count:
  "length (filter (\<lambda>x. P x \<and> Q x) xs) = size (filter_mset (\<lambda>k. Q (xs ! k)) (live_indices P xs))"
proof -
  have "filter_mset (\<lambda>k. Q (xs ! k)) (live_indices P xs) = mset (filter (\<lambda>k. P (xs ! k) \<and> Q (xs ! k)) [0..<length xs])"
    by (simp add: live_indices_def mset_filter conj_commute flip: filter_filter)
  moreover have "length (filter (\<lambda>x. P x \<and> Q x) (map ((!) xs) [0..<length xs])) = length (filter (\<lambda>k. P (xs ! k) \<and> Q (xs ! k)) [0..<length xs])"
    by (simp add: filter_map comp_def)
  ultimately show ?thesis by (metis map_nth size_mset)
qed

text \<open>A list of which one element changes.\<close>

lemma mset_change:
  assumes "i < length xs"
  obtains M where "mset xs = add_mset (xs ! i) M" "\<And>y. mset (xs[i := y]) = add_mset y M"
  using assms by (intro that [of "mset xs - {#xs ! i#}"]) (simp_all add: mset_update)

section \<open>Who holds what\<close>

definition opt_mset :: "'a option \<Rightarrow> 'a multiset" where
  "opt_mset x = (case x of Some k \<Rightarrow> {#k#} | None \<Rightarrow> {#})"

definition attempt_refs :: "nat \<Rightarrow> attempt option \<Rightarrow> nat multiset" where
  "attempt_refs n a = (case a of Some a \<Rightarrow> if at_registry a = n then opt_mset (at_reference a) else {#} | None \<Rightarrow> {#})"

definition connection_refs :: "nat \<Rightarrow> engine_connection \<Rightarrow> nat multiset" where
  "connection_refs n c = (if ec_registry c = n \<and> \<not> ec_closed c then opt_mset (ec_reference c) else {#})"

definition task_handles :: "engine_task \<Rightarrow> nat multiset" where
  "task_handles t = (if et_result t = None then {#et_handle t#} else {#})"

definition handles_out :: "engine_task multiset \<Rightarrow> nat multiset" where
  "handles_out T = sum_mset (image_mset task_handles T)"

definition refs_out :: "engine_task multiset \<Rightarrow> engine \<Rightarrow> nat multiset" where
  "refs_out T w = sum_mset (image_mset (attempt_refs (eg_registries w) \<circ> et_attempt) T)
     + sum_mset (image_mset (connection_refs (eg_registries w)) (mset (eg_connections w)))"

text \<open>An outbound belongs to the reference that is held with it.\<close>

definition ref_fits :: "engine \<Rightarrow> nat \<Rightarrow> nat option \<Rightarrow> nat \<Rightarrow> bool" where
  "ref_fits w n reference k \<longleftrightarrow> n \<le> eg_registries w \<and>
     (n = eg_registries w \<longrightarrow> (\<forall>r i. eg_registry w = Some r \<longrightarrow> reference = Some i \<longrightarrow>
        i < length (obr_references r) \<and> orf_outbound (obr_references r ! i) = k))"

definition attempt_fits :: "engine \<Rightarrow> attempt \<Rightarrow> bool" where
  "attempt_fits w a \<longleftrightarrow> ref_fits w (at_registry a) (at_reference a) (at_outbound a)"

definition task_fits :: "engine \<Rightarrow> engine_task \<Rightarrow> bool" where
  "task_fits w t \<longleftrightarrow> (et_result t = None \<longleftrightarrow> et_attempt t \<noteq> None) \<and> (\<forall>a. et_attempt t = Some a \<longrightarrow> attempt_fits w a \<and> (et_udp t \<longrightarrow> at_reference a = None))"

definition connection_fits :: "engine \<Rightarrow> engine_connection \<Rightarrow> bool" where
  "connection_fits w c \<longleftrightarrow> ref_fits w (ec_registry c) (ec_reference c) (ec_outbound c)"

text \<open>
  The invariant, for the requests \<open>T\<close> that wait or are settled, with handles \<open>H\<close> and references \<open>R\<close> in
  the hands of a request that is running.
\<close>

definition engine_held :: "engine_task multiset \<Rightarrow> nat multiset \<Rightarrow> nat multiset \<Rightarrow> engine \<Rightarrow> bool" where
  "engine_held T H R w \<longleftrightarrow>
     routing_inv (eg_routing w) \<and>
     live_indices (\<lambda>h. \<not> rh_released h) (rr_handles (eg_routing w)) = handles_out T + H \<and>
     (\<forall>r. eg_registry w = Some r \<longrightarrow> registry_live r \<and>
        live_indices (\<lambda>f. \<not> orf_released f) (obr_references r) = refs_out T w + R) \<and>
     (\<forall>t \<in># T. task_fits w t) \<and> (\<forall>c \<in> set (eg_connections w). connection_fits w c)"

definition engine_ok :: "engine \<Rightarrow> bool" where
  "engine_ok w \<longleftrightarrow> engine_held (mset (eg_tasks w)) {#} {#} w"

definition refs_grow :: "outbound_registry \<Rightarrow> outbound_registry \<Rightarrow> bool" where
  "refs_grow r r' \<longleftrightarrow> length (obr_references r) \<le> length (obr_references r') \<and>
     (\<forall>i < length (obr_references r). orf_outbound (obr_references r' ! i) = orf_outbound (obr_references r ! i))"

lemma ref_fits_registry:
  assumes "ref_fits w n reference k" "eg_registries w' = eg_registries w"
    and "eg_registry w' = None \<or> eg_registry w' = eg_registry w \<or> (\<exists>r r'. eg_registry w = Some r \<and> eg_registry w' = Some r' \<and> refs_grow r r')"
  shows "ref_fits w' n reference k"
  using assms by (fastforce simp: ref_fits_def refs_grow_def)

lemma fits_registry:
  assumes "eg_registries w' = eg_registries w"
    and "eg_registry w' = None \<or> eg_registry w' = eg_registry w \<or> (\<exists>r r'. eg_registry w = Some r \<and> eg_registry w' = Some r' \<and> refs_grow r r')"
  shows "attempt_fits w a \<Longrightarrow> attempt_fits w' a" "task_fits w t \<Longrightarrow> task_fits w' t" "connection_fits w c \<Longrightarrow> connection_fits w' c"
  using ref_fits_registry [OF _ assms] by (auto simp: attempt_fits_def task_fits_def connection_fits_def)

section \<open>What the registry does to its references\<close>

lemma acquire_refs:
  assumes "acquireOutboundRef tag i r = (a, r')"
  shows "(a = None \<and> r' = r) \<or>
    (a = Some (length (obr_references r)) \<and> (\<exists>f. obr_references r' = obr_references r @ [f] \<and> \<not> orf_released f))"
proof (cases "Option.bind (jm_get (obr_records r) i) (\<lambda>x. jm_get (rec_outbounds x) tag)")
  case None
  with assms show ?thesis by (auto simp: acquireOutboundRef_def Let_def split: option.splits)
next
  case (Some k)
  then obtain x where "jm_get (obr_records r) i = Some x" "jm_get (rec_outbounds x) tag = Some k"
    by (auto simp: bind_eq_Some_conv)
  with assms show ?thesis by (auto simp: acquireOutboundRef_def Let_def)
qed

lemma acquire_live: "registry_live r \<Longrightarrow> acquireOutboundRef tag i r = (a, r') \<Longrightarrow> registry_live r'"
  using acquire_ok [of r tag i] by (auto simp: registry_live_def acquireOutboundRef_def)

lemma retire_refs: "obr_references (snd (retireIfUnused i r)) = obr_references r"
  by (simp add: retireIfUnused_def split: option.splits)

lemma release_refs:
  "obr_references (releaseOutboundRef k r) =
     (if orf_released (obr_references r ! k) then obr_references r
      else (obr_references r)[k := (obr_references r ! k)\<lparr>orf_released := True\<rparr>])"
  by (simp add: releaseOutboundRef_def retire_refs Let_def split: option.splits)

lemma release_live:
  assumes "registry_live r" "k < length (obr_references r)"
  shows "registry_live (releaseOutboundRef k r)"
proof -
  have "obr_records (releaseOutboundRef k r) = []" if "obr_records r = []"
    using that by (simp add: releaseOutboundRef_def retireIfUnused_def Let_def)
  with assms release_ok [of r k] show ?thesis by (auto simp: registry_live_def)
qed

lemma released_outbound: "orf_outbound (fs[k := (fs ! k)\<lparr>orf_released := True\<rparr>] ! i) = orf_outbound (fs ! i)"
  by (cases "k < length fs"; cases "i = k") (simp_all add: list_update_beyond)

lemma grow_refs:
  "refs_grow r r" "obr_references r' = obr_references r \<Longrightarrow> refs_grow r r'"
  "obr_references r' = obr_references r @ fs \<Longrightarrow> refs_grow r r'" "refs_grow r (releaseOutboundRef k r)"
  by (simp_all add: refs_grow_def nth_append release_refs released_outbound)

section \<open>Requests keep the invariant\<close>

lemma routing_inv_managers: "routing_inv (rt\<lparr>rr_managers := ms\<rparr>) = routing_inv rt"
  by (simp add: routing_inv_def usage_exact_def usage_of_def open_handles_def draining_justified_def published_old_def txn_sound_def)

text \<open>What the invariant does not look at.\<close>

lemma held_routing:
  assumes "engine_held T H R w" "routing_inv rt" "rr_handles rt = rr_handles (eg_routing w)"
  shows "engine_held T H R (w\<lparr>eg_routing := rt\<rparr>)"
proof -
  have "refs_out T (w\<lparr>eg_routing := rt\<rparr>) = refs_out T w" by (simp add: refs_out_def)
  moreover have "task_fits (w\<lparr>eg_routing := rt\<rparr>) t = task_fits w t" "connection_fits (w\<lparr>eg_routing := rt\<rparr>) c = connection_fits w c" for t c
    by (simp_all add: task_fits_def attempt_fits_def connection_fits_def ref_fits_def)
  ultimately show ?thesis using assms by (simp add: engine_held_def)
qed

lemma held_set_manager: "engine_held T H R w \<Longrightarrow> engine_held T H R (set_manager h m w)"
  unfolding set_manager_def by (rule held_routing) (simp_all add: routing_inv_managers engine_held_def)

lemma held_elsewhere: "engine_held T H R (w\<lparr>eg_fakeIp := s, eg_stats := st\<rparr>) = engine_held T H R w"
proof -
  let ?w = "w\<lparr>eg_fakeIp := s, eg_stats := st\<rparr>"
  have "refs_out T ?w = refs_out T w" by (simp add: refs_out_def)
  moreover have "task_fits ?w t = task_fits w t" "connection_fits ?w c = connection_fits w c" for t c
    by (simp_all add: task_fits_def attempt_fits_def connection_fits_def ref_fits_def)
  ultimately show ?thesis by (simp add: engine_held_def)
qed

lemma held_tasks: "engine_held T H R (w\<lparr>eg_tasks := ts\<rparr>) = engine_held T H R w"
proof -
  let ?w = "w\<lparr>eg_tasks := ts\<rparr>"
  have "refs_out T ?w = refs_out T w" by (simp add: refs_out_def)
  moreover have "task_fits ?w t = task_fits w t" "connection_fits ?w c = connection_fits w c" for t c
    by (simp_all add: task_fits_def attempt_fits_def connection_fits_def ref_fits_def)
  ultimately show ?thesis by (simp add: engine_held_def)
qed

lemma held_stats: "engine_held T H R w \<Longrightarrow> engine_held T H R (on_engine_stats f w)"
  using held_elsewhere [where w = w and s = "eg_fakeIp w" and st = "f (eg_stats w)"] by (simp add: on_engine_stats_def)

lemma held_fakeIp: "engine_held T H R (w\<lparr>eg_fakeIp := s\<rparr>) = engine_held T H R w"
  using held_elsewhere [where w = w and s = s and st = "eg_stats w"] by simp

text \<open>What a running request leaves alone.\<close>

definition same_frame :: "engine \<Rightarrow> engine \<Rightarrow> bool" where
  "same_frame w w' \<longleftrightarrow> eg_registries w' = eg_registries w \<and> eg_tasks w' = eg_tasks w"

lemma held_attempt_failed:
  "engine_held T H R w \<Longrightarrow> engine_held T H R (attempt_failed now h tag w) \<and> same_frame w (attempt_failed now h tag w)"
  by (rule conjI) (auto simp: attempt_failed_def intro!: held_stats held_set_manager,
    simp add: attempt_failed_def same_frame_def on_engine_stats_def set_manager_def)

text \<open>The registry changes, and with it the references in the hands of the running request.\<close>

lemma held_registry:
  assumes "engine_held T H R w" "eg_registry w = Some r" "refs_grow r r'" "registry_live r'"
    and "live_indices (\<lambda>f. \<not> orf_released f) (obr_references r') = refs_out T w + R'"
  shows "engine_held T H R' (w\<lparr>eg_registry := Some r'\<rparr>)"
proof -
  let ?w = "w\<lparr>eg_registry := Some r'\<rparr>"
  have "refs_out T ?w = refs_out T w" by (simp add: refs_out_def)
  moreover have "task_fits w t \<Longrightarrow> task_fits ?w t" "connection_fits w c \<Longrightarrow> connection_fits ?w c" for t c
    using assms(2,3) by (auto intro: fits_registry [of ?w w])
  ultimately show ?thesis using assms by (simp add: engine_held_def)
qed

lemma engine_held_acquire: "engine_held T H R w \<Longrightarrow> engine_held T (add_mset (fst (rt_acquire (eg_routing w))) H) R (w\<lparr>eg_routing := snd (rt_acquire (eg_routing w))\<rparr>)"
proof -
  let ?rt = "snd (rt_acquire (eg_routing w))"
  assume held: "engine_held T H R w"
  have "refs_out T (w\<lparr>eg_routing := ?rt\<rparr>) = refs_out T w" by (simp add: refs_out_def)
  moreover have "task_fits (w\<lparr>eg_routing := ?rt\<rparr>) t = task_fits w t" "connection_fits (w\<lparr>eg_routing := ?rt\<rparr>) c = connection_fits w c" for t c
    by (simp_all add: task_fits_def attempt_fits_def connection_fits_def ref_fits_def)
  moreover have "routing_inv ?rt" using held by (intro routing_inv_acquire) (simp add: engine_held_def)
  ultimately show ?thesis
    using held by (simp add: engine_held_def) (simp add: rt_acquire_def live_indices_append Let_def)
qed

lemma held_release:
  assumes "engine_held T (add_mset h H) R w"
  shows "engine_held T H R (w\<lparr>eg_routing := rt_release h (eg_routing w)\<rparr>)"
proof -
  let ?rt = "rt_release h (eg_routing w)" and ?live = "\<lambda>h. \<not> rh_released h"
  have "h \<in># live_indices ?live (rr_handles (eg_routing w))" using assms by (simp add: engine_held_def)
  then have h: "h < length (rr_handles (eg_routing w))" "\<not> rh_released (rr_handles (eg_routing w) ! h)" by (simp_all add: live_indices_mem)
  then have "rr_handles ?rt = (rr_handles (eg_routing w))[h := (rr_handles (eg_routing w) ! h)\<lparr>rh_released := True\<rparr>]"
    by (simp add: rt_release_def Let_def)
  then have handles: "live_indices ?live (rr_handles (eg_routing w)) = add_mset h (live_indices ?live (rr_handles ?rt))"
    using live_indices_update [OF h(1), of ?live] h(2) by simp
  have "refs_out T (w\<lparr>eg_routing := ?rt\<rparr>) = refs_out T w" by (simp add: refs_out_def)
  moreover have "task_fits (w\<lparr>eg_routing := ?rt\<rparr>) t = task_fits w t" "connection_fits (w\<lparr>eg_routing := ?rt\<rparr>) c = connection_fits w c" for t c
    by (simp_all add: task_fits_def attempt_fits_def connection_fits_def ref_fits_def)
  moreover have "routing_inv ?rt" using assms by (intro routing_inv_release) (simp add: engine_held_def)
  ultimately show ?thesis using assms handles by (simp add: engine_held_def)
qed

lemma held_pick:
  assumes "engine_held T H R w" "pickOutbound tag w = (a, w')"
  shows "engine_held T H (attempt_refs (eg_registries w) a + R) w' \<and> (\<forall>x. a = Some x \<longrightarrow> attempt_fits w' x) \<and> same_frame w w'"
proof (cases "eg_registry w")
  case None
  with assms show ?thesis
    by (cases "jm_get (eg_outbounds w) tag")
      (auto simp: pickOutbound_def attempt_refs_def opt_mset_def attempt_fits_def ref_fits_def same_frame_def)
next
  case (Some r)
  obtain ref r' where acq: "acquireOutboundRef tag (obr_activeGenerationId r) r = (ref, r')" by fastforce
  from acquire_refs [OF acq] show ?thesis
  proof (elim disjE conjE exE)
    assume missing: "ref = None" "r' = r"
    have "w\<lparr>eg_registry := Some r\<rparr> = w" using Some by simp
    with assms Some acq missing show ?thesis
      by (cases "jm_get (eg_outbounds w) tag") (auto simp: pickOutbound_def attempt_refs_def opt_mset_def attempt_fits_def ref_fits_def same_frame_def)
  next
    fix f
    assume taken: "ref = Some (length (obr_references r))" "obr_references r' = obr_references r @ [f]" "\<not> orf_released f"
    have res: "w' = w\<lparr>eg_registry := Some r'\<rparr>"
      "a = Some \<lparr>at_tag = tag, at_outbound = orf_outbound f, at_registry = eg_registries w, at_reference = Some (length (obr_references r))\<rparr>"
      using assms(2) Some acq taken by (simp_all add: pickOutbound_def)
    have live: "registry_live r'" using assms(1) Some acquire_live [OF _ acq] by (simp add: engine_held_def)
    have "live_indices (\<lambda>f. \<not> orf_released f) (obr_references r') = refs_out T w + (attempt_refs (eg_registries w) a + R)"
      using assms(1) Some taken res(2) by (simp add: live_indices_append engine_held_def attempt_refs_def opt_mset_def)
    then have "engine_held T H (attempt_refs (eg_registries w) a + R) w'"
      unfolding res(1) by (intro held_registry [OF assms(1) Some _ live]) (simp_all add: grow_refs taken(2))
    moreover have "attempt_fits w' x" if "a = Some x" for x
      using that taken(2) by (auto simp: res attempt_fits_def ref_fits_def)
    ultimately show ?thesis by (simp add: res(1) same_frame_def)
  qed
qed

text \<open>The result of running a request: what it holds at its next stop.\<close>

definition stopped_at :: "engine_task multiset \<Rightarrow> nat multiset \<Rightarrow> nat multiset \<Rightarrow> engine \<Rightarrow> engine_task \<times> engine \<Rightarrow> bool" where
  "stopped_at T H R w r \<longleftrightarrow> same_frame w (snd r) \<and> task_fits (snd r) (fst r) \<and>
     engine_held T (task_handles (fst r) + H) (attempt_refs (eg_registries w) (et_attempt (fst r)) + R) (snd r)"

lemma stopped_frame: "same_frame w w1 \<Longrightarrow> stopped_at T H R w1 r \<Longrightarrow> stopped_at T H R w r"
  by (simp add: stopped_at_def same_frame_def)

lemma finish_stops:
  assumes "engine_held T (add_mset (et_handle task) H) R w"
  shows "stopped_at T H R w (finish_task result task w)"
  using held_release [OF assms]
  by (simp add: stopped_at_def finish_task_def same_frame_def task_fits_def task_handles_def attempt_refs_def)

lemma tryTcp_stops:
  assumes "engine_held T (add_mset (et_handle task) H) R w" "et_result task = None" "\<not> et_udp task"
  shows "stopped_at T H R w (tryTcp now tags task w)"
  using assms
proof (induction now tags task w rule: tryTcp.induct)
  case (1 now task w)
  then show ?case by (simp add: finish_stops)
next
  case (2 now tag tags task w)
  obtain a w1 where pick: "pickOutbound tag w = (a, w1)" by fastforce
  note held = held_pick [OF "2.prems"(1) pick]
  show ?case
  proof (cases a)
    case None
    let ?w2 = "attempt_failed now (et_handle task) tag w1"
    from held None have "engine_held T (add_mset (et_handle task) H) R ?w2 \<and> same_frame w1 ?w2"
      by (intro held_attempt_failed) (simp add: attempt_refs_def)
    with "2.IH" [OF pick [symmetric] None] "2.prems"(2,3) have "stopped_at T H R ?w2 (tryTcp now (tag # tags) task w)"
      by (simp add: pick None)
    moreover have "same_frame w ?w2" using held \<open>_ \<and> same_frame w1 ?w2\<close> by (simp add: same_frame_def)
    ultimately show ?thesis by (rule stopped_frame [rotated])
  next
    case (Some x)
    with held pick "2.prems"(2,3) show ?thesis
      by (simp add: stopped_at_def task_fits_def task_handles_def)
  qed
qed

lemma tryUdp_stops:
  assumes "engine_held T (add_mset (et_handle task) H) R w" "et_result task = None"
  shows "stopped_at T H R w (tryUdp now tags task w)"
  using assms
proof (induction now tags task w rule: tryUdp.induct)
  case (1 now task w)
  then show ?case by (simp add: finish_stops)
next
  case (2 now tag tags task w)
  let ?w1 = "attempt_failed now (et_handle task) tag w"
  from "2.prems"(1) have w1: "engine_held T (add_mset (et_handle task) H) R ?w1 \<and> same_frame w ?w1" by (rule held_attempt_failed)
  show ?case
  proof (cases "jm_get (eg_outbounds w) tag")
    case None
    with "2.IH"(1) [OF None] w1 "2.prems"(2) have "stopped_at T H R ?w1 (tryUdp now (tag # tags) task w)" by simp
    with w1 show ?thesis using stopped_frame by blast
  next
    case (Some kt)
    obtain k t where kt: "kt = (k, t)" by fastforce
    show ?thesis
    proof (cases "supportsUdp t")
      case True
      with Some kt "2.prems" show ?thesis
        by (simp add: stopped_at_def task_fits_def task_handles_def attempt_fits_def ref_fits_def same_frame_def attempt_refs_def opt_mset_def)
    next
      case False
      then have step: "tryUdp now (tag # tags) task w = tryUdp now tags (task\<lparr>et_lastError := Some (no_udp tag)\<rparr>) ?w1"
        by (simp add: Some kt)
      have "stopped_at T H R ?w1 (tryUdp now (tag # tags) task w)"
        unfolding step by (rule "2.IH"(2) [OF Some kt [symmetric] False]) (use w1 "2.prems"(2) in simp_all)
      with w1 show ?thesis using stopped_frame by blast
    qed
  qed
qed

lemma tryCandidates_stops:
  "engine_held T (add_mset (et_handle task) H) R w \<Longrightarrow> et_result task = None \<Longrightarrow> stopped_at T H R w (tryCandidates now tags task w)"
  by (simp add: tryCandidates_def tryTcp_stops tryUdp_stops)

section \<open>Steps keep the invariant\<close>

lemma held_task:
  "engine_held (add_mset t T) H R w \<longleftrightarrow>
     engine_held T (task_handles t + H) (attempt_refs (eg_registries w) (et_attempt t) + R) w \<and> task_fits w t"
proof -
  have "handles_out (add_mset t T) + H = handles_out T + (task_handles t + H)" by (simp add: handles_out_def ac_simps)
  moreover have "refs_out (add_mset t T) w + R = refs_out T w + (attempt_refs (eg_registries w) (et_attempt t) + R)"
    by (simp add: refs_out_def ac_simps)
  ultimately show ?thesis by (auto simp: engine_held_def)
qed

lemma held_stop:
  assumes "stopped_at T {#} {#} w r"
  shows "engine_held (add_mset (fst r) T) {#} {#} (snd r)"
  using assms by (simp add: stopped_at_def held_task same_frame_def)

lemma put_task_ok:
  assumes "engine_ok w" "t < length (eg_tasks w)"
    and "\<And>T. mset (eg_tasks w) = add_mset (eg_tasks w ! t) T \<Longrightarrow>
      engine_held T (task_handles (eg_tasks w ! t)) (attempt_refs (eg_registries w) (et_attempt (eg_tasks w ! t))) w \<Longrightarrow>
      task_fits w (eg_tasks w ! t) \<Longrightarrow> stopped_at T {#} {#} w r"
  shows "engine_ok (put_task t r)"
proof -
  obtain T where T: "mset (eg_tasks w) = add_mset (eg_tasks w ! t) T" "\<And>y. mset ((eg_tasks w)[t := y]) = add_mset y T"
    using mset_change [OF assms(2)] by blast
  have "engine_held (add_mset (eg_tasks w ! t) T) {#} {#} w" using assms(1) T(1) by (simp add: engine_ok_def)
  then have stopped: "stopped_at T {#} {#} w r" by (intro assms(3) T(1)) (simp_all add: held_task)
  then have "eg_tasks (snd r) = eg_tasks w" by (simp add: stopped_at_def same_frame_def)
  with T(2) held_stop [OF stopped] show ?thesis by (simp add: engine_ok_def put_task_def held_tasks)
qed

lemma begin_held:
  assumes "engine_held T H R w" "begin_request udp now rnd request w = (task, w1)"
  shows "engine_held T (add_mset (et_handle task) H) R w1" "et_result task = None" "same_frame w w1"
proof -
  have restore: "\<exists>s. snd (restoreFakeIpDestination now request x) = x\<lparr>eg_fakeIp := s\<rparr>" for x
    by (cases "eg_fakeIp x") (auto simp: restoreFakeIpDestination_def Let_def split_beta intro: exI [of _ "eg_fakeIp x"] split: option.splits)
  obtain h rt where acq: "rt_acquire (eg_routing w) = (h, rt)" by fastforce
  obtain routed w0 where res: "restoreFakeIpDestination now request (w\<lparr>eg_routing := rt\<rparr>) = (routed, w0)" by fastforce
  with restore [of "w\<lparr>eg_routing := rt\<rparr>"] obtain s where w0: "w0 = w\<lparr>eg_routing := rt, eg_fakeIp := s\<rparr>" by auto
  from assms(2) acq res obtain m where task: "et_handle task = h" "et_result task = None" "w1 = set_manager h m (on_engine_stats recordRouteMatch w0)"
    by (auto simp: begin_request_def Let_def split: prod.splits)
  have "engine_held T (add_mset h H) R (w\<lparr>eg_routing := rt\<rparr>)" using engine_held_acquire [OF assms(1)] acq by simp
  then show "engine_held T (add_mset (et_handle task) H) R w1"
    unfolding task by (intro held_set_manager held_stats) (simp add: w0 held_fakeIp)
  show "et_result task = None" "same_frame w w1"
    by (simp_all add: task same_frame_def set_manager_def on_engine_stats_def w0)
qed

lemma start_request_ok:
  assumes "engine_ok w"
  shows "engine_ok (start_request udp now rnd request w)"
proof -
  let ?T = "mset (eg_tasks w)"
  obtain task w1 where begun: "begin_request udp now rnd request w = (task, w1)" by fastforce
  obtain task' w2 where tried: "tryCandidates now (et_candidates task) task w1 = (task', w2)" by fastforce
  note held = begin_held [OF assms [unfolded engine_ok_def] begun]
  from tryCandidates_stops [OF held(1,2)] tried have stopped: "stopped_at ?T {#} {#} w1 (task', w2)" by metis
  then have "eg_tasks w2 = eg_tasks w" using held(3) by (simp add: stopped_at_def same_frame_def)
  with held_stop [OF stopped] begun tried show ?thesis by (simp add: start_request_def engine_ok_def held_tasks)
qed

text \<open>Giving a reference back.\<close>

definition held_ref :: "engine \<Rightarrow> nat \<Rightarrow> nat option \<Rightarrow> nat multiset" where
  "held_ref w n reference = (if n = eg_registries w then opt_mset reference else {#})"

lemma held_release_reference:
  assumes "engine_held T H (held_ref w n reference + R) w"
  shows "engine_held T H R (release_reference n reference w) \<and> same_frame w (release_reference n reference w)"
proof -
  have idle: ?thesis if "release_reference n reference w = w" "eg_registry w = None \<or> held_ref w n reference = {#}"
    using that assms by (auto simp: engine_held_def same_frame_def)
  show ?thesis
  proof (cases reference)
    case None
    then show ?thesis by (intro idle) (simp_all add: release_reference_def held_ref_def opt_mset_def)
  next
    case (Some k)
    show ?thesis
    proof (cases "eg_registry w")
      case None
      with Some show ?thesis by (intro idle) (simp_all add: release_reference_def)
    next
      case r: (Some r)
      show ?thesis
      proof (cases "n = eg_registries w")
        case False
        with Some r show ?thesis by (intro idle) (simp_all add: release_reference_def held_ref_def)
      next
        case True
        let ?live = "\<lambda>f. \<not> orf_released f" and ?w = "w\<lparr>eg_registry := Some (releaseOutboundRef k r)\<rparr>"
        have res: "release_reference n reference w = ?w" using Some r True by (simp add: release_reference_def)
        from assms r have live: "live_indices ?live (obr_references r) = refs_out T w + (add_mset k R)" "registry_live r"
          using Some True by (simp_all add: engine_held_def held_ref_def opt_mset_def)
        then have "k \<in># live_indices ?live (obr_references r)" by simp
        then have k: "k < length (obr_references r)" "\<not> orf_released (obr_references r ! k)" by (simp_all add: live_indices_mem)
        have "live_indices ?live (obr_references (releaseOutboundRef k r)) = refs_out T w + R"
          using live_indices_update [OF k(1), of ?live "(obr_references r ! k)\<lparr>orf_released := True\<rparr>"] k(2) live(1) by (simp add: release_refs)
        then have "engine_held T H R ?w"
          by (rule held_registry [OF assms r grow_refs(4) release_live [OF live(2) k(1)]])
        then show ?thesis by (simp add: res same_frame_def)
      qed
    qed
  qed
qed

lemma fail_attempt_stops:
  assumes "engine_held T (add_mset (et_handle task) H) (held_ref w (at_registry a) (at_reference a) + R) w" "et_result task = None"
  shows "stopped_at T H R w (fail_attempt now e a task w)"
proof -
  let ?w1 = "release_reference (at_registry a) (at_reference a) w"
  let ?w2 = "attempt_failed now (et_handle task) (at_tag a) ?w1"
  note one = held_release_reference [OF assms(1)]
  then have two: "engine_held T (add_mset (et_handle task) H) R ?w2 \<and> same_frame ?w1 ?w2" by (intro held_attempt_failed) simp
  have "stopped_at T H R ?w2 (fail_attempt now e a task w)"
    unfolding fail_attempt_def by (rule tryCandidates_stops) (use two assms(2) in simp_all)
  moreover have "same_frame w ?w2" using one two by (simp add: same_frame_def)
  ultimately show ?thesis by (rule stopped_frame [rotated])
qed

lemma held_connect:
  assumes "engine_held T H (connection_refs (eg_registries w) c + R) w" "connection_fits w c"
  shows "engine_held T H R (w\<lparr>eg_connections := eg_connections w @ [c]\<rparr>)"
proof -
  let ?w = "w\<lparr>eg_connections := eg_connections w @ [c]\<rparr>"
  have "refs_out T ?w + R = refs_out T w + (connection_refs (eg_registries w) c + R)" by (simp add: refs_out_def ac_simps)
  moreover have "task_fits ?w t = task_fits w t" "connection_fits ?w x = connection_fits w x" for t x
    by (simp_all add: task_fits_def attempt_fits_def connection_fits_def ref_fits_def)
  ultimately show ?thesis using assms by (auto simp: engine_held_def)
qed

lemma succeed_attempt_stops:
  assumes "engine_held T (add_mset (et_handle task) H) (held_ref w (at_registry a) (at_reference a) + R) w"
    and "et_result task = None" "attempt_fits w a" "et_udp task \<longrightarrow> at_reference a = None"
  shows "stopped_at T H R w (succeed_attempt now latency a task w)"
proof -
  let ?c = "\<lambda>reference. \<lparr>ec_outbound = at_outbound a, ec_registry = at_registry a, ec_reference = reference, ec_closed = False\<rparr>"
  let ?with = "\<lambda>reference. w\<lparr>eg_connections := eg_connections w @ [?c reference]\<rparr>"
  let ?m = "recordSuccess (at_tag a) latency (manager_of (et_handle task) w)"
  have fits: "connection_fits w (?c (at_reference a))" "connection_fits w (?c None)"
    using assms(3) by (auto simp: attempt_fits_def connection_fits_def ref_fits_def)
  have frame: "same_frame w (set_manager h m (?with reference))" "same_frame w (?with reference)" "same_frame w (set_manager h m w)" for h m reference
    by (simp_all add: same_frame_def set_manager_def)
  consider (udp) "et_udp task" | (stopped) "\<not> et_udp task" "at_reference a \<noteq> None" "eg_registry w = None"
    | (bound) "\<not> et_udp task" "\<not> (at_reference a \<noteq> None \<and> eg_registry w = None)" by satx
  then show ?thesis
  proof cases
    case udp
    with assms(1,4) have "engine_held T (add_mset (et_handle task) H) R (set_manager (et_handle task) ?m w)"
      by (intro held_set_manager) (cases "at_registry a = eg_registries w"; simp add: held_ref_def opt_mset_def)
    from stopped_frame [OF frame(3) finish_stops [OF this]] udp show ?thesis by (simp add: succeed_attempt_def)
  next
    case stopped
    let ?w = "?with None"
    have none: "connection_refs n (?c None) = {#}" for n by (simp add: connection_refs_def opt_mset_def)
    have same: "held_ref ?w n x = held_ref w n x" for n x by (simp add: held_ref_def)
    have "engine_held T (add_mset (et_handle task) H) (held_ref ?w (at_registry a) (at_reference a) + R) ?w"
      using assms(1) fits(2) none same by (intro held_connect) simp_all
    from stopped_frame [OF frame(2) fail_attempt_stops [OF this assms(2)]] stopped show ?thesis by (simp add: succeed_attempt_def)
  next
    case bound
    have "connection_refs (eg_registries w) (?c (at_reference a)) = held_ref w (at_registry a) (at_reference a)"
      by (simp add: connection_refs_def held_ref_def)
    with assms(1) fits(1) have "engine_held T (add_mset (et_handle task) H) R (set_manager (et_handle task) ?m (?with (at_reference a)))"
      by (intro held_set_manager held_connect) simp_all
    from stopped_frame [OF frame(1) finish_stops [OF this]] bound show ?thesis by (auto simp: succeed_attempt_def)
  qed
qed

lemma task_holds:
  assumes "task_fits w t" "et_attempt t = Some a"
  shows "et_result t = None" "task_handles t = {#et_handle t#}" "attempt_refs (eg_registries w) (et_attempt t) = held_ref w (at_registry a) (at_reference a)"
    "attempt_fits w a" "et_udp t \<longrightarrow> at_reference a = None"
  using assms by (auto simp: task_fits_def task_handles_def attempt_refs_def held_ref_def)

lemma attempt_step_ok:
  assumes "engine_ok w" "attempt_of t w = Some a"
  shows "engine_ok (put_task t (succeed_attempt now latency a (eg_tasks w ! t) w))"
    "engine_ok (put_task t (fail_attempt now e a (eg_tasks w ! t) w))"
proof -
  let ?task = "eg_tasks w ! t"
  from assms(2) have t: "t < length (eg_tasks w)" "et_attempt ?task = Some a" by (simp_all add: attempt_of_def split: if_splits)
  have held: "engine_held T {#et_handle ?task#} (held_ref w (at_registry a) (at_reference a) + {#}) w"
    if "engine_held T (task_handles ?task) (attempt_refs (eg_registries w) (et_attempt ?task)) w" "task_fits w ?task" for T
    using that by (simp add: task_holds [OF that(2) t(2)] )
  show "engine_ok (put_task t (succeed_attempt now latency a ?task w))"
    by (rule put_task_ok [OF assms(1) t(1)], rule succeed_attempt_stops, rule held) (use task_holds [OF _ t(2)] in blast)+
  show "engine_ok (put_task t (fail_attempt now e a ?task w))"
    by (rule put_task_ok [OF assms(1) t(1)], rule fail_attempt_stops, rule held) (use task_holds [OF _ t(2)] in blast)+
qed

lemma connection_closes_ok:
  assumes "engine_ok w"
  shows "engine_ok (connection_closes c w)"
proof (cases "c < length (eg_connections w) \<and> \<not> ec_closed (eg_connections w ! c)")
  case True
  let ?x = "eg_connections w ! c" and ?T = "mset (eg_tasks w)"
  let ?w = "w\<lparr>eg_connections := (eg_connections w)[c := ?x\<lparr>ec_closed := True\<rparr>]\<rparr>"
  obtain M where M: "mset (eg_connections w) = add_mset ?x M" "\<And>y. mset ((eg_connections w)[c := y]) = add_mset y M"
    using mset_change True by blast
  have "connection_refs (eg_registries w) ?x = held_ref w (ec_registry ?x) (ec_reference ?x)"
    using True by (simp add: connection_refs_def held_ref_def)
  then have "refs_out ?T w = refs_out ?T ?w + (held_ref ?w (ec_registry ?x) (ec_reference ?x) + {#})"
    by (simp add: refs_out_def M connection_refs_def [of _ "?x\<lparr>ec_closed := True\<rparr>"] held_ref_def ac_simps)
  moreover have same: "task_fits ?w t = task_fits w t" "connection_fits ?w x = connection_fits w x" for t x
    by (simp_all add: task_fits_def attempt_fits_def connection_fits_def ref_fits_def)
  moreover have "connection_fits w x" if "x \<in> set (eg_connections ?w)" for x
  proof -
    have "\<forall>x \<in> set (eg_connections w). connection_fits w x" using assms by (simp add: engine_ok_def engine_held_def)
    moreover have "connection_fits w (?x\<lparr>ec_closed := True\<rparr>) = connection_fits w ?x" by (simp add: connection_fits_def)
    ultimately show ?thesis using that True by (auto dest!: set_update_subset_insert [THEN subsetD])
  qed
  ultimately have "engine_held ?T {#} (held_ref ?w (ec_registry ?x) (ec_reference ?x) + {#}) ?w"
    using assms by (simp add: engine_ok_def engine_held_def)
  from held_release_reference [OF this] have "engine_ok (release_reference (ec_registry ?x) (ec_reference ?x) ?w)"
    by (simp add: engine_ok_def same_frame_def)
  with True show ?thesis by (simp add: connection_closes_def Let_def)
next
  case False
  then have "connection_closes c w = w" unfolding connection_closes_def by (rule if_not_P)
  with assms show ?thesis by simp
qed

section \<open>Replacing the registry\<close>

definition outbound_numbers :: "(string, nat \<times> string) jsmap \<Rightarrow> (string, nat) jsmap" where
  "outbound_numbers made = map (\<lambda>(t, k, ty). (t, k)) made"

lemma outbound_numbers_ok: "jm_ok made \<Longrightarrow> jm_ok (outbound_numbers made)"
  by (simp add: jm_ok_def outbound_numbers_def comp_def split_beta)

lemma outbound_numbers_get: "jm_get (outbound_numbers made) t = map_option fst (jm_get made t)"
  by (induction made) (auto simp: outbound_numbers_def)

lemma buildOutbounds_objects:
  assumes "buildOutbounds create cs made objects = (f, made', objects')" "jm_ok made"
    "\<forall>t k. jm_get (outbound_numbers made) t = Some k \<longrightarrow> k < length objects" "\<forall>b \<in> set objects. ro_stops b = 0"
    "\<forall>t u k. jm_get (outbound_numbers made) t = Some k \<longrightarrow> jm_get (outbound_numbers made) u = Some k \<longrightarrow> t = u"
  shows "jm_ok made' \<and> (\<forall>t k. jm_get (outbound_numbers made') t = Some k \<longrightarrow> k < length objects') \<and> (\<forall>b \<in> set objects'. ro_stops b = 0) \<and>
    (\<forall>t u k. jm_get (outbound_numbers made') t = Some k \<longrightarrow> jm_get (outbound_numbers made') u = Some k \<longrightarrow> t = u)"
  using assms
proof (induction cs arbitrary: made objects)
  case (Cons c cs)
  show ?case
  proof (cases "create c")
    case (Inl e)
    with Cons.prems show ?thesis by simp
  next
    case (Inr p)
    obtain tag t where p: "p = (tag, t)" by fastforce
    let ?made = "jm_set tag (length objects, t) made" and ?objects = "objects @ [\<lparr>ro_tag = tag, ro_type = t, ro_stops = 0\<rparr>]"
    have run: "buildOutbounds create cs ?made ?objects = (f, made', objects')" using Cons.prems(1) Inr p by simp
    have get: "jm_get (outbound_numbers ?made) u = (if u = tag then Some (length objects) else jm_get (outbound_numbers made) u)" for u
      by (simp add: outbound_numbers_get)
    show ?thesis
      by (rule Cons.IH [OF run]) (use Cons.prems(2-5) in \<open>auto simp: get less_Suc_eq split: if_splits\<close>)
  qed
qed simp

lemma distinct_vals:
  assumes "jm_ok m" "\<And>t u k. jm_get m t = Some k \<Longrightarrow> jm_get m u = Some k \<Longrightarrow> t = u"
  shows "distinct (jm_vals m)"
proof -
  have "inj_on snd (set m)"
  proof (rule inj_onI)
    fix x y
    assume "x \<in> set m" "y \<in> set m" "snd x = snd y"
    then show "x = y" using assms jm_in_get [OF assms(1)] by (metis prod.collapse)
  qed
  moreover have "distinct m" using assms(1) by (simp add: jm_ok_def distinct_map)
  ultimately show ?thesis by (simp add: jm_vals_def distinct_map)
qed

lemma installOutbounds_registry:
  assumes "installOutbounds hs create cs route now w = (r, w')"
  shows "eg_registries w' = eg_registries w + 1" "eg_tasks w' = eg_tasks w" "eg_connections w' = eg_connections w" "eg_routing w' = eg_routing w"
    "\<And>x. eg_registry w' = Some x \<Longrightarrow> registry_ok x \<and> obr_references x = []"
proof -
  obtain f made objects where built: "buildOutbounds create cs [] [] = (f, made, objects)" by (metis prod.exhaust)
  show "eg_registries w' = eg_registries w + 1" "eg_tasks w' = eg_tasks w" "eg_connections w' = eg_connections w" "eg_routing w' = eg_routing w"
    using assms built by (auto simp: installOutbounds_def Let_def split: option.splits sum.splits)
  show "registry_ok x \<and> obr_references x = []" if "eg_registry w' = Some x" for x
  proof -
    let ?w1 = "w\<lparr>eg_outbounds := made, eg_registry := None, eg_registries := eg_registries w + 1\<rparr>"
    from assms built that have "createOutboundRuntimeRegistry hs cs route now made objects ?w1 = Inr x"
      by (auto simp: installOutbounds_def Let_def split: option.splits sum.splits)
    then obtain g where g: "newOutboundRegistry g (outbound_numbers made) objects = Inr x"
      by (auto simp: createOutboundRuntimeRegistry_def rbind_Inr_iff outbound_numbers_def)
    have made: "jm_ok made" "\<forall>t k. jm_get (outbound_numbers made) t = Some k \<longrightarrow> k < length objects" "\<forall>b \<in> set objects. ro_stops b = 0"
      "\<forall>t u k. jm_get (outbound_numbers made) t = Some k \<longrightarrow> jm_get (outbound_numbers made) u = Some k \<longrightarrow> t = u"
      using buildOutbounds_objects [OF built] by (simp_all add: outbound_numbers_def)
    have ok: "jm_ok (outbound_numbers made)" by (rule outbound_numbers_ok [OF made(1)])
    have "\<forall>k \<in> set (jm_vals (outbound_numbers made)). k < length objects"
      using made(2) jm_in_get [OF ok] by (fastforce simp: jm_vals_def)
    moreover have "distinct (jm_vals (outbound_numbers made))" using distinct_vals [OF ok] made(4) by blast
    ultimately have "registry_ok x" using newOutboundRegistry_ok [OF g ok] made(3) by blast
    moreover have "obr_references x = []" using g by (auto simp: newOutboundRegistry_def rbind_Inr_iff)
    ultimately show ?thesis by simp
  qed
qed

lemma install_ok:
  assumes "engine_ok w"
  shows "engine_ok (snd (installOutbounds hs create cs route now w))"
proof -
  obtain r w' where run: "installOutbounds hs create cs route now w = (r, w')" by fastforce
  note w' = installOutbounds_registry [OF run]
  have older: "at_registry a \<le> eg_registries w" if "t \<in> set (eg_tasks w)" "et_attempt t = Some a" for t a
    using that assms by (simp add: engine_ok_def engine_held_def task_fits_def attempt_fits_def ref_fits_def)
  have older': "ec_registry c \<le> eg_registries w" if "c \<in> set (eg_connections w)" for c
    using that assms by (simp add: engine_ok_def engine_held_def connection_fits_def ref_fits_def)
  have "attempt_refs (eg_registries w') (et_attempt t) = {#}" if "t \<in> set (eg_tasks w)" for t
    using older [OF that] by (cases "et_attempt t") (auto simp: attempt_refs_def w')
  moreover have "connection_refs (eg_registries w') c = {#}" if "c \<in> set (eg_connections w)" for c
    using older' [OF that] by (simp add: connection_refs_def w')
  ultimately have "refs_out (mset (eg_tasks w)) w' = {#}"
    unfolding refs_out_def w'(3) by (simp cong: image_mset_cong)
  moreover have "task_fits w' t" if "t \<in> set (eg_tasks w)" for t
    using that assms older [OF that] by (auto simp: engine_ok_def engine_held_def task_fits_def attempt_fits_def ref_fits_def w')
  moreover have "connection_fits w' c" if "c \<in> set (eg_connections w)" for c
    using older' [OF that] by (simp add: connection_fits_def ref_fits_def w')
  ultimately have "engine_ok w'"
    using assms w' by (auto simp: engine_ok_def engine_held_def registry_live_def live_indices_def)
  then show ?thesis by (simp add: run)
qed

lemma build_ok: "engine_ok w \<Longrightarrow> engine_ok (snd (buildComponents hs create cs route now w))"
proof -
  assume ok: "engine_ok w"
  have flag: "engine_ok (w'\<lparr>eg_componentsBuilt := b\<rparr>) = engine_ok w'" for w' b
  proof -
    let ?w = "w'\<lparr>eg_componentsBuilt := b\<rparr>"
    have "refs_out T ?w = refs_out T w'" for T by (simp add: refs_out_def)
    moreover have "task_fits ?w t = task_fits w' t" "connection_fits ?w c = connection_fits w' c" for t c
      by (simp_all add: task_fits_def attempt_fits_def connection_fits_def ref_fits_def)
    ultimately show ?thesis by (simp add: engine_ok_def engine_held_def)
  qed
  from install_ok [OF ok, of hs create cs route now] ok show ?thesis
    by (auto simp: buildComponents_def flag split: prod.splits sum.splits)
qed

lemma stop_registry_ok:
  assumes "engine_ok w"
  shows "engine_ok (stopOutboundRegistry w)" "engine_ok (engineStop w)"
proof -
  show "engine_ok (stopOutboundRegistry w)"
  proof (cases "eg_registry w")
    case None
    then have "stopOutboundRegistry w = w" by (simp add: stopOutboundRegistry_def)
    with assms show ?thesis by simp
  next
    case (Some r)
    have "engine_held (mset (eg_tasks w)) {#} {#} (w\<lparr>eg_registry := Some (stopAll r)\<rparr>)"
      by (rule held_registry [OF assms [unfolded engine_ok_def] Some])
        (use assms Some in \<open>simp_all add: engine_ok_def engine_held_def refs_grow_def registry_live_def stopAll_def\<close>)
    with Some show ?thesis by (simp add: stopOutboundRegistry_def engine_ok_def)
  qed
  have "task_fits (engineStop w) t" if "task_fits w t" for t using that by (rule fits_registry(2) [rotated 2]) (simp_all add: engineStop_def)
  moreover have "connection_fits (engineStop w) c" if "connection_fits w c" for c
    using that by (rule fits_registry(3) [rotated 2]) (simp_all add: engineStop_def)
  ultimately show "engine_ok (engineStop w)"
    using assms by (simp add: engine_ok_def engine_held_def) (simp add: engineStop_def)
qed

lemma engine_ok_step:
  assumes "engine_step w w'" "engine_ok w"
  shows "engine_ok w'"
  using assms
proof (cases rule: engine_step.cases)
  case (attempt_succeeds t now latency)
  with assms(2) attempt_step_ok(1) show ?thesis by (cases "attempt_of t w") (simp_all add: EngineRoute.attempt_succeeds_def)
next
  case (attempt_fails t now e)
  with assms(2) attempt_step_ok(2) show ?thesis by (cases "attempt_of t w") (simp_all add: EngineRoute.attempt_fails_def)
next
  case (reload_routing rt)
  have "routing_inv rt" using routing_inv_step [OF reload_routing(2)] assms(2) by (simp add: engine_ok_def engine_held_def)
  with reload_routing held_routing assms(2) show ?thesis by (simp add: engine_ok_def)
next
  case (reload_outbounds r e)
  have "engine_held (mset (eg_tasks w)) {#} {#} (w\<lparr>eg_registry := Some (registry_step e r)\<rparr>)"
    by (rule held_registry [OF assms(2) [unfolded engine_ok_def] reload_outbounds(2) grow_refs(2) [OF reload_outbounds(3)]])
      (use assms(2) reload_outbounds(2,3) registry.step_keeps in \<open>simp_all add: engine_ok_def engine_held_def\<close>)
  with reload_outbounds(1) show ?thesis by (simp add: engine_ok_def)
next
  case (probe ms)
  have "routing_inv ((eg_routing w)\<lparr>rr_managers := ms\<rparr>)" using assms(2) by (simp add: engine_ok_def engine_held_def routing_inv_managers)
  with probe held_routing assms(2) show ?thesis by (simp add: engine_ok_def)
next
  case (elsewhere s st)
  with assms(2) held_elsewhere show ?thesis by (simp add: engine_ok_def)
qed (simp_all add: assms start_request_ok connection_closes_ok build_ok install_ok stop_registry_ok openTcp_def sendUdp_def)

lemma newEngine_ok: "engine_ok (newEngine g ms s now)"
proof -
  have "routing_inv (newRoutingRuntime g ms)" using routing_inv_reachable routing_reachable.start by blast
  then show ?thesis
    by (simp add: engine_ok_def engine_held_def newEngine_def handles_out_def live_indices_def) (simp add: newRoutingRuntime_def)
qed

lemma engine_ok_reachable: "engine_reachable (newEngine g ms s now) w \<Longrightarrow> engine_ok w"
  by (induction rule: engine_reachable.induct) (blast intro: newEngine_ok engine_ok_step)+

section \<open>No leak\<close>

lemma size_held:
  "size (filter_mset Q (sum_mset (image_mset f (mset xs)))) = (\<Sum>x\<leftarrow>xs. size (filter_mset Q (f x)))"
  by (induction xs) simp_all

lemma length_filter_sum: "length (filter P xs) = (\<Sum>x\<leftarrow>xs. if P x then 1 else 0)"
  by (induction xs) simp_all

lemma size_held_filter:
  assumes "\<And>x. x \<in> set xs \<Longrightarrow> size (filter_mset Q (f x)) = (if P x then 1 else 0)"
  shows "size (filter_mset Q (sum_mset (image_mset f (mset xs)))) = length (filter P xs)"
  unfolding size_held length_filter_sum by (rule arg_cong [where f = sum_list], rule map_cong) (simp_all add: assms)

text \<open>Who is over a generation of the registry: attempts that wait and connections that are open.\<close>

definition over_generation :: "engine \<Rightarrow> outbound_registry \<Rightarrow> string \<Rightarrow> nat \<Rightarrow> nat option \<Rightarrow> bool" where
  "over_generation w r i n reference \<longleftrightarrow> n = eg_registries w \<and>
     (case reference of Some k \<Rightarrow> orf_generationId (obr_references r ! k) = i | None \<Rightarrow> False)"

definition users :: "engine \<Rightarrow> outbound_registry \<Rightarrow> string \<Rightarrow> nat" where
  "users w r i =
     length (filter (\<lambda>t. case et_attempt t of Some a \<Rightarrow> over_generation w r i (at_registry a) (at_reference a) | None \<Rightarrow> False) (eg_tasks w))
     + length (filter (\<lambda>c. \<not> ec_closed c \<and> over_generation w r i (ec_registry c) (ec_reference c)) (eg_connections w))"

lemma usage_users:
  assumes "engine_ok w" "eg_registry w = Some r" "jm_get (obr_records r) i = Some x"
  shows "rec_usage x = users w r i"
proof -
  let ?Q = "\<lambda>k. orf_generationId (obr_references r ! k) = i" and ?n = "eg_registries w"
  from assms have live: "live_indices (\<lambda>f. \<not> orf_released f) (obr_references r) = refs_out (mset (eg_tasks w)) w" "registry_live r"
    by (simp_all add: engine_ok_def engine_held_def)
  with assms(3) have "registry_ok r" by (auto simp: registry_live_def)
  with assms(3) parts_record have "record_ok (obr_references r) (obr_objects r) i x" by (auto simp: registry_ok_def)
  then have "rec_usage x = live_refs (obr_references r) i" by (simp add: record_ok_def)
  also have "\<dots> = size (filter_mset ?Q (refs_out (mset (eg_tasks w)) w))"
    unfolding live(1) [symmetric] by (simp add: live_refs_def live_indices_count)
  also have "\<dots> = users w r i"
  proof -
    have "size (filter_mset ?Q (sum_mset (image_mset (attempt_refs ?n \<circ> et_attempt) (mset (eg_tasks w))))) =
        length (filter (\<lambda>t. case et_attempt t of Some a \<Rightarrow> over_generation w r i (at_registry a) (at_reference a) | None \<Rightarrow> False) (eg_tasks w))"
      by (rule size_held_filter) (simp add: attempt_refs_def opt_mset_def over_generation_def split: option.splits)
    moreover have "size (filter_mset ?Q (sum_mset (image_mset (connection_refs ?n) (mset (eg_connections w))))) =
        length (filter (\<lambda>c. \<not> ec_closed c \<and> over_generation w r i (ec_registry c) (ec_reference c)) (eg_connections w))"
      by (rule size_held_filter) (simp add: connection_refs_def opt_mset_def over_generation_def split: option.splits)
    ultimately show ?thesis by (simp add: refs_out_def users_def)
  qed
  finally show ?thesis .
qed

lemma usage_requests:
  assumes "engine_ok w"
  shows "usage_of (eg_routing w) key =
    length (filter (\<lambda>t. et_result t = None \<and> rh_key (rr_handles (eg_routing w) ! et_handle t) = key) (eg_tasks w))"
proof -
  let ?Q = "\<lambda>h. rh_key (rr_handles (eg_routing w) ! h) = key"
  from assms have live: "live_indices (\<lambda>h. \<not> rh_released h) (rr_handles (eg_routing w)) = handles_out (mset (eg_tasks w))" "routing_inv (eg_routing w)"
    by (simp_all add: engine_ok_def engine_held_def)
  then have "usage_of (eg_routing w) key = open_handles (eg_routing w) key" by (simp add: routing_inv_def usage_exact_def)
  also have "\<dots> = size (filter_mset ?Q (handles_out (mset (eg_tasks w))))"
    unfolding live(1) [symmetric] by (simp add: open_handles_def live_indices_count)
  also have "\<dots> = length (filter (\<lambda>t. et_result t = None \<and> ?Q (et_handle t)) (eg_tasks w))"
    unfolding handles_out_def by (rule size_held_filter) (simp add: task_handles_def)
  finally show ?thesis .
qed

lemma in_use_works:
  assumes "engine_ok w" "eg_registry w = Some r" "obr_records r \<noteq> []" "k \<in># refs_out (mset (eg_tasks w)) w"
  shows "ro_stops (obr_objects r ! orf_outbound (obr_references r ! k)) = 0"
proof -
  from assms(1,2) have live: "live_indices (\<lambda>f. \<not> orf_released f) (obr_references r) = refs_out (mset (eg_tasks w)) w" "registry_live r"
    by (simp_all add: engine_ok_def engine_held_def)
  have "k \<in># live_indices (\<lambda>f. \<not> orf_released f) (obr_references r)" unfolding live(1) by (rule assms(4))
  then have "k < length (obr_references r)" "\<not> orf_released (obr_references r ! k)" by (simp_all add: live_indices_mem)
  moreover have "registry_ok r" using live(2) assms(3) by (simp add: registry_live_def)
  ultimately show ?thesis using live_reference [of r "obr_references r ! k"] by simp
qed

text \<open>
  Property C38. The engine leaks nothing and stops nothing in use, however requests, attempts, closing
  connections and reloads interleave: a routing generation counts exactly the requests under way over
  it, a generation of outbounds exactly the attempts and connections over it, and while the registry
  works the outbound of each of them was never stopped.
\<close>

theorem engine_no_leak:
  assumes "engine_reachable (newEngine g ms s now) w"
  shows "(\<forall>key. usage_of (eg_routing w) key =
      length (filter (\<lambda>t. et_result t = None \<and> rh_key (rr_handles (eg_routing w) ! et_handle t) = key) (eg_tasks w))) \<and>
    (\<forall>r. eg_registry w = Some r \<longrightarrow> (\<forall>i x. jm_get (obr_records r) i = Some x \<longrightarrow> rec_usage x = users w r i) \<and>
      (obr_records r \<noteq> [] \<longrightarrow>
        (\<forall>t \<in> set (eg_tasks w). \<forall>a k. et_attempt t = Some a \<longrightarrow> at_registry a = eg_registries w \<longrightarrow> at_reference a = Some k \<longrightarrow>
          ro_stops (obr_objects r ! at_outbound a) = 0) \<and>
        (\<forall>c \<in> set (eg_connections w). \<forall>k. \<not> ec_closed c \<longrightarrow> ec_registry c = eg_registries w \<longrightarrow> ec_reference c = Some k \<longrightarrow>
          ro_stops (obr_objects r ! ec_outbound c) = 0)))"
proof -
  have ok: "engine_ok w" by (rule engine_ok_reachable [OF assms])
  let ?T = "mset (eg_tasks w)"
  have attempt: "ro_stops (obr_objects r ! at_outbound a) = 0"
    if "eg_registry w = Some r" "obr_records r \<noteq> []" "t \<in> set (eg_tasks w)" "et_attempt t = Some a" "at_registry a = eg_registries w"
      "at_reference a = Some k" for r t a k
  proof -
    from that(3-6) have "k \<in># refs_out ?T w" by (force simp: refs_out_def attempt_refs_def opt_mset_def in_Union_mset_iff)
    from in_use_works [OF ok that(1,2) this] that ok show ?thesis
      by (auto simp: engine_ok_def engine_held_def task_fits_def attempt_fits_def ref_fits_def)
  qed
  have connection: "ro_stops (obr_objects r ! ec_outbound c) = 0"
    if "eg_registry w = Some r" "obr_records r \<noteq> []" "c \<in> set (eg_connections w)" "\<not> ec_closed c" "ec_registry c = eg_registries w"
      "ec_reference c = Some k" for r c k
  proof -
    from that(3-6) have "k \<in># refs_out ?T w" by (force simp: refs_out_def connection_refs_def opt_mset_def in_Union_mset_iff)
    from in_use_works [OF ok that(1,2) this] that ok show ?thesis
      by (auto simp: engine_ok_def engine_held_def connection_fits_def ref_fits_def)
  qed
  show ?thesis using usage_requests [OF ok] usage_users [OF ok] attempt connection by blast
qed

end
