(* ===== verification/EngineProofs.thy ===== *)
theory EngineProofs
  imports EngineInv
begin

text \<open>
  What a request gets: the first of its candidates that answers, and which outbounds carry it after a
  reload.
\<close>

section \<open>Who serves a tag\<close>

definition served :: "engine \<Rightarrow> string \<Rightarrow> nat option" where
  "served w tag =
     (case Option.bind (eg_registry w) (\<lambda>r. getOutbound r tag (obr_activeGenerationId r)) of
        Some k \<Rightarrow> Some k | None \<Rightarrow> map_option fst (jm_get (eg_outbounds w) tag))"

lemma served_cong: "eg_registry w' = eg_registry w \<Longrightarrow> eg_outbounds w' = eg_outbounds w \<Longrightarrow> served w' = served w"
  by (simp add: served_def fun_eq_iff cong: option.case_cong)

lemma acquire_serves:
  assumes "acquireOutboundRef tag (obr_activeGenerationId r) r = (ref, r')"
  shows "obr_activeGenerationId r' = obr_activeGenerationId r" "getOutbound r' u i = getOutbound r u i"
    "case ref of None \<Rightarrow> getOutbound r tag (obr_activeGenerationId r) = None
      | Some k \<Rightarrow> getOutbound r tag (obr_activeGenerationId r) = Some (orf_outbound (obr_references r' ! k))"
  using assms by (auto simp: acquireOutboundRef_def getOutbound_def Let_def split: option.splits if_splits)

lemma release_serves:
  "obr_activeGenerationId (releaseOutboundRef k r) = obr_activeGenerationId r"
  "getOutbound (releaseOutboundRef k r) u (obr_activeGenerationId r) = getOutbound r u (obr_activeGenerationId r)"
  by (auto simp: releaseOutboundRef_def retireIfUnused_def getOutbound_def drop_reference_def Let_def split: option.splits)

text \<open>What running a request does not change.\<close>

definition same_service :: "nat \<Rightarrow> engine \<Rightarrow> engine \<Rightarrow> bool" where
  "same_service h w w' \<longleftrightarrow> served w' = served w \<and> eg_connections w' = eg_connections w \<and> length (eg_tasks w') = length (eg_tasks w) \<and>
     routing_of h w' = routing_of h w \<and> length (rr_managers (eg_routing w')) = length (rr_managers (eg_routing w))"

lemma same_service_refl: "same_service h w w"
  by (simp add: same_service_def)

lemma same_service_trans: "same_service h w w1 \<Longrightarrow> same_service h w1 w2 \<Longrightarrow> same_service h w w2"
  by (simp add: same_service_def)

lemma same_service_release: "same_service h w (release_reference n ref w)"
  by (simp add: same_service_def release_reference_def served_def routing_of_def fun_eq_iff release_serves split: option.splits)

lemma manager_release: "manager_of h (release_reference n ref w) = manager_of h w"
  by (simp add: release_reference_def manager_of_def routing_of_def split: option.splits)

lemma failed_service:
  "same_service h w (attempt_failed now h tag w)"
  "gp_manager (routing_of h w) < length (rr_managers (eg_routing w)) \<Longrightarrow>
     manager_of h (attempt_failed now h tag w) = recordFailure now tag (manager_of h w)"
proof -
  have "served (attempt_failed now h tag w) = served w"
    by (rule served_cong) (simp_all add: attempt_failed_def on_engine_stats_def set_manager_def)
  then show "same_service h w (attempt_failed now h tag w)"
    "gp_manager (routing_of h w) < length (rr_managers (eg_routing w)) \<Longrightarrow>
       manager_of h (attempt_failed now h tag w) = recordFailure now tag (manager_of h w)"
    by (simp_all add: attempt_failed_def on_engine_stats_def set_manager_def same_service_def routing_of_def manager_of_def)
qed

lemma pick_serves:
  assumes "pickOutbound tag w = (a, w')"
  shows "same_service h w w'" "manager_of h w' = manager_of h w"
    "case a of None \<Rightarrow> served w tag = None
      | Some x \<Rightarrow> served w tag = Some (at_outbound x) \<and> at_tag x = tag \<and> (at_reference x \<noteq> None \<longrightarrow> eg_registry w' \<noteq> None)"
proof -
  have "same_service h w w' \<and> manager_of h w' = manager_of h w \<and> (case a of None \<Rightarrow> served w tag = None
      | Some x \<Rightarrow> served w tag = Some (at_outbound x) \<and> at_tag x = tag \<and> (at_reference x \<noteq> None \<longrightarrow> eg_registry w' \<noteq> None))"
  proof (cases "eg_registry w")
    case None
    with assms show ?thesis by (cases "jm_get (eg_outbounds w) tag") (auto simp: pickOutbound_def served_def same_service_refl)
  next
    case (Some r)
    obtain ref r' where acq: "acquireOutboundRef tag (obr_activeGenerationId r) r = (ref, r')" by fastforce
    note serves = acquire_serves [OF acq]
    have w': "w' = w\<lparr>eg_registry := Some r'\<rparr>" using assms Some acq by (auto simp: pickOutbound_def Let_def split: option.splits)
    have "same_service h w w'" "manager_of h w' = manager_of h w"
      using Some serves(1,2) by (simp_all add: w' same_service_def served_def routing_of_def manager_of_def fun_eq_iff cong: option.case_cong)
    moreover have "case a of None \<Rightarrow> served w tag = None
      | Some x \<Rightarrow> served w tag = Some (at_outbound x) \<and> at_tag x = tag \<and> (at_reference x \<noteq> None \<longrightarrow> eg_registry w' \<noteq> None)"
      using assms Some acq serves(3) by (cases ref; cases "jm_get (eg_outbounds w) tag") (auto simp: pickOutbound_def served_def Let_def)
    ultimately show ?thesis by blast
  qed
  then show "same_service h w w'" "manager_of h w' = manager_of h w"
    "case a of None \<Rightarrow> served w tag = None
      | Some x \<Rightarrow> served w tag = Some (at_outbound x) \<and> at_tag x = tag \<and> (at_reference x \<noteq> None \<longrightarrow> eg_registry w' \<noteq> None)" by blast+
qed

lemma put_task_service:
  assumes "t < length (eg_tasks w)"
  shows "same_service h w (put_task t (task, w))" "manager_of h (put_task t (task, w)) = manager_of h w"
proof -
  have "served (put_task t (task, w)) = served w" by (rule served_cong) (simp_all add: put_task_def)
  then show "same_service h w (put_task t (task, w))" "manager_of h (put_task t (task, w)) = manager_of h w"
    by (simp_all add: put_task_def same_service_def routing_of_def manager_of_def)
qed

section \<open>One request to its end\<close>

text \<open>Every attempt of request \<open>t\<close> is answered, by tag, until the request settles.\<close>

fun settle :: "(string \<Rightarrow> js_error option) \<Rightarrow> int \<Rightarrow> rat \<Rightarrow> nat \<Rightarrow> nat \<Rightarrow> engine \<Rightarrow> engine" where
  "settle answer now latency t 0 w = w"
| "settle answer now latency t (Suc n) w =
     (case attempt_of t w of
        None \<Rightarrow> w
      | Some a \<Rightarrow> (case answer (at_tag a) of
            None \<Rightarrow> attempt_succeeds t now latency w
          | Some e \<Rightarrow> settle answer now latency t n (attempt_fails t now e w)))"

text \<open>The outcome the code promises, from the list of candidates.\<close>

definition answers :: "engine \<Rightarrow> (string \<Rightarrow> js_error option) \<Rightarrow> string \<Rightarrow> bool" where
  "answers w answer tag \<longleftrightarrow> served w tag \<noteq> None \<and> answer tag = None"

definition last_error :: "engine \<Rightarrow> (string \<Rightarrow> js_error option) \<Rightarrow> engine_task \<Rightarrow> string list \<Rightarrow> js_error" where
  "last_error w answer task tags =
     (if tags = [] then (case et_lastError task of Some e \<Rightarrow> e | None \<Rightarrow> no_usable task)
      else case served w (last tags) of None \<Rightarrow> missing_outbound (last tags) | Some k \<Rightarrow> the (answer (last tags)))"

definition settled_as ::
  "(string \<Rightarrow> js_error option) \<Rightarrow> int \<Rightarrow> rat \<Rightarrow> nat \<Rightarrow> engine_task \<Rightarrow> string list \<Rightarrow> engine \<Rightarrow> engine \<Rightarrow> bool" where
  "settled_as answer now latency t task tags w w' \<longleftrightarrow>
     (let h = et_handle task; tried = fold (recordFailure now) (takeWhile (\<lambda>u. \<not> answers w answer u) tags) (manager_of h w)
      in case find (answers w answer) tags of
           Some tag \<Rightarrow>
             et_result (eg_tasks w' ! t) = Some (Opened (length (eg_connections w))) \<and> manager_of h w' = recordSuccess tag latency tried \<and>
             (\<exists>c. eg_connections w' = eg_connections w @ [c] \<and> served w tag = Some (ec_outbound c) \<and> \<not> ec_closed c)
         | None \<Rightarrow>
             et_result (eg_tasks w' ! t) = Some (Refused (last_error w answer task tags)) \<and> manager_of h w' = tried \<and>
             eg_connections w' = eg_connections w)"

lemma settle_done: "attempt_of t w = None \<Longrightarrow> settle answer now latency t n w = w"
  by (cases n) simp_all

lemma manager_rt_release: "manager_of h (w\<lparr>eg_routing := rt_release i (eg_routing w)\<rparr>) = manager_of h w"
  by (cases "h = i"; cases "i < length (rr_handles (eg_routing w))")
    (auto simp: manager_of_def routing_of_def rt_release_def nth_list_update Let_def)

lemma finish_settles:
  assumes "tags = []" "t < length (eg_tasks w)"
  shows "settled_as answer now latency t task tags w (settle answer now latency t n (put_task t (tryTcp now tags task w)))"
  using assms manager_rt_release [where h = "et_handle task" and i = "et_handle task" and w = w]
  by (simp add: settled_as_def settle_done attempt_of_def put_task_def finish_task_def last_error_def manager_of_def routing_of_def Let_def)

text \<open>A candidate that fails goes before the rest.\<close>

lemma settled_after_failure:
  assumes "\<not> answers w answer tag" "same_service (et_handle task) w w1"
    and "manager_of (et_handle task) w1 = recordFailure now tag (manager_of (et_handle task) w)"
    and "et_handle task1 = et_handle task" "et_lastError task1 = Some (case served w tag of None \<Rightarrow> missing_outbound tag | Some k \<Rightarrow> the (answer tag))"
    and "settled_as answer now latency t task1 tags w1 w'"
  shows "settled_as answer now latency t task (tag # tags) w w'"
proof -
  have served: "served w1 = served w" "eg_connections w1 = eg_connections w" using assms(2) by (simp_all add: same_service_def)
  then have same: "answers w1 answer = answers w answer" by (simp add: answers_def fun_eq_iff)
  have err: "last_error w1 answer task1 tags = last_error w answer task (tag # tags)"
    by (cases tags) (simp_all add: last_error_def served assms(5) cong: option.case_cong)
  show ?thesis
    using assms(6) unfolding settled_as_def same err served assms(3,4) Let_def
    by (cases "find (answers w answer) tags") (simp_all add: assms(1))
qed

text \<open>An attempt that connects ends the request.\<close>

lemma connect_settles:
  assumes "t < length (eg_tasks w1)" "same_service (et_handle task) w w1" "manager_of (et_handle task) w1 = manager_of (et_handle task) w"
    and "gp_manager (routing_of (et_handle task) w) < length (rr_managers (eg_routing w))" "\<not> et_udp task"
    and "served w tag = Some (at_outbound x)" "at_tag x = tag" "at_reference x \<noteq> None \<longrightarrow> eg_registry w1 \<noteq> None" "answer tag = None"
  shows "settled_as answer now latency t task (tag # tags) w
    (put_task t (succeed_attempt now latency x (task\<lparr>et_candidates := tags, et_attempt := Some x\<rparr>) w1))"
proof -
  let ?task = "task\<lparr>et_candidates := tags, et_attempt := Some x\<rparr>"
  let ?c = "\<lparr>ec_outbound = at_outbound x, ec_registry = at_registry x, ec_reference = at_reference x, ec_closed = False\<rparr>"
  let ?w2 = "set_manager (et_handle task) (recordSuccess tag latency (manager_of (et_handle task) w)) (w1\<lparr>eg_connections := eg_connections w @ [?c]\<rparr>)"
  let ?w3 = "?w2\<lparr>eg_routing := rt_release (et_handle task) (eg_routing ?w2)\<rparr>"
  have conns: "eg_connections w1 = eg_connections w" using assms(2) by (simp add: same_service_def)
  have run: "succeed_attempt now latency x ?task w1 = (?task\<lparr>et_attempt := None, et_result := Some (Opened (length (eg_connections w)))\<rparr>, ?w3)"
    using assms(3,5,7,8) by (auto simp: succeed_attempt_def finish_task_def conns)
  have "manager_of (et_handle task) ?w2 = recordSuccess tag latency (manager_of (et_handle task) w)"
    using assms(2,4) by (simp add: same_service_def set_manager_def manager_of_def routing_of_def)
  then have "manager_of (et_handle task) (put_task t (succeed_attempt now latency x ?task w1)) = recordSuccess tag latency (manager_of (et_handle task) w)"
    unfolding run using manager_rt_release [where h = "et_handle task" and i = "et_handle task" and w = ?w2]
    by (simp add: put_task_def manager_of_def routing_of_def)
  moreover have "et_result (eg_tasks (put_task t (succeed_attempt now latency x ?task w1)) ! t) = Some (Opened (length (eg_connections w)))"
    "eg_connections (put_task t (succeed_attempt now latency x ?task w1)) = eg_connections w @ [?c]"
    unfolding run using assms(1) by (simp_all add: put_task_def set_manager_def)
  moreover have "answers w answer tag" using assms(6,9) by (simp add: answers_def)
  ultimately show ?thesis using assms(6) by (simp add: settled_as_def Let_def)
qed

lemma tryTcp_settles:
  assumes "length tags \<le> n" "t < length (eg_tasks w)" "\<not> et_udp task"
    and "gp_manager (routing_of (et_handle task) w) < length (rr_managers (eg_routing w))"
  shows "settled_as answer now latency t task tags w (settle answer now latency t n (put_task t (tryTcp now tags task w)))"
  using assms
proof (induction tags arbitrary: n task w)
  case Nil
  then show ?case by (intro finish_settles) simp_all
next
  case (Cons tag tags)
  let ?h = "et_handle task"
  obtain a w1 where pick: "pickOutbound tag w = (a, w1)" by fastforce
  note serves = pick_serves [OF pick]
  have service: "same_service ?h w w1" "manager_of ?h w1 = manager_of ?h w" by (rule serves)+
  show ?case
  proof (cases a)
    case None
    let ?w2 = "attempt_failed now ?h tag w1"
    have missing: "served w tag = None" using serves(3) None by simp
    have service2: "same_service ?h w ?w2" by (rule same_service_trans [OF service(1) failed_service(1)])
    have manager2: "manager_of ?h ?w2 = recordFailure now tag (manager_of ?h w)"
      using failed_service(2) [of ?h w1 now tag] service Cons.prems(4) by (simp add: same_service_def)
    have "settled_as answer now latency t (task\<lparr>et_lastError := Some (missing_outbound tag)\<rparr>) tags ?w2
        (settle answer now latency t n (put_task t (tryTcp now tags (task\<lparr>et_lastError := Some (missing_outbound tag)\<rparr>) ?w2)))"
      by (rule Cons.IH) (use Cons.prems service2 in \<open>simp_all add: same_service_def\<close>)
    then have "settled_as answer now latency t task (tag # tags) w
        (settle answer now latency t n (put_task t (tryTcp now tags (task\<lparr>et_lastError := Some (missing_outbound tag)\<rparr>) ?w2)))"
      by (rule settled_after_failure [OF _ service2 manager2, rotated -1]) (simp_all add: missing answers_def)
    then show ?thesis by (simp add: pick None)
  next
    case (Some x)
    let ?task = "task\<lparr>et_candidates := tags, et_attempt := Some x\<rparr>"
    let ?w2 = "put_task t (?task, w1)"
    from serves(3) Some have x: "served w tag = Some (at_outbound x)" "at_tag x = tag" "at_reference x \<noteq> None \<longrightarrow> eg_registry w1 \<noteq> None"
      by simp_all
    have t: "t < length (eg_tasks w1)" using Cons.prems(2) service(1) by (simp add: same_service_def)
    have waits: "attempt_of t ?w2 = Some x" "eg_tasks ?w2 ! t = ?task" using t by (simp_all add: attempt_of_def put_task_def)
    have service2: "same_service ?h w ?w2" "manager_of ?h ?w2 = manager_of ?h w"
      using same_service_trans [OF service(1) put_task_service(1) [OF t]] put_task_service(2) [OF t] service(2) by simp_all
    obtain m where n: "n = Suc m" using Cons.prems(1) by (cases n) simp_all
    show ?thesis
    proof (cases "answer tag")
      case None
      have "settled_as answer now latency t task (tag # tags) w (put_task t (succeed_attempt now latency x ?task ?w2))"
        using x t Cons.prems(3,4) None service2 by (intro connect_settles) (simp_all add: put_task_def)
      then show ?thesis by (simp add: pick Some n waits None x(2) attempt_succeeds_def)
    next
      case e: (Some e)
      let ?task1 = "?task\<lparr>et_lastError := Some e, et_attempt := None\<rparr>"
      let ?w3 = "release_reference (at_registry x) (at_reference x) ?w2"
      let ?w4 = "attempt_failed now ?h tag ?w3"
      have service3: "same_service ?h w ?w3" by (rule same_service_trans [OF service2(1) same_service_release])
      have service4: "same_service ?h w ?w4" by (rule same_service_trans [OF service3 failed_service(1)])
      have manager4: "manager_of ?h ?w4 = recordFailure now tag (manager_of ?h w)"
        using failed_service(2) [of ?h ?w3 now tag] service3 service2(2) Cons.prems(4) by (simp add: same_service_def manager_release)
      have fails: "attempt_fails t now e ?w2 = put_task t (tryTcp now tags ?task1 ?w4)"
        using Cons.prems(3) x(2) by (simp add: attempt_fails_def waits fail_attempt_def tryCandidates_def)
      have "settled_as answer now latency t ?task1 tags ?w4 (settle answer now latency t m (put_task t (tryTcp now tags ?task1 ?w4)))"
        by (rule Cons.IH) (use Cons.prems n service4 in \<open>simp_all add: same_service_def\<close>)
      then have "settled_as answer now latency t task (tag # tags) w (settle answer now latency t m (put_task t (tryTcp now tags ?task1 ?w4)))"
        by (rule settled_after_failure [OF _ service4 manager4, rotated -1]) (simp_all add: answers_def e x(1))
      then show ?thesis by (simp add: pick Some n waits e x(2) fails)
    qed
  qed
qed

text \<open>A running request does not look at the others.\<close>

definition with_tasks :: "engine_task list \<Rightarrow> engine_task \<times> engine \<Rightarrow> engine_task \<times> engine" where
  "with_tasks ts r = (fst r, (snd r)\<lparr>eg_tasks := ts\<rparr>)"

lemma pick_tasks: "pickOutbound tag (w\<lparr>eg_tasks := ts\<rparr>) = (let (a, w') = pickOutbound tag w in (a, w'\<lparr>eg_tasks := ts\<rparr>))"
  by (cases "eg_registry w") (auto simp: pickOutbound_def Let_def split_beta split: option.splits)

lemma failed_tasks: "attempt_failed now h tag (w\<lparr>eg_tasks := ts\<rparr>) = (attempt_failed now h tag w)\<lparr>eg_tasks := ts\<rparr>"
  by (simp add: attempt_failed_def on_engine_stats_def set_manager_def manager_of_def routing_of_def)

lemma tryTcp_tasks: "tryTcp now tags task (w\<lparr>eg_tasks := ts\<rparr>) = with_tasks ts (tryTcp now tags task w)"
proof (induction now tags task w rule: tryTcp.induct)
  case (1 now task w)
  then show ?case by (simp add: finish_task_def with_tasks_def)
next
  case (2 now tag tags task w)
  obtain a w1 where pick: "pickOutbound tag w = (a, w1)" by fastforce
  then show ?case
    using "2.IH" [OF pick [symmetric]] by (cases a) (simp_all add: pick_tasks failed_tasks with_tasks_def)
qed

lemma restore_fields:
  "fst (restoreFakeIpDestination now request (w\<lparr>eg_routing := rt\<rparr>)) = fst (restoreFakeIpDestination now request w)"
  "\<exists>s. snd (restoreFakeIpDestination now request w) = w\<lparr>eg_fakeIp := s\<rparr>"
  by (cases "eg_fakeIp w"; auto simp: restoreFakeIpDestination_def Let_def split_beta intro: exI [of _ "eg_fakeIp w"] split: option.splits)+

lemma begin_request_parts:
  assumes "begin_request udp now rnd request w = (task, w1)"
    and "selectPolicy now rnd (res_outboundTag (rgen_match (gp_router (rr_active (eg_routing w))) (fst (restoreFakeIpDestination now request w))))
       (rr_managers (eg_routing w) ! gp_manager (rr_active (eg_routing w))) = (selection, m)"
    and "gp_manager (rr_active (eg_routing w)) < length (rr_managers (eg_routing w))"
  shows "et_candidates task = ps_candidates selection" "et_udp task = udp" "et_lastError task = None"
    "res_outboundTag (et_route task) = res_outboundTag (rgen_match (gp_router (rr_active (eg_routing w))) (fst (restoreFakeIpDestination now request w)))"
    "manager_of (et_handle task) w1 = m" "routing_of (et_handle task) w1 = rr_active (eg_routing w)"
    "length (rr_managers (eg_routing w1)) = length (rr_managers (eg_routing w))" "served w1 = served w" "eg_connections w1 = eg_connections w"
    "eg_tasks w1 = eg_tasks w" "et_handle task = length (rr_handles (eg_routing w))"
proof -
  let ?h = "length (rr_handles (eg_routing w))" and ?a = "rr_active (eg_routing w)"
  obtain rt where acq: "rt_acquire (eg_routing w) = (?h, rt)" by (simp add: rt_acquire_def Let_def)
  obtain routed w0 where res: "restoreFakeIpDestination now request (w\<lparr>eg_routing := rt\<rparr>) = (routed, w0)" by fastforce
  with restore_fields(2) [where now = now and request = request and w = "w\<lparr>eg_routing := rt\<rparr>"]
  obtain s where w0: "w0 = w\<lparr>eg_routing := rt, eg_fakeIp := s\<rparr>" by auto
  have routed: "fst (restoreFakeIpDestination now request w) = routed"
    using restore_fields(1) [where now = now and request = request and w = w and rt = rt] res by simp
  have rt: "rr_handles rt ! ?h = \<lparr>rh_generation = ?a, rh_key = pairKey ?a, rh_released = False\<rparr>" "rr_managers rt = rr_managers (eg_routing w)"
    using acq by (auto simp: rt_acquire_def Let_def)
  have of_h: "routing_of ?h w0 = ?a" "manager_of ?h (on_engine_stats recordRouteMatch w0) = rr_managers (eg_routing w) ! gp_manager ?a"
    by (simp_all add: routing_of_def manager_of_def on_engine_stats_def w0 rt)
  have run: "task = \<lparr>et_udp = udp, et_request = routed, et_handle = ?h, et_route = rgen_match (gp_router ?a) routed,
        et_candidates = ps_candidates selection, et_lastError = None, et_attempt = None, et_result = None\<rparr>"
      "w1 = set_manager ?h m (on_engine_stats recordRouteMatch w0)"
    using assms(1,2) res acq of_h by (simp_all add: begin_request_def routed)
  show "et_candidates task = ps_candidates selection" "et_udp task = udp" "et_lastError task = None" "et_handle task = ?h"
    "res_outboundTag (et_route task) = res_outboundTag (rgen_match (gp_router ?a) (fst (restoreFakeIpDestination now request w)))"
    by (simp_all add: run routed)
  show "manager_of (et_handle task) w1 = m" "routing_of (et_handle task) w1 = ?a"
    "length (rr_managers (eg_routing w1)) = length (rr_managers (eg_routing w))" "eg_connections w1 = eg_connections w" "eg_tasks w1 = eg_tasks w"
    using assms(3) by (simp_all add: run manager_of_def routing_of_def set_manager_def on_engine_stats_def w0 rt)
  show "served w1 = served w" by (rule served_cong) (simp_all add: run set_manager_def on_engine_stats_def w0)
qed

lemma settled_as_cong:
  assumes "served v = served w" "eg_connections v = eg_connections w" "manager_of (et_handle task) v = manager_of (et_handle task) w"
  shows "settled_as answer now latency t task tags v w' = settled_as answer now latency t task tags w w'"
proof -
  have "answers v answer = answers w answer" "last_error v answer task tags = last_error w answer task tags"
    by (simp_all add: answers_def last_error_def assms(1) fun_eq_iff)
  then show ?thesis by (simp only: settled_as_def Let_def assms)
qed

lemma openTcp_settles:
  assumes "begin_request False now rnd request w = (task, w1)" "length (et_candidates task) \<le> n" "eg_tasks w1 = eg_tasks w"
    and "gp_manager (routing_of (et_handle task) w1) < length (rr_managers (eg_routing w1))" "et_udp task = False"
  shows "settled_as answer now latency (length (eg_tasks w)) task (et_candidates task) w1
    (settle answer now latency (length (eg_tasks w)) n (openTcp now rnd request w))"
proof -
  let ?t = "length (eg_tasks w)"
  let ?w1 = "w1\<lparr>eg_tasks := eg_tasks w @ [task]\<rparr>"
  obtain task' w2 where tried: "tryTcp now (et_candidates task) task w1 = (task', w2)" by fastforce
  have tasks: "eg_tasks w2 = eg_tasks w"
  proof -
    have "w1\<lparr>eg_tasks := eg_tasks w\<rparr> = w1" using assms(3) by simp
    with tryTcp_tasks [where now = now and tags = "et_candidates task" and task = task and w = w1 and ts = "eg_tasks w"] tried have "w2 = w2\<lparr>eg_tasks := eg_tasks w\<rparr>"
      by (simp add: with_tasks_def)
    from arg_cong [OF this, of eg_tasks] show ?thesis by simp
  qed
  have "openTcp now rnd request w = put_task ?t (tryTcp now (et_candidates task) task ?w1)"
    using assms(1,5) tried by (simp add: openTcp_def start_request_def tryCandidates_def tryTcp_tasks with_tasks_def put_task_def tasks)
  moreover have "settled_as answer now latency ?t task (et_candidates task) ?w1
      (settle answer now latency ?t n (put_task ?t (tryTcp now (et_candidates task) task ?w1)))"
    by (rule tryTcp_settles) (use assms in \<open>simp_all add: routing_of_def\<close>)
  moreover have "served ?w1 = served w1" by (rule served_cong) simp_all
  ultimately show ?thesis
    using settled_as_cong [of ?w1 w1] by (simp add: manager_of_def routing_of_def)
qed

section \<open>Properties\<close>

text \<open>
  Property C39. A connection goes over the first outbound of the selected policy that answers. When
  every attempt of a request is answered, the candidates are tried in the order of the selection: those
  that are missing or refuse count as failures, once each, the first one that connects counts as a
  success and its outbound carries the connection; when none does the client gets the error of the last
  candidate.
\<close>

theorem open_tcp_first_answer:
  assumes "selectPolicy now rnd (res_outboundTag (rgen_match (gp_router (rr_active (eg_routing w))) (fst (restoreFakeIpDestination now request w))))
       (rr_managers (eg_routing w) ! gp_manager (rr_active (eg_routing w))) = (selection, m)"
    and "gp_manager (rr_active (eg_routing w)) < length (rr_managers (eg_routing w))" "length (ps_candidates selection) \<le> n"
    and "w' = settle answer now latency (length (eg_tasks w)) n (openTcp now rnd request w)"
    and "tried = fold (recordFailure now) (takeWhile (\<lambda>u. \<not> answers w answer u) (ps_candidates selection)) m"
  shows "case find (answers w answer) (ps_candidates selection) of
      Some tag \<Rightarrow>
        et_result (eg_tasks w' ! length (eg_tasks w)) = Some (Opened (length (eg_connections w))) \<and>
        manager_of (length (rr_handles (eg_routing w))) w' = recordSuccess tag latency tried \<and>
        (\<exists>c. eg_connections w' = eg_connections w @ [c] \<and> served w tag = Some (ec_outbound c) \<and> \<not> ec_closed c)
    | None \<Rightarrow>
        (\<exists>e. et_result (eg_tasks w' ! length (eg_tasks w)) = Some (Refused e) \<and>
          (ps_candidates selection \<noteq> [] \<longrightarrow> e = (case served w (last (ps_candidates selection)) of
             None \<Rightarrow> missing_outbound (last (ps_candidates selection)) | Some k \<Rightarrow> the (answer (last (ps_candidates selection)))))) \<and>
        manager_of (length (rr_handles (eg_routing w))) w' = tried \<and> eg_connections w' = eg_connections w"
proof -
  obtain task w1 where begun: "begin_request False now rnd request w = (task, w1)" by fastforce
  note parts = begin_request_parts [OF begun assms(1,2)]
  have "settled_as answer now latency (length (eg_tasks w)) task (et_candidates task) w1 w'"
    unfolding assms(4) by (rule openTcp_settles [OF begun]) (use assms(2,3) parts in simp_all)
  moreover have "answers w1 answer = answers w answer" by (simp add: answers_def fun_eq_iff parts(8))
  moreover note manager = parts(5) [unfolded parts(11)]
  ultimately show ?thesis
    unfolding settled_as_def Let_def parts(1,9,11) assms(5)
    by (cases "find (answers w answer) (ps_candidates selection)") (simp_all add: last_error_def parts(8))
qed


end
