(* ===== verification/OutboundReload.thy ===== *)
theory OutboundReload
  imports OutboundAdapter
begin

text \<open>
  The adapters of outbounds and routing meet the contract of a reloadable component together: one
  stack of commits, whose top can be undone.
\<close>

section \<open>What a reload may rely on\<close>

definition runtime_adapter :: "routing_component list \<Rightarrow> ('c, outbound_world, prepared_component) reloadable \<Rightarrow> bool" where
  "runtime_adapter expected c \<longleftrightarrow>
     (\<exists>host. c = outboundRuntimeAdapter host expected) \<or>
     (\<exists>host. c = beside_outbounds (routerRuntimeAdapter host expected) \<or> c = beside_outbounds (policyRuntimeAdapter host expected))"

definition runtime_view :: "outbound_world \<Rightarrow> routing_pair \<times> string" where
  "runtime_view w = (routing_view (owo_routing w), obr_activeGenerationId (owo_registry w))"

abbreviation is_outbound :: "prepared_component \<Rightarrow> bool" where
  "is_outbound p \<equiv> pc_component p = COutboundRegistry"

type_synonym runtime_stack = "(prepared_component \<times> routing_pair \<times> string) list"

text \<open>The routing side of the stack: which component committed, over which pair.\<close>

definition sides :: "runtime_stack \<Rightarrow> (routing_component \<times> routing_pair) list" where
  "sides st = map (\<lambda>(p, v). (component_of (pc_component p), fst v)) st"

definition side_undoing :: "string \<Rightarrow> (routing_component \<times> routing_pair) list \<Rightarrow> routing_runtime \<Rightarrow> bool" where
  "side_undoing tid xs rt \<longleftrightarrow>
     (case jm_get (rr_transactions rt) tid of
        None \<Rightarrow> \<forall>(c, v) \<in> set xs. v = rr_active rt
      | Some x \<Rightarrow> (\<forall>(c, v) \<in> set xs. v = rx_old x) \<and> (if rx_published x then xs \<noteq> [] else rx_old x = rr_active rt))"

definition side_armed :: "string \<Rightarrow> (routing_component \<times> routing_pair) list \<Rightarrow> routing_runtime \<Rightarrow> bool" where
  "side_armed tid xs rt \<longleftrightarrow> side_undoing tid xs rt \<and>
     (\<forall>x. jm_get (rr_transactions rt) tid = Some x \<longrightarrow>
        set (rx_committed x) = fst ` set xs \<and> rx_expected x \<noteq> [] \<and>
        (rx_published x \<longleftrightarrow> set (rx_expected x) \<subseteq> set (rx_committed x)))"

lemma side_commit:
  assumes "side_armed tid xs rt" "c \<notin> fst ` set xs" "rt_commit tid c rt = (r, rt')"
  shows "case r of Inr u \<Rightarrow> side_armed tid ((c, rr_active rt) # xs) rt' \<and> jm_get (rr_transactions rt) tid \<noteq> None | Inl e \<Rightarrow> rt' = rt"
  using assms(3)
proof (cases rule: rt_commit_cases)
  case (refused e)
  then show ?thesis by simp
next
  case (waiting x x1)
  with assms(1) have x: "\<forall>(c, v) \<in> set xs. v = rx_old x" "if rx_published x then xs \<noteq> [] else rx_old x = rr_active rt"
    "set (rx_committed x) = fst ` set xs" "rx_expected x \<noteq> []" "rx_published x \<longleftrightarrow> set (rx_expected x) \<subseteq> set (rx_committed x)"
    by (simp_all add: side_armed_def side_undoing_def)
  have "\<not> rx_published x" using x(5) waiting(4,5) by (auto simp: set_add_component)
  with waiting x show ?thesis by (simp add: side_armed_def side_undoing_def set_add_component)
next
  case (published x x1)
  with assms(1) have x: "\<forall>(c, v) \<in> set xs. v = rx_old x" "if rx_published x then xs \<noteq> [] else rx_old x = rr_active rt"
    "set (rx_committed x) = fst ` set xs" "rx_expected x \<noteq> []" "rx_published x \<longleftrightarrow> set (rx_expected x) \<subseteq> set (rx_committed x)"
    by (simp_all add: side_armed_def side_undoing_def)
  have "\<not> rx_published x" using x(3,5) published(3) assms(2) by blast
  with published x show ?thesis by (simp add: side_armed_def side_undoing_def set_add_component)
qed

lemma side_rollback:
  "side_undoing tid ((c, v) # xs) rt \<Longrightarrow> side_undoing tid xs (rt_rollback tid rt) \<and> rr_active (rt_rollback tid rt) = v"
  by (auto simp: side_undoing_def rt_rollback_def split: option.splits if_splits)

lemma side_rollback_txn: "jm_get (rr_transactions (rt_rollback tid rt)) tid = None \<longleftrightarrow> jm_get (rr_transactions rt) tid = None"
  by (simp add: rt_rollback_def split: option.splits)

lemma side_idle: "side_undoing tid [] rt \<Longrightarrow> rt_rollback tid rt = rt"
  by (auto simp: side_undoing_def rt_rollback_def split: option.splits)

text \<open>
  The side of the outbounds: below their commit the old generation was active, above it the candidate
  is. A prepared generation is switched while its commit is on the stack.
\<close>

definition none_switched :: "outbound_prepared list \<Rightarrow> bool" where
  "none_switched ps \<longleftrightarrow> (\<forall>v \<in> set ps. \<not> opv_switched v)"

fun outbound_stack :: "runtime_stack \<Rightarrow> string \<Rightarrow> outbound_prepared list \<Rightarrow> bool" where
  "outbound_stack [] a ps \<longleftrightarrow> none_switched ps"
| "outbound_stack ((p, v) # st) a ps \<longleftrightarrow>
     (if is_outbound p
      then pc_ref p < length ps \<and> opv_switched (ps ! pc_ref p) \<and> snd v = opv_oldGenerationId (ps ! pc_ref p) \<and>
           (\<forall>k < length ps. k \<noteq> pc_ref p \<longrightarrow> \<not> opv_switched (ps ! k)) \<and>
           (\<forall>(q, u) \<in> set st. \<not> is_outbound q \<and> snd u = snd v)
      else snd v = a \<and> outbound_stack st a ps)"

lemma outbound_stack_plain:
  "\<forall>(q, u) \<in> set st. \<not> is_outbound q \<Longrightarrow> outbound_stack st a ps \<longleftrightarrow> (\<forall>(q, u) \<in> set st. snd u = a) \<and> none_switched ps"
  by (induction st) auto

definition own_outbounds :: "string \<Rightarrow> routing_component list \<Rightarrow> outbound_prepared list \<Rightarrow> bool" where
  "own_outbounds tid expected ps \<longleftrightarrow>
     (\<forall>v \<in> set ps. opv_transactionId v = tid \<and> (opv_participates v \<longleftrightarrow> RcOutbound \<in> set expected))"

definition runtime_undoing :: "string \<Rightarrow> routing_component list \<Rightarrow> runtime_stack \<Rightarrow> outbound_world \<Rightarrow> bool" where
  "runtime_undoing tid expected st w \<longleftrightarrow>
     own_prepared tid (owo_routing w) \<and> own_outbounds tid expected (owo_prepared w) \<and>
     (expected = [] \<longrightarrow> jm_get (rr_transactions (rw_runtime (owo_routing w))) tid = None) \<and>
     (expected = [] \<or> RcOutbound \<in> set expected \<or> (\<forall>(p, v) \<in> set st. \<not> is_outbound p)) \<and>
     outbound_stack st (obr_activeGenerationId (owo_registry w)) (owo_prepared w) \<and>
     side_undoing tid (sides st) (rw_runtime (owo_routing w))"

definition ids_ok :: "outbound_registry \<Rightarrow> bool" where
  "ids_ok r \<longleftrightarrow> (\<forall>i x. jm_get (obr_records r) i = Some x \<longrightarrow> og_id (rec_generation x) = i)"

definition runtime_armed :: "string \<Rightarrow> routing_component list \<Rightarrow> runtime_stack \<Rightarrow> outbound_world \<Rightarrow> bool" where
  "runtime_armed tid expected st w \<longleftrightarrow> runtime_undoing tid expected st w \<and> ids_ok (owo_registry w) \<and>
     (expected = [] \<or> RcOutbound \<in> set expected) \<and>
     ((\<forall>(p, v) \<in> set st. \<not> is_outbound p) \<longrightarrow>
        (\<forall>v \<in> set (owo_prepared w). opv_oldGenerationId v = obr_activeGenerationId (owo_registry w))) \<and>
     (\<forall>(p, v) \<in> set st. pc_component p \<in> {CRouter, CPolicyProber, COutboundRegistry}) \<and>
     side_armed tid (sides st) (rw_runtime (owo_routing w))"

lemma armed_undoing: "runtime_armed tid expected st w \<Longrightarrow> runtime_undoing tid expected st w"
  by (simp add: runtime_armed_def)

lemma side_armed_Nil: "side_armed tid [] rt \<longleftrightarrow> fresh_txn tid rt"
  by (auto simp: side_armed_def side_undoing_def fresh_txn_def split: option.splits)

text \<open>Before the first commit.\<close>

definition runtime_start :: "string \<Rightarrow> routing_component list \<Rightarrow> outbound_world \<Rightarrow> bool" where
  "runtime_start tid expected w \<longleftrightarrow>
     own_prepared tid (owo_routing w) \<and> own_outbounds tid expected (owo_prepared w) \<and> ids_ok (owo_registry w) \<and>
     (expected = [] \<or> RcOutbound \<in> set expected) \<and> none_switched (owo_prepared w) \<and>
     (\<forall>v \<in> set (owo_prepared w). opv_oldGenerationId v = obr_activeGenerationId (owo_registry w)) \<and>
     fresh_txn tid (rw_runtime (owo_routing w)) \<and>
     (expected = [] \<longrightarrow> jm_get (rr_transactions (rw_runtime (owo_routing w))) tid = None)"

lemma armed_start: "runtime_armed tid expected [] w \<longleftrightarrow> runtime_start tid expected w"
  unfolding runtime_armed_def runtime_undoing_def runtime_start_def sides_def
  by (auto simp: side_armed_Nil side_armed_Nil [symmetric] side_armed_def)

section \<open>Preparing and checking\<close>

lemma begin_no_components:
  assumes "stage_candidate name cand [] stage ctx w = (r, w')" "jm_get (rr_transactions (rw_runtime w)) (oc_transactionId ctx) = None"
  shows "jm_get (rr_transactions (rw_runtime w')) (oc_transactionId ctx) = None"
  using assms by (auto simp: stage_candidate_def rt_begin_def)

lemma routing_prepare_start:
  assumes c: "c = routerRuntimeAdapter host expected \<or> c = policyRuntimeAdapter host expected"
    and start: "runtime_start tid expected w" and tid: "oc_transactionId ctx = tid"
    and run: "rc_prepare (beside_outbounds c) cfg ctx w = (r, w')"
  shows "runtime_start tid expected w' \<and> runtime_view w' = runtime_view w \<and> (\<forall>p. r = Inr p \<longrightarrow> pc_component p = rc_name c)"
proof -
  have adapter: "routing_adapter c" using c by (auto simp: routing_adapter_def)
  from run obtain rw where rw: "rc_prepare c cfg ctx (owo_routing w) = (r, rw)" "w' = w\<lparr>owo_routing := rw\<rparr>"
    by (auto simp: beside_outbounds_def on_routing_def split: prod.splits)
  from start have "routing_armed tid [] (owo_routing w)" by (simp add: armed_Nil_iff runtime_start_def)
  from routing_prepare_law [OF adapter tid this rw(1)]
  have law: "own_prepared tid rw" "fresh_txn tid (rw_runtime rw)" "routing_view rw = routing_view (owo_routing w)"
    "\<forall>p. r = Inr p \<longrightarrow> pc_component p = rc_name c" by (simp_all add: armed_Nil_iff)
  have "jm_get (rr_transactions (rw_runtime rw)) tid = None" if "expected = []"
  proof -
    from start that have "jm_get (rr_transactions (rw_runtime (owo_routing w))) (oc_transactionId ctx) = None"
      by (simp add: runtime_start_def tid)
    with rw(1) c that tid begin_no_components show ?thesis
      by (auto simp: routerRuntimeAdapter_def policyRuntimeAdapter_def router_prepare_def policy_prepare_def Let_def split: sum.splits)
  qed
  with law start rw(2) show ?thesis by (auto simp: runtime_start_def runtime_view_def)
qed

lemma createOutbounds_keeps:
  "createOutbounds create cs made r = (failure, made', r') \<Longrightarrow>
     obr_records r' = obr_records r \<and> obr_activeGenerationId r' = obr_activeGenerationId r \<and> obr_references r' = obr_references r"
  by (induction cs arbitrary: made r) (auto split: sum.splits prod.splits)

lemma outbound_prepare_start:
  assumes start: "runtime_start tid expected w" and tid: "oc_transactionId ctx = tid"
    and run: "outbound_prepare host expected cfg ctx w = (r, w')"
  shows "runtime_start tid expected w' \<and> runtime_view w' = runtime_view w \<and> (\<forall>p. r = Inr p \<longrightarrow> is_outbound p)"
proof -
  let ?r = "owo_registry w"
  have same: "runtime_start tid expected (w\<lparr>owo_registry := r1\<rparr>) \<and> runtime_view (w\<lparr>owo_registry := r1\<rparr>) = runtime_view w"
    if "obr_records r1 = obr_records ?r" "obr_activeGenerationId r1 = obr_activeGenerationId ?r" for r1
    using start that by (simp add: runtime_start_def runtime_view_def ids_ok_def)
  define built where "built = rbind (getActiveGeneration ?r) (\<lambda>old.
       rbind (activeReferenceTags ?r (obr_activeGenerationId ?r)) (\<lambda>tags.
         rbind (buildOutboundGeneration (oh_hashes host) (oc_candidateGenerationId ctx @ ''-outbound'') (oh_currentOutbounds host)
             (oh_outbounds host cfg) (oh_route host cfg) (pb_policies (og_policyBinding old))
             (routingHealth (owo_routing w)) tags (Some (og_id old)) False (oh_now host)) (\<lambda>b. Inr (old, b))))"
  note run' = run [unfolded outbound_prepare_def Let_def, folded built_def]
  show ?thesis
  proof (cases built)
    case (Inl e)
    with run' start show ?thesis by auto
  next
    case (Inr ob)
    obtain old b where ob: "ob = (old, b)" by (cases ob)
    from Inr ob obtain x where x: "jm_get (obr_records ?r) (obr_activeGenerationId ?r) = Some x" "old = rec_generation x"
      by (auto simp: built_def rbind_Inr_iff getActiveGeneration_def requireRecord_def split: option.splits)
    with start have old: "og_id old = obr_activeGenerationId ?r" by (simp add: runtime_start_def ids_ok_def)
    show ?thesis
    proof (cases "rejectBuilt b")
      case (Some ec)
      with run' Inr ob same [of "recordRejectedUnsupported ?r"] start show ?thesis
        by (auto simp: on_registry_def recordRejectedUnsupported_def split: prod.splits if_splits)
    next
      case None
      obtain failure made r1 where made: "createOutbounds (oh_create host cfg) (oh_outbounds host cfg) [] ?r = (failure, made, r1)"
        by (metis prod_cases3)
      note kept = createOutbounds_keeps [OF made]
      show ?thesis
      proof (cases failure)
        case (Some e)
        with run' Inr ob None made same [of "stopOutbounds made r1"] kept show ?thesis by (auto simp: stopOutbounds_def)
      next
        case None': None
        with run' Inr ob None made have r: "r = Inr \<lparr>pc_component = COutboundRegistry, pc_ref = length (owo_prepared w)\<rparr>"
          and w': "owo_registry w' = r1" "owo_routing w' = owo_routing w"
            "\<exists>v. owo_prepared w' = owo_prepared w @ [v] \<and> opv_oldGenerationId v = og_id old \<and> opv_transactionId v = tid \<and>
               (opv_participates v \<longleftrightarrow> RcOutbound \<in> set expected) \<and> \<not> opv_switched v"
          using tid by auto
        from w' kept start old show ?thesis
          by (auto simp: r runtime_start_def runtime_view_def ids_ok_def own_outbounds_def none_switched_def)
      qed
    qed
  qed
qed

lemma outbound_health_keeps: "outbound_health_check p w = (r, w') \<Longrightarrow> w' = w"
  by (auto simp: outbound_health_check_def with_outbound_def split: if_splits)

lemma runtime_health_law: "runtime_adapter expected c \<Longrightarrow> rc_health c p ctx w = (r, w') \<Longrightarrow> w' = w"
proof -
  assume c: "runtime_adapter expected c" and run: "rc_health c p ctx w = (r, w')"
  from c consider (outbounds) host where "c = outboundRuntimeAdapter host expected"
    | (routing) c0 where "routing_adapter c0" "c = beside_outbounds c0"
    unfolding runtime_adapter_def routing_adapter_def by blast
  then show "w' = w"
  proof cases
    case outbounds
    with run outbound_health_keeps show ?thesis by (auto simp: outboundRuntimeAdapter_def)
  next
    case routing
    with run routing_health_law [OF routing(1)] show ?thesis
      by (auto simp: beside_outbounds_def on_routing_def split: prod.splits)
  qed
qed

section \<open>Committing\<close>

lemma sides_fst: "fst ` set (sides st) = (\<lambda>(p, v). component_of (pc_component p)) ` set st"
  by (force simp: sides_def)

lemma sides_simps [simp]:
  "sides [] = []" "sides ((p, v) # st) = (component_of (pc_component p), fst v) # sides st"
  by (simp_all add: sides_def)

lemma new_component:
  assumes "pc_component p \<in> {CRouter, CPolicyProber, COutboundRegistry}" "pc_component p \<notin> (pc_component \<circ> fst) ` set st"
    and "\<forall>(q, v) \<in> set st. pc_component q \<in> {CRouter, CPolicyProber, COutboundRegistry}"
  shows "component_of (pc_component p) \<notin> fst ` set (sides st)"
proof
  assume "component_of (pc_component p) \<in> fst ` set (sides st)"
  then obtain q v where q: "(q, v) \<in> set st" "component_of (pc_component q) = component_of (pc_component p)"
    by (auto simp: sides_fst)
  with assms(1,3) have "pc_component q = pc_component p" by auto
  with q(1) assms(2) show False by force
qed

lemma routing_runtime_commit:
  assumes c: "routing_adapter c" "pc_component p = rc_name c" "pc_component p \<notin> (pc_component \<circ> fst) ` set st"
    and w: "runtime_armed tid expected st w" "rc_commit (beside_outbounds c) p ctx w = (r, w')"
  shows "case r of Inr u \<Rightarrow> runtime_armed tid expected ((p, runtime_view w) # st) w'
                 | Inl e \<Rightarrow> runtime_armed tid expected st w' \<and> runtime_view w' = runtime_view w"
proof -
  let ?rw = "owo_routing w" and ?k = "component_of (pc_component p)"
  have name: "pc_component p \<in> {CRouter, CPolicyProber}" and com: "rc_commit c p ctx ?rw = routing_commit ?k p ?rw"
    using c(1,2) by (auto simp: routing_adapter_def routerRuntimeAdapter_def policyRuntimeAdapter_def)
  from w(2) com obtain rw where rw: "routing_commit ?k p ?rw = (r, rw)" "w' = w\<lparr>owo_routing := rw\<rparr>"
    by (auto simp: beside_outbounds_def on_routing_def split: prod.splits)
  from w(1) have own: "own_prepared tid ?rw" and side: "side_armed tid (sides st) (rw_runtime ?rw)"
    and comps: "\<forall>(q, v) \<in> set st. pc_component q \<in> {CRouter, CPolicyProber, COutboundRegistry}"
    by (simp_all add: runtime_armed_def runtime_undoing_def)
  have new: "?k \<notin> fst ` set (sides st)" by (rule new_component [OF _ c(3) comps]) (use name in auto)
  show ?thesis
  proof (cases "pc_ref p < length (rw_prepared ?rw)")
    case False
    with rw w(1) show ?thesis by (auto simp: routing_commit_def with_prepared_def)
  next
    case ref: True
    then have t: "rpv_transactionId (rw_prepared ?rw ! pc_ref p) = tid" by (rule own_prepared_nth [OF own])
    obtain r0 rt where run: "rt_commit tid ?k (rw_runtime ?rw) = (r0, rt)" by fastforce
    note law = side_commit [OF side new run]
    show ?thesis
    proof (cases r0)
      case (Inl e)
      with law rw ref t run w(1) show ?thesis by (auto simp: routing_commit_def with_prepared_def)
    next
      case (Inr u)
      with rw ref t run have r: "r = Inr ()" "rw = set_committed p True (?rw\<lparr>rw_runtime := rt\<rparr>)"
        by (auto simp: routing_commit_def with_prepared_def)
      then have rt: "own_prepared tid rw" "rw_runtime rw = rt" using own ref by (simp_all add: set_committed_facts)
      from law Inr have pushed: "side_armed tid ((?k, rr_active (rw_runtime ?rw)) # sides st) rt"
        "jm_get (rr_transactions (rw_runtime ?rw)) tid \<noteq> None" by simp_all
      with w(1) have "expected \<noteq> []" by (auto simp: runtime_armed_def runtime_undoing_def)
      moreover have "\<not> is_outbound p" using name by auto
      ultimately show ?thesis using w(1) rt r(1) rw(2) pushed name
        unfolding runtime_armed_def runtime_undoing_def runtime_view_def routing_view_def
        by (simp add: side_armed_def)
    qed
  qed
qed

lemma switch_Inl: "switchGeneration g obs r = (Inl e, r') \<Longrightarrow> r' = r"
  by (auto simp: switchGeneration_def Let_def split: if_splits sum.splits option.splits)

lemma switch_Inr:
  assumes "switchGeneration g obs r = (Inr i, r')" "ids_ok r"
  shows "obr_activeGenerationId r' = og_id g" "ids_ok r'" "jm_get (obr_records r') (obr_activeGenerationId r) \<noteq> None"
    "jm_get (obr_records r') (og_id g) \<noteq> None" "og_id g \<noteq> obr_activeGenerationId r"
  using assms by (auto simp: switchGeneration_def ids_ok_def Let_def jm_has_get split: if_splits sum.splits option.splits)

lemma restore_Inr:
  assumes "ids_ok r" "jm_get (obr_records r) i \<noteq> None" "jm_get (obr_records r) j \<noteq> None"
  obtains r' where "restoreGeneration i j r = (Inr (), r')" "obr_activeGenerationId r' = i" "ids_ok r'"
  using assms by (auto simp: restoreGeneration_def ids_ok_def Let_def split: if_splits)

lemma restore_Inr_view: "restoreGeneration i j r = (Inr (), r') \<Longrightarrow> obr_activeGenerationId r' = i"
  by (auto simp: restoreGeneration_def Let_def split: option.splits)

lemma retire_keeps: "obr_activeGenerationId (snd (retireIfUnused i r)) = obr_activeGenerationId r"
  "ids_ok r \<Longrightarrow> ids_ok (snd (retireIfUnused i r))"
  using retire_cases [of i r] by (auto simp: ids_ok_def split: if_splits)

lemma own_outbounds_update:
  "own_outbounds tid expected ps \<Longrightarrow> k < length ps \<Longrightarrow> opv_transactionId v = opv_transactionId (ps ! k) \<Longrightarrow>
     opv_participates v = opv_participates (ps ! k) \<Longrightarrow> own_outbounds tid expected (ps[k := v])"
  using nth_mem by (fastforce simp: own_outbounds_def dest!: set_update_subset_insert [THEN subsetD])

lemma none_switched_reset:
  assumes "\<forall>j < length ps. j \<noteq> k \<longrightarrow> \<not> opv_switched (ps ! j)" "\<not> opv_switched v"
  shows "none_switched (ps[k := v])"
  unfolding none_switched_def
proof
  fix u
  assume "u \<in> set (ps[k := v])"
  then obtain j where "j < length ps" "u = ps[k := v] ! j" by (auto simp: in_set_conv_nth)
  with assms show "\<not> opv_switched u" by (cases "j = k") simp_all
qed

lemma none_switched_update: "none_switched ps \<Longrightarrow> \<not> opv_switched v \<Longrightarrow> none_switched (ps[k := v])"
  by (auto simp: none_switched_def dest!: set_update_subset_insert [THEN subsetD])

lemma outbound_runtime_commit:
  assumes c: "is_outbound p" "pc_component p \<notin> (pc_component \<circ> fst) ` set st"
    and w: "runtime_armed tid expected st w" "outbound_commit p w = (r, w')"
  shows "case r of Inr u \<Rightarrow> runtime_armed tid expected ((p, runtime_view w) # st) w'
                 | Inl e \<Rightarrow> runtime_armed tid expected st w' \<and> runtime_view w' = runtime_view w"
proof (cases "pc_ref p < length (owo_prepared w)")
  case False
  with w show ?thesis by (auto simp: outbound_commit_def with_outbound_def)
next
  case ref: True
  let ?k = "pc_ref p" and ?ps = "owo_prepared w" and ?r = "owo_registry w" and ?rw = "owo_routing w"
  let ?v = "?ps ! ?k"
  let ?a = "obr_activeGenerationId ?r"
  have plain: "\<forall>(q, u) \<in> set st. \<not> is_outbound q" using c by force
  from w(1) have own: "own_prepared tid ?rw" "own_outbounds tid expected ?ps" and ids: "ids_ok ?r"
    and exp: "expected = [] \<or> RcOutbound \<in> set expected" "expected = [] \<longrightarrow> jm_get (rr_transactions (rw_runtime ?rw)) tid = None"
    and old: "\<forall>v \<in> set ?ps. opv_oldGenerationId v = ?a"
    and comps: "\<forall>(q, v) \<in> set st. pc_component q \<in> {CRouter, CPolicyProber, COutboundRegistry}"
    and side: "side_armed tid (sides st) (rw_runtime ?rw)" and stack: "outbound_stack st ?a ?ps"
    using plain by (simp_all add: runtime_armed_def runtime_undoing_def)
  from stack have below: "\<forall>(q, u) \<in> set st. snd u = ?a" "none_switched ?ps" by (simp_all add: outbound_stack_plain [OF plain])
  from ref own(2) have v: "opv_transactionId ?v = tid" "opv_participates ?v \<longleftrightarrow> RcOutbound \<in> set expected" "opv_oldGenerationId ?v = ?a"
    using old nth_mem by (auto simp: own_outbounds_def)
  have new: "RcOutbound \<notin> fst ` set (sides st)" using new_component [OF _ c(2) comps] c(1) by simp
  show ?thesis
  proof (cases "switchGeneration (opv_candidateGeneration ?v) (opv_candidateOutbounds ?v) ?r")
    case (Pair sr r1)
    show ?thesis
    proof (cases sr)
      case (Inl e)
      have "r1 = ?r" by (rule switch_Inl [OF Pair [unfolded Inl]])
      with Pair Inl w ref have "r = Inl e" "w' = w" by (simp_all add: outbound_commit_def with_outbound_def)
      with w(1) show ?thesis by simp
    next
      case (Inr i)
      note sw = switch_Inr [OF Pair [unfolded Inr] ids]
      obtain result rt where run: "commit_in_routing ?v ?rw = (result, rt)" by fastforce
      note ps1 = own_outbounds_update [OF own(2) ref]
      show ?thesis
      proof (cases result)
        case (Inr u)
        have pushed: "side_armed tid ((RcOutbound, rr_active (rw_runtime ?rw)) # sides st) rt \<and>
            (expected = [] \<longrightarrow> jm_get (rr_transactions rt) tid = None)"
        proof (cases "opv_participates ?v")
          case True
          with v(1,2) run side_commit [OF side new, of result rt] Inr show ?thesis by (auto simp: commit_in_routing_def)
        next
          case False
          with v(2) exp run side show ?thesis by (auto simp: side_armed_def side_undoing_def commit_in_routing_def)
        qed
        have r: "r = Inr ()" "owo_registry w' = r1" "rw_runtime (owo_routing w') = rt" "rw_prepared (owo_routing w') = rw_prepared ?rw"
          "owo_prepared w' = ?ps[?k := ?v\<lparr>opv_switched := True, opv_committed := True, opv_disposed := opv_disposed ?v\<rparr>]"
          using w(2) ref Pair \<open>sr = Inr i\<close> run Inr
          by (auto simp: outbound_commit_def with_outbound_def set_prepared_def Let_def)
        have own': "own_prepared tid (owo_routing w')" "own_outbounds tid expected (owo_prepared w')"
          using own(1) unfolding r(5) by (simp add: own_prepared_def r, intro ps1, simp_all)
        have active: "obr_activeGenerationId (owo_registry w') = og_id (opv_candidateGeneration ?v)" "ids_ok (owo_registry w')"
          using sw(1,2) r(2) by simp_all
        have stack': "outbound_stack ((p, runtime_view w) # st) (og_id (opv_candidateGeneration ?v)) (owo_prepared w')"
          using c(1) plain below ref v(3) unfolding r(5)
          by (fastforce simp: runtime_view_def none_switched_def nth_list_update)
        have side': "side_armed tid (sides ((p, runtime_view w) # st)) (rw_runtime (owo_routing w'))"
          using pushed c(1) by (simp add: r(3) runtime_view_def routing_view_def)
        have undo: "runtime_undoing tid expected ((p, runtime_view w) # st) w'"
          unfolding runtime_undoing_def active(1) using own' stack' side' pushed exp(1) r(3) by (auto simp: side_armed_def simp del: sides_simps outbound_stack.simps)
        have "runtime_armed tid expected ((p, runtime_view w) # st) w'"
          unfolding runtime_armed_def using undo active(2) exp(1) comps c(1) side' by (simp del: sides_simps)
        with r(1) show ?thesis by simp
      next
        case (Inl e)
        with run v(1) have part: "opv_participates ?v" "rt_commit tid RcOutbound (rw_runtime ?rw) = (Inl e, rt)"
          by (auto simp: commit_in_routing_def split: if_splits)
        with side_commit [OF side new part(2)] have rt: "rt = rw_runtime ?rw" by simp
        from sw obtain r2 where r2: "restoreGeneration ?a (og_id (opv_candidateGeneration ?v)) r1 = (Inr (), r2)"
          "obr_activeGenerationId r2 = ?a" "ids_ok r2" using restore_Inr [of r1] by metis
        let ?r3 = "snd (retireIfUnused (og_id (opv_candidateGeneration ?v)) r2)"
        have r: "r = Inl e" "owo_registry w' = ?r3" "owo_routing w' = ?rw"
          "owo_prepared w' = ?ps[?k := ?v\<lparr>opv_switched := False, opv_committed := opv_committed ?v, opv_disposed := True\<rparr>]"
          using w(2) ref Pair \<open>sr = Inr i\<close> run Inl rt r2(1) v(3)
          by (auto simp: outbound_commit_def with_outbound_def set_prepared_def Let_def)
        have own': "own_outbounds tid expected (owo_prepared w')" unfolding r(4) by (intro ps1) simp_all
        have r3: "obr_activeGenerationId ?r3 = ?a" "ids_ok ?r3" using retire_keeps r2(2,3) by simp_all
        have "none_switched (owo_prepared w')" unfolding r(4) by (rule none_switched_update [OF below(2)]) simp
        then have "outbound_stack st ?a (owo_prepared w')" using below(1) by (simp add: outbound_stack_plain [OF plain])
        moreover have "\<forall>v \<in> set (owo_prepared w'). opv_oldGenerationId v = ?a"
          unfolding r(4) using old v(3) by (auto dest!: set_update_subset_insert [THEN subsetD])
        ultimately show ?thesis
          using w(1) r(1-3) r3 own'
          by (simp add: runtime_armed_def runtime_undoing_def runtime_view_def)
      qed
    qed
  qed
qed

section \<open>Undoing\<close>

lemma routing_runtime_rollback:
  assumes c: "routing_adapter c" "own_prepared tid (owo_routing w)" "rc_rollback (beside_outbounds c) p ctx w = (Inr (), w')"
  shows "\<exists>rw. w' = w\<lparr>owo_routing := rw\<rparr> \<and> rw_runtime rw = rt_rollback tid (rw_runtime (owo_routing w)) \<and> own_prepared tid rw"
proof -
  from c(3) obtain rw where "rc_rollback c p ctx (owo_routing w) = (Inr (), rw)" "w' = w\<lparr>owo_routing := rw\<rparr>"
    by (auto simp: beside_outbounds_def on_routing_def split: prod.splits)
  with routing_rollback_run [OF c(1,2)] show ?thesis by blast
qed

lemma runtime_undoing_routing:
  assumes "runtime_undoing tid expected ((p, v) # st) w" "\<not> is_outbound p"
    and "rw_runtime rw = rt_rollback tid (rw_runtime (owo_routing w))" "own_prepared tid rw"
  shows "runtime_undoing tid expected st (w\<lparr>owo_routing := rw\<rparr>) \<and> runtime_view (w\<lparr>owo_routing := rw\<rparr>) = v"
proof -
  from assms(1) have "side_undoing tid ((component_of (pc_component p), fst v) # sides st) (rw_runtime (owo_routing w))"
    by (simp add: runtime_undoing_def)
  note side = side_rollback [OF this]
  have txn: "jm_get (rr_transactions (rw_runtime rw)) tid = None \<longleftrightarrow> jm_get (rr_transactions (rw_runtime (owo_routing w))) tid = None"
    unfolding assms(3) by (rule side_rollback_txn)
  from assms(1,2) have "snd v = obr_activeGenerationId (owo_registry w)" by (simp add: runtime_undoing_def)
  with assms side txn show ?thesis
    by (auto simp: runtime_undoing_def runtime_view_def routing_view_def prod_eq_iff)
qed

text \<open>Undoing the commit of the outbounds, whether or not it was part of a routing transaction.\<close>

lemma outbound_runtime_rollback:
  assumes undo: "runtime_undoing tid expected ((p, v) # st) w" and p: "is_outbound p"
    and run: "outbound_rollback p w = (Inr (), w')"
  shows "runtime_undoing tid expected st w' \<and> runtime_view w' = v"
proof -
  let ?k = "pc_ref p" and ?ps = "owo_prepared w" and ?rw = "owo_routing w"
  let ?v = "?ps ! ?k"
  from undo p have own: "own_prepared tid ?rw" "own_outbounds tid expected ?ps" and ref: "?k < length ?ps"
    and exp: "expected = [] \<longrightarrow> jm_get (rr_transactions (rw_runtime ?rw)) tid = None" "expected = [] \<or> RcOutbound \<in> set expected"
    and top: "opv_switched ?v" "snd v = opv_oldGenerationId ?v" "\<forall>k < length ?ps. k \<noteq> ?k \<longrightarrow> \<not> opv_switched (?ps ! k)"
      "\<forall>(q, u) \<in> set st. \<not> is_outbound q \<and> snd u = snd v"
    and side: "side_undoing tid ((RcOutbound, fst v) # sides st) (rw_runtime ?rw)"
    by (simp_all add: runtime_undoing_def split_beta)
  from own(2) ref have mine: "opv_transactionId ?v = tid" "opv_participates ?v \<longleftrightarrow> RcOutbound \<in> set expected"
    using nth_mem by (auto simp: own_outbounds_def)
  let ?ps' = "?ps[?k := ?v\<lparr>opv_switched := False, opv_committed := False\<rparr>]"
  from run ref top(1) obtain r where r: "restoreGeneration (opv_oldGenerationId ?v) (og_id (opv_candidateGeneration ?v)) (owo_registry w) = (Inr (), r)"
    by (auto simp: outbound_rollback_def with_outbound_def Let_def split: prod.splits sum.splits)
  let ?rw' = "if opv_participates ?v then ?rw\<lparr>rw_runtime := rt_rollback tid (rw_runtime ?rw)\<rparr> else ?rw"
  from run ref top(1) r mine(1) have w': "owo_registry w' = r" "owo_routing w' = ?rw'" "owo_prepared w' = ?ps'"
    by (auto simp: outbound_rollback_def with_outbound_def set_prepared_def Let_def)
  have side': "side_undoing tid (sides st) (rw_runtime ?rw') \<and> rr_active (rw_runtime ?rw') = fst v \<and>
      (jm_get (rr_transactions (rw_runtime ?rw')) tid = None \<longleftrightarrow> jm_get (rr_transactions (rw_runtime ?rw)) tid = None)"
  proof (cases "opv_participates ?v")
    case True
    with side_rollback [OF side] side_rollback_txn show ?thesis by simp
  next
    case False
    with exp mine(2) have "jm_get (rr_transactions (rw_runtime ?rw)) tid = None" by auto
    with False side show ?thesis by (simp add: side_undoing_def)
  qed
  have "none_switched ?ps'"
    by (rule none_switched_reset) (use top(3) in simp_all)
  moreover have "\<forall>(q, u) \<in> set st. \<not> is_outbound q" "\<forall>(q, u) \<in> set st. snd u = snd v" using top(4) by auto
  ultimately have "outbound_stack st (snd v) ?ps'" by (simp add: outbound_stack_plain)
  moreover have "own_outbounds tid expected ?ps'" by (intro own_outbounds_update own ref) simp_all
  moreover have "obr_activeGenerationId r = snd v" using restore_Inr_view [OF r] top(2) by simp
  moreover have "own_prepared tid ?rw'" using own(1) by simp
  ultimately show ?thesis
    using side' exp unfolding runtime_undoing_def runtime_view_def routing_view_def w' by (auto simp: prod_eq_iff)
qed

lemma runtime_kinds:
  assumes "runtime_adapter expected c"
  obtains (outbounds) host where "c = outboundRuntimeAdapter host expected"
  | (routing) c0 host where "c = beside_outbounds c0" "routing_adapter c0" "rc_name c0 \<in> {CRouter, CPolicyProber}"
      "c0 = routerRuntimeAdapter host expected \<or> c0 = policyRuntimeAdapter host expected"
proof -
  have names: "rc_name (routerRuntimeAdapter h e) = CRouter" "rc_name (policyRuntimeAdapter h e) = CPolicyProber" for h :: "'a routing_host" and e
    by (simp_all add: routerRuntimeAdapter_def policyRuntimeAdapter_def)
  show thesis
    using assms unfolding runtime_adapter_def
  proof (elim disjE exE)
    fix host assume "c = outboundRuntimeAdapter host expected"
    then show thesis by (rule outbounds)
  next
    fix host assume "c = beside_outbounds (routerRuntimeAdapter host expected)"
    then show thesis by (rule routing) (auto simp: routing_adapter_def names)
  next
    fix host assume "c = beside_outbounds (policyRuntimeAdapter host expected)"
    then show thesis by (rule routing) (auto simp: routing_adapter_def names)
  qed
qed

lemma runtime_names: "rc_name (beside_outbounds c) = rc_name c" "rc_name (outboundRuntimeAdapter host expected) = COutboundRegistry"
  by (simp_all add: beside_outbounds_def outboundRuntimeAdapter_def)

lemma runtime_prepare_law:
  assumes "runtime_adapter expected c" "oc_transactionId ctx = tid" "runtime_armed tid expected [] w" "rc_prepare c cfg ctx w = (r, w')"
  shows "runtime_armed tid expected [] w' \<and> runtime_view w' = runtime_view w \<and> (\<forall>p. r = Inr p \<longrightarrow> pc_component p = rc_name c)"
  using assms(1)
proof (cases rule: runtime_kinds)
  case (outbounds host)
  with outbound_prepare_start [OF assms(3) [unfolded armed_start] assms(2)] assms(4) show ?thesis
    by (simp add: armed_start runtime_names) (simp add: outboundRuntimeAdapter_def)
next
  case (routing c0 host)
  with routing_prepare_start [OF routing(4) assms(3) [unfolded armed_start] assms(2)] assms(4) show ?thesis
    by (simp add: armed_start runtime_names)
qed

lemma runtime_commit_law:
  assumes "runtime_adapter expected c" "pc_component p = rc_name c" "pc_component p \<notin> (pc_component \<circ> fst) ` set st"
    and "runtime_armed tid expected st w" "rc_commit c p ctx w = (r, w')"
  shows "case r of Inr u \<Rightarrow> runtime_armed tid expected ((p, runtime_view w) # st) w'
                 | Inl e \<Rightarrow> runtime_armed tid expected st w' \<and> runtime_view w' = runtime_view w"
  using assms(1)
proof (cases rule: runtime_kinds)
  case (outbounds host)
  have "outbound_commit p w = (r, w')" "is_outbound p" using assms(2,5) outbounds by (simp_all add: outboundRuntimeAdapter_def)
  then show ?thesis by (intro outbound_runtime_commit [OF _ assms(3,4)])
next
  case (routing c0 host)
  have name: "pc_component p = rc_name c0" using assms(2) routing(1) by (simp add: runtime_names)
  show ?thesis by (rule routing_runtime_commit [OF routing(2) name assms(3,4) assms(5) [unfolded routing(1)]])
qed

lemma runtime_rollback_law:
  assumes "runtime_adapter expected c" "pc_component p = rc_name c" "runtime_undoing tid expected ((p, v) # st) w"
    and "rc_rollback c p ctx w = (Inr (), w')"
  shows "runtime_undoing tid expected st w' \<and> runtime_view w' = v"
  using assms(1)
proof (cases rule: runtime_kinds)
  case (outbounds host)
  have "outbound_rollback p w = (Inr (), w')" "is_outbound p" using assms(2,4) outbounds by (simp_all add: outboundRuntimeAdapter_def)
  then show ?thesis by (intro outbound_runtime_rollback [OF assms(3)])
next
  case (routing c0 host)
  have own: "own_prepared tid (owo_routing w)" using assms(3) by (simp add: runtime_undoing_def)
  from routing_runtime_rollback [OF routing(2) own assms(4) [unfolded routing(1)]] obtain rw
    where rw: "w' = w\<lparr>owo_routing := rw\<rparr>" "rw_runtime rw = rt_rollback tid (rw_runtime (owo_routing w))" "own_prepared tid rw" by blast
  have "\<not> is_outbound p" using assms(2) routing(1,3) by (auto simp: runtime_names)
  from runtime_undoing_routing [OF assms(3) this rw(2,3)] show ?thesis by (simp add: rw(1))
qed

lemma runtime_rollback_idle:
  assumes "runtime_adapter expected c" "runtime_undoing tid expected [] w" "rc_rollback c p ctx w = (Inr (), w')"
  shows "runtime_undoing tid expected [] w' \<and> runtime_view w' = runtime_view w"
  using assms(1)
proof (cases rule: runtime_kinds)
  case (outbounds host)
  then have run: "outbound_rollback p w = (Inr (), w')" using assms(3) by (simp add: outboundRuntimeAdapter_def)
  then have ref: "pc_ref p < length (owo_prepared w)" by (auto simp: outbound_rollback_def with_outbound_def split: if_splits)
  let ?v = "owo_prepared w ! pc_ref p"
  from assms(2) have un: "none_switched (owo_prepared w)" "own_outbounds tid expected (owo_prepared w)" by (simp_all add: runtime_undoing_def)
  then have "\<not> opv_switched ?v" using ref nth_mem by (auto simp: none_switched_def)
  with run ref have w': "w' = w\<lparr>owo_prepared := (owo_prepared w)[pc_ref p := ?v\<lparr>opv_switched := False, opv_committed := False\<rparr>]\<rparr>"
    by (simp add: outbound_rollback_def with_outbound_def set_prepared_def Let_def)
  have "none_switched (owo_prepared w')" "own_outbounds tid expected (owo_prepared w')"
    unfolding w' by (simp_all add: none_switched_update own_outbounds_update un ref)
  with assms(2) show ?thesis by (simp add: runtime_undoing_def runtime_view_def w')
next
  case (routing c0 host)
  have own: "own_prepared tid (owo_routing w)" using assms(2) by (simp add: runtime_undoing_def)
  from routing_runtime_rollback [OF routing(2) own assms(3) [unfolded routing(1)]] obtain rw
    where rw: "w' = w\<lparr>owo_routing := rw\<rparr>" "rw_runtime rw = rt_rollback tid (rw_runtime (owo_routing w))" "own_prepared tid rw" by blast
  have "rw_runtime rw = rw_runtime (owo_routing w)" unfolding rw(2) using assms(2) by (intro side_idle) (simp add: runtime_undoing_def)
  with rw assms(2) show ?thesis by (simp add: runtime_undoing_def runtime_view_def routing_view_def)
qed

lemma outbound_cleanup_view: "runtime_view (snd (outbound_cleanup p w)) = runtime_view w"
  by (simp add: outbound_cleanup_def with_outbound_def runtime_view_def set_prepared_def stopOutbounds_def retire_keeps Let_def split: sum.splits)

lemma runtime_cleanup_law:
  assumes "runtime_adapter expected c"
  shows "runtime_view (snd (rc_cleanup c p ctx w)) = runtime_view w"
  using assms
proof (cases rule: runtime_kinds)
  case (outbounds host)
  then show ?thesis by (simp add: outboundRuntimeAdapter_def outbound_cleanup_view)
next
  case (routing c0 host)
  with routing_cleanup_law [OF routing(2), of p ctx "owo_routing w"] show ?thesis
    by (simp add: beside_outbounds_def on_routing_def runtime_view_def split_beta)
qed

interpretation runtime_reload: reload_contract "runtime_adapter expected" tid runtime_view pc_component
    "runtime_armed tid expected" "runtime_undoing tid expected" for tid expected
proof (unfold_locales, goal_cases)
  case (1 st w)
  then show ?case by (rule armed_undoing)
next
  case (2 c ctx w cfg r w')
  then show ?case by (rule runtime_prepare_law)
next
  case (3 c p st w ctx r1 w')
  with runtime_health_law show ?case by blast
next
  case (4 c p st w ctx r1 w')
  then show ?case by (intro runtime_commit_law)
next
  case (5 c p v st w ctx w')
  then show ?case by (intro runtime_rollback_law)
next
  case (6 c p w ctx w')
  then show ?case by (intro runtime_rollback_idle)
next
  case (7 c p ctx w)
  then show ?case by (intro runtime_cleanup_law)
qed

end
