(* ===== verification/OutboundReloadProofs.thy ===== *)
theory OutboundReloadProofs
  imports OutboundReload OutboundRegistryProofs ReloadRuns
begin

text \<open>
  What a reload of outbounds guarantees: it is atomic together with routing, what it accepts is
  sound, and where its rollback can fail.
\<close>

section \<open>The adapter never fails silently\<close>

lemma unavailable_visible: "visible (unavailable i)"
  by (simp add: unavailable_def visible_def is_space_def char_code_def)

lemma build_visible: "buildOutboundGeneration hs i current cs route ps health tags parent ex now = Inl e \<Longrightarrow> visible e"
proof -
  assume build: "buildOutboundGeneration hs i current cs route ps health tags parent ex now = Inl e"
  have tags: "visible e" if "assertUniqueTags ts cs = Inl e" for ts cs e
    using that by (induction cs arbitrary: ts) (auto simp: visible_def is_space_def char_code_def split: if_splits)
  show "visible e"
  proof (cases "diffOutboundConfigs current cs (Some route)")
    case (Inl e')
    then have "e' = TypeError ''current.includes is not a function''"
      using add_references_error
      by (cases "policyReferences cs (Some route)") (auto simp: diffOutboundConfigs_def Let_def policyReferences_def)
    moreover have "visible (TypeError ''current.includes is not a function'')" by (simp add: visible_def is_space_def char_code_def)
    ultimately show ?thesis using build Inl by (simp add: buildOutboundGeneration_def)
  next
    case (Inr diff)
    with build tags [of "[]" cs] show ?thesis
      by (cases "assertUniqueTags [] cs") (auto simp: buildOutboundGeneration_def newOutboundGeneration_def Let_def)
  qed
qed

lemma reject_visible: "rejectBuilt b = Some (e, counted) \<Longrightarrow> visible e"
  by (auto simp: rejectBuilt_def Let_def visible_def is_space_def char_code_def split: if_splits)

lemma createOutbounds_failure:
  "createOutbounds create cs made r = (Some e, made', r') \<Longrightarrow> \<exists>c \<in> set cs. create c = Inl e"
  by (induction cs arbitrary: made r) (auto split: sum.splits prod.splits)

lemma outbound_prepare_blank:
  assumes "outbound_prepare host expected cfg ctx w = (Inl e, w')" "\<forall>c e. oh_create host cfg c = Inl e \<longrightarrow> \<not> blank e"
  shows "\<not> blank e"
proof -
  have gone: "visible e" if "requireRecord r i = Inl e" for r i e
    using that unavailable_visible by (auto simp: requireRecord_def split: option.splits)
  have built: "visible e" if "rbind (getActiveGeneration r) (\<lambda>old. rbind (activeReferenceTags r a) (\<lambda>tags.
      rbind (buildOutboundGeneration hs i current cs route (P old) health tags (Q old) ex now) (\<lambda>b. Inr (old, b)))) = Inl e"
    for r a hs i current cs route P health Q ex now and e :: js_error
    using that gone build_visible
    by (auto simp: rbind_def getActiveGeneration_def activeReferenceTags_def split: sum.splits)
  from assms(1) consider "visible e"
    | made r1 where "createOutbounds (oh_create host cfg) (oh_outbounds host cfg) [] (owo_registry w) = (Some e, made, r1)"
    unfolding outbound_prepare_def Let_def
    by (auto split: sum.splits option.splits prod.splits dest: built reject_visible)
  then show ?thesis
  proof cases
    case 1
    then show ?thesis by (rule visible_not_blank)
  next
    case 2
    from createOutbounds_failure [OF 2] assms(2) show ?thesis by blast
  qed
qed

lemma checkEntries_visible: "checkEntries obs bs es = Inl e \<Longrightarrow> visible e"
  by (induction es) (auto simp: visible_def is_space_def char_code_def split: if_splits option.splits)

lemma checkRuntimeEntries_visible: "checkRuntimeEntries g obs bs ts = Inl e \<Longrightarrow> visible e"
  by (induction ts) (auto simp: visible_def is_space_def char_code_def split: if_splits option.splits)

lemma switch_visible: "switchGeneration g obs r = (Inl e, r') \<Longrightarrow> visible e"
  by (auto simp: switchGeneration_def validateRuntimeEntries_def unavailable_visible Let_def split: if_splits sum.splits option.splits
      dest: checkRuntimeEntries_visible) (auto simp: visible_def is_space_def char_code_def)

lemma restore_visible: "restoreGeneration i j r = (Inl e, r') \<Longrightarrow> visible e"
  by (auto simp: restoreGeneration_def unavailable_visible Let_def split: option.splits)

lemma commit_in_routing_visible: "commit_in_routing v rw = (Inl e, rt) \<Longrightarrow> visible e"
  by (auto simp: commit_in_routing_def dest: rt_commit_visible split: if_splits)

lemma outbound_commit_visible: "outbound_commit p w = (Inl e, w') \<Longrightarrow> visible e"
  by (auto simp: outbound_commit_def with_outbound_def dangling_visible Let_def split: if_splits sum.splits prod.splits
      dest: switch_visible restore_visible commit_in_routing_visible)

lemma outbound_health_visible: "outbound_health_check p w = (Inl e, w') \<Longrightarrow> visible e"
  by (auto simp: outbound_health_check_def with_outbound_def dangling_visible split: if_splits dest: checkEntries_visible)

lemma outbound_adapter_speaks:
  assumes "\<forall>cfg c e. oh_create host cfg c = Inl e \<longrightarrow> \<not> blank e"
  shows "speaks (outboundRuntimeAdapter host expected)"
proof -
  have "\<not> blank e" if "outbound_prepare host expected cfg ctx w = (Inl e, w')" for cfg ctx w e w'
    using outbound_prepare_blank [OF that] assms by blast
  moreover have "\<not> blank e" if "outbound_commit p w = (Inl e, w') \<or> outbound_health_check p w = (Inl e, w')" for p w e w'
    using that visible_not_blank outbound_commit_visible outbound_health_visible by blast
  ultimately show ?thesis by (simp add: speaks_def never_blank_def outboundRuntimeAdapter_def) blast
qed

lemma beside_speaks: "speaks c \<Longrightarrow> speaks (beside_outbounds c)"
  unfolding speaks_def never_blank_def beside_outbounds_def on_routing_def
  by (simp add: split_beta) (metis prod.collapse)

section \<open>Atomicity\<close>

lemma runtime_components:
  assumes "c \<in> set (createRuntimeComponents rhost ohost router policy True)"
  shows "runtime_adapter (expectedRoutingComponents router policy True) c"
  using assms by (auto simp: createRuntimeComponents_def runtime_adapter_def Let_def split: if_splits)

lemma runtime_components_speak:
  assumes "c \<in> set (createRuntimeComponents rhost ohost router policy outbound)"
    and "\<forall>cfg c e. oh_create ohost cfg c = Inl e \<longrightarrow> \<not> blank e"
  shows "speaks c"
  using assms(1) outbound_adapter_speaks [OF assms(2)] beside_speaks [OF routing_adapter_speaks]
  by (auto simp: createRuntimeComponents_def routing_adapter_def Let_def split: if_splits)

lemma runtime_components_distinct: "distinct (map rc_name (createRuntimeComponents rhost ohost router policy outbound))"
  by (simp add: createRuntimeComponents_def runtime_names Let_def) (simp add: routerRuntimeAdapter_def policyRuntimeAdapter_def)

text \<open>
  Property C4. A reload of outbounds is atomic, with whatever part of routing is reloaded beside them:
  when a transaction over the components the engine creates does not commit, and no rollback reported
  an error and no operation took effect after losing its race, both the generation pair that routes
  traffic and the generation of outbounds that carries it are the ones before the reload.
\<close>

theorem outbound_reload_atomic:
  assumes "initialExec env opts evs m w = Inr s0" "execute env opts s0 = (Inr False, s')"
    and "eo_components opts = createRuntimeComponents rhost ohost router policy True"
    and "eo_parse opts = None" "eo_validate opts = None" "no_late_effects env"
    and "registry_ok (owo_registry w)" "owo_prepared w = []"
    and "rr_transactions (rw_runtime (owo_routing w)) = []" "rw_prepared (owo_routing w) = []"
    and "\<forall>cfg c e. oh_create ohost cfg c = Inl e \<longrightarrow> \<not> blank e"
    and "\<forall>x \<in> set (componentErrors s'). ce_stage x \<noteq> FRollback"
  shows "rr_active (rw_runtime (owo_routing (world s'))) = rr_active (rw_runtime (owo_routing w)) \<and>
    obr_activeGenerationId (owo_registry (world s')) = obr_activeGenerationId (owo_registry w)"
proof -
  let ?tid = "eo_transactionId opts" and ?e = "expectedRoutingComponents router policy True"
  have "\<forall>c \<in> set (eo_components opts). runtime_adapter ?e c" using runtime_components assms(3) by metis
  then have "runtime_reload.usable ?e ?tid env opts"
    using assms(3-6) runtime_components_distinct [of rhost ohost router policy True]
    by (simp add: runtime_reload.usable_def inert_def)
  moreover have "ids_ok (owo_registry w)" using assms(7) by (auto simp: ids_ok_def registry_ok_def parts_ok_def record_ok_def)
  then have "runtime_armed ?tid ?e [] w"
    using assms(8-10) by (auto simp: armed_start runtime_start_def own_prepared_def own_outbounds_def none_switched_def fresh_txn_def
        expectedRoutingComponents_def Let_def)
  moreover have "runtime_reload.no_rollback_errors s'" using assms(12) by (simp add: runtime_reload.no_rollback_errors_def)
  moreover have "speaking opts" using assms(3-5) runtime_components_speak [OF _ assms(11)] by (simp add: speaking_def)
  ultimately have "runtime_view (world s') = runtime_view w"
    using runtime_reload.failure_leaves_no_trace [OF assms(1) _ _ assms(2)] by blast
  then show ?thesis by (simp add: runtime_view_def routing_view_def)
qed

section \<open>What is accepted\<close>

lemma createOutbounds_faithful:
  assumes "createOutbounds create cs made r = (None, made', r')" "distinct (map outbound_tag cs)"
    and "\<forall>c \<in> set cs. create c = Inr (outbound_tag c, config_type c)"
  shows "\<forall>c \<in> set cs. \<exists>k. jm_get made' (outbound_tag c) = Some k \<and> k < length (obr_objects r') \<and> ro_type (obr_objects r' ! k) = config_type c"
    and "\<forall>t. t \<notin> outbound_tag ` set cs \<longrightarrow> jm_get made' t = jm_get made t"
    and "\<exists>bs. obr_objects r' = obr_objects r @ bs"
proof -
  have "(\<forall>c \<in> set cs. \<exists>k. jm_get made' (outbound_tag c) = Some k \<and> k < length (obr_objects r') \<and> ro_type (obr_objects r' ! k) = config_type c) \<and>
      (\<forall>t. t \<notin> outbound_tag ` set cs \<longrightarrow> jm_get made' t = jm_get made t) \<and> (\<exists>bs. obr_objects r' = obr_objects r @ bs)"
    using assms
  proof (induction cs arbitrary: made r)
    case (Cons c cs)
    let ?n = "length (obr_objects r)"
    let ?r = "r\<lparr>obr_objects := obr_objects r @ [\<lparr>ro_tag = outbound_tag c, ro_type = config_type c, ro_stops = 0\<rparr>]\<rparr>"
    from Cons.prems have run: "createOutbounds create cs (jm_set (outbound_tag c) ?n made) ?r = (None, made', r')"
      and rest: "distinct (map outbound_tag cs)" "\<forall>c \<in> set cs. create c = Inr (outbound_tag c, config_type c)"
      and new: "outbound_tag c \<notin> outbound_tag ` set cs" by auto
    note ih = Cons.IH [OF run rest]
    from ih obtain bs where bs: "obr_objects r' = obr_objects ?r @ bs" by blast
    from ih new have "jm_get made' (outbound_tag c) = Some ?n" by simp
    moreover have "?n < length (obr_objects r') \<and> ro_type (obr_objects r' ! ?n) = config_type c" by (simp add: bs nth_append)
    ultimately show ?case using ih bs by auto
  qed simp
  then show "\<forall>c \<in> set cs. \<exists>k. jm_get made' (outbound_tag c) = Some k \<and> k < length (obr_objects r') \<and> ro_type (obr_objects r' ! k) = config_type c"
    "\<forall>t. t \<notin> outbound_tag ` set cs \<longrightarrow> jm_get made' t = jm_get made t" "\<exists>bs. obr_objects r' = obr_objects r @ bs" by blast+
qed

lemma checkEntries_ok:
  "(\<forall>e \<in> set es. oe_type e \<in> set ALLOWED_TYPES \<and> oe_riskLevel e = RiskLow \<and>
      (\<exists>k. jm_get obs (oe_tag e) = Some k \<and> ro_type (bs ! k) = oe_type e)) \<Longrightarrow> checkEntries obs bs es = Inr ()"
  by (induction es) auto

lemma jm_vals_of_list: "set (jm_vals (jm_of_list es)) \<subseteq> snd ` set es"
proof
  fix v
  assume "v \<in> set (jm_vals (jm_of_list es))"
  then obtain k where "(k, v) \<in> set (jm_of_list es)" by (auto simp: jm_vals_def)
  then have "jm_get (jm_of_list es) k = Some v" by (simp add: jm_in_get jm_ok_of_list)
  then have "map_of (rev es) k = Some v" by (simp add: jm_get_of_list)
  from map_of_SomeD [OF this] show "v \<in> snd ` set es" by force
qed

lemma built_generation:
  assumes "buildOutboundGeneration hs i current cs route ps health tags parent ex now = Inr b"
  shows "distinct (map outbound_tag cs)" "og_id (ob_generation b) = i"
    "og_registrySnapshot (ob_generation b) = jm_of_list (map (\<lambda>c. (outbound_tag c, createOutboundGenerationEntry (ohs_config hs) c)) cs)"
    "\<exists>diff. diffOutboundConfigs current cs (Some route) = Inr diff \<and>
       ob_validation b = validateOutboundGeneration cs (rtc_defaultOutbound route) (rtc_policies route) ps diff tags ex"
proof -
  from assms obtain diff g where diff: "diffOutboundConfigs current cs (Some route) = Inr diff"
    and g: "newOutboundGeneration hs i cs (rtc_defaultOutbound route) (rtc_policies route) health OCandidate parent now = Inr g"
    and b: "b = \<lparr>ob_generation = g, ob_diff = diff,
      ob_validation = validateOutboundGeneration cs (rtc_defaultOutbound route) (rtc_policies route) ps diff tags ex\<rparr>"
    by (auto simp: buildOutboundGeneration_def rbind_Inr_iff Let_def)
  from g show "distinct (map outbound_tag cs)"
    using newOutboundGeneration_fails [of hs i cs "rtc_defaultOutbound route" "rtc_policies route" health OCandidate parent now] by auto
  from g show "og_id (ob_generation b) = i"
    "og_registrySnapshot (ob_generation b) = jm_of_list (map (\<lambda>c. (outbound_tag c, createOutboundGenerationEntry (ohs_config hs) c)) cs)"
    by (auto simp: b newOutboundGeneration_def rbind_Inr_iff Let_def comp_def createOutboundGenerationEntry_def)
  show "\<exists>diff. diffOutboundConfigs current cs (Some route) = Inr diff \<and>
       ob_validation b = validateOutboundGeneration cs (rtc_defaultOutbound route) (rtc_policies route) ps diff tags ex"
    using diff b by simp
qed

lemma accepted_build:
  assumes "rejectBuilt b = None"
  shows "ov_errors (ob_validation b) = []" "ov_unsupportedChanges (ob_validation b) = []"
    "rsk_highest (ov_riskSummary (ob_validation b)) = Some RiskLow"
  using assms by (auto simp: rejectBuilt_def Let_def split: if_splits)

lemma outbound_prepare_Inr:
  assumes "outbound_prepare host expected cfg ctx w = (Inr p, w')"
  obtains old b made r1 ps tags where "p = \<lparr>pc_component = COutboundRegistry, pc_ref = length (owo_prepared w)\<rparr>"
    "buildOutboundGeneration (oh_hashes host) (oc_candidateGenerationId ctx @ ''-outbound'') (oh_currentOutbounds host)
       (oh_outbounds host cfg) (oh_route host cfg) ps (routingHealth (owo_routing w)) tags (Some old) False (oh_now host) = Inr b"
    "rejectBuilt b = None" "createOutbounds (oh_create host cfg) (oh_outbounds host cfg) [] (owo_registry w) = (None, made, r1)"
    "owo_registry w' = r1" "length (owo_prepared w') = Suc (length (owo_prepared w))"
    "opv_candidateOutbounds (owo_prepared w' ! length (owo_prepared w)) = made"
    "opv_candidateGeneration (owo_prepared w' ! length (owo_prepared w)) = ob_generation b"
  using assms unfolding outbound_prepare_def Let_def
  by (auto simp: rbind_Inr_iff nth_append split: sum.splits option.splits prod.splits)

text \<open>
  Property C6. What the adapter prepares is sound: every outbound of an accepted candidate is direct,
  block or a relay to a valid host and port, tags are not blank and not repeated, the default and every
  policy name outbounds or policies that exist, and no outbound changes the type its tag has now;
  traffic still uses the old generation; and when the factories build what they are asked for, the
  candidate passes the health check.
\<close>

theorem outbound_prepare_sound:
  assumes "outbound_prepare host expected cfg ctx w = (Inr p, w')" "distinct (map outbound_tag (oh_currentOutbounds host))"
  shows "(\<forall>c \<in> set (oh_outbounds host cfg). config_type c \<in> {''direct'', ''block'', ''tcpRelay''} \<and> js_trim (outbound_tag c) \<noteq> [] \<and>
      (\<forall>h n. otc_kind c = TcpRelayOutbound h n \<longrightarrow> js_trim h \<noteq> [] \<and> \<not> list_ex is_space h \<and> 1 \<le> n \<and> n \<le> 65535) \<and>
      (\<forall>q \<in> set (oh_currentOutbounds host). outbound_tag q = outbound_tag c \<longrightarrow> config_type q = config_type c)) \<and>
    distinct (map outbound_tag (oh_outbounds host cfg)) \<and>
    rtc_defaultOutbound (oh_route host cfg) \<in> outbound_tag ` set (oh_outbounds host cfg) \<union> rp_tag ` set (rtc_policies (oh_route host cfg)) \<and>
    (\<forall>q \<in> set (rtc_policies (oh_route host cfg)). set (rp_outbounds q) \<subseteq> outbound_tag ` set (oh_outbounds host cfg)) \<and>
    obr_activeGenerationId (owo_registry w') = obr_activeGenerationId (owo_registry w) \<and>
    obr_records (owo_registry w') = obr_records (owo_registry w) \<and>
    ((\<forall>c \<in> set (oh_outbounds host cfg). oh_create host cfg c = Inr (outbound_tag c, config_type c)) \<longrightarrow>
      outbound_health_check p w' = (Inr (), w'))"
proof -
  let ?cs = "oh_outbounds host cfg"
  obtain old b made r1 ps tags where p: "p = \<lparr>pc_component = COutboundRegistry, pc_ref = length (owo_prepared w)\<rparr>"
    and build: "buildOutboundGeneration (oh_hashes host) (oc_candidateGenerationId ctx @ ''-outbound'') (oh_currentOutbounds host)
       ?cs (oh_route host cfg) ps (routingHealth (owo_routing w)) tags (Some old) False (oh_now host) = Inr b"
    and ok: "rejectBuilt b = None" and made: "createOutbounds (oh_create host cfg) ?cs [] (owo_registry w) = (None, made, r1)"
    and w': "owo_registry w' = r1" "length (owo_prepared w') = Suc (length (owo_prepared w))"
      "opv_candidateOutbounds (owo_prepared w' ! length (owo_prepared w)) = made"
      "opv_candidateGeneration (owo_prepared w' ! length (owo_prepared w)) = ob_generation b"
    by (rule outbound_prepare_Inr [OF assms(1)])
  note built = built_generation [OF build]
  note accepted = accepted_build [OF ok]
  from built(4) obtain diff where diff: "diffOutboundConfigs (oh_currentOutbounds host) ?cs (Some (oh_route host cfg)) = Inr diff"
    and val: "ob_validation b = validateOutboundGeneration ?cs (rtc_defaultOutbound (oh_route host cfg)) (rtc_policies (oh_route host cfg)) ps diff tags False"
    by blast
  note clean = candidate_clean [OF accepted(1) [unfolded val]]
  have types: "config_type c \<in> {''direct'', ''block'', ''tcpRelay''}" if "c \<in> set ?cs" for c
    using risk_low [OF accepted(3) [unfolded val candidate_risk] that] .
  have relay: "js_trim h \<noteq> [] \<and> \<not> list_ex is_space h \<and> 1 \<le> n \<and> n \<le> 65535" if "c \<in> set ?cs" "otc_kind c = TcpRelayOutbound h n" for c h n
  proof -
    from clean(1) that have "validateHostPort (outbound_tag c) h n ''TCP relay'' = []" by (force simp: validateFields_def Let_def)
    then show ?thesis unfolding validateHostPort_clean .
  qed
  have same: "config_type q = config_type c" if "c \<in> set ?cs" "q \<in> set (oh_currentOutbounds host)" "outbound_tag q = outbound_tag c" for c q
    by (rule typeChanged_Nil [OF candidate_types [OF accepted(2) [unfolded val]] diff that assms(2)])
  have health: "outbound_health_check p w' = (Inr (), w')"
    if "\<forall>c \<in> set ?cs. oh_create host cfg c = Inr (outbound_tag c, config_type c)"
  proof -
    note objects = createOutbounds_faithful(1) [OF made built(1) that]
    have "checkEntries made (obr_objects r1) (jm_vals (og_registrySnapshot (ob_generation b))) = Inr ()"
    proof (rule checkEntries_ok, rule ballI)
      fix e
      assume "e \<in> set (jm_vals (og_registrySnapshot (ob_generation b)))"
      with jm_vals_of_list obtain c where c: "c \<in> set ?cs" "e = createOutboundGenerationEntry (ohs_config (oh_hashes host)) c"
        unfolding built(3) by fastforce
      with types [OF c(1)] have "oe_type e \<in> set ALLOWED_TYPES \<and> oe_riskLevel e = RiskLow"
        by (auto simp: createOutboundGenerationEntry_def ALLOWED_TYPES_def riskLevelFor_def)
      moreover from objects c have "\<exists>k. jm_get made (oe_tag e) = Some k \<and> ro_type (obr_objects r1 ! k) = oe_type e"
        by (fastforce simp: createOutboundGenerationEntry_def)
      ultimately show "oe_type e \<in> set ALLOWED_TYPES \<and> oe_riskLevel e = RiskLow \<and>
          (\<exists>k. jm_get made (oe_tag e) = Some k \<and> ro_type (obr_objects r1 ! k) = oe_type e)" by blast
    qed
    with w' show ?thesis by (simp add: outbound_health_check_def with_outbound_def p)
  qed
  have kept: "obr_activeGenerationId r1 = obr_activeGenerationId (owo_registry w)" "obr_records r1 = obr_records (owo_registry w)"
    using createOutbounds_keeps [OF made] by simp_all
  show ?thesis
    using clean types relay same built(1) health kept unfolding w'(1) by blast
qed

section \<open>Where a rollback can fail\<close>

lemma commit_Inr:
  assumes "registry_ok (owo_registry w)" "pc_ref p < length (owo_prepared w)" "outbound_commit p w = (Inr (), w1)"
  defines "v \<equiv> owo_prepared w ! pc_ref p" and "r \<equiv> owo_registry w"
  obtains old where "jm_get (obr_records r) (obr_activeGenerationId r) = Some old" "jm_get (obr_records r) (og_id (opv_candidateGeneration v)) = None"
    "owo_registry w1 = r\<lparr>obr_records := jm_set (og_id (opv_candidateGeneration v))
          \<lparr>rec_generation = opv_candidateGeneration v, rec_usage = 0, rec_sequence = rec_sequence old + 1,
           rec_outbounds = opv_candidateOutbounds v, rec_referencesByTag = [], rec_draining = False\<rparr>
          (jm_set (obr_activeGenerationId r) (old\<lparr>rec_draining := True\<rparr>) (obr_records r)),
        obr_activeGenerationId := og_id (opv_candidateGeneration v)\<rparr>"
    "owo_prepared w1 = (owo_prepared w)[pc_ref p := v\<lparr>opv_switched := True, opv_committed := True\<rparr>]"
proof -
  obtain sr r1 where sw: "switchGeneration (opv_candidateGeneration v) (opv_candidateOutbounds v) r = (sr, r1)" by fastforce
  from assms(2,3) sw obtain i where i: "sr = Inr i" by (cases sr) (auto simp: outbound_commit_def with_outbound_def v_def r_def)
  from assms(2,3) sw i have w1: "owo_registry w1 = r1" "owo_prepared w1 = (owo_prepared w)[pc_ref p := v\<lparr>opv_switched := True, opv_committed := True\<rparr>]"
    by (auto simp: outbound_commit_def with_outbound_def set_prepared_def v_def r_def Let_def split: prod.splits sum.splits)
  from assms(1) have "registry_ok r" by (simp add: r_def)
  from switch_cases [OF this, of "opv_candidateGeneration v" "opv_candidateOutbounds v"] sw i obtain old where
    old: "jm_get (obr_records r) (og_id (opv_candidateGeneration v)) = None" "jm_get (obr_records r) (obr_activeGenerationId r) = Some old"
    and res: "switchGeneration (opv_candidateGeneration v) (opv_candidateOutbounds v) r = (Inr (obr_activeGenerationId r),
        r\<lparr>obr_records := jm_set (og_id (opv_candidateGeneration v))
          \<lparr>rec_generation = opv_candidateGeneration v, rec_usage = 0, rec_sequence = rec_sequence old + 1,
           rec_outbounds = opv_candidateOutbounds v, rec_referencesByTag = [], rec_draining = False\<rparr>
          (jm_set (obr_activeGenerationId r) (old\<lparr>rec_draining := True\<rparr>) (obr_records r)),
        obr_activeGenerationId := og_id (opv_candidateGeneration v)\<rparr>)"
    by auto
  from res sw have "r1 = r\<lparr>obr_records := jm_set (og_id (opv_candidateGeneration v))
          \<lparr>rec_generation = opv_candidateGeneration v, rec_usage = 0, rec_sequence = rec_sequence old + 1,
           rec_outbounds = opv_candidateOutbounds v, rec_referencesByTag = [], rec_draining = False\<rparr>
          (jm_set (obr_activeGenerationId r) (old\<lparr>rec_draining := True\<rparr>) (obr_records r)),
        obr_activeGenerationId := og_id (opv_candidateGeneration v)\<rparr>" by (simp only: prod.inject)
  with w1 show thesis by (intro that [OF old(2,1)]) simp_all
qed

lemma retire_last:
  "jm_get (obr_records r) i = Some x \<Longrightarrow> i \<noteq> obr_activeGenerationId r \<Longrightarrow> rec_usage x = 0 \<Longrightarrow>
     obr_records (snd (retireIfUnused i r)) = jm_del i (obr_records r)"
  by (simp add: retireIfUnused_def)

text \<open>
  Property C8. Rolling outbounds back depends on who holds references. When the last connection over
  the old generation ends between commit and rollback, the generation is retired at once, so the
  rollback throws and the candidate stays active. And when a connection was opened over the candidate,
  its record outlives rollback and cleanup, so the next attempt to reload, whose candidate has the
  same identifier because the reload did not succeed, is refused.
\<close>

theorem outbound_rollback_race:
  assumes "registry_ok (owo_registry w)" "pc_ref p < length (owo_prepared w)" "outbound_commit p w = (Inr (), w1)"
    and "opv_oldGenerationId (owo_prepared w ! pc_ref p) = obr_activeGenerationId (owo_registry w)"
    and "\<not> opv_participates (owo_prepared w ! pc_ref p)" "\<not> opv_disposed (owo_prepared w ! pc_ref p)"
  defines "old \<equiv> obr_activeGenerationId (owo_registry w)"
    and "candidate \<equiv> og_id (opv_candidateGeneration (owo_prepared w ! pc_ref p))"
  shows "fst (outbound_rollback p w1) = Inr () \<and> obr_activeGenerationId (owo_registry (snd (outbound_rollback p w1))) = old \<and>
    (\<forall>k w2. k < length (obr_references (owo_registry w)) \<and> \<not> orf_released (obr_references (owo_registry w) ! k) \<and>
        orf_generationId (obr_references (owo_registry w) ! k) = old \<and> live_refs (obr_references (owo_registry w)) old = 1 \<and>
        w2 = on_registry (releaseOutboundRef k) w1 \<longrightarrow>
      fst (outbound_rollback p w2) = Inl (unavailable old) \<and>
      obr_activeGenerationId (owo_registry (snd (outbound_rollback p w2))) = candidate \<and> candidate \<noteq> old) \<and>
    (\<forall>t b w2 g obs. jm_get (opv_candidateOutbounds (owo_prepared w ! pc_ref p)) t = Some b \<and>
        w2 = snd (outbound_cleanup p (snd (outbound_rollback p (on_registry (\<lambda>r. snd (acquireOutboundRef t candidate r)) w1)))) \<and>
        og_id g = candidate \<longrightarrow>
      fst (switchGeneration g obs (owo_registry w2)) =
        Inl (PlainError (''outbound runtime generation '' @ quoted candidate @ '' already exists'')))"
proof -
  let ?r = "owo_registry w" and ?v = "owo_prepared w ! pc_ref p"
  obtain x where x: "jm_get (obr_records ?r) old = Some x" and new: "jm_get (obr_records ?r) candidate = None"
    and w1: "owo_registry w1 = ?r\<lparr>obr_records := jm_set candidate
          \<lparr>rec_generation = opv_candidateGeneration ?v, rec_usage = 0, rec_sequence = rec_sequence x + 1,
           rec_outbounds = opv_candidateOutbounds ?v, rec_referencesByTag = [], rec_draining = False\<rparr>
          (jm_set old (x\<lparr>rec_draining := True\<rparr>) (obr_records ?r)), obr_activeGenerationId := candidate\<rparr>"
      "owo_prepared w1 = (owo_prepared w)[pc_ref p := ?v\<lparr>opv_switched := True, opv_committed := True\<rparr>]"
    using commit_Inr [OF assms(1-3)] unfolding old_def candidate_def by metis
  have differ: "candidate \<noteq> old" using x new by auto
  have p1: "owo_prepared w1 ! pc_ref p = ?v\<lparr>opv_switched := True, opv_committed := True\<rparr>" "pc_ref p < length (owo_prepared w1)"
    using assms(2) w1(2) by simp_all
  have restored: "fst (outbound_rollback p w1) = Inr () \<and> obr_activeGenerationId (owo_registry (snd (outbound_rollback p w1))) = old"
    using p1 assms(4,5) x differ unfolding old_def [symmetric]
    by (simp add: outbound_rollback_def with_outbound_def set_prepared_def restoreGeneration_def w1(1) candidate_def [symmetric] Let_def)
  have race: "fst (outbound_rollback p w2) = Inl (unavailable old) \<and>
      obr_activeGenerationId (owo_registry (snd (outbound_rollback p w2))) = candidate"
    if k: "k < length (obr_references ?r)" "\<not> orf_released (obr_references ?r ! k)" "orf_generationId (obr_references ?r ! k) = old"
      "live_refs (obr_references ?r) old = 1" and w2: "w2 = on_registry (releaseOutboundRef k) w1" for k w2
  proof -
    have refs: "obr_references (owo_registry w1) = obr_references ?r" by (simp add: w1(1))
    have "record_ok (obr_references ?r) (obr_objects ?r) old x" using assms(1) x by (auto simp: registry_ok_def parts_ok_def)
    then have one: "rec_usage x = 1" using k(4) by (simp add: record_ok_def)
    let ?g = "given_back k (owo_registry w1)"
    have g: "jm_get (obr_records ?g) old = Some (drop_reference (orf_tag (obr_references ?r ! k)) (x\<lparr>rec_draining := True\<rparr>))"
      "obr_activeGenerationId ?g = candidate" using k(3) differ by (simp_all add: given_back_def w1(1) Let_def)
    have "releaseOutboundRef k (owo_registry w1) = snd (retireIfUnused old ?g)"
      using release_given_back [of "owo_registry w1" k] k(2,3) by (simp add: refs)
    moreover have "obr_records (snd (retireIfUnused old ?g)) = jm_del old (obr_records ?g)"
      by (rule retire_last [OF g(1)]) (use differ g(2) one in \<open>simp_all add: drop_reference_def Let_def\<close>)
    ultimately have gone: "jm_get (obr_records (owo_registry w2)) old = None" "obr_activeGenerationId (owo_registry w2) = candidate"
      using g(2) by (simp_all add: w2 on_registry_def retire_keeps)
    have "owo_prepared w2 = owo_prepared w1" by (simp add: w2 on_registry_def)
    with p1 gone assms(4) show ?thesis unfolding old_def [symmetric]
      by (simp add: outbound_rollback_def with_outbound_def restoreGeneration_def Let_def)
  qed
  have retry: "fst (switchGeneration g obs (owo_registry w2)) =
        Inl (PlainError (''outbound runtime generation '' @ quoted candidate @ '' already exists''))"
    if t: "jm_get (opv_candidateOutbounds ?v) t = Some b" and g: "og_id g = candidate"
      and w2: "w2 = snd (outbound_cleanup p (snd (outbound_rollback p (on_registry (\<lambda>r. snd (acquireOutboundRef t candidate r)) w1))))" for t b w2 g obs
  proof -
    let ?wa = "on_registry (\<lambda>r. snd (acquireOutboundRef t candidate r)) w1"
    have ra: "\<exists>y. jm_get (obr_records (owo_registry ?wa)) candidate = Some y \<and> rec_usage y = 1 \<and> og_id (rec_generation y) = candidate"
      "jm_get (obr_records (owo_registry ?wa)) old = Some (x\<lparr>rec_draining := True\<rparr>)" "owo_prepared ?wa = owo_prepared w1"
      using t differ by (simp_all add: on_registry_def acquireOutboundRef_def w1(1) candidate_def [symmetric] Let_def)
    let ?wb = "snd (outbound_rollback p ?wa)"
    have rb: "\<exists>y. jm_get (obr_records (owo_registry ?wb)) candidate = Some y \<and> rec_usage y = 1 \<and> og_id (rec_generation y) = candidate"
      "\<exists>y. jm_get (obr_records (owo_registry ?wb)) old = Some y" "obr_activeGenerationId (owo_registry ?wb) = old"
      "owo_prepared ?wb ! pc_ref p = ?v\<lparr>opv_switched := False, opv_committed := False\<rparr>" "pc_ref p < length (owo_prepared ?wb)"
      using ra p1 assms(4,5) differ unfolding old_def [symmetric]
      by (auto simp: outbound_rollback_def with_outbound_def set_prepared_def restoreGeneration_def candidate_def [symmetric] Let_def)
    from rb(1) obtain y where y: "jm_get (obr_records (owo_registry ?wb)) candidate = Some y" "rec_usage y = 1" "og_id (rec_generation y) = candidate"
      by blast
    from rb(2,3) obtain s where s: "registrySnapshot (owo_registry ?wb) = Inr s"
      "rss_generations s = map snapshotGeneration (sort_key rec_sequence (jm_vals (obr_records (owo_registry ?wb))))"
      by (auto simp: registrySnapshot_def requireRecord_def Let_def)
    have "y \<in> set (jm_vals (obr_records (owo_registry ?wb)))" using jm_get_Some_in [OF y(1)] by (force simp: jm_vals_def)
    then have listed: "list_ex (\<lambda>g. rgs_id g = candidate) (rss_generations s)"
      unfolding s(2) list_ex_iff by (auto simp: snapshotGeneration_def y(3) intro!: bexI [of _ y])
    have "owo_registry w2 = snd (retireIfUnused candidate (owo_registry ?wb))"
      using w2 rb(4,5) assms(6) s(1) listed
      by (simp add: outbound_cleanup_def with_outbound_def set_prepared_def candidate_def [symmetric] Let_def)
    also have "\<dots> = owo_registry ?wb" using y(1,2) by (simp add: retireIfUnused_def)
    finally have "jm_has (obr_records (owo_registry w2)) candidate" using y(1) by (simp add: jm_has_get)
    then show ?thesis by (simp add: switchGeneration_def g)
  qed
  show ?thesis using restored race retry differ by blast
qed

end
