(* ===== verification/OutboundWitness.thy ===== *)
theory OutboundWitness
  imports OutboundReloadProofs
begin

text \<open>
  Concrete reloads of outbounds: a candidate that is accepted, one whose factory builds the wrong
  outbound, so that the health check fails, a rollback beside a connection, and a candidate whose
  outbounds are stopped twice.
\<close>

section \<open>An accepted candidate\<close>

definition directRoute :: route_config where
  "directRoute = \<lparr>rtc_defaultOutbound = ''d'', rtc_rules = [], rtc_ruleSetFiles = [], rtc_policies = []\<rparr>"

definition directHost :: "string \<Rightarrow> unit outbound_host" where
  "directHost built = \<lparr>oh_route = (\<lambda>c. directRoute), oh_outbounds = (\<lambda>c. [sample_outbound ''d'' DirectOutbound]),
     oh_currentOutbounds = [sample_outbound ''d'' DirectOutbound], oh_hashes = outboundHashes,
     oh_create = (\<lambda>c o1. Inr (outbound_tag o1, built)), oh_now = 0\<rparr>"

definition directWorld :: outbound_world where
  "directWorld = \<lparr>owo_registry = directRegistry, owo_routing = sampleWorld, owo_prepared = []\<rparr>"

definition directCandidate :: "string \<Rightarrow> outbound_generation" where
  "directCandidate i =
     (case newOutboundGeneration outboundHashes (i @ ''-outbound'') [sample_outbound ''d'' DirectOutbound] ''d'' []
        (routingHealth sampleWorld) OCandidate (Some ''o0'') 0 of Inr g \<Rightarrow> g)"

definition directPrepared :: "string \<Rightarrow> string \<Rightarrow> outbound_prepared" where
  "directPrepared i tid = \<lparr>opv_oldGenerationId = ''o0'', opv_candidateGeneration = directCandidate i,
     opv_candidateOutbounds = [(''d'', 1)], opv_transactionId = tid, opv_participates = False, opv_validationWarnings = [],
     opv_switched = False, opv_committed = False, opv_disposed = False\<rparr>"

definition directStaged :: "string \<Rightarrow> string \<Rightarrow> string \<Rightarrow> outbound_world" where
  "directStaged i tid built =
     \<lparr>owo_registry = directRegistry\<lparr>obr_objects := [\<lparr>ro_tag = ''d'', ro_type = ''direct'', ro_stops = 0\<rparr>,
          \<lparr>ro_tag = ''d'', ro_type = built, ro_stops = 0\<rparr>]\<rparr>,
      owo_routing = sampleWorld, owo_prepared = [directPrepared i tid]\<rparr>"

lemma direct_diff:
  "\<exists>diff. diffOutboundConfigs [sample_outbound ''d'' DirectOutbound] [sample_outbound ''d'' DirectOutbound] (Some directRoute) = Inr diff \<and>
     od_removed diff = [] \<and> od_typeChanged diff = [] \<and> od_secretChanged diff = []"
  by (simp add: diffOutboundConfigs_def policyReferences_def route_references_def directRoute_def sample_outbound_def add_reference_def
      prototype_members_def not_in_def by_tag_def changed_pairs_def jm_of_list_def jm_has_get differing_def Let_def)

lemma direct_validation:
  assumes "od_removed diff = []" "od_typeChanged diff = []" "od_secretChanged diff = []"
  shows "ov_errors (validateOutboundGeneration [sample_outbound ''d'' DirectOutbound] ''d'' [] ps diff tags False) = []"
    "ov_warnings (validateOutboundGeneration [sample_outbound ''d'' DirectOutbound] ''d'' [] ps diff tags False) = []"
    "ov_unsupportedChanges (validateOutboundGeneration [sample_outbound ''d'' DirectOutbound] ''d'' [] ps diff tags False) = []"
    "rsk_highest (ov_riskSummary (validateOutboundGeneration [sample_outbound ''d'' DirectOutbound] ''d'' [] ps diff tags False)) = Some RiskLow"
  by (simp_all add: assms validateOutboundGeneration_def validateTag_def validateType_def validateFields_def validateAllowedKeys_def
      SUPPORTED_TYPES_def isExperimentalType_def validateOutboundPolicies_def summarizeRisk_def riskLevelFor_def sample_outbound_def
      outbound_object_def opt_key_def js_trim_def is_space_def char_code_def remdups_first_def Let_def)

lemma direct_registry:
  "getActiveGeneration directRegistry = Inr (directGeneration ''o0'')" "activeReferenceTags directRegistry (obr_activeGenerationId directRegistry) = Inr []"
  "og_id (directGeneration ''o0'') = ''o0''" "pb_policies (og_policyBinding (directGeneration ''o0'')) = []"
  by (simp_all add: directRegistry_def registry_eval getActiveGeneration_def activeReferenceTags_def requireRecord_def rbind_def jm_keys_def)

lemma direct_candidate:
  "newOutboundGeneration outboundHashes (i @ ''-outbound'') [sample_outbound ''d'' DirectOutbound] ''d'' []
     (routingHealth sampleWorld) OCandidate (Some ''o0'') 0 = Inr (directCandidate i)"
  "jm_vals (og_registrySnapshot (directCandidate i)) = [createOutboundGenerationEntry (\<lambda>j. ''c'') (sample_outbound ''d'' DirectOutbound)]"
  "og_id (directCandidate i) = i @ ''-outbound''" "og_outboundTags (directCandidate i) = [''d'']"
  by (simp_all add: directCandidate_def newOutboundGeneration_def outboundHashes_def createOutboundGenerationEntry_def sample_outbound_def
      jm_of_list_def jm_vals_def Let_def)

lemma direct_entry:
  "oe_type (createOutboundGenerationEntry h (sample_outbound ''d'' DirectOutbound)) = ''direct''"
  "oe_tag (createOutboundGenerationEntry h (sample_outbound ''d'' DirectOutbound)) = ''d''"
  "oe_riskLevel (createOutboundGenerationEntry h (sample_outbound ''d'' DirectOutbound)) = RiskLow"
  by (simp_all add: createOutboundGenerationEntry_def sample_outbound_def riskLevelFor_def)

lemma direct_prepare:
  "outbound_prepare (directHost built) [] () ctx directWorld =
     (Inr \<lparr>pc_component = COutboundRegistry, pc_ref = 0\<rparr>, directStaged (oc_candidateGenerationId ctx) (oc_transactionId ctx) built)"
proof -
  obtain diff where diff: "diffOutboundConfigs [sample_outbound ''d'' DirectOutbound] [sample_outbound ''d'' DirectOutbound] (Some directRoute) = Inr diff"
    and plain: "od_removed diff = []" "od_typeChanged diff = []" "od_secretChanged diff = []" using direct_diff by blast
  have route: "rtc_defaultOutbound directRoute = ''d''" "rtc_policies directRoute = []" by (simp_all add: directRoute_def)
  let ?i = "oc_candidateGenerationId ctx"
  let ?val = "validateOutboundGeneration [sample_outbound ''d'' DirectOutbound] ''d'' [] [] diff [] False"
  note val = direct_validation [OF plain, of "[]" "[]"]
  have build: "buildOutboundGeneration outboundHashes (?i @ ''-outbound'') [sample_outbound ''d'' DirectOutbound]
      [sample_outbound ''d'' DirectOutbound] directRoute [] (routingHealth sampleWorld) [] (Some ''o0'') False 0 =
      Inr \<lparr>ob_generation = directCandidate ?i, ob_diff = diff, ob_validation = ?val\<rparr>"
    by (simp add: buildOutboundGeneration_def diff direct_candidate(1) route rbind_def)
  have ok: "rejectBuilt \<lparr>ob_generation = directCandidate ?i, ob_diff = diff, ob_validation = ?val\<rparr> = None"
    by (simp add: rejectBuilt_def val direct_candidate direct_entry ALLOWED_TYPES_def)
  have objects: "obr_objects directRegistry = [\<lparr>ro_tag = ''d'', ro_type = ''direct'', ro_stops = 0\<rparr>]"
    by (simp add: directRegistry_def registry_eval)
  have tag: "outbound_tag (sample_outbound ''d'' DirectOutbound) = ''d''" by (simp add: sample_outbound_def)
  show ?thesis
    by (simp add: outbound_prepare_def directHost_def directWorld_def direct_registry rbind_def build ok directStaged_def directPrepared_def
        objects tag val Let_def)
qed

definition sampleContext :: op_context where
  "sampleContext = \<lparr>oc_transactionId = ''t1'', oc_oldGenerationId = ''g0'', oc_candidateGenerationId = ''g1'', oc_deadline = 1000,
     oc_abortable = True\<rparr>"

lemma outbound_prepare_sound_witness:
  "\<exists>p w'. outbound_prepare (directHost ''direct'') [] () sampleContext directWorld = (Inr p, w') \<and>
     obr_activeGenerationId (owo_registry w') = ''o0'' \<and> outbound_health_check p w' = (Inr (), w')"
proof -
  have active: "obr_activeGenerationId (owo_registry directWorld) = ''o0''"
    by (simp add: directWorld_def directRegistry_def registry_eval)
  have host: "oh_currentOutbounds (directHost ''direct'') = [sample_outbound ''d'' DirectOutbound]"
    "oh_outbounds (directHost ''direct'') () = [sample_outbound ''d'' DirectOutbound]"
    "oh_create (directHost ''direct'') () (sample_outbound ''d'' DirectOutbound) = Inr (''d'', ''direct'')"
    by (simp_all add: directHost_def sample_outbound_def)
  have "distinct (map outbound_tag (oh_currentOutbounds (directHost ''direct'')))" by (simp add: host)
  from outbound_prepare_sound [OF direct_prepare [of "''direct''" sampleContext] this] show ?thesis
    by (simp add: direct_prepare active host) (simp add: sample_outbound_def)
qed

section \<open>A reload that fails its health check\<close>

abbreviation direct_part :: prepared_component where
  "direct_part \<equiv> \<lparr>pc_component = COutboundRegistry, pc_ref = 0\<rparr>"

lemma direct_steps:
  "outbound_health_check direct_part (directStaged i tid ''block'') =
     (Inl (ConfigError (''M11 candidate factory unavailable for '' @ quoted ''d'')), directStaged i tid ''block'')"
  "outbound_rollback direct_part (directStaged i tid ''block'') = (Inr (), directStaged i tid ''block'')"
  by (simp_all add: outbound_health_check_def outbound_rollback_def with_outbound_def set_prepared_def directStaged_def directPrepared_def
      direct_candidate direct_entry ALLOWED_TYPES_def)

lemma direct_cleanup: "fst (outbound_cleanup direct_part (directStaged i tid ''block'')) = Inr ()"
  by (simp add: outbound_cleanup_def with_outbound_def directStaged_def directPrepared_def registrySnapshot_def requireRecord_def
      directRegistry_def registry_eval)

definition directRouting :: "unit routing_host" where
  "directRouting = \<lparr>host_route = (\<lambda>c. sampleRoute), host_outboundTags = (\<lambda>c. [''a'']), host_routerHash = (\<lambda>c. ''r''),
     host_policyHash = (\<lambda>p. ''p''), host_now = 0, host_random = 0\<rparr>"

definition directReload :: "(unit, outbound_world, prepared_component) exec_options" where
  "directReload = testOptions (createRuntimeComponents directRouting (directHost ''block'') False False True) ()"

lemma directReload_components:
  "eo_components directReload = [outboundRuntimeAdapter (directHost ''block'') []]"
  by (simp add: directReload_def testOptions_def createRuntimeComponents_def expectedRoutingComponents_def)

lemma directReload_run:
  "\<exists>s'. execute sampleEnv directReload (testStart directReload directWorld) = (Inr False, s')
     \<and> (\<forall>x \<in> set (componentErrors s'). ce_stage x \<noteq> FRollback)"
proof -
  obtain w' where cleanup: "outbound_cleanup direct_part (directStaged ''g1'' ''t1'' ''block'') = (Inr (), w')"
    using direct_cleanup [of "''g1''" "''t1''"] by (metis prod.collapse)
  show ?thesis
    by (simp add: exec_eval start_eval directReload_def createRuntimeComponents_def expectedRoutingComponents_def
        outboundRuntimeAdapter_def direct_prepare direct_steps cleanup)
qed

lemma outbound_reload_atomic_witness:
  "\<exists>s'. execute sampleEnv directReload (testStart directReload directWorld) = (Inr False, s') \<and>
     obr_activeGenerationId (owo_registry (world s')) = obr_activeGenerationId (owo_registry directWorld)"
proof -
  from directReload_run obtain s' where
    run: "execute sampleEnv directReload (testStart directReload directWorld) = (Inr False, s')"
    and ok: "\<forall>x \<in> set (componentErrors s'). ce_stage x \<noteq> FRollback" by (elim exE conjE)
  have start: "initialExec sampleEnv directReload [] (newReloadMetrics ''g0'') directWorld = Inr (testStart directReload directWorld)"
    by (simp add: directReload_def testStart_ok)
  have late: "no_late_effects sampleEnv" by (simp add: no_late_effects_def sampleEnv_def)
  have comps: "eo_components directReload = createRuntimeComponents directRouting (directHost ''block'') False False True"
    "eo_parse directReload = None" "eo_validate directReload = None" by (simp_all add: directReload_def testOptions_def)
  have registry: "registry_ok (owo_registry directWorld)" using initial_ok [OF directRegistry_new] by (simp add: directWorld_def)
  have empty: "owo_prepared directWorld = []" "rw_prepared (owo_routing directWorld) = []"
    "rr_transactions (rw_runtime (owo_routing directWorld)) = []"
    by (simp_all add: directWorld_def sampleWorld_def routing_eval)
  have create: "\<forall>cfg c e. oh_create (directHost ''block'') cfg c = Inl e \<longrightarrow> \<not> blank e" by (simp add: directHost_def)
  from outbound_reload_atomic [OF start run comps late registry empty(1,3,2) create ok] run show ?thesis by blast
qed

section \<open>A rollback beside a connection\<close>

definition busyRegistry :: outbound_registry where
  "busyRegistry = fold registry_step [Acquire ''d'' ''o0'', CreateOutbound ''d'' ''direct''] directRegistry"

definition busyWorld :: outbound_world where
  "busyWorld = \<lparr>owo_registry = busyRegistry, owo_routing = sampleWorld, owo_prepared = [directPrepared ''g1'' ''t1'']\<rparr>"

lemma outbound_rollback_race_witness:
  "\<exists>w1. outbound_commit direct_part busyWorld = (Inr (), w1) \<and>
     fst (outbound_rollback direct_part w1) = Inr () \<and>
     fst (outbound_rollback direct_part (on_registry (releaseOutboundRef 0) w1)) = Inl (unavailable ''o0'') \<and>
     obr_activeGenerationId (owo_registry (snd (outbound_rollback direct_part (on_registry (releaseOutboundRef 0) w1)))) = ''g1-outbound''"
proof -
  have ok: "registry_ok (owo_registry busyWorld)"
    unfolding busyWorld_def busyRegistry_def outbound_world.simps
    by (simp add: acquire_ok create_ok initial_ok [OF directRegistry_new])
  have part: "pc_ref direct_part < length (owo_prepared busyWorld)"
    "opv_oldGenerationId (owo_prepared busyWorld ! pc_ref direct_part) = obr_activeGenerationId (owo_registry busyWorld)"
    "\<not> opv_participates (owo_prepared busyWorld ! pc_ref direct_part)" "\<not> opv_disposed (owo_prepared busyWorld ! pc_ref direct_part)"
    by (simp_all add: busyWorld_def directPrepared_def busyRegistry_def directRegistry_def registry_eval acquireOutboundRef_def)
  have commit: "fst (outbound_commit direct_part busyWorld) = Inr ()"
    by (simp add: outbound_commit_def with_outbound_def busyWorld_def busyRegistry_def directPrepared_def directRegistry_def registry_eval
      acquireOutboundRef_def switchGeneration_def commit_in_routing_def set_prepared_def directCandidate_def outboundHashes_def jm_has_get)
  then obtain w1 where w1: "outbound_commit direct_part busyWorld = (Inr (), w1)" by (metis prod.collapse)
  have refs: "obr_references (owo_registry busyWorld) =
      [\<lparr>orf_id = reference_name 1, orf_generationId = ''o0'', orf_tag = ''d'', orf_outbound = 0, orf_released = False\<rparr>]"
    and active: "obr_activeGenerationId (owo_registry busyWorld) = ''o0''"
    by (simp_all add: busyWorld_def busyRegistry_def directRegistry_def registry_eval acquireOutboundRef_def)
  have candidate: "og_id (opv_candidateGeneration (owo_prepared busyWorld ! pc_ref direct_part)) = ''g1-outbound''"
    by (simp add: busyWorld_def directPrepared_def direct_candidate)
  have "live_refs (obr_references (owo_registry busyWorld)) ''o0'' = 1" by (simp add: refs live_refs_def)
  with outbound_rollback_race [OF ok part(1) w1 part(2-4)] w1 show ?thesis unfolding active candidate refs by auto
qed

section \<open>A candidate stopped twice\<close>

text \<open>
  A connection over the candidate that ends between rollback and cleanup retires the candidate, which
  stops its outbounds; cleanup no longer finds the candidate and stops them again.
\<close>

definition draining_record :: runtime_record where
  "draining_record = \<lparr>rec_generation = directGeneration ''o0'', rec_usage = 0, rec_sequence = 0, rec_outbounds = [(''d'', 0)],
     rec_referencesByTag = [], rec_draining = True\<rparr>"

definition candidate_record :: runtime_record where
  "candidate_record = \<lparr>rec_generation = directCandidate ''g1'', rec_usage = 0, rec_sequence = 1, rec_outbounds = [(''d'', 1)],
     rec_referencesByTag = [], rec_draining = False\<rparr>"

definition committedWorld :: outbound_world where
  "committedWorld = \<lparr>owo_registry = \<lparr>obr_activeGenerationId = ''g1-outbound'',
       obr_records = [(''o0'', draining_record), (''g1-outbound'', candidate_record)], obr_references = [], obr_nextReferenceId = 1,
       obr_rejectedUnsupported = 0,
       obr_objects = [\<lparr>ro_tag = ''d'', ro_type = ''direct'', ro_stops = 0\<rparr>, \<lparr>ro_tag = ''d'', ro_type = ''direct'', ro_stops = 0\<rparr>]\<rparr>,
     owo_routing = sampleWorld,
     owo_prepared = [(directPrepared ''g1'' ''t1'')\<lparr>opv_switched := True, opv_committed := True\<rparr>]\<rparr>"

lemma directRegistry_records:
  "directRegistry = \<lparr>obr_activeGenerationId = ''o0'', obr_records = [(''o0'', draining_record\<lparr>rec_draining := False\<rparr>)],
     obr_references = [], obr_nextReferenceId = 1, obr_rejectedUnsupported = 0,
     obr_objects = [\<lparr>ro_tag = ''d'', ro_type = ''direct'', ro_stops = 0\<rparr>]\<rparr>"
  by (simp add: directRegistry_def draining_record_def registry_eval)

lemma direct_commit: "outbound_commit direct_part (directStaged ''g1'' ''t1'' ''direct'') = (Inr (), committedWorld)"
proof -
  have valid: "validateRuntimeEntries (directCandidate ''g1'') [(''d'', Suc 0)]
      [\<lparr>ro_tag = ''d'', ro_type = ''direct'', ro_stops = 0\<rparr>, \<lparr>ro_tag = ''d'', ro_type = ''direct'', ro_stops = 0\<rparr>] = Inr ()"
    by (simp add: directCandidate_def outboundHashes_def registry_eval)
  have old: "og_id (rec_generation draining_record) = ''o0''" by (simp add: draining_record_def direct_registry)
  show ?thesis
    by (simp add: outbound_commit_def with_outbound_def directStaged_def directPrepared_def switchGeneration_def valid direct_candidate old
        directRegistry_records commit_in_routing_def set_prepared_def committedWorld_def jm_has_get candidate_record_def Let_def)
      (simp add: draining_record_def)
qed

definition candidate_reference :: outbound_reference where
  "candidate_reference = \<lparr>orf_id = reference_name 1, orf_generationId = ''g1-outbound'', orf_tag = ''d'', orf_outbound = 1,
     orf_released = False\<rparr>"

definition twiceWorld :: outbound_world where
  "twiceWorld =
     on_registry (releaseOutboundRef 0)
       (snd (outbound_rollback direct_part
         (on_registry (\<lambda>r. snd (acquireOutboundRef ''d'' ''g1-outbound'' r))
           (snd (outbound_commit direct_part (directStaged ''g1'' ''t1'' ''direct''))))))"

definition connectedWorld :: outbound_world where
  "connectedWorld = committedWorld\<lparr>owo_registry := (owo_registry committedWorld)
     \<lparr>obr_records := [(''o0'', draining_record), (''g1-outbound'', candidate_record\<lparr>rec_usage := 1, rec_referencesByTag := [(''d'', 1)]\<rparr>)],
      obr_references := [candidate_reference], obr_nextReferenceId := 2\<rparr>\<rparr>"

definition restoredWorld :: outbound_world where
  "restoredWorld = connectedWorld\<lparr>owo_registry := (owo_registry connectedWorld)
     \<lparr>obr_records := [(''o0'', draining_record\<lparr>rec_draining := False\<rparr>),
        (''g1-outbound'', candidate_record\<lparr>rec_usage := 1, rec_referencesByTag := [(''d'', 1)], rec_draining := True\<rparr>)],
      obr_activeGenerationId := ''o0''\<rparr>, owo_prepared := [directPrepared ''g1'' ''t1'']\<rparr>"

lemma connected: "on_registry (\<lambda>r. snd (acquireOutboundRef ''d'' ''g1-outbound'' r)) committedWorld = connectedWorld"
  by (simp add: on_registry_def acquireOutboundRef_def committedWorld_def connectedWorld_def candidate_record_def candidate_reference_def Let_def)

lemma restored: "outbound_rollback direct_part connectedWorld = (Inr (), restoredWorld)"
  by (simp add: outbound_rollback_def with_outbound_def connectedWorld_def committedWorld_def directPrepared_def set_prepared_def
      restoreGeneration_def restoredWorld_def direct_candidate Let_def)

lemma twice_stages:
  "owo_prepared twiceWorld = [directPrepared ''g1'' ''t1'']"
  "obr_activeGenerationId (owo_registry twiceWorld) = ''o0''"
  "obr_records (owo_registry twiceWorld) = [(''o0'', draining_record\<lparr>rec_draining := False\<rparr>)]"
  "map ro_stops (obr_objects (owo_registry twiceWorld)) = [0, 1]"
  unfolding twiceWorld_def direct_commit snd_conv connected restored
  by (simp_all add: on_registry_def restoredWorld_def connectedWorld_def committedWorld_def
      releaseOutboundRef_def candidate_reference_def drop_reference_def candidate_record_def retireIfUnused_def stop_object_def jm_vals_def Let_def)

lemma outbound_cleanup_stops_twice:
  "map ro_stops (obr_objects (owo_registry twiceWorld)) = [0, 1] \<and>
   fst (outbound_cleanup direct_part twiceWorld) = Inr () \<and>
   map ro_stops (obr_objects (owo_registry (snd (outbound_cleanup direct_part twiceWorld)))) = [0, 2]"
proof -
  have part: "pc_ref direct_part < length (owo_prepared twiceWorld)" "owo_prepared twiceWorld ! pc_ref direct_part = directPrepared ''g1'' ''t1''"
    by (simp_all add: twice_stages)
  obtain x where x: "obr_records (owo_registry twiceWorld) = [(''o0'', x)]" "og_id (rec_generation x) = ''o0''"
    using twice_stages(3) direct_registry(3) by (simp add: draining_record_def)
  then obtain s where s: "registrySnapshot (owo_registry twiceWorld) = Inr s" "rss_generations s = [snapshotGeneration x]"
    using twice_stages(2) by (simp add: registrySnapshot_def requireRecord_def jm_vals_def Let_def)
  have "rgs_id (snapshotGeneration x) = ''o0''" using x(2) by (simp add: snapshotGeneration_def)
  with s(2) have "\<not> list_ex (\<lambda>g. rgs_id g = ''g1-outbound'') (rss_generations s)" by simp
  with part s(1) have clean: "outbound_cleanup direct_part twiceWorld =
      (Inr (), set_prepared direct_part (\<lambda>v. v\<lparr>opv_disposed := True\<rparr>)
        (twiceWorld\<lparr>owo_registry := stopOutbounds [(''d'', 1)] (owo_registry twiceWorld)\<rparr>))"
    by (simp add: outbound_cleanup_def with_outbound_def directPrepared_def direct_candidate Let_def)
  obtain b c where "obr_objects (owo_registry twiceWorld) = [b, c]" "ro_stops b = 0" "ro_stops c = 1"
    using twice_stages(4) by (auto simp: map_eq_Cons_conv)
  then show ?thesis unfolding clean by (simp add: stopOutbounds_def stop_object_def set_prepared_def jm_vals_def)
qed

end
