(* ===== verification/EngineWitness.thy ===== *)
theory EngineWitness
  imports EngineProofs OutboundWitness
begin

text \<open>
  A small engine with one direct outbound: a connection over it, a request that falls back from a
  missing outbound, and a reload that leaves UDP on the old outbound.
\<close>

definition samplePair :: "routing_pair \<times> policy_manager list" where
  "samplePair =
     (case createRoutingGenerationPair (\<lambda>c. ''r'') (\<lambda>p. ''p'') ''g0'' 0 sampleRoute [''a''] [] 0 [] of Inr gm \<Rightarrow> gm)"

definition directBuild :: "engine \<Rightarrow> engine" where
  "directBuild w = snd (buildComponents outboundHashes (\<lambda>c. Inr (outbound_tag c, ''direct'')) [sample_outbound ''a'' DirectOutbound]
     (directRoute\<lparr>rtc_defaultOutbound := ''a''\<rparr>) 0 w)"

definition builtEngine :: engine where
  "builtEngine = directBuild (newEngine (fst samplePair) (snd samplePair) None 0)"

definition webRequest :: proxy_request where
  "webRequest = \<lparr>pr_id = ''1'', pr_inboundTag = ''in'', pr_network = Tcp, pr_destination = makeDestination ''a.b'' 80, pr_startedAt = 0\<rparr>"

definition openedEngine :: engine where
  "openedEngine = settle (\<lambda>t. None) 0 5 0 1 (openTcp 0 0 webRequest builtEngine)"

lemma samplePair_parts:
  "gp_manager (fst samplePair) = 0" "length (snd samplePair) = 1" "pm_policies (snd samplePair ! 0) = []"
  "rt_rules (rgen_router (gp_router (fst samplePair))) = []" "rt_defaultOutbound (rgen_router (gp_router (fst samplePair))) = ''a''"
  by (simp_all add: samplePair_def routing_eval rbind_def)

definition firstRegistry :: outbound_registry where
  "firstRegistry =
     (case newOutboundRegistry
         (case newOutboundGeneration outboundHashes ''runtime-outbound-0'' [sample_outbound ''a'' DirectOutbound] ''a'' []
            (getHealthSnapshots (snd samplePair ! 0)) OActive None 0 of Inr g \<Rightarrow> g)
         [(''a'', 0)] [\<lparr>ro_tag = ''a'', ro_type = ''direct'', ro_stops = 0\<rparr>] of Inr r \<Rightarrow> r)"

lemma firstRegistry_parts:
  "obr_activeGenerationId firstRegistry = ''runtime-outbound-0''" "obr_references firstRegistry = []"
  "\<exists>x. jm_get (obr_records firstRegistry) ''runtime-outbound-0'' = Some x \<and> rec_outbounds x = [(''a'', 0)] \<and> rec_usage x = 0"
  "obr_objects firstRegistry = [\<lparr>ro_tag = ''a'', ro_type = ''direct'', ro_stops = 0\<rparr>]"
  by (simp_all add: firstRegistry_def registry_eval)

lemma builtEngine_eq:
  "builtEngine = (newEngine (fst samplePair) (snd samplePair) None 0)\<lparr>eg_outbounds := [(''a'', 0, ''direct'')], eg_registries := 1,
     eg_registry := Some firstRegistry, eg_componentsBuilt := True\<rparr>"
proof -
  have pair: "rr_managers (newRoutingRuntime (fst samplePair) (snd samplePair)) = snd samplePair"
    "rr_active (newRoutingRuntime (fst samplePair) (snd samplePair)) = fst samplePair" by (simp_all add: newRoutingRuntime_def)
  show ?thesis
    by (simp add: builtEngine_def directBuild_def buildComponents_def newEngine_def installOutbounds_def createOutboundRuntimeRegistry_def
      pair samplePair_parts directRoute_def firstRegistry_def registry_eval rbind_def)
qed

lemma builtEngine_reachable: "engine_reachable (newEngine (fst samplePair) (snd samplePair) None 0) builtEngine"
  unfolding builtEngine_def directBuild_def by (rule engine_reachable.step [OF engine_reachable.start engine_step.build])

lemma openedEngine_steps: "engine_reachable (newEngine (fst samplePair) (snd samplePair) None 0) openedEngine"
proof -
  let ?w = "openTcp 0 0 webRequest builtEngine"
  have opened: "engine_reachable (newEngine (fst samplePair) (snd samplePair) None 0) ?w"
    by (rule engine_reachable.step [OF builtEngine_reachable engine_step.open_tcp])
  have "openedEngine = ?w \<or> openedEngine = attempt_succeeds 0 0 5 ?w"
    by (simp add: openedEngine_def split: option.splits)
  with opened engine_reachable.step [OF opened engine_step.attempt_succeeds] show ?thesis by metis
qed

lemma web_selection:
  "selectPolicy 0 0 (res_outboundTag (rgen_match (gp_router (rr_active (eg_routing builtEngine))) (fst (restoreFakeIpDestination 0 webRequest builtEngine))))
     (rr_managers (eg_routing builtEngine) ! gp_manager (rr_active (eg_routing builtEngine))) =
     (\<lparr>ps_requestedTag = ''a'', ps_policyTag = None, ps_candidates = [''a'']\<rparr>, snd samplePair ! 0)"
  "gp_manager (rr_active (eg_routing builtEngine)) < length (rr_managers (eg_routing builtEngine))"
  "eg_tasks builtEngine = []" "eg_connections builtEngine = []" "rr_handles (eg_routing builtEngine) = []"
  by (simp_all add: builtEngine_eq newEngine_def newRoutingRuntime_def samplePair_parts restoreFakeIpDestination_def rgen_match_def
      router_match_def selectPolicy_def)

lemma open_tcp_first_answer_witness:
  "et_result (eg_tasks openedEngine ! 0) = Some (Opened 0) \<and> (\<exists>c. eg_connections openedEngine = [c] \<and> ec_outbound c = 0) \<and>
   oh_successes (health_of (manager_of 0 openedEngine) ''a'') = Suc (oh_successes (health_of (snd samplePair ! 0) ''a''))"
proof -
  have serves: "answers builtEngine (\<lambda>t. None) ''a''" "served builtEngine ''a'' = Some 0"
    using firstRegistry_parts by (auto simp: answers_def served_def getOutbound_def builtEngine_eq)
  have result: "et_result (eg_tasks openedEngine ! 0) = Some (Opened 0) \<and> manager_of 0 openedEngine = recordSuccess ''a'' 5 (snd samplePair ! 0) \<and>
      (\<exists>c. eg_connections openedEngine = [c] \<and> ec_outbound c = 0 \<and> \<not> ec_closed c)"
    using open_tcp_first_answer [OF web_selection(1,2) _ refl refl, of 1 "\<lambda>t. None" 5] serves
    by (simp add: web_selection openedEngine_def [symmetric] del: settle.simps One_nat_def)
  have "oh_successes (health_of (recordSuccess ''a'' 5 m) ''a'') = Suc (oh_successes (health_of m ''a''))" for m
    by (simp add: recordSuccess_def health_of_def getHealth_def split: option.splits)
  with result show ?thesis by auto
qed

lemma openedEngine_registry:
  "\<exists>r x. eg_registry openedEngine = Some r \<and> jm_get (obr_records r) ''runtime-outbound-0'' = Some x \<and> rec_usage x = 1"
proof -
  obtain x where x: "jm_get (obr_records firstRegistry) ''runtime-outbound-0'' = Some x" "rec_outbounds x = [(''a'', 0)]" "rec_usage x = 0"
    using firstRegistry_parts(3) by blast
  have "jm_get (rec_outbounds x) ''a'' = Some 0" by (simp add: x)
  then obtain r where acq: "acquireOutboundRef ''a'' ''runtime-outbound-0'' firstRegistry = (Some 0, r)"
    "\<exists>y. jm_get (obr_records r) ''runtime-outbound-0'' = Some y \<and> rec_usage y = 1"
    using x firstRegistry_parts(1,2) by (simp add: acquireOutboundRef_def Let_def)
  obtain task w where begun: "begin_request False 0 0 webRequest builtEngine = (task, w)" by fastforce
  note parts = begin_request_parts [OF begun web_selection(1,2)]
  show ?thesis
    using acq(2)
    by (simp add: openedEngine_def openTcp_def start_request_def begin_request_def tryCandidates_def pickOutbound_def builtEngine_eq newEngine_def
        newRoutingRuntime_def rt_acquire_def restoreFakeIpDestination_def on_engine_stats_def set_manager_def manager_of_def routing_of_def
        samplePair_parts selectPolicy_def rgen_match_def router_match_def acq(1) firstRegistry_parts attempt_succeeds_def attempt_of_def
        put_task_def succeed_attempt_def finish_task_def Let_def)
qed

lemma engine_no_leak_witness:
  "\<exists>r x. eg_registry openedEngine = Some r \<and> jm_get (obr_records r) ''runtime-outbound-0'' = Some x \<and> rec_usage x = 1 \<and>
     users openedEngine r ''runtime-outbound-0'' = 1"
proof -
  obtain r x where r: "eg_registry openedEngine = Some r" "jm_get (obr_records r) ''runtime-outbound-0'' = Some x" "rec_usage x = 1"
    using openedEngine_registry by blast
  moreover from engine_no_leak [OF openedEngine_steps] r have "rec_usage x = users openedEngine r ''runtime-outbound-0''" by blast
  ultimately show ?thesis by auto
qed






end
