(* ===== verification/Spec2Isabelle.thy ===== *)
theory Spec2Isabelle
  imports ReloadWitness FakeIp ConfigChecked SsProofs RequestHeader ConnProofs EngineWitness
begin

text \<open>
  A verification development for sepigs, a proxy engine in TypeScript for Node.js. Clients reach it
  through inbounds (HTTP, SOCKS5, Shadowsocks, Trojan). For every request the engine asks the router
  for an outbound or a policy, the policy for an order of outbounds, and tries these until one
  connects; DNS, fake addresses, limits and statistics serve this path. A configuration can be
  exchanged while traffic runs: a reload executor drives adapters that prepare, check, commit and, when
  something fails, roll back new generations of router, policies, DNS and outbounds, while connections
  keep the generation they started with. Paths below are relative to \<^verbatim>\<open>src/\<close> of the repository's
  package.

  \<^bold>\<open>Theories and sources.\<close>

  \<^item> \<^verbatim>\<open>Prelude\<close>, \<^verbatim>\<open>JsMap\<close>, \<^verbatim>\<open>Bytes\<close>: errors as values (\<^verbatim>\<open>utils/errors.ts\<close>; a fallible operation
    returns \<open>Inl\<close> of an error or \<open>Inr\<close>), string operations of JavaScript, its insertion-ordered
    \<^verbatim>\<open>Map\<close> as an association list, buffers as lists of 8-bit words; the locales
    \<open>invariant_system\<close> (an invariant kept by each step holds after every history) and
    \<open>keyed_store\<close>.
  \<^item> \<^verbatim>\<open>ConfigRead\<close>, \<^verbatim>\<open>ConfigSections\<close>, \<^verbatim>\<open>ConfigProxy\<close>, \<^verbatim>\<open>ConfigRoute\<close>: \<^verbatim>\<open>config/schema.ts\<close> from
    an untyped JSON value to \<open>parseConfig\<close>. A reader returns its value with the messages it reports.
    \<^verbatim>\<open>ConfigChecked\<close> shows what an accepted configuration satisfies: references, ranges, and how far
    the check of public listeners reaches.
  \<^item> \<^verbatim>\<open>Matcher\<close>, \<^verbatim>\<open>Router\<close>, \<^verbatim>\<open>Policy\<close>: \<^verbatim>\<open>router/matcher.ts\<close>, \<^verbatim>\<open>rules.ts\<close>, \<^verbatim>\<open>router.ts\<close>,
    \<^verbatim>\<open>policy.ts\<close>, \<^verbatim>\<open>health.ts\<close> and their generations. CIDR matching by shifts is compared with
    intervals, routing with an independent reading of the rules, selection with cyclic fairness, and
    health with the history of failures.
  \<^item> \<^verbatim>\<open>RoutingRuntime\<close>, \<^verbatim>\<open>RoutingAdapters\<close>: \<^verbatim>\<open>router/generation.ts\<close> and the router and policy adapters
    of \<^verbatim>\<open>reload/adapters\<close>; a reachability relation over acquire, release and transactions.
  \<^item> \<^verbatim>\<open>ReloadTxn\<close>, \<^verbatim>\<open>ReloadExecutor\<close>, \<^verbatim>\<open>ReloadProofs\<close>, \<^verbatim>\<open>ReloadContract\<close>, \<^verbatim>\<open>ReloadRuns\<close>,
    \<^verbatim>\<open>ReloadWitness\<close>: \<^verbatim>\<open>reload/types.ts\<close>, \<^verbatim>\<open>generation.ts\<close>, \<^verbatim>\<open>events.ts\<close>, \<^verbatim>\<open>metrics.ts\<close>,
    \<^verbatim>\<open>contract.ts\<close> and \<^verbatim>\<open>executor.ts\<close>. A component is a record of five operations on a world;
    timeouts, aborts and late completions are an environment the executor is run against. The contract
    of a component is the locale \<open>reload_contract\<close>, whose theorem says that a transaction that does
    not commit leaves what the components show as it was; the adapters of routing, DNS and outbounds
    interpret it.
  \<^item> \<^verbatim>\<open>DnsWire\<close>, \<^verbatim>\<open>DnsCache\<close>, \<^verbatim>\<open>DnsStore\<close>, \<^verbatim>\<open>DnsAdapter\<close>: \<^verbatim>\<open>dns/resolver.ts\<close>, \<^verbatim>\<open>singleFlight.ts\<close>,
    \<^verbatim>\<open>generation.ts\<close>, \<^verbatim>\<open>cacheCarryover.ts\<close>, \<^verbatim>\<open>generationStore.ts\<close> and
    \<^verbatim>\<open>reload/adapters/dnsRuntimeAdapter.ts\<close>. \<^verbatim>\<open>FakeIp\<close>: \<^verbatim>\<open>dns/fakeIp.ts\<close> with its pool and store.
  \<^item> \<^verbatim>\<open>OutboundGen\<close>, \<^verbatim>\<open>OutboundGenProofs\<close>: \<^verbatim>\<open>outbound/generation.ts\<close>, \<^verbatim>\<open>generationBuilder.ts\<close>,
    \<^verbatim>\<open>generationValidator.ts\<close>. \<^verbatim>\<open>OutboundRegistry\<close> with its \<^verbatim>\<open>Inv\<close> and \<^verbatim>\<open>Proofs\<close>:
    \<^verbatim>\<open>outbound/runtimeRegistry.ts\<close>. \<^verbatim>\<open>OutboundAdapter\<close>, \<^verbatim>\<open>OutboundReload\<close> with its \<^verbatim>\<open>Proofs\<close>,
    \<^verbatim>\<open>OutboundWitness\<close>: \<^verbatim>\<open>reload/adapters/outboundRuntimeAdapter.ts\<close> and the components of
    \<^verbatim>\<open>reload/runtimeIntegration.ts\<close>. Histories of a registry include the whole stop and the
    adapter's own stopping of a candidate.
  \<^item> \<^verbatim>\<open>ConnCore\<close>, \<^verbatim>\<open>ConnInv\<close>, \<^verbatim>\<open>ConnProofs\<close>: limiter, statistics, leak detector, timers and connection
    manager of \<^verbatim>\<open>core\<close>. \<^verbatim>\<open>EngineRoute\<close>, \<^verbatim>\<open>EngineInv\<close>, \<^verbatim>\<open>EngineProofs\<close>, \<^verbatim>\<open>EngineWitness\<close>: how
    \<^verbatim>\<open>core/engine.ts\<close> takes requests to outbounds, a step relation over requests that wait at every
    attempt, closing connections and reloads; it joins router, policies, routing runtime, registry,
    fake addresses and statistics.
  \<^item> \<^verbatim>\<open>AddrCodec\<close>, \<^verbatim>\<open>Handshake\<close>, \<^verbatim>\<open>RequestHeader\<close>: \<^verbatim>\<open>protocol/address.ts\<close>, \<^verbatim>\<open>inbound/socks5.ts\<close> over
    the reader of \<^verbatim>\<open>utils/net.ts\<close>, \<^verbatim>\<open>inbound/trojan.ts\<close>, \<^verbatim>\<open>inbound/shadowsocks.ts\<close>,
    \<^verbatim>\<open>outbound/trojan.ts\<close>, \<^verbatim>\<open>inbound/socks5Udp.ts\<close>. \<^verbatim>\<open>SsStream\<close>, \<^verbatim>\<open>SsProofs\<close>:
    \<^verbatim>\<open>protocol/shadowsocks.ts\<close> and \<^verbatim>\<open>utils/bufferQueue.ts\<close>, whose queue interprets the locale
    \<open>byte_queue\<close>.

  \<^bold>\<open>State.\<close> A class is a record, its methods are functions that return the record updated, and
  objects that others keep references to (outbounds, handles, generations, sockets, timers, policy
  managers) live in tables, lists indexed by reference. What happens between two \<^verbatim>\<open>await\<close>s is one
  function; interleaving is a history of events or a step relation, with invariants by induction.

  \<^bold>\<open>Parameters.\<close> Node's ciphers, HKDF and MD5, SHA-224 and the keyed SHA-256 hashes, the URL parser,
  lookups of the operating system and answers of DNS over HTTPS, clock readings, random numbers and
  salts, and the host's factories of outbounds are arguments; what a property needs of them is a
  hypothesis with an instance in its witness. Stopping an outbound is counted and taken to succeed.
  Identifiers of DNS candidates are taken to be unique (see \<^verbatim>\<open>DnsStore\<close>).

  \<^bold>\<open>Bounds and termination.\<close> Ports, lengths and IPv4 addresses are words or naturals with the bound
  checks of the source, the nonce of Shadowsocks is twelve bytes with its carry. Loops are recursion on
  the data or on a measure: skipping a DNS name advances, trimming a cache shrinks it, the read loop of
  Shadowsocks consumes bytes or halts. Two loops take a number of rounds: the search of the fake-IP pool
  tries every address once, and \<open>settle\<close>, which answers all attempts of one request, runs one round
  per candidate; both are proved to be enough.

  \<^bold>\<open>What the properties show.\<close> Reloading: transactions settle, failed ones leave routing, DNS and
  outbounds as they were, generations are counted exactly and released, and where a rollback can fail.
  Traffic: first matching rule, fair selection, circuit breaker, first answering outbound, nothing in use
  is stopped. Protocols: round trips whatever way the network cuts the bytes, authentication, nonces.
  Configuration: references, ranges and exposure. Connections: books that agree with what is open, and
  timers that close. Several properties state defects of the code as they are; the manifest lists them
  as findings.

  \<^bold>\<open>Not modelled.\<close> Sockets, listeners, TLS and relaying; the HTTP inbound; DNS over HTTPS; plugins,
  WebAssembly and workers; TUN, QUIC and WireGuard transports, which are stubs or wrappers; subscriptions;
  metrics, logging and the dashboard; the prober; reading and watching configuration files; the start and
  stop of servers in the engine; the dry-run and smoke harnesses. Strings are lists of 8-bit characters,
  a number of the configuration is an integer or some other number, and doubles of latencies are rationals.
\<close>

end
